(* ===== verification/Prelude.thy ===== *)
theory Prelude
  imports Main "HOL-Library.Word" "HOL-Library.Product_Lexorder" "HOL-Library.AList"
begin

section \<open>Shared types, results, ordered maps and strings\<close>

text \<open>
  What every component of the development shares: identifiers, Rust's \<open>Result\<close> as a sum
  type, the standard library's \<open>BTreeMap\<close> and \<open>HashMap\<close> as association lists behind one
  interface (the locale \<open>key_map\<close>), and the string operations of the standard library the
  sources use. Strings are lists of bytes, so \<open>length\<close> is Rust's \<open>str::len\<close>.
\<close>

named_theorems result_simps \<open>rewriting of results and of the question-mark operator\<close>
named_theorems map_laws \<open>lookup laws of the finite maps\<close>

text \<open>A \<open>Uuid\<close> is a 128-bit value, compared as an unsigned big-endian number.\<close>

type_synonym uuid = "128 word"

definition is_nil :: "uuid \<Rightarrow> bool" where
  "is_nil u \<longleftrightarrow> u = 0"

subsection \<open>Results\<close>

text \<open>\<open>Result<T, E>\<close> is \<open>'e + 'a\<close> with \<open>Inl\<close> for \<open>Err\<close>; \<open>and_then\<close> is the \<open>?\<close> operator.\<close>

type_synonym ('a, 'e) result = "'e + 'a"

definition and_then :: "'e + 'a \<Rightarrow> ('a \<Rightarrow> 'e + 'b) \<Rightarrow> 'e + 'b" where
  "and_then r f = (case r of Inl e \<Rightarrow> Inl e | Inr x \<Rightarrow> f x)"

definition ensure :: "bool \<Rightarrow> 'e \<Rightarrow> 'e + unit" where
  "ensure b e = (if b then Inr () else Inl e)"

definition is_ok :: "'e + 'a \<Rightarrow> bool" where
  "is_ok r \<longleftrightarrow> (case r of Inl _ \<Rightarrow> False | Inr _ \<Rightarrow> True)"

lemma and_then_simps [simp, result_simps]:
  "and_then (Inl e) f = Inl e" "and_then (Inr x) f = f x"
  by (simp_all add: and_then_def)

lemma and_then_eq_Inr [result_simps]:
  "and_then r f = Inr y \<longleftrightarrow> (\<exists>x. r = Inr x \<and> f x = Inr y)"
  by (cases r) simp_all

lemma ensure_simps [simp, result_simps]:
  "ensure True e = Inr ()" "ensure False e = Inl e"
  by (simp_all add: ensure_def)

lemma ensure_eq [result_simps]:
  "ensure b e = Inr x \<longleftrightarrow> b" "ensure b e = Inl e' \<longleftrightarrow> \<not> b \<and> e' = e"
  by (auto simp: ensure_def)

lemma is_ok_simps [simp, result_simps]:
  "is_ok (Inr x)" "\<not> is_ok (Inl e)"
  by (simp_all add: is_ok_def)

lemma is_ok_iff: "is_ok r \<longleftrightarrow> (\<exists>x. r = Inr x)"
  by (cases r) simp_all

lemma is_ok_and_then [result_simps]:
  "is_ok (and_then r f) \<longleftrightarrow> (\<exists>x. r = Inr x \<and> is_ok (f x))"
  by (cases r) simp_all

lemma is_ok_ensure [simp, result_simps]: "is_ok (ensure b e) \<longleftrightarrow> b"
  by (simp add: ensure_def)

subsection \<open>Iterating a fallible body over a list\<close>

text \<open>\<open>for x in xs { acc = body(x, acc)?; }\<close>\<close>

fun try_fold :: "('a \<Rightarrow> 'b \<Rightarrow> 'e + 'b) \<Rightarrow> 'a list \<Rightarrow> 'b \<Rightarrow> 'e + 'b" where
  "try_fold body [] acc = Inr acc"
| "try_fold body (x # xs) acc = and_then (body x acc) (try_fold body xs)"

lemma try_fold_append:
  "try_fold body (xs @ ys) acc = and_then (try_fold body xs acc) (try_fold body ys)"
proof (induction xs arbitrary: acc)
  case (Cons x xs)
  then show ?case by (cases "body x acc") simp_all
qed simp

lemma try_fold_invariant:
  assumes "try_fold body xs acc = Inr acc'" and "P acc"
    and "\<And>x a a'. x \<in> set xs \<Longrightarrow> P a \<Longrightarrow> body x a = Inr a' \<Longrightarrow> P a'"
  shows "P acc'"
  using assms
proof (induction xs arbitrary: acc)
  case (Cons x xs)
  from Cons.prems(1) obtain a where a: "body x acc = Inr a" "try_fold body xs a = Inr acc'"
    by (auto simp: and_then_eq_Inr)
  have "P a" by (rule Cons.prems(3) [OF _ Cons.prems(2) a(1)]) simp
  moreover have "P b'" if "y \<in> set xs" "P b" "body y b = Inr b'" for y b b'
    by (rule Cons.prems(3) [OF _ that(2,3)]) (simp add: that(1))
  ultimately show ?case by (rule Cons.IH [OF a(2)])
qed simp

subsection \<open>Finite maps behind one interface\<close>

text \<open>
  What the code relies on of a map: a fresh map has no entry, and a lookup after an insertion
  sees the inserted value at its key and the old one elsewhere. Both the ordered map
  (\<open>BTreeMap\<close>) and the hash map (\<open>HashMap\<close>, \<open>DashMap\<close>) provide it.
\<close>

locale key_map =
  fixes emp :: "'m"
    and ins :: "'k \<Rightarrow> 'v \<Rightarrow> 'm \<Rightarrow> 'm"
    and get :: "'m \<Rightarrow> 'k \<Rightarrow> 'v option"
  assumes get_emp: "get emp k = None"
    and get_ins: "get (ins k v m) k' = (if k' = k then Some v else get m k')"
begin

text \<open>Collecting an iterator of pairs into a map: the last pair of a key wins.\<close>

lemma get_fold_ins:
  "get (fold (\<lambda>x. ins (kf x) (vf x)) xs m) k =
     (case map_of (rev (map (\<lambda>x. (kf x, vf x)) xs)) k of None \<Rightarrow> get m k | Some v \<Rightarrow> Some v)"
  by (induction xs arbitrary: m) (auto simp: get_ins map_add_def split: option.splits)

lemma get_fold_ins_sound:
  "get (fold (\<lambda>x. ins (kf x) (vf x)) xs emp) k = Some v \<Longrightarrow> \<exists>x\<in>set xs. kf x = k \<and> vf x = v"
  by (auto simp: get_fold_ins get_emp dest!: map_of_SomeD split: option.splits)

lemma get_fold_ins_unique:
  assumes "distinct (map kf xs)" and "x \<in> set xs"
  shows "get (fold (\<lambda>x. ins (kf x) (vf x)) xs emp) (kf x) = Some (vf x)"
proof -
  let ?ys = "rev (map (\<lambda>x. (kf x, vf x)) xs)"
  have "distinct (map fst ?ys)" using assms(1) by (simp add: rev_map [symmetric] o_def)
  moreover have "(kf x, vf x) \<in> set ?ys" using assms(2) by auto
  ultimately have "map_of ?ys (kf x) = Some (vf x)" by (rule map_of_is_SomeI)
  then show ?thesis by (simp add: get_fold_ins)
qed

lemma get_fold_ins_some:
  assumes "x \<in> set xs"
  shows "get (fold (\<lambda>x. ins (kf x) (vf x)) xs emp) (kf x) \<noteq> None"
proof -
  have "kf x \<in> fst ` set (rev (map (\<lambda>x. (kf x, vf x)) xs))" using assms by force
  then have "map_of (rev (map (\<lambda>x. (kf x, vf x)) xs)) (kf x) \<noteq> None"
    by (simp add: map_of_eq_None_iff)
  then show ?thesis by (auto simp: get_fold_ins)
qed

end

subsubsection \<open>\<open>BTreeMap\<close>: association lists with ascending keys\<close>

fun bt_insert :: "'k::linorder \<Rightarrow> 'v \<Rightarrow> ('k \<times> 'v) list \<Rightarrow> ('k \<times> 'v) list" where
  "bt_insert k v [] = [(k, v)]"
| "bt_insert k v ((k', v') # m) =
     (if k < k' then (k, v) # (k', v') # m
      else if k = k' then (k, v) # m
      else (k', v') # bt_insert k v m)"

definition bt_wf :: "('k::linorder \<times> 'v) list \<Rightarrow> bool" where
  "bt_wf m \<longleftrightarrow> sorted_wrt (<) (map fst m)"

lemma map_of_bt_insert [simp, map_laws]:
  "map_of (bt_insert k v m) = (map_of m)(k \<mapsto> v)"
  by (induction k v m rule: bt_insert.induct) (auto simp: fun_eq_iff)

lemma keys_bt_insert: "fst ` set (bt_insert k v m) = insert k (fst ` set m)"
  by (induction k v m rule: bt_insert.induct) auto

lemma bt_wf_empty [simp]: "bt_wf []"
  by (simp add: bt_wf_def)

lemma bt_wf_insert [simp]: "bt_wf m \<Longrightarrow> bt_wf (bt_insert k v m)"
proof (induction k v m rule: bt_insert.induct)
  case (2 k v k' v' m)
  have keys: "x \<in> fst ` set (bt_insert k v m) \<longleftrightarrow> x = k \<or> x \<in> fst ` set m" for x
    by (simp add: keys_bt_insert)
  show ?case
  proof (cases "k < k'")
    case True
    with "2.prems" show ?thesis by (auto simp: bt_wf_def)
  next
    case False
    show ?thesis
    proof (cases "k = k'")
      case True
      with "2.prems" show ?thesis by (simp add: bt_wf_def)
    next
      case neq: False
      with False have "k' < k" by simp
      moreover have "bt_wf (bt_insert k v m)"
        using "2.IH" [OF False neq] "2.prems" by (simp add: bt_wf_def)
      ultimately show ?thesis
        using "2.prems" False neq keys by (fastforce simp: bt_wf_def)
    qed
  qed
qed (simp add: bt_wf_def)

lemma bt_wf_distinct: "bt_wf m \<Longrightarrow> distinct (map fst m)"
  by (simp add: bt_wf_def strict_sorted_iff)

lemma bt_wf_map_of: "bt_wf m \<Longrightarrow> map_of m k = Some v \<longleftrightarrow> (k, v) \<in> set m"
  by (simp add: bt_wf_distinct)

interpretation bt: key_map "[]" bt_insert map_of
  by unfold_locales simp_all

subsubsection \<open>\<open>HashMap\<close> and \<open>DashMap\<close>: association lists in some order\<close>

interpretation hm: key_map "[]" AList.update map_of
  by unfold_locales (simp_all add: update_conv')

lemma map_of_update [simp, map_laws]: "map_of (AList.update k v m) k' = (if k' = k then Some v else map_of m k')"
  by (simp add: update_conv')

lemma map_of_delete [simp, map_laws]: "map_of (AList.delete k m) k' = (if k' = k then None else map_of m k')"
  by (simp add: delete_conv')

subsection \<open>Strings and bytes\<close>

text \<open>\<open>str::split(char)\<close>: the pieces between the separators, at least one.\<close>

fun split_on :: "char \<Rightarrow> string \<Rightarrow> string list" where
  "split_on c [] = [[]]"
| "split_on c (x # xs) =
     (if x = c then [] # split_on c xs
      else case split_on c xs of [] \<Rightarrow> [[x]] | p # ps \<Rightarrow> (x # p) # ps)"

fun join_with :: "char \<Rightarrow> string list \<Rightarrow> string" where
  "join_with c [] = []"
| "join_with c [p] = p"
| "join_with c (p # q # ps) = p @ c # join_with c (q # ps)"

lemma split_on_not_Nil [simp]: "split_on c s \<noteq> []"
  by (cases s) (auto split: list.splits)

lemma join_split_on: "join_with c (split_on c s) = s"
proof (induction s)
  case (Cons x xs)
  obtain p ps where ps: "split_on c xs = p # ps"
    using split_on_not_Nil by (metis list.exhaust)
  with Cons show ?case by (cases ps) auto
qed simp

lemma split_on_no_sep: "p \<in> set (split_on c s) \<Longrightarrow> c \<notin> set p"
proof (induction s arbitrary: p)
  case (Cons x xs)
  then show ?case by (cases "split_on c xs") (auto split: if_splits)
qed simp

lemma split_on_append_sep:
  "c \<notin> set p \<Longrightarrow> split_on c (p @ c # s) = p # split_on c s"
  by (induction p) auto

lemma split_on_no_sep_self: "c \<notin> set p \<Longrightarrow> split_on c p = [p]"
  by (induction p) auto

lemma split_join:
  "ps \<noteq> [] \<Longrightarrow> (\<forall>p\<in>set ps. c \<notin> set p) \<Longrightarrow> split_on c (join_with c ps) = ps"
  by (induction c ps rule: join_with.induct) (auto simp: split_on_no_sep_self split_on_append_sep)

definition starts_with :: "'a list \<Rightarrow> 'a list \<Rightarrow> bool" where
  "starts_with p s \<longleftrightarrow> take (length p) s = p"

definition strip_prefix :: "'a list \<Rightarrow> 'a list \<Rightarrow> 'a list option" where
  "strip_prefix p s = (if starts_with p s then Some (drop (length p) s) else None)"

lemma starts_with_append [simp]: "starts_with p (p @ s)"
  by (simp add: starts_with_def)

lemma strip_prefix_append [simp]: "strip_prefix p (p @ s) = Some s"
  by (simp add: strip_prefix_def)

lemma strip_prefix_Some: "strip_prefix p s = Some r \<longleftrightarrow> s = p @ r"
proof
  assume "strip_prefix p s = Some r"
  then have "take (length p) s = p" "drop (length p) s = r"
    by (auto simp: strip_prefix_def starts_with_def split: if_splits)
  then show "s = p @ r" by (metis append_take_drop_id)
qed simp

subsubsection \<open>ASCII classes\<close>

definition byte :: "char \<Rightarrow> nat" where
  "byte c = of_char c"

definition is_ascii_digit :: "char \<Rightarrow> bool" where
  "is_ascii_digit c \<longleftrightarrow> 48 \<le> byte c \<and> byte c \<le> 57"

definition is_ascii_uppercase :: "char \<Rightarrow> bool" where
  "is_ascii_uppercase c \<longleftrightarrow> 65 \<le> byte c \<and> byte c \<le> 90"

definition is_ascii_lowercase :: "char \<Rightarrow> bool" where
  "is_ascii_lowercase c \<longleftrightarrow> 97 \<le> byte c \<and> byte c \<le> 122"

definition is_ascii_alphanumeric :: "char \<Rightarrow> bool" where
  "is_ascii_alphanumeric c \<longleftrightarrow> is_ascii_digit c \<or> is_ascii_uppercase c \<or> is_ascii_lowercase c"

definition is_lowercase_hexdigit :: "char \<Rightarrow> bool" where
  "is_lowercase_hexdigit c \<longleftrightarrow> is_ascii_digit c \<or> (97 \<le> byte c \<and> byte c \<le> 102)"

definition is_ascii_hexdigit :: "char \<Rightarrow> bool" where
  "is_ascii_hexdigit c \<longleftrightarrow> is_lowercase_hexdigit c \<or> (65 \<le> byte c \<and> byte c \<le> 70)"

lemmas ascii_defs =
  byte_def is_ascii_digit_def is_ascii_uppercase_def is_ascii_lowercase_def
  is_ascii_alphanumeric_def is_lowercase_hexdigit_def is_ascii_hexdigit_def

text \<open>Byte strings, and the bytes of a string.\<close>

type_synonym bytes = "8 word list"

definition ascii_bytes :: "string \<Rightarrow> bytes" where
  "ascii_bytes s = map (\<lambda>c. word_of_nat (byte c)) s"

subsection \<open>Numbers as text\<close>

text \<open>The decimal form of an unsigned integer, and reading digits back.\<close>

fun decimal :: "nat \<Rightarrow> string" where
  "decimal n = (if n < 10 then [char_of (48 + n)] else decimal (n div 10) @ [char_of (48 + n mod 10)])"

declare decimal.simps [simp del]

fun decimal_value :: "nat \<Rightarrow> string \<Rightarrow> nat" where
  "decimal_value acc [] = acc"
| "decimal_value acc (c # cs) = decimal_value (10 * acc + (byte c - 48)) cs"

lemma decimal_value_append: "decimal_value acc (s @ t) = decimal_value (decimal_value acc s) t"
  by (induction s arbitrary: acc) auto

lemma decimal_digits: "c \<in> set (decimal n) \<Longrightarrow> is_ascii_digit c"
proof (induction n rule: decimal.induct)
  case (1 n)
  then show ?case
    by (subst (asm) (2) decimal.simps) (auto simp: is_ascii_digit_def byte_def split: if_splits)
qed

lemma decimal_inverse: "decimal_value 0 (decimal n) = n"
proof (induction n rule: decimal.induct)
  case (1 n)
  show ?case
  proof (cases "n < 10")
    case True
    then show ?thesis by (simp add: decimal.simps [of n] byte_def)
  next
    case False
    with 1 show ?thesis by (simp add: decimal.simps [of n] decimal_value_append byte_def)
  qed
qed

lemma decimal_length: "n < 10 ^ k \<Longrightarrow> 0 < k \<Longrightarrow> length (decimal n) \<le> k"
proof (induction n arbitrary: k rule: decimal.induct)
  case (1 n)
  show ?case
  proof (cases "n < 10")
    case True
    with 1 show ?thesis by (simp add: decimal.simps [of n])
  next
    case False
    obtain j where k: "k = Suc j" using 1 by (cases k) auto
    have "n div 10 < 10 ^ j" using 1(2) by (simp add: k less_mult_imp_div_less mult.commute)
    moreover have "0 < j" using False 1(2) k by (cases j) auto
    ultimately show ?thesis using 1(1) [OF False, of j] False by (simp add: decimal.simps [of n] k)
  qed
qed

lemma leading_zeros: "decimal_value 0 (replicate m (CHR ''0'') @ s) = decimal_value 0 s"
  by (induction m) (simp_all add: byte_def)

text \<open>\<open>str::parse\<close> for an unsigned integer of \<open>w\<close> bits: an optional plus sign and digits.\<close>

definition parse_unsigned :: "nat \<Rightarrow> string \<Rightarrow> nat option" where
  "parse_unsigned w s =
     (let digits = (case s of c # cs \<Rightarrow> if c = CHR ''+'' then cs else s | [] \<Rightarrow> []) in
      if digits = [] \<or> \<not> (\<forall>c\<in>set digits. is_ascii_digit c) then None
      else let n = decimal_value 0 digits in if n < 2 ^ w then Some n else None)"

lemma decimal_not_Nil [simp]: "decimal n \<noteq> []"
  by (subst decimal.simps) simp

lemma decimal_inject [simp]: "decimal m = decimal n \<longleftrightarrow> m = n"
  by (metis decimal_inverse)

lemma parse_unsigned_decimal: "n < 2 ^ w \<Longrightarrow> parse_unsigned w (decimal n) = Some n"
proof -
  assume "n < 2 ^ w"
  obtain c cs where d: "decimal n = c # cs" by (cases "decimal n") auto
  have digits: "\<forall>c\<in>set (decimal n). is_ascii_digit c" using decimal_digits by blast
  then have "c \<noteq> CHR ''+''" by (auto simp: d is_ascii_digit_def byte_def)
  then show ?thesis
    using \<open>n < 2 ^ w\<close> digits decimal_inverse [of n] by (simp add: parse_unsigned_def d)
qed

subsection \<open>Narrowing conversions\<close>

text \<open>\<open>u32::try_from(i).ok()\<close>: \<open>None\<close> outside the range of \<open>u32\<close>.\<close>

definition u32_try_from :: "int \<Rightarrow> nat option" where
  "u32_try_from i = (if 0 \<le> i \<and> i < 2 ^ 32 then Some (nat i) else None)"

lemma u32_try_from_Some: "u32_try_from i = Some n \<longleftrightarrow> i = int n \<and> n < 2 ^ 32"
  by (auto simp: u32_try_from_def)

text \<open>The number of distinct elements, as a \<open>BTreeSet\<close> collected from the list has it.\<close>

definition unique_count :: "'a list \<Rightarrow> nat" where
  "unique_count xs = card (set xs)"

lemma unique_count_distinct: "unique_count xs = length xs \<longleftrightarrow> distinct xs"
  by (auto simp: unique_count_def distinct_card card_distinct)

end
