(* ===== verification/Calendar.thy ===== *)
theory Calendar
  imports Prelude
begin

section \<open>Calendar dates\<close>

text \<open>
  The domain crate takes its dates from the \<open>chrono\<close> package, which is not part of the
  repository. Its \<open>NaiveDate\<close> is a type variable \<open>'d\<close> of class \<open>linorder\<close> and the
  functions the code calls are the fields of the record \<open>chrono\<close>, which every definition
  that uses a date takes as an argument. The locale \<open>chrono_calendar\<close> collects what the
  code relies on, as \<open>chrono\<close> documents it: dates are ordered by year, month and day,
  \<open>succ_opt\<close> is the next day or \<open>None\<close> on the last representable one, and
  \<open>from_ymd_opt\<close> finds a date by its fields. The proleptic Gregorian calendar over the
  years \<open>chrono\<close> supports satisfies it (the interpretation \<open>gregorian\<close>).
  A \<open>NaiveTime\<close> is only ever compared, so a time of day is a number (of nanoseconds since
  midnight).
\<close>

type_synonym naive_time = nat

datatype chrono_weekday = Mon | Tue | Wed | Thu | Fri | Sat | Sun

record 'd chrono =
  year :: "'d \<Rightarrow> int"
  month :: "'d \<Rightarrow> nat"
  day :: "'d \<Rightarrow> nat"
  weekday_of :: "'d \<Rightarrow> chrono_weekday"
  succ_opt :: "'d \<Rightarrow> 'd option"
  from_ymd_opt :: "int \<Rightarrow> nat \<Rightarrow> nat \<Rightarrow> 'd option"

definition min_year :: int where
  "min_year = -262143"

definition max_year :: int where
  "max_year = 262142"

subsection \<open>What the code relies on\<close>

locale chrono_calendar =
  fixes cal :: "'d::linorder chrono"
  assumes date_less: "d < e \<longleftrightarrow> (year cal d, month cal d, day cal d) < (year cal e, month cal e, day cal e)"
    and year_range: "min_year \<le> year cal d" "year cal d \<le> max_year"
    and month_range: "1 \<le> month cal d" "month cal d \<le> 12"
    and day_range: "1 \<le> day cal d" "day cal d \<le> 31"
    and succ_Some: "succ_opt cal d = Some e \<Longrightarrow> d < e \<and> (\<forall>x. d < x \<longrightarrow> e \<le> x)"
    and succ_None: "succ_opt cal d = None \<Longrightarrow> x \<le> d"
    and finite_interval: "finite {d..e}"
    and from_ymd: "from_ymd_opt cal y m n = Some d \<longleftrightarrow> year cal d = y \<and> month cal d = m \<and> day cal d = n"
    and first_days: "min_year \<le> y \<Longrightarrow> y \<le> max_year \<Longrightarrow> 1 \<le> m \<Longrightarrow> m \<le> 12 \<Longrightarrow> 1 \<le> n \<Longrightarrow> n \<le> 28 \<Longrightarrow>
          from_ymd_opt cal y m n \<noteq> None"
    and same_days: "from_ymd_opt cal y m n \<noteq> None \<Longrightarrow> \<not> (m = 2 \<and> n = 29) \<Longrightarrow>
          min_year \<le> y' \<Longrightarrow> y' \<le> max_year \<Longrightarrow> from_ymd_opt cal y' m n \<noteq> None"
begin

lemma succ_bounds:
  assumes "succ_opt cal d = Some e" and "d < z"
  shows "e \<le> z" "{d..z} = insert d {e..z}" "d \<notin> {e..z}" "card {e..z} < card {d..z}"
proof -
  from succ_Some [OF assms(1)] have de: "d < e" and next_day: "\<And>x. d < x \<Longrightarrow> e \<le> x" by auto
  show "e \<le> z" using next_day assms(2) by blast
  have "x = d \<or> e \<le> x" if "d \<le> x" for x using next_day [of x] that by (cases "x = d") auto
  then show eq: "{d..z} = insert d {e..z}" using de assms(2) by fastforce
  show notin: "d \<notin> {e..z}" using de by auto
  show "card {e..z} < card {d..z}"
    unfolding eq using finite_interval [of e z] notin by simp
qed

lemma succ_exists: "d < z \<Longrightarrow> \<exists>e. succ_opt cal d = Some e"
  using succ_None [of d z] by (cases "succ_opt cal d") auto

text \<open>The days of an interval in ascending order, first day first.\<close>

lemma sorted_days_step:
  assumes "succ_opt cal d = Some e" and "d < z"
  shows "sorted_list_of_set {d..z} = d # sorted_list_of_set {e..z}"
proof -
  note b = succ_bounds [OF assms]
  have "\<forall>x\<in>{e..z}. d < x" using succ_Some [OF assms(1)] by auto
  then show ?thesis
    unfolding b(2) using b(3) finite_interval [of e z]
    by (simp add: sorted_list_of_set_insert_remove insort_is_Cons less_imp_le)
qed

lemma ymd_unique: "year cal d = year cal e \<Longrightarrow> month cal d = month cal e \<Longrightarrow> day cal d = day cal e \<Longrightarrow> d = e"
  using date_less [of d e] date_less [of e d] by auto

end

subsection \<open>The proleptic Gregorian calendar\<close>

definition is_leap_year :: "int \<Rightarrow> bool" where
  "is_leap_year y \<longleftrightarrow> y mod 4 = 0 \<and> (y mod 100 \<noteq> 0 \<or> y mod 400 = 0)"

definition days_in_month :: "int \<Rightarrow> nat \<Rightarrow> nat" where
  "days_in_month y m =
     (if m = 2 then (if is_leap_year y then 29 else 28)
      else if m \<in> {4, 6, 9, 11} then 30 else 31)"

definition valid_ymd :: "int \<times> nat \<times> nat \<Rightarrow> bool" where
  "valid_ymd = (\<lambda>(y, m, d). min_year \<le> y \<and> y \<le> max_year \<and> 1 \<le> m \<and> m \<le> 12 \<and>
     1 \<le> d \<and> d \<le> days_in_month y m)"

typedef civil_date = "{x. valid_ymd x}"
  by (rule exI [of _ "(2000, 1, 1)"])
    (simp add: valid_ymd_def min_year_def max_year_def days_in_month_def)

definition civil :: "int \<Rightarrow> nat \<Rightarrow> nat \<Rightarrow> civil_date" where
  "civil y m d = Abs_civil_date (y, m, d)"

instantiation civil_date :: linorder
begin

definition less_eq_civil_date :: "civil_date \<Rightarrow> civil_date \<Rightarrow> bool" where
  "less_eq_civil_date d e \<longleftrightarrow> Rep_civil_date d \<le> Rep_civil_date e"

definition less_civil_date :: "civil_date \<Rightarrow> civil_date \<Rightarrow> bool" where
  "less_civil_date d e \<longleftrightarrow> Rep_civil_date d < Rep_civil_date e"

instance
  by standard
    (auto simp: less_eq_civil_date_def less_civil_date_def simp flip: Rep_civil_date_inject)

end

lemma Rep_civil [simp]: "valid_ymd (y, m, d) \<Longrightarrow> Rep_civil_date (civil y m d) = (y, m, d)"
  by (simp add: civil_def Abs_civil_date_inverse)

lemma valid_Rep: "valid_ymd (Rep_civil_date d)"
  using Rep_civil_date [of d] by simp

definition day_number :: "int \<times> nat \<times> nat \<Rightarrow> int" where
  "day_number = (\<lambda>(y, m, d). 365 * (y - 1) + (y - 1) div 4 - (y - 1) div 100 + (y - 1) div 400 +
     int (sum_list (map (days_in_month y) [1..<m])) + int d)"

definition weekday_index :: "int \<Rightarrow> chrono_weekday" where
  "weekday_index n = [Mon, Tue, Wed, Thu, Fri, Sat, Sun] ! nat ((n - 1) mod 7)"

fun next_day :: "int \<times> nat \<times> nat \<Rightarrow> int \<times> nat \<times> nat" where
  "next_day (y, m, d) =
     (if d < days_in_month y m then (y, m, d + 1)
      else if m < 12 then (y, m + 1, 1)
      else (y + 1, 1, 1))"

definition gregorian_cal :: "civil_date chrono" where
  "gregorian_cal = \<lparr>
     year = fst \<circ> Rep_civil_date,
     month = fst \<circ> snd \<circ> Rep_civil_date,
     day = snd \<circ> snd \<circ> Rep_civil_date,
     weekday_of = weekday_index \<circ> day_number \<circ> Rep_civil_date,
     succ_opt = (\<lambda>d. if valid_ymd (next_day (Rep_civil_date d))
                     then Some (Abs_civil_date (next_day (Rep_civil_date d))) else None),
     from_ymd_opt = (\<lambda>y m d. if valid_ymd (y, m, d) then Some (civil y m d) else None)\<rparr>"

lemma gregorian_fields [simp]:
  "year gregorian_cal d = fst (Rep_civil_date d)"
  "month gregorian_cal d = fst (snd (Rep_civil_date d))"
  "day gregorian_cal d = snd (snd (Rep_civil_date d))"
  "weekday_of gregorian_cal d = weekday_index (day_number (Rep_civil_date d))"
  "from_ymd_opt gregorian_cal y m n = (if valid_ymd (y, m, n) then Some (civil y m n) else None)"
  by (simp_all add: gregorian_cal_def)

lemma gregorian_succ [simp]:
  "succ_opt gregorian_cal d = (if valid_ymd (next_day (Rep_civil_date d))
     then Some (Abs_civil_date (next_day (Rep_civil_date d))) else None)"
  by (simp add: gregorian_cal_def)

lemma days_in_month_bounds: "28 \<le> days_in_month y m" "days_in_month y m \<le> 31"
  by (simp_all add: days_in_month_def)

lemma lex_triple:
  fixes a :: "'a::linorder" and b :: "'b::linorder" and c :: "'c::linorder"
  shows "(a, b, c) < (a', b', c') \<longleftrightarrow> a < a' \<or> a = a' \<and> (b < b' \<or> b = b' \<and> c < c')"
    and "(a, b, c) \<le> (a', b', c') \<longleftrightarrow> a < a' \<or> a = a' \<and> (b < b' \<or> b = b' \<and> c \<le> c')"
  by (auto simp: less_prod_def less_eq_prod_def)

lemma next_day_least:
  "valid_ymd x \<Longrightarrow> valid_ymd z \<Longrightarrow> x < z \<Longrightarrow> next_day x \<le> z"
  by (cases x; cases z) (auto simp: valid_ymd_def lex_triple simp del: less_prod_simp less_eq_prod_simp)

lemma less_next_day: "x < next_day x"
  by (cases x) (auto simp: lex_triple simp del: less_prod_simp less_eq_prod_simp)

lemma next_day_invalid_max:
  "valid_ymd x \<Longrightarrow> \<not> valid_ymd (next_day x) \<Longrightarrow> valid_ymd z \<Longrightarrow> z \<le> x"
proof (rule ccontr)
  assume x: "valid_ymd x" and n: "\<not> valid_ymd (next_day x)" and z: "valid_ymd z" and "\<not> z \<le> x"
  then have "next_day x \<le> z" by (intro next_day_least) auto
  moreover have "next_day x = (y + 1, 1, 1) \<and> y = max_year" if "x = (y, m, d)" for y m d
    using x n that days_in_month_bounds(1) [of y "m + 1"] days_in_month_bounds(1) [of "y + 1" 1]
    by (auto simp: valid_ymd_def split: if_splits)
  ultimately show False using z
    by (cases x; cases z) (auto simp: valid_ymd_def lex_triple simp del: less_prod_simp less_eq_prod_simp next_day.simps)
qed

lemma finite_civil: "finite (S :: civil_date set)"
proof -
  have "{x. valid_ymd x} \<subseteq> {min_year..max_year} \<times> {1..12} \<times> {1..31}"
    using days_in_month_bounds(2) by (fastforce simp: valid_ymd_def intro: order_trans)
  then have "finite {x. valid_ymd x}" by (rule finite_subset) simp
  then have "finite (Abs_civil_date ` {x. valid_ymd x})" by simp
  moreover have "S \<subseteq> Abs_civil_date ` {x. valid_ymd x}"
    using valid_Rep Rep_civil_date_inverse by (metis image_eqI mem_Collect_eq subsetI)
  ultimately show ?thesis by (rule finite_subset [rotated])
qed

lemma same_length_months:
  "\<not> (m = 2 \<and> n = 29) \<Longrightarrow> n \<le> days_in_month y m \<Longrightarrow> n \<le> days_in_month y' m"
  by (auto simp: days_in_month_def split: if_splits)

interpretation gregorian: chrono_calendar gregorian_cal
proof unfold_locales
  fix d e x :: civil_date and y y' m n
  have rng: "valid_ymd (Rep_civil_date d)" for d by (rule valid_Rep)
  show "d < e \<longleftrightarrow> (year gregorian_cal d, month gregorian_cal d, day gregorian_cal d)
      < (year gregorian_cal e, month gregorian_cal e, day gregorian_cal e)"
    by (simp add: less_civil_date_def)
  show "min_year \<le> year gregorian_cal d" "year gregorian_cal d \<le> max_year"
    "1 \<le> month gregorian_cal d" "month gregorian_cal d \<le> 12" "1 \<le> day gregorian_cal d"
    using rng [of d] by (auto simp: valid_ymd_def split: prod.splits)
  show "day gregorian_cal d \<le> 31"
    using rng [of d] days_in_month_bounds(2) by (auto simp: valid_ymd_def split: prod.splits intro: order_trans)
  show "d < e \<and> (\<forall>x. d < x \<longrightarrow> e \<le> x)" if "succ_opt gregorian_cal d = Some e"
  proof -
    from that have "valid_ymd (next_day (Rep_civil_date d))"
      and e: "Rep_civil_date e = next_day (Rep_civil_date d)"
      by (auto simp: Abs_civil_date_inverse split: if_splits)
    then show ?thesis
      using next_day_least [OF rng rng] less_next_day
      by (auto simp: less_civil_date_def less_eq_civil_date_def simp del: next_day.simps)
  qed
  show "x \<le> d" if "succ_opt gregorian_cal d = None"
    using that next_day_invalid_max [OF rng _ rng, of d x]
    by (auto simp: less_eq_civil_date_def simp del: next_day.simps split: if_splits)
  show "finite {d..e}" by (rule finite_civil)
  show "from_ymd_opt gregorian_cal y m n = Some d \<longleftrightarrow>
      year gregorian_cal d = y \<and> month gregorian_cal d = m \<and> day gregorian_cal d = n"
    using rng [of d] by (auto simp: Rep_civil_date_inverse civil_def Abs_civil_date_inverse)
  show "from_ymd_opt gregorian_cal y m n \<noteq> None"
    if "min_year \<le> y" "y \<le> max_year" "1 \<le> m" "m \<le> 12" "1 \<le> n" "n \<le> 28"
    using that days_in_month_bounds(1) [of y m] by (simp add: valid_ymd_def)
  show "from_ymd_opt gregorian_cal y' m n \<noteq> None"
    if "from_ymd_opt gregorian_cal y m n \<noteq> None" "\<not> (m = 2 \<and> n = 29)" "min_year \<le> y'" "y' \<le> max_year"
    using that same_length_months [of m n y y'] by (simp add: valid_ymd_def split: if_splits)
qed

lemma civil_order [simp]:
  assumes "valid_ymd (y, m, d)" and "valid_ymd (y', m', d')"
  shows "civil y m d < civil y' m' d' \<longleftrightarrow> (y, m, d) < (y', m', d')"
    and "civil y m d \<le> civil y' m' d' \<longleftrightarrow> (y, m, d) \<le> (y', m', d')"
    and "civil y m d = civil y' m' d' \<longleftrightarrow> (y, m, d) = (y', m', d')"
  using assms by (simp_all add: less_civil_date_def less_eq_civil_date_def flip: Rep_civil_date_inject)

lemma Abs_civil: "Abs_civil_date t = civil (fst t) (fst (snd t)) (snd (snd t))"
  by (simp add: civil_def)

lemma gregorian_succ_civil:
  assumes "valid_ymd (y, m, d)"
  shows "succ_opt gregorian_cal (civil y m d) =
     (if valid_ymd (next_day (y, m, d))
      then Some (civil (fst (next_day (y, m, d))) (fst (snd (next_day (y, m, d)))) (snd (snd (next_day (y, m, d)))))
      else None)"
  using assms by (simp add: Abs_civil [symmetric] del: next_day.simps)

lemmas civil_eval = valid_ymd_def min_year_def max_year_def days_in_month_def is_leap_year_def

end
