(* ===== verification/Age.thy ===== *)
theory Age
  imports Calendar
begin

section \<open>Ages in completed months (\<open>crates/airhop-core/src/age.rs\<close>)\<close>

text \<open>
  Inclusive age limits of a group and the exact calendar age at a lesson. A month count is a
  \<open>u32\<close>; the intermediate \<open>i32\<close> arithmetic cannot overflow for the years \<open>chrono\<close> supports
  (\<open>month_difference_bounds\<close>), so it is written over \<open>int\<close>.
\<close>

record age_limits =
  minimum_months :: "nat option"
  maximum_months :: "nat option"

datatype age_limits_error = Reversed

definition age_limits_new :: "nat option \<Rightarrow> nat option \<Rightarrow> (age_limits, age_limits_error) result" where
  "age_limits_new mn mx =
     (if (case (mn, mx) of (Some lo, Some hi) \<Rightarrow> lo > hi | _ \<Rightarrow> False)
      then Inl Reversed
      else Inr \<lparr>minimum_months = mn, maximum_months = mx\<rparr>)"

definition contains_completed_months :: "age_limits \<Rightarrow> nat \<Rightarrow> bool" where
  "contains_completed_months l months \<longleftrightarrow>
     (case minimum_months l of None \<Rightarrow> True | Some lo \<Rightarrow> months \<ge> lo) \<and>
     (case maximum_months l of None \<Rightarrow> True | Some hi \<Rightarrow> months \<le> hi)"

definition completed_months_on :: "'d::linorder chrono \<Rightarrow> 'd \<Rightarrow> 'd \<Rightarrow> nat option" where
  "completed_months_on cal birth_date lesson_date =
     (if lesson_date < birth_date then None
      else let years = year cal lesson_date - year cal birth_date;
               months = years * 12 + int (month cal lesson_date) - int (month cal birth_date);
               months = (if day cal lesson_date < day cal birth_date then months - 1 else months)
           in u32_try_from months)"

definition contains_birth_date :: "'d::linorder chrono \<Rightarrow> age_limits \<Rightarrow> 'd \<Rightarrow> 'd \<Rightarrow> bool" where
  "contains_birth_date cal l birth_date lesson_date =
     (case completed_months_on cal birth_date lesson_date of
        None \<Rightarrow> False
      | Some months \<Rightarrow> contains_completed_months l months)"

subsection \<open>Months as a count\<close>

text \<open>The month of a date, counted from year 0: the scale the difference is taken on.\<close>

definition month_index :: "'d chrono \<Rightarrow> 'd \<Rightarrow> int" where
  "month_index cal d = year cal d * 12 + int (month cal d)"

lemma completed_months_on_index:
  "completed_months_on cal b l =
     (if l < b then None
      else u32_try_from (month_index cal l - month_index cal b - (if day cal l < day cal b then 1 else 0)))"
  by (simp add: completed_months_on_def month_index_def Let_def algebra_simps)

context chrono_calendar
begin

lemma month_index_less: "d < e \<longleftrightarrow> month_index cal d < month_index cal e \<or>
    (month_index cal d = month_index cal e \<and> day cal d < day cal e)"
proof -
  have "year cal d * 12 + int (month cal d) = year cal e * 12 + int (month cal e) \<longleftrightarrow>
      year cal d = year cal e \<and> month cal d = month cal e"
    using month_range [of d] month_range [of e] by presburger
  moreover have "year cal d * 12 + int (month cal d) < year cal e * 12 + int (month cal e) \<longleftrightarrow>
      year cal d < year cal e \<or> year cal d = year cal e \<and> month cal d < month cal e"
    using month_range [of d] month_range [of e] by presburger
  ultimately show ?thesis
    unfolding month_index_def date_less lex_triple by blast
qed

lemma month_difference_bounds:
  "\<bar>month_index cal l - month_index cal b\<bar> < 2 ^ 31 - 1"
  using year_range [of l] year_range [of b] month_range [of l] month_range [of b]
  by (simp add: month_index_def min_year_def max_year_def)

lemma completed_months_exact:
  assumes "b \<le> l"
  shows "completed_months_on cal b l =
    Some (nat (month_index cal l - month_index cal b - (if day cal l < day cal b then 1 else 0)))"
    and "0 \<le> month_index cal l - month_index cal b - (if day cal l < day cal b then 1 else 0)"
proof -
  let ?k = "month_index cal l - month_index cal b - (if day cal l < day cal b then 1 else 0)"
  have "\<not> l < b" using assms by simp
  then have "0 \<le> ?k" unfolding month_index_less [of l b] by auto
  moreover have "?k < 2 ^ 32" using month_difference_bounds [of l b] by (auto simp: abs_less_iff)
  ultimately show "0 \<le> ?k" "completed_months_on cal b l = Some (nat ?k)"
    using \<open>\<not> l < b\<close> by (simp_all add: completed_months_on_index u32_try_from_def)
qed

lemma completed_months_none: "completed_months_on cal b l = None \<longleftrightarrow> l < b"
  using completed_months_exact(1) [of b l] by (auto simp: completed_months_on_def)

text \<open>The age is the number of months whose anniversary has been reached.\<close>

lemma completed_months_anniversary:
  assumes "completed_months_on cal b l = Some m"
  shows "(month_index cal b + int k, day cal b) \<le> (month_index cal l, day cal l) \<longleftrightarrow> k \<le> m"
proof -
  have "b \<le> l" using assms completed_months_none [of b l] by (metis linorder_not_less option.distinct(1))
  from completed_months_exact [OF this] assms
  have "int m = month_index cal l - month_index cal b - (if day cal l < day cal b then 1 else 0)"
    by simp
  then show ?thesis by (auto split: if_splits)
qed

lemma completed_months_mono:
  assumes "completed_months_on cal b l = Some m" and "l \<le> l'"
  shows "\<exists>m'. completed_months_on cal b l' = Some m' \<and> m \<le> m'"
proof -
  have "b \<le> l" using assms(1) completed_months_none [of b l] by (metis linorder_not_less option.distinct(1))
  then have "b \<le> l'" using assms(2) by simp
  then obtain m' where m': "completed_months_on cal b l' = Some m'"
    using completed_months_exact(1) by blast
  have "(month_index cal b + int m, day cal b) \<le> (month_index cal l, day cal l)"
    using completed_months_anniversary [OF assms(1), of m] by simp
  also have "\<dots> \<le> (month_index cal l', day cal l')"
    using assms(2) month_index_less [of l l'] by (cases "l = l'") auto
  finally have "m \<le> m'" using completed_months_anniversary [OF m', of m] by simp
  with m' show ?thesis by blast
qed

end

subsection \<open>Properties\<close>

text \<open>
  The age in completed months is exact: for a lesson on or after the birth date the result is
  the number \<open>m\<close> such that precisely the anniversaries \<open>1..m\<close> of the birth day-of-month have been
  reached at the lesson (month index counted over years), and there is no result exactly when the
  lesson precedes the birth. The intermediate 32-bit arithmetic never overflows.
\<close>

theorem completed_months_on_exact:
  assumes "chrono_calendar cal"
  shows "(completed_months_on cal birth lesson = None \<longleftrightarrow> lesson < birth) \<and>
    (birth \<le> lesson \<longrightarrow> (\<exists>m. completed_months_on cal birth lesson = Some m \<and>
       (\<forall>k. (month_index cal birth + int k, day cal birth) \<le> (month_index cal lesson, day cal lesson)
            \<longleftrightarrow> k \<le> m))) \<and>
    \<bar>month_index cal lesson - month_index cal birth\<bar> < 2 ^ 31 - 1"
  using chrono_calendar.completed_months_none [OF assms]
    chrono_calendar.completed_months_exact(1) [OF assms]
    chrono_calendar.completed_months_anniversary [OF assms]
    chrono_calendar.month_difference_bounds [OF assms]
  by blast

theorem completed_months_on_exact_witness:
  "completed_months_on gregorian_cal (civil 2020 8 31) (civil 2026 2 28) = Some 65 \<and>
   (\<exists>m. completed_months_on gregorian_cal (civil 2020 8 31) (civil 2026 2 28) = Some m \<and>
      (\<forall>k. (month_index gregorian_cal (civil 2020 8 31) + int k, 31::nat)
          \<le> (month_index gregorian_cal (civil 2026 2 28), 28) \<longleftrightarrow> k \<le> m))"
  using completed_months_on_exact [OF gregorian.chrono_calendar_axioms, of "civil 2020 8 31" "civil 2026 2 28"]
  by (simp add: civil_eval completed_months_on_def u32_try_from_def)

text \<open>
  Age limits are accepted exactly when some age satisfies them: \<open>new\<close> rejects the reversed
  limits and only those, so a stored limit can never describe a group that matches nobody.
\<close>

theorem age_limits_accepted_iff_satisfiable:
  "is_ok (age_limits_new mn mx) \<longleftrightarrow>
     (\<exists>months. contains_completed_months \<lparr>minimum_months = mn, maximum_months = mx\<rparr> months)"
  by (cases mn; cases mx)
    (auto simp: age_limits_new_def contains_completed_months_def intro: exI [of _ "the mn"])

end
