(* ===== verification/Booking.thy ===== *)
theory Booking
  imports Calendar
begin

section \<open>Lesson identity and booking status (\<open>crates/airhop-core/src/booking.rs\<close>)\<close>

text \<open>
  The stable identity of one occurrence of a recurring lesson (ordered as Rust derives it:
  rule first, then original date) and the life cycle of a booking.
\<close>

datatype 'd stable_lesson_reference =
  StableLessonReference (recurrence_rule_id: uuid) (original_date: 'd)

instantiation stable_lesson_reference :: (linorder) linorder
begin

definition less_eq_stable_lesson_reference :: "'a stable_lesson_reference \<Rightarrow> 'a stable_lesson_reference \<Rightarrow> bool" where
  "less_eq_stable_lesson_reference r s \<longleftrightarrow>
     (recurrence_rule_id r, original_date r) \<le> (recurrence_rule_id s, original_date s)"

definition less_stable_lesson_reference :: "'a stable_lesson_reference \<Rightarrow> 'a stable_lesson_reference \<Rightarrow> bool" where
  "less_stable_lesson_reference r s \<longleftrightarrow>
     (recurrence_rule_id r, original_date r) < (recurrence_rule_id s, original_date s)"

instance
proof
  fix r s t :: "'a stable_lesson_reference"
  show "r < s \<longleftrightarrow> r \<le> s \<and> \<not> s \<le> r"
    unfolding less_stable_lesson_reference_def less_eq_stable_lesson_reference_def by (rule less_le_not_le)
  show "r \<le> r" by (simp add: less_eq_stable_lesson_reference_def)
  show "r \<le> t" if "r \<le> s" "s \<le> t"
    using that unfolding less_eq_stable_lesson_reference_def by (rule order_trans)
  show "r = s" if "r \<le> s" "s \<le> r"
    using that unfolding less_eq_stable_lesson_reference_def
    by (cases r; cases s) (metis (no_types, lifting) order_antisym prod.inject stable_lesson_reference.sel)
  show "r \<le> s \<or> s \<le> r"
    unfolding less_eq_stable_lesson_reference_def by (rule linear)
qed

end

datatype booking_status =
    PendingConfirmation
  | Confirmed
  | Rejected
  | CancelledByParent
  | CancelledByCenter

record booking_transition_error =
  bte_current :: booking_status
  bte_target :: booking_status

definition holds_seat :: "booking_status \<Rightarrow> bool" where
  "holds_seat s \<longleftrightarrow> s \<in> {PendingConfirmation, Confirmed}"

definition can_transition_to :: "booking_status \<Rightarrow> booking_status \<Rightarrow> bool" where
  "can_transition_to s target =
     (if s = target then True
      else case s of
        PendingConfirmation \<Rightarrow> target \<in> {Confirmed, Rejected, CancelledByParent, CancelledByCenter}
      | Confirmed \<Rightarrow> target \<in> {CancelledByParent, CancelledByCenter}
      | Rejected \<Rightarrow> False
      | CancelledByParent \<Rightarrow> False
      | CancelledByCenter \<Rightarrow> False)"

definition transition_to :: "booking_status \<Rightarrow> booking_status \<Rightarrow> (booking_status, booking_transition_error) result" where
  "transition_to s target =
     (if can_transition_to s target then Inr target
      else Inl \<lparr>bte_current = s, bte_target = target\<rparr>)"

text \<open>A command log applied to a stored status: a rejected command leaves it unchanged.\<close>

fun run_transitions :: "booking_status \<Rightarrow> booking_status list \<Rightarrow> booking_status" where
  "run_transitions s [] = s"
| "run_transitions s (t # ts) =
     run_transitions (case transition_to s t of Inl _ \<Rightarrow> s | Inr s' \<Rightarrow> s') ts"

lemmas booking_defs = holds_seat_def can_transition_to_def transition_to_def

lemma transition_to_Inr: "transition_to s t = Inr s' \<longleftrightarrow> can_transition_to s t \<and> s' = t"
  by (auto simp: transition_to_def)

lemma transition_releases: "can_transition_to s t \<Longrightarrow> holds_seat t \<Longrightarrow> holds_seat s"
  by (cases s; cases t) (simp_all add: booking_defs)

lemma terminal_stays: "\<not> holds_seat s \<Longrightarrow> transition_to s t = Inr s' \<Longrightarrow> s' = s"
  by (cases s; cases t) (auto simp: booking_defs split: if_splits)

subsection \<open>Properties\<close>

text \<open>
  A booking that has given up its seat never holds one again: along any sequence of commands a
  status that holds no seat is final, so a freed place cannot be taken back by a late command;
  and repeating the current status is always accepted.
\<close>

theorem released_seat_is_final:
  "(\<not> holds_seat s \<longrightarrow> run_transitions s ts = s) \<and> transition_to s s = Inr s \<and>
   (holds_seat (run_transitions s ts) \<longrightarrow> holds_seat s)"
proof -
  have final: "run_transitions s ts = s" if "\<not> holds_seat s" for s
    using that
  proof (induction ts arbitrary: s)
    case (Cons t ts)
    then show ?case using terminal_stays by (cases "transition_to s t") auto
  qed simp
  moreover have "transition_to s s = Inr s" by (simp add: booking_defs)
  ultimately show ?thesis by metis
qed

theorem released_seat_is_final_witness:
  "run_transitions PendingConfirmation [Confirmed, CancelledByParent, Confirmed, PendingConfirmation]
     = CancelledByParent \<and>
   run_transitions CancelledByParent [Confirmed, PendingConfirmation] = CancelledByParent"
  using released_seat_is_final [of CancelledByParent "[Confirmed, PendingConfirmation]"]
  by (simp add: booking_defs)

end
