(* ===== verification/Schedule.thy ===== *)
theory Schedule
  imports Age Booking
begin

section \<open>Schedule materialization (\<open>crates/airhop-core/src/schedule.rs\<close>)\<close>

text \<open>
  Recurrence rules, one-off exceptions and the materializer that turns them into the effective
  lessons of a date range. Structs are records whose field names carry a prefix (the source
  reuses names across structs); \<open>BTreeSet\<close> is a set and \<open>BTreeMap\<close> an ordered association
  list of the prelude. The day loop may in principle not end, so \<open>materialize_schedule\<close>
  returns an \<open>option\<close>, \<open>None\<close> for a loop that does not stop, and its termination is proved.
\<close>

datatype weekday = Monday | Tuesday | Wednesday | Thursday | Friday | Saturday | Sunday

fun weekday_from :: "chrono_weekday \<Rightarrow> weekday" where
  "weekday_from Mon = Monday"
| "weekday_from Tue = Tuesday"
| "weekday_from Wed = Wednesday"
| "weekday_from Thu = Thursday"
| "weekday_from Fri = Friday"
| "weekday_from Sat = Saturday"
| "weekday_from Sun = Sunday"

record money =
  amount_minor :: "64 word"
  currency :: string

datatype trial_policy = Disabled | Free | Paid money

record schedule_policy =
  default_trial_policy :: trial_policy
  track_attendance_by_default :: bool
  allow_single_visits_by_default :: bool

record group_schedule_policy =
  g_id :: uuid
  g_branch_id :: uuid
  g_room_id :: "uuid option"
  g_teacher_ids :: "uuid list"
  g_age_limits :: age_limits
  g_capacity :: "nat option"
  g_trial_policy_override :: "trial_policy option"
  g_track_attendance_override :: "bool option"
  g_allow_single_visits_override :: "bool option"
  g_active :: bool

datatype 'a nullable_override = Inherit | Clear | Set 'a

record 'd recurrence_rule =
  r_id :: uuid
  r_group_id :: uuid
  r_starts_on :: 'd
  r_ends_on :: 'd
  r_weekdays :: "weekday set"
  r_start_time :: naive_time
  r_end_time :: naive_time
  r_branch_id_override :: "uuid option"
  r_room_id_override :: "uuid nullable_override"
  r_teacher_ids_override :: "uuid list option"
  r_capacity_override :: "nat nullable_override"
  r_trial_policy_override :: "trial_policy option"
  r_active :: bool

record lesson_original =
  lo_start_time :: naive_time
  lo_end_time :: naive_time
  lo_branch_id :: uuid
  lo_room_id :: "uuid option"
  lo_teacher_ids :: "uuid list"

record 'd occurrence_override =
  oo_date :: "'d option"
  oo_start_time :: "naive_time option"
  oo_end_time :: "naive_time option"
  oo_branch_id :: "uuid option"
  oo_room_id :: "uuid nullable_override"
  oo_teacher_ids :: "uuid list option"
  oo_capacity :: "nat nullable_override"
  oo_trial_policy :: "trial_policy option"
  oo_allow_single_visits :: "bool option"

record 'd occurrence_effective =
  oe_date :: 'd
  oe_start_time :: naive_time
  oe_end_time :: naive_time
  oe_branch_id :: uuid
  oe_room_id :: "uuid option"
  oe_teacher_ids :: "uuid list"
  oe_capacity :: "nat option"
  oe_trial_policy :: trial_policy
  oe_allow_single_visits :: bool

datatype 'd lesson_exception_kind =
    CancelledException "'d occurrence_effective option"
  | OverrideException "'d occurrence_override"

record 'd lesson_exception =
  x_id :: uuid
  x_recurrence_rule_id :: uuid
  x_original_date :: 'd
  x_original :: lesson_original
  x_kind :: "'d lesson_exception_kind"

datatype occurrence_status = Scheduled | Moved | Modified | Cancelled

record 'd schedule_occurrence =
  so_lesson_ref :: "'d stable_lesson_reference"
  so_group_id :: uuid
  so_branch_id :: uuid
  so_room_id :: "uuid option"
  so_teacher_ids :: "uuid list"
  so_original_start_time :: naive_time
  so_original_end_time :: naive_time
  so_date :: 'd
  so_start_time :: naive_time
  so_end_time :: naive_time
  so_capacity :: "nat option"
  so_trial_policy :: trial_policy
  so_single_visit_allowed :: bool
  so_track_attendance :: bool
  so_status :: occurrence_status
  so_exception_id :: "uuid option"

record 'd schedule_range =
  sr_starts_on :: 'd
  sr_ends_on :: 'd

record materialize_schedule_options =
  include_archived :: bool

datatype 'd schedule_error =
    ReversedRange
  | ReversedRuleRange uuid
  | InvalidRuleTime uuid
  | EmptyRuleWeekdays uuid
  | DuplicateTeachers uuid
  | MissingGroup uuid uuid
  | DuplicateException uuid 'd
  | InvalidExceptionReference uuid
  | InvalidEffectiveTime uuid 'd
  | DateOverflow

subsection \<open>Rules\<close>

definition occurs_on :: "'d::linorder chrono \<Rightarrow> 'd recurrence_rule \<Rightarrow> 'd \<Rightarrow> bool" where
  "occurs_on cal r d \<longleftrightarrow> d \<ge> r_starts_on r \<and> d \<le> r_ends_on r \<and>
     weekday_from (weekday_of cal d) \<in> r_weekdays r"

definition rule_validate :: "'d::linorder recurrence_rule \<Rightarrow> (unit, 'd schedule_error) result" where
  "rule_validate r =
     (if r_starts_on r > r_ends_on r then Inl (ReversedRuleRange (r_id r))
      else if r_start_time r \<ge> r_end_time r then Inl (InvalidRuleTime (r_id r))
      else if r_weekdays r = {} then Inl (EmptyRuleWeekdays (r_id r))
      else if (case r_teacher_ids_override r of None \<Rightarrow> False
               | Some teachers \<Rightarrow> unique_count teachers \<noteq> length teachers)
      then Inl (DuplicateTeachers (r_id r))
      else Inr ())"

definition exception_target_date :: "'d lesson_exception \<Rightarrow> 'd option" where
  "exception_target_date x =
     (case x_kind x of
        CancelledException effective \<Rightarrow> map_option oe_date effective
      | OverrideException changes \<Rightarrow> oo_date changes)"

definition resolve_nullable :: "'a nullable_override \<Rightarrow> 'a nullable_override \<Rightarrow> 'a option \<Rightarrow> 'a option" where
  "resolve_nullable occurrence rule grp =
     (case occurrence of
        Set v \<Rightarrow> Some v
      | Clear \<Rightarrow> None
      | Inherit \<Rightarrow> (case rule of Set v \<Rightarrow> Some v | Clear \<Rightarrow> None | Inherit \<Rightarrow> grp))"

text \<open>\<open>Option::or\<close> and \<open>unwrap_or\<close>.\<close>

definition or_opt :: "'a option \<Rightarrow> 'a option \<Rightarrow> 'a option" where
  "or_opt a b = (case a of None \<Rightarrow> b | Some x \<Rightarrow> Some x)"

definition unwrap_or :: "'a option \<Rightarrow> 'a \<Rightarrow> 'a" where
  "unwrap_or a d = (case a of None \<Rightarrow> d | Some x \<Rightarrow> x)"

lemma or_opt_simps [simp]: "or_opt None b = b" "or_opt (Some x) b = Some x"
  by (simp_all add: or_opt_def)

lemma unwrap_or_simps [simp]: "unwrap_or None d = d" "unwrap_or (Some x) d = x"
  by (simp_all add: unwrap_or_def)

subsection \<open>One occurrence\<close>

definition materialize_occurrence ::
  "schedule_policy \<Rightarrow> group_schedule_policy \<Rightarrow> 'd::linorder recurrence_rule \<Rightarrow> 'd \<Rightarrow>
   'd lesson_exception option \<Rightarrow> ('d schedule_occurrence, 'd schedule_error) result" where
  "materialize_occurrence policy grp rule d exception =
     (let changes = (case map_option x_kind exception of
                       Some (OverrideException changes) \<Rightarrow> Some changes | _ \<Rightarrow> None);
          effective = (case map_option x_kind exception of
                       Some (CancelledException effective) \<Rightarrow> effective | _ \<Rightarrow> None);
          original_start_time =
            unwrap_or (map_option (\<lambda>x. lo_start_time (x_original x)) exception) (r_start_time rule);
          original_end_time =
            unwrap_or (map_option (\<lambda>x. lo_end_time (x_original x)) exception) (r_end_time rule);
          date = unwrap_or (or_opt (map_option oe_date effective) (Option.bind changes oo_date)) d;
          start_time = unwrap_or (or_opt (map_option oe_start_time effective)
                         (Option.bind changes oo_start_time)) (r_start_time rule);
          end_time = unwrap_or (or_opt (map_option oe_end_time effective)
                         (Option.bind changes oo_end_time)) (r_end_time rule)
      in if start_time \<ge> end_time then Inl (InvalidEffectiveTime (r_id rule) d)
      else
        let branch_id = unwrap_or (or_opt (or_opt (map_option oe_branch_id effective)
                          (Option.bind changes oo_branch_id)) (r_branch_id_override rule))
                          (g_branch_id grp);
            room_id = (case effective of
                Some v \<Rightarrow> oe_room_id v
              | None \<Rightarrow> resolve_nullable
                  (case changes of None \<Rightarrow> Inherit | Some v \<Rightarrow> oo_room_id v)
                  (r_room_id_override rule) (g_room_id grp));
            teacher_ids = unwrap_or (or_opt (or_opt (map_option oe_teacher_ids effective)
                          (Option.bind changes oo_teacher_ids)) (r_teacher_ids_override rule))
                          (g_teacher_ids grp);
            capacity = (case effective of
                Some v \<Rightarrow> oe_capacity v
              | None \<Rightarrow> resolve_nullable
                  (case changes of None \<Rightarrow> Inherit | Some v \<Rightarrow> oo_capacity v)
                  (r_capacity_override rule) (g_capacity grp));
            trial = unwrap_or (or_opt (or_opt (or_opt (map_option oe_trial_policy effective)
                          (Option.bind changes oo_trial_policy)) (r_trial_policy_override rule))
                          (g_trial_policy_override grp)) (default_trial_policy policy);
            single = unwrap_or (or_opt (or_opt (map_option oe_allow_single_visits effective)
                          (Option.bind changes oo_allow_single_visits))
                          (g_allow_single_visits_override grp))
                          (allow_single_visits_by_default policy);
            moved = (date \<noteq> d \<or> start_time \<noteq> r_start_time rule \<or> end_time \<noteq> r_end_time rule);
            status = (case map_option x_kind exception of
                Some (CancelledException _) \<Rightarrow> Cancelled
              | Some _ \<Rightarrow> (if moved then Moved else Modified)
              | None \<Rightarrow> Scheduled)
        in Inr \<lparr>so_lesson_ref = StableLessonReference (r_id rule) d,
                so_group_id = g_id grp,
                so_branch_id = branch_id,
                so_room_id = room_id,
                so_teacher_ids = teacher_ids,
                so_original_start_time = original_start_time,
                so_original_end_time = original_end_time,
                so_date = date,
                so_start_time = start_time,
                so_end_time = end_time,
                so_capacity = capacity,
                so_trial_policy = trial,
                so_single_visit_allowed = single,
                so_track_attendance = unwrap_or (g_track_attendance_override grp)
                  (track_attendance_by_default policy),
                so_status = status,
                so_exception_id = map_option x_id exception\<rparr>)"

definition materialize_schedule_occurrence ::
  "'d::linorder chrono \<Rightarrow> schedule_policy \<Rightarrow> group_schedule_policy \<Rightarrow> 'd recurrence_rule \<Rightarrow>
   'd lesson_exception option \<Rightarrow> 'd \<Rightarrow> ('d schedule_occurrence option, 'd schedule_error) result" where
  "materialize_schedule_occurrence cal policy grp rule exception d =
     and_then (rule_validate rule) (\<lambda>_.
       if r_group_id rule \<noteq> g_id grp \<or> \<not> occurs_on cal rule d then Inr None
       else if (case exception of None \<Rightarrow> False
                | Some v \<Rightarrow> x_recurrence_rule_id v \<noteq> r_id rule \<or> x_original_date v \<noteq> d)
       then Inl (InvalidExceptionReference (case exception of None \<Rightarrow> 0 | Some v \<Rightarrow> x_id v))
       else and_then (materialize_occurrence policy grp rule d exception) (\<lambda>occ. Inr (Some occ)))"

subsection \<open>The materializer\<close>

text \<open>The exception index: the first repeated target is an error.\<close>

definition exception_ref :: "'d lesson_exception \<Rightarrow> 'd stable_lesson_reference" where
  "exception_ref x = StableLessonReference (x_recurrence_rule_id x) (x_original_date x)"

definition index_exception ::
  "'d::linorder lesson_exception \<Rightarrow> ('d stable_lesson_reference \<times> 'd lesson_exception) list \<Rightarrow>
   (('d stable_lesson_reference \<times> 'd lesson_exception) list, 'd schedule_error) result" where
  "index_exception x m =
     (if map_of m (exception_ref x) \<noteq> None
      then Inl (DuplicateException (x_recurrence_rule_id x) (x_original_date x))
      else Inr (bt_insert (exception_ref x) x m))"

text \<open>The day loop: run the body, stop at the last day, else go to the next day.\<close>

partial_function (option) day_loop ::
  "'d::linorder chrono \<Rightarrow> ('d \<Rightarrow> 'm \<Rightarrow> 'd schedule_error + 'm) \<Rightarrow> 'd \<Rightarrow> 'd \<Rightarrow> 'm \<Rightarrow>
   ('d schedule_error + 'm) option" where
  "day_loop cal body last_date date acc =
     (case body date acc of
        Inl e \<Rightarrow> Some (Inl e)
      | Inr acc' \<Rightarrow>
          if date = last_date then Some (Inr acc')
          else (case succ_opt cal date of
                  None \<Rightarrow> Some (Inl DateOverflow)
                | Some date' \<Rightarrow> day_loop cal body last_date date' acc'))"

type_synonym 'd occurrence_map = "('d stable_lesson_reference \<times> 'd schedule_occurrence) list"

definition day_body ::
  "'d::linorder chrono \<Rightarrow> schedule_policy \<Rightarrow> group_schedule_policy \<Rightarrow> 'd recurrence_rule \<Rightarrow>
   ('d stable_lesson_reference \<times> 'd lesson_exception) list \<Rightarrow> 'd \<Rightarrow> 'd occurrence_map \<Rightarrow>
   'd schedule_error + 'd occurrence_map" where
  "day_body cal policy grp rule exception_by_ref date occurrences =
     (if occurs_on cal rule date then
        let reference = StableLessonReference (r_id rule) date in
        and_then (materialize_occurrence policy grp rule date (map_of exception_by_ref reference))
          (\<lambda>occurrence. Inr (bt_insert reference occurrence occurrences))
      else Inr occurrences)"

definition exception_body ::
  "'d::linorder chrono \<Rightarrow> schedule_policy \<Rightarrow> group_schedule_policy \<Rightarrow> 'd recurrence_rule \<Rightarrow>
   'd schedule_range \<Rightarrow> 'd \<Rightarrow> 'd \<Rightarrow> 'd lesson_exception \<Rightarrow> 'd occurrence_map \<Rightarrow>
   'd schedule_error + 'd occurrence_map" where
  "exception_body cal policy grp rule rng first_date last_date x occurrences =
     (if \<not> occurs_on cal rule (x_original_date x) then Inl (InvalidExceptionReference (x_id x))
      else if x_original_date x \<ge> first_date \<and> x_original_date x \<le> last_date then Inr occurrences
      else case exception_target_date x of
        None \<Rightarrow> Inr occurrences
      | Some target_date \<Rightarrow>
          if target_date < sr_starts_on rng \<or> target_date > sr_ends_on rng then Inr occurrences
          else
            let reference = StableLessonReference (r_id rule) (x_original_date x) in
            and_then (materialize_occurrence policy grp rule (x_original_date x) (Some x))
              (\<lambda>occurrence. Inr (bt_insert reference occurrence occurrences)))"

definition materialize_rule ::
  "'d::linorder chrono \<Rightarrow> schedule_policy \<Rightarrow> (uuid \<times> group_schedule_policy) list \<Rightarrow>
   'd lesson_exception list \<Rightarrow> ('d stable_lesson_reference \<times> 'd lesson_exception) list \<Rightarrow>
   'd schedule_range \<Rightarrow> materialize_schedule_options \<Rightarrow> 'd recurrence_rule \<Rightarrow> 'd occurrence_map \<Rightarrow>
   ('d schedule_error + 'd occurrence_map) option" where
  "materialize_rule cal policy group_by_id exceptions exception_by_ref rng options rule occurrences =
     (case rule_validate rule of Inl e \<Rightarrow> Some (Inl e) | Inr _ \<Rightarrow>
      case map_of group_by_id (r_group_id rule) of
        None \<Rightarrow> Some (Inl (MissingGroup (r_id rule) (r_group_id rule)))
      | Some grp \<Rightarrow>
          if \<not> include_archived options \<and> (\<not> g_active grp \<or> \<not> r_active rule)
          then Some (Inr occurrences)
          else
            let first_date = max (r_starts_on rule) (sr_starts_on rng);
                last_date = min (r_ends_on rule) (sr_ends_on rng);
                days = (if first_date \<le> last_date
                        then day_loop cal (day_body cal policy grp rule exception_by_ref)
                               last_date first_date occurrences
                        else Some (Inr occurrences))
            in map_option (\<lambda>r. and_then r (\<lambda>occs.
                 try_fold (exception_body cal policy grp rule rng first_date last_date)
                   (filter (\<lambda>x. x_recurrence_rule_id x = r_id rule) exceptions) occs)) days)"

fun materialize_rules ::
  "('d recurrence_rule \<Rightarrow> 'd occurrence_map \<Rightarrow> ('d schedule_error + 'd occurrence_map) option) \<Rightarrow>
   'd recurrence_rule list \<Rightarrow> 'd occurrence_map \<Rightarrow> ('d schedule_error + 'd occurrence_map) option" where
  "materialize_rules step [] occurrences = Some (Inr occurrences)"
| "materialize_rules step (rule # rules) occurrences =
     (case step rule occurrences of
        None \<Rightarrow> None
      | Some (Inl e) \<Rightarrow> Some (Inl e)
      | Some (Inr occurrences') \<Rightarrow> materialize_rules step rules occurrences')"

definition group_index :: "group_schedule_policy list \<Rightarrow> (uuid \<times> group_schedule_policy) list" where
  "group_index groups = fold (\<lambda>g. bt_insert (g_id g) g) groups []"

definition occurrence_key :: "'d schedule_occurrence \<Rightarrow> 'd \<times> naive_time \<times> 'd stable_lesson_reference" where
  "occurrence_key occ = (so_date occ, so_start_time occ, so_lesson_ref occ)"

definition materialize_schedule ::
  "'d::linorder chrono \<Rightarrow> schedule_policy \<Rightarrow> group_schedule_policy list \<Rightarrow> 'd recurrence_rule list \<Rightarrow>
   'd lesson_exception list \<Rightarrow> 'd schedule_range \<Rightarrow> materialize_schedule_options \<Rightarrow>
   ('d schedule_error + 'd schedule_occurrence list) option" where
  "materialize_schedule cal policy groups rules exceptions rng options =
     (if sr_starts_on rng > sr_ends_on rng then Some (Inl ReversedRange)
      else case try_fold index_exception exceptions [] of
        Inl e \<Rightarrow> Some (Inl e)
      | Inr exception_by_ref \<Rightarrow>
          map_option (\<lambda>r. and_then r (\<lambda>occurrences.
              Inr (sort_key occurrence_key
                    (filter (\<lambda>occ. so_date occ \<ge> sr_starts_on rng \<and> so_date occ \<le> sr_ends_on rng)
                      (map snd occurrences)))))
            (materialize_rules
              (materialize_rule cal policy (group_index groups) exceptions exception_by_ref rng options)
              rules []))"

subsection \<open>Facts about one occurrence\<close>

text \<open>The date an exception moves a lesson to, whatever the kind of the exception.\<close>

definition effective_date :: "'d lesson_exception option \<Rightarrow> 'd \<Rightarrow> 'd" where
  "effective_date x d = unwrap_or (Option.bind x exception_target_date) d"

lemma materialize_occurrence_ok:
  assumes "materialize_occurrence policy grp rule d x = Inr occ"
  shows "so_lesson_ref occ = StableLessonReference (r_id rule) d"
    and "so_group_id occ = g_id grp"
    and "so_exception_id occ = map_option x_id x"
    and "so_start_time occ < so_end_time occ"
    and "so_date occ = effective_date x d"
  using assms
  by (auto simp: materialize_occurrence_def Let_def effective_date_def exception_target_date_def
      split: if_splits option.splits lesson_exception_kind.splits)

lemma materialize_occurrence_status:
  assumes "materialize_occurrence policy grp rule d x = Inr occ"
  shows "so_status occ =
    (case x of None \<Rightarrow> Scheduled
     | Some e \<Rightarrow> (case x_kind e of CancelledException _ \<Rightarrow> Cancelled
        | OverrideException _ \<Rightarrow>
            if so_date occ = d \<and> so_start_time occ = r_start_time rule \<and> so_end_time occ = r_end_time rule
            then Modified else Moved))"
  using assms
  by (auto simp: materialize_occurrence_def Let_def
      split: if_splits option.splits lesson_exception_kind.splits)

lemma materialize_occurrence_error:
  "materialize_occurrence policy grp rule d x = Inl e \<Longrightarrow> e = InvalidEffectiveTime (r_id rule) d"
  by (auto simp: materialize_occurrence_def Let_def split: if_splits)

subsection \<open>Bodies that insert at most one entry\<close>

text \<open>
  Both loops of the materializer run a fallible body that inserts at most one entry; the lookups
  in the resulting map follow from what the bodies emit.
\<close>

definition emit_body :: "('x \<Rightarrow> 'e + ('k::linorder \<times> 'v) option) \<Rightarrow> 'x \<Rightarrow> ('k \<times> 'v) list \<Rightarrow> 'e + ('k \<times> 'v) list" where
  "emit_body f x m = and_then (f x) (\<lambda>r. Inr (case r of None \<Rightarrow> m | Some (k, v) \<Rightarrow> bt_insert k v m))"

lemma is_ok_emit [simp]: "is_ok (try_fold (emit_body f) xs m) \<longleftrightarrow> (\<forall>x\<in>set xs. is_ok (f x))"
proof (induction xs arbitrary: m)
  case (Cons x xs)
  then show ?case by (cases "f x") (auto simp: emit_body_def)
qed simp

lemma try_fold_emit_wf: "try_fold (emit_body f) xs m = Inr m' \<Longrightarrow> bt_wf m \<Longrightarrow> bt_wf m'"
  by (erule try_fold_invariant) (auto simp: emit_body_def and_then_eq_Inr split: option.splits)

lemma try_fold_emit_lookup:
  assumes "try_fold (emit_body f) xs m = Inr m'"
    and "\<And>x v. x \<in> set xs \<Longrightarrow> f x = Inr (Some (k, v)) \<Longrightarrow> v = V"
  shows "map_of m' k = (if \<exists>x\<in>set xs. \<exists>v. f x = Inr (Some (k, v)) then Some V else map_of m k)"
  using assms
proof (induction xs arbitrary: m)
  case (Cons x xs)
  from Cons.prems(1) obtain m1 where m1: "emit_body f x m = Inr m1" "try_fold (emit_body f) xs m1 = Inr m'"
    by (auto simp: and_then_eq_Inr)
  have "map_of m' k = (if \<exists>x\<in>set xs. \<exists>v. f x = Inr (Some (k, v)) then Some V else map_of m1 k)"
  proof (rule Cons.IH [OF m1(2)])
    show "v = V" if "y \<in> set xs" "f y = Inr (Some (k, v))" for y v
      by (rule Cons.prems(2) [OF _ that(2)]) (simp add: that(1))
  qed
  moreover have "map_of m1 k = (if \<exists>v. f x = Inr (Some (k, v)) then Some V else map_of m k)"
  proof (cases "\<exists>v. f x = Inr (Some (k, v))")
    case True
    then have "f x = Inr (Some (k, V))" using Cons.prems(2) [of x] by fastforce
    with m1(1) show ?thesis by (auto simp: emit_body_def)
  next
    case False
    with m1(1) show ?thesis by (auto simp: emit_body_def and_then_eq_Inr split: option.splits)
  qed
  ultimately show ?case by simp
qed simp

definition day_emit where
  "day_emit cal policy grp rule xmap date =
     (if occurs_on cal rule date
      then and_then (materialize_occurrence policy grp rule date (map_of xmap (StableLessonReference (r_id rule) date)))
             (\<lambda>occ. Inr (Some (StableLessonReference (r_id rule) date, occ)))
      else Inr None)"

definition exception_emit where
  "exception_emit cal policy grp rule rng first_date last_date x =
     (if \<not> occurs_on cal rule (x_original_date x) then Inl (InvalidExceptionReference (x_id x))
      else if x_original_date x \<ge> first_date \<and> x_original_date x \<le> last_date then Inr None
      else case exception_target_date x of
        None \<Rightarrow> Inr None
      | Some target_date \<Rightarrow>
          if target_date < sr_starts_on rng \<or> target_date > sr_ends_on rng then Inr None
          else and_then (materialize_occurrence policy grp rule (x_original_date x) (Some x))
                 (\<lambda>occ. Inr (Some (StableLessonReference (r_id rule) (x_original_date x), occ))))"

lemma day_body_emit:
  "day_body cal policy grp rule xmap = emit_body (day_emit cal policy grp rule xmap)"
proof (intro ext)
  fix date m
  show "day_body cal policy grp rule xmap date m = emit_body (day_emit cal policy grp rule xmap) date m"
    by (cases "materialize_occurrence policy grp rule date (map_of xmap (StableLessonReference (r_id rule) date))")
      (simp_all add: day_body_def emit_body_def day_emit_def)
qed

lemma exception_body_emit:
  "exception_body cal policy grp rule rng f l = emit_body (exception_emit cal policy grp rule rng f l)"
proof (intro ext)
  fix x m
  show "exception_body cal policy grp rule rng f l x m = emit_body (exception_emit cal policy grp rule rng f l) x m"
    by (cases "materialize_occurrence policy grp rule (x_original_date x) (Some x)")
      (simp_all add: exception_body_def emit_body_def exception_emit_def split: option.splits)
qed

subsection \<open>The exception index\<close>

lemma try_fold_index:
  "try_fold index_exception xs m = Inr m' \<Longrightarrow>
     distinct (map exception_ref xs) \<and> (\<forall>x\<in>set xs. map_of m (exception_ref x) = None) \<and>
     map_of m' = (\<lambda>k. case find (\<lambda>x. exception_ref x = k) xs of None \<Rightarrow> map_of m k | Some x \<Rightarrow> Some x)"
proof (induction xs arbitrary: m)
  case (Cons x xs)
  from Cons.prems have new: "map_of m (exception_ref x) = None"
    and rest: "try_fold index_exception xs (bt_insert (exception_ref x) x m) = Inr m'"
    by (auto simp: index_exception_def [of x] split: if_splits)
  from Cons.IH [OF rest, unfolded map_of_bt_insert] have IH: "distinct (map exception_ref xs)"
    "\<forall>y\<in>set xs. exception_ref y \<noteq> exception_ref x \<and> map_of m (exception_ref y) = None"
    "map_of m' = (\<lambda>k. case find (\<lambda>x. exception_ref x = k) xs of None \<Rightarrow>
        ((map_of m)(exception_ref x \<mapsto> x)) k | Some x \<Rightarrow> Some x)"
    by (auto split: if_splits)
  have "find (\<lambda>y. exception_ref y = exception_ref x) xs = None"
    using IH(2) by (auto simp: find_None_iff)
  with IH new show ?case by (auto simp: fun_eq_iff split: option.split)
qed simp

lemma try_fold_index_ok:
  "is_ok (try_fold index_exception xs m) \<longleftrightarrow>
     distinct (map exception_ref xs) \<and> (\<forall>x\<in>set xs. map_of m (exception_ref x) = None)"
proof (induction xs arbitrary: m)
  case (Cons x xs)
  show ?case
  proof (cases "map_of m (exception_ref x)")
    case None
    then have "is_ok (try_fold index_exception (x # xs) m) \<longleftrightarrow>
        is_ok (try_fold index_exception xs (bt_insert (exception_ref x) x m))"
      by (simp add: index_exception_def)
    also have "\<dots> \<longleftrightarrow> distinct (map exception_ref xs) \<and>
        (\<forall>y\<in>set xs. exception_ref y \<noteq> exception_ref x \<and> map_of m (exception_ref y) = None)"
      by (auto simp: Cons.IH)
    also have "\<dots> \<longleftrightarrow> distinct (map exception_ref (x # xs)) \<and>
        (\<forall>y\<in>set (x # xs). map_of m (exception_ref y) = None)"
      using None by (auto simp: image_iff)
    finally show ?thesis .
  qed (simp add: index_exception_def)
qed simp

subsection \<open>The day loop ends and visits every day once\<close>

context chrono_calendar
begin

lemma day_loop_runs:
  "d \<le> z \<Longrightarrow> day_loop cal body z d acc = Some (try_fold body (sorted_list_of_set {d..z}) acc)"
proof (induction "card {d..z}" arbitrary: d acc rule: less_induct)
  case less
  show ?case
  proof (cases "d = z")
    case True
    then show ?thesis
      by (cases "body z acc") (simp_all add: day_loop.simps [of cal body z z])
  next
    case False
    with less.prems have "d < z" by simp
    then obtain e where e: "succ_opt cal d = Some e" using succ_exists by blast
    note b = succ_bounds [OF e \<open>d < z\<close>]
    show ?thesis
      using less.hyps [OF b(4) b(1)] False sorted_days_step [OF e \<open>d < z\<close>]
      by (cases "body d acc") (simp_all add: day_loop.simps [of cal body z d] e)
  qed
qed

lemma set_days [simp]: "set (sorted_list_of_set {d..z}) = {d..z}" for d z :: 'd
  by (simp add: finite_interval)

end

subsection \<open>What one rule contributes\<close>

definition visible :: "materialize_schedule_options \<Rightarrow> group_schedule_policy \<Rightarrow> 'd recurrence_rule \<Rightarrow> bool" where
  "visible options grp rule \<longleftrightarrow> include_archived options \<or> (g_active grp \<and> r_active rule)"

definition in_range :: "'d::linorder schedule_range \<Rightarrow> 'd \<Rightarrow> bool" where
  "in_range rng d \<longleftrightarrow> sr_starts_on rng \<le> d \<and> d \<le> sr_ends_on rng"

text \<open>
  A day of a rule is considered when it lies in the requested range or an exception moves it
  there. Lessons considered but moved out of the range are filtered at the end.
\<close>

definition considered :: "'d::linorder schedule_range \<Rightarrow> ('d stable_lesson_reference \<Rightarrow> 'd lesson_exception option) \<Rightarrow>
    'd stable_lesson_reference \<Rightarrow> bool" where
  "considered rng xs ref \<longleftrightarrow> in_range rng (original_date ref) \<or>
     (\<exists>x t. xs ref = Some x \<and> exception_target_date x = Some t \<and> in_range rng t)"

definition rule_emits where
  "rule_emits cal groups xs rng options rule ref \<longleftrightarrow>
     recurrence_rule_id ref = r_id rule \<and> occurs_on cal rule (original_date ref) \<and>
     considered rng xs ref \<and>
     (\<exists>grp. groups (r_group_id rule) = Some grp \<and> visible options grp rule)"

definition rule_value where
  "rule_value policy groups xs rule ref =
     projr (materialize_occurrence policy (the (groups (r_group_id rule))) rule (original_date ref) (xs ref))"

lemma day_emit_Some:
  "day_emit cal policy grp rule xmap d = Inr (Some (k, v)) \<longleftrightarrow>
     occurs_on cal rule d \<and> k = StableLessonReference (r_id rule) d \<and>
     materialize_occurrence policy grp rule d (map_of xmap k) = Inr v"
  by (auto simp: day_emit_def and_then_eq_Inr)

lemma exception_emit_Some:
  "exception_emit cal policy grp rule rng f l x = Inr (Some (k, v)) \<longleftrightarrow>
     occurs_on cal rule (x_original_date x) \<and> k = StableLessonReference (r_id rule) (x_original_date x) \<and>
     \<not> (f \<le> x_original_date x \<and> x_original_date x \<le> l) \<and>
     (\<exists>t. exception_target_date x = Some t \<and> in_range rng t) \<and>
     materialize_occurrence policy grp rule (x_original_date x) (Some x) = Inr v"
  by (auto simp: exception_emit_def and_then_eq_Inr in_range_def split: option.splits if_splits)

lemma occurs_in_window:
  "occurs_on cal rule d \<Longrightarrow>
     max (r_starts_on rule) (sr_starts_on rng) \<le> d \<and> d \<le> min (r_ends_on rule) (sr_ends_on rng)
       \<longleftrightarrow> in_range rng d"
  by (auto simp: occurs_on_def in_range_def)

context chrono_calendar
begin

lemma materialize_rule_eq:
  fixes rng :: "'d schedule_range"
  assumes "rule_validate rule = Inr ()" and "map_of gmap (r_group_id rule) = Some grp"
    and "visible options grp rule"
  defines "f \<equiv> max (r_starts_on rule) (sr_starts_on rng)" and "l \<equiv> min (r_ends_on rule) (sr_ends_on rng)"
  shows "materialize_rule cal policy gmap xs xmap rng options rule occs =
    Some (and_then (try_fold (emit_body (day_emit cal policy grp rule xmap)) (sorted_list_of_set {f..l}) occs)
      (try_fold (emit_body (exception_emit cal policy grp rule rng f l))
        (filter (\<lambda>x. x_recurrence_rule_id x = r_id rule) xs)))"
proof -
  have "\<not> (\<not> include_archived options \<and> (\<not> g_active grp \<or> \<not> r_active rule))"
    using assms(3) by (auto simp: visible_def)
  then have eq: "materialize_rule cal policy gmap xs xmap rng options rule occs =
      map_option (\<lambda>r. and_then r (try_fold (exception_body cal policy grp rule rng f l)
          (filter (\<lambda>x. x_recurrence_rule_id x = r_id rule) xs)))
        (if f \<le> l then day_loop cal (day_body cal policy grp rule xmap) l f occs else Some (Inr occs))"
    using assms(1,2) unfolding materialize_rule_def f_def l_def by (simp only: Let_def sum.case option.case if_False)
  show ?thesis
  proof (cases "f \<le> l")
    case True
    then show ?thesis
      unfolding eq by (simp add: day_loop_runs day_body_emit exception_body_emit del: max.bounded_iff min.bounded_iff)
  next
    case False
    then have "{f..l} = {}" by simp
    with False show ?thesis unfolding eq by (simp only: exception_body_emit if_False) simp
  qed
qed

lemma materialize_rule_returns: "\<exists>r. materialize_rule cal policy gmap xs xmap rng options rule occs = Some r"
proof (cases "rule_validate rule")
  case (Inr u)
  then have ok: "rule_validate rule = Inr ()" by simp
  show ?thesis
  proof (cases "map_of gmap (r_group_id rule)")
    case (Some grp)
    show ?thesis
      using materialize_rule_eq [OF ok Some]
      by (cases "visible options grp rule") (auto simp: materialize_rule_def ok Some visible_def)
  qed (simp add: materialize_rule_def ok)
qed (simp add: materialize_rule_def)

end

text \<open>The index of the exceptions as a function of the list.\<close>

definition indexes :: "'d::linorder lesson_exception list \<Rightarrow> ('d stable_lesson_reference \<Rightarrow> 'd lesson_exception option) \<Rightarrow> bool" where
  "indexes xs m \<longleftrightarrow> (\<forall>x\<in>set xs. m (exception_ref x) = Some x) \<and>
     (\<forall>ref x. m ref = Some x \<longrightarrow> x \<in> set xs \<and> exception_ref x = ref)"

lemma find_indexes:
  assumes "distinct (map exception_ref xs)"
  shows "indexes xs (\<lambda>k. find (\<lambda>x. exception_ref x = k) xs)"
proof -
  have "find (\<lambda>y. exception_ref y = exception_ref x) xs = Some x" if "x \<in> set xs" for x
    using assms that by (induction xs) auto
  then show ?thesis by (auto simp: indexes_def find_Some_iff)
qed

lemma try_fold_indexes:
  assumes "try_fold index_exception xs [] = Inr m"
  shows "indexes xs (map_of m)" "map_of m = (\<lambda>k. find (\<lambda>x. exception_ref x = k) xs)"
proof -
  from try_fold_index [OF assms] show eq: "map_of m = (\<lambda>k. find (\<lambda>x. exception_ref x = k) xs)"
    by (auto simp: fun_eq_iff split: option.splits)
  show "indexes xs (map_of m)"
    unfolding eq using try_fold_index [OF assms] by (intro find_indexes) simp
qed

context chrono_calendar
begin

lemma day_emits_iff:
  fixes rng :: "'d schedule_range"
  assumes "\<forall>d\<in>{f..l}. is_ok (day_emit cal policy grp rule xmap d)"
    and "f = max (r_starts_on rule) (sr_starts_on rng)" and "l = min (r_ends_on rule) (sr_ends_on rng)"
  shows "(\<exists>d\<in>{f..l}. \<exists>v. day_emit cal policy grp rule xmap d = Inr (Some (ref, v))) \<longleftrightarrow>
    recurrence_rule_id ref = r_id rule \<and> occurs_on cal rule (original_date ref) \<and> in_range rng (original_date ref)"
proof
  assume "\<exists>d\<in>{f..l}. \<exists>v. day_emit cal policy grp rule xmap d = Inr (Some (ref, v))"
  then show "recurrence_rule_id ref = r_id rule \<and> occurs_on cal rule (original_date ref) \<and> in_range rng (original_date ref)"
    using assms(2,3) by (auto simp: day_emit_Some in_range_def)
next
  assume r: "recurrence_rule_id ref = r_id rule \<and> occurs_on cal rule (original_date ref) \<and> in_range rng (original_date ref)"
  then have d: "original_date ref \<in> {f..l}" using occurs_in_window [of cal rule "original_date ref" rng] assms(2,3) by simp
  have ref: "ref = StableLessonReference (r_id rule) (original_date ref)" using r by (cases ref) simp
  from assms(1) d have "is_ok (day_emit cal policy grp rule xmap (original_date ref))" by blast
  then obtain v where "materialize_occurrence policy grp rule (original_date ref) (map_of xmap ref) = Inr v"
    using r ref by (auto simp: day_emit_def is_ok_iff and_then_eq_Inr)
  then have "day_emit cal policy grp rule xmap (original_date ref) = Inr (Some (ref, v))"
    using r ref by (simp add: day_emit_Some)
  with d show "\<exists>d\<in>{f..l}. \<exists>v. day_emit cal policy grp rule xmap d = Inr (Some (ref, v))" by blast
qed

lemma exception_emits_iff:
  fixes rng :: "'d schedule_range"
  assumes "\<forall>x\<in>set (filter (\<lambda>x. x_recurrence_rule_id x = r_id rule) xs). is_ok (exception_emit cal policy grp rule rng f l x)"
    and "f = max (r_starts_on rule) (sr_starts_on rng)" and "l = min (r_ends_on rule) (sr_ends_on rng)"
    and "indexes xs xm"
  shows "(\<exists>x\<in>set (filter (\<lambda>x. x_recurrence_rule_id x = r_id rule) xs). \<exists>v.
      exception_emit cal policy grp rule rng f l x = Inr (Some (ref, v))) \<longleftrightarrow>
    recurrence_rule_id ref = r_id rule \<and> occurs_on cal rule (original_date ref) \<and>
    \<not> in_range rng (original_date ref) \<and> considered rng xm ref" (is "?L \<longleftrightarrow> ?R")
proof
  assume ?L
  then obtain x v where x: "x \<in> set xs" "x_recurrence_rule_id x = r_id rule"
    and e: "exception_emit cal policy grp rule rng f l x = Inr (Some (ref, v))" by auto
  from x have "xm (exception_ref x) = Some x" using assms(4) by (auto simp: indexes_def)
  moreover have "ref = exception_ref x" using e x(2) by (simp add: exception_emit_Some exception_ref_def)
  ultimately show ?R
    using e occurs_in_window [of cal rule "x_original_date x" rng] assms(2,3)
    by (auto simp: exception_emit_Some considered_def exception_ref_def)
next
  assume r: ?R
  then obtain x t where x: "xm ref = Some x" "exception_target_date x = Some t" "in_range rng t"
    by (auto simp: considered_def)
  from x(1) assms(4) have xs: "x \<in> set xs" "exception_ref x = ref" by (auto simp: indexes_def)
  then have ids: "x_recurrence_rule_id x = r_id rule" "x_original_date x = original_date ref"
    using r by (auto simp: exception_ref_def)
  have out: "\<not> (f \<le> x_original_date x \<and> x_original_date x \<le> l)"
    using r occurs_in_window [of cal rule "original_date ref" rng] assms(2,3) ids by simp
  from assms(1) xs ids have "is_ok (exception_emit cal policy grp rule rng f l x)" by simp
  then obtain v where "materialize_occurrence policy grp rule (x_original_date x) (Some x) = Inr v"
    using r x ids out by (auto simp: exception_emit_def is_ok_iff and_then_eq_Inr in_range_def split: if_splits)
  then have "exception_emit cal policy grp rule rng f l x = Inr (Some (ref, v))"
    using r x ids out xs(2) by (auto simp: exception_emit_Some exception_ref_def)
  with xs ids show ?L by auto
qed

end

context chrono_calendar
begin

lemma materialize_rule_lookup:
  fixes rng :: "'d schedule_range"
  assumes step: "materialize_rule cal policy gmap xs xmap rng options rule occs = Some (Inr occs')"
    and idx: "indexes xs (map_of xmap)"
  shows "map_of occs' ref =
    (if rule_emits cal (map_of gmap) (map_of xmap) rng options rule ref
     then Some (rule_value policy (map_of gmap) (map_of xmap) rule ref) else map_of occs ref)"
    and "bt_wf occs \<Longrightarrow> bt_wf occs'"
    and "rule_emits cal (map_of gmap) (map_of xmap) rng options rule ref \<Longrightarrow>
      materialize_occurrence policy (the (map_of gmap (r_group_id rule))) rule (original_date ref) (map_of xmap ref)
        = Inr (rule_value policy (map_of gmap) (map_of xmap) rule ref)"
proof -
  let ?E = "rule_emits cal (map_of gmap) (map_of xmap) rng options rule ref"
  let ?V = "rule_value policy (map_of gmap) (map_of xmap) rule ref"
  from step obtain grp where val: "rule_validate rule = Inr ()" and grp: "map_of gmap (r_group_id rule) = Some grp"
    by (cases "rule_validate rule"; cases "map_of gmap (r_group_id rule)") (auto simp: materialize_rule_def)
  have "(map_of occs' ref = (if ?E then Some ?V else map_of occs ref)) \<and> (bt_wf occs \<longrightarrow> bt_wf occs') \<and>
    (?E \<longrightarrow> materialize_occurrence policy grp rule (original_date ref) (map_of xmap ref) = Inr ?V)"
  proof (cases "visible options grp rule")
    case False
    then have "occs' = occs" using step val grp by (simp add: materialize_rule_def visible_def)
    with False grp show ?thesis by (auto simp: rule_emits_def)
  next
    case True
    define f where "f = max (r_starts_on rule) (sr_starts_on rng)"
    define l where "l = min (r_ends_on rule) (sr_ends_on rng)"
    let ?ys = "filter (\<lambda>x. x_recurrence_rule_id x = r_id rule) xs"
    have "and_then (try_fold (emit_body (day_emit cal policy grp rule xmap)) (sorted_list_of_set {f..l}) occs)
        (try_fold (emit_body (exception_emit cal policy grp rule rng f l)) ?ys) = Inr occs'"
      using materialize_rule_eq [OF val grp True, of policy xs xmap rng occs] step
      unfolding f_def l_def by simp
    then obtain m where m: "try_fold (emit_body (day_emit cal policy grp rule xmap)) (sorted_list_of_set {f..l}) occs = Inr m"
      and m': "try_fold (emit_body (exception_emit cal policy grp rule rng f l)) ?ys m = Inr occs'"
      unfolding and_then_eq_Inr by blast
    have okd: "\<forall>d\<in>{f..l}. is_ok (day_emit cal policy grp rule xmap d)"
      using arg_cong [OF m, of is_ok] by simp
    have okx: "\<forall>x\<in>set ?ys. is_ok (exception_emit cal policy grp rule rng f l x)"
      using arg_cong [OF m', of is_ok] by simp
    note di = day_emits_iff [OF okd f_def l_def, of ref]
    note xi = exception_emits_iff [OF okx f_def l_def idx, of ref]
    have dv: "v = ?V \<and> materialize_occurrence policy grp rule (original_date ref) (map_of xmap ref) = Inr v"
      if "day_emit cal policy grp rule xmap d = Inr (Some (ref, v))" for d v
      using that grp by (auto simp: day_emit_Some rule_value_def)
    have xv: "v = ?V \<and> materialize_occurrence policy grp rule (original_date ref) (map_of xmap ref) = Inr v"
      if "x \<in> set ?ys" "exception_emit cal policy grp rule rng f l x = Inr (Some (ref, v))" for x v
    proof -
      have "ref = exception_ref x" using that by (auto simp: exception_emit_Some exception_ref_def)
      moreover have "map_of xmap (exception_ref x) = Some x" using idx that(1) by (auto simp: indexes_def)
      ultimately show ?thesis using that(2) grp by (auto simp: exception_emit_Some rule_value_def)
    qed
    have l1: "map_of m ref = (if \<exists>d\<in>set (sorted_list_of_set {f..l}). \<exists>v. day_emit cal policy grp rule xmap d = Inr (Some (ref, v))
        then Some ?V else map_of occs ref)"
      by (rule try_fold_emit_lookup [OF m]) (use dv in blast)
    have l2: "map_of occs' ref = (if \<exists>x\<in>set ?ys. \<exists>v. exception_emit cal policy grp rule rng f l x = Inr (Some (ref, v))
        then Some ?V else map_of m ref)"
      by (rule try_fold_emit_lookup [OF m']) (use xv in blast)
    have E: "?E \<longleftrightarrow> (\<exists>d\<in>{f..l}. \<exists>v. day_emit cal policy grp rule xmap d = Inr (Some (ref, v))) \<or>
        (\<exists>x\<in>set ?ys. \<exists>v. exception_emit cal policy grp rule rng f l x = Inr (Some (ref, v)))"
      unfolding di xi using grp True by (auto simp: rule_emits_def considered_def)
    have "bt_wf occs \<longrightarrow> bt_wf occs'" using try_fold_emit_wf [OF m] try_fold_emit_wf [OF m'] by blast
    moreover have "map_of occs' ref = (if ?E then Some ?V else map_of occs ref)"
      unfolding E using l1 l2 by auto
    moreover have "?E \<longrightarrow> materialize_occurrence policy grp rule (original_date ref) (map_of xmap ref) = Inr ?V"
      unfolding E using dv xv by blast
    ultimately show ?thesis by blast
  qed
  with grp show "map_of occs' ref = (if ?E then Some ?V else map_of occs ref)" "bt_wf occs \<Longrightarrow> bt_wf occs'"
    "?E \<Longrightarrow> materialize_occurrence policy (the (map_of gmap (r_group_id rule))) rule (original_date ref) (map_of xmap ref) = Inr ?V"
    by auto
qed

lemma materialize_rules_lookup:
  fixes rng :: "'d schedule_range"
  assumes "materialize_rules (materialize_rule cal policy gmap xs xmap rng options) rules occs = Some (Inr occs')"
    and "indexes xs (map_of xmap)" and "distinct (map r_id rules)"
  shows "map_of occs' ref = Some occ \<longleftrightarrow>
    (\<exists>rule\<in>set rules. rule_emits cal (map_of gmap) (map_of xmap) rng options rule ref \<and>
       occ = rule_value policy (map_of gmap) (map_of xmap) rule ref \<and>
       materialize_occurrence policy (the (map_of gmap (r_group_id rule))) rule (original_date ref) (map_of xmap ref) = Inr occ) \<or>
    (\<forall>rule\<in>set rules. \<not> rule_emits cal (map_of gmap) (map_of xmap) rng options rule ref) \<and> map_of occs ref = Some occ"
    and "bt_wf occs \<Longrightarrow> bt_wf occs'"
  using assms
proof (induction rules arbitrary: occs)
  case (Cons rule rules)
  {
    case 1
    from "1"(1) obtain m where m: "materialize_rule cal policy gmap xs xmap rng options rule occs = Some (Inr m)"
      and rest: "materialize_rules (materialize_rule cal policy gmap xs xmap rng options) rules m = Some (Inr occs')"
      by (auto split: option.splits sum.splits)
    have "\<not> rule_emits cal (map_of gmap) (map_of xmap) rng options rule' ref"
      if "rule_emits cal (map_of gmap) (map_of xmap) rng options rule ref" "rule' \<in> set rules" for rule'
      using that "1"(3) by (force simp: rule_emits_def)
    then show ?case
      using Cons.IH(1) [OF rest "1"(2)] "1"(3) materialize_rule_lookup(1,3) [OF m "1"(2), of ref]
      by (auto split: if_splits)
  next
    case 2
    then obtain m where m: "materialize_rule cal policy gmap xs xmap rng options rule occs = Some (Inr m)"
      and rest: "materialize_rules (materialize_rule cal policy gmap xs xmap rng options) rules m = Some (Inr occs')"
      by (auto split: option.splits sum.splits)
    have "bt_wf m" using materialize_rule_lookup(2) [OF m "2"(3) "2"(1)] .
    then show ?case using Cons.IH(2) [OF _ rest "2"(3)] "2"(4) by simp
  }
qed auto

lemma materialize_rules_returns:
  "\<exists>r. materialize_rules (materialize_rule cal policy gmap xs xmap rng options) rules occs = Some r"
proof (induction rules arbitrary: occs)
  case (Cons rule rules)
  obtain r where "materialize_rule cal policy gmap xs xmap rng options rule occs = Some r"
    using materialize_rule_returns by blast
  with Cons show ?case by (cases r) auto
qed simp

end

subsection \<open>What a schedule should contain\<close>

definition group_of :: "group_schedule_policy list \<Rightarrow> uuid \<Rightarrow> group_schedule_policy option" where
  "group_of groups gid = find (\<lambda>g. g_id g = gid) (rev groups)"

definition exception_for :: "'d lesson_exception list \<Rightarrow> 'd recurrence_rule \<Rightarrow> 'd \<Rightarrow> 'd lesson_exception option" where
  "exception_for xs rule d = find (\<lambda>x. exception_ref x = StableLessonReference (r_id rule) d) xs"

definition is_lesson ::
  "'d::linorder chrono \<Rightarrow> schedule_policy \<Rightarrow> group_schedule_policy list \<Rightarrow> 'd lesson_exception list \<Rightarrow>
   materialize_schedule_options \<Rightarrow> 'd recurrence_rule \<Rightarrow> 'd \<Rightarrow> 'd schedule_occurrence \<Rightarrow> bool" where
  "is_lesson cal policy groups xs options rule d occ \<longleftrightarrow>
     occurs_on cal rule d \<and>
     (\<exists>grp. group_of groups (r_group_id rule) = Some grp \<and> visible options grp rule \<and>
        materialize_occurrence policy grp rule d (exception_for xs rule d) = Inr occ)"

lemma map_of_find: "map_of (map (\<lambda>x. (f x, x)) xs) k = find (\<lambda>x. f x = k) xs"
  by (induction xs) auto

lemma group_index_lookup: "map_of (group_index groups) gid = group_of groups gid"
  by (simp add: group_index_def group_of_def bt.get_fold_ins rev_map map_of_find split: option.splits)

lemma group_of_Some: "group_of groups gid = Some grp \<Longrightarrow> grp \<in> set groups \<and> g_id grp = gid"
  by (auto simp: group_of_def find_Some_iff) (metis nth_mem set_rev length_rev)

text \<open>When the input is well formed.\<close>

definition rule_input_ok ::
  "'d::linorder chrono \<Rightarrow> schedule_policy \<Rightarrow> group_schedule_policy list \<Rightarrow> 'd lesson_exception list \<Rightarrow>
   'd schedule_range \<Rightarrow> materialize_schedule_options \<Rightarrow> 'd recurrence_rule \<Rightarrow> bool" where
  "rule_input_ok cal policy groups xs rng options rule \<longleftrightarrow>
     is_ok (rule_validate rule) \<and>
     (\<exists>grp. group_of groups (r_group_id rule) = Some grp \<and>
       (visible options grp rule \<longrightarrow>
         (\<forall>x\<in>set xs. x_recurrence_rule_id x = r_id rule \<longrightarrow> occurs_on cal rule (x_original_date x)) \<and>
         (\<forall>d. occurs_on cal rule d \<and>
              considered rng (\<lambda>k. find (\<lambda>x. exception_ref x = k) xs) (StableLessonReference (r_id rule) d) \<longrightarrow>
              is_ok (materialize_occurrence policy grp rule d (exception_for xs rule d)))))"

lemma exception_for_own:
  assumes "try_fold index_exception xs [] = Inr xmap" and "x \<in> set xs" and "x_recurrence_rule_id x = r_id rule"
  shows "exception_for xs rule (x_original_date x) = Some x"
proof -
  have "map_of xmap (exception_ref x) = Some x"
    using try_fold_indexes(1) [OF assms(1)] assms(2) by (simp add: indexes_def)
  then show ?thesis
    unfolding try_fold_indexes(2) [OF assms(1)] exception_for_def by (simp add: exception_ref_def assms(3))
qed

lemma considered_iff:
  assumes "try_fold index_exception xs [] = Inr xmap"
  shows "considered rng (\<lambda>k. find (\<lambda>x. exception_ref x = k) xs) (StableLessonReference (r_id rule) d) \<longleftrightarrow>
    in_range rng d \<or> (\<exists>x\<in>set xs. x_recurrence_rule_id x = r_id rule \<and> x_original_date x = d \<and>
      (\<exists>t. exception_target_date x = Some t \<and> in_range rng t))"
proof -
  have "map_of xmap ref = Some x \<longleftrightarrow> x \<in> set xs \<and> exception_ref x = ref" for ref x
    using try_fold_indexes(1) [OF assms] unfolding indexes_def by blast
  then show ?thesis
    unfolding try_fold_indexes(2) [OF assms, symmetric] considered_def
    by (simp add: exception_ref_def) blast
qed

lemma days_ok_iff:
  assumes "try_fold index_exception xs [] = Inr xmap"
  shows "(\<forall>d\<in>{max (r_starts_on rule) (sr_starts_on rng)..min (r_ends_on rule) (sr_ends_on rng)}.
       is_ok (day_emit cal policy grp rule xmap d)) \<longleftrightarrow>
     (\<forall>d. occurs_on cal rule d \<and> in_range rng d \<longrightarrow>
        is_ok (materialize_occurrence policy grp rule d (exception_for xs rule d)))"
  using occurs_in_window [of cal rule _ rng] try_fold_indexes(2) [OF assms]
  by (auto simp: day_emit_def exception_for_def result_simps is_ok_iff)

lemma exception_ok_iff:
  assumes "try_fold index_exception xs [] = Inr xmap" and "x \<in> set xs" and "x_recurrence_rule_id x = r_id rule"
  shows "is_ok (exception_emit cal policy grp rule rng (max (r_starts_on rule) (sr_starts_on rng))
       (min (r_ends_on rule) (sr_ends_on rng)) x) \<longleftrightarrow>
     occurs_on cal rule (x_original_date x) \<and>
     (\<not> in_range rng (x_original_date x) \<and> (\<exists>t. exception_target_date x = Some t \<and> in_range rng t) \<longrightarrow>
        is_ok (materialize_occurrence policy grp rule (x_original_date x)
          (exception_for xs rule (x_original_date x))))"
proof -
  define f where "f = max (r_starts_on rule) (sr_starts_on rng)"
  define l where "l = min (r_ends_on rule) (sr_ends_on rng)"
  show ?thesis
    using occurs_in_window [of cal rule "x_original_date x" rng] exception_for_own [OF assms]
    by (auto simp: exception_emit_def f_def [symmetric] l_def [symmetric] in_range_def [of rng t for t]
        result_simps is_ok_iff split: option.splits)
qed

context chrono_calendar
begin

lemma visible_rule_ok:
  fixes rng :: "'d schedule_range"
  assumes idx: "try_fold index_exception xs [] = Inr xmap" and val: "rule_validate rule = Inr ()"
    and grp: "group_of groups (r_group_id rule) = Some grp" and vis: "visible options grp rule"
  shows "(\<exists>m. materialize_rule cal policy (group_index groups) xs xmap rng options rule occs = Some (Inr m)) \<longleftrightarrow>
    rule_input_ok cal policy groups xs rng options rule"
proof -
  define f where "f = max (r_starts_on rule) (sr_starts_on rng)"
  define l where "l = min (r_ends_on rule) (sr_ends_on rng)"
  let ?ys = "filter (\<lambda>x. x_recurrence_rule_id x = r_id rule) xs"
  let ?days = "try_fold (emit_body (day_emit cal policy grp rule xmap)) (sorted_list_of_set {f..l}) occs"
  have "(\<exists>m. materialize_rule cal policy (group_index groups) xs xmap rng options rule occs = Some (Inr m)) \<longleftrightarrow>
      is_ok (and_then ?days (try_fold (emit_body (exception_emit cal policy grp rule rng f l)) ?ys))"
    using materialize_rule_eq [OF val grp [folded group_index_lookup] vis, of policy xs xmap rng occs]
    unfolding f_def l_def is_ok_iff by auto
  also have "\<dots> \<longleftrightarrow> (\<forall>d\<in>{f..l}. is_ok (day_emit cal policy grp rule xmap d)) \<and>
      (\<forall>x\<in>set ?ys. is_ok (exception_emit cal policy grp rule rng f l x))"
    using is_ok_emit [of "day_emit cal policy grp rule xmap" "sorted_list_of_set {f..l}" occs]
    by (cases ?days) auto
  also have "\<dots> \<longleftrightarrow> rule_input_ok cal policy groups xs rng options rule"
    unfolding rule_input_ok_def considered_iff [OF idx] f_def l_def days_ok_iff [OF idx]
    using exception_ok_iff [OF idx] val grp vis by auto
  finally show ?thesis .
qed

lemma materialize_rule_ok:
  fixes rng :: "'d schedule_range"
  assumes idx: "try_fold index_exception xs [] = Inr xmap"
  shows "(\<exists>m. materialize_rule cal policy (group_index groups) xs xmap rng options rule occs = Some (Inr m)) \<longleftrightarrow>
    rule_input_ok cal policy groups xs rng options rule"
proof (cases "rule_validate rule")
  case (Inr u)
  then have val: "rule_validate rule = Inr ()" by simp
  show ?thesis
  proof (cases "group_of groups (r_group_id rule)")
    case None
    then show ?thesis by (simp add: materialize_rule_def rule_input_ok_def val group_index_lookup)
  next
    case (Some grp)
    show ?thesis
    proof (cases "visible options grp rule")
      case True
      then show ?thesis by (rule visible_rule_ok [OF idx val Some])
    next
      case False
      then have "rule_input_ok cal policy groups xs rng options rule"
        using Some val by (simp add: rule_input_ok_def)
      moreover have "materialize_rule cal policy (group_index groups) xs xmap rng options rule occs = Some (Inr occs)"
        using False Some val by (simp add: materialize_rule_def visible_def group_index_lookup)
      ultimately show ?thesis by simp
    qed
  qed
qed (simp add: materialize_rule_def rule_input_ok_def)

lemma materialize_rules_ok:
  fixes rng :: "'d schedule_range"
  assumes idx: "try_fold index_exception xs [] = Inr xmap"
  shows "(\<exists>m. materialize_rules (materialize_rule cal policy (group_index groups) xs xmap rng options) rules occs = Some (Inr m)) \<longleftrightarrow>
    (\<forall>rule\<in>set rules. rule_input_ok cal policy groups xs rng options rule)"
proof (induction rules arbitrary: occs)
  case (Cons rule rules)
  obtain r where r: "materialize_rule cal policy (group_index groups) xs xmap rng options rule occs = Some r"
    using materialize_rule_returns by blast
  with Cons.IH materialize_rule_ok [OF idx, of policy groups rng options rule occs] show ?case
    by (cases r) auto
qed simp

end

lemma in_range_considered:
  "in_range rng (effective_date (m ref) (original_date ref)) \<Longrightarrow> considered rng m ref"
  by (cases "m ref"; cases "exception_target_date (the (m ref))")
    (auto simp: considered_def effective_date_def)

context chrono_calendar
begin

lemma rules_collect:
  fixes rng :: "'d schedule_range"
  assumes idx: "try_fold index_exception xs [] = Inr xmap" and ids: "distinct (map r_id rules)"
    and run: "materialize_rules (materialize_rule cal policy (group_index groups) xs xmap rng options) rules [] = Some (Inr occs)"
  shows "(ref, occ) \<in> set occs \<and> in_range rng (so_date occ) \<longleftrightarrow>
    (\<exists>rule\<in>set rules. \<exists>d. ref = StableLessonReference (r_id rule) d \<and>
       is_lesson cal policy groups xs options rule d occ \<and> in_range rng (so_date occ))"
proof -
  note xm = try_fold_indexes [OF idx]
  have wf: "bt_wf occs" by (rule materialize_rules_lookup(2) [OF run xm(1) ids]) simp
  have look: "(ref, occ) \<in> set occs \<longleftrightarrow> (\<exists>rule\<in>set rules.
      rule_emits cal (map_of (group_index groups)) (map_of xmap) rng options rule ref \<and>
      occ = rule_value policy (map_of (group_index groups)) (map_of xmap) rule ref \<and>
      materialize_occurrence policy (the (group_of groups (r_group_id rule))) rule (original_date ref) (map_of xmap ref) = Inr occ)"
    using materialize_rules_lookup(1) [OF run xm(1) ids, of ref occ] bt_wf_map_of [OF wf, of ref occ]
    by (simp add: group_index_lookup)
  have one: "rule_emits cal (map_of (group_index groups)) (map_of xmap) rng options rule ref \<and>
      occ = rule_value policy (map_of (group_index groups)) (map_of xmap) rule ref \<and>
      materialize_occurrence policy (the (group_of groups (r_group_id rule))) rule (original_date ref) (map_of xmap ref) = Inr occ \<longleftrightarrow>
      (\<exists>d. ref = StableLessonReference (r_id rule) d \<and> is_lesson cal policy groups xs options rule d occ)"
    if "in_range rng (so_date occ)" for rule
  proof -
    have x: "map_of xmap (StableLessonReference (r_id rule) d) = exception_for xs rule d" for d
      by (simp add: xm(2) exception_for_def)
    show ?thesis
      using that in_range_considered [of rng "map_of xmap" ref]
      by (cases ref) (auto simp: rule_emits_def rule_value_def is_lesson_def group_index_lookup x
          dest: materialize_occurrence_ok(5))
  qed
  then show ?thesis unfolding look by blast
qed

end

subsection \<open>Properties\<close>

text \<open>
  C36. Materialization always returns: for every calendar the day loop ends and the call yields a
  list of lessons or an error, whatever the rules, exceptions and range.
\<close>

theorem materialize_schedule_returns:
  assumes "chrono_calendar cal"
  shows "\<exists>r. materialize_schedule cal policy groups rules exceptions rng options = Some r"
  using chrono_calendar.materialize_rules_returns [OF assms]
  by (fastforce simp: materialize_schedule_def split: sum.splits)

text \<open>
  The input is accepted exactly when it is well formed: the range is not reversed, no two
  exceptions address the same lesson, every rule validates and has a group, every exception of a
  visible rule addresses a day the rule generates, and the effective times of the lessons in
  question are in order. Otherwise the call returns an error.
\<close>

theorem materialize_schedule_ok_iff:
  assumes "chrono_calendar cal"
  shows "(\<exists>occs. materialize_schedule cal policy groups rules exceptions rng options = Some (Inr occs)) \<longleftrightarrow>
    sr_starts_on rng \<le> sr_ends_on rng \<and> distinct (map exception_ref exceptions) \<and>
    (\<forall>rule\<in>set rules. rule_input_ok cal policy groups exceptions rng options rule)"
proof (cases "try_fold index_exception exceptions []")
  case (Inl e)
  then have "\<not> distinct (map exception_ref exceptions)"
    using try_fold_index_ok [of exceptions "[]"] by simp
  with Inl show ?thesis by (auto simp: materialize_schedule_def)
next
  case (Inr xmap)
  then have "distinct (map exception_ref exceptions)"
    using try_fold_index_ok [of exceptions "[]"] by simp
  with Inr show ?thesis
    using chrono_calendar.materialize_rules_ok [OF assms Inr, of policy groups rng options rules "[]"]
    by (auto simp: materialize_schedule_def and_then_eq_Inr)
qed

text \<open>
  C3. The materialized schedule is exact. With distinct rule identifiers, the lessons returned for
  a range are precisely the lessons the visible rules generate, each with the exception that
  addresses it applied, whose effective date lies in the range -- including lessons moved into the
  range from original dates outside it and excluding lessons moved out of it. They come sorted
  by effective date, start time and reference, and no lesson is returned twice.
\<close>

theorem materialize_schedule_exact:
  assumes "chrono_calendar cal" and "distinct (map r_id rules)"
    and "materialize_schedule cal policy groups rules exceptions rng options = Some (Inr occs)"
  shows "set occs = {occ. in_range rng (so_date occ) \<and>
      (\<exists>rule\<in>set rules. \<exists>d. is_lesson cal policy groups exceptions options rule d occ)} \<and>
    sorted (map occurrence_key occs) \<and> distinct (map so_lesson_ref occs)"
proof -
  from assms(3) obtain xmap m where idx: "try_fold index_exception exceptions [] = Inr xmap"
    and run: "materialize_rules (materialize_rule cal policy (group_index groups) exceptions xmap rng options) rules [] = Some (Inr m)"
    and occs: "occs = sort_key occurrence_key (filter (\<lambda>occ. in_range rng (so_date occ)) (map snd m))"
    by (auto simp: materialize_schedule_def and_then_eq_Inr in_range_def split: if_splits sum.splits)
  note col = chrono_calendar.rules_collect [OF assms(1) idx assms(2) run]
  have wf: "bt_wf m"
    by (rule chrono_calendar.materialize_rules_lookup(2) [OF assms(1) run try_fold_indexes(1) [OF idx] assms(2)]) simp
  have keys: "map so_lesson_ref (filter (\<lambda>occ. in_range rng (so_date occ)) (map snd m)) =
      map fst (filter (\<lambda>e. in_range rng (so_date (snd e))) m)"
  proof -
    have "so_lesson_ref occ = ref" if "(ref, occ) \<in> set m" "in_range rng (so_date occ)" for ref occ
      using col [of ref occ] that by (auto simp: is_lesson_def dest: materialize_occurrence_ok(1))
    then show ?thesis by (auto simp: filter_map o_def)
  qed
  have "distinct (map so_lesson_ref (filter (\<lambda>occ. in_range rng (so_date occ)) (map snd m)))"
    unfolding keys using bt_wf_distinct [OF wf] by (rule distinct_map_filter)
  then have "distinct (map so_lesson_ref occs)" by (simp add: occs distinct_map)
  moreover have "set occs = {occ. in_range rng (so_date occ) \<and>
      (\<exists>rule\<in>set rules. \<exists>d. is_lesson cal policy groups exceptions options rule d occ)}"
    (is "_ = ?L")
  proof (intro set_eqI iffI)
    show "occ \<in> ?L" if "occ \<in> set occs" for occ
    proof -
      from that obtain ref where "(ref, occ) \<in> set m" "in_range rng (so_date occ)" by (auto simp: occs)
      then show ?thesis using col [of ref occ] by blast
    qed
    show "occ \<in> set occs" if occ: "occ \<in> ?L" for occ
    proof -
      from occ obtain ref where "(ref, occ) \<in> set m" using col [of _ occ] by blast
      with occ show ?thesis by (force simp: occs)
    qed
  qed
  ultimately show ?thesis by (simp add: occs)
qed

text \<open>
  Looking one lesson up agrees with the materialized range: every lesson in the result is what
  \<open>materialize_schedule_occurrence\<close> returns for its rule, group, exception and original date.
\<close>

theorem single_lookup_agrees:
  assumes "chrono_calendar cal" and "distinct (map r_id rules)"
    and "materialize_schedule cal policy groups rules exceptions rng options = Some (Inr occs)"
    and "occ \<in> set occs"
  shows "\<exists>rule\<in>set rules. \<exists>grp\<in>set groups.
    so_lesson_ref occ = StableLessonReference (r_id rule) (original_date (so_lesson_ref occ)) \<and>
    materialize_schedule_occurrence cal policy grp rule
      (exception_for exceptions rule (original_date (so_lesson_ref occ)))
      (original_date (so_lesson_ref occ)) = Inr (Some occ)"
proof -
  from assms(3) obtain xmap m where idx: "try_fold index_exception exceptions [] = Inr xmap"
    and run: "materialize_rules (materialize_rule cal policy (group_index groups) exceptions xmap rng options) rules [] = Some (Inr m)"
    and occs: "occs = sort_key occurrence_key (filter (\<lambda>occ. in_range rng (so_date occ)) (map snd m))"
    by (auto simp: materialize_schedule_def and_then_eq_Inr in_range_def split: if_splits sum.splits)
  from assms(4) obtain ref where "(ref, occ) \<in> set m" "in_range rng (so_date occ)" by (auto simp: occs)
  then obtain rule d where rule: "rule \<in> set rules" and les: "is_lesson cal policy groups exceptions options rule d occ"
    using chrono_calendar.rules_collect [OF assms(1) idx assms(2) run, of ref occ] by blast
  from les obtain grp where grp: "group_of groups (r_group_id rule) = Some grp" and on: "occurs_on cal rule d"
    and mo: "materialize_occurrence policy grp rule d (exception_for exceptions rule d) = Inr occ"
    by (auto simp: is_lesson_def)
  have ref: "so_lesson_ref occ = StableLessonReference (r_id rule) d" by (rule materialize_occurrence_ok(1) [OF mo])
  have "rule_validate rule = Inr ()"
    using chrono_calendar.materialize_rules_ok [OF assms(1) idx, of policy groups rng options rules "[]"] run rule
    by (auto simp: rule_input_ok_def is_ok_iff)
  moreover have "exception_for exceptions rule d = Some x \<Longrightarrow> x_recurrence_rule_id x = r_id rule \<and> x_original_date x = d" for x
    by (auto simp: exception_for_def exception_ref_def find_Some_iff)
  ultimately have "materialize_schedule_occurrence cal policy grp rule (exception_for exceptions rule d) d = Inr (Some occ)"
    using group_of_Some [OF grp] on mo by (auto simp: materialize_schedule_occurrence_def split: option.splits)
  with rule ref group_of_Some [OF grp] show ?thesis by auto
qed

subsection \<open>A concrete schedule\<close>

text \<open>
  A group with one Monday rule in August 2026 and an exception that moves the lesson of
  10 August to Tuesday 4 August, at which the theorems above are instantiated.
\<close>

definition demo_policy :: schedule_policy where
  "demo_policy = \<lparr>default_trial_policy = Free, track_attendance_by_default = True,
     allow_single_visits_by_default = False\<rparr>"

definition demo_group :: group_schedule_policy where
  "demo_group = \<lparr>g_id = 1, g_branch_id = 2, g_room_id = Some 3, g_teacher_ids = [4],
     g_age_limits = \<lparr>minimum_months = None, maximum_months = None\<rparr>, g_capacity = Some 8, g_trial_policy_override = None,
     g_track_attendance_override = None, g_allow_single_visits_override = None, g_active = True\<rparr>"

definition demo_rule :: "civil_date recurrence_rule" where
  "demo_rule = \<lparr>r_id = 5, r_group_id = 1, r_starts_on = civil 2026 8 3, r_ends_on = civil 2026 8 31,
     r_weekdays = {Monday}, r_start_time = 36000, r_end_time = 39600, r_branch_id_override = None,
     r_room_id_override = Inherit, r_teacher_ids_override = None, r_capacity_override = Inherit,
     r_trial_policy_override = None, r_active = True\<rparr>"

definition demo_exception :: "civil_date lesson_exception" where
  "demo_exception = \<lparr>x_id = 6, x_recurrence_rule_id = 5, x_original_date = civil 2026 8 10,
     x_original = \<lparr>lo_start_time = 36000, lo_end_time = 39600, lo_branch_id = 2, lo_room_id = Some 3,
       lo_teacher_ids = [4]\<rparr>,
     x_kind = OverrideException \<lparr>oo_date = Some (civil 2026 8 4), oo_start_time = None, oo_end_time = None,
       oo_branch_id = None, oo_room_id = Clear, oo_teacher_ids = None, oo_capacity = Inherit,
       oo_trial_policy = None, oo_allow_single_visits = None\<rparr>\<rparr>"

definition demo_range :: "civil_date schedule_range" where
  "demo_range = \<lparr>sr_starts_on = civil 2026 8 3, sr_ends_on = civil 2026 8 4\<rparr>"

definition demo_lesson :: "civil_date schedule_occurrence" where
  "demo_lesson = \<lparr>so_lesson_ref = StableLessonReference 5 (civil 2026 8 3), so_group_id = 1,
     so_branch_id = 2, so_room_id = Some 3, so_teacher_ids = [4], so_original_start_time = 36000,
     so_original_end_time = 39600, so_date = civil 2026 8 3, so_start_time = 36000,
     so_end_time = 39600, so_capacity = Some 8, so_trial_policy = Free, so_single_visit_allowed = False,
     so_track_attendance = True, so_status = Scheduled, so_exception_id = None\<rparr>"

definition demo_moved :: "civil_date schedule_occurrence" where
  "demo_moved = demo_lesson\<lparr>so_lesson_ref := StableLessonReference 5 (civil 2026 8 10),
     so_room_id := None, so_date := civil 2026 8 4, so_status := Moved, so_exception_id := Some 6\<rparr>"

lemmas demo_defs = demo_policy_def demo_group_def demo_rule_def demo_exception_def demo_range_def
  demo_lesson_def demo_moved_def

lemma demo_weekdays:
  "weekday_of gregorian_cal (civil 2026 8 3) = Mon"
  "weekday_of gregorian_cal (civil 2026 8 4) = Tue"
  "weekday_of gregorian_cal (civil 2026 8 10) = Mon"
  by (simp_all add: civil_eval weekday_index_def day_number_def upt_rec)

lemma demo_succ: "succ_opt gregorian_cal (civil 2026 8 3) = Some (civil 2026 8 4)"
  by (simp add: gregorian_succ_civil civil_eval del: gregorian_succ)

lemma demo_order:
  "civil 2026 8 3 < civil 2026 8 4" "civil 2026 8 4 < civil 2026 8 10" "civil 2026 8 10 < civil 2026 8 31"
  "civil 2026 8 3 \<noteq> civil 2026 8 4" "civil 2026 8 4 \<noteq> civil 2026 8 10" "civil 2026 8 3 \<noteq> civil 2026 8 10"
  by (simp_all add: civil_eval)

lemma demo_window:
  "max (civil 2026 8 3) (civil 2026 8 3) = civil 2026 8 3"
  "min (civil 2026 8 31) (civil 2026 8 4) = civil 2026 8 4"
  by (simp_all add: civil_eval min_def)

lemma demo_days:
  "occurs_on gregorian_cal demo_rule (civil 2026 8 3)"
  "\<not> occurs_on gregorian_cal demo_rule (civil 2026 8 4)"
  "occurs_on gregorian_cal demo_rule (civil 2026 8 10)"
  using demo_order by (auto simp: occurs_on_def demo_weekdays demo_rule_def simp del: gregorian_fields)

lemma demo_occurrences:
  "materialize_occurrence demo_policy demo_group demo_rule (civil 2026 8 3) None = Inr demo_lesson"
  "materialize_occurrence demo_policy demo_group demo_rule (civil 2026 8 10) (Some demo_exception) = Inr demo_moved"
  using demo_order
  by (simp_all add: materialize_occurrence_def demo_defs resolve_nullable_def del: civil_order)

lemma demo_day_loop:
  "day_loop gregorian_cal (day_body gregorian_cal demo_policy demo_group demo_rule
      [(StableLessonReference 5 (civil 2026 8 10), demo_exception)]) (civil 2026 8 4) (civil 2026 8 3) [] =
   Some (Inr [(StableLessonReference 5 (civil 2026 8 3), demo_lesson)])"
proof -
  have id: "r_id demo_rule = 5" by (simp add: demo_rule_def)
  show ?thesis
    using demo_order demo_days demo_occurrences demo_succ
    by (simp add: day_loop.simps day_body_def id del: gregorian_succ gregorian_fields civil_order)
qed

lemma demo_run:
  "materialize_schedule gregorian_cal demo_policy [demo_group] [demo_rule] [demo_exception] demo_range
     \<lparr>include_archived = False\<rparr> = Some (Inr [demo_lesson, demo_moved])"
proof -
  have rule: "r_id demo_rule = 5" "r_group_id demo_rule = 1" "r_starts_on demo_rule = civil 2026 8 3"
    "r_ends_on demo_rule = civil 2026 8 31" "r_active demo_rule" "rule_validate demo_rule = Inr ()"
    using demo_order by (auto simp: demo_rule_def rule_validate_def)
  have x: "x_recurrence_rule_id demo_exception = 5" "x_original_date demo_exception = civil 2026 8 10"
    "exception_target_date demo_exception = Some (civil 2026 8 4)"
    by (simp_all add: demo_exception_def exception_target_date_def)
  have g: "g_id demo_group = 1" "g_active demo_group" by (simp_all add: demo_group_def)
  have r: "sr_starts_on demo_range = civil 2026 8 3" "sr_ends_on demo_range = civil 2026 8 4"
    by (simp_all add: demo_range_def)
  have idx: "try_fold index_exception [demo_exception] [] =
      Inr [(StableLessonReference 5 (civil 2026 8 10), demo_exception)]"
    by (simp add: index_exception_def exception_ref_def x)
  have ref: "(StableLessonReference 5 (civil 2026 8 3) :: civil_date stable_lesson_reference)
      < StableLessonReference 5 (civil 2026 8 10)"
    using demo_order by (auto simp: less_stable_lesson_reference_def)
  have step: "materialize_rule gregorian_cal demo_policy (group_index [demo_group]) [demo_exception]
      [(StableLessonReference 5 (civil 2026 8 10), demo_exception)] demo_range
      \<lparr>include_archived = False\<rparr> demo_rule [] =
      Some (Inr [(StableLessonReference 5 (civil 2026 8 3), demo_lesson),
        (StableLessonReference 5 (civil 2026 8 10), demo_moved)])"
    using demo_order demo_days demo_occurrences ref
    by (auto simp: materialize_rule_def group_index_def rule x g r demo_window demo_day_loop exception_body_def Let_def
        simp del: gregorian_succ gregorian_fields civil_order)
  have d: "so_date demo_lesson = civil 2026 8 3" "so_date demo_moved = civil 2026 8 4"
    by (simp_all add: demo_defs)
  have "occurrence_key demo_lesson < occurrence_key demo_moved"
    using demo_order by (simp add: occurrence_key_def d)
  then show ?thesis
    using demo_order
    by (auto simp: materialize_schedule_def r idx step d simp del: civil_order try_fold.simps)
qed

text \<open>Instances of the properties at this schedule.\<close>

theorem materialize_schedule_returns_witness:
  "\<exists>r. materialize_schedule gregorian_cal demo_policy [demo_group] [demo_rule] [demo_exception] demo_range
     \<lparr>include_archived = False\<rparr> = Some r"
  by (rule materialize_schedule_returns [OF gregorian.chrono_calendar_axioms])

theorem materialize_schedule_ok_iff_witness:
  "rule_input_ok gregorian_cal demo_policy [demo_group] [demo_exception] demo_range
     \<lparr>include_archived = False\<rparr> demo_rule"
  using materialize_schedule_ok_iff [OF gregorian.chrono_calendar_axioms, of demo_policy "[demo_group]"
      "[demo_rule]" "[demo_exception]" demo_range "\<lparr>include_archived = False\<rparr>"] demo_run
  by simp

theorem materialize_schedule_exact_witness:
  "{demo_lesson, demo_moved} = {occ. in_range demo_range (so_date occ) \<and>
     (\<exists>d. is_lesson gregorian_cal demo_policy [demo_group] [demo_exception] \<lparr>include_archived = False\<rparr>
        demo_rule d occ)}"
  using materialize_schedule_exact [OF gregorian.chrono_calendar_axioms _ demo_run] by simp

theorem single_lookup_agrees_witness:
  "materialize_schedule_occurrence gregorian_cal demo_policy demo_group demo_rule
     (exception_for [demo_exception] demo_rule (civil 2026 8 10)) (civil 2026 8 10) = Inr (Some demo_moved)"
proof -
  have "so_lesson_ref demo_moved = StableLessonReference 5 (civil 2026 8 10)" by (simp add: demo_moved_def)
  then show ?thesis
    using single_lookup_agrees [OF gregorian.chrono_calendar_axioms _ demo_run, of demo_moved] by simp
qed

end
