(* ===== verification/Capacity.thy ===== *)
theory Capacity
  imports Schedule
begin

section \<open>Participation and capacity (\<open>crates/airhop-core/src/capacity.rs\<close>)\<close>

text \<open>
  Enrollments and bookings that occupy a lesson, and the admission check. The children of a
  lesson are a \<open>BTreeSet\<close>, so a child that is both enrolled and booked counts once. The
  history of a lesson's bookings is a step relation: a booking is added only after the admission
  check, and statuses change only along \<open>transition_to\<close>.
\<close>

datatype enrollment_status = Active | Paused | Ended

datatype weekly_schedule_selection =
  WeeklyScheduleSelection (ws_recurrence_rule_id: uuid) (ws_weekday: weekday)

datatype assignment_state = NeedsAssignment | Configured "weekly_schedule_selection set"

record 'd enrollment =
  en_child_id :: uuid
  en_group_id :: uuid
  en_start_date :: 'd
  en_end_date :: "'d option"
  en_status :: enrollment_status
  en_assignment :: assignment_state

record 'd lesson =
  l_group_id :: uuid
  l_date :: 'd
  l_lesson_ref :: "'d stable_lesson_reference"

record 'd booking_seat =
  b_child_id :: uuid
  b_lesson_ref :: "'d stable_lesson_reference"
  b_status :: booking_status

definition is_active_on :: "'d::linorder enrollment \<Rightarrow> 'd \<Rightarrow> bool" where
  "is_active_on e d \<longleftrightarrow> en_status e = Active \<and> en_start_date e \<le> d \<and>
     (case en_end_date e of None \<Rightarrow> True | Some end_date \<Rightarrow> d \<le> end_date)"

definition covers :: "'d::linorder chrono \<Rightarrow> 'd enrollment \<Rightarrow> 'd lesson \<Rightarrow> bool" where
  "covers cal e l =
     (if en_group_id e \<noteq> l_group_id l \<or> \<not> is_active_on e (l_date l) then False
      else case en_assignment e of
        NeedsAssignment \<Rightarrow> True
      | Configured selections \<Rightarrow>
          let wd = weekday_from (weekday_of cal (original_date (l_lesson_ref l))) in
          WeeklyScheduleSelection (recurrence_rule_id (l_lesson_ref l)) wd \<in> selections)"

definition holds_seat_for :: "'d booking_seat \<Rightarrow> 'd lesson \<Rightarrow> bool" where
  "holds_seat_for b l \<longleftrightarrow> holds_seat (b_status b) \<and> b_lesson_ref b = l_lesson_ref l"

definition participant_child_ids ::
  "'d::linorder chrono \<Rightarrow> 'd lesson \<Rightarrow> 'd enrollment list \<Rightarrow> 'd booking_seat list \<Rightarrow> uuid set" where
  "participant_child_ids cal l enrollments bookings =
     set (map en_child_id (filter (\<lambda>e. covers cal e l) enrollments)) \<union>
     set (map b_child_id (filter (\<lambda>b. holds_seat_for b l) bookings))"

definition occupancy ::
  "'d::linorder chrono \<Rightarrow> 'd lesson \<Rightarrow> 'd enrollment list \<Rightarrow> 'd booking_seat list \<Rightarrow> nat" where
  "occupancy cal l enrollments bookings = card (participant_child_ids cal l enrollments bookings)"

definition has_capacity_for_child ::
  "'d::linorder chrono \<Rightarrow> 'd lesson \<Rightarrow> nat option \<Rightarrow> uuid \<Rightarrow> 'd enrollment list \<Rightarrow> 'd booking_seat list \<Rightarrow> bool" where
  "has_capacity_for_child cal l capacity child_id enrollments bookings =
     (let participants = participant_child_ids cal l enrollments bookings in
      child_id \<in> participants \<or>
      (case capacity of None \<Rightarrow> True | Some limit \<Rightarrow> card participants < limit))"

subsection \<open>Occupancy under bookings and transitions\<close>

lemma finite_participants [simp]: "finite (participant_child_ids cal l es bs)"
  by (simp add: participant_child_ids_def)

lemma participants_append:
  "participant_child_ids cal l es (bs @ [b]) =
     (if holds_seat_for b l then insert (b_child_id b) (participant_child_ids cal l es bs)
      else participant_child_ids cal l es bs)"
  by (auto simp: participant_child_ids_def)

lemma participants_mono:
  assumes "\<And>b. b \<in> set bs \<Longrightarrow> holds_seat_for b l \<Longrightarrow>
    \<exists>b'\<in>set bs'. holds_seat_for b' l \<and> b_child_id b' = b_child_id b"
  shows "participant_child_ids cal l es bs \<subseteq> participant_child_ids cal l es bs'"
proof
  fix c assume "c \<in> participant_child_ids cal l es bs"
  then consider "c \<in> set (map en_child_id (filter (\<lambda>e. covers cal e l) es))"
    | b where "b \<in> set bs" "holds_seat_for b l" "c = b_child_id b"
    by (auto simp: participant_child_ids_def)
  then show "c \<in> participant_child_ids cal l es bs'"
  proof cases
    case 2
    then obtain b' where "b' \<in> set bs'" "holds_seat_for b' l" "b_child_id b' = c" using assms by blast
    then show ?thesis by (auto simp: participant_child_ids_def)
  qed (simp add: participant_child_ids_def)
qed

text \<open>A legal transition never makes a booking hold a seat it did not hold.\<close>

lemma transition_never_claims:
  "transition_to s t = Inr s' \<Longrightarrow> holds_seat s' \<Longrightarrow> holds_seat s"
  by (auto simp: transition_to_def can_transition_to_def holds_seat_def
      split: if_splits booking_status.splits)

lemma occupancy_transition:
  assumes "i < length bs" and "transition_to (b_status (bs ! i)) t = Inr s'"
  shows "occupancy cal l es (bs[i := (bs ! i)\<lparr>b_status := s'\<rparr>]) \<le> occupancy cal l es bs"
proof -
  have "\<exists>b'\<in>set bs. holds_seat_for b' l \<and> b_child_id b' = b_child_id b"
    if "b \<in> set (bs[i := (bs ! i)\<lparr>b_status := s'\<rparr>])" "holds_seat_for b l" for b
  proof (cases "b = (bs ! i)\<lparr>b_status := s'\<rparr>")
    case True
    with that transition_never_claims [OF assms(2)] assms(1) show ?thesis
      by (intro bexI [of _ "bs ! i"]) (auto simp: holds_seat_for_def)
  next
    case False
    then have "b \<in> set bs" using that(1) set_update_subset_insert by fastforce
    with that(2) show ?thesis by blast
  qed
  then show ?thesis unfolding occupancy_def by (intro card_mono finite_participants participants_mono)
qed

lemma occupancy_admitted:
  assumes "has_capacity_for_child cal l (Some limit) (b_child_id b) es bs"
  shows "occupancy cal l es (bs @ [b]) \<le> max limit (occupancy cal l es bs)"
  using assms by (auto simp: has_capacity_for_child_def occupancy_def participants_append insert_absorb Let_def card_insert_if)

subsection \<open>Booking histories\<close>

text \<open>
  The bookings of a center as they evolve: a booking of the lesson is appended only when the
  admission check passes for its child, a booking of another lesson is unconstrained here, and an
  existing booking changes its status through \<open>transition_to\<close>.
\<close>

inductive booking_step ::
  "'d::linorder chrono \<Rightarrow> 'd lesson \<Rightarrow> nat option \<Rightarrow> 'd enrollment list \<Rightarrow> 'd booking_seat list \<Rightarrow> 'd booking_seat list \<Rightarrow> bool"
  for cal l capacity es where
  admit: "b_lesson_ref b = l_lesson_ref l \<Longrightarrow>
    has_capacity_for_child cal l capacity (b_child_id b) es bs \<Longrightarrow>
    booking_step cal l capacity es bs (bs @ [b])"
| elsewhere: "b_lesson_ref b \<noteq> l_lesson_ref l \<Longrightarrow> booking_step cal l capacity es bs (bs @ [b])"
| transit: "i < length bs \<Longrightarrow> transition_to (b_status (bs ! i)) t = Inr s' \<Longrightarrow>
    booking_step cal l capacity es bs (bs[i := (bs ! i)\<lparr>b_status := s'\<rparr>])"

inductive_cases booking_stepE: "booking_step cal l capacity es bs bs'"

lemma booking_step_occupancy:
  assumes "booking_step cal l (Some limit) es bs bs'"
  shows "occupancy cal l es bs' \<le> max limit (occupancy cal l es bs)"
  using assms
proof cases
  case (admit b)
  then show ?thesis using occupancy_admitted by blast
next
  case (elsewhere b)
  then show ?thesis by (simp add: occupancy_def participants_append holds_seat_for_def)
next
  case (transit i t s')
  then show ?thesis using occupancy_transition by (metis max.coboundedI2)
qed

text \<open>
  C6. A lesson is never overbooked: starting from bookings within the limit, every history of
  admitted bookings, bookings of other lessons and status transitions keeps the number of distinct
  children in the lesson within the limit.
\<close>

theorem occupancy_within_limit:
  assumes "(booking_step cal l (Some limit) es)\<^sup>*\<^sup>* bs bs'" and "occupancy cal l es bs \<le> limit"
  shows "occupancy cal l es bs' \<le> limit"
  using assms by (induction rule: rtranclp_induct) (use booking_step_occupancy in fastforce)+

text \<open>
  The admission check is exact: a child is admitted precisely when a seat-holding booking for
  that child would leave the lesson within its capacity, or would not change the occupancy
  because the child already takes part.
\<close>

theorem admission_exact:
  assumes "b_lesson_ref b = l_lesson_ref l" and "holds_seat (b_status b)"
  shows "has_capacity_for_child cal l capacity (b_child_id b) es bs \<longleftrightarrow>
    occupancy cal l es (bs @ [b]) = occupancy cal l es bs \<or>
    (case capacity of None \<Rightarrow> True | Some limit \<Rightarrow> occupancy cal l es (bs @ [b]) \<le> limit)"
  using assms
  by (auto simp: has_capacity_for_child_def occupancy_def participants_append holds_seat_for_def Let_def
      card_insert_if insert_absorb split: option.splits)

definition demo_seat :: "uuid \<Rightarrow> civil_date booking_seat" where
  "demo_seat c = \<lparr>b_child_id = c, b_lesson_ref = StableLessonReference 5 (civil 2026 8 3),
     b_status = PendingConfirmation\<rparr>"

definition demo_slot :: "civil_date lesson" where
  "demo_slot = \<lparr>l_group_id = 1, l_date = civil 2026 8 3, l_lesson_ref = StableLessonReference 5 (civil 2026 8 3)\<rparr>"

theorem occupancy_within_limit_witness:
  "(booking_step gregorian_cal demo_slot (Some 1) [])\<^sup>*\<^sup>* [] [demo_seat 7] \<and>
   occupancy gregorian_cal demo_slot [] [demo_seat 7] \<le> 1"
proof -
  have "booking_step gregorian_cal demo_slot (Some 1) [] [] ([] @ [demo_seat 7])"
    by (rule booking_step.admit)
      (simp_all add: demo_seat_def demo_slot_def has_capacity_for_child_def participant_child_ids_def)
  then have run: "(booking_step gregorian_cal demo_slot (Some 1) [])\<^sup>*\<^sup>* [] [demo_seat 7]" by simp
  moreover have "occupancy gregorian_cal demo_slot [] [] \<le> 1"
    by (simp add: occupancy_def participant_child_ids_def)
  ultimately show ?thesis using occupancy_within_limit [OF run] by simp
qed

theorem admission_exact_witness:
  "has_capacity_for_child gregorian_cal demo_slot (Some 2) 8 [] [demo_seat 7] \<and>
   occupancy gregorian_cal demo_slot [] ([demo_seat 7] @ [demo_seat 8]) = 2"
proof -
  have "occupancy gregorian_cal demo_slot [] ([demo_seat 7] @ [demo_seat 8]) = 2"
    by (simp add: occupancy_def participant_child_ids_def holds_seat_for_def holds_seat_def demo_seat_def demo_slot_def)
  moreover have "b_lesson_ref (demo_seat 8) = l_lesson_ref demo_slot" "holds_seat (b_status (demo_seat 8))"
    "b_child_id (demo_seat 8) = 8"
    by (simp_all add: demo_seat_def demo_slot_def holds_seat_def)
  ultimately show ?thesis
    using admission_exact [of "demo_seat 8" demo_slot gregorian_cal "Some 2" "[]" "[demo_seat 7]"] by simp
qed

end
