(* ===== verification/Agent_Access.thy ===== *)
theory Agent_Access
  imports Prelude
begin

section \<open>Conversation permissions (\<open>crates/airhop-core/src/agent_access.rs\<close>)\<close>

text \<open>
  Who may start an agent task and on which surface. Error messages are the constructors of
  \<open>agent_access_error\<close>, one per message of the source.
\<close>

datatype agent_audience = Staff | Owner | Selected "string list"

datatype agent_conversation_surfaces = Both | Channels | DirectMessages

record agent_conversation_access =
  audience :: agent_audience
  surfaces :: agent_conversation_surfaces

datatype agent_access_error = ChooseEmployees | KeysNotCanonical

definition canonical_pubkey :: "string \<Rightarrow> bool" where
  "canonical_pubkey key \<longleftrightarrow> length key = 64 \<and> (\<forall>c\<in>set key. is_ascii_digit c \<or> (97 \<le> byte c \<and> byte c \<le> 102))"

definition access_validate :: "agent_conversation_access \<Rightarrow> (unit, agent_access_error) result" where
  "access_validate a =
     (case audience a of
        Selected pubkeys \<Rightarrow>
          if pubkeys = [] \<or> length pubkeys > 200 \<or> unique_count pubkeys \<noteq> length pubkeys
          then Inl ChooseEmployees
          else if \<exists>key\<in>set pubkeys. \<not> canonical_pubkey key then Inl KeysNotCanonical
          else Inr ()
      | _ \<Rightarrow> Inr ())"

definition allows_actor :: "agent_conversation_access \<Rightarrow> string \<Rightarrow> string \<Rightarrow> bool" where
  "allows_actor a pubkey member_role =
     (if member_role \<notin> {''owner'', ''admin'', ''member''} then False
      else case audience a of
        Staff \<Rightarrow> True
      | Owner \<Rightarrow> member_role = ''owner''
      | Selected pubkeys \<Rightarrow> pubkey \<in> set pubkeys)"

definition allows_surface :: "agent_conversation_access \<Rightarrow> bool \<Rightarrow> bool" where
  "allows_surface a is_direct_message \<longleftrightarrow>
     surfaces a = Both \<or> (is_direct_message \<and> surfaces a = DirectMessages) \<or>
     (\<not> is_direct_message \<and> surfaces a = Channels)"

text \<open>
  A validated selected audience is a closed list: for each staff role it admits the same
  actors, between 1 and 200 of them, all with canonical keys, and nobody of another role; an
  owner outside the list is not admitted.
\<close>

theorem selected_audience_closed:
  assumes "audience a = Selected pubkeys" and "access_validate a = Inr ()"
  shows "{pk. allows_actor a pk role} = (if role \<in> {''owner'', ''admin'', ''member''} then set pubkeys else {}) \<and>
    1 \<le> card (set pubkeys) \<and> card (set pubkeys) \<le> 200 \<and> (\<forall>pk\<in>set pubkeys. canonical_pubkey pk)"
proof -
  from assms have "pubkeys \<noteq> []" "length pubkeys \<le> 200" "unique_count pubkeys = length pubkeys"
    "\<forall>pk\<in>set pubkeys. canonical_pubkey pk"
    by (auto simp: access_validate_def split: if_splits)
  then show ?thesis
    using assms(1) by (cases pubkeys) (auto simp: allows_actor_def unique_count_def simp del: set_simps)
qed

definition demo_pubkey :: string where
  "demo_pubkey = replicate 64 (CHR ''a'')"

theorem selected_audience_closed_witness:
  "{pk. allows_actor \<lparr>audience = Selected [demo_pubkey], surfaces = Both\<rparr> pk ''admin''} = {demo_pubkey}"
  using selected_audience_closed [of "\<lparr>audience = Selected [demo_pubkey], surfaces = Both\<rparr>" "[demo_pubkey]" "''admin''"]
  by (simp add: access_validate_def canonical_pubkey_def unique_count_def demo_pubkey_def ascii_defs)

end
