(* ===== verification/Agent_Policy.thy ===== *)
theory Agent_Policy
  imports Agent_Access Calendar
begin

section \<open>Role duties (\<open>crates/airhop-core/src/agent_policy.rs\<close>)\<close>

text \<open>
  The product roles, the duties an organization may configure for each of them, their validation
  before persistence, and the birthday rule of the administrator's reminders.
\<close>

datatype agent_role = Fizz | Administrator | Analyst | ContentMarketer | ParentAdministrator

definition role_ALL :: "agent_role list" where
  "role_ALL = [Fizz, Administrator, Analyst, ContentMarketer, ParentAdministrator]"

fun as_str :: "agent_role \<Rightarrow> string" where
  "as_str Fizz = ''fizz''"
| "as_str Administrator = ''administrator''"
| "as_str Analyst = ''analyst''"
| "as_str ContentMarketer = ''content_marketer''"
| "as_str ParentAdministrator = ''parent_administrator''"

definition role_parse :: "string \<Rightarrow> agent_role option" where
  "role_parse v = find (\<lambda>role. as_str role = v) role_ALL"

datatype notice_destination = Branches | ChannelDestination uuid

record local_delivery_time =
  hour :: "8 word"
  minute :: "8 word"

definition default_delivery_time :: local_delivery_time where
  "default_delivery_time = \<lparr>hour = 9, minute = 0\<rparr>"

record birthday_policy =
  bp_enabled :: bool
  bp_today :: bool
  bp_advance_days :: "8 word"
  bp_time :: local_delivery_time
  bp_destination :: notice_destination

definition default_birthday_policy :: birthday_policy where
  "default_birthday_policy = \<lparr>bp_enabled = True, bp_today = True, bp_advance_days = 2,
     bp_time = default_delivery_time, bp_destination = Branches\<rparr>"

datatype analytics_section = Bookings | Payments | Attendance | CapacitySection | Acquisition

record analytics_policy =
  ap_enabled :: bool
  ap_channel_id :: "uuid option"
  ap_time :: local_delivery_time
  ap_weekday :: "8 word option"
  ap_sections :: "analytics_section list"

definition default_analytics_policy :: analytics_policy where
  "default_analytics_policy = \<lparr>ap_enabled = True, ap_channel_id = None, ap_time = default_delivery_time,
     ap_weekday = None, ap_sections = [Bookings, Payments, Attendance, CapacitySection, Acquisition]\<rparr>"

record content_policy =
  website_editing :: bool

datatype learning_mode = Off | Observe | Validated

record agent_policy =
  p_enabled :: bool
  p_communication :: "agent_conversation_access option"
  p_birthdays :: "birthday_policy option"
  p_analytics :: "analytics_policy option"
  p_content :: "content_policy option"
  p_learning :: learning_mode

datatype policy_error =
    AccessScopedByConnection
  | AccessError agent_access_error
  | DutiesMismatch
  | BirthdayAdvanceRange
  | ChooseBirthdayNotification
  | DestinationMissing
  | WeekdayRange
  | SelectDistinctSections
  | InvalidDeliveryTime

definition for_role :: "agent_role \<Rightarrow> agent_policy" where
  "for_role role = \<lparr>
     p_enabled = True,
     p_communication = None,
     p_birthdays = (if role = Administrator then Some default_birthday_policy else None),
     p_analytics = (if role = Analyst then Some default_analytics_policy else None),
     p_content = (if role = ContentMarketer then Some \<lparr>website_editing = True\<rparr> else None),
     p_learning = Observe\<rparr>"

definition validate_time :: "local_delivery_time \<Rightarrow> (unit, policy_error) result" where
  "validate_time time = (if hour time > 23 \<or> minute time > 59 then Inl InvalidDeliveryTime else Inr ())"

definition validate_communication :: "agent_conversation_access option \<Rightarrow> agent_role \<Rightarrow> (unit, policy_error) result" where
  "validate_communication communication role =
     (case communication of
        None \<Rightarrow> Inr ()
      | Some access \<Rightarrow>
          if role = ParentAdministrator then Inl AccessScopedByConnection
          else case access_validate access of Inl e \<Rightarrow> Inl (AccessError e) | Inr _ \<Rightarrow> Inr ())"

definition validate_birthdays :: "birthday_policy option \<Rightarrow> (unit, policy_error) result" where
  "validate_birthdays birthdays =
     (case birthdays of
        None \<Rightarrow> Inr ()
      | Some policy \<Rightarrow>
          and_then (validate_time (bp_time policy)) (\<lambda>_.
            if bp_advance_days policy > 30 then Inl BirthdayAdvanceRange
            else if bp_enabled policy \<and> \<not> bp_today policy \<and> bp_advance_days policy = 0
            then Inl ChooseBirthdayNotification
            else if (case bp_destination policy of ChannelDestination channel_id \<Rightarrow> is_nil channel_id | _ \<Rightarrow> False)
            then Inl DestinationMissing
            else Inr ()))"

definition validate_analytics :: "analytics_policy option \<Rightarrow> (unit, policy_error) result" where
  "validate_analytics analytics =
     (case analytics of
        None \<Rightarrow> Inr ()
      | Some policy \<Rightarrow>
          and_then (validate_time (ap_time policy)) (\<lambda>_.
            if (case ap_weekday policy of None \<Rightarrow> False | Some wd \<Rightarrow> \<not> (1 \<le> wd \<and> wd \<le> 7))
            then Inl WeekdayRange
            else if (case ap_channel_id policy of None \<Rightarrow> False | Some ch \<Rightarrow> is_nil ch)
            then Inl DestinationMissing
            else if unique_count (ap_sections policy) \<noteq> length (ap_sections policy) \<or>
                    length (ap_sections policy) > 5 \<or>
                    (ap_enabled policy \<and> ap_sections policy = [])
            then Inl SelectDistinctSections
            else Inr ()))"

definition policy_validate :: "agent_policy \<Rightarrow> agent_role \<Rightarrow> (unit, policy_error) result" where
  "policy_validate p role =
     and_then (validate_communication (p_communication p) role) (\<lambda>_.
       if (p_birthdays p \<noteq> None) \<noteq> (role = Administrator) \<or>
          (p_analytics p \<noteq> None) \<noteq> (role = Analyst) \<or>
          (p_content p \<noteq> None) \<noteq> (role = ContentMarketer)
       then Inl DutiesMismatch
       else and_then (validate_birthdays (p_birthdays p)) (\<lambda>_. validate_analytics (p_analytics p)))"

record set_agent_policy =
  sap_role :: agent_role
  sap_expected_version :: "64 word"
  sap_policy :: agent_policy

text \<open>The anniversary of a birth in a year: 28 February when a 29 February birth has none.\<close>

definition anniversary :: "'d::linorder chrono \<Rightarrow> 'd \<Rightarrow> int \<Rightarrow> 'd option" where
  "anniversary cal birth y =
     (case from_ymd_opt cal y (month cal birth) (day cal birth) of
        Some a \<Rightarrow> Some a
      | None \<Rightarrow> (if month cal birth = 2 \<and> day cal birth = 29
                 then from_ymd_opt cal y 2 28 else None))"

definition birthday_age_on :: "'d::linorder chrono \<Rightarrow> 'd \<Rightarrow> 'd \<Rightarrow> nat option" where
  "birthday_age_on cal birth date =
     (case anniversary cal birth (year cal date) of
        None \<Rightarrow> None
      | Some a \<Rightarrow> (if a = date \<and> date > birth
                  then u32_try_from (year cal date - year cal birth) else None))"

subsection \<open>Roles and validation\<close>

lemma all_roles: "set role_ALL = UNIV"
  using agent_role.exhaust by (auto simp: role_ALL_def)

text \<open>
  The wire identifier of a role parses back to the role, and no other string parses.
\<close>

theorem role_parse_round_trip:
  "role_parse v = Some role \<longleftrightarrow> v = as_str role"
proof
  assume "role_parse v = Some role"
  then show "v = as_str role" by (auto simp: role_parse_def find_Some_iff)
next
  assume "v = as_str role"
  then show "role_parse v = Some role" by (cases role) (simp_all add: role_parse_def role_ALL_def)
qed

text \<open>
  What a persisted policy guarantees: a policy that validates for a role carries exactly the
  duties of that role, its delivery times are times of day, its birthday notice is due 0 to 30
  days ahead and not empty, its report is for distinct sections, none of its destinations is the
  nil channel, and an external administrator has no conversation access list.
\<close>

theorem valid_policy_guarantees:
  assumes "policy_validate p role = Inr ()"
  shows "(p_birthdays p \<noteq> None \<longleftrightarrow> role = Administrator) \<and> (p_analytics p \<noteq> None \<longleftrightarrow> role = Analyst) \<and>
    (p_content p \<noteq> None \<longleftrightarrow> role = ContentMarketer) \<and>
    (\<forall>b. p_birthdays p = Some b \<longrightarrow> unat (hour (bp_time b)) < 24 \<and> unat (minute (bp_time b)) < 60 \<and>
       unat (bp_advance_days b) \<le> 30 \<and> (bp_enabled b \<longrightarrow> bp_today b \<or> 0 < unat (bp_advance_days b)) \<and>
       bp_destination b \<noteq> ChannelDestination 0) \<and>
    (\<forall>a. p_analytics p = Some a \<longrightarrow> unat (hour (ap_time a)) < 24 \<and> unat (minute (ap_time a)) < 60 \<and>
       (\<forall>d. ap_weekday a = Some d \<longrightarrow> unat d \<in> {1..7}) \<and> ap_channel_id a \<noteq> Some 0 \<and>
       distinct (ap_sections a) \<and> (ap_enabled a \<longrightarrow> ap_sections a \<noteq> [])) \<and>
    (role = ParentAdministrator \<longrightarrow> p_communication p = None)"
proof -
  from assms have duties: "p_birthdays p \<noteq> None \<longleftrightarrow> role = Administrator" "p_analytics p \<noteq> None \<longleftrightarrow> role = Analyst"
      "p_content p \<noteq> None \<longleftrightarrow> role = ContentMarketer"
    and b: "validate_birthdays (p_birthdays p) = Inr ()" and a: "validate_analytics (p_analytics p) = Inr ()"
    and c: "validate_communication (p_communication p) role = Inr ()"
    by (auto simp: policy_validate_def and_then_eq_Inr split: if_splits)
  have time: "validate_time t = Inr () \<Longrightarrow> unat (hour t) < 24 \<and> unat (minute t) < 60" for t
    by (auto simp: validate_time_def word_less_nat_alt split: if_splits)
  have "role = ParentAdministrator \<longrightarrow> p_communication p = None"
    using c by (auto simp: validate_communication_def split: option.splits)
  moreover have "unat (hour (bp_time v)) < 24 \<and> unat (minute (bp_time v)) < 60 \<and>
       unat (bp_advance_days v) \<le> 30 \<and> (bp_enabled v \<longrightarrow> bp_today v \<or> 0 < unat (bp_advance_days v)) \<and>
       bp_destination v \<noteq> ChannelDestination 0" if "p_birthdays p = Some v" for v
    using b that time [of "bp_time v"]
    by (auto simp: validate_birthdays_def and_then_eq_Inr is_nil_def word_less_nat_alt unat_eq_zero
        split: if_splits notice_destination.splits)
  moreover have "unat (hour (ap_time v)) < 24 \<and> unat (minute (ap_time v)) < 60 \<and>
       (\<forall>d. ap_weekday v = Some d \<longrightarrow> unat d \<in> {1..7}) \<and> ap_channel_id v \<noteq> Some 0 \<and>
       distinct (ap_sections v) \<and> (ap_enabled v \<longrightarrow> ap_sections v \<noteq> [])" if "p_analytics p = Some v" for v
    using a that time [of "ap_time v"]
    by (auto simp: validate_analytics_def and_then_eq_Inr is_nil_def word_le_nat_alt unique_count_distinct
        split: if_splits option.splits)
  ultimately show ?thesis using duties by blast
qed

text \<open>
  The product default of a role validates for that role, and for another role only when both
  have no role-specific duty.
\<close>

theorem default_policy_valid_iff:
  "policy_validate (for_role role) role' = Inr () \<longleftrightarrow>
     role = role' \<or> {role, role'} \<subseteq> {Fizz, ParentAdministrator}"
  by (cases role; cases role')
    (auto simp: policy_validate_def for_role_def validate_communication_def validate_birthdays_def
      validate_analytics_def validate_time_def default_birthday_policy_def default_analytics_policy_def
      default_delivery_time_def unique_count_def)

subsection \<open>Birthdays\<close>

context chrono_calendar
begin

lemma birth_day_exists:
  assumes "min_year \<le> y" "y \<le> max_year" "\<not> (month cal b = 2 \<and> day cal b = 29)"
  shows "\<exists>a. from_ymd_opt cal y (month cal b) (day cal b) = Some a"
proof -
  have "from_ymd_opt cal (year cal b) (month cal b) (day cal b) = Some b" by (simp add: from_ymd)
  then show ?thesis using same_days [of "year cal b" "month cal b" "day cal b" y] assms by auto
qed

lemma anniversary_exists:
  assumes "min_year \<le> y" "y \<le> max_year"
  shows "\<exists>a. anniversary cal b y = Some a \<and> year cal a = y"
proof (cases "from_ymd_opt cal y (month cal b) (day cal b)")
  case None
  with birth_day_exists [OF assms, of b] have "month cal b = 2 \<and> day cal b = 29" by auto
  moreover obtain a where "from_ymd_opt cal y 2 28 = Some a" using first_days [of y 2 28] assms by auto
  moreover from this have "year cal a = y" by (simp add: from_ymd)
  ultimately show ?thesis using None by (simp add: anniversary_def)
next
  case (Some a)
  then have "year cal a = y" by (simp add: from_ymd)
  with Some show ?thesis by (simp add: anniversary_def)
qed

lemma birthday_unique:
  assumes "year cal b < y" and "y \<le> max_year"
  shows "\<exists>!d. year cal d = y \<and> birthday_age_on cal b d \<noteq> None"
proof -
  obtain a where a: "anniversary cal b y = Some a" and y: "year cal a = y"
    using anniversary_exists [of y b] assms year_range(1) [of b] by force
  have "b < a" using assms y by (simp add: date_less)
  moreover have "u32_try_from (y - year cal b) \<noteq> None"
    using assms year_range(1) [of b] by (simp add: u32_try_from_def min_year_def max_year_def)
  ultimately have "birthday_age_on cal b a \<noteq> None" using a unfolding birthday_age_on_def y by simp
  moreover have "d = a" if "year cal d = y" "birthday_age_on cal b d \<noteq> None" for d
    using that(2) a unfolding birthday_age_on_def that(1) by (simp split: if_splits)
  ultimately show ?thesis using y by blast
qed

lemma birthday_age:
  assumes "birthday_age_on cal b d = Some n"
  shows "int n = year cal d - year cal b" "b < d" "n \<noteq> 0"
proof -
  from assms have n: "anniversary cal b (year cal d) = Some d" "b < d"
      "u32_try_from (year cal d - year cal b) = Some n"
    by (auto simp: birthday_age_on_def split: option.splits if_splits)
  then show age: "int n = year cal d - year cal b" "b < d" by (auto simp: u32_try_from_Some)
  have "year cal d \<noteq> year cal b"
  proof
    assume eq: "year cal d = year cal b"
    have "from_ymd_opt cal (year cal b) (month cal b) (day cal b) = Some b" by (simp add: from_ymd)
    then have "anniversary cal b (year cal b) = Some b" by (simp add: anniversary_def)
    with n(1,2) show False unfolding eq by simp
  qed
  with age(1) show "n \<noteq> 0" by auto
qed

end

text \<open>
  Every child has exactly one birthday in each year after the year of birth, 29 February
  included; the age reported on that day is the difference of the years and at least one; and no
  date up to the year of birth is a birthday.
\<close>

theorem one_birthday_per_year:
  assumes "chrono_calendar cal"
  shows "(year cal birth < y \<and> y \<le> max_year \<longrightarrow> (\<exists>!d. year cal d = y \<and> birthday_age_on cal birth d \<noteq> None)) \<and>
    (\<forall>d n. birthday_age_on cal birth d = Some n \<longrightarrow> int n = year cal d - year cal birth \<and> 1 \<le> n)"
proof (intro conjI allI impI)
  show "\<exists>!d. year cal d = y \<and> birthday_age_on cal birth d \<noteq> None" if "year cal birth < y \<and> y \<le> max_year"
    using chrono_calendar.birthday_unique [OF assms] that by blast
  fix d n assume "birthday_age_on cal birth d = Some n"
  note age = chrono_calendar.birthday_age [OF assms this]
  show "int n = year cal d - year cal birth" by (rule age(1))
  show "1 \<le> n" using age(3) by simp
qed

theorem valid_policy_guarantees_witness:
  "policy_validate (for_role Administrator) Administrator = Inr () \<and>
   p_birthdays (for_role Administrator) \<noteq> None \<and> p_analytics (for_role Administrator) = None"
proof -
  have ok: "policy_validate (for_role Administrator) Administrator = Inr ()"
    by (simp add: policy_validate_def for_role_def validate_communication_def validate_birthdays_def
      validate_analytics_def validate_time_def default_birthday_policy_def default_delivery_time_def)
  show ?thesis using valid_policy_guarantees [OF ok] ok by simp
qed

theorem one_birthday_per_year_witness:
  "\<exists>!d. year gregorian_cal d = 2027 \<and> birthday_age_on gregorian_cal (civil 2020 2 29) d \<noteq> None"
  using one_birthday_per_year [OF gregorian.chrono_calendar_axioms, of "civil 2020 2 29" 2027]
  by (simp add: civil_eval)

end
