(* ===== verification/Agent_Graph.thy ===== *)
theory Agent_Graph
  imports Agent_Policy "HOL-Library.List_Lexorder" "HOL-Library.Char_ord"
begin

section \<open>The execution graph (\<open>crates/airhop-core/src/agent_graph.rs\<close>)\<close>

text \<open>
  The per-turn state machine that bounds what an agent may do. The counters are the \<open>u8\<close> of
  the source, \<open>8 word\<close>, with its saturating additions; \<open>prepare\<close> returns the state
  beside the result, because a rejected attempt may still count. An adapter drives the graph by
  an arbitrary sequence of the four operations (\<open>graph_event\<close>); the theorems quantify over
  every such sequence.
\<close>

definition GRAPH_VERSION :: string where
  "GRAPH_VERSION = ''airhop.agent-graph.v1''"

datatype graph_node =
  ContextNode | Decide | ReadNode | AwaitConfirmation | Act | ReplyNode | Recovery | Done

datatype graph_action =
  ContextAction | ReadAction | PrepareAction | CommitAction | DelegateAction | ReplyAction

record execution_graph =
  eg_role :: agent_role
  eg_node :: graph_node
  eg_context_loaded :: bool
  eg_reads :: "8 word"
  eg_writes :: "8 word"
  eg_attempts :: "8 word"
  eg_recovery_contexts :: "8 word"
  eg_repeats :: "(string \<times> 8 word) list"

datatype graph_error =
    ReplyAlreadyCommitted
  | LoadContextBeforeReply
  | LoadContextFirst
  | AttemptLimitReached
  | StopRepeating
  | EnoughLookups
  | OnlyFizzDelegates
  | RoleDoesNotMutate
  | ActionLimitReached

definition u8_saturating_add :: "8 word \<Rightarrow> 8 word \<Rightarrow> 8 word" where
  "u8_saturating_add a b = (if unat a + unat b > 255 then 255 else a + b)"

definition u8_saturating_sub :: "8 word \<Rightarrow> 8 word \<Rightarrow> 8 word" where
  "u8_saturating_sub a b = (if a < b then 0 else a - b)"

definition graph_new :: "agent_role \<Rightarrow> execution_graph" where
  "graph_new role = \<lparr>eg_role = role, eg_node = ContextNode, eg_context_loaded = False, eg_reads = 0,
     eg_writes = 0, eg_attempts = 0, eg_recovery_contexts = 0, eg_repeats = []\<rparr>"

definition has_context :: "execution_graph \<Rightarrow> bool" where
  "has_context g = eg_context_loaded g"

definition read_limit :: "execution_graph \<Rightarrow> 8 word" where
  "read_limit g = (if eg_role g = ParentAdministrator then 6 else 8)"

definition write_limit :: "execution_graph \<Rightarrow> 8 word" where
  "write_limit g = (case eg_role g of Analyst \<Rightarrow> 0 | Fizz \<Rightarrow> 3 | _ \<Rightarrow> 4)"

definition remaining_reads :: "execution_graph \<Rightarrow> 8 word" where
  "remaining_reads g = u8_saturating_sub (read_limit g) (eg_reads g)"

definition remaining_writes :: "execution_graph \<Rightarrow> 8 word" where
  "remaining_writes g = u8_saturating_sub (write_limit g) (eg_writes g)"

definition remaining_attempts :: "execution_graph \<Rightarrow> 8 word" where
  "remaining_attempts g = u8_saturating_sub 24 (eg_attempts g)"

text \<open>The three arms of \<open>prepare\<close>: a cache hit, a lookup and a mutation.\<close>

definition prepare_cached :: "execution_graph \<Rightarrow> string \<Rightarrow> execution_graph \<times> (unit, graph_error) result" where
  "prepare_cached g key =
     (let count = u8_saturating_add (case map_of (eg_repeats g) key of None \<Rightarrow> 0 | Some n \<Rightarrow> n) 1;
          g' = g\<lparr>eg_repeats := bt_insert key count (eg_repeats g)\<rparr>
      in (g', if count > 2 then Inl StopRepeating else Inr ()))"

definition prepare_read ::
  "execution_graph \<Rightarrow> graph_action \<Rightarrow> bool \<Rightarrow> execution_graph \<times> (unit, graph_error) result" where
  "prepare_read g action essential_refresh =
     (let node = (if action = ContextAction then ContextNode else ReadNode) in
      if eg_reads g \<ge> read_limit g then
        if essential_refresh
        then (g\<lparr>eg_recovery_contexts := eg_recovery_contexts g + 1, eg_node := node\<rparr>, Inr ())
        else (g, Inl EnoughLookups)
      else (g\<lparr>eg_reads := eg_reads g + 1, eg_node := node\<rparr>, Inr ()))"

definition prepare_write ::
  "execution_graph \<Rightarrow> graph_action \<Rightarrow> execution_graph \<times> (unit, graph_error) result" where
  "prepare_write g action =
     (if action = DelegateAction \<and> eg_role g \<noteq> Fizz then (g, Inl OnlyFizzDelegates)
      else if action \<in> {PrepareAction, CommitAction} \<and> eg_role g \<in> {Fizz, Analyst}
      then (g, Inl RoleDoesNotMutate)
      else if eg_writes g \<ge> write_limit g then (g, Inl ActionLimitReached)
      else (g\<lparr>eg_writes := eg_writes g + 1, eg_node := Act\<rparr>, Inr ()))"

definition prepare ::
  "execution_graph \<Rightarrow> graph_action \<Rightarrow> string \<Rightarrow> bool \<Rightarrow> execution_graph \<times> (unit, graph_error) result" where
  "prepare g action key cached =
     (if eg_node g = Done then (g, Inl ReplyAlreadyCommitted)
      else if action = ReplyAction
      then (g, if eg_context_loaded g then Inr () else Inl LoadContextBeforeReply)
      else if action \<noteq> ContextAction \<and> \<not> eg_context_loaded g then (g, Inl LoadContextFirst)
      else
        let essential_refresh = (action = ContextAction \<and> \<not> eg_context_loaded g \<and> eg_recovery_contexts g < 2)
        in if eg_attempts g \<ge> 24 \<and> \<not> essential_refresh then (g, Inl AttemptLimitReached)
        else
          let g1 = g\<lparr>eg_attempts := u8_saturating_add (eg_attempts g) 1\<rparr>
          in if cached then prepare_cached g1 key
          else case action of
              ContextAction \<Rightarrow> prepare_read g1 action essential_refresh
            | ReadAction \<Rightarrow> prepare_read g1 action essential_refresh
            | DelegateAction \<Rightarrow> prepare_write g1 action
            | PrepareAction \<Rightarrow> prepare_write g1 action
            | CommitAction \<Rightarrow> prepare_write g1 action
            | ReplyAction \<Rightarrow> (g1, Inr ()))"

fun succeeded :: "graph_action \<Rightarrow> execution_graph \<Rightarrow> execution_graph" where
  "succeeded ContextAction g = g\<lparr>eg_context_loaded := True, eg_node := Decide\<rparr>"
| "succeeded ReadAction g = g\<lparr>eg_node := Decide\<rparr>"
| "succeeded PrepareAction g = g\<lparr>eg_node := AwaitConfirmation\<rparr>"
| "succeeded CommitAction g = g\<lparr>eg_node := ReplyNode\<rparr>"
| "succeeded DelegateAction g = g\<lparr>eg_node := ReplyNode\<rparr>"
| "succeeded ReplyAction g = g\<lparr>eg_node := Done\<rparr>"

definition invalidate_context :: "execution_graph \<Rightarrow> execution_graph" where
  "invalidate_context g = g\<lparr>eg_context_loaded := False, eg_node := ContextNode\<rparr>"

definition graph_failed :: "execution_graph \<Rightarrow> execution_graph" where
  "graph_failed g = g\<lparr>eg_node := Recovery\<rparr>"

subsection \<open>Turns\<close>

text \<open>
  A turn is a sequence of operations; its log lists the attempts \<open>prepare\<close> accepted, each with
  its action, key and whether it was served from the cache.
\<close>

datatype graph_event =
    Prepare graph_action string bool
  | Succeeded graph_action
  | Invalidate
  | Failed

type_synonym attempt = "graph_action \<times> string \<times> bool"

fun graph_step :: "graph_event \<Rightarrow> execution_graph \<Rightarrow> execution_graph \<times> attempt list" where
  "graph_step (Prepare a k c) g =
     (case prepare g a k c of (g', r) \<Rightarrow> (g', if is_ok r then [(a, k, c)] else []))"
| "graph_step (Succeeded a) g = (succeeded a g, [])"
| "graph_step Invalidate g = (invalidate_context g, [])"
| "graph_step Failed g = (graph_failed g, [])"

fun graph_run :: "graph_event list \<Rightarrow> execution_graph \<Rightarrow> execution_graph \<times> attempt list" where
  "graph_run [] g = (g, [])"
| "graph_run (e # es) g =
     (let (g1, log1) = graph_step e g; (g2, log2) = graph_run es g1 in (g2, log1 @ log2))"

definition backend_read :: "attempt \<Rightarrow> bool" where
  "backend_read = (\<lambda>(a, k, c). \<not> c \<and> a \<in> {ContextAction, ReadAction})"

definition backend_write :: "attempt \<Rightarrow> bool" where
  "backend_write = (\<lambda>(a, k, c). \<not> c \<and> a \<in> {PrepareAction, CommitAction, DelegateAction})"

definition cache_hit :: "string \<Rightarrow> attempt \<Rightarrow> bool" where
  "cache_hit key = (\<lambda>(a, k, c). c \<and> a \<noteq> ReplyAction \<and> k = key)"

definition repeat_count :: "execution_graph \<Rightarrow> string \<Rightarrow> nat" where
  "repeat_count g key = (case map_of (eg_repeats g) key of None \<Rightarrow> 0 | Some n \<Rightarrow> unat n)"

definition graph_inv :: "execution_graph \<Rightarrow> bool" where
  "graph_inv g \<longleftrightarrow> eg_reads g \<le> read_limit g \<and> eg_writes g \<le> write_limit g \<and> eg_recovery_contexts g \<le> 2"

text \<open>What a step may do to the counters, in terms of the attempts it accepts.\<close>

definition graph_accounts :: "execution_graph \<Rightarrow> execution_graph \<Rightarrow> attempt list \<Rightarrow> bool" where
  "graph_accounts g g' log \<longleftrightarrow> graph_inv g' \<and> eg_role g' = eg_role g \<and>
     unat (eg_reads g') + unat (eg_recovery_contexts g') =
       unat (eg_reads g) + unat (eg_recovery_contexts g) + length (filter backend_read log) \<and>
     unat (eg_writes g') = unat (eg_writes g) + length (filter backend_write log) \<and>
     (\<forall>key. length (filter (cache_hit key) log) + min 2 (repeat_count g key) \<le> min 2 (repeat_count g' key)) \<and>
     (\<forall>(a, k, c)\<in>set log. \<not> c \<longrightarrow> (a = DelegateAction \<longrightarrow> eg_role g = Fizz) \<and>
        (a \<in> {PrepareAction, CommitAction} \<longrightarrow> eg_role g \<notin> {Fizz, Analyst}))"

lemma u8_bound: "unat (a :: 8 word) < 256"
  using unsigned_less [of a] by simp

lemma u8_increment: "(a :: 8 word) < b \<Longrightarrow> unat (a + 1) = unat a + 1"
  using u8_bound [of b] by (simp add: word_less_nat_alt unat_word_ariths)

lemma u8_increment_le: "(a :: 8 word) < b \<Longrightarrow> a + 1 \<le> b"
  using u8_increment [of a b] by (simp add: word_less_nat_alt word_le_nat_alt)

lemma u8_sat_incr: "unat (u8_saturating_add a 1) = min 255 (unat a + 1)"
  using u8_bound [of a] by (auto simp: u8_saturating_add_def unat_word_ariths)

lemmas graph_counter_defs = graph_accounts_def graph_inv_def read_limit_def write_limit_def
  backend_read_def backend_write_def cache_hit_def repeat_count_def

lemma accounts_neutral:
  assumes "graph_inv g" "eg_role g' = eg_role g" "eg_reads g' = eg_reads g" "eg_writes g' = eg_writes g"
    "eg_recovery_contexts g' = eg_recovery_contexts g" "eg_repeats g' = eg_repeats g"
  shows "graph_accounts g g' []"
  using assms by (simp add: graph_counter_defs)

lemma prepare_cached_accounts:
  assumes "graph_inv g" and "a \<noteq> ReplyAction" and "prepare_cached g key = (g', r)"
  shows "graph_accounts g g' (if is_ok r then [(a, key, True)] else [])"
proof -
  define n where "n = (case map_of (eg_repeats g) key of None \<Rightarrow> 0 | Some n \<Rightarrow> n)"
  have g': "g' = g\<lparr>eg_repeats := bt_insert key (u8_saturating_add n 1) (eg_repeats g)\<rparr>"
    and r: "is_ok r \<longleftrightarrow> \<not> u8_saturating_add n 1 > 2"
    using assms(3) by (auto simp: prepare_cached_def Let_def n_def)
  have n: "repeat_count g key = unat n" by (simp add: repeat_count_def n_def split: option.splits)
  have n': "repeat_count g' k = (if k = key then min 255 (unat n + 1) else repeat_count g k)" for k
    by (simp add: repeat_count_def g' u8_sat_incr)
  have "is_ok r \<Longrightarrow> unat n + 1 \<le> 2"
    using r u8_sat_incr [of n] by (simp add: word_less_nat_alt)
  then have "length (filter (cache_hit k) (if is_ok r then [(a, key, True)] else [])) + min 2 (repeat_count g k)
      \<le> min 2 (repeat_count g' k)" for k
    unfolding n' using n assms(2) by (auto simp: cache_hit_def)
  then show ?thesis
    using assms(1) unfolding graph_accounts_def
    by (simp add: g' graph_inv_def read_limit_def write_limit_def backend_read_def backend_write_def)
qed

lemma prepare_read_accounts:
  assumes "graph_inv g" and "a \<in> {ContextAction, ReadAction}"
    and "ess \<Longrightarrow> eg_recovery_contexts g < 2" and "prepare_read g a ess = (g', r)"
  shows "graph_accounts g g' (if is_ok r then [(a, key, False)] else [])"
proof (cases "eg_reads g \<ge> read_limit g")
  case True
  then show ?thesis
    using assms u8_increment [of "eg_recovery_contexts g" 2] u8_increment_le [of "eg_recovery_contexts g" 2]
    by (auto simp: prepare_read_def Let_def graph_counter_defs split: if_splits)
next
  case False
  then have less: "eg_reads g < read_limit g" by simp
  have g': "g' = g\<lparr>eg_reads := eg_reads g + 1, eg_node := eg_node g'\<rparr>" "is_ok r"
    using assms(4) False by (auto simp: prepare_read_def Let_def)
  show ?thesis
    using assms(1,2) less u8_increment [OF less] u8_increment_le [OF less] g'(2)
    by (subst g') (auto simp: graph_counter_defs)
qed

lemma prepare_write_accounts:
  assumes "graph_inv g" and "a \<in> {PrepareAction, CommitAction, DelegateAction}"
    and "prepare_write g a = (g', r)"
  shows "graph_accounts g g' (if is_ok r then [(a, key, False)] else [])"
proof (cases "is_ok r")
  case True
  then have less: "eg_writes g < write_limit g"
    and g': "g' = g\<lparr>eg_writes := eg_writes g + 1, eg_node := Act\<rparr>"
    and role: "a = DelegateAction \<longrightarrow> eg_role g = Fizz" "a \<in> {PrepareAction, CommitAction} \<longrightarrow> eg_role g \<notin> {Fizz, Analyst}"
    using assms(3) by (auto simp: prepare_write_def split: if_splits)
  show ?thesis
    using assms(1,2) role u8_increment [OF less] u8_increment_le [OF less] True
    unfolding g' by (auto simp: graph_accounts_def graph_inv_def read_limit_def write_limit_def
        backend_read_def backend_write_def cache_hit_def repeat_count_def)
next
  case False
  then have "g' = g" using assms(3) by (auto simp: prepare_write_def split: if_splits)
  with False show ?thesis using accounts_neutral [OF assms(1)] by simp
qed

lemma accounts_attempts: "graph_accounts (g\<lparr>eg_attempts := n\<rparr>) g' log = graph_accounts g g' log"
  by (simp add: graph_accounts_def repeat_count_def)

lemma prepare_accounts:
  assumes "graph_inv g" and "prepare g a key c = (g', r)"
  shows "graph_accounts g g' (if is_ok r then [(a, key, c)] else [])"
proof -
  define g1 where "g1 = g\<lparr>eg_attempts := u8_saturating_add (eg_attempts g) 1\<rparr>"
  define ess where "ess \<longleftrightarrow> a = ContextAction \<and> \<not> eg_context_loaded g \<and> eg_recovery_contexts g < 2"
  have inv1: "graph_inv g1" using assms(1) by (simp add: g1_def graph_inv_def read_limit_def write_limit_def)
  have ess1: "ess \<Longrightarrow> eg_recovery_contexts g1 < 2" by (simp add: ess_def g1_def)
  consider (stay) "g' = g" "\<not> is_ok r" | (reply) "g' = g" "a = ReplyAction"
    | (hit) "c" "a \<noteq> ReplyAction" "prepare_cached g1 key = (g', r)"
    | (look) "\<not> c" "a \<in> {ContextAction, ReadAction}" "prepare_read g1 a ess = (g', r)"
    | (mutate) "\<not> c" "a \<in> {PrepareAction, CommitAction, DelegateAction}" "prepare_write g1 a = (g', r)"
    using assms(2) by (cases a) (auto simp: prepare_def Let_def g1_def [symmetric] ess_def split: if_splits)
  then show ?thesis
  proof cases
    case stay
    then show ?thesis using accounts_neutral [OF assms(1)] by simp
  next
    case reply
    then show ?thesis using assms(1) by (simp add: graph_counter_defs)
  next
    case hit
    then show ?thesis using prepare_cached_accounts [OF inv1 hit(2,3)] by (auto simp: g1_def accounts_attempts)
  next
    case look
    then show ?thesis using prepare_read_accounts [OF inv1 look(2) ess1 look(3), of key] by (auto simp: g1_def accounts_attempts)
  next
    case mutate
    then show ?thesis using prepare_write_accounts [OF inv1 mutate(2,3), of key] by (auto simp: g1_def accounts_attempts)
  qed
qed

lemma graph_step_accounts:
  assumes "graph_inv g" and "graph_step e g = (g', log)"
  shows "graph_accounts g g' log"
proof (cases e)
  case (Prepare a k c)
  obtain r where "prepare g a k c = (g', r)" "log = (if is_ok r then [(a, k, c)] else [])"
    using assms(2) Prepare by (auto split: prod.splits)
  then show ?thesis using prepare_accounts [OF assms(1)] by simp
next
  case (Succeeded a)
  then show ?thesis using assms by (cases a) (auto intro!: accounts_neutral)
qed (use assms in \<open>auto intro!: accounts_neutral simp: invalidate_context_def graph_failed_def\<close>)

lemma accounts_trans:
  assumes "graph_accounts g g1 log1" and "graph_accounts g1 g2 log2"
  shows "graph_accounts g g2 (log1 @ log2)"
proof -
  have "length (filter (cache_hit k) (log1 @ log2)) + min 2 (repeat_count g k) \<le> min 2 (repeat_count g2 k)" for k
    using assms unfolding graph_accounts_def by (smt (verit) add.assoc add.commute add_left_mono filter_append length_append order_trans)
  then show ?thesis using assms unfolding graph_accounts_def by auto
qed

lemma graph_run_accounts:
  "graph_inv g \<Longrightarrow> graph_run es g = (g', log) \<Longrightarrow> graph_accounts g g' log"
proof (induction es arbitrary: g log)
  case Nil
  then show ?case using accounts_neutral by auto
next
  case (Cons e es)
  obtain g1 log1 log2 where step: "graph_step e g = (g1, log1)" "graph_run es g1 = (g', log2)" "log = log1 @ log2"
    using Cons.prems(2) by (auto split: prod.splits)
  have one: "graph_accounts g g1 log1" by (rule graph_step_accounts [OF Cons.prems(1) step(1)])
  then have "graph_accounts g1 g' log2" by (intro Cons.IH [OF _ step(2)]) (simp add: graph_accounts_def)
  with one show ?case unfolding step(3) by (rule accounts_trans)
qed

lemma graph_new_inv [simp]: "graph_inv (graph_new role)"
  by (cases role) (simp_all add: graph_inv_def graph_new_def read_limit_def write_limit_def)

lemma graph_new_fields [simp]: "eg_role (graph_new role) = role" "eg_reads (graph_new role) = 0"
  "eg_writes (graph_new role) = 0" "eg_recovery_contexts (graph_new role) = 0" "eg_repeats (graph_new role) = []"
  "\<not> eg_context_loaded (graph_new role)" "eg_attempts (graph_new role) = 0" "eg_node (graph_new role) = ContextNode"
  by (simp_all add: graph_new_def)

subsection \<open>When the context is loaded\<close>

text \<open>The events since the last successful context load, with no invalidation in between.\<close>

definition context_current :: "graph_event list \<Rightarrow> bool" where
  "context_current es \<longleftrightarrow>
     (\<exists>es1 es2. es = es1 @ Succeeded ContextAction # es2 \<and> Invalidate \<notin> set es2)"

lemma prepare_keeps_context:
  "eg_context_loaded (fst (prepare g a k c)) = eg_context_loaded g"
  by (cases a) (simp_all add: prepare_def Let_def prepare_cached_def prepare_read_def prepare_write_def)

lemma context_current_snoc:
  "context_current (es @ [e]) \<longleftrightarrow> e = Succeeded ContextAction \<or> e \<noteq> Invalidate \<and> context_current es"
proof
  assume "context_current (es @ [e])"
  then obtain es1 es2 where "es @ [e] = es1 @ Succeeded ContextAction # es2" "Invalidate \<notin> set es2"
    by (auto simp: context_current_def)
  then show "e = Succeeded ContextAction \<or> e \<noteq> Invalidate \<and> context_current es"
    by (cases es2 rule: rev_cases) (auto simp: context_current_def)
next
  assume "e = Succeeded ContextAction \<or> e \<noteq> Invalidate \<and> context_current es"
  then show "context_current (es @ [e])"
  proof
    assume "e = Succeeded ContextAction"
    then show ?thesis unfolding context_current_def by (intro exI [of _ es] exI [of _ "[]"]) simp
  next
    assume *: "e \<noteq> Invalidate \<and> context_current es"
    then obtain es1 es2 where "es = es1 @ Succeeded ContextAction # es2" "Invalidate \<notin> set es2"
      by (auto simp: context_current_def)
    with * show ?thesis
      unfolding context_current_def by (intro exI [of _ es1] exI [of _ "es2 @ [e]"]) auto
  qed
qed

lemma graph_run_snoc:
  "fst (graph_run (es @ [e]) g) = fst (graph_step e (fst (graph_run es g)))"
  by (induction es arbitrary: g) (simp_all add: split_beta Let_def)

lemma step_context:
  "eg_context_loaded (fst (graph_step e g)) \<longleftrightarrow>
     e = Succeeded ContextAction \<or> e \<noteq> Invalidate \<and> eg_context_loaded g"
proof (cases e)
  case (Prepare a k c)
  then show ?thesis using prepare_keeps_context by (simp add: split_beta)
next
  case (Succeeded a)
  then show ?thesis by (cases a) simp_all
qed (simp_all add: invalidate_context_def graph_failed_def)

lemma run_context: "eg_context_loaded (fst (graph_run es (graph_new role))) \<longleftrightarrow> context_current es"
proof (induction es rule: rev_induct)
  case Nil
  then show ?case by (simp add: context_current_def)
next
  case (snoc e es)
  then show ?case by (simp add: graph_run_snoc step_context context_current_snoc)
qed

subsection \<open>Properties\<close>

text \<open>
  C33. The budgets of a turn hold however an adapter drives the graph: of any sequence of
  operations, at most the role's read limit plus two recovery contexts of backend lookups are
  accepted, at most the role's write limit of mutations and delegations, and at most two cache
  hits per key.
\<close>

theorem turn_budgets:
  assumes "graph_run es (graph_new role) = (g, log)"
  shows "length (filter backend_read log) \<le> (if role = ParentAdministrator then 6 else 8) + 2 \<and>
    length (filter backend_write log) \<le> (case role of Analyst \<Rightarrow> 0 | Fizz \<Rightarrow> 3 | _ \<Rightarrow> 4) \<and>
    (\<forall>key. length (filter (cache_hit key) log) \<le> 2)"
proof -
  have acc: "graph_accounts (graph_new role) g log" by (rule graph_run_accounts [OF graph_new_inv assms])
  then have inv: "graph_inv g" and role: "eg_role g = role"
    and r: "unat (eg_reads g) + unat (eg_recovery_contexts g) = length (filter backend_read log)"
    and w: "unat (eg_writes g) = length (filter backend_write log)"
    and c: "\<And>key. length (filter (cache_hit key) log) \<le> min 2 (repeat_count g key)"
    by (auto simp: graph_accounts_def repeat_count_def)
  have "unat (eg_reads g) \<le> (if role = ParentAdministrator then 6 else 8)" "unat (eg_recovery_contexts g) \<le> 2"
    using inv role by (auto simp: graph_inv_def read_limit_def word_le_nat_alt split: if_splits)
  moreover have "unat (eg_writes g) \<le> (case role of Analyst \<Rightarrow> 0 | Fizz \<Rightarrow> 3 | _ \<Rightarrow> 4)"
    using inv role by (cases role) (auto simp: graph_inv_def write_limit_def word_le_nat_alt)
  ultimately show ?thesis using r w c by (auto intro: order_trans)
qed

text \<open>
  No tool runs outside the authority of the turn: an accepted attempt other than loading the
  context happens only while a context loaded in this turn is current, that is, after a successful
  context load with no invalidation since; an accepted uncached mutation is never by the analyst
  or by Fizz, and an accepted uncached delegation is by Fizz.
\<close>

theorem accepted_within_authority:
  assumes "graph_run es (graph_new role) = (g, log)" and "prepare g action key cached = (g', Inr ())"
  shows "(action \<noteq> ContextAction \<longrightarrow> context_current es) \<and>
    (\<not> cached \<and> action \<in> {PrepareAction, CommitAction} \<longrightarrow> role \<notin> {Fizz, Analyst}) \<and>
    (\<not> cached \<and> action = DelegateAction \<longrightarrow> role = Fizz)"
proof -
  have acc: "graph_accounts (graph_new role) g log" by (rule graph_run_accounts [OF graph_new_inv assms(1)])
  then have "graph_inv g" "eg_role g = role" by (auto simp: graph_accounts_def)
  then have "\<not> cached \<longrightarrow> (action = DelegateAction \<longrightarrow> role = Fizz) \<and>
      (action \<in> {PrepareAction, CommitAction} \<longrightarrow> role \<notin> {Fizz, Analyst})"
    using prepare_accounts [OF _ assms(2)] by (auto simp: graph_accounts_def)
  moreover have "action \<noteq> ContextAction \<longrightarrow> eg_context_loaded g"
    using assms(2) by (auto simp: prepare_def split: if_splits)
  ultimately show ?thesis using run_context [of es role] assms(1) by auto
qed

text \<open>
  Recovery is always possible within its bound: whatever a turn has consumed, its attempts
  and lookups included, once the context is invalidated a fresh context load is accepted as long
  as fewer than two recovery contexts were used.
\<close>

theorem refresh_after_invalidation:
  assumes "eg_recovery_contexts g < 2"
  shows "\<exists>g'. prepare (invalidate_context g) ContextAction key False = (g', Inr ()) \<and>
    eg_context_loaded (succeeded ContextAction g') \<and> eg_node g' = ContextNode"
  using assms
  by (auto simp: prepare_def invalidate_context_def prepare_read_def Let_def)

text \<open>
  A committed reply ends the turn: after it every attempt is refused and leaves the state as
  it is.
\<close>

theorem nothing_after_reply:
  assumes "eg_node (fst (graph_run es g)) = Done"
  shows "prepare (fst (graph_run (es @ [Prepare a k c]) g)) a' k' c' =
    (fst (graph_run es g), Inl ReplyAlreadyCommitted)"
  using assms by (simp add: graph_run_snoc prepare_def split_beta)

definition demo_turn :: "graph_event list" where
  "demo_turn = [Prepare ContextAction ''context'' False, Succeeded ContextAction,
     Prepare CommitAction ''book'' False, Succeeded CommitAction]"

lemma demo_turn_run:
  "graph_run demo_turn (graph_new Administrator) =
    (\<lparr>eg_role = Administrator, eg_node = ReplyNode, eg_context_loaded = True, eg_reads = 1, eg_writes = 1,
      eg_attempts = 2, eg_recovery_contexts = 0, eg_repeats = []\<rparr>,
     [(ContextAction, ''context'', False), (CommitAction, ''book'', False)])"
  by (simp add: demo_turn_def graph_new_def prepare_def prepare_read_def prepare_write_def read_limit_def
      write_limit_def u8_saturating_add_def Let_def word_le_nat_alt)

theorem turn_budgets_witness:
  "length (filter backend_write [(ContextAction, ''context'', False), (CommitAction, ''book'', False)]) \<le> 4"
  using turn_budgets [OF demo_turn_run] by simp

theorem accepted_within_authority_witness: "context_current demo_turn"
proof -
  have "\<exists>g'. prepare (fst (graph_run demo_turn (graph_new Administrator))) ReplyAction ''r'' False = (g', Inr ())"
    by (simp add: demo_turn_run prepare_def)
  then show ?thesis using accepted_within_authority [OF demo_turn_run] by (auto simp: demo_turn_run)
qed

theorem refresh_after_invalidation_witness:
  "\<exists>g'. prepare (invalidate_context (fst (graph_run demo_turn (graph_new Administrator)))) ContextAction ''c'' False = (g', Inr ())"
  using refresh_after_invalidation [of "fst (graph_run demo_turn (graph_new Administrator))" "''c''"]
  by (auto simp: demo_turn_run)

theorem nothing_after_reply_witness:
  "snd (prepare (fst (graph_run ((demo_turn @ [Succeeded ReplyAction]) @ [Prepare ReadAction ''k'' True])
     (graph_new Administrator))) ReplyAction ''r'' False) = Inl ReplyAlreadyCommitted"
proof -
  have "eg_node (fst (graph_run (demo_turn @ [Succeeded ReplyAction]) (graph_new Administrator))) = Done"
    by (simp only: graph_run_snoc) (simp add: demo_turn_run)
  from nothing_after_reply [OF this] show ?thesis by simp
qed

end
