(* ===== verification/Agent_Learning.thy ===== *)
theory Agent_Learning
  imports Agent_Graph
begin

section \<open>Procedural learning (\<open>crates/airhop-core/src/agent_learning.rs\<close>)\<close>

text \<open>
  The structural trace of a task and the lookup order it may propose. Commands are data; the
  operations are the trace's \<open>read\<close>, \<open>failed\<close> and \<open>plan\<close> and the plan's validation.
\<close>

datatype fact_source =
    KnowledgeSource | OrganizationSource | FamilySource | ScheduleSource
  | CenterAnalytics | SiteAnalytics | TrackingLinks

record procedure_plan =
  graph_version :: string
  sources :: "fact_source list"

record learning_trace =
  lt_sources :: "fact_source list"
  lt_failed :: bool

datatype plan_error = IncompatibleVersion | SourceCount | SourcesNotDistinct | ExceedsAuthority

definition trace_new :: learning_trace where
  "trace_new = \<lparr>lt_sources = [], lt_failed = False\<rparr>"

definition trace_read :: "fact_source \<Rightarrow> learning_trace \<Rightarrow> learning_trace" where
  "trace_read source t =
     (if source \<notin> set (lt_sources t) then
        if length (lt_sources t) < 4 then t\<lparr>lt_sources := lt_sources t @ [source]\<rparr>
        else t\<lparr>lt_failed := True\<rparr>
      else t)"

definition trace_failed :: "learning_trace \<Rightarrow> learning_trace" where
  "trace_failed t = t\<lparr>lt_failed := True\<rparr>"

fun source_allowed :: "agent_role \<Rightarrow> fact_source \<Rightarrow> bool" where
  "source_allowed role KnowledgeSource = True"
| "source_allowed role OrganizationSource = True"
| "source_allowed role FamilySource = (role \<in> {Administrator, ParentAdministrator})"
| "source_allowed role ScheduleSource = (role \<noteq> Analyst)"
| "source_allowed role CenterAnalytics = (role \<in> {Fizz, Analyst})"
| "source_allowed role SiteAnalytics = (role \<in> {Fizz, Analyst})"
| "source_allowed role TrackingLinks = (role \<in> {Fizz, Analyst, ContentMarketer})"

definition check_source :: "agent_role \<Rightarrow> fact_source \<Rightarrow> unit \<Rightarrow> (unit, plan_error) result" where
  "check_source role source _ = (if \<not> source_allowed role source then Inl ExceedsAuthority else Inr ())"

definition plan_validate :: "procedure_plan \<Rightarrow> agent_role \<Rightarrow> (unit, plan_error) result" where
  "plan_validate p role =
     (if graph_version p \<noteq> GRAPH_VERSION then Inl IncompatibleVersion
      else if sources p = [] \<or> length (sources p) > 4 then Inl SourceCount
      else if unique_count (sources p) \<noteq> length (sources p) then Inl SourcesNotDistinct
      else try_fold (check_source role) (sources p) ())"

definition trace_plan :: "learning_trace \<Rightarrow> agent_role \<Rightarrow> procedure_plan option" where
  "trace_plan t role =
     (let plan = \<lparr>graph_version = GRAPH_VERSION, sources = lt_sources t\<rparr> in
      if \<not> lt_failed t \<and> is_ok (plan_validate plan role) then Some plan else None)"

datatype agent_learning_command =
    ObserveCommand agent_role string procedure_plan
  | ActivateCommand agent_role "uuid option" "64 word"

subsection \<open>Plans of a trace\<close>

lemma check_sources_ok: "is_ok (try_fold (check_source role) ss ()) \<longleftrightarrow> (\<forall>s\<in>set ss. source_allowed role s)"
  by (induction ss) (auto simp: check_source_def)

text \<open>The sources of a task in the order of their first successful reads.\<close>

fun first_reads :: "fact_source list \<Rightarrow> fact_source list \<Rightarrow> fact_source list" where
  "first_reads seen [] = []"
| "first_reads seen (s # ss) = (if s \<in> set seen then first_reads seen ss else s # first_reads (s # seen) ss)"

lemma first_reads_cong: "set seen = set seen' \<Longrightarrow> first_reads seen ss = first_reads seen' ss"
proof (induction ss arbitrary: seen seen')
  case (Cons s ss)
  have "first_reads seen ss = first_reads seen' ss" by (rule Cons.IH [OF Cons.prems])
  moreover have "first_reads (s # seen) ss = first_reads (s # seen') ss"
    by (rule Cons.IH) (simp add: Cons.prems)
  ultimately show ?case using Cons.prems by simp
qed simp

lemma fold_trace_read:
  "length (lt_sources t) \<le> 4 \<Longrightarrow> fold trace_read ss t =
     (let new = first_reads (lt_sources t) ss in
      \<lparr>lt_sources = take 4 (lt_sources t @ new),
       lt_failed = (lt_failed t \<or> length (lt_sources t @ new) > 4)\<rparr>)"
proof (induction ss arbitrary: t)
  case (Cons s ss)
  show ?case
  proof (cases "s \<in> set (lt_sources t)")
    case True
    then show ?thesis using Cons by (simp add: trace_read_def Let_def)
  next
    case new: False
    have c: "first_reads (lt_sources t @ [s]) ss = first_reads (s # lt_sources t) ss"
      by (rule first_reads_cong) simp
    show ?thesis
    proof (cases "length (lt_sources t) < 4")
      case True
      then show ?thesis using Cons.IH [of "t\<lparr>lt_sources := lt_sources t @ [s]\<rparr>"] new
        by (simp add: trace_read_def Let_def c)
    next
      case False
      with Cons.prems have "length (lt_sources t) = 4" by simp
      then show ?thesis using Cons.IH [of "t\<lparr>lt_failed := True\<rparr>"] new
        by (simp add: trace_read_def Let_def)
    qed
  qed
qed simp

lemma first_reads_distinct: "distinct (first_reads seen ss) \<and> set (first_reads seen ss) = set ss - set seen"
  by (induction ss arbitrary: seen) auto

text \<open>
  What a trace proposes: after a task that read the sources \<open>ss\<close> without a failure, a plan
  is proposed exactly when there are one to four distinct sources, all within the authority of the
  role, and it lists them in the order of their first reads; a plan always validates for its role.
\<close>

theorem trace_plan_exact:
  "trace_plan (fold trace_read ss trace_new) role = Some p \<longleftrightarrow>
     p = \<lparr>graph_version = GRAPH_VERSION, sources = first_reads [] ss\<rparr> \<and>
     card (set ss) \<in> {1..4} \<and> (\<forall>s\<in>set ss. source_allowed role s) \<and> plan_validate p role = Inr ()"
proof -
  define ds where "ds = first_reads [] ss"
  have ds: "distinct ds" "set ds = set ss" using first_reads_distinct [of "[]" ss] by (auto simp: ds_def)
  have len: "card (set ss) = length ds" using ds distinct_card by metis
  have t: "fold trace_read ss trace_new = \<lparr>lt_sources = take 4 ds, lt_failed = length ds > 4\<rparr>"
    using fold_trace_read [of trace_new ss] by (simp add: trace_new_def ds_def Let_def)
  have valid: "is_ok (plan_validate \<lparr>graph_version = GRAPH_VERSION, sources = ds\<rparr> role) \<longleftrightarrow>
      length ds \<in> {1..4} \<and> (\<forall>s\<in>set ss. source_allowed role s)"
    using ds by (auto simp: plan_validate_def unique_count_distinct check_sources_ok Suc_le_eq)
  show ?thesis
  proof (cases "length ds > 4")
    case True
    then show ?thesis by (simp add: t trace_plan_def Let_def len)
  next
    case False
    then show ?thesis using valid
      by (auto simp: t trace_plan_def Let_def len is_ok_iff ds_def [symmetric])
  qed
qed

text \<open>A witness for the equivalence at a concrete task.\<close>

theorem trace_plan_exact_witness:
  "trace_plan (fold trace_read [ScheduleSource, FamilySource, ScheduleSource] trace_new) Administrator =
     Some \<lparr>graph_version = GRAPH_VERSION, sources = [ScheduleSource, FamilySource]\<rparr>"
  unfolding trace_plan_exact
  by (simp add: plan_validate_def unique_count_def check_source_def insert_commute)

end
