(* ===== verification/Organization.thy ===== *)
theory Organization
  imports Schedule
begin

section \<open>Organization settings (\<open>crates/airhop-core/src/organization.rs\<close>)\<close>

text \<open>
  The organization-level settings and their validation. The parser of \<open>HH:mm\<close> times belongs
  to \<open>chrono\<close> and is the parameter \<open>parse_time\<close>; nothing is assumed of it. The weekly
  hours are a \<open>BTreeMap\<close>, an association list in key order.
\<close>

record staff_working_period =
  swp_start_time :: string
  swp_end_time :: string

type_synonym weekly_staff_working_hours = "(weekday \<times> staff_working_period list) list"

datatype public_booking_purpose = TrialPurpose | LessonPurpose

datatype public_booking_appearance = Automatic | Light | Dark

datatype existing_students_onboarding_status = NotStarted | InProgress | Postponed | Completed

record organization_settings =
  os_currency :: string
  os_staff_working_hours :: weekly_staff_working_hours
  os_default_trial_policy :: trial_policy
  os_track_attendance_by_default :: bool
  os_allow_single_visits_by_default :: bool
  os_existing_students_onboarding_status :: existing_students_onboarding_status
  os_public_booking_purpose :: public_booking_purpose
  os_public_booking_appearance :: public_booking_appearance
  os_payment_day_of_month :: "8 word"

datatype organization_settings_error =
    InvalidCurrency
  | InvalidStaffWorkingPeriod weekday nat
  | InvalidPaymentDay "8 word"

definition period_ok :: "(string \<Rightarrow> naive_time option) \<Rightarrow> staff_working_period \<Rightarrow> bool" where
  "period_ok parse_time p \<longleftrightarrow> length (swp_start_time p) = 5 \<and> length (swp_end_time p) = 5 \<and>
     (case (parse_time (swp_start_time p), parse_time (swp_end_time p)) of
        (Some s, Some e) \<Rightarrow> s < e | _ \<Rightarrow> False)"

definition check_period ::
  "(string \<Rightarrow> naive_time option) \<Rightarrow> weekday \<Rightarrow> nat \<times> staff_working_period \<Rightarrow> unit \<Rightarrow> (unit, organization_settings_error) result" where
  "check_period parse_time wd ip u =
     (if \<not> period_ok parse_time (snd ip) then Inl (InvalidStaffWorkingPeriod wd (fst ip)) else Inr ())"

definition check_weekday ::
  "(string \<Rightarrow> naive_time option) \<Rightarrow> weekday \<times> staff_working_period list \<Rightarrow> unit \<Rightarrow> (unit, organization_settings_error) result" where
  "check_weekday parse_time wp u =
     try_fold (check_period parse_time (fst wp)) (enumerate 0 (snd wp)) ()"

definition settings_validate ::
  "(string \<Rightarrow> naive_time option) \<Rightarrow> organization_settings \<Rightarrow> (unit, organization_settings_error) result" where
  "settings_validate parse_time s =
     (if length (os_currency s) \<noteq> 3 \<or> \<not> (\<forall>c\<in>set (os_currency s). is_ascii_uppercase c) then Inl InvalidCurrency
      else and_then (try_fold (check_weekday parse_time) (os_staff_working_hours s) ()) (\<lambda>_.
        if \<not> (1 \<le> os_payment_day_of_month s \<and> os_payment_day_of_month s \<le> 28)
        then Inl (InvalidPaymentDay (os_payment_day_of_month s))
        else Inr ()))"

definition default_currency :: string where
  "default_currency = ''RUB''"

subsection \<open>What validation establishes\<close>

lemma check_periods_ok:
  "is_ok (try_fold (check_period parse_time wd) (enumerate n ps) ()) \<longleftrightarrow> (\<forall>p\<in>set ps. period_ok parse_time p)"
  by (induction ps arbitrary: n) (auto simp: check_period_def)

lemma check_weekdays_ok:
  "is_ok (try_fold (check_weekday parse_time) hours ()) \<longleftrightarrow>
     (\<forall>(wd, ps)\<in>set hours. \<forall>p\<in>set ps. period_ok parse_time p)"
proof (induction hours)
  case (Cons h hours)
  have "is_ok (check_weekday parse_time h ()) \<longleftrightarrow> (\<forall>p\<in>set (snd h). period_ok parse_time p)"
    by (simp add: check_weekday_def check_periods_ok)
  with Cons show ?case by (cases "check_weekday parse_time h ()") (auto split: prod.splits)
qed simp

text \<open>
  Settings validate exactly when the currency is three uppercase letters, every staff working
  period parses and ends after it begins, and the payment day lies in 1 to 28; a validated payment
  day exists in every month of every year of the calendar.
\<close>

theorem settings_valid_iff:
  assumes "chrono_calendar cal"
  shows "(settings_validate parse_time s = Inr () \<longleftrightarrow>
      length (os_currency s) = 3 \<and> (\<forall>c\<in>set (os_currency s). is_ascii_uppercase c) \<and>
      (\<forall>(wd, ps)\<in>set (os_staff_working_hours s). \<forall>p\<in>set ps. period_ok parse_time p) \<and>
      unat (os_payment_day_of_month s) \<in> {1..28}) \<and>
    (settings_validate parse_time s = Inr () \<longrightarrow>
      (\<forall>y m. min_year \<le> y \<and> y \<le> max_year \<and> 1 \<le> m \<and> m \<le> 12 \<longrightarrow>
         from_ymd_opt cal y m (unat (os_payment_day_of_month s)) \<noteq> None))"
    (is "(?v \<longleftrightarrow> ?c) \<and> (?v \<longrightarrow> ?d)")
proof -
  have iff: "?v \<longleftrightarrow> ?c"
    using check_weekdays_ok [of parse_time "os_staff_working_hours s"]
    by (cases "try_fold (check_weekday parse_time) (os_staff_working_hours s) ()")
      (auto simp: settings_validate_def word_le_nat_alt)
  moreover have "?c \<longrightarrow> ?d" using chrono_calendar.first_days [OF assms] by simp
  ultimately show ?thesis by blast
qed

definition demo_settings :: organization_settings where
  "demo_settings = \<lparr>os_currency = default_currency, os_staff_working_hours = [(Monday, [])],
     os_default_trial_policy = Free, os_track_attendance_by_default = True,
     os_allow_single_visits_by_default = True, os_existing_students_onboarding_status = NotStarted,
     os_public_booking_purpose = TrialPurpose, os_public_booking_appearance = Automatic,
     os_payment_day_of_month = 28\<rparr>"

theorem settings_valid_iff_witness:
  "settings_validate (\<lambda>_. None) demo_settings = Inr () \<and> from_ymd_opt gregorian_cal 2026 2 28 \<noteq> None"
  using settings_valid_iff [OF gregorian.chrono_calendar_axioms, of "\<lambda>_. None" demo_settings]
  by (simp add: demo_settings_def default_currency_def ascii_defs min_year_def max_year_def del: gregorian_fields)

end
