(* ===== verification/Text.thy ===== *)
theory Text
  imports Prelude
begin

section \<open>Unicode text\<close>

text \<open>
  Where the sources count characters or trim white space, a string is the list of its Unicode
  scalar values: \<open>chars().count()\<close> is \<open>length\<close>, \<open>len()\<close> the number of UTF-8 bytes, and
  \<open>trim\<close> removes the code points with the Unicode property \<open>White_Space\<close> at both ends.
\<close>

type_synonym utext = "nat list"

definition utf8_width :: "nat \<Rightarrow> nat" where
  "utf8_width c = (if c < 128 then 1 else if c < 2048 then 2 else if c < 65536 then 3 else 4)"

definition utf8_len :: "utext \<Rightarrow> nat" where
  "utf8_len t = sum_list (map utf8_width t)"

definition is_whitespace :: "nat \<Rightarrow> bool" where
  "is_whitespace c \<longleftrightarrow> 9 \<le> c \<and> c \<le> 13 \<or> 8192 \<le> c \<and> c \<le> 8202 \<or>
     c \<in> {32, 133, 160, 5760, 8232, 8233, 8239, 8287, 12288}"

definition trim :: "utext \<Rightarrow> utext" where
  "trim t = rev (dropWhile is_whitespace (rev (dropWhile is_whitespace t)))"

definition ascii :: "string \<Rightarrow> utext" where
  "ascii s = map of_char s"

lemma utf8_len_ge: "length t \<le> utf8_len t"
  by (induction t) (auto simp: utf8_len_def utf8_width_def)

lemma trim_split: "\<exists>a b. t = a @ trim t @ b \<and> dropWhile is_whitespace t = trim t @ b"
proof -
  let ?u = "dropWhile is_whitespace t"
  have "rev ?u = takeWhile is_whitespace (rev ?u) @ rev (trim t)" by (simp add: trim_def)
  then have "?u = trim t @ rev (takeWhile is_whitespace (rev ?u))"
    by (metis rev_append rev_rev_ident)
  moreover have "t = takeWhile is_whitespace t @ ?u" by simp
  ultimately show ?thesis by metis
qed

lemma length_trim: "length (trim t) \<le> length t"
proof -
  obtain a b where "t = a @ trim t @ b" using trim_split by blast
  then have "length t = length a + (length (trim t) + length b)" by (metis length_append)
  then show ?thesis by simp
qed

lemma set_trim: "set (trim t) \<subseteq> set t"
proof -
  obtain a b where "t = a @ trim t @ b" using trim_split by blast
  then have "set t = set a \<union> (set (trim t) \<union> set b)" by (metis set_append)
  then show ?thesis by blast
qed

lemma trim_start: "trim t \<noteq> [] \<Longrightarrow> \<not> is_whitespace (hd (trim t))"
proof -
  assume ne: "trim t \<noteq> []"
  obtain b where b: "dropWhile is_whitespace t = trim t @ b" using trim_split by blast
  with ne have "\<not> is_whitespace (hd (dropWhile is_whitespace t))" by (intro hd_dropWhile) auto
  with b ne show ?thesis by simp
qed

end
