(* ===== verification/Conversations.thy ===== *)
theory Conversations
  imports Text
begin

section \<open>Client commands and consultation observations\<close>

text \<open>
  The typed commands of the client workspace (\<open>crates/airhop-core/src/client_conversations.rs\<close>),
  the observations attached to an agent's reply (\<open>consultation.rs\<close>) and the booking intake
  (\<open>conversation_booking.rs\<close>). Versions are \<open>i64\<close>, \<open>64 word\<close> read with \<open>sint\<close>.
\<close>

datatype client_action =
    AssignBranch uuid
  | SetStatus string
  | Assign string
  | MigrateLegacy "64 word"

record client_command =
  cc_idempotency_key :: uuid
  cc_conversation_id :: uuid
  cc_expected_version :: "64 word"
  cc_action :: client_action

record branch_responsibles_command =
  br_idempotency_key :: uuid
  br_branch_id :: uuid
  br_expected_version :: "64 word"
  br_responsible_pubkeys :: "string list"

datatype client_workspace_command =
    Conversation client_command
  | BranchResponsibles branch_responsibles_command

datatype client_command_error =
    InvalidIdentityOrVersion
  | InvalidBranch
  | InvalidQueueStatus
  | InvalidAssignee
  | InvalidRouteVersion

definition client_validate :: "client_command \<Rightarrow> (unit, client_command_error) result" where
  "client_validate c =
     (if is_nil (cc_idempotency_key c) \<or> is_nil (cc_conversation_id c) \<or> sint (cc_expected_version c) < 1
      then Inl InvalidIdentityOrVersion
      else case cc_action c of
        AssignBranch branch_id \<Rightarrow> (if is_nil branch_id then Inl InvalidBranch else Inr ())
      | SetStatus status \<Rightarrow>
          (if status \<notin> {''waiting_staff'', ''waiting_parent'', ''resolved''} then Inl InvalidQueueStatus else Inr ())
      | Assign pubkey \<Rightarrow>
          (if length pubkey \<noteq> 64 \<or> \<not> (\<forall>c\<in>set pubkey. is_ascii_hexdigit c) then Inl InvalidAssignee else Inr ())
      | MigrateLegacy expected_route_version \<Rightarrow>
          (if sint expected_route_version < 1 then Inl InvalidRouteVersion else Inr ()))"

subsection \<open>Consultation\<close>

datatype consultation_purpose = BookingPurpose | InformationPurpose | SupportPurpose

datatype consultation_question =
  AgeQuestion | BranchQuestion | ActivityQuestion | TimeQuestion | ContactQuestion | ConfirmationQuestion | OtherQuestion

record consultation_progress =
  cp_purpose :: consultation_purpose
  cp_waiting_for :: "consultation_question option"
  cp_declined_quote :: "utext option"

datatype consultation_error = DeclinedQuoteContradicts

definition consultation_validate :: "consultation_progress \<Rightarrow> (unit, consultation_error) result" where
  "consultation_validate p =
     (case cp_declined_quote p of
        None \<Rightarrow> Inr ()
      | Some quote \<Rightarrow>
          if cp_purpose p \<noteq> BookingPurpose \<or> cp_waiting_for p \<noteq> None \<or>
             length (trim quote) < 3 \<or> utf8_len quote > 1000
          then Inl DeclinedQuoteContradicts
          else Inr ())"

record conversation_booking_data =
  cb_recurrence_rule_id :: "uuid option"
  cb_original_date :: "utext option"
  cb_purpose :: "utext option"
  cb_child_id :: "uuid option"
  cb_parent_name :: "utext option"
  cb_parent_first_name :: "utext option"
  cb_parent_last_name :: "utext option"
  cb_phone :: "utext option"
  cb_child_name :: "utext option"
  cb_child_birth_date :: "utext option"

text \<open>
  The affirmative replies to a booking summary. Lower-casing uses the Unicode tables of the
  standard library, the parameter \<open>to_lowercase\<close>; phrases outside ASCII are their code points.
\<close>

definition trim_end_stops :: "utext \<Rightarrow> utext" where
  "trim_end_stops t = rev (dropWhile (\<lambda>c. c \<in> {46, 33, 12290}) (rev t))"

definition confirmation_phrases :: "utext list" where
  "confirmation_phrases =
     [[1076, 1072],
      [1087, 1086, 1076, 1090, 1074, 1077, 1088, 1078, 1076, 1072, 1102],
      [1087, 1086, 1076, 1090, 1074, 1077, 1088, 1078, 1076, 1072, 1102, 32, 1079, 1072, 1087, 1080, 1089, 1100],
      [1076, 1072, 44, 32, 1087, 1086, 1076, 1090, 1074, 1077, 1088, 1078, 1076, 1072, 1102],
      ascii ''yes'', ascii ''confirm'', ascii ''i confirm'', ascii ''confirm booking'', ascii ''sim'', ascii ''confirmo'',
      ascii ''confirmo a reserva'', ascii ''evet'', [111, 110, 97, 121, 108, 305, 121, 111, 114, 117, 109]]"

definition is_booking_confirmation :: "(utext \<Rightarrow> utext) \<Rightarrow> utext \<Rightarrow> bool" where
  "is_booking_confirmation to_lowercase t \<longleftrightarrow>
     to_lowercase (trim (trim_end_stops (trim t))) \<in> set confirmation_phrases"

text \<open>
  An accepted refusal is bounded evidence: when a consultation with a declined quote
  validates, it concerns a booking and asks nothing, and the quote has at least three characters
  that are not surrounding white space and between 3 and 1000 bytes.
\<close>

theorem declined_quote_evidence:
  assumes "consultation_validate p = Inr ()" and "cp_declined_quote p = Some quote"
  shows "cp_purpose p = BookingPurpose \<and> cp_waiting_for p = None \<and> 3 \<le> utf8_len quote \<and> utf8_len quote \<le> 1000 \<and>
    (\<exists>c\<in>set quote. \<not> is_whitespace c)"
proof -
  from assms have *: "cp_purpose p = BookingPurpose" "cp_waiting_for p = None" "3 \<le> length (trim quote)"
      "utf8_len quote \<le> 1000"
    by (auto simp: consultation_validate_def split: if_splits)
  then have "trim quote \<noteq> []" by auto
  then have "hd (trim quote) \<in> set quote" "\<not> is_whitespace (hd (trim quote))"
    using trim_start set_trim [of quote] by (auto simp: subset_iff)
  moreover have "3 \<le> utf8_len quote"
    using *(3) length_trim [of quote] utf8_len_ge [of quote] by linarith
  ultimately show ?thesis using * by blast
qed

theorem declined_quote_evidence_witness:
  "3 \<le> utf8_len (ascii ''no thanks'')"
  using declined_quote_evidence [of "\<lparr>cp_purpose = BookingPurpose, cp_waiting_for = None,
      cp_declined_quote = Some (ascii ''no thanks'')\<rparr>" "ascii ''no thanks''"]
  by (simp add: consultation_validate_def ascii_def trim_def is_whitespace_def utf8_len_def utf8_width_def)

end
