(* ===== verification/Knowledge.thy ===== *)
theory Knowledge
  imports Text
begin

section \<open>Knowledge drafts (\<open>crates/airhop-core/src/knowledge.rs\<close>)\<close>

text \<open>
  Editable material, its validation and the Markdown derived from it. The Markdown parser is the
  \<open>pulldown_cmark\<close> package, the parameter \<open>parser\<close>: the list of events of a text, of which
  the code distinguishes raw HTML, images and links. Fields that only ASCII values pass are byte
  strings, the others Unicode text.
\<close>

record knowledge_question =
  question :: utext
  answer :: utext

record knowledge_draft =
  k_title :: utext
  k_topic :: string
  k_locale :: string
  k_audience :: string
  k_website_allowed :: bool
  k_scope_type :: string
  k_scope_id :: "uuid option"
  k_questions :: "knowledge_question list"
  k_markdown :: utext
  k_source_id :: "uuid option"

datatype md_event = Html | InlineHtml | StartImage | StartLink string | OtherEvent

datatype knowledge_error =
    TitleLength
  | InvalidTopic
  | InvalidLocale
  | StaffOnWebsite
  | InvalidScope
  | QuestionLength
  | MaterialTooLong
  | BinaryContent
  | RawHtml
  | EmbeddedImage
  | UnsupportedLink

definition question_block :: "knowledge_question \<Rightarrow> utext" where
  "question_block q =
     ascii ''## '' @ map (\<lambda>c. if c = 13 \<or> c = 10 then 32 else c) (trim (question q)) @ [10, 10] @ trim (answer q)"

fun join_blocks :: "utext list \<Rightarrow> utext" where
  "join_blocks [] = []"
| "join_blocks [b] = b"
| "join_blocks (b # c # bs) = b @ [10, 10] @ join_blocks (c # bs)"

definition published_markdown :: "knowledge_draft \<Rightarrow> utext" where
  "published_markdown d =
     join_blocks (map question_block (filter (\<lambda>q. trim (answer q) \<noteq> []) (k_questions d)) @
       (if trim (k_markdown d) \<noteq> [] then [trim (k_markdown d)] else []))"

definition check_event :: "md_event \<Rightarrow> unit \<Rightarrow> (unit, knowledge_error) result" where
  "check_event e u =
     (case e of
        Html \<Rightarrow> Inl RawHtml
      | InlineHtml \<Rightarrow> Inl RawHtml
      | StartImage \<Rightarrow> Inl EmbeddedImage
      | StartLink dest_url \<Rightarrow>
          (if \<not> (starts_with ''https://'' dest_url \<or> starts_with ''http://'' dest_url \<or>
                starts_with ''mailto:'' dest_url)
           then Inl UnsupportedLink else Inr ())
      | OtherEvent \<Rightarrow> Inr ())"

definition draft_validate :: "(utext \<Rightarrow> md_event list) \<Rightarrow> knowledge_draft \<Rightarrow> (unit, knowledge_error) result" where
  "draft_validate parser d =
     (if trim (k_title d) = [] \<or> length (k_title d) > 200 then Inl TitleLength
      else if k_topic d = [] \<or> length (k_topic d) > 80 \<or>
         \<not> (\<forall>c\<in>set (k_topic d). is_ascii_lowercase c \<or> is_ascii_digit c \<or> c = CHR ''_'')
      then Inl InvalidTopic
      else if \<not> (2 \<le> length (k_locale d) \<and> length (k_locale d) \<le> 35) \<or>
         \<not> (\<forall>c\<in>set (k_locale d). is_ascii_alphanumeric c \<or> c = CHR ''-'')
      then Inl InvalidLocale
      else if k_audience d \<notin> {''parent'', ''staff''} \<or> (k_website_allowed d \<and> k_audience d = ''staff'')
      then Inl StaffOnWebsite
      else if \<not> (k_scope_type d = ''organization'' \<and> k_scope_id d = None \<or>
         k_scope_type d \<in> {''branch'', ''group''} \<and> k_scope_id d \<noteq> None)
      then Inl InvalidScope
      else if length (k_questions d) > 30 \<or>
         (\<exists>q\<in>set (k_questions d). trim (question q) = [] \<or> length (question q) > 300 \<or> length (answer q) > 10000)
      then Inl QuestionLength
      else if length (published_markdown d) > 50000 then Inl MaterialTooLong
      else if 0 \<in> set (k_markdown d) \<or> (\<exists>q\<in>set (k_questions d). 0 \<in> set (question q) \<or> 0 \<in> set (answer q))
      then Inl BinaryContent
      else try_fold check_event (parser (published_markdown d)) ())"

datatype knowledge_command =
    Save uuid "64 word" knowledge_draft
  | Publish uuid "64 word"
  | Archive uuid "64 word"
  | Restore uuid "64 word" "64 word"

fun target :: "knowledge_command \<Rightarrow> uuid \<times> 64 word" where
  "target (Save i v d) = (i, v)"
| "target (Publish i v) = (i, v)"
| "target (Archive i v) = (i, v)"
| "target (Restore i v r) = (i, v)"

subsection \<open>The published artifact\<close>

lemma set_join_blocks: "set (join_blocks bs) \<subseteq> \<Union> (set ` set bs) \<union> {10}"
  by (induction bs rule: join_blocks.induct) auto

lemma set_question_block:
  "set (question_block q) \<subseteq> set (question q) \<union> set (answer q) \<union> {35, 32, 10}"
  using set_trim [of "question q"] set_trim [of "answer q"]
  by (auto simp: question_block_def ascii_def)

lemma set_published:
  "set (published_markdown d) \<subseteq>
     (\<Union>q\<in>set (k_questions d). set (question q) \<union> set (answer q)) \<union> set (k_markdown d) \<union> {35, 32, 10}"
proof -
  let ?bs = "map question_block (filter (\<lambda>q. trim (answer q) \<noteq> []) (k_questions d)) @
       (if trim (k_markdown d) \<noteq> [] then [trim (k_markdown d)] else [])"
  have "set (published_markdown d) \<subseteq> \<Union> (set ` set ?bs) \<union> {10}"
    unfolding published_markdown_def by (rule set_join_blocks)
  moreover have "set b \<subseteq> (\<Union>q\<in>set (k_questions d). set (question q) \<union> set (answer q)) \<union> set (k_markdown d) \<union> {35, 32, 10}"
    if "b \<in> set ?bs" for b
    using that set_question_block set_trim [of "k_markdown d"] by (fastforce split: if_splits)
  ultimately show ?thesis by blast
qed

lemma check_events_ok:
  "is_ok (try_fold check_event es ()) \<longleftrightarrow> Html \<notin> set es \<and> InlineHtml \<notin> set es \<and> StartImage \<notin> set es \<and>
     (\<forall>u. StartLink u \<in> set es \<longrightarrow> starts_with ''https://'' u \<or> starts_with ''http://'' u \<or> starts_with ''mailto:'' u)"
proof (induction es)
  case (Cons e es)
  then show ?case by (cases e) (auto simp: check_event_def)
qed simp

text \<open>
  What a validated draft publishes: at most 50000 characters without a NUL, no raw HTML and
  no image, only links with an allowed scheme; staff-only material is never allowed on a website,
  and the scope identifier is present exactly for branch and group scopes.
\<close>

theorem validated_draft_safe:
  assumes "draft_validate parser d = Inr ()"
  shows "length (published_markdown d) \<le> 50000 \<and> 0 \<notin> set (published_markdown d) \<and>
    (\<forall>e\<in>set (parser (published_markdown d)). e \<notin> {Html, InlineHtml, StartImage}) \<and>
    (\<forall>u. StartLink u \<in> set (parser (published_markdown d)) \<longrightarrow>
       starts_with ''https://'' u \<or> starts_with ''http://'' u \<or> starts_with ''mailto:'' u) \<and>
    (k_website_allowed d \<longrightarrow> k_audience d = ''parent'') \<and>
    (k_scope_id d = None \<longleftrightarrow> k_scope_type d = ''organization'')"
proof -
  from assms have len: "length (published_markdown d) \<le> 50000"
    and nul: "0 \<notin> set (k_markdown d)" "\<forall>q\<in>set (k_questions d). 0 \<notin> set (question q) \<and> 0 \<notin> set (answer q)"
    and ev: "is_ok (try_fold check_event (parser (published_markdown d)) ())"
    and aud: "k_website_allowed d \<longrightarrow> k_audience d = ''parent''"
    and scope: "k_scope_id d = None \<longleftrightarrow> k_scope_type d = ''organization''"
    by (auto simp: draft_validate_def split: if_splits)
  have "0 \<notin> set (published_markdown d)"
    using set_published [of d] nul by (auto simp: subset_iff)
  with len ev aud scope show ?thesis unfolding check_events_ok by blast
qed

text \<open>
  Unanswered prompts never reach the artifact: the publication depends only on the answered
  questions, and it is empty exactly when nothing was answered and no text was added.
\<close>

theorem unanswered_prompts_omitted:
  "published_markdown d = published_markdown (d\<lparr>k_questions := filter (\<lambda>q. trim (answer q) \<noteq> []) (k_questions d)\<rparr>) \<and>
   (published_markdown d = [] \<longleftrightarrow> trim (k_markdown d) = [] \<and> (\<forall>q\<in>set (k_questions d). trim (answer q) = []))"
proof -
  have "join_blocks bs = [] \<longleftrightarrow> bs = [] \<or> bs = [[]]" for bs
    by (cases bs rule: join_blocks.cases) auto
  moreover have "question_block q \<noteq> []" for q by (simp add: question_block_def ascii_def)
  ultimately show ?thesis
    by (auto simp: published_markdown_def filter_empty_conv append_eq_Cons_conv)
qed

definition demo_draft :: knowledge_draft where
  "demo_draft = \<lparr>k_title = ascii ''Hours'', k_topic = ''hours'', k_locale = ''en'', k_audience = ''parent'',
     k_website_allowed = True, k_scope_type = ''organization'', k_scope_id = None,
     k_questions = [\<lparr>question = ascii ''When'', answer = ascii ''Daily''\<rparr>, \<lparr>question = ascii ''Where'', answer = []\<rparr>],
     k_markdown = [], k_source_id = None\<rparr>"

definition demo_parser :: "utext \<Rightarrow> md_event list" where
  "demo_parser t = (if 60 \<in> set t then [Html] else [OtherEvent, StartLink ''https://a.b''])"

theorem validated_draft_safe_witness:
  "draft_validate demo_parser demo_draft = Inr () \<and> 0 \<notin> set (published_markdown demo_draft)"
proof -
  have pub: "published_markdown demo_draft = ascii ''## When'' @ [10, 10] @ ascii ''Daily''"
    by (simp add: published_markdown_def demo_draft_def question_block_def ascii_def trim_def is_whitespace_def)
  have ok: "draft_validate demo_parser demo_draft = Inr ()"
    unfolding draft_validate_def pub
    by (simp add: demo_draft_def demo_parser_def check_event_def starts_with_def ascii_def ascii_defs
        trim_def is_whitespace_def)
  show ?thesis using validated_draft_safe [OF ok] ok by simp
qed

theorem unanswered_prompts_omitted_witness:
  "published_markdown demo_draft =
     published_markdown (demo_draft\<lparr>k_questions := filter (\<lambda>q. trim (answer q) \<noteq> []) (k_questions demo_draft)\<rparr>)"
  using unanswered_prompts_omitted [of demo_draft] by blast

end
