(* ===== verification/Roles.thy ===== *)
theory Roles
  imports Text
begin

section \<open>Channel and membership enums (\<open>crates/buzz-core/src/channel.rs\<close>)\<close>

text \<open>
  Channel names, visibilities, types and member roles. The parse error of a \<open>FromStr\<close> carries
  the offending string; the fixed prefix of its message is left out.
\<close>

text \<open>The sharp sign, and \<open>trim_end\<close> of the standard library.\<close>

definition strip_name_char :: "nat \<Rightarrow> bool" where
  "strip_name_char c \<longleftrightarrow> c = 35 \<or> is_whitespace c"

definition trim_end :: "utext \<Rightarrow> utext" where
  "trim_end t = rev (dropWhile is_whitespace (rev t))"

definition canonical_channel_name :: "utext \<Rightarrow> utext" where
  "canonical_channel_name name = trim_end (dropWhile strip_name_char name)"

datatype channel_visibility = Open | Private

fun visibility_as_str :: "channel_visibility \<Rightarrow> string" where
  "visibility_as_str Open = ''open''"
| "visibility_as_str Private = ''private''"

definition visibility_from_str :: "string \<Rightarrow> (channel_visibility, string) result" where
  "visibility_from_str s =
     (if s = ''open'' then Inr Open else if s = ''private'' then Inr Private else Inl s)"

datatype channel_type = Stream | Forum | Dm | Workflow

fun channel_type_as_str :: "channel_type \<Rightarrow> string" where
  "channel_type_as_str Stream = ''stream''"
| "channel_type_as_str Forum = ''forum''"
| "channel_type_as_str Dm = ''dm''"
| "channel_type_as_str Workflow = ''workflow''"

definition channel_type_from_str :: "string \<Rightarrow> (channel_type, string) result" where
  "channel_type_from_str s =
     (if s = ''stream'' then Inr Stream else if s = ''forum'' then Inr Forum
      else if s = ''dm'' then Inr Dm else if s = ''workflow'' then Inr Workflow else Inl s)"

datatype member_role = OwnerRole | AdminRole | MemberRole | GuestRole | BotRole

fun member_role_as_str :: "member_role \<Rightarrow> string" where
  "member_role_as_str OwnerRole = ''owner''"
| "member_role_as_str AdminRole = ''admin''"
| "member_role_as_str MemberRole = ''member''"
| "member_role_as_str GuestRole = ''guest''"
| "member_role_as_str BotRole = ''bot''"

definition is_elevated :: "member_role \<Rightarrow> bool" where
  "is_elevated r \<longleftrightarrow> r \<in> {OwnerRole, AdminRole}"

fun permission_level :: "member_role \<Rightarrow> nat" where
  "permission_level OwnerRole = 4"
| "permission_level AdminRole = 3"
| "permission_level MemberRole = 2"
| "permission_level GuestRole = 1"
| "permission_level BotRole = 0"

definition has_at_least :: "member_role \<Rightarrow> member_role \<Rightarrow> bool" where
  "has_at_least r required \<longleftrightarrow> permission_level r \<ge> permission_level required"

definition member_role_from_str :: "string \<Rightarrow> (member_role, string) result" where
  "member_role_from_str s =
     (if s = ''owner'' then Inr OwnerRole else if s = ''admin'' then Inr AdminRole
      else if s = ''member'' then Inr MemberRole else if s = ''guest'' then Inr GuestRole
      else if s = ''bot'' then Inr BotRole else Inl s)"

subsection \<open>Names\<close>

lemma trim_end_split: "\<exists>w. t = trim_end t @ w \<and> (\<forall>c\<in>set w. is_whitespace c)"
proof -
  have "t = rev (rev t)" by simp
  also have "\<dots> = rev (takeWhile is_whitespace (rev t) @ dropWhile is_whitespace (rev t))" by simp
  also have "\<dots> = trim_end t @ rev (takeWhile is_whitespace (rev t))" by (simp only: trim_end_def rev_append)
  finally show ?thesis
    by (intro exI [of _ "rev (takeWhile is_whitespace (rev t))"]) (auto dest: set_takeWhileD)
qed

lemma trim_end_last: "trim_end t \<noteq> [] \<Longrightarrow> \<not> is_whitespace (last (trim_end t))"
  using hd_dropWhile [of is_whitespace "rev t"] by (simp add: trim_end_def last_rev)

lemma canonical_name_start:
  assumes "canonical_channel_name n \<noteq> []"
  shows "\<not> strip_name_char (hd (canonical_channel_name n))"
proof -
  let ?u = "dropWhile strip_name_char n"
  obtain w where w: "?u = canonical_channel_name n @ w"
    using trim_end_split [of ?u] by (auto simp: canonical_channel_name_def)
  have "?u \<noteq> []" using w assms by auto
  then have "\<not> strip_name_char (hd ?u)" by (rule hd_dropWhile)
  then show ?thesis using w assms by simp
qed

lemma trim_end_fixed: "t = [] \<or> \<not> is_whitespace (last t) \<Longrightarrow> trim_end t = t"
  by (cases t rule: rev_cases) (auto simp: trim_end_def)

lemma dropWhile_fixed: "t = [] \<or> \<not> P (hd t) \<Longrightarrow> dropWhile P t = t"
  by (cases t) auto

text \<open>
  The canonical channel name is stable and prefix-free: it never starts with a sharp sign or
  white space and never ends in white space, and taking it again changes nothing.
\<close>

theorem canonical_channel_name_stable:
  "canonical_channel_name (canonical_channel_name n) = canonical_channel_name n \<and>
   (canonical_channel_name n = [] \<or>
     \<not> strip_name_char (hd (canonical_channel_name n)) \<and> \<not> is_whitespace (last (canonical_channel_name n)))"
proof -
  let ?c = "canonical_channel_name n"
  have ends: "?c = [] \<or> \<not> strip_name_char (hd ?c) \<and> \<not> is_whitespace (last ?c)"
    using canonical_name_start [of n] trim_end_last [of "dropWhile strip_name_char n"]
    by (auto simp: canonical_channel_name_def)
  then have "dropWhile strip_name_char ?c = ?c" by (intro dropWhile_fixed) auto
  moreover have "trim_end ?c = ?c" using ends by (intro trim_end_fixed) auto
  ultimately have "canonical_channel_name ?c = ?c" by (metis canonical_channel_name_def)
  with ends show ?thesis by simp
qed

theorem canonical_channel_name_stable_witness:
  "canonical_channel_name (canonical_channel_name (ascii '' ##general '')) = canonical_channel_name (ascii '' ##general '')"
  using canonical_channel_name_stable by blast

subsection \<open>Enums and their strings\<close>

text \<open>
  Every visibility, channel type and member role survives its string form, and nothing else
  parses: the parsers accept exactly the strings the printers produce.
\<close>

theorem enum_strings_round_trip:
  "(visibility_from_str s = Inr v \<longleftrightarrow> s = visibility_as_str v) \<and>
   (channel_type_from_str s = Inr t \<longleftrightarrow> s = channel_type_as_str t) \<and>
   (member_role_from_str s = Inr r \<longleftrightarrow> s = member_role_as_str r)"
  by (cases v; cases t; cases r)
    (auto simp: visibility_from_str_def channel_type_from_str_def member_role_from_str_def)

end
