(* ===== verification/Git_Perms.thy ===== *)
theory Git_Perms
  imports Roles
begin

section \<open>Git permissions (\<open>crates/buzz-core/src/git_perms.rs\<close>)\<close>

text \<open>
  Ref patterns, protection tags and the push policy. Strings are byte strings. The reasons of a
  denial are constructors instead of formatted text. The \<open>unreachable!()\<close> arms of the matcher
  (a recursive wildcard that is not the last segment) are the value \<open>False\<close> here; the lemma
  \<open>parse_segments\<close> shows that no parsed pattern reaches them.
\<close>

definition MAX_PROTECTION_RULES :: nat where "MAX_PROTECTION_RULES = 50"
definition MAX_PATTERN_LENGTH :: nat where "MAX_PATTERN_LENGTH = 256"
definition MAX_WILDCARDS_PER_PATTERN :: nat where "MAX_WILDCARDS_PER_PATTERN = 3"

datatype pattern_segment = Literal string | Wildcard | RecursiveWildcard

record ref_pattern =
  raw :: string
  segments :: "pattern_segment list"

datatype pattern_error = EmptyPattern | TooLong | MissingRefsPrefix | InvalidSegment string | TooManyWildcards

definition literal_char :: "char \<Rightarrow> bool" where
  "literal_char c \<longleftrightarrow> is_ascii_alphanumeric c \<or> c = CHR ''.'' \<or> c = CHR ''_'' \<or> c = CHR ''-''"

text \<open>The loop over the parts: position, number of parts, wildcards seen so far, segments so far.\<close>

fun parse_parts :: "nat \<Rightarrow> nat \<Rightarrow> string list \<Rightarrow> nat \<Rightarrow> pattern_segment list \<Rightarrow> (pattern_segment list, pattern_error) result" where
  "parse_parts i n [] w acc = Inr acc"
| "parse_parts i n (part # parts) w acc =
     (if part = ''**'' then
        if i \<noteq> n - 1 then Inl (InvalidSegment ''** must be the last segment'')
        else if w + 1 > MAX_WILDCARDS_PER_PATTERN then Inl TooManyWildcards
        else parse_parts (i + 1) n parts (w + 1) (acc @ [RecursiveWildcard])
      else if part = ''*'' then
        if w + 1 > MAX_WILDCARDS_PER_PATTERN then Inl TooManyWildcards
        else parse_parts (i + 1) n parts (w + 1) (acc @ [Wildcard])
      else if part = [] then Inl (InvalidSegment [])
      else if CHR ''*'' \<in> set part \<or> CHR ''?'' \<in> set part \<or> CHR ''['' \<in> set part \<or> CHR '']'' \<in> set part
      then Inl (InvalidSegment part)
      else if \<not> (\<forall>c\<in>set part. literal_char c) then Inl (InvalidSegment part)
      else parse_parts (i + 1) n parts w (acc @ [Literal part]))"

definition pattern_parse :: "string \<Rightarrow> (ref_pattern, pattern_error) result" where
  "pattern_parse pattern =
     (if pattern = [] then Inl EmptyPattern
      else if length pattern > MAX_PATTERN_LENGTH then Inl TooLong
      else if \<not> starts_with ''refs/'' pattern then Inl MissingRefsPrefix
      else
        let parts = split_on (CHR ''/'') pattern in
        and_then (parse_parts 0 (length parts) parts 0 []) (\<lambda>segs.
          Inr \<lparr>raw = pattern, segments = segs\<rparr>))"

fun segment_matches :: "pattern_segment \<Rightarrow> string \<Rightarrow> bool" where
  "segment_matches Wildcard seg = True"
| "segment_matches (Literal lit) seg = (lit = seg)"
| "segment_matches RecursiveWildcard seg = False"

definition pattern_matches :: "ref_pattern \<Rightarrow> string \<Rightarrow> bool" where
  "pattern_matches p ref_name =
     (let ref_segments = split_on (CHR ''/'') ref_name in
      if segments p \<noteq> [] \<and> last (segments p) = RecursiveWildcard then
        let prefix_len = length (segments p) - 1 in
        if length ref_segments \<le> prefix_len then False
        else list_all (\<lambda>(pat, seg). segment_matches pat seg)
               (zip (take prefix_len (segments p)) (take prefix_len ref_segments))
      else if length ref_segments \<noteq> length (segments p) then False
      else list_all (\<lambda>(pat, seg). segment_matches pat seg) (zip (segments p) ref_segments))"

datatype update_kind = Create | FastForward | NonFastForward | Delete

definition ZERO_OID :: string where
  "ZERO_OID = replicate 40 (CHR ''0'')"

definition classify :: "string \<Rightarrow> string \<Rightarrow> bool \<Rightarrow> update_kind" where
  "classify old_oid new_oid is_ancestor =
     (if old_oid = ZERO_OID then Create
      else if new_oid = ZERO_OID then Delete
      else if is_ancestor then FastForward
      else NonFastForward)"

record ref_update =
  u_ref_name :: string
  u_kind :: update_kind
  u_old_oid :: string
  u_new_oid :: string

record protection_rule =
  pr_pattern :: ref_pattern
  pr_push_role :: "member_role option"
  pr_no_force_push :: bool
  pr_no_delete :: bool
  pr_require_patch :: bool

datatype rule_parse_error =
    TooFewValues
  | TooManyRules
  | InvalidPattern pattern_error
  | UnknownRule string
  | InvalidRole string

text \<open>Take the strictest role: a new role replaces the present one only when it is higher.\<close>

definition stricter :: "member_role option \<Rightarrow> member_role \<Rightarrow> member_role option" where
  "stricter existing role =
     Some (case existing of
        None \<Rightarrow> role
      | Some e \<Rightarrow> if permission_level role > permission_level e then role else e)"

text \<open>One rule string of a tag, on the rule under construction and the unknown strings.\<close>

definition parse_rule_str ::
  "string \<Rightarrow> protection_rule \<times> string list \<Rightarrow> (protection_rule \<times> string list, rule_parse_error) result" where
  "parse_rule_str rule_str st =
     (case st of (rule, unknown_rules) \<Rightarrow>
      case strip_prefix ''push:'' rule_str of
        Some role_str \<Rightarrow>
          (case member_role_from_str role_str of
             Inl _ \<Rightarrow> Inl (InvalidRole role_str)
           | Inr role \<Rightarrow>
               if role \<in> {BotRole, GuestRole} then Inl (InvalidRole role_str)
               else Inr (rule\<lparr>pr_push_role := stricter (pr_push_role rule) role\<rparr>, unknown_rules))
      | None \<Rightarrow>
          if rule_str = ''no-force-push'' then Inr (rule\<lparr>pr_no_force_push := True\<rparr>, unknown_rules)
          else if rule_str = ''no-delete'' then Inr (rule\<lparr>pr_no_delete := True\<rparr>, unknown_rules)
          else if rule_str = ''require-patch'' then Inr (rule\<lparr>pr_require_patch := True\<rparr>, unknown_rules)
          else Inr (rule, unknown_rules @ [rule_str]))"

definition parse_protection_tag_with_warnings ::
  "string list \<Rightarrow> (protection_rule \<times> string list, rule_parse_error) result" where
  "parse_protection_tag_with_warnings values =
     (case values of
        pattern # rule_str # rest \<Rightarrow>
          (case pattern_parse pattern of
             Inl e \<Rightarrow> Inl (InvalidPattern e)
           | Inr p \<Rightarrow> try_fold parse_rule_str (rule_str # rest)
               (\<lparr>pr_pattern = p, pr_push_role = None, pr_no_force_push = False, pr_no_delete = False,
                 pr_require_patch = False\<rparr>, []))
      | _ \<Rightarrow> Inl TooFewValues)"

definition parse_protection_tag :: "string list \<Rightarrow> (protection_rule, rule_parse_error) result" where
  "parse_protection_tag values =
     and_then (parse_protection_tag_with_warnings values) (\<lambda>(rule, unknowns). Inr rule)"

record parsed_protection =
  pp_rules :: "protection_rule list"
  pp_unknown_rules :: "string list"

definition parse_tag_body ::
  "string list \<Rightarrow> parsed_protection \<Rightarrow> (parsed_protection, rule_parse_error) result" where
  "parse_tag_body tag st =
     (case tag of
        [] \<Rightarrow> Inr st
      | name # values \<Rightarrow>
          if name \<noteq> ''buzz-protect'' then Inr st
          else if length (pp_rules st) \<ge> MAX_PROTECTION_RULES then Inl TooManyRules
          else and_then (parse_protection_tag_with_warnings values) (\<lambda>(rule, unknowns).
            Inr \<lparr>pp_rules = pp_rules st @ [rule], pp_unknown_rules = pp_unknown_rules st @ unknowns\<rparr>))"

definition parse_protection_tags :: "string list list \<Rightarrow> (parsed_protection, rule_parse_error) result" where
  "parse_protection_tags tags = try_fold parse_tag_body tags \<lparr>pp_rules = [], pp_unknown_rules = []\<rparr>"

definition default_min_role :: "string \<Rightarrow> update_kind \<Rightarrow> member_role" where
  "default_min_role ref_name kind =
     (let is_branch = starts_with ''refs/heads/'' ref_name; is_tag = starts_with ''refs/tags/'' ref_name in
      case kind of
        Create \<Rightarrow> (if is_branch \<or> is_tag then MemberRole else AdminRole)
      | FastForward \<Rightarrow> (if is_branch then MemberRole else if is_tag then AdminRole else AdminRole)
      | NonFastForward \<Rightarrow> AdminRole
      | Delete \<Rightarrow> AdminRole)"

record effective_rules =
  er_push_role :: "member_role option"
  er_no_force_push :: bool
  er_no_delete :: bool
  er_require_patch :: bool
  er_has_explicit_match :: bool

definition union_rule :: "string \<Rightarrow> protection_rule \<Rightarrow> effective_rules \<Rightarrow> effective_rules" where
  "union_rule ref_name rule e =
     (if \<not> pattern_matches (pr_pattern rule) ref_name then e
      else \<lparr>er_push_role = (case pr_push_role rule of None \<Rightarrow> er_push_role e
                            | Some role \<Rightarrow> stricter (er_push_role e) role),
            er_no_force_push = (er_no_force_push e \<or> pr_no_force_push rule),
            er_no_delete = (er_no_delete e \<or> pr_no_delete rule),
            er_require_patch = (er_require_patch e \<or> pr_require_patch rule),
            er_has_explicit_match = True\<rparr>)"

definition for_ref :: "string \<Rightarrow> protection_rule list \<Rightarrow> effective_rules" where
  "for_ref ref_name rules =
     fold (union_rule ref_name) rules
       \<lparr>er_push_role = None, er_no_force_push = False, er_no_delete = False, er_require_patch = False,
        er_has_explicit_match = False\<rparr>"

datatype denial_reason =
    RequiresDefaultRole member_role member_role
  | RequirePatchSet
  | RequiresRole member_role member_role
  | NoForcePushSet
  | NoDeleteSet

record denial =
  d_ref_name :: string
  d_reason :: denial_reason

definition evaluate_ref_update ::
  "ref_update \<Rightarrow> member_role \<Rightarrow> protection_rule list \<Rightarrow> (unit, denial) result" where
  "evaluate_ref_update update role rules =
     (let effective = for_ref (u_ref_name update) rules;
          deny = (\<lambda>reason. Inl \<lparr>d_ref_name = u_ref_name update, d_reason = reason\<rparr>);
          default_role = default_min_role (u_ref_name update) (u_kind update)
      in if \<not> er_has_explicit_match effective then
           if \<not> has_at_least role default_role then deny (RequiresDefaultRole default_role role) else Inr ()
         else if er_require_patch effective then deny RequirePatchSet
         else
           let min_role = (case er_push_role effective of
                 Some explicit \<Rightarrow>
                   if permission_level explicit \<ge> permission_level default_role then explicit else default_role
               | None \<Rightarrow> default_role)
           in if \<not> has_at_least role min_role then deny (RequiresRole min_role role)
           else if er_no_force_push effective \<and> u_kind update = NonFastForward then deny NoForcePushSet
           else if er_no_delete effective \<and> u_kind update = Delete then deny NoDeleteSet
           else Inr ())"

definition evaluate_push ::
  "ref_update list \<Rightarrow> member_role \<Rightarrow> protection_rule list \<Rightarrow> (unit, denial list) result" where
  "evaluate_push updates role rules =
     (let denials = List.map_filter
        (\<lambda>update. case evaluate_ref_update update role rules of Inl d \<Rightarrow> Some d | Inr _ \<Rightarrow> None) updates
      in if denials = [] then Inr () else Inl denials)"

subsection \<open>Patterns\<close>

text \<open>What a list of parts means as a pattern, part by part.\<close>

definition part_segment :: "string \<Rightarrow> pattern_segment" where
  "part_segment p = (if p = ''**'' then RecursiveWildcard else if p = ''*'' then Wildcard else Literal p)"

definition literal_part :: "string \<Rightarrow> bool" where
  "literal_part p \<longleftrightarrow> p \<noteq> [] \<and> (\<forall>c\<in>set p. literal_char c)"

definition wildcard_part :: "string \<Rightarrow> bool" where
  "wildcard_part p \<longleftrightarrow> p \<in> {''*'', ''**''}"

definition parts_ok :: "string list \<Rightarrow> bool" where
  "parts_ok parts \<longleftrightarrow> (\<forall>p\<in>set parts. wildcard_part p \<or> literal_part p) \<and> ''**'' \<notin> set (butlast parts)"

lemma literal_no_star:
  "literal_part p \<Longrightarrow> p \<noteq> ''*'' \<and> p \<noteq> ''**'' \<and> CHR ''*'' \<notin> set p \<and> CHR ''?'' \<notin> set p \<and> CHR ''['' \<notin> set p \<and> CHR '']'' \<notin> set p"
  by (auto simp: literal_part_def literal_char_def ascii_defs)

lemma parse_parts_iff:
  assumes "i + length parts = n" and "w \<le> MAX_WILDCARDS_PER_PATTERN"
  shows "parse_parts i n parts w acc = Inr segs \<longleftrightarrow>
    parts_ok parts \<and> w + length (filter wildcard_part parts) \<le> MAX_WILDCARDS_PER_PATTERN \<and>
    segs = acc @ map part_segment parts"
  using assms
proof (induction i n parts w acc rule: parse_parts.induct)
  case (2 i n part parts w acc)
  have last: "i = n - 1 \<longleftrightarrow> parts = []" using "2.prems"(1) by auto
  consider "part = ''**''" | "part = ''*''" | "literal_part part" | "\<not> wildcard_part part \<and> \<not> literal_part part"
    by (auto simp: wildcard_part_def)
  then show ?case
  proof cases
    case 1
    then show ?thesis using "2.IH"(1) "2.prems" last
      by (cases "parts = []") (auto simp: parts_ok_def wildcard_part_def part_segment_def)
  next
    case 2
    then show ?thesis using "2.IH"(2) "2.prems" last
      by (cases "parts = []") (auto simp: parts_ok_def wildcard_part_def part_segment_def)
  next
    case 3
    then show ?thesis using "2.IH"(3) "2.prems" last literal_no_star [OF 3]
      by (cases "parts = []") (auto simp: parts_ok_def wildcard_part_def part_segment_def literal_part_def)
  next
    case 4
    then have "\<not> parts_ok (part # parts)" by (simp add: parts_ok_def)
    with 4 show ?thesis by (auto simp: wildcard_part_def literal_part_def)
  qed
qed (auto simp: parts_ok_def)

lemma parse_segments:
  assumes "pattern_parse s = Inr p"
  shows "segments p = map part_segment (split_on (CHR ''/'') s)" "RecursiveWildcard \<notin> set (butlast (segments p))"
    "raw p = s"
proof -
  let ?parts = "split_on (CHR ''/'') s"
  from assms have run: "parse_parts 0 (length ?parts) ?parts 0 [] = Inr (segments p)" and raw: "raw p = s"
    by (auto simp: pattern_parse_def Let_def and_then_eq_Inr split: if_splits)
  then have ok: "parts_ok ?parts" and segs: "segments p = map part_segment ?parts"
    using parse_parts_iff [of 0 ?parts "length ?parts" 0 "[]" "segments p"] by auto
  show "segments p = map part_segment ?parts" "raw p = s" by (fact segs raw)+
  show "RecursiveWildcard \<notin> set (butlast (segments p))"
    using ok unfolding segs by (auto simp: parts_ok_def part_segment_def map_butlast [symmetric] split: if_splits)
qed

text \<open>
  The meaning of a pattern: literal segments match themselves, a wildcard one segment, a final
  recursive wildcard one or more segments.
\<close>

fun denotes :: "pattern_segment list \<Rightarrow> string list \<Rightarrow> bool" where
  "denotes [] ss \<longleftrightarrow> ss = []"
| "denotes (p # ps) [] \<longleftrightarrow> False"
| "denotes (p # ps) (s # ss) \<longleftrightarrow>
     (case p of RecursiveWildcard \<Rightarrow> ps = []
      | Wildcard \<Rightarrow> denotes ps ss
      | Literal lit \<Rightarrow> lit = s \<and> denotes ps ss)"

lemma denotes_plain:
  "RecursiveWildcard \<notin> set ps \<Longrightarrow> denotes ps ss \<longleftrightarrow>
     length ss = length ps \<and> list_all (\<lambda>(pat, seg). segment_matches pat seg) (zip ps ss)"
  by (induction ps ss rule: denotes.induct) (auto split: pattern_segment.splits)

lemma denotes_recursive:
  "RecursiveWildcard \<notin> set ps \<Longrightarrow> denotes (ps @ [RecursiveWildcard]) ss \<longleftrightarrow>
     length ss > length ps \<and> list_all (\<lambda>(pat, seg). segment_matches pat seg) (zip ps (take (length ps) ss))"
proof (induction ps ss rule: denotes.induct)
  case (1 ss)
  then show ?case by (cases ss) auto
qed (auto split: pattern_segment.splits)

lemma matches_denotes:
  assumes "RecursiveWildcard \<notin> set (butlast (segments p))"
  shows "pattern_matches p r \<longleftrightarrow> denotes (segments p) (split_on (CHR ''/'') r)"
proof (cases "segments p \<noteq> [] \<and> last (segments p) = RecursiveWildcard")
  case True
  then obtain ps where ps: "segments p = ps @ [RecursiveWildcard]" by (metis append_butlast_last_id)
  with assms show ?thesis using denotes_recursive [of ps] by (auto simp: pattern_matches_def Let_def)
next
  case False
  have "RecursiveWildcard \<notin> set (segments p)"
  proof (cases "segments p" rule: rev_cases)
    case (snoc ps x)
    then show ?thesis using False assms by simp
  qed simp
  then show ?thesis using False denotes_plain [of "segments p"] by (auto simp: pattern_matches_def Let_def)
qed

lemma denotes_literals: "denotes (map Literal ls) ss \<longleftrightarrow> ss = ls"
proof (induction ls arbitrary: ss)
  case (Cons l ls)
  then show ?case by (cases ss) auto
qed simp

subsection \<open>The push policy\<close>

text \<open>What one matching rule demands of an update.\<close>

definition rule_permits :: "member_role \<Rightarrow> update_kind \<Rightarrow> protection_rule \<Rightarrow> bool" where
  "rule_permits role kind rule \<longleftrightarrow> \<not> pr_require_patch rule \<and>
     (case pr_push_role rule of None \<Rightarrow> True | Some r \<Rightarrow> has_at_least role r) \<and>
     (pr_no_force_push rule \<longrightarrow> kind \<noteq> NonFastForward) \<and> (pr_no_delete rule \<longrightarrow> kind \<noteq> Delete)"

definition effective_permits :: "member_role \<Rightarrow> update_kind \<Rightarrow> effective_rules \<Rightarrow> bool" where
  "effective_permits role kind e \<longleftrightarrow> \<not> er_require_patch e \<and>
     (case er_push_role e of None \<Rightarrow> True | Some r \<Rightarrow> has_at_least role r) \<and>
     (er_no_force_push e \<longrightarrow> kind \<noteq> NonFastForward) \<and> (er_no_delete e \<longrightarrow> kind \<noteq> Delete)"

lemma stricter_at_least:
  "(case stricter e r of None \<Rightarrow> True | Some x \<Rightarrow> has_at_least role x) \<longleftrightarrow>
     (case e of None \<Rightarrow> True | Some x \<Rightarrow> has_at_least role x) \<and> has_at_least role r"
  by (auto simp: stricter_def has_at_least_def split: option.splits)

lemma union_rule_permits:
  "effective_permits role kind (union_rule rn rule e) \<longleftrightarrow>
     effective_permits role kind e \<and> (pattern_matches (pr_pattern rule) rn \<longrightarrow> rule_permits role kind rule)"
proof (cases "pattern_matches (pr_pattern rule) rn")
  case True
  then show ?thesis
    by (cases "pr_push_role rule") (auto simp: union_rule_def effective_permits_def rule_permits_def stricter_at_least)
qed (simp add: union_rule_def)

lemma fold_union_permits:
  "effective_permits role kind (fold (union_rule rn) rules e) \<longleftrightarrow>
     effective_permits role kind e \<and>
     (\<forall>rule\<in>set rules. pattern_matches (pr_pattern rule) rn \<longrightarrow> rule_permits role kind rule)"
  by (induction rules arbitrary: e) (auto simp: union_rule_permits)

lemma fold_union_explicit:
  "er_has_explicit_match (fold (union_rule rn) rules e) \<longleftrightarrow>
     er_has_explicit_match e \<or> (\<exists>rule\<in>set rules. pattern_matches (pr_pattern rule) rn)"
  by (induction rules arbitrary: e) (auto simp: union_rule_def)

lemma for_ref_permits:
  "effective_permits role kind (for_ref rn rules) \<longleftrightarrow>
     (\<forall>rule\<in>set rules. pattern_matches (pr_pattern rule) rn \<longrightarrow> rule_permits role kind rule)"
  unfolding for_ref_def fold_union_permits by (simp add: effective_permits_def)

lemma for_ref_explicit:
  "er_has_explicit_match (for_ref rn rules) \<longleftrightarrow> (\<exists>rule\<in>set rules. pattern_matches (pr_pattern rule) rn)"
  unfolding for_ref_def fold_union_explicit by simp

lemma update_allowed_iff:
  "evaluate_ref_update u role rules = Inr () \<longleftrightarrow>
     has_at_least role (default_min_role (u_ref_name u) (u_kind u)) \<and>
     (\<forall>rule\<in>set rules. pattern_matches (pr_pattern rule) (u_ref_name u) \<longrightarrow> rule_permits role (u_kind u) rule)"
proof -
  let ?e = "for_ref (u_ref_name u) rules" and ?d = "default_min_role (u_ref_name u) (u_kind u)"
  have "evaluate_ref_update u role rules = Inr () \<longleftrightarrow>
      has_at_least role ?d \<and> (er_has_explicit_match ?e \<longrightarrow> effective_permits role (u_kind u) ?e)"
    by (auto simp: evaluate_ref_update_def effective_permits_def has_at_least_def Let_def split: option.splits)
  then show ?thesis unfolding for_ref_explicit for_ref_permits by blast
qed

subsection \<open>Properties\<close>

text \<open>
  C7. A ref is pushed exactly when the built-in minimum role is met and every protection rule
  whose pattern matches the ref permits the update: explicit rules only ever add constraints, and
  the outcome depends neither on their order nor on repetitions.
\<close>

theorem evaluate_ref_update_exact:
  "evaluate_ref_update u role rules = Inr () \<longleftrightarrow>
     has_at_least role (default_min_role (u_ref_name u) (u_kind u)) \<and>
     (\<forall>rule\<in>set rules. pattern_matches (pr_pattern rule) (u_ref_name u) \<longrightarrow>
        \<not> pr_require_patch rule \<and>
        (case pr_push_role rule of None \<Rightarrow> True | Some r \<Rightarrow> has_at_least role r) \<and>
        (pr_no_force_push rule \<longrightarrow> u_kind u \<noteq> NonFastForward) \<and> (pr_no_delete rule \<longrightarrow> u_kind u \<noteq> Delete))"
  unfolding update_allowed_iff rule_permits_def ..

text \<open>
  Pushes are atomic and monotone: a push is accepted exactly when each of its updates is,
  a rejection lists a denial for exactly the refused refs, and a push that a role may make under
  some rules may also be made by a higher role and under fewer rules.
\<close>

theorem evaluate_push_atomic_monotone:
  assumes "permission_level role \<le> permission_level role'" and "set rules' \<subseteq> set rules"
  shows "(evaluate_push us role rules = Inr () \<longleftrightarrow> (\<forall>u\<in>set us. evaluate_ref_update u role rules = Inr ())) \<and>
    (\<forall>ds. evaluate_push us role rules = Inl ds \<longrightarrow>
       set (map d_ref_name ds) = u_ref_name ` {u\<in>set us. evaluate_ref_update u role rules \<noteq> Inr ()}) \<and>
    (evaluate_push us role rules = Inr () \<longrightarrow> evaluate_push us role' rules' = Inr ())"
proof -
  have denied: "d_ref_name d = u_ref_name u" if "evaluate_ref_update u role rules = Inl d" for u d
    using that by (auto simp: evaluate_ref_update_def Let_def split: if_splits option.splits)
  have accept: "evaluate_push us r rs = Inr () \<longleftrightarrow> (\<forall>u\<in>set us. evaluate_ref_update u r rs = Inr ())" for r rs
  proof -
    have "x \<noteq> Inr () \<longleftrightarrow> (\<exists>d. x = Inl d)" for x :: "denial + unit" by (cases x) auto
    then show ?thesis
      by (auto simp: evaluate_push_def Let_def map_filter_def filter_empty_conv split: sum.splits)
  qed
  have "set (map d_ref_name ds) = u_ref_name ` {u\<in>set us. evaluate_ref_update u role rules \<noteq> Inr ()}"
    if "evaluate_push us role rules = Inl ds" for ds
  proof -
    from that have ds: "ds = List.map_filter
        (\<lambda>u. case evaluate_ref_update u role rules of Inl d \<Rightarrow> Some d | Inr _ \<Rightarrow> None) us"
      by (auto simp: evaluate_push_def Let_def split: if_splits)
    have "d \<in> set ds \<longleftrightarrow> (\<exists>u\<in>set us. evaluate_ref_update u role rules = Inl d)" for d
      unfolding ds map_filter_def by (force split: sum.splits)
    then have "set ds = {d. \<exists>u\<in>set us. evaluate_ref_update u role rules = Inl d}" by blast
    moreover have "evaluate_ref_update u role rules \<noteq> Inr () \<longleftrightarrow> (\<exists>d. evaluate_ref_update u role rules = Inl d)" for u
      by (cases "evaluate_ref_update u role rules") auto
    ultimately show ?thesis using denied by (simp add: set_eq_iff image_iff) metis
  qed
  moreover have "rule_permits role' k rule" if "rule_permits role k rule" for k rule
    using that assms(1) by (auto simp: rule_permits_def has_at_least_def split: option.splits)
  then have "evaluate_push us role rules = Inr () \<longrightarrow> evaluate_push us role' rules' = Inr ()"
    unfolding accept update_allowed_iff using assms by (auto simp: has_at_least_def)
  ultimately show ?thesis using accept by blast
qed

text \<open>
  The pattern parser accepts exactly the grammar: at most 256 bytes, starting with
  \<open>refs/\<close>, each part a wildcard or a nonempty literal over the allowed characters, the recursive
  wildcard only at the end, at most three wildcards.
\<close>

theorem pattern_parse_exact:
  "pattern_parse s = Inr p \<longleftrightarrow>
     length s \<le> 256 \<and> starts_with ''refs/'' s \<and> parts_ok (split_on (CHR ''/'') s) \<and>
     length (filter wildcard_part (split_on (CHR ''/'') s)) \<le> 3 \<and>
     p = \<lparr>raw = s, segments = map part_segment (split_on (CHR ''/'') s)\<rparr>"
proof -
  let ?parts = "split_on (CHR ''/'') s"
  have "s \<noteq> []" if "starts_with ''refs/'' s" using that by (auto simp: starts_with_def)
  then show ?thesis
    using parse_parts_iff [of 0 ?parts "length ?parts" 0 "[]"]
    by (auto simp: pattern_parse_def Let_def and_then_eq_Inr MAX_PATTERN_LENGTH_def MAX_WILDCARDS_PER_PATTERN_def
        split: if_splits)
qed

text \<open>
  A parsed pattern matches a ref exactly when the ref's segments are in the pattern's
  meaning, and a pattern without wildcards matches only itself.
\<close>

theorem pattern_matches_exact:
  assumes "pattern_parse s = Inr p"
  shows "(pattern_matches p r \<longleftrightarrow> denotes (segments p) (split_on (CHR ''/'') r)) \<and>
    (filter wildcard_part (split_on (CHR ''/'') s) = [] \<longrightarrow> (pattern_matches p r \<longleftrightarrow> r = s))"
proof -
  let ?parts = "split_on (CHR ''/'') s"
  note p = parse_segments [OF assms]
  have "r = s" if "pattern_matches p r" and "filter wildcard_part ?parts = []"
  proof -
    have "segments p = map Literal ?parts"
      unfolding p(1) using that(2) by (auto simp: filter_empty_conv part_segment_def wildcard_part_def)
    with that(1) have "split_on (CHR ''/'') r = ?parts"
      unfolding matches_denotes [OF p(2)] by (simp add: denotes_literals)
    then show ?thesis by (metis join_split_on)
  qed
  moreover have "pattern_matches p s" if "filter wildcard_part ?parts = []"
  proof -
    have "segments p = map Literal ?parts"
      unfolding p(1) using that by (auto simp: filter_empty_conv part_segment_def wildcard_part_def)
    then show ?thesis unfolding matches_denotes [OF p(2)] by (simp add: denotes_literals)
  qed
  ultimately show ?thesis using matches_denotes [OF p(2)] by blast
qed

subsection \<open>Protection tags\<close>

definition known_rule :: "string \<Rightarrow> bool" where
  "known_rule s \<longleftrightarrow> starts_with ''push:'' s \<or> s \<in> {''no-force-push'', ''no-delete'', ''require-patch''}"

text \<open>What a rule under construction has recorded of the strings read so far.\<close>

definition records :: "string list \<Rightarrow> protection_rule \<times> string list \<Rightarrow> bool" where
  "records ss = (\<lambda>(rule, unknown).
     (pr_no_force_push rule \<longleftrightarrow> ''no-force-push'' \<in> set ss) \<and> (pr_no_delete rule \<longleftrightarrow> ''no-delete'' \<in> set ss) \<and>
     (pr_require_patch rule \<longleftrightarrow> ''require-patch'' \<in> set ss) \<and>
     unknown = filter (\<lambda>s. \<not> known_rule s) ss \<and>
     (\<forall>role. (case pr_push_role rule of None \<Rightarrow> True | Some r \<Rightarrow> has_at_least role r) \<longleftrightarrow>
        (\<forall>r. ''push:'' @ member_role_as_str r \<in> set ss \<longrightarrow> has_at_least role r)) \<and>
     pr_push_role rule \<notin> {Some BotRole, Some GuestRole})"

lemma role_strings: "member_role_from_str s = Inr r \<longleftrightarrow> s = member_role_as_str r"
  by (cases r) (auto simp: member_role_from_str_def)

lemma member_role_as_str_inj: "member_role_as_str r = member_role_as_str r' \<longleftrightarrow> r = r'"
  using role_strings [of "member_role_as_str r" r] role_strings [of "member_role_as_str r" r'] by force

lemma parse_rule_str_push:
  assumes "parse_rule_str (''push:'' @ s) (rule, u) = Inr st"
  obtains r where "s = member_role_as_str r" "r \<notin> {BotRole, GuestRole}"
    "st = (rule\<lparr>pr_push_role := stricter (pr_push_role rule) r\<rparr>, u)"
  using assms strip_prefix_append [of "''push:''" s]
  by (auto simp: parse_rule_str_def role_strings split: sum.splits if_splits)

lemma parse_rule_str_other:
  assumes "\<not> starts_with ''push:'' s" and "parse_rule_str s (rule, u) = Inr st"
  shows "st = (if s = ''no-force-push'' then (rule\<lparr>pr_no_force_push := True\<rparr>, u)
     else if s = ''no-delete'' then (rule\<lparr>pr_no_delete := True\<rparr>, u)
     else if s = ''require-patch'' then (rule\<lparr>pr_require_patch := True\<rparr>, u)
     else (rule, u @ [s]))"
  using assms by (auto simp: parse_rule_str_def strip_prefix_def split: if_splits)

lemma parse_rule_str_records:
  assumes "records ss (rule, u)" and "parse_rule_str s (rule, u) = Inr st"
  shows "records (ss @ [s]) st"
proof (cases "starts_with ''push:'' s")
  case True
  then obtain t where s: "s = ''push:'' @ t"
    using strip_prefix_Some [of "''push:''" s] by (auto simp: strip_prefix_def)
  obtain r where r: "t = member_role_as_str r" "r \<notin> {BotRole, GuestRole}"
      "st = (rule\<lparr>pr_push_role := stricter (pr_push_role rule) r\<rparr>, u)"
    using parse_rule_str_push [of t rule u st] assms(2) s by blast
  have "s \<noteq> ''no-force-push'' \<and> s \<noteq> ''no-delete'' \<and> s \<noteq> ''require-patch''" using True by (auto simp: starts_with_def)
  moreover have "stricter (pr_push_role rule) r \<notin> {Some BotRole, Some GuestRole}"
    using assms(1) r(2) by (auto simp: records_def stricter_def split: option.splits if_splits)
  ultimately show ?thesis
    using assms(1) True unfolding r(3) s r(1)
    by (auto simp: records_def known_rule_def stricter_at_least member_role_as_str_inj)
next
  case False
  have st: "st = (if s = ''no-force-push'' then (rule\<lparr>pr_no_force_push := True\<rparr>, u)
     else if s = ''no-delete'' then (rule\<lparr>pr_no_delete := True\<rparr>, u)
     else if s = ''require-patch'' then (rule\<lparr>pr_require_patch := True\<rparr>, u)
     else (rule, u @ [s]))"
    by (rule parse_rule_str_other [OF False assms(2)])
  have neq: "''push:'' @ x \<noteq> s" for x using False by (auto simp: starts_with_def)
  show ?thesis using assms(1) False neq
    unfolding st records_def by (auto simp: known_rule_def)
qed

lemma parse_rule_strs_record:
  "records ss st \<Longrightarrow> try_fold parse_rule_str rest st = Inr st' \<Longrightarrow> records (ss @ rest) st'"
proof (induction rest arbitrary: ss st)
  case (Cons s rest)
  from Cons.prems(2) obtain st1 where st1: "parse_rule_str s st = Inr st1" "try_fold parse_rule_str rest st1 = Inr st'"
    by (auto simp: and_then_eq_Inr)
  have "records (ss @ [s]) st1" using parse_rule_str_records Cons.prems(1) st1(1) by (cases st) blast
  from Cons.IH [OF this st1(2)] show ?case by simp
qed simp

lemma parse_rule_str_pattern: "parse_rule_str s st = Inr st' \<Longrightarrow> pr_pattern (fst st') = pr_pattern (fst st)"
  by (cases st) (auto simp: parse_rule_str_def split: option.splits sum.splits if_splits)

text \<open>
  What a protection tag means: a parsed tag records exactly the flags among its rule strings,
  a pusher satisfies its role bound exactly when the role meets every \<open>push:\<close> string of the tag,
  the bound is never the bot or guest role, and the strings it does not know are reported in order.
\<close>

theorem protection_tag_exact:
  assumes "parse_protection_tag_with_warnings (pattern # rules) = Inr (rule, unknown)"
  shows "pattern_parse pattern = Inr (pr_pattern rule) \<and>
    (pr_no_force_push rule \<longleftrightarrow> ''no-force-push'' \<in> set rules) \<and> (pr_no_delete rule \<longleftrightarrow> ''no-delete'' \<in> set rules) \<and>
    (pr_require_patch rule \<longleftrightarrow> ''require-patch'' \<in> set rules) \<and> unknown = filter (\<lambda>s. \<not> known_rule s) rules \<and>
    ((case pr_push_role rule of None \<Rightarrow> True | Some r \<Rightarrow> has_at_least role r) \<longleftrightarrow>
       (\<forall>r. ''push:'' @ member_role_as_str r \<in> set rules \<longrightarrow> has_at_least role r)) \<and>
    pr_push_role rule \<notin> {Some BotRole, Some GuestRole}"
proof -
  from assms obtain p where p: "pattern_parse pattern = Inr p"
    and run: "try_fold parse_rule_str rules
      (\<lparr>pr_pattern = p, pr_push_role = None, pr_no_force_push = False, pr_no_delete = False,
        pr_require_patch = False\<rparr>, []) = Inr (rule, unknown)"
    by (auto simp: parse_protection_tag_with_warnings_def split: list.splits sum.splits)
  have "records ([] @ rules) (rule, unknown)"
    by (rule parse_rule_strs_record [OF _ run]) (simp add: records_def)
  moreover have "pr_pattern (fst (rule, unknown)) = p"
    by (rule try_fold_invariant [OF run, where P = "\<lambda>st. pr_pattern (fst st) = p"])
      (use parse_rule_str_pattern in auto)
  ultimately show ?thesis using p by (simp add: records_def)
qed

subsection \<open>A protected branch\<close>

definition demo_ref_pattern :: ref_pattern where
  "demo_ref_pattern = \<lparr>raw = ''refs/heads/**'', segments = [Literal ''refs'', Literal ''heads'', RecursiveWildcard]\<rparr>"

definition demo_protection :: protection_rule where
  "demo_protection = \<lparr>pr_pattern = demo_ref_pattern, pr_push_role = Some AdminRole, pr_no_force_push = True,
     pr_no_delete = False, pr_require_patch = False\<rparr>"

definition demo_update :: ref_update where
  "demo_update = \<lparr>u_ref_name = ''refs/heads/a/b'', u_kind = FastForward, u_old_oid = ''1'', u_new_oid = ''2''\<rparr>"

lemma demo_pattern_parses: "pattern_parse ''refs/heads/**'' = Inr demo_ref_pattern"
  by (simp add: pattern_parse_def demo_ref_pattern_def starts_with_def MAX_PATTERN_LENGTH_def
      MAX_WILDCARDS_PER_PATTERN_def literal_char_def ascii_defs)

lemma demo_tag_parses:
  "parse_protection_tag_with_warnings [''refs/heads/**'', ''push:admin'', ''later'', ''no-force-push''] =
     Inr (demo_protection, [''later''])"
  by (simp add: parse_protection_tag_with_warnings_def demo_pattern_parses parse_rule_str_def strip_prefix_def
      starts_with_def member_role_from_str_def stricter_def demo_protection_def)

theorem evaluate_ref_update_exact_witness:
  "evaluate_ref_update demo_update OwnerRole [demo_protection] = Inr () \<and>
   evaluate_ref_update demo_update MemberRole [demo_protection] \<noteq> Inr ()"
  by (simp add: evaluate_ref_update_exact)
    (simp add: demo_update_def demo_protection_def demo_ref_pattern_def default_min_role_def
      has_at_least_def starts_with_def pattern_matches_def)

theorem evaluate_push_atomic_monotone_witness:
  "evaluate_push [demo_update] OwnerRole [] = Inr ()"
  using evaluate_push_atomic_monotone [of AdminRole OwnerRole "[]" "[demo_protection]" "[demo_update]"]
  by (simp add: evaluate_push_def evaluate_ref_update_def for_ref_def union_rule_def demo_update_def
      demo_protection_def demo_ref_pattern_def default_min_role_def has_at_least_def starts_with_def
      pattern_matches_def stricter_def map_filter_simps)

theorem pattern_parse_exact_witness:
  "parts_ok (split_on (CHR ''/'') ''refs/heads/**'')"
  using pattern_parse_exact [of "''refs/heads/**''" demo_ref_pattern] demo_pattern_parses by blast

theorem pattern_matches_exact_witness:
  "pattern_matches demo_ref_pattern ''refs/heads/a/b'' \<and> \<not> pattern_matches demo_ref_pattern ''refs/heads''"
  using pattern_matches_exact [OF demo_pattern_parses] by (simp add: demo_ref_pattern_def)

theorem protection_tag_exact_witness:
  "[''later''] = filter (\<lambda>s. \<not> known_rule s) [''push:admin'', ''later'', ''no-force-push'']"
  using protection_tag_exact [OF demo_tag_parses] by blast

end
