(* ===== verification/Nostr_Filter.thy ===== *)
theory Nostr_Filter
  imports Prelude
begin

section \<open>Events and filters (\<open>crates/buzz-core/src/filter.rs\<close>, \<open>event.rs\<close>)\<close>

text \<open>
  Event and filter types belong to the \<open>nostr\<close> package; the records below hold the fields the
  code reads: identifiers and keys in their hexadecimal form, a tag as the string of its kind and
  its content, the generic tag map as an association list from the letter of a tag to the values
  in order. The textual form of a channel identifier is the \<open>uuid\<close> package's, the parameter
  \<open>show_uuid\<close>.
\<close>

type_synonym kind = nat
type_synonym tag = "string \<times> string option"

record nostr_event =
  e_id :: string
  e_pubkey :: string
  e_created_at :: nat
  e_kind :: kind
  e_tags :: "tag list"

record stored_event =
  se_event :: nostr_event
  se_received_at :: int
  se_channel_id :: "uuid option"
  se_verified :: bool

record nostr_filter =
  f_ids :: "string list option"
  f_authors :: "string list option"
  f_kinds :: "kind list option"
  f_since :: "nat option"
  f_until :: "nat option"
  f_generic_tags :: "(string \<times> string list) list"

definition stored_event_new :: "int \<Rightarrow> nostr_event \<Rightarrow> uuid option \<Rightarrow> stored_event" where
  "stored_event_new now event channel_id =
     \<lparr>se_event = event, se_received_at = now, se_channel_id = channel_id, se_verified = False\<rparr>"

definition stored_event_with_received_at :: "nostr_event \<Rightarrow> int \<Rightarrow> uuid option \<Rightarrow> bool \<Rightarrow> stored_event" where
  "stored_event_with_received_at event received_at channel_id verified =
     \<lparr>se_event = event, se_received_at = received_at, se_channel_id = channel_id, se_verified = verified\<rparr>"

definition KIND_DM_VISIBILITY :: kind where "KIND_DM_VISIBILITY = 30622"
definition KIND_AGENT_TURN_METRIC :: kind where "KIND_AGENT_TURN_METRIC = 44200"

definition reader_authorized_for_event :: "nostr_event \<Rightarrow> string \<Rightarrow> bool" where
  "reader_authorized_for_event event reader_pubkey_hex =
     (if e_kind event \<noteq> KIND_DM_VISIBILITY \<and> e_kind event \<noteq> KIND_AGENT_TURN_METRIC then True
      else \<exists>t\<in>set (e_tags event). fst t = ''p'' \<and> snd t = Some reader_pubkey_hex)"

text \<open>The values an event carries under a tag key.\<close>

definition tag_values :: "nostr_event \<Rightarrow> string \<Rightarrow> string list" where
  "tag_values ev key = List.map_filter (\<lambda>t. if fst t = key then snd t else None) (e_tags ev)"

definition tag_match :: "(uuid \<Rightarrow> string) \<Rightarrow> stored_event \<Rightarrow> string \<times> string list \<Rightarrow> bool" where
  "tag_match show_uuid ev kv =
     (let key = fst kv; values = snd kv;
          has_match = (\<exists>v\<in>set values. v \<in> set (tag_values (se_event ev) key))
      in if \<not> has_match \<and> key = ''h'' then
           if \<not> (\<exists>t\<in>set (e_tags (se_event ev)). fst t = ''h'') then
             (case se_channel_id ev of
                Some ch_id \<Rightarrow> show_uuid ch_id \<in> set values
              | None \<Rightarrow> False)
           else False
         else if \<not> has_match then False
         else True)"

definition filter_match_one :: "(uuid \<Rightarrow> string) \<Rightarrow> nostr_filter \<Rightarrow> stored_event \<Rightarrow> bool" where
  "filter_match_one show_uuid f ev =
     (if (case f_kinds f of None \<Rightarrow> False | Some kinds \<Rightarrow> e_kind (se_event ev) \<notin> set kinds) then False
      else if (case f_authors f of None \<Rightarrow> False | Some authors \<Rightarrow> e_pubkey (se_event ev) \<notin> set authors) then False
      else if (case f_since f of None \<Rightarrow> False | Some since \<Rightarrow> e_created_at (se_event ev) < since) then False
      else if (case f_until f of None \<Rightarrow> False | Some until \<Rightarrow> e_created_at (se_event ev) > until) then False
      else if (case f_ids f of None \<Rightarrow> False
               | Some ids \<Rightarrow> \<not> (\<exists>i\<in>set ids. starts_with i (e_id (se_event ev)))) then False
      else list_all (tag_match show_uuid ev) (f_generic_tags f))"

definition filters_match :: "(uuid \<Rightarrow> string) \<Rightarrow> nostr_filter list \<Rightarrow> stored_event \<Rightarrow> bool" where
  "filters_match show_uuid filters ev \<longleftrightarrow> (\<exists>f\<in>set filters. filter_match_one show_uuid f ev)"

subsection \<open>Facts the registry rests on\<close>

lemma match_kind:
  "filter_match_one show_uuid f ev \<Longrightarrow> f_kinds f = Some kinds \<Longrightarrow> e_kind (se_event ev) \<in> set kinds"
  by (auto simp: filter_match_one_def split: if_splits)

lemma match_tag:
  assumes "filter_match_one show_uuid f ev" and "map_of (f_generic_tags f) key = Some values" and "key \<noteq> ''h''"
  shows "\<exists>v\<in>set values. v \<in> set (tag_values (se_event ev) key)"
proof -
  have "(key, values) \<in> set (f_generic_tags f)" using assms(2) by (rule map_of_SomeD)
  with assms(1) have "tag_match show_uuid ev (key, values)"
    by (auto simp: filter_match_one_def list_all_iff split: if_splits)
  with assms(3) show ?thesis by (auto simp: tag_match_def Let_def split: if_splits)
qed

lemma in_map_filter: "v \<in> set (List.map_filter g xs) \<longleftrightarrow> (\<exists>x\<in>set xs. g x = Some v)"
  by (induction xs) (auto simp: map_filter_simps split: option.splits)

lemma set_tag_values: "v \<in> set (tag_values ev key) \<longleftrightarrow> (key, Some v) \<in> set (e_tags ev)"
  unfolding tag_values_def in_map_filter by (auto split: if_splits) (metis fst_conv snd_conv)

text \<open>
  Channel filters are strict: an event that carries \<open>h\<close> tags matches a channel filter only
  through one of them, whatever channel it is stored under; an event without \<open>h\<close> tags matches
  exactly by the channel it is stored under.
\<close>

theorem channel_filter_exact:
  assumes "f_generic_tags f = [(''h'', values)]" "f_kinds f = None" "f_authors f = None"
    "f_since f = None" "f_until f = None" "f_ids f = None"
  shows "filter_match_one show_uuid f ev \<longleftrightarrow>
    (if \<exists>c. (''h'', c) \<in> set (e_tags (se_event ev))
     then \<exists>v\<in>set values. (''h'', Some v) \<in> set (e_tags (se_event ev))
     else \<exists>ch. se_channel_id ev = Some ch \<and> show_uuid ch \<in> set values)"
  using assms
  by (auto simp: filter_match_one_def tag_match_def Let_def set_tag_values split: option.splits)

definition demo_event :: stored_event where
  "demo_event = \<lparr>se_event = \<lparr>e_id = ''ab'', e_pubkey = ''cd'', e_created_at = 10, e_kind = 7, e_tags = [(''p'', Some ''x'')]\<rparr>,
     se_received_at = 0, se_channel_id = Some 1, se_verified = True\<rparr>"

definition any_filter :: nostr_filter where
  "any_filter = \<lparr>f_ids = None, f_authors = None, f_kinds = None, f_since = None, f_until = None, f_generic_tags = []\<rparr>"

theorem channel_filter_exact_witness:
  "filter_match_one (\<lambda>u. ''c'') (any_filter\<lparr>f_generic_tags := [(''h'', [''c''])]\<rparr>) demo_event"
  using channel_filter_exact [of "any_filter\<lparr>f_generic_tags := [(''h'', [''c''])]\<rparr>" "[''c'']" "\<lambda>u. ''c''" demo_event]
  by (simp add: any_filter_def demo_event_def)

end
