(* ===== verification/Subscription.thy ===== *)
theory Subscription
  imports Nostr_Filter
begin

section \<open>The subscription registry (\<open>crates/buzz-relay/src/subscription.rs\<close>)\<close>

text \<open>
  The registry of live subscriptions and the five indexes that find the candidates of an event
  without scanning every subscription. A \<open>DashMap\<close> is an association list, an index a map from
  a key to the list of its subscriptions. The operations are modelled one at a time, as each
  runs under the locks of the maps it touches; the snapshot of candidates that \<open>fan_out_scoped\<close>
  takes may be stale when it is checked, and \<open>push_matches_at\<close> lets every check see another
  registry. Metrics are not modelled.
\<close>

type_synonym conn_id = uuid
type_synonym sub_id = string
type_synonym community_id = uuid
type_synonym sub_entry = "nostr_filter list \<times> community_id \<times> uuid option"
type_synonym subscriber = "conn_id \<times> sub_id"

datatype index_key = IndexKey (ik_channel_id: uuid) (ik_kind: kind)

datatype global_p_kind_index_key =
  GlobalPKindIndexKey (gp_community_id: community_id) (gp_kind: kind) (gp_p: string)

record removed_subscription =
  rs_community_id :: community_id
  rs_channel_id :: "uuid option"

type_synonym 'k postings = "('k \<times> subscriber list) list"

record subscription_registry =
  subs :: "(conn_id \<times> (sub_id \<times> sub_entry) list) list"
  channel_kind_index :: "(community_id \<times> index_key) postings"
  channel_wildcard_index :: "(community_id \<times> uuid) postings"
  global_kind_index :: "(community_id \<times> kind) postings"
  global_p_kind_index :: "global_p_kind_index_key postings"
  global_wildcard_index :: "community_id postings"

definition registry_new :: subscription_registry where
  "registry_new = \<lparr>subs = [], channel_kind_index = [], channel_wildcard_index = [], global_kind_index = [],
     global_p_kind_index = [], global_wildcard_index = []\<rparr>"

subsection \<open>Postings\<close>

definition entries_at :: "'k postings \<Rightarrow> 'k \<Rightarrow> subscriber list" where
  "entries_at m k = (case map_of m k of None \<Rightarrow> [] | Some es \<Rightarrow> es)"

text \<open>\<open>entry(key).or_default().push(e)\<close>\<close>

definition idx_push :: "subscriber \<Rightarrow> 'k \<Rightarrow> 'k postings \<Rightarrow> 'k postings" where
  "idx_push e k m = AList.update k (entries_at m k @ [e]) m"

text \<open>\<open>get_mut(key)\<close>, \<open>retain\<close> the others, and drop the entry when it is empty.\<close>

definition idx_retain :: "subscriber \<Rightarrow> 'k \<Rightarrow> 'k postings \<Rightarrow> 'k postings" where
  "idx_retain e k m =
     (case map_of m k of
        None \<Rightarrow> m
      | Some entries \<Rightarrow>
          let rest = filter (\<lambda>x. x \<noteq> e) entries in
          if rest = [] then AList.delete k m else AList.update k rest m)"

text \<open>
  What the registry relies on of an index: a push appends at its key, a removal filters at its
  key, and other keys are untouched.
\<close>

locale posting_index =
  fixes at :: "'m \<Rightarrow> 'k \<Rightarrow> 'e list"
    and push :: "'e \<Rightarrow> 'k \<Rightarrow> 'm \<Rightarrow> 'm"
    and retain :: "'e \<Rightarrow> 'k \<Rightarrow> 'm \<Rightarrow> 'm"
  assumes at_push: "at (push e k m) k' = (if k' = k then at m k @ [e] else at m k')"
    and at_retain: "at (retain e k m) k' = (if k' = k then filter (\<lambda>x. x \<noteq> e) (at m k) else at m k')"
begin

lemma in_fold_push:
  "x \<in> set (at (fold (push e) ks m) k) \<longleftrightarrow> x \<in> set (at m k) \<or> x = e \<and> k \<in> set ks"
  by (induction ks arbitrary: m) (auto simp: at_push)

lemma in_fold_retain:
  "x \<in> set (at (fold (retain e) ks m) k) \<longleftrightarrow> x \<in> set (at m k) \<and> \<not> (x = e \<and> k \<in> set ks)"
  by (induction ks arbitrary: m) (auto simp: at_retain)

end

interpretation idx: posting_index entries_at idx_push idx_retain
proof
  fix m :: "'k postings" and k k' and e :: subscriber
  show "entries_at (idx_push e k m) k' = (if k' = k then entries_at m k @ [e] else entries_at m k')"
    by (simp add: entries_at_def idx_push_def)
  show "entries_at (idx_retain e k m) k' = (if k' = k then filter (\<lambda>x. x \<noteq> e) (entries_at m k) else entries_at m k')"
    by (auto simp: entries_at_def idx_retain_def Let_def split: option.splits)
qed

subsection \<open>Which keys a subscription is indexed under\<close>

definition push_new :: "'a \<Rightarrow> 'a list \<Rightarrow> 'a list" where
  "push_new k ks = (if k \<in> set ks then ks else ks @ [k])"

fun extract_kinds_loop :: "nostr_filter list \<Rightarrow> kind list \<Rightarrow> kind list option" where
  "extract_kinds_loop [] kinds = Some kinds"
| "extract_kinds_loop (f # fs) kinds =
     (case f_kinds f of
        Some filter_kinds \<Rightarrow> extract_kinds_loop fs (fold push_new filter_kinds kinds)
      | None \<Rightarrow> None)"

definition extract_kinds_from_filters :: "nostr_filter list \<Rightarrow> kind list option" where
  "extract_kinds_from_filters filters = extract_kinds_loop filters []"

fun extract_p_loop ::
  "community_id \<Rightarrow> nostr_filter list \<Rightarrow> global_p_kind_index_key list \<Rightarrow> global_p_kind_index_key list option" where
  "extract_p_loop community_id [] keys = Some keys"
| "extract_p_loop community_id (f # fs) keys =
     (case f_kinds f of
        None \<Rightarrow> None
      | Some kinds \<Rightarrow>
          if kinds = [] then extract_p_loop community_id fs keys
          else (case map_of (f_generic_tags f) ''p'' of
             None \<Rightarrow> None
           | Some p_values \<Rightarrow>
               if p_values = [] then None
               else extract_p_loop community_id fs
                 (fold push_new (concat (map (\<lambda>k. map (GlobalPKindIndexKey community_id k) p_values) kinds)) keys)))"

definition extract_global_p_kind_index_keys ::
  "community_id \<Rightarrow> nostr_filter list \<Rightarrow> global_p_kind_index_key list option" where
  "extract_global_p_kind_index_keys community_id filters = extract_p_loop community_id filters []"

definition event_p_tag_values :: "stored_event \<Rightarrow> string list" where
  "event_p_tag_values event = fold push_new (tag_values (se_event event) ''p'') []"

subsection \<open>Operations\<close>

definition insert_in_index ::
  "subscriber \<Rightarrow> nostr_filter list \<Rightarrow> community_id \<Rightarrow> uuid option \<Rightarrow> subscription_registry \<Rightarrow> subscription_registry" where
  "insert_in_index e filters community_id channel_id reg =
     (case channel_id of
        Some ch_id \<Rightarrow>
          (case extract_kinds_from_filters filters of
             None \<Rightarrow> reg\<lparr>channel_wildcard_index := idx_push e (community_id, ch_id) (channel_wildcard_index reg)\<rparr>
           | Some kinds \<Rightarrow> reg\<lparr>channel_kind_index :=
               fold (idx_push e) (map (\<lambda>kind. (community_id, IndexKey ch_id kind)) kinds) (channel_kind_index reg)\<rparr>)
      | None \<Rightarrow>
          (case extract_global_p_kind_index_keys community_id filters of
             Some keys \<Rightarrow> reg\<lparr>global_p_kind_index := fold (idx_push e) keys (global_p_kind_index reg)\<rparr>
           | None \<Rightarrow>
               (case extract_kinds_from_filters filters of
                  None \<Rightarrow> reg\<lparr>global_wildcard_index := idx_push e community_id (global_wildcard_index reg)\<rparr>
                | Some kinds \<Rightarrow> reg\<lparr>global_kind_index :=
                    fold (idx_push e) (map (Pair community_id) kinds) (global_kind_index reg)\<rparr>)))"

definition remove_from_index ::
  "subscriber \<Rightarrow> nostr_filter list \<Rightarrow> community_id \<Rightarrow> uuid option \<Rightarrow> subscription_registry \<Rightarrow> subscription_registry" where
  "remove_from_index e filters community_id channel_id reg =
     (case channel_id of
        Some ch_id \<Rightarrow>
          (case extract_kinds_from_filters filters of
             None \<Rightarrow> reg\<lparr>channel_wildcard_index := idx_retain e (community_id, ch_id) (channel_wildcard_index reg)\<rparr>
           | Some kinds \<Rightarrow> reg\<lparr>channel_kind_index :=
               fold (idx_retain e) (map (\<lambda>kind. (community_id, IndexKey ch_id kind)) kinds) (channel_kind_index reg)\<rparr>)
      | None \<Rightarrow>
          (case extract_global_p_kind_index_keys community_id filters of
             Some keys \<Rightarrow> reg\<lparr>global_p_kind_index := fold (idx_retain e) keys (global_p_kind_index reg)\<rparr>
           | None \<Rightarrow>
               (case extract_kinds_from_filters filters of
                  None \<Rightarrow> reg\<lparr>global_wildcard_index := idx_retain e community_id (global_wildcard_index reg)\<rparr>
                | Some kinds \<Rightarrow> reg\<lparr>global_kind_index :=
                    fold (idx_retain e) (map (Pair community_id) kinds) (global_kind_index reg)\<rparr>)))"

definition remove_subscription ::
  "conn_id \<Rightarrow> sub_id \<Rightarrow> subscription_registry \<Rightarrow> subscription_registry \<times> removed_subscription option" where
  "remove_subscription conn sub reg =
     (case map_of (subs reg) conn of
        None \<Rightarrow> (reg, None)
      | Some conn_subs \<Rightarrow>
          (case map_of conn_subs sub of
             None \<Rightarrow> (reg, None)
           | Some (filters, community_id, channel_id) \<Rightarrow>
               (remove_from_index (conn, sub) filters community_id channel_id
                  (reg\<lparr>subs := AList.update conn (AList.delete sub conn_subs) (subs reg)\<rparr>),
                Some \<lparr>rs_community_id = community_id, rs_channel_id = channel_id\<rparr>)))"

definition register_scoped ::
  "community_id \<Rightarrow> conn_id \<Rightarrow> sub_id \<Rightarrow> nostr_filter list \<Rightarrow> uuid option \<Rightarrow> subscription_registry \<Rightarrow>
   subscription_registry \<times> removed_subscription option" where
  "register_scoped community_id conn sub filters channel_id reg =
     (let (reg1, removed) = remove_subscription conn sub reg;
          conn_subs = (case map_of (subs reg1) conn of None \<Rightarrow> [] | Some m \<Rightarrow> m);
          reg2 = reg1\<lparr>subs := AList.update conn (AList.update sub (filters, community_id, channel_id) conn_subs) (subs reg1)\<rparr>
      in (insert_in_index (conn, sub) filters community_id channel_id reg2, removed))"

definition remove_connection ::
  "conn_id \<Rightarrow> subscription_registry \<Rightarrow> subscription_registry \<times> removed_subscription list" where
  "remove_connection conn reg =
     (case map_of (subs reg) conn of
        None \<Rightarrow> (reg, [])
      | Some conn_subs \<Rightarrow>
          (fold (\<lambda>(sub, filters, community_id, channel_id).
               remove_from_index (conn, sub) filters community_id channel_id) conn_subs
             (reg\<lparr>subs := AList.delete conn (subs reg)\<rparr>),
           map (\<lambda>(sub, filters, community_id, channel_id).
               \<lparr>rs_community_id = community_id, rs_channel_id = channel_id\<rparr>) conn_subs))"

fun remove_each ::
  "conn_id \<Rightarrow> sub_id list \<Rightarrow> subscription_registry \<Rightarrow> subscription_registry \<times> (sub_id \<times> removed_subscription) list" where
  "remove_each conn [] reg = (reg, [])"
| "remove_each conn (sub # rest) reg =
     (let (reg1, removed) = remove_subscription conn sub reg;
          (reg2, out) = remove_each conn rest reg1
      in (reg2, case removed of None \<Rightarrow> out | Some r \<Rightarrow> (sub, r) # out))"

definition remove_channel_subscriptions_scoped ::
  "community_id \<Rightarrow> conn_id \<Rightarrow> uuid \<Rightarrow> subscription_registry \<Rightarrow>
   subscription_registry \<times> (sub_id \<times> removed_subscription) list" where
  "remove_channel_subscriptions_scoped community_id conn channel_id reg =
     (let sub_ids = (case map_of (subs reg) conn of
            None \<Rightarrow> []
          | Some conn_subs \<Rightarrow>
              map fst (filter (\<lambda>(sub, filters, sub_community_id, sub_channel_id).
                sub_community_id = community_id \<and> sub_channel_id = Some channel_id) conn_subs))
      in remove_each conn sub_ids reg)"

definition channel_subscriber_conns_scoped :: "community_id \<Rightarrow> uuid \<Rightarrow> subscription_registry \<Rightarrow> conn_id set" where
  "channel_subscriber_conns_scoped community_id channel_id reg =
     set (concat (map (\<lambda>(k, es). if fst k = community_id \<and> ik_channel_id (snd k) = channel_id then map fst es else [])
       (channel_kind_index reg))) \<union>
     set (map fst (entries_at (channel_wildcard_index reg) (community_id, channel_id)))"

definition get_filters :: "subscription_registry \<Rightarrow> conn_id \<Rightarrow> sub_id \<Rightarrow> nostr_filter list option" where
  "get_filters reg conn sub =
     Option.bind (map_of (subs reg) conn) (\<lambda>conn_subs. map_option fst (map_of conn_subs sub))"

definition total_subscriptions :: "subscription_registry \<Rightarrow> nat" where
  "total_subscriptions reg = sum_list (map (\<lambda>e. length (snd e)) (subs reg))"

definition total_connections :: "subscription_registry \<Rightarrow> nat" where
  "total_connections reg = length (subs reg)"

definition count_entry :: "sub_entry \<Rightarrow> (community_id \<times> nat) list \<Rightarrow> (community_id \<times> nat) list" where
  "count_entry entry counts =
     (let c = fst (snd entry) in
      AList.update c ((case map_of counts c of None \<Rightarrow> 0 | Some n \<Rightarrow> n) + 1) counts)"

definition per_community_subscriptions :: "subscription_registry \<Rightarrow> (community_id \<times> nat) list" where
  "per_community_subscriptions reg =
     fold (\<lambda>conn_entry. fold count_entry (map snd (snd conn_entry))) (subs reg) []"

text \<open>The check of one candidate, on the results so far (\<open>seen\<close> holds the same pairs).\<close>

definition push_match ::
  "(uuid \<Rightarrow> string) \<Rightarrow> subscription_registry \<Rightarrow> community_id \<Rightarrow> stored_event \<Rightarrow> subscriber \<Rightarrow> subscriber list \<Rightarrow> subscriber list" where
  "push_match show_uuid reg community_id event e results =
     (case map_of (subs reg) (fst e) of
        None \<Rightarrow> results
      | Some conn_subs \<Rightarrow>
          (case map_of conn_subs (snd e) of
             None \<Rightarrow> results
           | Some (filters, sub_community_id, sub_channel_id) \<Rightarrow>
               if sub_community_id = community_id \<and> sub_channel_id = se_channel_id event \<and>
                  filters_match show_uuid filters event
               then push_new e results else results))"

text \<open>The candidates of an event, in the order the indexes are read.\<close>

definition candidates :: "community_id \<Rightarrow> stored_event \<Rightarrow> subscription_registry \<Rightarrow> subscriber list" where
  "candidates community_id event reg =
     (case se_channel_id event of
        Some channel_id \<Rightarrow>
          entries_at (channel_kind_index reg) (community_id, IndexKey channel_id (e_kind (se_event event))) @
          entries_at (channel_wildcard_index reg) (community_id, channel_id)
      | None \<Rightarrow>
          concat (map (\<lambda>p. entries_at (global_p_kind_index reg)
              (GlobalPKindIndexKey community_id (e_kind (se_event event)) p)) (event_p_tag_values event)) @
          entries_at (global_kind_index reg) (community_id, e_kind (se_event event)) @
          entries_at (global_wildcard_index reg) community_id)"

definition fan_out_scoped ::
  "(uuid \<Rightarrow> string) \<Rightarrow> community_id \<Rightarrow> stored_event \<Rightarrow> subscription_registry \<Rightarrow> subscriber list" where
  "fan_out_scoped show_uuid community_id event reg =
     fold (push_match show_uuid reg community_id event) (candidates community_id event reg) []"

subsection \<open>The registry as a map\<close>

text \<open>
  The abstract registry is the map from a subscriber to its entry; an index entry is a posting,
  and each entry has the postings of its scope and filters.
\<close>

definition sub_of :: "subscription_registry \<Rightarrow> subscriber \<Rightarrow> sub_entry option" where
  "sub_of reg e = Option.bind (map_of (subs reg) (fst e)) (\<lambda>m. map_of m (snd e))"

datatype posting =
    ChannelKind community_id uuid kind
  | ChannelWild community_id uuid
  | GlobalPKind global_p_kind_index_key
  | GlobalKind community_id kind
  | GlobalWild community_id

fun posted_at :: "subscription_registry \<Rightarrow> posting \<Rightarrow> subscriber list" where
  "posted_at reg (ChannelKind c ch k) = entries_at (channel_kind_index reg) (c, IndexKey ch k)"
| "posted_at reg (ChannelWild c ch) = entries_at (channel_wildcard_index reg) (c, ch)"
| "posted_at reg (GlobalPKind key) = entries_at (global_p_kind_index reg) key"
| "posted_at reg (GlobalKind c k) = entries_at (global_kind_index reg) (c, k)"
| "posted_at reg (GlobalWild c) = entries_at (global_wildcard_index reg) c"

fun entry_postings :: "sub_entry \<Rightarrow> posting list" where
  "entry_postings (fs, c, Some ch) =
     (case extract_kinds_from_filters fs of
        None \<Rightarrow> [ChannelWild c ch]
      | Some ks \<Rightarrow> map (ChannelKind c ch) ks)"
| "entry_postings (fs, c, None) =
     (case extract_global_p_kind_index_keys c fs of
        Some keys \<Rightarrow> map GlobalPKind keys
      | None \<Rightarrow> (case extract_kinds_from_filters fs of
          None \<Rightarrow> [GlobalWild c]
        | Some ks \<Rightarrow> map (GlobalKind c) ks))"

definition event_postings :: "community_id \<Rightarrow> stored_event \<Rightarrow> posting list" where
  "event_postings c ev =
     (case se_channel_id ev of
        Some ch \<Rightarrow> [ChannelKind c ch (e_kind (se_event ev)), ChannelWild c ch]
      | None \<Rightarrow> map (\<lambda>p. GlobalPKind (GlobalPKindIndexKey c (e_kind (se_event ev)) p)) (event_p_tag_values ev) @
          [GlobalKind c (e_kind (se_event ev)), GlobalWild c])"

lemma subs_index_ops [simp]:
  "subs (insert_in_index e fs c ch reg) = subs reg" "subs (remove_from_index e fs c ch reg) = subs reg"
  by (auto simp: insert_in_index_def remove_from_index_def split: option.splits)

lemma sub_of_index_ops [simp]:
  "sub_of (insert_in_index e fs c ch reg) = sub_of reg" "sub_of (remove_from_index e fs c ch reg) = sub_of reg"
  by (simp_all add: sub_of_def fun_eq_iff)

lemma posted_insert:
  "x \<in> set (posted_at (insert_in_index e fs c ch reg) k) \<longleftrightarrow>
     x \<in> set (posted_at reg k) \<or> x = e \<and> k \<in> set (entry_postings (fs, c, ch))"
  by (cases ch; cases k) (auto simp: insert_in_index_def idx.in_fold_push idx.at_push split: option.splits)

lemma posted_remove:
  "x \<in> set (posted_at (remove_from_index e fs c ch reg) k) \<longleftrightarrow>
     x \<in> set (posted_at reg k) \<and> \<not> (x = e \<and> k \<in> set (entry_postings (fs, c, ch)))"
  by (cases ch; cases k) (auto simp: remove_from_index_def idx.in_fold_retain idx.at_retain split: option.splits)

lemma posted_subs [simp]: "posted_at (reg\<lparr>subs := m\<rparr>) k = posted_at reg k"
  by (cases k) simp_all

subsubsection \<open>The invariant\<close>

definition indexed :: "subscription_registry \<Rightarrow> bool" where
  "indexed reg \<longleftrightarrow> (\<forall>e k. e \<in> set (posted_at reg k) \<longleftrightarrow>
     (\<exists>entry. sub_of reg e = Some entry \<and> k \<in> set (entry_postings entry)))"

definition maps_distinct :: "subscription_registry \<Rightarrow> bool" where
  "maps_distinct reg \<longleftrightarrow> distinct (map fst (subs reg)) \<and> (\<forall>(c, m)\<in>set (subs reg). distinct (map fst m))"

definition reg_inv :: "subscription_registry \<Rightarrow> bool" where
  "reg_inv reg \<longleftrightarrow> indexed reg \<and> maps_distinct reg"

lemma indexedD: "indexed reg \<Longrightarrow> e \<in> set (posted_at reg k) \<longleftrightarrow>
    (\<exists>entry. sub_of reg e = Some entry \<and> k \<in> set (entry_postings entry))"
  unfolding indexed_def by blast

lemma registry_new_inv: "reg_inv registry_new" "sub_of registry_new = Map.empty"
proof -
  have "posted_at registry_new k = []" for k by (cases k) (simp_all add: registry_new_def entries_at_def)
  then show "reg_inv registry_new" "sub_of registry_new = Map.empty"
    by (auto simp: reg_inv_def indexed_def maps_distinct_def sub_of_def registry_new_def fun_eq_iff)
qed

lemma in_alist_update: "x \<in> set (AList.update k v m) \<Longrightarrow> x = (k, v) \<or> x \<in> set m"
  by (induction m) (auto split: if_splits)

lemma maps_distinct_update:
  "maps_distinct reg \<Longrightarrow> distinct (map fst m) \<Longrightarrow> maps_distinct (reg\<lparr>subs := AList.update c m (subs reg)\<rparr>)"
  by (auto simp: maps_distinct_def distinct_update dest!: in_alist_update)

lemma maps_distinct_delete:
  "maps_distinct reg \<Longrightarrow> maps_distinct (reg\<lparr>subs := AList.delete c (subs reg)\<rparr>)"
  by (auto simp: maps_distinct_def AList.delete_eq distinct_map_filter)

lemma maps_distinct_index_ops [simp]:
  "maps_distinct (insert_in_index e fs c ch reg) = maps_distinct reg"
  "maps_distinct (remove_from_index e fs c ch reg) = maps_distinct reg"
  by (simp_all add: maps_distinct_def)

lemma conn_distinct: "maps_distinct reg \<Longrightarrow> map_of (subs reg) c = Some m \<Longrightarrow> distinct (map fst m)"
  by (auto simp: maps_distinct_def dest!: map_of_SomeD)

subsubsection \<open>Every operation refines its counterpart on the map\<close>

lemma remove_subscription_eq:
  "remove_subscription conn sub reg =
     (case sub_of reg (conn, sub) of
        None \<Rightarrow> (reg, None)
      | Some (fs, c, ch) \<Rightarrow>
          (remove_from_index (conn, sub) fs c ch
             (reg\<lparr>subs := AList.update conn (AList.delete sub (the (map_of (subs reg) conn))) (subs reg)\<rparr>),
           Some \<lparr>rs_community_id = c, rs_channel_id = ch\<rparr>))"
  by (auto simp: remove_subscription_def sub_of_def split: option.splits)

lemma sub_of_drop:
  "map_of (subs reg) conn = Some m \<Longrightarrow>
   sub_of (reg\<lparr>subs := AList.update conn (AList.delete sub m) (subs reg)\<rparr>) = (sub_of reg)((conn, sub) := None)"
  by (auto simp: sub_of_def fun_eq_iff)

lemma remove_subscription_refines:
  assumes "reg_inv reg"
  shows "reg_inv (fst (remove_subscription conn sub reg))"
    and "sub_of (fst (remove_subscription conn sub reg)) = (sub_of reg)((conn, sub) := None)"
    and "snd (remove_subscription conn sub reg) =
      map_option (\<lambda>(fs, c, ch). \<lparr>rs_community_id = c, rs_channel_id = ch\<rparr>) (sub_of reg (conn, sub))"
proof -
  have "reg_inv (fst (remove_subscription conn sub reg)) \<and>
    sub_of (fst (remove_subscription conn sub reg)) = (sub_of reg)((conn, sub) := None)"
  proof (cases "sub_of reg (conn, sub)")
    case None
    then show ?thesis using assms by (simp add: remove_subscription_eq fun_upd_idem)
  next
    case (Some entry)
    obtain fs c ch where entry: "entry = (fs, c, ch)" by (cases entry) auto
    obtain m where m: "map_of (subs reg) conn = Some m" using Some by (auto simp: sub_of_def split: Option.bind_splits)
    let ?r = "reg\<lparr>subs := AList.update conn (AList.delete sub m) (subs reg)\<rparr>"
    have eq: "fst (remove_subscription conn sub reg) = remove_from_index (conn, sub) fs c ch ?r"
      using Some m by (simp add: remove_subscription_eq entry)
    have look: "sub_of ?r = (sub_of reg)((conn, sub) := None)" by (rule sub_of_drop [OF m])
    have "indexed (remove_from_index (conn, sub) fs c ch ?r)"
      unfolding indexed_def posted_remove sub_of_index_ops look
      using assms Some entry by (auto simp: reg_inv_def indexedD)
    moreover have "maps_distinct ?r"
      using assms conn_distinct [OF _ m] by (intro maps_distinct_update) (auto simp: reg_inv_def distinct_delete)
    ultimately show ?thesis using look by (simp add: eq reg_inv_def)
  qed
  then show "reg_inv (fst (remove_subscription conn sub reg))"
    "sub_of (fst (remove_subscription conn sub reg)) = (sub_of reg)((conn, sub) := None)" by auto
  show "snd (remove_subscription conn sub reg) =
      map_option (\<lambda>(fs, c, ch). \<lparr>rs_community_id = c, rs_channel_id = ch\<rparr>) (sub_of reg (conn, sub))"
    by (auto simp: remove_subscription_eq split: option.splits)
qed

lemma register_scoped_refines:
  assumes "reg_inv reg"
  shows "reg_inv (fst (register_scoped c conn sub fs ch reg))"
    and "sub_of (fst (register_scoped c conn sub fs ch reg)) = (sub_of reg)((conn, sub) \<mapsto> (fs, c, ch))"
    and "snd (register_scoped c conn sub fs ch reg) = snd (remove_subscription conn sub reg)"
proof -
  define reg1 where "reg1 = fst (remove_subscription conn sub reg)"
  note r1 = remove_subscription_refines [OF assms, of conn sub, folded reg1_def]
  define m where "m = (case map_of (subs reg1) conn of None \<Rightarrow> [] | Some m \<Rightarrow> m)"
  let ?r = "reg1\<lparr>subs := AList.update conn (AList.update sub (fs, c, ch) m) (subs reg1)\<rparr>"
  have eq: "fst (register_scoped c conn sub fs ch reg) = insert_in_index (conn, sub) fs c ch ?r"
    by (simp add: register_scoped_def Let_def reg1_def m_def split_beta)
  have look: "sub_of ?r = (sub_of reg)((conn, sub) \<mapsto> (fs, c, ch))"
  proof
    fix e
    have "sub_of ?r e = (if e = (conn, sub) then Some (fs, c, ch) else sub_of reg1 e)"
      by (cases e) (auto simp: sub_of_def m_def split: option.splits)
    then show "sub_of ?r e = ((sub_of reg)((conn, sub) \<mapsto> (fs, c, ch))) e" using r1(2) by simp
  qed
  have "distinct (map fst m)"
    using r1(1) conn_distinct [of reg1 conn] by (auto simp: m_def reg_inv_def split: option.splits)
  then have "maps_distinct ?r" using r1(1) by (intro maps_distinct_update) (simp_all add: reg_inv_def distinct_update)
  moreover have "indexed (insert_in_index (conn, sub) fs c ch ?r)"
    unfolding indexed_def posted_insert sub_of_index_ops look
    using r1(1,2) by (auto simp: reg_inv_def indexedD)
  ultimately show "reg_inv (fst (register_scoped c conn sub fs ch reg))"
    "sub_of (fst (register_scoped c conn sub fs ch reg)) = (sub_of reg)((conn, sub) \<mapsto> (fs, c, ch))"
    using look by (simp_all add: eq reg_inv_def)
  show "snd (register_scoped c conn sub fs ch reg) = snd (remove_subscription conn sub reg)"
    by (simp add: register_scoped_def Let_def split_beta)
qed

lemma fold_remove_posted:
  "x \<in> set (posted_at (fold (\<lambda>(sub, fs, c, ch). remove_from_index (conn, sub) fs c ch) m reg) k) \<longleftrightarrow>
     x \<in> set (posted_at reg k) \<and> \<not> (\<exists>(sub, entry)\<in>set m. x = (conn, sub) \<and> k \<in> set (entry_postings entry))"
  by (induction m arbitrary: reg) (auto simp: posted_remove)

lemma fold_remove_subs:
  "subs (fold (\<lambda>(sub, fs, c, ch). remove_from_index (conn, sub) fs c ch) m reg) = subs reg"
  by (induction m arbitrary: reg) auto

lemma remove_connection_refines:
  assumes "reg_inv reg"
  shows "reg_inv (fst (remove_connection conn reg))"
    and "sub_of (fst (remove_connection conn reg)) = (\<lambda>e. if fst e = conn then None else sub_of reg e)"
proof -
  have "reg_inv (fst (remove_connection conn reg)) \<and>
    sub_of (fst (remove_connection conn reg)) = (\<lambda>e. if fst e = conn then None else sub_of reg e)"
  proof (cases "map_of (subs reg) conn")
    case None
    then show ?thesis using assms by (auto simp: remove_connection_def sub_of_def fun_eq_iff)
  next
    case (Some m)
    let ?r = "reg\<lparr>subs := AList.delete conn (subs reg)\<rparr>"
    let ?f = "fold (\<lambda>(sub, fs, c, ch). remove_from_index (conn, sub) fs c ch) m ?r"
    have eq: "fst (remove_connection conn reg) = ?f" using Some by (simp add: remove_connection_def)
    have s: "subs ?f = AList.delete conn (subs reg)" by (simp add: fold_remove_subs)
    have look: "sub_of ?f = (\<lambda>e. if fst e = conn then None else sub_of reg e)"
      by (auto simp: sub_of_def s fun_eq_iff)
    have own: "sub_of reg (conn, sub) = Some entry \<longleftrightarrow> map_of m sub = Some entry" for sub entry
      using Some by (simp add: sub_of_def)
    have "indexed ?f"
      unfolding indexed_def fold_remove_posted look posted_subs
      using assms own conn_distinct [OF _ Some] by (auto simp: reg_inv_def indexedD)
    moreover have "maps_distinct ?f"
      using maps_distinct_delete [of reg conn] assms by (simp add: maps_distinct_def s reg_inv_def)
    ultimately show ?thesis using look by (simp add: eq reg_inv_def)
  qed
  then show "reg_inv (fst (remove_connection conn reg))"
    "sub_of (fst (remove_connection conn reg)) = (\<lambda>e. if fst e = conn then None else sub_of reg e)" by auto
qed

lemma remove_each_refines:
  "reg_inv reg \<Longrightarrow> reg_inv (fst (remove_each conn ss reg)) \<and>
     sub_of (fst (remove_each conn ss reg)) = (\<lambda>e. if fst e = conn \<and> snd e \<in> set ss then None else sub_of reg e)"
proof (induction ss arbitrary: reg)
  case (Cons s ss)
  note r = remove_subscription_refines [OF Cons.prems, of conn s]
  from Cons.IH [OF r(1)] show ?case by (auto simp: Let_def split_beta r(2) fun_eq_iff)
qed (simp add: fun_eq_iff)

lemma remove_channel_refines:
  assumes "reg_inv reg"
  shows "reg_inv (fst (remove_channel_subscriptions_scoped c conn ch reg))"
    and "sub_of (fst (remove_channel_subscriptions_scoped c conn ch reg)) =
      (\<lambda>e. if fst e = conn \<and> (\<exists>fs. sub_of reg e = Some (fs, c, Some ch)) then None else sub_of reg e)"
proof -
  define ss where "ss = (case map_of (subs reg) conn of None \<Rightarrow> []
     | Some m \<Rightarrow> map fst (filter (\<lambda>(sub, fs, c', ch'). c' = c \<and> ch' = Some ch) m))"
  have eq: "remove_channel_subscriptions_scoped c conn ch reg = remove_each conn ss reg"
    by (simp add: remove_channel_subscriptions_scoped_def ss_def)
  have "s \<in> set ss \<longleftrightarrow> (\<exists>fs. sub_of reg (conn, s) = Some (fs, c, Some ch))" for s
  proof (cases "map_of (subs reg) conn")
    case (Some m)
    have "distinct (map fst m)" using assms conn_distinct [OF _ Some] by (simp add: reg_inv_def)
    then show ?thesis using Some by (force simp: ss_def sub_of_def)
  qed (simp add: ss_def sub_of_def)
  then show "reg_inv (fst (remove_channel_subscriptions_scoped c conn ch reg))"
    "sub_of (fst (remove_channel_subscriptions_scoped c conn ch reg)) =
      (\<lambda>e. if fst e = conn \<and> (\<exists>fs. sub_of reg e = Some (fs, c, Some ch)) then None else sub_of reg e)"
    using remove_each_refines [OF assms, of conn ss] by (auto simp: eq fun_eq_iff)
qed

subsection \<open>Fan-out\<close>

text \<open>The subscribers an event is for: in its community and channel, with a matching filter.\<close>

definition deliverable ::
  "(uuid \<Rightarrow> string) \<Rightarrow> subscription_registry \<Rightarrow> community_id \<Rightarrow> stored_event \<Rightarrow> subscriber \<Rightarrow> bool" where
  "deliverable show_uuid reg c ev e \<longleftrightarrow>
     (\<exists>fs. sub_of reg e = Some (fs, c, se_channel_id ev) \<and> filters_match show_uuid fs ev)"

lemma push_match_eq:
  "push_match show_uuid reg c ev e rs = (if deliverable show_uuid reg c ev e then push_new e rs else rs)"
  by (auto simp: push_match_def deliverable_def sub_of_def split: option.splits)

lemma push_new_simps [simp]: "set (push_new k ks) = insert k (set ks)" "distinct ks \<Longrightarrow> distinct (push_new k ks)"
  by (auto simp: push_new_def)

lemma fold_push_new: "set (fold push_new ks acc) = set ks \<union> set acc"
  by (induction ks arbitrary: acc) auto

lemma fold_push_match:
  "set (fold (push_match show_uuid reg c ev) cs rs) = set rs \<union> {e \<in> set cs. deliverable show_uuid reg c ev e} \<and>
   (distinct rs \<longrightarrow> distinct (fold (push_match show_uuid reg c ev) cs rs))"
  by (induction cs arbitrary: rs) (auto simp: push_match_eq)

lemma set_candidates: "set (candidates c ev reg) = (\<Union>k\<in>set (event_postings c ev). set (posted_at reg k))"
  by (auto simp: candidates_def event_postings_def split: option.splits)

lemma extract_kinds_loop_Some:
  "extract_kinds_loop fs ks = Some ks' \<Longrightarrow>
     (\<forall>f\<in>set fs. \<exists>kinds. f_kinds f = Some kinds \<and> set kinds \<subseteq> set ks') \<and> set ks \<subseteq> set ks'"
proof (induction fs arbitrary: ks)
  case (Cons f fs)
  then obtain kinds where k: "f_kinds f = Some kinds" "extract_kinds_loop fs (fold push_new kinds ks) = Some ks'"
    by (auto split: option.splits)
  from Cons.IH [OF k(2)] k(1) show ?case by (auto simp: fold_push_new)
qed simp

lemma extract_p_loop_Some:
  "extract_p_loop c fs keys = Some keys' \<Longrightarrow>
     (\<forall>f\<in>set fs. \<exists>kinds. f_kinds f = Some kinds \<and> (kinds = [] \<or>
        (\<exists>ps. map_of (f_generic_tags f) ''p'' = Some ps \<and>
          (\<forall>k\<in>set kinds. \<forall>p\<in>set ps. GlobalPKindIndexKey c k p \<in> set keys')))) \<and> set keys \<subseteq> set keys'"
proof (induction fs arbitrary: keys)
  case (Cons f fs)
  from Cons.prems obtain kinds where k: "f_kinds f = Some kinds" by (auto split: option.splits)
  show ?case
  proof (cases "kinds = []")
    case True
    with Cons k show ?thesis by simp
  next
    case False
    let ?new = "\<lambda>ps. concat (map (\<lambda>k. map (GlobalPKindIndexKey c k) ps) kinds)"
    obtain ps where ps: "map_of (f_generic_tags f) ''p'' = Some ps"
        "extract_p_loop c fs (fold push_new (?new ps) keys) = Some keys'"
      using Cons.prems k False by (auto split: option.splits if_splits)
    have "set (?new ps) \<subseteq> set keys'" "set keys \<subseteq> set keys'"
      using Cons.IH [OF ps(2)] by (auto simp: fold_push_new)
    then show ?thesis using Cons.IH [OF ps(2)] k ps(1) by (auto simp: subset_iff)
  qed
qed simp

lemma posting_found:
  assumes "filters_match show_uuid fs ev"
  shows "\<exists>k\<in>set (event_postings c ev). k \<in> set (entry_postings (fs, c, se_channel_id ev))"
proof -
  from assms obtain f where f: "f \<in> set fs" "filter_match_one show_uuid f ev" by (auto simp: filters_match_def)
  have kinds: "e_kind (se_event ev) \<in> set ks" if "extract_kinds_from_filters fs = Some ks" for ks
    using that extract_kinds_loop_Some [of fs "[]" ks] f match_kind
    by (fastforce simp: extract_kinds_from_filters_def)
  have ps: "\<exists>p\<in>set (event_p_tag_values ev). GlobalPKindIndexKey c (e_kind (se_event ev)) p \<in> set keys"
    if ext: "extract_global_p_kind_index_keys c fs = Some keys" for keys
  proof -
    obtain ks where ks: "f_kinds f = Some ks" and alt: "ks = [] \<or> (\<exists>ps. map_of (f_generic_tags f) ''p'' = Some ps \<and>
          (\<forall>k\<in>set ks. \<forall>p\<in>set ps. GlobalPKindIndexKey c k p \<in> set keys))"
      using ext extract_p_loop_Some [of c fs "[]" keys] f(1) by (auto simp: extract_global_p_kind_index_keys_def)
    have k: "e_kind (se_event ev) \<in> set ks" using match_kind [OF f(2) ks] .
    with alt obtain ps where ps: "map_of (f_generic_tags f) ''p'' = Some ps"
      "\<forall>p\<in>set ps. GlobalPKindIndexKey c (e_kind (se_event ev)) p \<in> set keys" by auto
    obtain v where "v \<in> set ps" "v \<in> set (tag_values (se_event ev) ''p'')" using match_tag [OF f(2) ps(1)] by auto
    with ps(2) show ?thesis by (auto simp: event_p_tag_values_def fold_push_new)
  qed
  show ?thesis
    using kinds ps by (cases "se_channel_id ev") (auto simp: event_postings_def image_iff split: option.splits)
qed

lemma fan_out_deliverable:
  assumes "reg_inv reg"
  shows "set (fan_out_scoped show_uuid c ev reg) = {e. deliverable show_uuid reg c ev e} \<and>
    distinct (fan_out_scoped show_uuid c ev reg)"
proof -
  have "e \<in> set (candidates c ev reg)" if "deliverable show_uuid reg c ev e" for e
    using that posting_found assms unfolding set_candidates deliverable_def
    by (fastforce simp: reg_inv_def indexedD)
  then show ?thesis
    using fold_push_match [of show_uuid reg c ev "candidates c ev reg" "[]"] by (auto simp: fan_out_scoped_def)
qed

subsection \<open>Reachable registries\<close>

text \<open>
  The registries of a running relay: the empty one, closed under the operations that change it.
\<close>

inductive reachable :: "subscription_registry \<Rightarrow> bool" where
  start: "reachable registry_new"
| register: "reachable reg \<Longrightarrow> reachable (fst (register_scoped c conn sub fs ch reg))"
| remove: "reachable reg \<Longrightarrow> reachable (fst (remove_subscription conn sub reg))"
| disconnect: "reachable reg \<Longrightarrow> reachable (fst (remove_connection conn reg))"
| revoke: "reachable reg \<Longrightarrow> reachable (fst (remove_channel_subscriptions_scoped c conn ch reg))"

lemma reachable_inv: "reachable reg \<Longrightarrow> reg_inv reg"
  by (induction rule: reachable.induct)
    (auto intro: registry_new_inv register_scoped_refines remove_subscription_refines
      remove_connection_refines remove_channel_refines)

subsection \<open>Properties\<close>

text \<open>
  C2. Indexed fan-out is exact: in every reachable registry an event is delivered to precisely
  the subscriptions of its community and channel scope with a matching filter, each once. The
  indexes lose no subscriber, and no event crosses a community, a channel or the border between
  channel and global subscriptions.
\<close>

theorem fan_out_exact:
  assumes "reachable reg"
  shows "set (fan_out_scoped show_uuid c ev reg) =
      {e. \<exists>fs. sub_of reg e = Some (fs, c, se_channel_id ev) \<and> filters_match show_uuid fs ev} \<and>
    distinct (fan_out_scoped show_uuid c ev reg)"
  using fan_out_deliverable [OF reachable_inv [OF assms]] by (simp add: deliverable_def)

text \<open>
  C20. The registry refines a map from subscribers to entries: registering replaces the entry of a
  subscriber, removing a subscription or a connection deletes exactly its entries, revoking a
  channel deletes exactly the entries of that connection scoped to it, and the reported scope of
  a removed subscription is the one it was registered with.
\<close>

theorem registry_refines_map:
  assumes "reachable reg"
  shows "sub_of (fst (register_scoped c conn sub fs ch reg)) = (sub_of reg)((conn, sub) \<mapsto> (fs, c, ch)) \<and>
    sub_of (fst (remove_subscription conn sub reg)) = (sub_of reg)((conn, sub) := None) \<and>
    snd (remove_subscription conn sub reg) =
      map_option (\<lambda>(fs, c, ch). \<lparr>rs_community_id = c, rs_channel_id = ch\<rparr>) (sub_of reg (conn, sub)) \<and>
    sub_of (fst (remove_connection conn reg)) = (\<lambda>e. if fst e = conn then None else sub_of reg e) \<and>
    sub_of (fst (remove_channel_subscriptions_scoped c conn chan reg)) =
      (\<lambda>e. if fst e = conn \<and> (\<exists>fs. sub_of reg e = Some (fs, c, Some chan)) then None else sub_of reg e)"
proof -
  note inv = reachable_inv [OF assms]
  show ?thesis
    using register_scoped_refines(2) [OF inv] remove_subscription_refines(2,3) [OF inv]
      remove_connection_refines(2) [OF inv] remove_channel_refines(2) [OF inv] by blast
qed

text \<open>
  The checks of a fan-out that runs beside other operations: each candidate of an old snapshot is
  checked against the registry of its moment.
\<close>

definition push_matches_at ::
  "(uuid \<Rightarrow> string) \<Rightarrow> community_id \<Rightarrow> stored_event \<Rightarrow> (subscription_registry \<times> subscriber) list \<Rightarrow> subscriber list" where
  "push_matches_at show_uuid c ev checks = fold (\<lambda>(reg, e). push_match show_uuid reg c ev e) checks []"

text \<open>
  Stale candidates never leak: whatever candidates a fan-out has collected and however the
  registry changes between its checks, a subscriber receives the event at most once and only if at
  the moment of a check its subscription was in the event's community and channel and matched.
\<close>

theorem stale_candidates_safe:
  "distinct (push_matches_at show_uuid c ev checks) \<and>
   (\<forall>e\<in>set (push_matches_at show_uuid c ev checks).
      \<exists>reg fs. (reg, e) \<in> set checks \<and> sub_of reg e = Some (fs, c, se_channel_id ev) \<and> filters_match show_uuid fs ev)"
proof -
  have "distinct rs \<Longrightarrow> distinct (fold (\<lambda>(reg, e). push_match show_uuid reg c ev e) cs rs) \<and>
    set (fold (\<lambda>(reg, e). push_match show_uuid reg c ev e) cs rs) =
      set rs \<union> {e. \<exists>reg. (reg, e) \<in> set cs \<and> deliverable show_uuid reg c ev e}" for cs rs
    by (induction cs arbitrary: rs) (auto simp: push_match_eq split: prod.splits)
  from this [of "[]" checks] show ?thesis by (auto simp: push_matches_at_def deliverable_def)
qed

text \<open>
  Revocation silences a channel: after the subscriptions of a connection to a channel are
  removed, no event of that channel in that community reaches the connection, until it registers
  again; other connections are not affected.
\<close>

theorem revoked_channel_silent:
  assumes "reachable reg" and "se_channel_id ev = Some chan"
  shows "set (fan_out_scoped show_uuid c ev (fst (remove_channel_subscriptions_scoped c conn chan reg))) =
    {e \<in> set (fan_out_scoped show_uuid c ev reg). fst e \<noteq> conn}"
proof -
  note inv = reachable_inv [OF assms(1)]
  show ?thesis
    using fan_out_deliverable [OF remove_channel_refines(1) [OF inv], of show_uuid c ev c conn chan]
      fan_out_deliverable [OF inv, of show_uuid c ev] assms(2)
    by (auto simp: deliverable_def remove_channel_refines(2) [OF inv] split: if_splits)
qed

text \<open>
  A connection whose last subscription was removed still counts as a connection, against the
  documentation of \<open>total_connections\<close>.
\<close>

theorem empty_connection_counted:
  "let reg = fst (remove_subscription 1 ''s'' (fst (register_scoped 2 1 ''s'' [any_filter] None registry_new)))
   in total_connections reg = 1 \<and> total_subscriptions reg = 0"
  by (simp add: register_scoped_def remove_subscription_def registry_new_def insert_in_index_def remove_from_index_def
      extract_kinds_from_filters_def extract_global_p_kind_index_keys_def any_filter_def
      total_connections_def total_subscriptions_def)

definition demo_registry :: subscription_registry where
  "demo_registry = fst (register_scoped 2 1 ''s'' [any_filter] (Some 1) registry_new)"

lemma demo_registry_reachable: "reachable demo_registry"
  unfolding demo_registry_def by (intro reachable.intros)

lemma demo_registry_sub: "sub_of demo_registry = [(1, ''s'') \<mapsto> ([any_filter], 2, Some 1)]"
  unfolding demo_registry_def by (simp add: register_scoped_refines(2) [OF registry_new_inv(1)] registry_new_inv(2))

theorem fan_out_exact_witness:
  "set (fan_out_scoped (\<lambda>u. ''c'') 2 demo_event demo_registry) = {(1, ''s'')}"
  using fan_out_exact [OF demo_registry_reachable, of "\<lambda>u. ''c''" 2 demo_event]
  by (auto simp: demo_registry_sub demo_event_def filters_match_def filter_match_one_def any_filter_def split: if_splits)

theorem registry_refines_map_witness:
  "sub_of (fst (remove_subscription 1 ''s'' demo_registry)) = Map.empty"
  using registry_refines_map [OF demo_registry_reachable] by (simp add: demo_registry_sub)

theorem stale_candidates_safe_witness:
  "distinct (push_matches_at (\<lambda>u. ''c'') 2 demo_event [(demo_registry, (1, ''s'')), (registry_new, (1, ''s''))])"
  using stale_candidates_safe by blast

theorem revoked_channel_silent_witness:
  "set (fan_out_scoped (\<lambda>u. ''c'') 2 demo_event (fst (remove_channel_subscriptions_scoped 2 1 1 demo_registry))) =
     {e \<in> set (fan_out_scoped (\<lambda>u. ''c'') 2 demo_event demo_registry). fst e \<noteq> 1}"
  by (rule revoked_channel_silent [OF demo_registry_reachable]) (simp add: demo_event_def)

end
