(* ===== verification/Pairing_Types.thy ===== *)
theory Pairing_Types
  imports Prelude
begin

section \<open>Pairing messages and key derivation (\<open>crates/buzz-core/src/pairing\<close>)\<close>

text \<open>
  The messages of \<open>types.rs\<close>, the errors of \<open>mod.rs\<close> and the derivations of \<open>crypto.rs\<close>.
  A byte is an \<open>8 word\<close>. HKDF belongs to the \<open>nostr\<close> package: \<open>hk_extract\<close> and \<open>hk_expand\<close> are
  parameters. An \<open>UnexpectedMessage\<close> error carries formatted text in the source; here it has one
  constructor per kind of mismatch, with the values the text shows.
\<close>

datatype payload_type = Nsec | Bunker | Connect | CustomPayload

datatype abort_reason = SasMismatchReason | UserDenied | TimeoutReason | ProtocolError | UnknownReason

datatype pairing_message =
    Offer string "32 word"
  | SasConfirm string
  | Payload payload_type string
  | Complete bool
  | Abort abort_reason

datatype message_name = OfferName | SasConfirmName | PayloadName | CompleteName | AbortName

fun message_name_of :: "pairing_message \<Rightarrow> message_name" where
  "message_name_of (Offer s v) = OfferName"
| "message_name_of (SasConfirm h) = SasConfirmName"
| "message_name_of (Payload t p) = PayloadName"
| "message_name_of (Complete b) = CompleteName"
| "message_name_of (Abort r) = AbortName"

datatype role = Source | Target

datatype session_state =
  Waiting | Confirming | AwaitingConfirmation | Transferring | PayloadExchanged | Completed | Aborted

datatype pairing_error =
    InvalidQr string
  | InvalidSessionId
  | SasMismatch
  | TranscriptMismatch
  | UnexpectedName message_name message_name
  | UnexpectedVersion "32 word"
  | UnexpectedState session_state
  | UnexpectedRole role role
  | TerminalState session_state
  | UnsuccessfulComplete
  | ContentLength nat
  | PlaintextLength nat
  | DuplicateEvent
  | UnexpectedKind nat
  | SessionExpired
  | Nip44Error
  | JsonError
  | InvalidPubkey string
  | SigningError

definition unexpected :: "message_name \<Rightarrow> pairing_message \<Rightarrow> pairing_error" where
  "unexpected expected got = UnexpectedName expected (message_name_of got)"

subsection \<open>Derivations\<close>

record hkdf =
  hk_extract :: "bytes \<Rightarrow> bytes \<Rightarrow> bytes"
  hk_expand :: "bytes \<Rightarrow> bytes \<Rightarrow> nat \<Rightarrow> bytes"

definition INFO_SESSION_ID :: bytes where "INFO_SESSION_ID = ascii_bytes ''nostr-pair-session-id''"
definition INFO_SAS :: bytes where "INFO_SAS = ascii_bytes ''nostr-pair-sas-v1''"
definition INFO_TRANSCRIPT :: bytes where "INFO_TRANSCRIPT = ascii_bytes ''nostr-pair-transcript-v1''"

definition hkdf32 :: "hkdf \<Rightarrow> bytes \<Rightarrow> bytes \<Rightarrow> bytes \<Rightarrow> bytes" where
  "hkdf32 h salt ikm info =
     (let prk = hk_extract h salt ikm; okm = hk_expand h prk info 32 in take 32 okm)"

definition derive_session_id :: "hkdf \<Rightarrow> bytes \<Rightarrow> bytes" where
  "derive_session_id h session_secret = hkdf32 h [] session_secret INFO_SESSION_ID"

text \<open>\<open>u32::from_be_bytes\<close> of the first four bytes.\<close>

definition u32_from_be_bytes :: "8 word \<Rightarrow> 8 word \<Rightarrow> 8 word \<Rightarrow> 8 word \<Rightarrow> nat" where
  "u32_from_be_bytes a b c d = ((unat a * 256 + unat b) * 256 + unat c) * 256 + unat d"

definition derive_sas :: "hkdf \<Rightarrow> bytes \<Rightarrow> bytes \<Rightarrow> nat \<times> bytes" where
  "derive_sas h ecdh_shared session_secret =
     (let sas_input = hkdf32 h session_secret ecdh_shared INFO_SAS;
          sas_code = u32_from_be_bytes (sas_input ! 0) (sas_input ! 1) (sas_input ! 2) (sas_input ! 3) mod 1000000
      in (sas_code, sas_input))"

definition derive_transcript_hash :: "hkdf \<Rightarrow> bytes \<Rightarrow> bytes \<Rightarrow> bytes \<Rightarrow> bytes \<Rightarrow> bytes \<Rightarrow> bytes" where
  "derive_transcript_hash h session_id source_pubkey target_pubkey sas_input session_secret =
     (let transcript = session_id @ source_pubkey @ target_pubkey @ sas_input
      in hkdf32 h session_secret transcript INFO_TRANSCRIPT)"

text \<open>\<open>format!("{code:06}")\<close>: decimal digits, padded with zeros to at least six.\<close>

definition format_sas :: "nat \<Rightarrow> string" where
  "format_sas code = replicate (6 - length (decimal code)) (CHR ''0'') @ decimal code"

definition ct_eq :: "bytes \<Rightarrow> bytes \<Rightarrow> bool" where
  "ct_eq a b \<longleftrightarrow> a = b"

subsection \<open>The short authentication string\<close>

lemma format_sas_shape:
  assumes "code < 1000000"
  shows "length (format_sas code) = 6" "\<forall>c\<in>set (format_sas code). is_ascii_digit c"
    "decimal_value 0 (format_sas code) = code"
proof -
  have "length (decimal code) \<le> 6" using decimal_length [of code 6] assms by simp
  then show "length (format_sas code) = 6" by (simp add: format_sas_def)
  show "\<forall>c\<in>set (format_sas code). is_ascii_digit c"
    using decimal_digits by (auto simp: format_sas_def is_ascii_digit_def byte_def)
  show "decimal_value 0 (format_sas code) = code"
    by (simp add: format_sas_def leading_zeros decimal_inverse)
qed

lemma derive_sas_bound: "fst (derive_sas h ecdh secret) < 1000000"
  by (simp add: derive_sas_def Let_def)

text \<open>
  The displayed authentication string has exactly six decimal digits, and two devices display
  the same string exactly when they derived the same code.
\<close>

theorem sas_display_faithful:
  "length (format_sas (fst (derive_sas h ecdh secret))) = 6 \<and>
   list_all is_ascii_digit (format_sas (fst (derive_sas h ecdh secret))) \<and>
   (format_sas (fst (derive_sas h ecdh secret)) = format_sas (fst (derive_sas h ecdh' secret')) \<longleftrightarrow>
      fst (derive_sas h ecdh secret) = fst (derive_sas h ecdh' secret'))"
proof -
  note a = format_sas_shape [OF derive_sas_bound [of h ecdh secret]]
    and b = format_sas_shape [OF derive_sas_bound [of h ecdh' secret']]
  show ?thesis using a b(3) unfolding list_all_iff by metis
qed

end
