(* ===== verification/Pairing_Session.thy ===== *)
theory Pairing_Session
  imports Pairing_Types
begin

section \<open>The pairing session (\<open>crates/buzz-core/src/pairing/session.rs\<close>)\<close>

text \<open>
  The state machine of one side of a device pairing. Keys, NIP-44, ECDH, event signing, JSON and
  hexadecimal codecs belong to other packages and are the fields of the record \<open>nostr_lib\<close>;
  the predicate \<open>lib_laws\<close> states what an exchange relies on. Fresh values (the clock, random
  jitter and nonces, generated keys and secrets) are arguments. A handler returns the session
  beside its result, because a failing handler may change it. Erasing secrets from memory is not
  modelled.
\<close>

record 'p pairing_event =
  ev_id :: bytes
  ev_pubkey :: 'p
  ev_created_at :: nat
  ev_kind :: nat
  ev_tags :: "string list list"
  ev_content :: string

record draft =
  dr_kind :: nat
  dr_content :: string
  dr_tags :: "string list list"
  dr_created_at :: nat

record ('k, 'p) nostr_lib =
  nl_hkdf :: hkdf
  public_key :: "'k \<Rightarrow> 'p"
  pk_hex :: "'p \<Rightarrow> string"
  pk_bytes :: "'p \<Rightarrow> bytes"
  shared_key :: "'k \<Rightarrow> 'p \<Rightarrow> bytes option"
  nip44_encrypt :: "nat \<Rightarrow> 'k \<Rightarrow> 'p \<Rightarrow> string \<Rightarrow> string option"
  nip44_decrypt :: "'k \<Rightarrow> 'p \<Rightarrow> string \<Rightarrow> string option"
  to_json :: "pairing_message \<Rightarrow> string option"
  from_json :: "string \<Rightarrow> pairing_message option"
  hex_encode :: "bytes \<Rightarrow> string"
  hex_decode :: "string \<Rightarrow> bytes option"
  sign_with_keys :: "'k \<Rightarrow> draft \<Rightarrow> 'p pairing_event option"
  verify_event :: "'p pairing_event \<Rightarrow> bool"

text \<open>The clock of Nostr timestamps, the random jitter and the nonce of an outgoing event.\<close>

record fresh =
  fr_now :: nat
  fr_jitter :: nat
  fr_nonce :: nat

record ('k, 'p) pairing_session =
  ps_role :: role
  ps_state :: session_state
  ps_keys :: 'k
  ps_session_secret :: bytes
  ps_relay_urls :: "string list"
  ps_peer_pubkey :: "'p option"
  ps_session_id :: bytes
  ps_sas_code :: "nat option"
  ps_sas_input :: "bytes option"
  ps_processed_ids :: "bytes set"
  ps_created_at :: nat
  ps_timeout :: nat

record 'p qr_payload =
  qr_source_pubkey :: 'p
  qr_session_secret :: bytes
  qr_relays :: "string list"
  qr_version :: nat

definition DEFAULT_TIMEOUT :: nat where "DEFAULT_TIMEOUT = 120000000000"
definition PAIRING_KIND :: nat where "PAIRING_KIND = 24134"

subsection \<open>Checks\<close>

definition is_expired :: "nat \<Rightarrow> ('k, 'p) pairing_session \<Rightarrow> bool" where
  "is_expired now s \<longleftrightarrow> now - ps_created_at s > ps_timeout s"

definition check_expired :: "nat \<Rightarrow> ('k, 'p) pairing_session \<Rightarrow> (unit, pairing_error) result" where
  "check_expired now s = (if is_expired now s then Inl SessionExpired else Inr ())"

definition expect_state :: "session_state \<Rightarrow> ('k, 'p) pairing_session \<Rightarrow> (unit, pairing_error) result" where
  "expect_state expected s = (if ps_state s \<noteq> expected then Inl (UnexpectedState (ps_state s)) else Inr ())"

definition expect_role :: "role \<Rightarrow> ('k, 'p) pairing_session \<Rightarrow> (unit, pairing_error) result" where
  "expect_role expected s = (if ps_role s \<noteq> expected then Inl (UnexpectedRole expected (ps_role s)) else Inr ())"

text \<open>The three checks every handler but the abort handlers starts with.\<close>

definition expect :: "nat \<Rightarrow> session_state \<Rightarrow> role \<Rightarrow> ('k, 'p) pairing_session \<Rightarrow> (unit, pairing_error) result" where
  "expect now st r s =
     and_then (check_expired now s) (\<lambda>_. and_then (expect_state st s) (\<lambda>_. expect_role r s))"

definition validate_event_basics ::
  "('k, 'p) nostr_lib \<Rightarrow> 'p pairing_event \<Rightarrow> ('k, 'p) pairing_session \<Rightarrow> (unit, pairing_error) result" where
  "validate_event_basics lib ev s =
     (if \<not> verify_event lib ev then Inl (InvalidPubkey ''event verification failed'')
      else if ev_id ev \<in> ps_processed_ids s then Inl DuplicateEvent
      else if ev_kind ev \<noteq> PAIRING_KIND then Inl (UnexpectedKind (ev_kind ev))
      else if \<not> (\<exists>t\<in>set (ev_tags ev). case t of
                   name # v # _ \<Rightarrow> name = ''p'' \<and> v = pk_hex lib (public_key lib (ps_keys s)) | _ \<Rightarrow> False)
      then Inl (InvalidPubkey ''event p-tag does not match our ephemeral pubkey'')
      else Inr ())"

definition validate_event_from_peer ::
  "('k, 'p) nostr_lib \<Rightarrow> 'p pairing_event \<Rightarrow> ('k, 'p) pairing_session \<Rightarrow> (unit, pairing_error) result" where
  "validate_event_from_peer lib ev s =
     and_then (validate_event_basics lib ev s) (\<lambda>_.
       case ps_peer_pubkey s of
         Some expected \<Rightarrow> (if ev_pubkey ev \<noteq> expected then Inl (InvalidPubkey ''event from unexpected pubkey'') else Inr ())
       | None \<Rightarrow> Inr ())"

definition record_event :: "'p pairing_event \<Rightarrow> ('k, 'p) pairing_session \<Rightarrow> ('k, 'p) pairing_session" where
  "record_event ev s = s\<lparr>ps_processed_ids := insert (ev_id ev) (ps_processed_ids s)\<rparr>"

definition build_event ::
  "('k, 'p) nostr_lib \<Rightarrow> fresh \<Rightarrow> pairing_message \<Rightarrow> ('k, 'p) pairing_session \<Rightarrow> ('p pairing_event, pairing_error) result" where
  "build_event lib fr msg s =
     (case ps_peer_pubkey s of
        None \<Rightarrow> Inl (InvalidPubkey ''no peer pubkey set'')
      | Some peer \<Rightarrow>
          (case to_json lib msg of
             None \<Rightarrow> Inl JsonError
           | Some plaintext \<Rightarrow>
               (case nip44_encrypt lib (fr_nonce fr) (ps_keys s) peer plaintext of
                  None \<Rightarrow> Inl Nip44Error
                | Some encrypted \<Rightarrow>
                    let jitter = fr_jitter fr mod 31; ts = fr_now fr - jitter in
                    (case sign_with_keys lib (ps_keys s)
                       \<lparr>dr_kind = PAIRING_KIND, dr_content = encrypted, dr_tags = [[''p'', pk_hex lib peer]],
                        dr_created_at = ts\<rparr> of
                       None \<Rightarrow> Inl SigningError
                     | Some ev \<Rightarrow> Inr ev))))"

definition decrypt_message ::
  "('k, 'p) nostr_lib \<Rightarrow> 'p pairing_event \<Rightarrow> ('k, 'p) pairing_session \<Rightarrow> (pairing_message, pairing_error) result" where
  "decrypt_message lib ev s =
     (let content_len = length (ev_content ev) in
      if \<not> (132 \<le> content_len \<and> content_len \<le> 87472) then Inl (ContentLength content_len)
      else case nip44_decrypt lib (ps_keys s) (ev_pubkey ev) (ev_content ev) of
        None \<Rightarrow> Inl Nip44Error
      | Some decrypted \<Rightarrow>
          if length decrypted > 65535 then Inl (PlaintextLength (length decrypted))
          else (case from_json lib decrypted of None \<Rightarrow> Inl JsonError | Some m \<Rightarrow> Inr m))"

text \<open>\<open>hex::decode\<close> into exactly 32 bytes.\<close>

definition decode32 :: "('k, 'p) nostr_lib \<Rightarrow> string \<Rightarrow> bytes option" where
  "decode32 lib s = Option.bind (hex_decode lib s) (\<lambda>b. if length b = 32 then Some b else None)"

subsection \<open>The source\<close>

definition new_source ::
  "('k, 'p) nostr_lib \<Rightarrow> 'k \<Rightarrow> bytes \<Rightarrow> nat \<Rightarrow> string \<Rightarrow> ('k, 'p) pairing_session \<times> 'p qr_payload" where
  "new_source lib keys session_secret now relay_url =
     (let session_id = derive_session_id (nl_hkdf lib) session_secret;
          qr = \<lparr>qr_source_pubkey = public_key lib keys, qr_session_secret = session_secret,
                qr_relays = [relay_url], qr_version = 1\<rparr>;
          session = \<lparr>ps_role = Source, ps_state = Waiting, ps_keys = keys, ps_session_secret = session_secret,
                     ps_relay_urls = [relay_url], ps_peer_pubkey = None, ps_session_id = session_id,
                     ps_sas_code = None, ps_sas_input = None, ps_processed_ids = {},
                     ps_created_at = now, ps_timeout = DEFAULT_TIMEOUT\<rparr>
      in (session, qr))"

definition handle_offer ::
  "('k, 'p) nostr_lib \<Rightarrow> nat \<Rightarrow> 'p pairing_event \<Rightarrow> ('k, 'p) pairing_session \<Rightarrow>
   ('k, 'p) pairing_session \<times> (string, pairing_error) result" where
  "handle_offer lib now ev s =
     (case and_then (expect now Waiting Source s) (\<lambda>_.
           and_then (validate_event_basics lib ev s) (\<lambda>_. decrypt_message lib ev s)) of
        Inl e \<Rightarrow> (s, Inl e)
      | Inr (Offer session_id_hex version) \<Rightarrow>
          if version \<noteq> 1 then (s, Inl (UnexpectedVersion version))
          else if \<not> (case decode32 lib session_id_hex of Some i \<Rightarrow> ct_eq i (ps_session_id s) | None \<Rightarrow> False)
          then (s, Inl InvalidSessionId)
          else
            let peer = ev_pubkey ev; s1 = s\<lparr>ps_peer_pubkey := Some peer\<rparr> in
            (case shared_key lib (ps_keys s) peer of
               None \<Rightarrow> (s1, Inl SigningError)
             | Some ecdh \<Rightarrow>
                 let (code, sas_input) = derive_sas (nl_hkdf lib) ecdh (ps_session_secret s) in
                 (record_event ev (s1\<lparr>ps_sas_code := Some code, ps_sas_input := Some sas_input,
                    ps_state := Confirming\<rparr>), Inr (format_sas code)))
      | Inr other \<Rightarrow> (s, Inl (unexpected OfferName other)))"

definition confirm_sas ::
  "('k, 'p) nostr_lib \<Rightarrow> nat \<Rightarrow> fresh \<Rightarrow> ('k, 'p) pairing_session \<Rightarrow>
   ('k, 'p) pairing_session \<times> ('p pairing_event, pairing_error) result" where
  "confirm_sas lib now fr s =
     (case expect now Confirming Source s of
        Inl e \<Rightarrow> (s, Inl e)
      | Inr _ \<Rightarrow>
          (case ps_sas_input s of
             None \<Rightarrow> (s, Inl SasMismatch)
           | Some sas_input \<Rightarrow>
               (case ps_peer_pubkey s of
                  None \<Rightarrow> (s, Inl (InvalidPubkey ''no peer''))
                | Some peer \<Rightarrow>
                    let transcript_hash = derive_transcript_hash (nl_hkdf lib) (ps_session_id s)
                          (pk_bytes lib (public_key lib (ps_keys s))) (pk_bytes lib peer) sas_input (ps_session_secret s)
                    in (case build_event lib fr (SasConfirm (hex_encode lib transcript_hash)) s of
                          Inl e \<Rightarrow> (s, Inl e)
                        | Inr ev \<Rightarrow> (s\<lparr>ps_state := Transferring\<rparr>, Inr ev)))))"

definition send_payload ::
  "('k, 'p) nostr_lib \<Rightarrow> nat \<Rightarrow> fresh \<Rightarrow> payload_type \<Rightarrow> string \<Rightarrow> ('k, 'p) pairing_session \<Rightarrow>
   ('k, 'p) pairing_session \<times> ('p pairing_event, pairing_error) result" where
  "send_payload lib now fr payload_type payload s =
     (case and_then (expect now Transferring Source s) (\<lambda>_. build_event lib fr (Payload payload_type payload) s) of
        Inl e \<Rightarrow> (s, Inl e)
      | Inr ev \<Rightarrow> (s\<lparr>ps_state := PayloadExchanged\<rparr>, Inr ev))"

definition handle_complete ::
  "('k, 'p) nostr_lib \<Rightarrow> nat \<Rightarrow> 'p pairing_event \<Rightarrow> ('k, 'p) pairing_session \<Rightarrow>
   ('k, 'p) pairing_session \<times> (unit, pairing_error) result" where
  "handle_complete lib now ev s =
     (case and_then (expect now PayloadExchanged Source s) (\<lambda>_.
           and_then (validate_event_from_peer lib ev s) (\<lambda>_. decrypt_message lib ev s)) of
        Inl e \<Rightarrow> (s, Inl e)
      | Inr (Complete True) \<Rightarrow> (record_event ev (s\<lparr>ps_state := Completed\<rparr>), Inr ())
      | Inr (Complete False) \<Rightarrow> (s\<lparr>ps_state := Aborted\<rparr>, Inl UnsuccessfulComplete)
      | Inr other \<Rightarrow> (s, Inl (unexpected CompleteName other)))"

subsection \<open>The target\<close>

definition new_target ::
  "('k, 'p) nostr_lib \<Rightarrow> 'k \<Rightarrow> nat \<Rightarrow> fresh \<Rightarrow> 'p qr_payload \<Rightarrow>
   (('k, 'p) pairing_session \<times> 'p pairing_event, pairing_error) result" where
  "new_target lib keys now fr qr =
     (let session_id = derive_session_id (nl_hkdf lib) (qr_session_secret qr) in
      case shared_key lib keys (qr_source_pubkey qr) of
        None \<Rightarrow> Inl SigningError
      | Some ecdh \<Rightarrow>
          let (code, sas_input) = derive_sas (nl_hkdf lib) ecdh (qr_session_secret qr);
              session = \<lparr>ps_role = Target, ps_state = Waiting, ps_keys = keys,
                         ps_session_secret = qr_session_secret qr, ps_relay_urls = qr_relays qr,
                         ps_peer_pubkey = Some (qr_source_pubkey qr), ps_session_id = session_id,
                         ps_sas_code = Some code, ps_sas_input = Some sas_input, ps_processed_ids = {},
                         ps_created_at = now, ps_timeout = DEFAULT_TIMEOUT\<rparr>
          in and_then (build_event lib fr (Offer (hex_encode lib session_id) 1) session) (\<lambda>ev.
               Inr (session\<lparr>ps_state := Confirming\<rparr>, ev)))"

definition handle_sas_confirm ::
  "('k, 'p) nostr_lib \<Rightarrow> nat \<Rightarrow> 'p pairing_event \<Rightarrow> ('k, 'p) pairing_session \<Rightarrow>
   ('k, 'p) pairing_session \<times> (string, pairing_error) result" where
  "handle_sas_confirm lib now ev s =
     (case and_then (expect now Confirming Target s) (\<lambda>_.
           and_then (validate_event_from_peer lib ev s) (\<lambda>_. decrypt_message lib ev s)) of
        Inl e \<Rightarrow> (s, Inl e)
      | Inr (SasConfirm received_hash) \<Rightarrow>
          (case ps_sas_input s of
             None \<Rightarrow> (s, Inl SasMismatch)
           | Some sas_input \<Rightarrow>
               (case ps_peer_pubkey s of
                  None \<Rightarrow> (s, Inl (InvalidPubkey ''no peer''))
                | Some peer \<Rightarrow>
                    let expected_hash = derive_transcript_hash (nl_hkdf lib) (ps_session_id s)
                          (pk_bytes lib peer) (pk_bytes lib (public_key lib (ps_keys s))) sas_input (ps_session_secret s);
                        ok = (case decode32 lib received_hash of Some rb \<Rightarrow> ct_eq rb expected_hash | None \<Rightarrow> False)
                    in if \<not> ok then (s\<lparr>ps_state := Aborted\<rparr>, Inl TranscriptMismatch)
                    else
                      let s1 = record_event ev (s\<lparr>ps_state := AwaitingConfirmation\<rparr>) in
                      (case ps_sas_code s of
                         None \<Rightarrow> (s1, Inl SasMismatch)
                       | Some code \<Rightarrow> (s1, Inr (format_sas code)))))
      | Inr other \<Rightarrow> (s, Inl (unexpected SasConfirmName other)))"

definition confirm_target_sas ::
  "nat \<Rightarrow> ('k, 'p) pairing_session \<Rightarrow> ('k, 'p) pairing_session \<times> (unit, pairing_error) result" where
  "confirm_target_sas now s =
     (case expect now AwaitingConfirmation Target s of
        Inl e \<Rightarrow> (s, Inl e)
      | Inr _ \<Rightarrow> (s\<lparr>ps_state := Transferring\<rparr>, Inr ()))"

definition handle_payload ::
  "('k, 'p) nostr_lib \<Rightarrow> nat \<Rightarrow> 'p pairing_event \<Rightarrow> ('k, 'p) pairing_session \<Rightarrow>
   ('k, 'p) pairing_session \<times> (payload_type \<times> string, pairing_error) result" where
  "handle_payload lib now ev s =
     (case and_then (expect now Transferring Target s) (\<lambda>_.
           and_then (validate_event_from_peer lib ev s) (\<lambda>_. decrypt_message lib ev s)) of
        Inl e \<Rightarrow> (s, Inl e)
      | Inr (Payload payload_type payload) \<Rightarrow>
          (record_event ev (s\<lparr>ps_state := PayloadExchanged\<rparr>), Inr (payload_type, payload))
      | Inr other \<Rightarrow> (s, Inl (unexpected PayloadName other)))"

definition send_complete ::
  "('k, 'p) nostr_lib \<Rightarrow> nat \<Rightarrow> fresh \<Rightarrow> ('k, 'p) pairing_session \<Rightarrow>
   ('k, 'p) pairing_session \<times> ('p pairing_event, pairing_error) result" where
  "send_complete lib now fr s =
     (case and_then (expect now PayloadExchanged Target s) (\<lambda>_. build_event lib fr (Complete True) s) of
        Inl e \<Rightarrow> (s, Inl e)
      | Inr ev \<Rightarrow> (s\<lparr>ps_state := Completed\<rparr>, Inr ev))"

subsection \<open>Aborts\<close>

definition abort ::
  "('k, 'p) nostr_lib \<Rightarrow> fresh \<Rightarrow> abort_reason \<Rightarrow> ('k, 'p) pairing_session \<Rightarrow>
   ('k, 'p) pairing_session \<times> ('p pairing_event option, pairing_error) result" where
  "abort lib fr reason s =
     (if ps_state s \<in> {Completed, Aborted} then (s, Inl (TerminalState (ps_state s)))
      else if ps_peer_pubkey s = None then (s\<lparr>ps_state := Aborted\<rparr>, Inr None)
      else case build_event lib fr (Abort reason) s of
        Inl e \<Rightarrow> (s, Inl e)
      | Inr ev \<Rightarrow> (s\<lparr>ps_state := Aborted\<rparr>, Inr (Some ev)))"

definition handle_abort ::
  "('k, 'p) nostr_lib \<Rightarrow> 'p pairing_event \<Rightarrow> ('k, 'p) pairing_session \<Rightarrow>
   ('k, 'p) pairing_session \<times> (abort_reason, pairing_error) result" where
  "handle_abort lib ev s =
     (if ps_state s \<in> {Completed, Aborted} then (s, Inl (TerminalState (ps_state s)))
      else if ps_peer_pubkey s = None then (s, Inl (InvalidPubkey ''cannot accept abort before peer is known''))
      else case and_then (validate_event_from_peer lib ev s) (\<lambda>_. decrypt_message lib ev s) of
        Inl e \<Rightarrow> (s, Inl e)
      | Inr (Abort reason) \<Rightarrow> (record_event ev (s\<lparr>ps_state := Aborted\<rparr>), Inr reason)
      | Inr other \<Rightarrow> (s, Inl (unexpected AbortName other)))"

definition sas_code_shown :: "('k, 'p) pairing_session \<Rightarrow> string option" where
  "sas_code_shown s = map_option format_sas (ps_sas_code s)"

subsection \<open>Runs of a session\<close>

text \<open>
  A run is any sequence of calls with the time of each; its log lists the successful calls, each
  with its time and the identifier of the event it accepted, if any.
\<close>

datatype 'p session_op =
    HandleOffer "'p pairing_event"
  | ConfirmSas fresh
  | SendPayload fresh payload_type string
  | HandleComplete "'p pairing_event"
  | HandleSasConfirm "'p pairing_event"
  | ConfirmTargetSas
  | HandlePayload "'p pairing_event"
  | SendComplete fresh
  | AbortCall fresh abort_reason
  | HandleAbort "'p pairing_event"

datatype step_name =
    OfferAccepted | SasConfirmed | PayloadSent | CompleteAccepted
  | SasConfirmAccepted | TargetConfirmed | PayloadAccepted | CompleteSent
  | AbortStep

fun step_name_of :: "'p session_op \<Rightarrow> step_name" where
  "step_name_of (HandleOffer ev) = OfferAccepted"
| "step_name_of (ConfirmSas fr) = SasConfirmed"
| "step_name_of (SendPayload fr t p) = PayloadSent"
| "step_name_of (HandleComplete ev) = CompleteAccepted"
| "step_name_of (HandleSasConfirm ev) = SasConfirmAccepted"
| "step_name_of ConfirmTargetSas = TargetConfirmed"
| "step_name_of (HandlePayload ev) = PayloadAccepted"
| "step_name_of (SendComplete fr) = CompleteSent"
| "step_name_of (AbortCall fr r) = AbortStep"
| "step_name_of (HandleAbort ev) = AbortStep"

fun incoming :: "'p session_op \<Rightarrow> bytes list" where
  "incoming (HandleOffer ev) = [ev_id ev]"
| "incoming (HandleComplete ev) = [ev_id ev]"
| "incoming (HandleSasConfirm ev) = [ev_id ev]"
| "incoming (HandlePayload ev) = [ev_id ev]"
| "incoming (HandleAbort ev) = [ev_id ev]"
| "incoming _ = []"

fun session_step ::
  "('k, 'p) nostr_lib \<Rightarrow> nat \<Rightarrow> 'p session_op \<Rightarrow> ('k, 'p) pairing_session \<Rightarrow> ('k, 'p) pairing_session \<times> bool" where
  "session_step lib now (HandleOffer ev) s = map_prod id is_ok (handle_offer lib now ev s)"
| "session_step lib now (ConfirmSas fr) s = map_prod id is_ok (confirm_sas lib now fr s)"
| "session_step lib now (SendPayload fr t p) s = map_prod id is_ok (send_payload lib now fr t p s)"
| "session_step lib now (HandleComplete ev) s = map_prod id is_ok (handle_complete lib now ev s)"
| "session_step lib now (HandleSasConfirm ev) s = map_prod id is_ok (handle_sas_confirm lib now ev s)"
| "session_step lib now ConfirmTargetSas s = map_prod id is_ok (confirm_target_sas now s)"
| "session_step lib now (HandlePayload ev) s = map_prod id is_ok (handle_payload lib now ev s)"
| "session_step lib now (SendComplete fr) s = map_prod id is_ok (send_complete lib now fr s)"
| "session_step lib now (AbortCall fr r) s = map_prod id is_ok (abort lib fr r s)"
| "session_step lib now (HandleAbort ev) s = map_prod id is_ok (handle_abort lib ev s)"

fun session_run ::
  "('k, 'p) nostr_lib \<Rightarrow> (nat \<times> 'p session_op) list \<Rightarrow> ('k, 'p) pairing_session \<Rightarrow>
   ('k, 'p) pairing_session \<times> (nat \<times> 'p session_op) list" where
  "session_run lib [] s = (s, [])"
| "session_run lib ((now, op) # ops) s =
     (let (s1, ok) = session_step lib now op s; (s2, log) = session_run lib ops s1
      in (s2, if ok then (now, op) # log else log))"

fun protocol :: "role \<Rightarrow> step_name list" where
  "protocol Source = [OfferAccepted, SasConfirmed, PayloadSent, CompleteAccepted]"
| "protocol Target = [SasConfirmAccepted, TargetConfirmed, PayloadAccepted, CompleteSent]"

fun phases :: "role \<Rightarrow> session_state list" where
  "phases Source = [Waiting, Confirming, Transferring, PayloadExchanged, Completed]"
| "phases Target = [Confirming, AwaitingConfirmation, Transferring, PayloadExchanged, Completed]"

fun edges :: "role \<Rightarrow> (step_name \<times> session_state \<times> session_state) set" where
  "edges Source = {(OfferAccepted, Waiting, Confirming), (SasConfirmed, Confirming, Transferring),
     (PayloadSent, Transferring, PayloadExchanged), (CompleteAccepted, PayloadExchanged, Completed)}"
| "edges Target = {(SasConfirmAccepted, Confirming, AwaitingConfirmation),
     (TargetConfirmed, AwaitingConfirmation, Transferring),
     (PayloadAccepted, Transferring, PayloadExchanged), (CompleteSent, PayloadExchanged, Completed)}"

subsubsection \<open>The effect of one call\<close>

lemma expect_ok [simp]:
  "expect now st r s = Inr u \<longleftrightarrow> \<not> is_expired now s \<and> ps_state s = st \<and> ps_role s = r"
  by (auto simp: expect_def check_expired_def expect_state_def expect_role_def and_then_eq_Inr)

lemma basics_ok: "validate_event_basics lib ev s = Inr u \<Longrightarrow> ev_id ev \<notin> ps_processed_ids s"
  by (auto simp: validate_event_basics_def split: if_splits)

lemma from_peer_ok: "validate_event_from_peer lib ev s = Inr u \<Longrightarrow> ev_id ev \<notin> ps_processed_ids s"
  by (auto simp: validate_event_from_peer_def and_then_eq_Inr dest: basics_ok)

lemma record_event_fields [simp]:
  "ps_role (record_event ev s) = ps_role s" "ps_state (record_event ev s) = ps_state s"
  "ps_processed_ids (record_event ev s) = insert (ev_id ev) (ps_processed_ids s)"
  "ps_created_at (record_event ev s) = ps_created_at s" "ps_timeout (record_event ev s) = ps_timeout s"
  "ps_keys (record_event ev s) = ps_keys s" "ps_peer_pubkey (record_event ev s) = ps_peer_pubkey s"
  "ps_session_id (record_event ev s) = ps_session_id s" "ps_session_secret (record_event ev s) = ps_session_secret s"
  "ps_sas_code (record_event ev s) = ps_sas_code s" "ps_sas_input (record_event ev s) = ps_sas_input s"
  by (simp_all add: record_event_def)

definition keeps :: "('k, 'p) pairing_session \<Rightarrow> ('k, 'p) pairing_session \<Rightarrow> bool" where
  "keeps s s' \<longleftrightarrow> ps_role s' = ps_role s \<and> ps_created_at s' = ps_created_at s \<and> ps_timeout s' = ps_timeout s \<and>
     (ps_sas_code s \<noteq> None \<longrightarrow> ps_sas_code s' \<noteq> None)"

text \<open>A target knows its code from the start.\<close>

definition code_known :: "('k, 'p) pairing_session \<Rightarrow> bool" where
  "code_known s \<longleftrightarrow> (ps_role s = Target \<longrightarrow> ps_sas_code s \<noteq> None)"

text \<open>
  A successful call moves the session one phase of its role's protocol, or aborts it; a failing
  one leaves its phase or aborts it.
\<close>

definition call_effect ::
  "nat \<Rightarrow> step_name \<Rightarrow> bytes list \<Rightarrow> ('k, 'p) pairing_session \<Rightarrow> ('k, 'p) pairing_session \<Rightarrow> bool \<Rightarrow> bool" where
  "call_effect now name ids s s' ok \<longleftrightarrow> keeps s s' \<and>
     (if ok then set ids \<inter> ps_processed_ids s = {} \<and> ps_processed_ids s' = set ids \<union> ps_processed_ids s \<and>
        (if name = AbortStep then ps_state s \<notin> {Completed, Aborted} \<and> ps_state s' = Aborted
         else \<not> is_expired now s \<and> (name, ps_state s, ps_state s') \<in> edges (ps_role s))
      else ps_processed_ids s \<subseteq> ps_processed_ids s' \<and>
        (ps_state s' = ps_state s \<or> ps_state s \<notin> {Completed, Aborted} \<and> ps_state s' = Aborted))"

lemmas call_effect_simps = call_effect_def keeps_def

lemma handle_offer_effect:
  fixes s :: "('k, 'p) pairing_session"
  shows "call_effect now OfferAccepted [ev_id ev] s (fst (handle_offer lib now ev s)) (is_ok (snd (handle_offer lib now ev s)))"
proof (cases "and_then (expect now Waiting Source s) (\<lambda>_.
           and_then (validate_event_basics lib ev s) (\<lambda>_. decrypt_message lib ev s))")
  case (Inl e)
  then show ?thesis by (simp add: handle_offer_def call_effect_simps)
next
  case (Inr msg)
  then have s: "\<not> is_expired now s" "ps_state s = Waiting" "ps_role s = Source" "ev_id ev \<notin> ps_processed_ids s"
    by (auto simp: and_then_eq_Inr dest: basics_ok)
  from Inr s show ?thesis
    by (cases msg) (simp_all add: handle_offer_def call_effect_simps Let_def split: option.splits prod.splits)
qed

lemma confirm_sas_effect:
  fixes s :: "('k, 'p) pairing_session"
  shows "call_effect now SasConfirmed [] s (fst (confirm_sas lib now fr s)) (is_ok (snd (confirm_sas lib now fr s)))"
  by (auto simp: confirm_sas_def call_effect_simps Let_def and_then_eq_Inr split: option.splits sum.splits)

lemma send_payload_effect:
  fixes s :: "('k, 'p) pairing_session"
  shows "call_effect now PayloadSent [] s (fst (send_payload lib now fr t p s)) (is_ok (snd (send_payload lib now fr t p s)))"
  by (auto simp: send_payload_def call_effect_simps Let_def and_then_eq_Inr split: option.splits sum.splits)

lemma handle_complete_effect:
  fixes s :: "('k, 'p) pairing_session"
  shows "call_effect now CompleteAccepted [ev_id ev] s (fst (handle_complete lib now ev s)) (is_ok (snd (handle_complete lib now ev s)))"
proof (cases "and_then (expect now PayloadExchanged Source s) (\<lambda>_.
           and_then (validate_event_from_peer lib ev s) (\<lambda>_. decrypt_message lib ev s))")
  case (Inl e)
  then show ?thesis by (simp add: handle_complete_def call_effect_simps)
next
  case (Inr msg)
  then have s: "\<not> is_expired now s" "ps_state s = PayloadExchanged" "ps_role s = Source" "ev_id ev \<notin> ps_processed_ids s"
    by (auto simp: and_then_eq_Inr dest: from_peer_ok)
  from Inr s show ?thesis
    by (cases msg) (simp_all add: handle_complete_def call_effect_simps Let_def split: bool.splits)
qed

lemma handle_sas_confirm_effect:
  assumes "code_known s"
  shows "call_effect now SasConfirmAccepted [ev_id ev] s (fst (handle_sas_confirm lib now ev s)) (is_ok (snd (handle_sas_confirm lib now ev s)))"
proof (cases "and_then (expect now Confirming Target s) (\<lambda>_.
           and_then (validate_event_from_peer lib ev s) (\<lambda>_. decrypt_message lib ev s))")
  case (Inl e)
  then show ?thesis by (simp add: handle_sas_confirm_def call_effect_simps)
next
  case (Inr msg)
  then have s: "\<not> is_expired now s" "ps_state s = Confirming" "ps_role s = Target" "ev_id ev \<notin> ps_processed_ids s"
    by (auto simp: and_then_eq_Inr dest: from_peer_ok)
  from s assms obtain code where "ps_sas_code s = Some code" by (auto simp: code_known_def)
  with Inr s show ?thesis
    by (cases msg) (simp_all add: handle_sas_confirm_def call_effect_simps Let_def split: option.splits)
qed

lemma confirm_target_sas_effect:
  fixes s :: "('k, 'p) pairing_session"
  shows "call_effect now TargetConfirmed [] s (fst (confirm_target_sas now s)) (is_ok (snd (confirm_target_sas now s)))"
  by (auto simp: confirm_target_sas_def call_effect_simps Let_def and_then_eq_Inr split: option.splits sum.splits)

lemma handle_payload_effect:
  fixes s :: "('k, 'p) pairing_session"
  shows "call_effect now PayloadAccepted [ev_id ev] s (fst (handle_payload lib now ev s)) (is_ok (snd (handle_payload lib now ev s)))"
proof (cases "and_then (expect now Transferring Target s) (\<lambda>_.
           and_then (validate_event_from_peer lib ev s) (\<lambda>_. decrypt_message lib ev s))")
  case (Inl e)
  then show ?thesis by (simp add: handle_payload_def call_effect_simps)
next
  case (Inr msg)
  then have s: "\<not> is_expired now s" "ps_state s = Transferring" "ps_role s = Target" "ev_id ev \<notin> ps_processed_ids s"
    by (auto simp: and_then_eq_Inr dest: from_peer_ok)
  from Inr s show ?thesis
    by (cases msg) (simp_all add: handle_payload_def call_effect_simps Let_def split: option.splits)
qed

lemma send_complete_effect:
  fixes s :: "('k, 'p) pairing_session"
  shows "call_effect now CompleteSent [] s (fst (send_complete lib now fr s)) (is_ok (snd (send_complete lib now fr s)))"
  by (auto simp: send_complete_def call_effect_simps Let_def and_then_eq_Inr split: option.splits sum.splits)

lemma abort_effect:
  fixes s :: "('k, 'p) pairing_session"
  shows "call_effect now AbortStep [] s (fst (abort lib fr reason s)) (is_ok (snd (abort lib fr reason s)))"
  by (auto simp: abort_def call_effect_simps Let_def and_then_eq_Inr split: option.splits sum.splits)

lemma handle_abort_effect:
  fixes s :: "('k, 'p) pairing_session"
  shows "call_effect now AbortStep [ev_id ev] s (fst (handle_abort lib ev s)) (is_ok (snd (handle_abort lib ev s)))"
proof (cases "and_then (validate_event_from_peer lib ev s) (\<lambda>_. decrypt_message lib ev s)")
  case (Inl e)
  then show ?thesis by (simp add: handle_abort_def call_effect_simps)
next
  case (Inr msg)
  then have "ev_id ev \<notin> ps_processed_ids s" by (auto simp: and_then_eq_Inr dest: from_peer_ok)
  with Inr show ?thesis by (cases msg) (simp_all add: handle_abort_def call_effect_simps)
qed

lemma session_step_effect:
  assumes "code_known s"
  shows "call_effect now (step_name_of op) (incoming op) s (fst (session_step lib now op s)) (snd (session_step lib now op s))"
  using assms
  by (cases op) (simp_all add: handle_offer_effect confirm_sas_effect send_payload_effect handle_complete_effect
        handle_sas_confirm_effect confirm_target_sas_effect handle_payload_effect send_complete_effect
        abort_effect handle_abort_effect)

subsubsection \<open>The order of successful calls\<close>

abbreviation names :: "(nat \<times> 'p session_op) list \<Rightarrow> step_name list" where
  "names log \<equiv> map (\<lambda>c. step_name_of (snd c)) log"

abbreviation accepted_ids :: "(nat \<times> 'p session_op) list \<Rightarrow> bytes list" where
  "accepted_ids log \<equiv> concat (map (\<lambda>c. incoming (snd c)) log)"

lemma edge_phase:
  assumes "(name, phases r ! n, st') \<in> edges r" and "n \<le> 4"
  shows "n < 4 \<and> protocol r ! n = name \<and> st' = phases r ! Suc n"
proof -
  from assms(2) consider "n = 0" | "n = 1" | "n = 2" | "n = 3" | "n = 4" by linarith
  then show ?thesis using assms(1) by cases (cases r; auto simp: numeral_eq_Suc)+
qed

lemma phase_terminal: "n \<le> 4 \<Longrightarrow> phases r ! n \<notin> {Completed, Aborted} \<Longrightarrow> n < 4"
  by (cases "n = 4"; cases r) (auto simp: numeral_eq_Suc)

lemma step_code_known: "code_known s \<Longrightarrow> code_known (fst (session_step lib now op s))"
  using session_step_effect [of s now op lib] by (auto simp: call_effect_simps code_known_def)

lemma run_aborted:
  "code_known s \<Longrightarrow> ps_state s = Aborted \<Longrightarrow> session_run lib ops s = (s', log) \<Longrightarrow> log = [] \<and> ps_state s' = Aborted"
proof (induction lib ops s arbitrary: s' log rule: session_run.induct)
  case (2 lib now op ops s)
  note eff = session_step_effect [OF "2.prems"(1), of now op lib]
  have *: "\<not> snd (session_step lib now op s)" "ps_state (fst (session_step lib now op s)) = Aborted"
    using eff "2.prems"(2) by (cases "ps_role s"; auto simp: call_effect_simps split: if_splits)+
  have "session_run lib ops (fst (session_step lib now op s)) = (s', log)"
    using "2.prems"(3) *(1) by (auto simp: Let_def split_beta)
  then show ?case
    using "2.IH" [OF refl prod.collapse step_code_known [OF "2.prems"(1)] *(2)] by blast
qed simp

definition in_order :: "role \<Rightarrow> nat \<Rightarrow> step_name list \<Rightarrow> session_state \<Rightarrow> bool" where
  "in_order r n ns st \<longleftrightarrow> (\<exists>k\<le>4 - n. ns = take k (drop n (protocol r)) \<and> st \<in> {phases r ! (n + k), Aborted} \<or>
     n + k < 4 \<and> ns = take k (drop n (protocol r)) @ [AbortStep] \<and> st = Aborted)"

lemma protocol_length [simp]: "length (protocol r) = 4"
  by (cases r) simp_all

lemma in_order_step:
  assumes "n < 4" and "in_order r (Suc n) ns st"
  shows "in_order r n (protocol r ! n # ns) st"
proof -
  from assms(2) obtain k where k: "k \<le> 4 - Suc n"
    and alt: "ns = take k (drop (Suc n) (protocol r)) \<and> st \<in> {phases r ! (Suc n + k), Aborted} \<or>
      Suc n + k < 4 \<and> ns = take k (drop (Suc n) (protocol r)) @ [AbortStep] \<and> st = Aborted"
    by (auto simp: in_order_def)
  have "take (Suc k) (drop n (protocol r)) = protocol r ! n # take k (drop (Suc n) (protocol r))"
    using assms(1) by (simp add: Cons_nth_drop_Suc [symmetric])
  with k alt assms(1) show ?thesis unfolding in_order_def by (intro exI [of _ "Suc k"]) auto
qed

lemma in_order_stop: "n \<le> 4 \<Longrightarrow> in_order r n [] (phases r ! n)" "in_order r n [] Aborted"
  by (auto simp: in_order_def intro: exI [of _ 0])

lemma in_order_abort: "n < 4 \<Longrightarrow> in_order r n [AbortStep] Aborted"
  unfolding in_order_def by (intro exI [of _ 0]) simp

lemma run_in_order:
  "code_known s \<Longrightarrow> ps_state s = phases (ps_role s) ! n \<Longrightarrow> n \<le> 4 \<Longrightarrow> session_run lib ops s = (s', log) \<Longrightarrow>
   in_order (ps_role s) n (names log) (ps_state s')"
proof (induction lib ops s arbitrary: n s' log rule: session_run.induct)
  case (1 lib s)
  then show ?case using in_order_stop(1) by simp
next
  case (2 lib now op ops s)
  define s1 where "s1 = fst (session_step lib now op s)"
  define ok where "ok = snd (session_step lib now op s)"
  obtain log1 where run: "session_run lib ops s1 = (s', log1)" and log: "log = (if ok then (now, op) # log1 else log1)"
    using "2.prems"(4) by (auto simp: Let_def split_beta s1_def ok_def prod_eq_iff)
  note known = step_code_known [OF "2.prems"(1), of lib now op, folded s1_def]
  note eff = session_step_effect [OF "2.prems"(1), of now op lib, folded s1_def ok_def]
  have role: "ps_role s1 = ps_role s" using eff by (simp add: call_effect_simps)
  have IH: "in_order (ps_role s) m (names log1) (ps_state s')" if "ps_state s1 = phases (ps_role s) ! m" "m \<le> 4" for m
    using "2.IH" [OF refl prod.collapse, folded s1_def, OF known, of m s' log1] run that role by simp
  show ?case
  proof (cases "ps_state s1 = Aborted \<and> \<not> (ok \<and> step_name_of op \<noteq> AbortStep)")
    case True
    then have rest: "log1 = []" "ps_state s' = Aborted" using run_aborted [OF known _ run] by auto
    show ?thesis
    proof (cases ok)
      case ok: True
      with True eff "2.prems"(2,3) have "n < 4" using phase_terminal by (auto simp: call_effect_simps)
      then show ?thesis using True ok rest in_order_abort by (simp add: log)
    next
      case False
      then show ?thesis using rest in_order_stop(2) by (simp add: log)
    qed
  next
    case False
    show ?thesis
    proof (cases ok)
      case True
      with False eff have "step_name_of op \<noteq> AbortStep" "(step_name_of op, ps_state s, ps_state s1) \<in> edges (ps_role s)"
        by (auto simp: call_effect_simps split: if_splits)
      then have "n < 4" "protocol (ps_role s) ! n = step_name_of op" "ps_state s1 = phases (ps_role s) ! Suc n"
        using edge_phase "2.prems"(2,3) by auto
      then show ?thesis using in_order_step [of n "ps_role s" "names log1" "ps_state s'"] IH [of "Suc n"] True
        by (simp add: log)
    next
      case no: False
      with False eff have "ps_state s1 = ps_state s" by (auto simp: call_effect_simps)
      then show ?thesis using IH [of n] "2.prems"(2,3) no by (simp add: log)
    qed
  qed
qed

lemma incoming_distinct: "distinct (incoming op)"
  by (cases op) simp_all

lemma run_ids:
  "code_known s \<Longrightarrow> session_run lib ops s = (s', log) \<Longrightarrow>
   distinct (accepted_ids log) \<and> set (accepted_ids log) \<inter> ps_processed_ids s = {}"
proof (induction lib ops s arbitrary: s' log rule: session_run.induct)
  case (2 lib now op ops s)
  define s1 where "s1 = fst (session_step lib now op s)"
  define ok where "ok = snd (session_step lib now op s)"
  obtain log1 where run: "session_run lib ops s1 = (s', log1)" and log: "log = (if ok then (now, op) # log1 else log1)"
    using "2.prems"(2) by (auto simp: Let_def split_beta s1_def ok_def prod_eq_iff)
  note eff = session_step_effect [OF "2.prems"(1), of now op lib, folded s1_def ok_def]
  have "distinct (accepted_ids log1) \<and> set (accepted_ids log1) \<inter> ps_processed_ids s1 = {}"
    using "2.IH" [OF refl prod.collapse, folded s1_def, OF _ run] step_code_known [OF "2.prems"(1)] by (simp add: s1_def)
  then show ?case using eff incoming_distinct [of op]
    by (cases ok) (auto simp: log call_effect_simps)
qed simp

lemma run_timely:
  "code_known s \<Longrightarrow> session_run lib ops s = (s', log) \<Longrightarrow> (now, op) \<in> set log \<Longrightarrow>
   step_name_of op \<noteq> AbortStep \<Longrightarrow> now - ps_created_at s \<le> ps_timeout s"
proof (induction lib ops s arbitrary: s' log rule: session_run.induct)
  case (2 lib t c ops s)
  define s1 where "s1 = fst (session_step lib t c s)"
  define ok where "ok = snd (session_step lib t c s)"
  obtain log1 where run: "session_run lib ops s1 = (s', log1)" and log: "log = (if ok then (t, c) # log1 else log1)"
    using "2.prems"(2) by (auto simp: Let_def split_beta s1_def ok_def prod_eq_iff)
  note eff = session_step_effect [OF "2.prems"(1), of t c lib, folded s1_def ok_def]
  have keep: "ps_created_at s1 = ps_created_at s" "ps_timeout s1 = ps_timeout s" using eff by (auto simp: call_effect_simps)
  show ?case
  proof (cases "(now, op) \<in> set log1")
    case True
    then show ?thesis
      using "2.IH" [OF refl prod.collapse, folded s1_def, OF _ run _ "2.prems"(4)] step_code_known [OF "2.prems"(1)] keep
      by (simp add: s1_def)
  next
    case False
    then have "ok" "t = now" "c = op" using "2.prems"(3) by (auto simp: log split: if_splits)
    then show ?thesis using eff "2.prems"(4) by (simp add: call_effect_simps is_expired_def)
  qed
qed simp

text \<open>The sessions a pairing starts with.\<close>

definition initial :: "('k, 'p) nostr_lib \<Rightarrow> ('k, 'p) pairing_session \<Rightarrow> bool" where
  "initial lib s \<longleftrightarrow> (\<exists>keys secret now url. s = fst (new_source lib keys secret now url)) \<or>
     (\<exists>keys now fr qr ev. new_target lib keys now fr qr = Inr (s, ev))"

lemma initial_facts:
  assumes "initial lib s"
  shows "code_known s" "ps_state s = phases (ps_role s) ! 0" "ps_processed_ids s = {}" "ps_timeout s = DEFAULT_TIMEOUT"
proof -
  have "code_known s \<and> ps_state s = phases (ps_role s) ! 0 \<and> ps_processed_ids s = {} \<and> ps_timeout s = DEFAULT_TIMEOUT"
    using assms unfolding initial_def
  proof (elim disjE exE)
    fix keys secret now url assume "s = fst (new_source lib keys secret now url)"
    then show ?thesis by (simp add: new_source_def code_known_def)
  next
    fix keys now fr qr ev assume "new_target lib keys now fr qr = Inr (s, ev)"
    then show ?thesis by (auto simp: new_target_def code_known_def Let_def and_then_eq_Inr split: option.splits prod.splits)
  qed
  then show "code_known s" "ps_state s = phases (ps_role s) ! 0" "ps_processed_ids s = {}" "ps_timeout s = DEFAULT_TIMEOUT"
    by auto
qed

text \<open>
  C8. The protocol is followed whatever the caller and the network do: of any sequence of calls
  on a fresh session, the successful ones are a prefix of the role's four steps in order, each at
  most once, possibly ended by one abort before completion. So a target hands out a payload only
  after the source's confirmation was verified and the user approved, and a source sends one only
  after its user confirmed. Every step but an abort happens within the timeout.
\<close>

theorem pairing_protocol_order:
  assumes "initial lib s" and "session_run lib ops s = (s', log)"
  shows "(\<exists>k\<le>4. names log = take k (protocol (ps_role s)) \<or>
      k < 4 \<and> names log = take k (protocol (ps_role s)) @ [AbortStep] \<and> ps_state s' = Aborted) \<and>
    (\<forall>(now, op)\<in>set log. step_name_of op \<noteq> AbortStep \<longrightarrow> now - ps_created_at s \<le> DEFAULT_TIMEOUT)"
proof -
  note init = initial_facts [OF assms(1)]
  have "in_order (ps_role s) 0 (names log) (ps_state s')"
    by (rule run_in_order [OF init(1,2) _ assms(2)]) simp
  then have "\<exists>k\<le>4. names log = take k (protocol (ps_role s)) \<or>
      k < 4 \<and> names log = take k (protocol (ps_role s)) @ [AbortStep] \<and> ps_state s' = Aborted"
    by (auto simp: in_order_def)
  then show ?thesis using run_timely [OF init(1) assms(2)] init(4) by auto
qed

text \<open>
  No event is processed twice: the events a session accepts over any sequence of calls have
  distinct identifiers, re-deliveries included.
\<close>

theorem accepted_events_distinct:
  assumes "initial lib s" and "session_run lib ops s = (s', log)"
  shows "distinct (accepted_ids log)"
  using run_ids [OF initial_facts(1) [OF assms(1)] assms(2)] by blast

end
