(* ===== verification/Pairing_Exchange.thy ===== *)
theory Pairing_Exchange
  imports Pairing_Session
begin

section \<open>A complete pairing\<close>

text \<open>
  What the two session machines achieve together: under the documented behaviour of the
  cryptographic library, a source and a target that exchange their events in order show the same
  authentication string and complete, and the target receives the payload the source sent.
\<close>

declare expect_ok [simp del]

definition lib_laws :: "('k, 'p) nostr_lib \<Rightarrow> bool" where
  "lib_laws lib \<longleftrightarrow>
     (\<forall>a b. \<exists>z. shared_key lib a (public_key lib b) = Some z \<and> shared_key lib b (public_key lib a) = Some z) \<and>
     (\<forall>n a b pt ct. nip44_encrypt lib n a (public_key lib b) pt = Some ct \<longrightarrow>
        nip44_decrypt lib b (public_key lib a) ct = Some pt) \<and>
     (\<forall>n a p pt. pt \<noteq> [] \<and> length pt \<le> 65535 \<longrightarrow>
        (\<exists>ct. nip44_encrypt lib n a p pt = Some ct \<and> 132 \<le> length ct \<and> length ct \<le> 87472)) \<and>
     (\<forall>m. \<exists>j. to_json lib m = Some j \<and> j \<noteq> [] \<and> from_json lib j = Some m) \<and>
     (\<forall>b. hex_decode lib (hex_encode lib b) = Some b) \<and>
     (\<forall>prk info. length (hk_expand (nl_hkdf lib) prk info 32) = 32) \<and>
     (\<forall>k d. \<exists>ev. sign_with_keys lib k d = Some ev \<and> verify_event lib ev \<and> ev_pubkey ev = public_key lib k \<and>
        ev_kind ev = dr_kind d \<and> ev_tags ev = dr_tags d \<and> ev_content ev = dr_content d) \<and>
     (\<forall>k d k' d' e e'. sign_with_keys lib k d = Some e \<and> sign_with_keys lib k' d' = Some e' \<and> ev_id e = ev_id e' \<longrightarrow>
        ev_content e = ev_content e')"

text \<open>The serialized message respects the size limit of the protocol.\<close>

definition fits :: "('k, 'p) nostr_lib \<Rightarrow> pairing_message \<Rightarrow> bool" where
  "fits lib m \<longleftrightarrow> (\<forall>j. to_json lib m = Some j \<longrightarrow> length j \<le> 65535)"

subsection \<open>Delivery of one event\<close>

lemma build_event_ok:
  assumes laws: "lib_laws lib" and "fits lib m" and "ps_peer_pubkey s = Some (public_key lib b)"
  shows "\<exists>ev. build_event lib fr m s = Inr ev \<and> verify_event lib ev \<and> ev_pubkey ev = public_key lib (ps_keys s) \<and>
    ev_kind ev = PAIRING_KIND \<and> ev_tags ev = [[''p'', pk_hex lib (public_key lib b)]] \<and>
    132 \<le> length (ev_content ev) \<and> length (ev_content ev) \<le> 87472 \<and>
    (\<exists>j. nip44_decrypt lib b (public_key lib (ps_keys s)) (ev_content ev) = Some j \<and> length j \<le> 65535 \<and> from_json lib j = Some m)"
proof -
  obtain j where j: "to_json lib m = Some j" "j \<noteq> []" "from_json lib j = Some m"
    using laws unfolding lib_laws_def by meson
  have len: "length j \<le> 65535" using assms(2) j(1) by (simp add: fits_def)
  obtain ct where ct: "nip44_encrypt lib (fr_nonce fr) (ps_keys s) (public_key lib b) j = Some ct"
      "132 \<le> length ct" "length ct \<le> 87472"
    using laws j(2) len unfolding lib_laws_def by meson
  have dec: "nip44_decrypt lib b (public_key lib (ps_keys s)) ct = Some j"
    using laws ct(1) unfolding lib_laws_def by meson
  let ?d = "\<lparr>dr_kind = PAIRING_KIND, dr_content = ct, dr_tags = [[''p'', pk_hex lib (public_key lib b)]],
      dr_created_at = fr_now fr - fr_jitter fr mod 31\<rparr>"
  obtain ev where ev: "sign_with_keys lib (ps_keys s) ?d = Some ev" "verify_event lib ev"
      "ev_pubkey ev = public_key lib (ps_keys s)" "ev_kind ev = dr_kind ?d" "ev_tags ev = dr_tags ?d"
      "ev_content ev = dr_content ?d"
    using laws unfolding lib_laws_def by meson
  have "build_event lib fr m s = Inr ev"
    using assms(3) j(1) ct(1) ev(1) by (simp add: build_event_def Let_def)
  with ev ct dec j(3) len show ?thesis by auto
qed

text \<open>An event that carries a message from one key to another.\<close>

definition sent :: "('k, 'p) nostr_lib \<Rightarrow> 'k \<Rightarrow> 'k \<Rightarrow> pairing_message \<Rightarrow> 'p pairing_event \<Rightarrow> bool" where
  "sent lib a b m ev \<longleftrightarrow> ev_pubkey ev = public_key lib a \<and> (\<exists>k d. sign_with_keys lib k d = Some ev) \<and>
     (\<forall>q. ps_keys q = b \<longrightarrow> decrypt_message lib ev q = Inr m \<and>
        (ev_id ev \<notin> ps_processed_ids q \<longrightarrow> validate_event_basics lib ev q = Inr ()))"

lemma build_event_sent:
  assumes laws: "lib_laws lib" and "fits lib m" and "ps_peer_pubkey s = Some (public_key lib b)"
  shows "\<exists>ev. build_event lib fr m s = Inr ev \<and> sent lib (ps_keys s) b m ev"
proof -
  from build_event_ok [OF assms, of fr] obtain ev j where ev: "build_event lib fr m s = Inr ev" "verify_event lib ev"
      "ev_pubkey ev = public_key lib (ps_keys s)" "ev_kind ev = PAIRING_KIND"
      "ev_tags ev = [[''p'', pk_hex lib (public_key lib b)]]"
      "132 \<le> length (ev_content ev)" "length (ev_content ev) \<le> 87472"
      "nip44_decrypt lib b (public_key lib (ps_keys s)) (ev_content ev) = Some j" "length j \<le> 65535"
      "from_json lib j = Some m"
    by blast
  have "\<exists>k d. sign_with_keys lib k d = Some ev"
    using ev(1) by (auto simp: build_event_def Let_def split: option.splits)
  with ev show ?thesis
    by (auto simp: sent_def validate_event_basics_def decrypt_message_def Let_def)
qed

lemma sent_ids:
  assumes "lib_laws lib" and "sent lib a b m ev" and "sent lib a b m' ev'" and "m \<noteq> m'"
  shows "ev_id ev \<noteq> ev_id ev'"
proof
  assume ids: "ev_id ev = ev_id ev'"
  obtain k d k' d' where "sign_with_keys lib k d = Some ev" "sign_with_keys lib k' d' = Some ev'"
    using assms(2,3) by (auto simp: sent_def)
  with ids assms(1) have content: "ev_content ev = ev_content ev'" unfolding lib_laws_def by meson
  obtain q :: "('a, 'b) pairing_session" where q: "ps_keys q = b"
    by (rule that [of "\<lparr>ps_role = Source, ps_state = Waiting, ps_keys = b, ps_session_secret = [], ps_relay_urls = [],
        ps_peer_pubkey = None, ps_session_id = [], ps_sas_code = None, ps_sas_input = None, ps_processed_ids = {},
        ps_created_at = 0, ps_timeout = 0\<rparr>"]) simp
  have "decrypt_message lib ev q = decrypt_message lib ev' q"
    using assms(2,3) content by (simp add: sent_def decrypt_message_def Let_def)
  then show False using assms(2-4) q by (simp add: sent_def)
qed

subsection \<open>The states of the two sides\<close>

definition side_at ::
  "('k, 'p) nostr_lib \<Rightarrow> bytes \<Rightarrow> bytes \<Rightarrow> nat \<Rightarrow> role \<Rightarrow> 'k \<Rightarrow> 'k \<Rightarrow> session_state \<Rightarrow> bytes set \<Rightarrow>
   ('k, 'p) pairing_session \<Rightarrow> bool" where
  "side_at lib secret z c r own peer st ids s \<longleftrightarrow>
     ps_role s = r \<and> ps_state s = st \<and> ps_keys s = own \<and> ps_session_secret s = secret \<and>
     ps_session_id s = derive_session_id (nl_hkdf lib) secret \<and> ps_peer_pubkey s = Some (public_key lib peer) \<and>
     ps_sas_code s = Some (fst (derive_sas (nl_hkdf lib) z secret)) \<and>
     ps_sas_input s = Some (snd (derive_sas (nl_hkdf lib) z secret)) \<and>
     ps_processed_ids s = ids \<and> ps_created_at s = c \<and> ps_timeout s = DEFAULT_TIMEOUT"

definition the_hash :: "('k, 'p) nostr_lib \<Rightarrow> bytes \<Rightarrow> bytes \<Rightarrow> 'k \<Rightarrow> 'k \<Rightarrow> bytes" where
  "the_hash lib secret z source target =
     derive_transcript_hash (nl_hkdf lib) (derive_session_id (nl_hkdf lib) secret)
       (pk_bytes lib (public_key lib source)) (pk_bytes lib (public_key lib target))
       (snd (derive_sas (nl_hkdf lib) z secret)) secret"

lemma hkdf_32: "lib_laws lib \<Longrightarrow> length (hkdf32 (nl_hkdf lib) salt ikm info) = 32"
  by (simp add: lib_laws_def hkdf32_def Let_def)

lemma decode32_hex: "lib_laws lib \<Longrightarrow> length b = 32 \<Longrightarrow> decode32 lib (hex_encode lib b) = Some b"
  by (simp add: lib_laws_def decode32_def)

lemma expect_side:
  "side_at lib secret z c r own peer st ids s \<Longrightarrow> now - c \<le> DEFAULT_TIMEOUT \<Longrightarrow> expect now st r s = Inr ()"
  by (simp add: expect_ok side_at_def is_expired_def)

lemma from_peer_side:
  "side_at lib secret z c r own peer st ids s \<Longrightarrow> sent lib peer own m ev \<Longrightarrow> ev_id ev \<notin> ids \<Longrightarrow>
   validate_event_from_peer lib ev s = Inr () \<and> decrypt_message lib ev s = Inr m"
  by (simp add: side_at_def sent_def validate_event_from_peer_def)

lemma confirm_sas_side:
  assumes "lib_laws lib" and s: "side_at lib secret z c Source ks kt Confirming ids s" and t: "now - c \<le> DEFAULT_TIMEOUT"
    and "fits lib (SasConfirm (hex_encode lib (the_hash lib secret z ks kt)))"
  shows "\<exists>s' ev. confirm_sas lib now fr s = (s', Inr ev) \<and> side_at lib secret z c Source ks kt Transferring ids s' \<and>
    sent lib ks kt (SasConfirm (hex_encode lib (the_hash lib secret z ks kt))) ev"
proof -
  let ?m = "SasConfirm (hex_encode lib (the_hash lib secret z ks kt))"
  obtain ev where ev: "build_event lib fr ?m s = Inr ev" "sent lib (ps_keys s) kt ?m ev"
    using build_event_sent [OF assms(1,4), of s kt fr] s by (auto simp: side_at_def)
  have "confirm_sas lib now fr s = (s\<lparr>ps_state := Transferring\<rparr>, Inr ev)"
    using expect_side [OF s t] ev(1) s by (simp add: confirm_sas_def side_at_def the_hash_def Let_def)
  moreover have "side_at lib secret z c Source ks kt Transferring ids (s\<lparr>ps_state := Transferring\<rparr>)" "ps_keys s = ks"
    using s by (simp_all add: side_at_def)
  ultimately show ?thesis using ev(2) by auto
qed

lemma handle_sas_confirm_side:
  assumes "lib_laws lib" and t: "side_at lib secret z c Target kt ks Confirming ids t" and "now - c \<le> DEFAULT_TIMEOUT"
    and ev: "sent lib ks kt (SasConfirm (hex_encode lib (the_hash lib secret z ks kt))) ev" "ev_id ev \<notin> ids"
  shows "\<exists>t'. handle_sas_confirm lib now ev t = (t', Inr (format_sas (fst (derive_sas (nl_hkdf lib) z secret)))) \<and>
    side_at lib secret z c Target kt ks AwaitingConfirmation (insert (ev_id ev) ids) t'"
proof -
  have "decode32 lib (hex_encode lib (the_hash lib secret z ks kt)) = Some (the_hash lib secret z ks kt)"
    using assms(1) by (simp add: decode32_hex the_hash_def derive_transcript_hash_def hkdf_32 Let_def)
  then show ?thesis
    using expect_side [OF t assms(3)] from_peer_side [OF t ev] t
    by (simp add: handle_sas_confirm_def side_at_def the_hash_def ct_eq_def Let_def)
qed

lemma confirm_target_side:
  "side_at lib secret z c Target kt ks AwaitingConfirmation ids t \<Longrightarrow> now - c \<le> DEFAULT_TIMEOUT \<Longrightarrow>
   \<exists>t'. confirm_target_sas now t = (t', Inr ()) \<and> side_at lib secret z c Target kt ks Transferring ids t'"
  using expect_side [of lib secret z c Target kt ks AwaitingConfirmation ids t now]
  by (simp add: confirm_target_sas_def) (simp add: side_at_def)

lemma send_payload_side:
  assumes "lib_laws lib" and s: "side_at lib secret z c Source ks kt Transferring ids s" and t: "now - c \<le> DEFAULT_TIMEOUT"
    and "fits lib (Payload ty pl)"
  shows "\<exists>s' ev. send_payload lib now fr ty pl s = (s', Inr ev) \<and>
    side_at lib secret z c Source ks kt PayloadExchanged ids s' \<and> sent lib ks kt (Payload ty pl) ev"
proof -
  obtain ev where ev: "build_event lib fr (Payload ty pl) s = Inr ev" "sent lib (ps_keys s) kt (Payload ty pl) ev"
    using build_event_sent [OF assms(1,4), of s kt fr] s by (auto simp: side_at_def)
  have "send_payload lib now fr ty pl s = (s\<lparr>ps_state := PayloadExchanged\<rparr>, Inr ev)"
    using expect_side [OF s t] ev(1) by (simp add: send_payload_def)
  moreover have "side_at lib secret z c Source ks kt PayloadExchanged ids (s\<lparr>ps_state := PayloadExchanged\<rparr>)" "ps_keys s = ks"
    using s by (simp_all add: side_at_def)
  ultimately show ?thesis using ev(2) by auto
qed

lemma handle_payload_side:
  assumes t: "side_at lib secret z c Target kt ks Transferring ids t" and "now - c \<le> DEFAULT_TIMEOUT"
    and ev: "sent lib ks kt (Payload ty pl) ev" "ev_id ev \<notin> ids"
  shows "\<exists>t'. handle_payload lib now ev t = (t', Inr (ty, pl)) \<and>
    side_at lib secret z c Target kt ks PayloadExchanged (insert (ev_id ev) ids) t'"
  using expect_side [OF t assms(2)] from_peer_side [OF t ev] t
  by (simp add: handle_payload_def) (simp add: side_at_def)

lemma send_complete_side:
  assumes "lib_laws lib" and s: "side_at lib secret z c Target kt ks PayloadExchanged ids s" and t: "now - c \<le> DEFAULT_TIMEOUT"
    and "fits lib (Complete True)"
  shows "\<exists>s' ev. send_complete lib now fr s = (s', Inr ev) \<and>
    side_at lib secret z c Target kt ks Completed ids s' \<and> sent lib kt ks (Complete True) ev"
proof -
  obtain ev where ev: "build_event lib fr (Complete True) s = Inr ev" "sent lib (ps_keys s) ks (Complete True) ev"
    using build_event_sent [OF assms(1,4), of s ks fr] s by (auto simp: side_at_def)
  have "send_complete lib now fr s = (s\<lparr>ps_state := Completed\<rparr>, Inr ev)"
    using expect_side [OF s t] ev(1) by (simp add: send_complete_def)
  moreover have "side_at lib secret z c Target kt ks Completed ids (s\<lparr>ps_state := Completed\<rparr>)" "ps_keys s = kt"
    using s by (simp_all add: side_at_def)
  ultimately show ?thesis using ev(2) by auto
qed

lemma handle_complete_side:
  assumes s: "side_at lib secret z c Source ks kt PayloadExchanged ids s" and "now - c \<le> DEFAULT_TIMEOUT"
    and ev: "sent lib kt ks (Complete True) ev" "ev_id ev \<notin> ids"
  shows "\<exists>s'. handle_complete lib now ev s = (s', Inr ()) \<and> ps_state s' = Completed"
  using expect_side [OF s assms(2)] from_peer_side [OF s ev] by (simp add: handle_complete_def)

lemma new_target_side:
  assumes "lib_laws lib" and "shared_key lib kt (public_key lib ks) = Some z"
    and "fits lib (Offer (hex_encode lib (derive_session_id (nl_hkdf lib) secret)) 1)"
    and "qr_source_pubkey qr = public_key lib ks" "qr_session_secret qr = secret"
  shows "\<exists>t ev. new_target lib kt c fr qr = Inr (t, ev) \<and> side_at lib secret z c Target kt ks Confirming {} t \<and>
    sent lib kt ks (Offer (hex_encode lib (derive_session_id (nl_hkdf lib) secret)) 1) ev"
proof -
  let ?m = "Offer (hex_encode lib (derive_session_id (nl_hkdf lib) secret)) 1"
  let ?s = "\<lparr>ps_role = Target, ps_state = Waiting, ps_keys = kt, ps_session_secret = secret, ps_relay_urls = qr_relays qr,
     ps_peer_pubkey = Some (public_key lib ks), ps_session_id = derive_session_id (nl_hkdf lib) secret,
     ps_sas_code = Some (fst (derive_sas (nl_hkdf lib) z secret)), ps_sas_input = Some (snd (derive_sas (nl_hkdf lib) z secret)),
     ps_processed_ids = {}, ps_created_at = c, ps_timeout = DEFAULT_TIMEOUT\<rparr>"
  obtain ev where ev: "build_event lib fr ?m ?s = Inr ev" "sent lib (ps_keys ?s) ks ?m ev"
    using build_event_sent [OF assms(1,3), of ?s ks fr] by auto
  have "new_target lib kt c fr qr = Inr (?s\<lparr>ps_state := Confirming\<rparr>, ev)"
    using assms(2,4,5) ev(1) by (simp add: new_target_def Let_def split_beta)
  moreover have "side_at lib secret z c Target kt ks Confirming {} (?s\<lparr>ps_state := Confirming\<rparr>)"
    by (simp add: side_at_def)
  ultimately show ?thesis using ev(2) by auto
qed

lemma handle_offer_side:
  assumes "lib_laws lib" and "shared_key lib ks (public_key lib kt) = Some z" and "now - c \<le> DEFAULT_TIMEOUT"
    and ev: "sent lib kt ks (Offer (hex_encode lib (derive_session_id (nl_hkdf lib) secret)) 1) ev"
  shows "\<exists>s. handle_offer lib now ev (fst (new_source lib ks secret c url)) =
      (s, Inr (format_sas (fst (derive_sas (nl_hkdf lib) z secret)))) \<and>
    side_at lib secret z c Source ks kt Confirming {ev_id ev} s"
proof -
  let ?s = "fst (new_source lib ks secret c url)"
  have f: "ps_role ?s = Source" "ps_state ?s = Waiting" "ps_keys ?s = ks" "ps_session_secret ?s = secret"
      "ps_session_id ?s = derive_session_id (nl_hkdf lib) secret" "ps_processed_ids ?s = {}"
      "ps_created_at ?s = c" "ps_timeout ?s = DEFAULT_TIMEOUT"
    by (simp_all add: new_source_def)
  have e: "expect now Waiting Source ?s = Inr ()" using f assms(3) by (simp add: expect_ok is_expired_def)
  have v: "validate_event_basics lib ev ?s = Inr ()"
      "decrypt_message lib ev ?s = Inr (Offer (hex_encode lib (derive_session_id (nl_hkdf lib) secret)) 1)"
      "ev_pubkey ev = public_key lib kt"
    using ev f by (auto simp: sent_def)
  have d: "decode32 lib (hex_encode lib (derive_session_id (nl_hkdf lib) secret)) = Some (derive_session_id (nl_hkdf lib) secret)"
    using assms(1) by (simp add: decode32_hex derive_session_id_def hkdf_32)
  show ?thesis
    using f assms(2) by (simp add: handle_offer_def e v d ct_eq_def Let_def split_beta side_at_def)
qed

text \<open>
  C32. An undisturbed pairing succeeds: when the library behaves as documented, the serialized
  messages fit and the calls happen within the timeout, every call of the protocol succeeds, both
  devices show the same authentication string, the target receives exactly the payload that was
  sent, and both sessions are completed.
\<close>

theorem honest_pairing_completes:
  assumes "lib_laws lib"
    and "fits lib (Offer (hex_encode lib (derive_session_id (nl_hkdf lib) secret)) 1)"
    and "\<And>z. fits lib (SasConfirm (hex_encode lib (the_hash lib secret z ks kt)))"
    and "fits lib (Payload ty pl)" and "fits lib (Complete True)"
    and "\<And>i j. clock i - clock j \<le> DEFAULT_TIMEOUT"
    and "new_source lib ks secret (clock 0) url = (s0, qr)"
  shows "\<exists>t0 offer s1 sas s2 confirm t1 t2 s3 payload t3 t4 complete s4.
    new_target lib kt (clock 1) (fr 1) qr = Inr (t0, offer) \<and>
    handle_offer lib (clock 2) offer s0 = (s1, Inr sas) \<and>
    confirm_sas lib (clock 3) (fr 3) s1 = (s2, Inr confirm) \<and>
    handle_sas_confirm lib (clock 4) confirm t0 = (t1, Inr sas) \<and>
    confirm_target_sas (clock 5) t1 = (t2, Inr ()) \<and>
    send_payload lib (clock 6) (fr 6) ty pl s2 = (s3, Inr payload) \<and>
    handle_payload lib (clock 7) payload t2 = (t3, Inr (ty, pl)) \<and>
    send_complete lib (clock 8) (fr 8) t3 = (t4, Inr complete) \<and>
    handle_complete lib (clock 9) complete s3 = (s4, Inr ()) \<and>
    ps_state t4 = Completed \<and> ps_state s4 = Completed"
proof -
  note laws = assms(1)
  obtain z where z: "shared_key lib ks (public_key lib kt) = Some z" "shared_key lib kt (public_key lib ks) = Some z"
    using laws unfolding lib_laws_def by meson
  have qr: "qr_source_pubkey qr = public_key lib ks" "qr_session_secret qr = secret" and s0: "s0 = fst (new_source lib ks secret (clock 0) url)"
    using assms(7) by (auto simp: new_source_def Let_def)
  let ?offer = "Offer (hex_encode lib (derive_session_id (nl_hkdf lib) secret)) 1"
  obtain t0 offer where t0: "new_target lib kt (clock 1) (fr 1) qr = Inr (t0, offer)"
      "side_at lib secret z (clock 1) Target kt ks Confirming {} t0" "sent lib kt ks ?offer offer"
    using new_target_side [OF laws z(2) assms(2) qr] by blast
  obtain s1 where s1: "handle_offer lib (clock 2) offer s0 = (s1, Inr (format_sas (fst (derive_sas (nl_hkdf lib) z secret))))"
      "side_at lib secret z (clock 0) Source ks kt Confirming {ev_id offer} s1"
    using handle_offer_side [OF laws z(1) assms(6) t0(3)] unfolding s0 by blast
  obtain s2 confirm where s2: "confirm_sas lib (clock 3) (fr 3) s1 = (s2, Inr confirm)"
      "side_at lib secret z (clock 0) Source ks kt Transferring {ev_id offer} s2"
      "sent lib ks kt (SasConfirm (hex_encode lib (the_hash lib secret z ks kt))) confirm"
    using confirm_sas_side [OF laws s1(2) assms(6,3)] by blast
  obtain t1 where t1: "handle_sas_confirm lib (clock 4) confirm t0 = (t1, Inr (format_sas (fst (derive_sas (nl_hkdf lib) z secret))))"
      "side_at lib secret z (clock 1) Target kt ks AwaitingConfirmation {ev_id confirm} t1"
    using handle_sas_confirm_side [OF laws t0(2) assms(6) s2(3)] by blast
  obtain t2 where t2: "confirm_target_sas (clock 5) t1 = (t2, Inr ())"
      "side_at lib secret z (clock 1) Target kt ks Transferring {ev_id confirm} t2"
    using confirm_target_side [OF t1(2) assms(6)] by blast
  obtain s3 payload where s3: "send_payload lib (clock 6) (fr 6) ty pl s2 = (s3, Inr payload)"
      "side_at lib secret z (clock 0) Source ks kt PayloadExchanged {ev_id offer} s3" "sent lib ks kt (Payload ty pl) payload"
    using send_payload_side [OF laws s2(2) assms(6,4)] by blast
  have "ev_id payload \<notin> {ev_id confirm}" using sent_ids [OF laws s3(3) s2(3)] by simp
  then obtain t3 where t3: "handle_payload lib (clock 7) payload t2 = (t3, Inr (ty, pl))"
      "side_at lib secret z (clock 1) Target kt ks PayloadExchanged (insert (ev_id payload) {ev_id confirm}) t3"
    using handle_payload_side [OF t2(2) assms(6) s3(3)] by blast
  obtain t4 complete where t4: "send_complete lib (clock 8) (fr 8) t3 = (t4, Inr complete)"
      "side_at lib secret z (clock 1) Target kt ks Completed (insert (ev_id payload) {ev_id confirm}) t4"
      "sent lib kt ks (Complete True) complete"
    using send_complete_side [OF laws t3(2) assms(6,5)] by blast
  have "ev_id complete \<notin> {ev_id offer}" using sent_ids [OF laws t4(3) t0(3)] by simp
  then obtain s4 where s4: "handle_complete lib (clock 9) complete s3 = (s4, Inr ())" "ps_state s4 = Completed"
    using handle_complete_side [OF s3(2) assms(6) t4(3)] by blast
  show ?thesis using t0(1) s1(1) s2(1) t1(1) t2(1) s3(1) t3(1) t4 s4 by (auto simp: side_at_def)
qed

subsection \<open>A library that satisfies the laws\<close>

fun type_char :: "payload_type \<Rightarrow> char" where
  "type_char Nsec = CHR ''n''" | "type_char Bunker = CHR ''b''" | "type_char Connect = CHR ''c''" | "type_char CustomPayload = CHR ''u''"

fun reason_char :: "abort_reason \<Rightarrow> char" where
  "reason_char SasMismatchReason = CHR ''s''" | "reason_char UserDenied = CHR ''d''" | "reason_char TimeoutReason = CHR ''t''"
| "reason_char ProtocolError = CHR ''p''" | "reason_char UnknownReason = CHR ''u''"

fun demo_to_json :: "pairing_message \<Rightarrow> string" where
  "demo_to_json (Offer s v) = CHR ''O'' # decimal (unat v) @ CHR '':'' # s"
| "demo_to_json (SasConfirm h) = CHR ''S'' # h"
| "demo_to_json (Payload t p) = CHR ''P'' # type_char t # p"
| "demo_to_json (Complete b) = CHR ''C'' # (if b then ''1'' else ''0'')"
| "demo_to_json (Abort r) = [CHR ''A'', reason_char r]"

definition demo_from_json :: "string \<Rightarrow> pairing_message option" where
  "demo_from_json j =
     (case j of
        [] \<Rightarrow> None
      | c # rest \<Rightarrow>
          if c = CHR ''O'' then Some (Offer (tl (dropWhile (\<lambda>x. x \<noteq> CHR '':'') rest))
            (word_of_nat (decimal_value 0 (takeWhile (\<lambda>x. x \<noteq> CHR '':'') rest))))
          else if c = CHR ''S'' then Some (SasConfirm rest)
          else if c = CHR ''P'' then map_option (\<lambda>t. Payload t (tl rest))
            (find (\<lambda>t. [type_char t] = take 1 rest) [Nsec, Bunker, Connect, CustomPayload])
          else if c = CHR ''C'' then Some (Complete (rest = ''1''))
          else map_option Abort
            (find (\<lambda>r. [reason_char r] = rest) [SasMismatchReason, UserDenied, TimeoutReason, ProtocolError, UnknownReason]))"

lemma demo_json: "demo_from_json (demo_to_json m) = Some m"
proof (cases m)
  case (Offer s v)
  have colon: "x \<noteq> CHR '':''" if "x \<in> set (decimal n)" for x n
    using decimal_digits [OF that] by (auto simp: is_ascii_digit_def byte_def)
  then have "takeWhile (\<lambda>x. x \<noteq> CHR '':'') (decimal n @ CHR '':'' # s) = decimal n"
      "dropWhile (\<lambda>x. x \<noteq> CHR '':'') (decimal n @ CHR '':'' # s) = CHR '':'' # s" for n
    by (auto simp: takeWhile_append2 dropWhile_append2)
  then show ?thesis using Offer by (simp add: demo_from_json_def decimal_inverse)
next
  case (Payload t p)
  then show ?thesis by (cases t) (simp_all add: demo_from_json_def)
next
  case (Abort r)
  then show ?thesis by (cases r) (simp_all add: demo_from_json_def)
qed (simp_all add: demo_from_json_def)

definition demo_lib :: "(nat, nat) nostr_lib" where
  "demo_lib = \<lparr>nl_hkdf = \<lparr>hk_extract = \<lambda>salt ikm. salt @ ikm, hk_expand = \<lambda>prk info n. take n (prk @ replicate n 0)\<rparr>,
     public_key = (\<lambda>k. k), pk_hex = decimal, pk_bytes = (\<lambda>p. [word_of_nat p]),
     shared_key = (\<lambda>k p. Some (replicate 32 (word_of_nat (k + p)))),
     nip44_encrypt = (\<lambda>n k p pt. Some (replicate 132 (CHR ''x'') @ pt)),
     nip44_decrypt = (\<lambda>k p ct. Some (drop 132 ct)),
     to_json = (\<lambda>m. Some (demo_to_json m)), from_json = demo_from_json,
     hex_encode = map (\<lambda>w. char_of (unat w)), hex_decode = (\<lambda>s. Some (ascii_bytes s)),
     sign_with_keys = (\<lambda>k d. Some \<lparr>ev_id = ascii_bytes (dr_content d), ev_pubkey = k, ev_created_at = dr_created_at d,
       ev_kind = dr_kind d, ev_tags = dr_tags d, ev_content = dr_content d\<rparr>),
     verify_event = (\<lambda>ev. True)\<rparr>"

lemma byte_word_inj: "(word_of_nat (byte c) :: 8 word) = word_of_nat (byte d) \<longleftrightarrow> c = d"
proof
  assume "(word_of_nat (byte c) :: 8 word) = word_of_nat (byte d)"
  then have "unat (word_of_nat (byte c) :: 8 word) = unat (word_of_nat (byte d) :: 8 word)" by simp
  moreover have "byte x < 256" for x by (simp add: byte_def)
  ultimately have "byte c = byte d" by (simp add: unat_of_nat)
  then show "c = d" by (simp add: byte_def)
qed simp

lemma ascii_bytes_inj: "ascii_bytes s = ascii_bytes t \<longleftrightarrow> s = t"
  unfolding ascii_bytes_def by (rule inj_map_eq_map) (auto simp: inj_def byte_word_inj)

lemma ascii_bytes_char_of: "ascii_bytes (map (\<lambda>w. char_of (unat w)) b) = b"
proof -
  have "(word_of_nat (byte (char_of (unat w))) :: 8 word) = w" for w :: "8 word"
  proof -
    have "unat w < 256" using unsigned_less [of w] by simp
    then show ?thesis by (simp add: byte_def)
  qed
  then show ?thesis by (simp add: ascii_bytes_def o_def)
qed

lemma demo_lib_laws: "lib_laws demo_lib"
proof -
  have "demo_to_json m \<noteq> []" for m by (cases m) auto
  then show ?thesis
    unfolding lib_laws_def
    by (auto simp: demo_lib_def demo_json ascii_bytes_inj ascii_bytes_char_of add.commute)
qed

lemma demo_fits:
  "fits demo_lib (Offer (hex_encode demo_lib (derive_session_id (nl_hkdf demo_lib) (replicate 32 1))) 1)"
  "fits demo_lib (SasConfirm (hex_encode demo_lib (the_hash demo_lib (replicate 32 1) z 1 2)))"
  "fits demo_lib (Payload Nsec ''k'')" "fits demo_lib (Complete True)"
proof -
  have hk: "length (hkdf32 (nl_hkdf demo_lib) salt ikm info) = 32" for salt ikm info
    by (rule hkdf_32 [OF demo_lib_laws])
  have hex: "length (hex_encode demo_lib b) = length b" for b by (simp add: demo_lib_def)
  have fits: "fits demo_lib m \<longleftrightarrow> length (demo_to_json m) \<le> 65535" for m by (simp add: fits_def demo_lib_def)
  have "length (decimal (unat (1 :: 32 word))) = 1" by (simp add: decimal.simps)
  then show "fits demo_lib (Offer (hex_encode demo_lib (derive_session_id (nl_hkdf demo_lib) (replicate 32 1))) 1)"
      "fits demo_lib (SasConfirm (hex_encode demo_lib (the_hash demo_lib (replicate 32 1) z 1 2)))"
      "fits demo_lib (Payload Nsec ''k'')" "fits demo_lib (Complete True)"
    by (simp_all add: fits hex derive_session_id_def the_hash_def derive_transcript_hash_def hk Let_def)
qed

theorem honest_pairing_completes_witness:
  "\<exists>t0 offer s1 sas s2 confirm t1.
     new_target demo_lib 2 0 \<lparr>fr_now = 0, fr_jitter = 0, fr_nonce = 0\<rparr> (snd (new_source demo_lib 1 (replicate 32 1) 0 ''wss://r'')) =
       Inr (t0, offer) \<and>
     handle_offer demo_lib 0 offer (fst (new_source demo_lib 1 (replicate 32 1) 0 ''wss://r'')) = (s1, Inr sas) \<and>
     confirm_sas demo_lib 0 \<lparr>fr_now = 0, fr_jitter = 0, fr_nonce = 0\<rparr> s1 = (s2, Inr confirm) \<and>
     handle_sas_confirm demo_lib 0 confirm t0 = (t1, Inr sas)"
proof -
  have clock: "\<And>i j. (\<lambda>i::nat. 0::nat) i - (\<lambda>i. 0) j \<le> DEFAULT_TIMEOUT" by simp
  show ?thesis
    using honest_pairing_completes [where clock = "\<lambda>i. 0" and fr = "\<lambda>i. \<lparr>fr_now = 0, fr_jitter = 0, fr_nonce = 0\<rparr>"
        and url = "''wss://r''", OF demo_lib_laws demo_fits clock prod.collapse [symmetric]]
    by (elim exE conjE) (intro exI conjI)
qed

text \<open>A source run to completion, with its offer delivered a second time in between.\<close>

definition demo_fresh :: fresh where
  "demo_fresh = \<lparr>fr_now = 0, fr_jitter = 0, fr_nonce = 0\<rparr>"

definition demo_source :: "(nat, nat) pairing_session" where
  "demo_source = fst (new_source demo_lib 1 (replicate 32 1) 0 ''wss://r'')"

definition demo_log :: "nat pairing_event \<Rightarrow> nat pairing_event \<Rightarrow> (nat \<times> nat session_op) list" where
  "demo_log offer complete =
     [(0, HandleOffer offer), (2, ConfirmSas demo_fresh), (3, SendPayload demo_fresh Nsec ''k''), (4, HandleComplete complete)]"

definition demo_ops :: "nat pairing_event \<Rightarrow> nat pairing_event \<Rightarrow> (nat \<times> nat session_op) list" where
  "demo_ops offer complete =
     [hd (demo_log offer complete), (1, HandleOffer offer)] @ tl (demo_log offer complete)"

lemma demo_initial: "initial demo_lib demo_source"
  unfolding initial_def demo_source_def by blast

lemma second_offer_refused: "ps_state s = Confirming \<Longrightarrow> \<exists>e. handle_offer lib now ev s = (s, Inl e)"
  by (auto simp: handle_offer_def expect_def check_expired_def expect_state_def)

lemma pairing_demo_run:
  "\<exists>offer complete s'. session_run demo_lib (demo_ops offer complete) demo_source = (s', demo_log offer complete)"
proof -
  note laws = demo_lib_laws and now = DEFAULT_TIMEOUT_def
  let ?secret = "replicate 32 1 :: bytes"
  obtain z where z: "shared_key demo_lib 1 (public_key demo_lib 2) = Some z" "shared_key demo_lib 2 (public_key demo_lib 1) = Some z"
    using laws unfolding lib_laws_def by meson
  let ?qr = "\<lparr>qr_source_pubkey = public_key demo_lib 1, qr_session_secret = ?secret, qr_relays = [], qr_version = 1\<rparr>"
  obtain t0 offer where t0: "side_at demo_lib ?secret z 0 Target 2 1 Confirming {} t0"
      "sent demo_lib 2 1 (Offer (hex_encode demo_lib (derive_session_id (nl_hkdf demo_lib) ?secret)) 1) offer"
    using new_target_side [OF laws z(2) demo_fits(1), where qr = ?qr and c = 0 and fr = demo_fresh] by auto
  obtain complete where c: "sent demo_lib 2 1 (Complete True) complete"
    using build_event_sent [OF laws demo_fits(4), where s = t0 and b = 1 and fr = demo_fresh] t0(1) by (auto simp: side_at_def)
  obtain s1 sas where s1: "handle_offer demo_lib 0 offer demo_source = (s1, Inr sas)"
      "side_at demo_lib ?secret z 0 Source 1 2 Confirming {ev_id offer} s1"
    using handle_offer_side [OF laws z(1) _ t0(2), where now = 0 and c = 0 and url = "''wss://r''"] unfolding demo_source_def by auto
  obtain e where e: "handle_offer demo_lib 1 offer s1 = (s1, Inl e)"
    using second_offer_refused [of s1 demo_lib 1 offer] s1(2) by (auto simp: side_at_def)
  obtain s2 ev2 where s2: "confirm_sas demo_lib 2 demo_fresh s1 = (s2, Inr ev2)"
      "side_at demo_lib ?secret z 0 Source 1 2 Transferring {ev_id offer} s2"
    using confirm_sas_side [OF laws s1(2) _ demo_fits(2), where now = 2 and fr = demo_fresh] now by auto
  obtain s3 ev3 where s3: "send_payload demo_lib 3 demo_fresh Nsec ''k'' s2 = (s3, Inr ev3)"
      "side_at demo_lib ?secret z 0 Source 1 2 PayloadExchanged {ev_id offer} s3"
    using send_payload_side [OF laws s2(2) _ demo_fits(3), where now = 3 and fr = demo_fresh] now by auto
  have "ev_id complete \<notin> {ev_id offer}" using sent_ids [OF laws c t0(2)] by simp
  then obtain s4 where s4: "handle_complete demo_lib 4 complete s3 = (s4, Inr ())"
    using handle_complete_side [OF s3(2) _ c, where now = 4] now by auto
  have "session_run demo_lib (demo_ops offer complete) demo_source = (s4, demo_log offer complete)"
    using s1(1) e s2(1) s3(1) s4 by (simp add: demo_ops_def demo_log_def)
  then show ?thesis by blast
qed

theorem pairing_protocol_order_witness:
  "\<exists>offer complete s'. session_run demo_lib (demo_ops offer complete) demo_source = (s', demo_log offer complete) \<and>
     names (demo_log offer complete) = take 4 (protocol (ps_role demo_source)) \<and>
     (\<forall>(now, op)\<in>set (demo_log offer complete). step_name_of op \<noteq> AbortStep \<longrightarrow> now - ps_created_at demo_source \<le> DEFAULT_TIMEOUT)"
proof -
  obtain offer complete s' where run: "session_run demo_lib (demo_ops offer complete) demo_source = (s', demo_log offer complete)"
    using pairing_demo_run by blast
  have "names (demo_log offer complete) = take 4 (protocol (ps_role demo_source))"
    by (simp add: demo_log_def demo_source_def new_source_def Let_def)
  with run pairing_protocol_order [OF demo_initial run] show ?thesis by blast
qed

theorem accepted_events_distinct_witness:
  "\<exists>offer complete s'. session_run demo_lib (demo_ops offer complete) demo_source = (s', demo_log offer complete) \<and>
     ev_id offer \<noteq> ev_id complete"
proof -
  obtain offer complete s' where run: "session_run demo_lib (demo_ops offer complete) demo_source = (s', demo_log offer complete)"
    using pairing_demo_run by blast
  have "ev_id offer \<noteq> ev_id complete"
    using accepted_events_distinct [OF demo_initial run] by (simp add: demo_log_def)
  with run show ?thesis by blast
qed

end
