(* ===== verification/Pairing_Qr.thy ===== *)
theory Pairing_Qr
  imports Pairing_Session
begin

section \<open>The pairing QR code (\<open>crates/buzz-core/src/pairing/qr.rs\<close>)\<close>

text \<open>
  Encoding and decoding of the \<open>nostrpair://\<close> URI. The codecs of public keys, hexadecimal
  bytes and percent-encoding and the URL parser belong to other packages and are the fields of
  \<open>qr_lib\<close> (\<open>utf8_percent_encode\<close> with the set \<open>NON_ALPHANUMERIC\<close>); a parsed URL is its scheme and whether it has a host. Error texts are shortened to
  their fixed part.
\<close>

record 'p qr_lib =
  ql_to_hex :: "'p \<Rightarrow> string"
  ql_from_hex :: "string \<Rightarrow> 'p option"
  ql_hex_encode :: "bytes \<Rightarrow> string"
  ql_hex_decode :: "string \<Rightarrow> bytes option"
  utf8_percent_encode :: "string \<Rightarrow> string"
  percent_decode_lossy :: "string \<Rightarrow> string"
  url_parse :: "string \<Rightarrow> (string \<times> bool) option"

definition url_encode :: "'p qr_lib \<Rightarrow> string \<Rightarrow> string" where
  "url_encode lib s = utf8_percent_encode lib s"

definition url_decode :: "'p qr_lib \<Rightarrow> string \<Rightarrow> string" where
  "url_decode lib s = percent_decode_lossy lib s"

definition encode_qr :: "'p qr_lib \<Rightarrow> 'p qr_payload \<Rightarrow> string" where
  "encode_qr lib payload =
     (let pubkey_hex = ql_to_hex lib (qr_source_pubkey payload);
          secret_hex = ql_hex_encode lib (qr_session_secret payload);
          uri = ''nostrpair://'' @ pubkey_hex @ ''?secret='' @ secret_hex
      in fold (\<lambda>relay uri. uri @ ''&relay='' @ url_encode lib relay) (qr_relays payload) uri @ ''&v=1'')"

text \<open>\<open>str::split_once\<close> of the standard library.\<close>

definition split_once :: "char \<Rightarrow> string \<Rightarrow> (string \<times> string) option" where
  "split_once c s =
     (if c \<in> set s then Some (takeWhile (\<lambda>x. x \<noteq> c) s, tl (dropWhile (\<lambda>x. x \<noteq> c) s)) else None)"

record qr_query =
  qq_secret_hex :: "string option"
  qq_relays :: "string list"
  qq_version :: "nat option"

definition query_pair :: "'p qr_lib \<Rightarrow> string \<Rightarrow> qr_query \<Rightarrow> qr_query" where
  "query_pair lib pair q =
     (case split_once (CHR ''='') pair of
        None \<Rightarrow> q
      | Some (key, v) \<Rightarrow>
          if key = ''secret'' then q\<lparr>qq_secret_hex := Some v\<rparr>
          else if key = ''relay'' then q\<lparr>qq_relays := qq_relays q @ [url_decode lib v]\<rparr>
          else if key = ''v'' then q\<lparr>qq_version := parse_unsigned 32 v\<rparr>
          else q)"

definition parse_query :: "'p qr_lib \<Rightarrow> string \<Rightarrow> qr_query" where
  "parse_query lib query =
     fold (query_pair lib) (split_on (CHR ''&'') query) \<lparr>qq_secret_hex = None, qq_relays = [], qq_version = None\<rparr>"

definition check_relay :: "'p qr_lib \<Rightarrow> string \<Rightarrow> unit \<Rightarrow> (unit, pairing_error) result" where
  "check_relay lib relay u =
     (case url_parse lib relay of
        None \<Rightarrow> Inl (InvalidQr ''invalid relay URL'')
      | Some (scheme, has_host) \<Rightarrow>
          if scheme \<notin> {''wss'', ''ws''} then Inl (InvalidQr ''relay URL must use wss:// or ws:// scheme'')
          else if \<not> has_host then Inl (InvalidQr ''relay URL has no host'')
          else Inr ())"

definition hex64 :: "string \<Rightarrow> bool" where
  "hex64 s \<longleftrightarrow> length s = 64 \<and> (\<forall>c\<in>set s. is_lowercase_hexdigit c)"

definition decode_secret :: "'p qr_lib \<Rightarrow> string option \<Rightarrow> (bytes, pairing_error) result" where
  "decode_secret lib secret_hex =
     (case secret_hex of
        None \<Rightarrow> Inl (InvalidQr ''missing 'secret' query parameter'')
      | Some secret_str \<Rightarrow>
          if \<not> hex64 secret_str then Inl (InvalidQr ''secret must be 64 lowercase hex chars'')
          else case ql_hex_decode lib secret_str of
            None \<Rightarrow> Inl (InvalidQr ''invalid secret hex'')
          | Some secret_bytes \<Rightarrow>
              if length secret_bytes \<noteq> 32 then Inl (InvalidQr ''secret must be exactly 32 bytes'')
              else if secret_bytes = replicate 32 0 then Inl (InvalidQr ''session_secret must not be all zeros'')
              else Inr secret_bytes)"

definition decode_qr :: "'p qr_lib \<Rightarrow> string \<Rightarrow> ('p qr_payload, pairing_error) result" where
  "decode_qr lib uri =
     (if length uri > 2048 then Inl (InvalidQr ''URI exceeds 2048-character limit'')
      else case strip_prefix ''nostrpair://'' uri of
        None \<Rightarrow> Inl (InvalidQr ''URI must start with nostrpair://'')
      | Some rest \<Rightarrow>
          (case split_once (CHR ''?'') rest of
             None \<Rightarrow> Inl (InvalidQr ''missing query string'')
           | Some (pubkey_hex, query) \<Rightarrow>
               if \<not> hex64 pubkey_hex then Inl (InvalidQr ''pubkey must be 64 lowercase hex chars'')
               else case ql_from_hex lib pubkey_hex of
                 None \<Rightarrow> Inl (InvalidQr ''invalid pubkey'')
               | Some source_pubkey \<Rightarrow>
                   let q = parse_query lib query;
                       version = (case qq_version q of None \<Rightarrow> 1 | Some v \<Rightarrow> v)
                   in if version \<noteq> 1 then Inl (InvalidQr ''unsupported protocol version'')
                   else and_then (decode_secret lib (qq_secret_hex q)) (\<lambda>session_secret.
                     if qq_relays q = [] then Inl (InvalidQr ''at least one 'relay' query parameter is required'')
                     else and_then (try_fold (check_relay lib) (qq_relays q) ()) (\<lambda>_.
                       Inr \<lparr>qr_source_pubkey = source_pubkey, qr_session_secret = session_secret,
                            qr_relays = qq_relays q, qr_version = version\<rparr>))))"

text \<open>The QR URI of a source session.\<close>

definition qr_uri :: "'p qr_lib \<Rightarrow> ('k, 'p) nostr_lib \<Rightarrow> ('k, 'p) pairing_session \<Rightarrow> string option" where
  "qr_uri qlib lib s =
     (if ps_role s \<noteq> Source then None
      else Some (encode_qr qlib \<lparr>qr_source_pubkey = public_key lib (ps_keys s), qr_session_secret = ps_session_secret s,
        qr_relays = ps_relay_urls s, qr_version = 1\<rparr>))"

subsection \<open>Round trip\<close>

definition relay_ok :: "'p qr_lib \<Rightarrow> string \<Rightarrow> bool" where
  "relay_ok lib relay \<longleftrightarrow> url_parse lib relay \<in> {Some (''wss'', True), Some (''ws'', True)}"

text \<open>The codecs: hexadecimal is lower case and inverts, percent-encoding leaves no delimiter.\<close>

definition codec_laws :: "'p qr_lib \<Rightarrow> bool" where
  "codec_laws lib \<longleftrightarrow>
     (\<forall>p. hex64 (ql_to_hex lib p) \<and> ql_from_hex lib (ql_to_hex lib p) = Some p) \<and>
     (\<forall>b. length b = 32 \<longrightarrow> hex64 (ql_hex_encode lib b) \<and> ql_hex_decode lib (ql_hex_encode lib b) = Some b) \<and>
     (\<forall>s. url_decode lib (url_encode lib s) = s \<and> CHR ''&'' \<notin> set (url_encode lib s) \<and> CHR ''='' \<notin> set (url_encode lib s))"

definition payload_ok :: "'p qr_lib \<Rightarrow> 'p qr_payload \<Rightarrow> bool" where
  "payload_ok lib p \<longleftrightarrow> length (qr_session_secret p) = 32 \<and> qr_session_secret p \<noteq> replicate 32 0 \<and>
     qr_relays p \<noteq> [] \<and> (\<forall>r\<in>set (qr_relays p). relay_ok lib r) \<and> qr_version p = 1"

lemma hex64_no_delims: "hex64 s \<Longrightarrow> CHR ''?'' \<notin> set s \<and> CHR ''&'' \<notin> set s \<and> CHR ''='' \<notin> set s"
  by (auto simp: hex64_def ascii_defs)

lemma split_once_append: "c \<notin> set a \<Longrightarrow> split_once c (a @ c # b) = Some (a, b)"
  by (induction a) (auto simp: split_once_def)

lemma check_relays_ok: "try_fold (check_relay lib) rs () = Inr u \<longleftrightarrow> (\<forall>r\<in>set rs. relay_ok lib r)"
  by (induction rs) (auto simp: check_relay_def relay_ok_def split: option.splits if_splits)

lemma fold_relays:
  "fold (\<lambda>relay uri. uri @ ''&relay='' @ url_encode lib relay) rs u @ ''&v=1'' =
     u @ concat (map (\<lambda>r. ''&relay='' @ url_encode lib r) rs) @ ''&v=1''"
  by (induction rs arbitrary: u) auto

lemma join_relays:
  "join_with (CHR ''&'') (a # map (\<lambda>r. ''relay='' @ url_encode lib r) rs @ [''v=1'']) =
     a @ concat (map (\<lambda>r. ''&relay='' @ url_encode lib r) rs) @ ''&v=1''"
  by (induction rs arbitrary: a) auto

lemma fold_query_relays:
  assumes "\<forall>s. url_decode lib (url_encode lib s) = s"
  shows "fold (query_pair lib) (map (\<lambda>r. ''relay='' @ url_encode lib r) rs) q = q\<lparr>qq_relays := qq_relays q @ rs\<rparr>"
proof (induction rs arbitrary: q)
  case (Cons r rs)
  have "split_once (CHR ''='') (''relay'' @ CHR ''='' # url_encode lib r) = Some (''relay'', url_encode lib r)"
    by (rule split_once_append) simp
  then have "query_pair lib (''relay='' @ url_encode lib r) q = q\<lparr>qq_relays := qq_relays q @ [r]\<rparr>"
    using assms by (simp add: query_pair_def)
  then show ?case using Cons.IH by simp
qed simp

lemma query_parses:
  assumes laws: "codec_laws lib" and "hex64 sec"
  shows "parse_query lib (join_with (CHR ''&'') ((''secret='' @ sec) # map (\<lambda>r. ''relay='' @ url_encode lib r) rs @ [''v=1''])) =
    \<lparr>qq_secret_hex = Some sec, qq_relays = rs, qq_version = Some 1\<rparr>"
proof -
  let ?ps = "(''secret='' @ sec) # map (\<lambda>r. ''relay='' @ url_encode lib r) rs @ [''v=1'']"
  have split: "split_on (CHR ''&'') (join_with (CHR ''&'') ?ps) = ?ps"
    by (rule split_join) (use laws hex64_no_delims [OF assms(2)] in \<open>auto simp: codec_laws_def\<close>)
  have "split_once (CHR ''='') (''secret'' @ CHR ''='' # sec) = Some (''secret'', sec)"
    by (rule split_once_append) simp
  then have sec: "query_pair lib (''secret='' @ sec) q = q\<lparr>qq_secret_hex := Some sec\<rparr>" for q
    by (simp add: query_pair_def)
  have v: "query_pair lib ''v=1'' q = q\<lparr>qq_version := Some 1\<rparr>" for q
    by (simp add: query_pair_def split_once_def parse_unsigned_def ascii_defs)
  show ?thesis
    using laws unfolding parse_query_def split by (simp add: sec v fold_query_relays codec_laws_def del: append_Cons)
qed

lemma encode_qr_alt:
  "encode_qr lib p = ''nostrpair://'' @ (ql_to_hex lib (qr_source_pubkey p) @ CHR ''?'' #
     join_with (CHR ''&'') ((''secret='' @ ql_hex_encode lib (qr_session_secret p)) #
       map (\<lambda>r. ''relay='' @ url_encode lib r) (qr_relays p) @ [''v=1'']))"
  by (simp only: encode_qr_def Let_def fold_relays join_relays) simp

lemma decode_secret_ok: "decode_secret lib h = Inr b \<Longrightarrow> length b = 32 \<and> b \<noteq> replicate 32 0"
  by (auto simp: decode_secret_def split: option.splits if_splits)

text \<open>Whatever text is scanned, an accepted payload is well formed and the URI was short.\<close>

lemma decode_qr_ok: "decode_qr lib uri = Inr p \<Longrightarrow> payload_ok lib p \<and> length uri \<le> 2048"
  by (auto simp: decode_qr_def payload_ok_def and_then_eq_Inr check_relays_ok Let_def
      dest!: decode_secret_ok split: option.splits if_splits)

lemma decode_encode:
  assumes laws: "codec_laws lib" and p: "payload_ok lib p" and len: "length (encode_qr lib p) \<le> 2048"
  shows "decode_qr lib (encode_qr lib p) = Inr p"
proof -
  let ?pk = "ql_to_hex lib (qr_source_pubkey p)" and ?sec = "ql_hex_encode lib (qr_session_secret p)"
  have pk: "hex64 ?pk" "ql_from_hex lib ?pk = Some (qr_source_pubkey p)" using laws by (simp_all add: codec_laws_def)
  have sec: "hex64 ?sec" "ql_hex_decode lib ?sec = Some (qr_session_secret p)"
    using laws p by (simp_all add: codec_laws_def payload_ok_def)
  have secret: "decode_secret lib (Some ?sec) = Inr (qr_session_secret p)"
    using sec p by (simp add: decode_secret_def payload_ok_def)
  have relays: "try_fold (check_relay lib) (qr_relays p) () = Inr ()" "qr_relays p \<noteq> []" "qr_version p = 1"
    using p by (simp_all add: check_relays_ok payload_ok_def)
  have pk_clean: "CHR ''?'' \<notin> set ?pk" using hex64_no_delims [OF pk(1)] by simp
  show ?thesis
    using len unfolding decode_qr_def encode_qr_alt strip_prefix_append
    by (simp add: split_once_append [OF pk_clean] query_parses [OF laws sec(1)] pk secret relays Let_def del: append_Cons append.simps)
qed

text \<open>
  C37. A payload survives being shown as a QR code and scanned exactly when its secret is 32
  bytes and not all zero, it has at least one relay and every relay is a WebSocket URL with a
  host, its version is 1, and the URI has at most 2048 bytes.
\<close>

theorem qr_round_trip:
  assumes "codec_laws lib"
  shows "decode_qr lib (encode_qr lib p) = Inr p \<longleftrightarrow> payload_ok lib p \<and> length (encode_qr lib p) \<le> 2048"
  using decode_encode [OF assms] decode_qr_ok by blast

text \<open>
  A version that is not a 32-bit number counts as no version at all, so it is accepted as
  version 1 although larger versions are documented to be rejected.
\<close>

lemma unparsable_version_is_default:
  "parse_query lib (''v=4294967296'') = parse_query lib []"
  by (simp add: parse_query_def query_pair_def split_once_def parse_unsigned_def ascii_defs)

subsection \<open>A concrete codec\<close>

definition hex_digit :: "nat \<Rightarrow> char" where
  "hex_digit n = ''0123456789abcdef'' ! n"

definition hex_value :: "char \<Rightarrow> nat" where
  "hex_value c = (if is_ascii_digit c then byte c - 48 else byte c - 87)"

fun hex_pairs :: "bytes \<Rightarrow> string" where
  "hex_pairs [] = []"
| "hex_pairs (b # bs) = hex_digit (unat b div 16) # hex_digit (unat b mod 16) # hex_pairs bs"

fun unhex_pairs :: "string \<Rightarrow> bytes" where
  "unhex_pairs (x # y # s) = word_of_nat (hex_value x * 16 + hex_value y) # unhex_pairs s"
| "unhex_pairs s = []"

fun percent_encode :: "string \<Rightarrow> string" where
  "percent_encode [] = []"
| "percent_encode (c # s) =
     (if is_ascii_alphanumeric c then c # percent_encode s
      else CHR 0x25 # hex_digit (byte c div 16) # hex_digit (byte c mod 16) # percent_encode s)"

fun percent_decode :: "string \<Rightarrow> string" where
  "percent_decode [] = []"
| "percent_decode [c] = [c]"
| "percent_decode [c, x] = [c, x]"
| "percent_decode (c # x # y # s) =
     (if c = CHR 0x25 then char_of (hex_value x * 16 + hex_value y) # percent_decode s
      else c # percent_decode (x # y # s))"

definition demo_qr :: "8 word qr_lib" where
  "demo_qr = \<lparr>ql_to_hex = (\<lambda>p. hex_pairs (replicate 31 0 @ [p])), ql_from_hex = (\<lambda>s. Some (last (unhex_pairs s))),
     ql_hex_encode = hex_pairs, ql_hex_decode = (\<lambda>s. Some (unhex_pairs s)),
     utf8_percent_encode = percent_encode, percent_decode_lossy = percent_decode,
     url_parse = (\<lambda>s. if starts_with ''wss://'' s then Some (''wss'', length s > 6) else None)\<rparr>"

lemma hex_digit_ok: "n < 16 \<Longrightarrow> is_lowercase_hexdigit (hex_digit n) \<and> hex_value (hex_digit n) = n"
proof -
  assume "n < 16"
  then have "n \<in> set [0..<16]" by simp
  then show ?thesis by (simp add: upt_rec hex_digit_def hex_value_def ascii_defs) (elim disjE; simp add: ascii_defs)
qed

lemma byte_nibbles: "unat (w :: 8 word) div 16 < 16"
proof -
  have "unat w < 2 ^ LENGTH(8)" by (rule unsigned_less)
  then show ?thesis by (simp add: less_mult_imp_div_less)
qed

lemma unhex_hex: "unhex_pairs (hex_pairs b) = b"
  by (induction b) (simp_all add: hex_digit_ok byte_nibbles)

lemma hex_pairs_ok: "length (hex_pairs b) = 2 * length b \<and> (\<forall>c\<in>set (hex_pairs b). is_lowercase_hexdigit c)"
  by (induction b) (simp_all add: hex_digit_ok byte_nibbles)

lemma char_nibbles: "byte c div 16 < 16"
  using nat_of_char_less_256 [of c] by (simp add: byte_def less_mult_imp_div_less)

lemma decode_percent: "percent_decode (percent_encode s) = s"
proof (induction s)
  case (Cons c s)
  have plain: "percent_decode (c # t) = c # percent_decode t" if "is_ascii_alphanumeric c" for t
  proof -
    have "c \<noteq> CHR 0x25" using that by (auto simp: ascii_defs)
    then show ?thesis by (cases t rule: percent_decode.cases) (auto split: list.splits)
  qed
  show ?case
    using Cons by (simp add: plain hex_digit_ok char_nibbles) (simp add: byte_def)
qed simp

lemma percent_clean: "c \<in> set (percent_encode s) \<Longrightarrow> c = CHR 0x25 \<or> is_ascii_alphanumeric c"
proof -
  have "is_lowercase_hexdigit d \<Longrightarrow> is_ascii_alphanumeric d" for d by (auto simp: ascii_defs)
  then show "c \<in> set (percent_encode s) \<Longrightarrow> c = CHR 0x25 \<or> is_ascii_alphanumeric c"
    by (induction s) (auto simp: hex_digit_ok char_nibbles split: if_splits)
qed

lemma demo_qr_laws: "codec_laws demo_qr"
proof -
  have "CHR ''&'' \<notin> set (percent_encode s)" "CHR ''='' \<notin> set (percent_encode s)" for s
    by (auto dest!: percent_clean simp: ascii_defs)
  moreover have "hex64 (hex_pairs b)" if "length b = 32" for b
    using hex_pairs_ok [of b] that by (simp add: hex64_def)
  moreover have "length (replicate 31 0 @ [p]) = 32" for p :: "8 word" by simp
  ultimately show ?thesis
    unfolding codec_laws_def url_encode_def url_decode_def demo_qr_def qr_lib.simps unhex_hex decode_percent by (metis last_snoc)
qed

theorem qr_round_trip_witness:
  "codec_laws demo_qr \<and>
   decode_qr demo_qr (encode_qr demo_qr \<lparr>qr_source_pubkey = 7, qr_session_secret = replicate 32 1,
       qr_relays = [''wss://a/?x=1&y'', ''wss://b''], qr_version = 1\<rparr>) =
     Inr \<lparr>qr_source_pubkey = 7, qr_session_secret = replicate 32 1, qr_relays = [''wss://a/?x=1&y'', ''wss://b''], qr_version = 1\<rparr>"
proof -
  let ?p = "\<lparr>qr_source_pubkey = 7 :: 8 word, qr_session_secret = replicate 32 1,
       qr_relays = [''wss://a/?x=1&y'', ''wss://b''], qr_version = 1\<rparr>"
  have "payload_ok demo_qr ?p" by (simp add: payload_ok_def relay_ok_def demo_qr_def starts_with_def)
  moreover have "length (encode_qr demo_qr ?p) \<le> 2048"
    by (simp add: encode_qr_def url_encode_def demo_qr_def hex_pairs_ok ascii_defs)
  ultimately show ?thesis using qr_round_trip [OF demo_qr_laws, of ?p] demo_qr_laws by blast
qed

end
