(* ===== verification/Audit_Log.thy ===== *)
theory Audit_Log
  imports Prelude "HOL-Library.List_Lexorder" "HOL-Library.Char_ord" "HOL-Library.Sublist"
begin

section \<open>The audit log (\<open>crates/buzz-audit/src\<close>)\<close>

text \<open>
  The per-community hash chain: actions (\<open>action.rs\<close>), entries (\<open>entry.rs\<close>), the hashed bytes
  and the canonical JSON (\<open>hash.rs\<close>), appending, verification and reading (\<open>service.rs\<close>). The
  table \<open>audit_log\<close> is a list of rows in order of insertion, with its two unique keys. SHA-256, the
  RFC 3339 form of a time, the JSON form of a scalar and what the database keeps of a time and of
  a JSON value are the fields of \<open>audit_lib\<close>.
\<close>

subsection \<open>Actions\<close>

datatype audit_action =
    EventCreated | EventDeleted | ChannelCreated | ChannelUpdated | ChannelDeleted | MemberAdded
  | MemberRemoved | AuthSuccess | AuthFailure | RateLimitExceeded | MediaUploaded

fun action_as_str :: "audit_action \<Rightarrow> string" where
  "action_as_str EventCreated = ''event_created''"
| "action_as_str EventDeleted = ''event_deleted''"
| "action_as_str ChannelCreated = ''channel_created''"
| "action_as_str ChannelUpdated = ''channel_updated''"
| "action_as_str ChannelDeleted = ''channel_deleted''"
| "action_as_str MemberAdded = ''member_added''"
| "action_as_str MemberRemoved = ''member_removed''"
| "action_as_str AuthSuccess = ''auth_success''"
| "action_as_str AuthFailure = ''auth_failure''"
| "action_as_str RateLimitExceeded = ''rate_limit_exceeded''"
| "action_as_str MediaUploaded = ''media_uploaded''"

definition action_ALL :: "audit_action list" where
  "action_ALL = [EventCreated, EventDeleted, ChannelCreated, ChannelUpdated, ChannelDeleted, MemberAdded,
     MemberRemoved, AuthSuccess, AuthFailure, RateLimitExceeded, MediaUploaded]"

definition action_from_str :: "string \<Rightarrow> audit_action option" where
  "action_from_str s = find (\<lambda>a. action_as_str a = s) action_ALL"

lemma action_from_as_str [simp]: "action_from_str (action_as_str a) = Some a"
  by (cases a) (simp_all add: action_from_str_def action_ALL_def)

subsection \<open>JSON values\<close>

text \<open>
  A \<open>serde_json::Value\<close>; a number is its own opaque text. The members of an object are in the
  order of the parsed map, which has each key once.
\<close>

datatype json =
    JNull
  | JBool bool
  | JNumber string
  | JString string
  | JArray "json list"
  | JObject "(string \<times> json) list"

definition sorted_members :: "(string \<times> 'v) list \<Rightarrow> (string \<times> 'v) list" where
  "sorted_members m = fold (\<lambda>(k, v). bt_insert k v) m []"

lemma map_of_fold_insert: "map_of (fold (\<lambda>(k, v). bt_insert k v) m acc) = map_of acc ++ map_of (rev m)"
  by (induction m arbitrary: acc) (auto simp: map_add_def fun_eq_iff split: option.splits)

lemma set_bt_insert: "set (bt_insert k v m) \<subseteq> insert (k, v) (set m)"
  by (induction k v m rule: bt_insert.induct) auto

lemma set_fold_insert: "set (fold (\<lambda>(k, v). bt_insert k v) m acc) \<subseteq> set m \<union> set acc"
proof (induction m arbitrary: acc)
  case (Cons x m)
  then show ?case using set_bt_insert [of "fst x" "snd x" acc] by (fastforce simp: split_beta)
qed simp

lemma sorted_members_subset: "x \<in> set (sorted_members m) \<Longrightarrow> x \<in> set m"
  using set_fold_insert [of m "[]"] by (auto simp: sorted_members_def)

lemma wf_fold_insert: "bt_wf acc \<Longrightarrow> bt_wf (fold (\<lambda>(k, v). bt_insert k v) m acc)"
  by (induction m arbitrary: acc) (auto simp: split_beta)

lemma sorted_members_wf: "bt_wf (sorted_members m)"
  by (simp add: sorted_members_def wf_fold_insert)

lemma map_of_sorted_members: "distinct (map fst m) \<Longrightarrow> map_of (sorted_members m) = map_of m"
  by (simp add: sorted_members_def map_of_fold_insert map_of_inject_set rev_map [symmetric])

lemma member_size: "x \<in> set (sorted_members m) \<Longrightarrow> size (snd x) < Suc (size_list (size_prod (\<lambda>_. 0) size) m)"
  by (drule sorted_members_subset, induction m) (auto simp: less_Suc_eq_le)

text \<open>
  The loops of \<open>canonical_json\<close> put a comma before every item but the first. \<open>those\<close> is the
  result of a list of fallible steps.
\<close>

function canonical_json :: "(json \<Rightarrow> string option) \<Rightarrow> json \<Rightarrow> string option" where
  "canonical_json ser (JObject m) =
     map_option (\<lambda>items. ''{'' @ join_with (CHR '','') items @ ''}'')
       (those (map (\<lambda>x. Option.bind (ser (JString (fst x))) (\<lambda>k.
          map_option (\<lambda>v. k @ '':'' @ v) (canonical_json ser (snd x)))) (sorted_members m)))"
| "canonical_json ser (JArray arr) =
     map_option (\<lambda>items. ''['' @ join_with (CHR '','') items @ '']'') (those (map (canonical_json ser) arr))"
| "canonical_json ser JNull = ser JNull"
| "canonical_json ser (JBool b) = ser (JBool b)"
| "canonical_json ser (JNumber n) = ser (JNumber n)"
| "canonical_json ser (JString s) = ser (JString s)"
  by pat_completeness auto

termination
  by (relation "measure (\<lambda>(ser, j). size j)")
    (auto dest!: member_size simp: less_Suc_eq_le size_list_estimation')

text \<open>The same value up to the order of object members, at every depth.\<close>

inductive same_json :: "json \<Rightarrow> json \<Rightarrow> bool" where
  same_scalar: "same_json a a"
| same_array: "list_all2 same_json xs ys \<Longrightarrow> same_json (JArray xs) (JArray ys)"
| same_object: "distinct (map fst m) \<Longrightarrow> distinct (map fst m') \<Longrightarrow>
    (\<And>k. rel_option same_json (map_of m k) (map_of m' k)) \<Longrightarrow> same_json (JObject m) (JObject m')"
monos list.rel_mono_strong option.rel_mono_strong

lemma sorted_keys_eq:
  assumes "bt_wf m" and "bt_wf m'" and "dom (map_of m) = dom (map_of m')"
  shows "map fst m = map fst m'"
proof (rule sorted_distinct_set_unique)
  show "sorted (map fst m)" "distinct (map fst m)" "sorted (map fst m')" "distinct (map fst m')"
    using assms(1,2) by (auto simp: bt_wf_def strict_sorted_iff)
  show "set (map fst m) = set (map fst m')" using assms(3) by (simp add: dom_map_of_conv_image_fst)
qed

lemma sorted_members_related:
  assumes "distinct (map fst m)" "distinct (map fst m')" "\<And>k. rel_option R (map_of m k) (map_of m' k)"
  shows "list_all2 (\<lambda>x y. fst x = fst y \<and> R (snd x) (snd y)) (sorted_members m) (sorted_members m')"
proof -
  let ?s = "sorted_members m" and ?s' = "sorted_members m'"
  have maps: "map_of ?s = map_of m" "map_of ?s' = map_of m'" using assms(1,2) by (simp_all add: map_of_sorted_members)
  have "dom (map_of m) = dom (map_of m')"
    using assms(3) by (auto simp: dom_def) (metis option.rel_distinct(1,2) option.exhaust)+
  then have keys: "map fst ?s = map fst ?s'" by (intro sorted_keys_eq sorted_members_wf) (simp add: maps)
  have R: "R (snd (?s ! i)) (snd (?s' ! i))" if "i < length ?s" for i
  proof -
    have i': "i < length ?s'" using that keys by (metis length_map)
    have k: "fst (?s ! i) = fst (?s' ! i)" using that i' keys by (metis nth_map)
    have "map_of ?s (fst (?s ! i)) = Some (snd (?s ! i))" "map_of ?s' (fst (?s' ! i)) = Some (snd (?s' ! i))"
      using that i' by (simp_all add: bt_wf_map_of [OF sorted_members_wf])
    then show ?thesis using assms(3) [of "fst (?s ! i)"] k by (simp add: maps)
  qed
  have "length ?s = length ?s'" using keys by (metis length_map)
  then show ?thesis using R keys by (auto simp: list_all2_conv_all_nth) (metis nth_map)
qed

text \<open>
  The canonical form of a JSON value, and so what is hashed, does not depend on the order of
  object members at any depth.
\<close>

theorem canonical_json_order_free:
  assumes "same_json a b"
  shows "canonical_json ser a = canonical_json ser b"
  using assms
proof (induction rule: same_json.induct)
  case (same_array xs ys)
  then have "map (canonical_json ser) xs = map (canonical_json ser) ys"
    by (auto simp: list_all2_conv_all_nth intro!: nth_equalityI)
  then show ?case by simp
next
  case (same_object m m')
  have rel: "rel_option (\<lambda>a b. canonical_json ser a = canonical_json ser b) (map_of m k) (map_of m' k)" for k
    by (rule option.rel_mono_strong [OF same_object.IH]) simp
  let ?item = "\<lambda>x. Option.bind (ser (JString (fst x))) (\<lambda>k. map_option (\<lambda>v. k @ '':'' @ v) (canonical_json ser (snd x)))"
  have "map ?item (sorted_members m) = map ?item (sorted_members m')"
    using sorted_members_related [OF same_object.hyps rel]
    by (auto simp: list_all2_conv_all_nth intro!: nth_equalityI)
  then show ?case by (simp only: canonical_json.simps)
qed simp

theorem canonical_json_order_free_witness:
  "\<forall>ser. canonical_json ser (JArray [JObject [(''b'', JNull), (''a'', JBool True)]]) =
   canonical_json ser (JArray [JObject [(''a'', JBool True), (''b'', JNull)]])"
proof
  fix ser
  have "same_json (JObject [(''b'', JNull), (''a'', JBool True)]) (JObject [(''a'', JBool True), (''b'', JNull)])"
    by (rule same_object) (auto intro: same_scalar)
  then have "same_json (JArray [JObject [(''b'', JNull), (''a'', JBool True)]]) (JArray [JObject [(''a'', JBool True), (''b'', JNull)]])"
    by (intro same_array) simp
  then show "canonical_json ser (JArray [JObject [(''b'', JNull), (''a'', JBool True)]]) =
      canonical_json ser (JArray [JObject [(''a'', JBool True), (''b'', JNull)]])"
    by (rule canonical_json_order_free)
qed

subsection \<open>Entries and their hash\<close>

text \<open>A time is its second and its nanoseconds within the second.\<close>

record datetime =
  dt_secs :: int
  dt_nanos :: nat

record audit_entry =
  ae_community_id :: uuid
  ae_seq :: int
  ae_hash :: bytes
  ae_prev_hash :: "bytes option"
  ae_action :: audit_action
  ae_actor_pubkey :: "bytes option"
  ae_object_id :: "string option"
  ae_detail :: json
  ae_created_at :: datetime

record new_audit_entry =
  na_community_id :: uuid
  na_action :: audit_action
  na_actor_pubkey :: "bytes option"
  na_object_id :: "string option"
  na_detail :: json

datatype audit_error = Database | ChainViolation int | HashMismatch int | UnknownAction | Serialization

record audit_lib =
  al_sha256 :: "bytes \<Rightarrow> bytes"
  al_rfc3339 :: "datetime \<Rightarrow> string"
  al_to_string :: "json \<Rightarrow> string option"
  pg_timestamp :: "datetime \<Rightarrow> datetime"
  pg_jsonb :: "json \<Rightarrow> json"

definition GENESIS_HASH :: bytes where
  "GENESIS_HASH = replicate 32 0"

definition to_storage_precision :: "datetime \<Rightarrow> datetime" where
  "to_storage_precision t = t\<lparr>dt_nanos := dt_nanos t - dt_nanos t mod 1000\<rparr>"

text \<open>\<open>Uuid::as_bytes\<close> and \<open>i64::to_be_bytes\<close>: the bytes of a two's complement number, the highest first.\<close>

definition be_bytes :: "nat \<Rightarrow> int \<Rightarrow> bytes" where
  "be_bytes n x = map (\<lambda>i. word_of_int (x div 256 ^ i)) (rev [0..<n])"

definition presence :: "bytes option \<Rightarrow> bytes" where
  "presence b = (case b of Some x \<Rightarrow> 1 # x | None \<Rightarrow> [0])"

definition hashed_bytes :: "audit_lib \<Rightarrow> audit_entry \<Rightarrow> (bytes, audit_error) result" where
  "hashed_bytes lib entry =
     (case canonical_json (al_to_string lib) (ae_detail entry) of
        None \<Rightarrow> Inl Serialization
      | Some detail \<Rightarrow> Inr (
          be_bytes 16 (uint (ae_community_id entry)) @
          be_bytes 8 (ae_seq entry) @
          ascii_bytes (al_rfc3339 lib (to_storage_precision (ae_created_at entry))) @
          ascii_bytes (action_as_str (ae_action entry)) @
          presence (ae_actor_pubkey entry) @
          presence (map_option ascii_bytes (ae_object_id entry)) @
          ascii_bytes detail @
          (case ae_prev_hash entry of Some h \<Rightarrow> h | None \<Rightarrow> GENESIS_HASH)))"

definition compute_hash :: "audit_lib \<Rightarrow> audit_entry \<Rightarrow> (bytes, audit_error) result" where
  "compute_hash lib entry = and_then (hashed_bytes lib entry) (\<lambda>b. Inr (al_sha256 lib b))"

subsection \<open>The service\<close>

record audit_row =
  ar_community_id :: uuid
  ar_seq :: int
  ar_hash :: bytes
  ar_prev_hash :: "bytes option"
  ar_action :: string
  ar_actor_pubkey :: "bytes option"
  ar_object_id :: "string option"
  ar_detail :: json
  ar_created_at :: datetime

definition row_to_audit_entry :: "audit_row \<Rightarrow> (audit_entry, audit_error) result" where
  "row_to_audit_entry row =
     (case action_from_str (ar_action row) of
        None \<Rightarrow> Inl UnknownAction
      | Some action \<Rightarrow> Inr \<lparr>ae_community_id = ar_community_id row, ae_seq = ar_seq row, ae_hash = ar_hash row,
          ae_prev_hash = ar_prev_hash row, ae_action = action, ae_actor_pubkey = ar_actor_pubkey row,
          ae_object_id = ar_object_id row, ae_detail = ar_detail row, ae_created_at = ar_created_at row\<rparr>)"

text \<open>The rows of a community, in the order they were written.\<close>

definition rows_of :: "uuid \<Rightarrow> audit_row list \<Rightarrow> audit_row list" where
  "rows_of c rows = filter (\<lambda>r. ar_community_id r = c) rows"

text \<open>\<open>ORDER BY seq DESC LIMIT 1\<close>\<close>

definition head_row :: "uuid \<Rightarrow> audit_row list \<Rightarrow> audit_row option" where
  "head_row c rows =
     fold (\<lambda>r best. case best of None \<Rightarrow> Some r | Some b \<Rightarrow> if ar_seq b < ar_seq r then Some r else Some b)
       (rows_of c rows) None"

definition log_timestamp :: "datetime \<Rightarrow> datetime" where
  "log_timestamp now = to_storage_precision now"

text \<open>\<open>i64\<close> addition of one, wrapping at the width of the type.\<close>

definition next_seq :: "int \<Rightarrow> int" where
  "next_seq s = (s + 1 + 2 ^ 63) mod 2 ^ 64 - 2 ^ 63"

text \<open>What \<open>log_inner\<close> computes from the head it reads, before the insertion.\<close>

definition prepare_entry :: "audit_lib \<Rightarrow> datetime \<Rightarrow> new_audit_entry \<Rightarrow> audit_row list \<Rightarrow> (audit_entry, audit_error) result" where
  "prepare_entry lib now entry rows =
     (let (prev_seq, prev_hash) =
            (case head_row (na_community_id entry) rows of Some row \<Rightarrow> (ar_seq row, Some (ar_hash row)) | None \<Rightarrow> (0, None));
          audit_entry = \<lparr>ae_community_id = na_community_id entry, ae_seq = next_seq prev_seq, ae_hash = [],
            ae_prev_hash = prev_hash, ae_action = na_action entry, ae_actor_pubkey = na_actor_pubkey entry,
            ae_object_id = na_object_id entry, ae_detail = na_detail entry, ae_created_at = log_timestamp now\<rparr>
      in and_then (compute_hash lib audit_entry) (\<lambda>h. Inr (audit_entry\<lparr>ae_hash := h\<rparr>)))"

text \<open>The insertion, refused when it violates one of the two unique keys.\<close>

definition entry_row :: "audit_lib \<Rightarrow> audit_entry \<Rightarrow> audit_row" where
  "entry_row lib e = \<lparr>ar_community_id = ae_community_id e, ar_seq = ae_seq e, ar_hash = ae_hash e,
     ar_prev_hash = ae_prev_hash e, ar_action = action_as_str (ae_action e), ar_actor_pubkey = ae_actor_pubkey e,
     ar_object_id = ae_object_id e, ar_detail = pg_jsonb lib (ae_detail e),
     ar_created_at = pg_timestamp lib (ae_created_at e)\<rparr>"

definition insert_entry :: "audit_lib \<Rightarrow> audit_entry \<Rightarrow> audit_row list \<Rightarrow> audit_row list \<times> (audit_entry, audit_error) result" where
  "insert_entry lib e rows =
     (if \<exists>r\<in>set rows. ar_community_id r = ae_community_id e \<and> (ar_seq r = ae_seq e \<or> ar_hash r = ae_hash e)
      then (rows, Inl Database)
      else (rows @ [entry_row lib e], Inr e))"

definition log_inner ::
  "audit_lib \<Rightarrow> datetime \<Rightarrow> new_audit_entry \<Rightarrow> audit_row list \<Rightarrow> audit_row list \<times> (audit_entry, audit_error) result" where
  "log_inner lib now entry rows =
     (case prepare_entry lib now entry rows of
        Inl e \<Rightarrow> (rows, Inl e)
      | Inr audit_entry \<Rightarrow> insert_entry lib audit_entry rows)"

fun verify_rows :: "audit_lib \<Rightarrow> bytes option \<Rightarrow> audit_row list \<Rightarrow> (bool, audit_error) result" where
  "verify_rows lib expected_prev [] = Inr True"
| "verify_rows lib expected_prev (row # rows) =
     and_then (row_to_audit_entry row) (\<lambda>entry.
       if expected_prev \<noteq> None \<and> ae_prev_hash entry \<noteq> expected_prev then Inl (ChainViolation (ae_seq entry))
       else and_then (compute_hash lib entry) (\<lambda>computed.
         if computed \<noteq> ae_hash entry then Inl (HashMismatch (ae_seq entry))
         else verify_rows lib (Some (ae_hash entry)) rows))"

definition segment :: "uuid \<Rightarrow> int \<Rightarrow> int \<Rightarrow> audit_row list \<Rightarrow> audit_row list" where
  "segment c from_seq to_seq rows =
     sort_key ar_seq (filter (\<lambda>r. from_seq \<le> ar_seq r \<and> ar_seq r \<le> to_seq) (rows_of c rows))"

definition verify_chain :: "audit_lib \<Rightarrow> audit_row list \<Rightarrow> uuid \<Rightarrow> int \<Rightarrow> int \<Rightarrow> (bool, audit_error) result" where
  "verify_chain lib rows community from_seq to_seq =
     (let selected = segment community from_seq to_seq rows
      in if selected = [] then Inr False else verify_rows lib None selected)"

fun try_map :: "('a \<Rightarrow> ('b, 'e) result) \<Rightarrow> 'a list \<Rightarrow> ('b list, 'e) result" where
  "try_map f [] = Inr []"
| "try_map f (x # xs) = and_then (f x) (\<lambda>y. and_then (try_map f xs) (\<lambda>ys. Inr (y # ys)))"

text \<open>A negative \<open>LIMIT\<close> is an error of the database.\<close>

definition get_entries :: "audit_row list \<Rightarrow> uuid \<Rightarrow> int \<Rightarrow> int \<Rightarrow> (audit_entry list, audit_error) result" where
  "get_entries rows community from_seq limit =
     (if limit < 0 then Inl Database
      else try_map row_to_audit_entry
        (take (nat limit) (sort_key ar_seq (filter (\<lambda>r. from_seq \<le> ar_seq r) (rows_of community rows)))))"

subsection \<open>Chains written by the service verify\<close>

text \<open>
  The tables that can arise. A writer reads the head of its chain in one table and inserts into a
  later one, after any number of writes of others: the rule does not rely on the advisory lock,
  nor on transactions of different communities not overlapping. \<open>jsonb_keeps\<close> says that the
  database keeps a JSON value up to what its canonical form forgets, \<open>pg_laws\<close> that it keeps
  times at microseconds.
\<close>

definition jsonb_keeps :: "audit_lib \<Rightarrow> json \<Rightarrow> bool" where
  "jsonb_keeps lib j \<longleftrightarrow> canonical_json (al_to_string lib) (pg_jsonb lib j) = canonical_json (al_to_string lib) j"

definition pg_laws :: "audit_lib \<Rightarrow> bool" where
  "pg_laws lib \<longleftrightarrow> (\<forall>t. dt_nanos t mod 1000 = 0 \<longrightarrow> pg_timestamp lib t = t)"

inductive audit_table :: "audit_lib \<Rightarrow> audit_row list \<Rightarrow> bool" for lib where
  table_empty: "audit_table lib []"
| table_write: "audit_table lib (seen @ later) \<Longrightarrow> jsonb_keeps lib (na_detail entry) \<Longrightarrow>
    prepare_entry lib now entry seen = Inr e \<Longrightarrow> insert_entry lib e (seen @ later) = (rows', r) \<Longrightarrow> audit_table lib rows'"

definition row_ok :: "audit_lib \<Rightarrow> audit_row \<Rightarrow> bool" where
  "row_ok lib r \<longleftrightarrow> (\<exists>e. row_to_audit_entry r = Inr e \<and> compute_hash lib e = Inr (ar_hash r))"

fun good_chain :: "audit_lib \<Rightarrow> bytes option \<Rightarrow> int \<Rightarrow> audit_row list \<Rightarrow> bool" where
  "good_chain lib prev n [] = True"
| "good_chain lib prev n (r # rs) \<longleftrightarrow>
     ar_seq r = n \<and> ar_prev_hash r = prev \<and> row_ok lib r \<and> good_chain lib (Some (ar_hash r)) (n + 1) rs"

lemma good_chain_append:
  "good_chain lib prev n (rs @ [r]) \<longleftrightarrow> good_chain lib prev n rs \<and> ar_seq r = n + int (length rs) \<and>
     ar_prev_hash r = (if rs = [] then prev else Some (ar_hash (last rs))) \<and> row_ok lib r"
  by (induction rs arbitrary: prev n) (auto simp: algebra_simps)

lemma good_chain_seqs: "good_chain lib prev n rs \<Longrightarrow> map ar_seq rs = [n..n + int (length rs) - 1]"
proof (induction rs arbitrary: prev n)
  case (Cons r rs)
  have "[n..n + int (length (r # rs)) - 1] = n # [n + 1..(n + 1) + int (length rs) - 1]"
    by (subst upto.simps) (simp add: algebra_simps)
  with Cons show ?case by auto
qed simp

lemma good_chain_last_seq: "good_chain lib prev n rs \<Longrightarrow> rs \<noteq> [] \<Longrightarrow> ar_seq (last rs) = n + int (length rs) - 1"
  by (induction rs arbitrary: prev n) (auto split: if_splits)

lemma good_chain_bounds: "good_chain lib prev n rs \<Longrightarrow> r \<in> set rs \<Longrightarrow> n \<le> ar_seq r"
  by (induction rs arbitrary: prev n) force+

lemma good_chain_from:
  "good_chain lib prev n rs \<Longrightarrow> from_seq \<le> n \<Longrightarrow>
   good_chain lib prev n (filter (\<lambda>r. from_seq \<le> ar_seq r \<and> ar_seq r \<le> to_seq) rs)"
proof (induction rs arbitrary: prev n)
  case (Cons r rs)
  show ?case
  proof (cases "n \<le> to_seq")
    case False
    then have "filter (\<lambda>r. from_seq \<le> ar_seq r \<and> ar_seq r \<le> to_seq) (r # rs) = []"
      using good_chain_bounds [OF Cons.prems(1)] by (force simp: filter_empty_conv)
    then show ?thesis by simp
  qed (use Cons in auto)
qed simp

lemma good_chain_between:
  "good_chain lib prev n rs \<Longrightarrow>
   \<exists>prev' n'. good_chain lib prev' n' (filter (\<lambda>r. from_seq \<le> ar_seq r \<and> ar_seq r \<le> to_seq) rs)"
proof (induction rs arbitrary: prev n)
  case (Cons r rs)
  show ?case
  proof (cases "from_seq \<le> n")
    case True
    then show ?thesis using good_chain_from [OF Cons.prems] by blast
  next
    case False
    then show ?thesis using Cons.IH [of "Some (ar_hash r)" "n + 1"] Cons.prems by auto
  qed
qed (auto intro: exI)

lemma good_chain_sorted: "good_chain lib prev n rs \<Longrightarrow> sort_key ar_seq rs = rs"
  by (rule sort_key_id_if_sorted) (simp add: good_chain_seqs)

lemma good_chain_verifies: "good_chain lib prev n rs \<Longrightarrow> expected = None \<or> expected = prev \<Longrightarrow> verify_rows lib expected rs = Inr True"
proof (induction rs arbitrary: prev n expected)
  case (Cons r rs)
  then obtain e where e: "row_to_audit_entry r = Inr e" "compute_hash lib e = Inr (ar_hash r)"
    by (auto simp: row_ok_def)
  moreover have "ae_prev_hash e = ar_prev_hash r" "ae_hash e = ar_hash r"
    using e(1) by (auto simp: row_to_audit_entry_def split: option.splits)
  ultimately show ?case using Cons by auto
qed simp

lemma good_chain_head:
  "good_chain lib prev n rs \<Longrightarrow> (case best of None \<Rightarrow> True | Some b \<Rightarrow> ar_seq b < n) \<Longrightarrow>
   fold (\<lambda>r best. case best of None \<Rightarrow> Some r | Some b \<Rightarrow> if ar_seq b < ar_seq r then Some r else Some b) rs best =
     (if rs = [] then best else Some (last rs))"
  by (induction rs arbitrary: prev n best) (auto split: option.splits)

definition chains_ok :: "audit_lib \<Rightarrow> audit_row list \<Rightarrow> bool" where
  "chains_ok lib rows \<longleftrightarrow> (\<forall>c. good_chain lib None 1 (rows_of c rows))"

lemma chains_ok_head: "chains_ok lib rows \<Longrightarrow>
    head_row c rows = (if rows_of c rows = [] then None else Some (last (rows_of c rows)))"
  unfolding head_row_def by (rule good_chain_head [where lib = lib and prev = None and n = 1]) (simp_all add: chains_ok_def)

lemma rows_of_append [simp]: "rows_of c (a @ b) = rows_of c a @ rows_of c b"
  by (simp add: rows_of_def)

lemma good_chain_prefix: "good_chain lib prev n (a @ b) \<Longrightarrow> good_chain lib prev n a"
  by (induction a arbitrary: prev n) auto

lemma next_seq_small: "0 \<le> s \<Longrightarrow> s < 2 ^ 63 - 1 \<Longrightarrow> next_seq s = s + 1"
  by (simp add: next_seq_def)

text \<open>What the prepared entry holds: the next number, the hash of the head, and its own hash.\<close>

lemma prepare_entry_fields:
  assumes "chains_ok lib seen" and "length (rows_of (na_community_id entry) seen) < 2 ^ 63 - 1"
    and e: "prepare_entry lib now entry seen = Inr e"
  defines "mine \<equiv> rows_of (na_community_id entry) seen"
  shows "ae_community_id e = na_community_id entry" "ae_seq e = 1 + int (length mine)"
    "ae_prev_hash e = (if mine = [] then None else Some (ar_hash (last mine)))"
    "ae_detail e = na_detail entry" "dt_nanos (ae_created_at e) mod 1000 = 0" "compute_hash lib e = Inr (ae_hash e)"
proof -
  have good: "good_chain lib None 1 mine" using assms(1) by (simp add: chains_ok_def mine_def)
  have seq: "next_seq (if mine = [] then 0 else ar_seq (last mine)) = 1 + int (length mine)"
    using good_chain_last_seq [OF good] assms(2) by (auto simp: mine_def [symmetric] next_seq_small)
  have hash: "compute_hash lib (x\<lparr>ae_hash := h\<rparr>) = compute_hash lib x" for x h
    by (simp add: compute_hash_def hashed_bytes_def cong: option.case_cong)
  have trunc: "dt_nanos (log_timestamp now) mod 1000 = 0"
    by (simp add: log_timestamp_def to_storage_precision_def minus_mod_eq_mult_div)
  note facts = e chains_ok_head [OF assms(1), of "na_community_id entry"]
  show "ae_community_id e = na_community_id entry" "ae_detail e = na_detail entry"
      "dt_nanos (ae_created_at e) mod 1000 = 0"
    using e trunc by (auto simp: prepare_entry_def Let_def and_then_eq_Inr split: prod.splits)
  obtain x h where x: "compute_hash lib x = Inr h" "e = x\<lparr>ae_hash := h\<rparr>"
    using e unfolding prepare_entry_def Let_def split_beta and_then_eq_Inr by blast
  show "compute_hash lib e = Inr (ae_hash e)" using x(1) by (simp only: x(2) hash) simp
  show "ae_seq e = 1 + int (length mine)" "ae_prev_hash e = (if mine = [] then None else Some (ar_hash (last mine)))"
    using facts seq by (auto simp: prepare_entry_def Let_def and_then_eq_Inr mine_def split: if_splits)
qed

lemma entry_row_ok:
  assumes "pg_laws lib" "jsonb_keeps lib (ae_detail e)" "dt_nanos (ae_created_at e) mod 1000 = 0"
    "compute_hash lib e = Inr (ae_hash e)"
  shows "row_ok lib (entry_row lib e)"
proof -
  have "row_to_audit_entry (entry_row lib e) = Inr (e\<lparr>ae_detail := pg_jsonb lib (ae_detail e)\<rparr>)"
    using assms(1,3) by (simp add: row_to_audit_entry_def entry_row_def pg_laws_def)
  moreover have "compute_hash lib (e\<lparr>ae_detail := pg_jsonb lib (ae_detail e)\<rparr>) = compute_hash lib e"
    using assms(2) by (simp add: compute_hash_def hashed_bytes_def jsonb_keeps_def split: option.splits)
  ultimately show ?thesis using assms(4) by (simp add: row_ok_def entry_row_def)
qed

lemma write_keeps_chains:
  assumes laws: "pg_laws lib" and ok: "chains_ok lib (seen @ later)" and keeps: "jsonb_keeps lib (na_detail entry)"
    and small: "length (seen @ later) < 2 ^ 63 - 1"
    and e: "prepare_entry lib now entry seen = Inr e" and ins: "insert_entry lib e (seen @ later) = (rows', r)"
  shows "chains_ok lib rows'"
proof (cases "rows' = seen @ later")
  case False
  let ?c = "na_community_id entry"
  let ?seen = "rows_of ?c seen" and ?later = "rows_of ?c later" and ?row = "entry_row lib e"
  from False ins have rows': "rows' = seen @ later @ [?row]"
    and fresh: "\<forall>r\<in>set (seen @ later). ar_community_id r = ae_community_id e \<longrightarrow> ar_seq r \<noteq> ae_seq e"
    by (auto simp: insert_entry_def split: if_splits)
  have seen_ok: "chains_ok lib seen" using ok good_chain_prefix by (fastforce simp: chains_ok_def)
  have "length ?seen \<le> length (seen @ later)" by (simp add: rows_of_def trans_le_add1)
  then have short: "length ?seen < 2 ^ 63 - 1" using small by linarith
  note fields = prepare_entry_fields [OF seen_ok short e]
  have good: "good_chain lib None 1 (?seen @ ?later)" using ok by (simp add: chains_ok_def)
  have none: "?later = []"
  proof (rule ccontr)
    assume later: "?later \<noteq> []"
    then have "1 + int (length ?seen) \<in> set [1..1 + int (length (?seen @ ?later)) - 1]" by (cases ?later) auto
    then obtain r where "r \<in> set (?seen @ ?later)" "ar_seq r = 1 + int (length ?seen)"
      unfolding good_chain_seqs [OF good, symmetric] set_map by (metis imageE)
    with fresh fields(1,2) show False by (auto simp: rows_of_def)
  qed
  have row: "ar_community_id ?row = ?c" "ar_seq ?row = 1 + int (length ?seen)"
      "ar_prev_hash ?row = (if ?seen = [] then None else Some (ar_hash (last ?seen)))"
    using fields(1-3) by (simp_all add: entry_row_def)
  have "row_ok lib ?row" using entry_row_ok [OF laws _ fields(5,6)] keeps fields(4) by simp
  then have "good_chain lib None 1 (?seen @ [?row])" using good none row by (simp add: good_chain_append)
  moreover have "rows_of c [?row] = (if c = ?c then [?row] else [])" for c using row(1) by (simp add: rows_of_def)
  ultimately show ?thesis using ok none by (auto simp: chains_ok_def rows')
qed (use ok in simp)

lemma insert_entry_grows: "insert_entry lib e rows = (rows', r) \<Longrightarrow> length rows \<le> length rows'"
  by (auto simp: insert_entry_def split: if_splits)

lemma table_chains_ok: "audit_table lib rows \<Longrightarrow> pg_laws lib \<Longrightarrow> length rows < 2 ^ 63 - 1 \<Longrightarrow> chains_ok lib rows"
proof (induction rule: audit_table.induct)
  case (table_write seen later entry now e rows' r)
  then have "length (seen @ later) < 2 ^ 63 - 1" using insert_entry_grows [OF table_write.hyps(4)] by linarith
  with table_write show ?case using write_keeps_chains by blast
qed (simp add: chains_ok_def rows_of_def)

text \<open>
  C5. Every community's chain is numbered 1, 2, 3 and so on without gaps, and every non-empty range of it
  verifies, whatever the interleaving of writers and even when two writers of one community read
  the same head: the unique key then refuses the second.
\<close>

theorem written_chains_verify:
  assumes "pg_laws lib" and "audit_table lib rows" and "length rows < 2 ^ 63 - 1"
  shows "map ar_seq (rows_of c rows) = [1..int (length (rows_of c rows))] \<and>
    verify_chain lib rows c from_seq to_seq =
      Inr (\<exists>r\<in>set rows. ar_community_id r = c \<and> from_seq \<le> ar_seq r \<and> ar_seq r \<le> to_seq)"
proof -
  have good: "good_chain lib None 1 (rows_of c rows)" using table_chains_ok assms by (auto simp: chains_ok_def)
  let ?sel = "filter (\<lambda>r. from_seq \<le> ar_seq r \<and> ar_seq r \<le> to_seq) (rows_of c rows)"
  obtain prev n where sel: "good_chain lib prev n ?sel" using good_chain_between [OF good] by blast
  have "verify_rows lib None (segment c from_seq to_seq rows) = Inr True"
    using good_chain_verifies [OF sel] by (simp add: segment_def good_chain_sorted [OF sel])
  moreover have "?sel \<noteq> [] \<longleftrightarrow> (\<exists>r\<in>set rows. ar_community_id r = c \<and> from_seq \<le> ar_seq r \<and> ar_seq r \<le> to_seq)"
    by (auto simp: filter_empty_conv rows_of_def)
  ultimately show ?thesis
    using good_chain_seqs [OF good] by (auto simp: verify_chain_def segment_def good_chain_sorted [OF sel] Let_def)
qed

lemma log_inner_table:
  "audit_table lib rows \<Longrightarrow> jsonb_keeps lib (na_detail entry) \<Longrightarrow> log_inner lib now entry rows = (rows', r) \<Longrightarrow> audit_table lib rows'"
  using table_write [of lib rows "[]" entry now _ rows' r] by (auto simp: log_inner_def split: sum.splits)

subsection \<open>What verification detects\<close>

definition row_bytes :: "audit_lib \<Rightarrow> audit_row \<Rightarrow> (bytes, audit_error) result" where
  "row_bytes lib r = and_then (row_to_audit_entry r) (hashed_bytes lib)"

fun linked :: "audit_lib \<Rightarrow> bytes option \<Rightarrow> audit_row list \<Rightarrow> bool" where
  "linked lib expected [] = True"
| "linked lib expected (r # rs) \<longleftrightarrow> (expected = None \<or> ar_prev_hash r = expected) \<and>
     (\<exists>b. row_bytes lib r = Inr b \<and> al_sha256 lib b = ar_hash r) \<and> linked lib (Some (ar_hash r)) rs"

lemma row_fields: "row_to_audit_entry r = Inr e \<Longrightarrow> ae_prev_hash e = ar_prev_hash r \<and> ae_hash e = ar_hash r"
  by (auto simp: row_to_audit_entry_def split: option.splits)

lemma verified_linked: "verify_rows lib expected rs = Inr True \<Longrightarrow> linked lib expected rs"
proof (induction rs arbitrary: expected)
  case (Cons r rs)
  then obtain e where e: "row_to_audit_entry r = Inr e" by (auto simp: and_then_eq_Inr)
  with Cons show ?case
    using row_fields [OF e] by (auto simp: and_then_eq_Inr row_bytes_def compute_hash_def split: if_splits)
qed simp

lemma linked_append:
  "linked lib expected (rs @ [r]) \<longleftrightarrow> linked lib expected rs \<and>
     (if rs = [] then expected = None \<or> ar_prev_hash r = expected else ar_prev_hash r = Some (ar_hash (last rs))) \<and>
     (\<exists>b. row_bytes lib r = Inr b \<and> al_sha256 lib b = ar_hash r)"
  by (induction rs arbitrary: expected) auto

lemma row_bytes_prev: "row_bytes lib r = Inr b \<Longrightarrow> ar_prev_hash r = Some h \<Longrightarrow> \<exists>p. b = p @ h"
  by (auto simp: row_bytes_def and_then_eq_Inr hashed_bytes_def dest!: row_fields split: option.splits)

definition collision :: "audit_lib \<Rightarrow> audit_row list \<Rightarrow> audit_row list \<Rightarrow> bool" where
  "collision lib rs rs' \<longleftrightarrow> (\<exists>r\<in>set rs. \<exists>r'\<in>set rs'. \<exists>b b'. row_bytes lib r = Inr b \<and> row_bytes lib r' = Inr b' \<and>
     b \<noteq> b' \<and> al_sha256 lib b = al_sha256 lib b')"

lemma linked_width:
  assumes "\<And>b. length (al_sha256 lib b) = 32" and "linked lib expected rs" and "rs \<noteq> []"
  shows "length (ar_hash (last rs)) = 32"
proof -
  obtain ys y where rs: "rs = ys @ [y]" using assms(3) by (cases rs rule: rev_cases) auto
  then obtain b where "al_sha256 lib b = ar_hash y" using assms(2) by (auto simp: linked_append)
  then show ?thesis using assms(1) [of b] rs by simp
qed

lemma linked_suffix:
  assumes width: "\<And>b. length (al_sha256 lib b) = 32"
  shows "linked lib None rs \<Longrightarrow> linked lib None rs' \<Longrightarrow> length rs' \<le> length rs \<Longrightarrow>
    rs' = [] \<or> ar_hash (last rs) = ar_hash (last rs') \<Longrightarrow>
    suffix (map (row_bytes lib) rs') (map (row_bytes lib) rs) \<or> collision lib rs rs'"
proof (induction rs' arbitrary: rs rule: rev_induct)
  case (snoc r' ys)
  then obtain xs r where rs: "rs = xs @ [r]" by (cases rs rule: rev_cases) auto
  from snoc.prems obtain b b' where b: "row_bytes lib r = Inr b" "al_sha256 lib b = ar_hash r"
      "row_bytes lib r' = Inr b'" "al_sha256 lib b' = ar_hash r'" "ar_hash r = ar_hash r'" "length ys \<le> length xs"
    by (auto simp: rs linked_append)
  have down: "collision lib xs ys \<Longrightarrow> collision lib rs (ys @ [r'])" unfolding collision_def rs by fastforce
  show ?case
  proof (cases "b = b'")
    case True
    have "ys = [] \<or> ar_hash (last xs) = ar_hash (last ys)"
    proof (cases "ys = []")
      case False
      then have "xs \<noteq> []" using b(6) by auto
      with False have "ar_prev_hash r = Some (ar_hash (last xs))" "ar_prev_hash r' = Some (ar_hash (last ys))"
        using snoc.prems(1,2) by (auto simp: rs linked_append)
      then obtain p p' where "b = p @ ar_hash (last xs)" "b = p' @ ar_hash (last ys)"
        using row_bytes_prev b(1,3) True by metis
      moreover have "linked lib None xs" "linked lib None ys"
        using snoc.prems(1,2) by (simp_all add: rs linked_append)
      then have "length (ar_hash (last xs)) = 32" "length (ar_hash (last ys)) = 32"
        using linked_width [OF width] False \<open>xs \<noteq> []\<close> by blast+
      ultimately show ?thesis by (metis append_eq_append_conv)
    qed simp
    then have "suffix (map (row_bytes lib) ys) (map (row_bytes lib) xs) \<or> collision lib xs ys"
      using snoc.IH [of xs] snoc.prems(1,2) b(6) by (simp add: rs linked_append)
    then show ?thesis using True b(1,3) down by (auto simp: rs)
  next
    case False
    then show ?thesis using b unfolding collision_def rs by (auto intro!: bexI [of _ r] bexI [of _ r'])
  qed
qed simp

lemma collision_sym: "collision lib rs rs' \<Longrightarrow> collision lib rs' rs"
  unfolding collision_def by metis

lemma verify_rows_drop: "verify_rows lib expected rs = Inr True \<Longrightarrow> verify_rows lib None (drop n rs) = Inr True"
proof (induction rs arbitrary: expected n)
  case (Cons r rs)
  then show ?case by (cases n) (auto simp: and_then_eq_Inr split: if_splits)
qed simp

text \<open>
  C34. Tampering is evident up to the start of the range. Take two versions of a range of a community's
  chain that both verify and end in the same hash. Unless they exhibit a SHA-256 collision among the hashed
  bytes, the rows of the shorter version hash, row by row, the same bytes as the last rows of the longer one:
  nothing was altered, inserted, reordered or removed behind the first row that is left. With the same
  number of rows the two versions hash the same bytes throughout. The proviso about leading rows is
  needed: a verified range also verifies after any number of its first rows were deleted, as long as one is left.
\<close>

theorem tampering_needs_collision:
  assumes "\<And>b. length (al_sha256 lib b) = 32"
    and "verify_chain lib rows c from_seq to_seq = Inr True" and "verify_chain lib rows' c from_seq to_seq = Inr True"
    and "ar_hash (last (segment c from_seq to_seq rows)) = ar_hash (last (segment c from_seq to_seq rows'))"
  shows "(collision lib (segment c from_seq to_seq rows) (segment c from_seq to_seq rows') \<or>
      suffix (map (row_bytes lib) (segment c from_seq to_seq rows')) (map (row_bytes lib) (segment c from_seq to_seq rows)) \<or>
      suffix (map (row_bytes lib) (segment c from_seq to_seq rows)) (map (row_bytes lib) (segment c from_seq to_seq rows'))) \<and>
    (length (segment c from_seq to_seq rows) = length (segment c from_seq to_seq rows') \<longrightarrow>
      map (row_bytes lib) (segment c from_seq to_seq rows) = map (row_bytes lib) (segment c from_seq to_seq rows') \<or>
      collision lib (segment c from_seq to_seq rows) (segment c from_seq to_seq rows')) \<and>
    (\<forall>n t. n < length (segment c from_seq to_seq rows) \<and> segment c from_seq to_seq t = drop n (segment c from_seq to_seq rows) \<longrightarrow>
      verify_chain lib t c from_seq to_seq = Inr True)"
proof -
  let ?s = "segment c from_seq to_seq rows" and ?s' = "segment c from_seq to_seq rows'"
  have rows: "verify_rows lib None (segment c from_seq to_seq t) = Inr True" if "verify_chain lib t c from_seq to_seq = Inr True" for t
    using that by (auto simp: verify_chain_def Let_def split: if_splits)
  then have l: "linked lib None ?s" "linked lib None ?s'" using assms(2,3) verified_linked by blast+
  have one: "collision lib ?s ?s' \<or> suffix (map (row_bytes lib) ?s') (map (row_bytes lib) ?s)" if "length ?s' \<le> length ?s"
    using linked_suffix [OF assms(1) l that] assms(4) by blast
  have two: "collision lib ?s ?s' \<or> suffix (map (row_bytes lib) ?s) (map (row_bytes lib) ?s')" if "length ?s \<le> length ?s'"
    using linked_suffix [OF assms(1) l(2) l(1) that] assms(4) collision_sym by metis
  have "map (row_bytes lib) ?s = map (row_bytes lib) ?s' \<or> collision lib ?s ?s'" if "length ?s = length ?s'"
    using one that suffix_order.eq_iff two by force
  moreover have "verify_chain lib t c from_seq to_seq = Inr True" if "n < length ?s" "segment c from_seq to_seq t = drop n ?s" for n t
    using verify_rows_drop [OF rows [OF assms(2)], of n] that by (simp add: verify_chain_def Let_def)
  ultimately show ?thesis using one two nat_le_linear by blast
qed

text \<open>
  The boundary between the object identifier and the detail is not part of the hashed bytes:
  when the serialization of one detail is that of another after a first character, moving that character to
  the end of the object identifier changes the entry but not its hash.
\<close>

theorem object_detail_boundary_unhashed:
  assumes "ae_object_id e = Some object" and "canonical_json (al_to_string lib) (ae_detail e) = Some (ch # rest)"
    and "canonical_json (al_to_string lib) detail' = Some rest"
  shows "compute_hash lib (e\<lparr>ae_object_id := Some (object @ [ch]), ae_detail := detail'\<rparr>) = compute_hash lib e"
  using assms by (simp add: compute_hash_def hashed_bytes_def presence_def ascii_bytes_def)

subsection \<open>A concrete library\<close>

fun demo_scalar :: "json \<Rightarrow> string option" where
  "demo_scalar (JNumber n) = Some n"
| "demo_scalar (JString s) = Some (CHR 0x22 # s @ [CHR 0x22])"
| "demo_scalar (JBool b) = Some (if b then ''true'' else ''false'')"
| "demo_scalar j = Some ''null''"

fun reverse_members :: "json \<Rightarrow> json" where
  "reverse_members (JObject m) = JObject (rev m)"
| "reverse_members j = j"

definition demo_audit :: audit_lib where
  "demo_audit = \<lparr>al_sha256 = (\<lambda>b. (b ! 23) # replicate 31 0), al_rfc3339 = (\<lambda>t. ''T''), al_to_string = demo_scalar,
     pg_timestamp = to_storage_precision, pg_jsonb = reverse_members\<rparr>"

definition demo_new :: new_audit_entry where
  "demo_new = \<lparr>na_community_id = 7, na_action = ChannelCreated, na_actor_pubkey = None, na_object_id = Some ''x'',
     na_detail = JObject [(''b'', JNumber ''12''), (''a'', JNull)]\<rparr>"

definition demo_now :: datetime where
  "demo_now = \<lparr>dt_secs = 100, dt_nanos = 123456789\<rparr>"

definition demo_table :: "audit_row list" where
  "demo_table = fst (log_inner demo_audit demo_now demo_new (fst (log_inner demo_audit demo_now demo_new [])))"

lemma demo_pg_laws: "pg_laws demo_audit"
  by (auto simp: pg_laws_def demo_audit_def to_storage_precision_def)

lemma demo_keeps: "jsonb_keeps demo_audit (na_detail demo_new)"
  by (simp add: jsonb_keeps_def demo_audit_def demo_new_def sorted_members_def)

lemma demo_table_reached: "audit_table demo_audit demo_table"
proof -
  have step: "audit_table demo_audit rows \<Longrightarrow> audit_table demo_audit (fst (log_inner demo_audit demo_now demo_new rows))" for rows
    using log_inner_table [OF _ demo_keeps prod.collapse [symmetric]] by blast
  show ?thesis unfolding demo_table_def by (intro step table_empty)
qed

lemma be_bytes_length [simp]: "length (be_bytes n x) = n"
  by (simp add: be_bytes_def)

lemma demo_hash:
  "canonical_json demo_scalar (ae_detail e) = Some s \<Longrightarrow> compute_hash demo_audit e = Inr (word_of_int (ae_seq e) # replicate 31 0)"
  by (simp add: compute_hash_def hashed_bytes_def demo_audit_def nth_append)
    (simp add: be_bytes_def rev_nth)

lemma demo_prepare:
  "prepare_entry demo_audit demo_now demo_new rows =
     (let (prev_seq, prev_hash) = (case head_row 7 rows of Some row \<Rightarrow> (ar_seq row, Some (ar_hash row)) | None \<Rightarrow> (0, None))
      in Inr \<lparr>ae_community_id = 7, ae_seq = next_seq prev_seq, ae_hash = word_of_int (next_seq prev_seq) # replicate 31 0,
           ae_prev_hash = prev_hash, ae_action = ChannelCreated, ae_actor_pubkey = None, ae_object_id = Some ''x'',
           ae_detail = na_detail demo_new, ae_created_at = log_timestamp demo_now\<rparr>)"
proof -
  have "\<exists>s. canonical_json demo_scalar (na_detail demo_new) = Some s"
    by (simp add: demo_new_def sorted_members_def)
  then obtain s where "canonical_json demo_scalar (na_detail demo_new) = Some s" by blast
  then show ?thesis
    by (simp add: prepare_entry_def demo_hash split_beta) (simp add: demo_new_def Let_def)
qed

definition demo_row :: "int \<Rightarrow> bytes option \<Rightarrow> audit_row" where
  "demo_row n prev = \<lparr>ar_community_id = 7, ar_seq = n, ar_hash = word_of_int n # replicate 31 0, ar_prev_hash = prev,
     ar_action = ''channel_created'', ar_actor_pubkey = None, ar_object_id = Some ''x'',
     ar_detail = JObject [(''a'', JNull), (''b'', JNumber ''12'')], ar_created_at = demo_now\<lparr>dt_nanos := 123456000\<rparr>\<rparr>"

lemma demo_table_rows: "demo_table = [demo_row 1 None, demo_row 2 (Some (1 # replicate 31 0))]"
proof -
  have row: "entry_row demo_audit \<lparr>ae_community_id = 7, ae_seq = n, ae_hash = word_of_int n # replicate 31 0,
           ae_prev_hash = prev, ae_action = ChannelCreated, ae_actor_pubkey = None, ae_object_id = Some ''x'',
           ae_detail = na_detail demo_new, ae_created_at = log_timestamp demo_now\<rparr> = demo_row n prev" for n prev
    by (simp add: entry_row_def demo_row_def demo_audit_def demo_new_def log_timestamp_def to_storage_precision_def demo_now_def)
  have first: "fst (log_inner demo_audit demo_now demo_new []) = [demo_row 1 None]"
    using row [of 1 None] by (simp add: log_inner_def demo_prepare head_row_def rows_of_def insert_entry_def next_seq_def)
  have head: "head_row 7 [demo_row 1 None] = Some (demo_row 1 None)"
    by (simp add: head_row_def rows_of_def demo_row_def)
  show ?thesis
    unfolding demo_table_def first
    using row [of 2 "Some (1 # replicate 31 0)"]
    by (simp add: log_inner_def demo_prepare head insert_entry_def next_seq_def) (simp add: demo_row_def)
qed

theorem written_chains_verify_witness:
  "map ar_seq (rows_of 7 demo_table) = [1, 2] \<and> verify_chain demo_audit demo_table 7 2 9 = Inr True \<and>
   verify_chain demo_audit demo_table 7 3 9 = Inr False"
proof -
  have rows: "rows_of 7 demo_table = demo_table" "map ar_seq demo_table = [1, 2]" "length demo_table < 2 ^ 63 - 1"
    by (simp_all add: demo_table_rows rows_of_def demo_row_def)
  have hit: "(\<exists>r\<in>set demo_table. ar_community_id r = 7 \<and> n \<le> ar_seq r \<and> ar_seq r \<le> 9) \<longleftrightarrow> n \<le> 2" for n
    by (auto simp: demo_table_rows demo_row_def)
  show ?thesis
    using written_chains_verify [OF demo_pg_laws demo_table_reached rows(3), of 7 2 9]
      written_chains_verify [OF demo_pg_laws demo_table_reached rows(3), of 7 3 9] rows(1,2) hit by simp
qed

definition demo_reordered :: "audit_row list" where
  "demo_reordered = map (\<lambda>r. r\<lparr>ar_detail := JObject [(''b'', JNumber ''12''), (''a'', JNull)]\<rparr>) demo_table"

lemma demo_verifies:
  "verify_chain demo_audit demo_table 7 1 2 = Inr True" "verify_chain demo_audit demo_reordered 7 1 2 = Inr True"
proof -
  have action: "action_from_str ''channel_created'' = Some ChannelCreated"
    using action_from_as_str [of ChannelCreated] by simp
  have "\<exists>s. canonical_json demo_scalar (JObject [(''a'', JNull), (''b'', JNumber ''12'')]) = Some s"
      "\<exists>s. canonical_json demo_scalar (JObject [(''b'', JNumber ''12''), (''a'', JNull)]) = Some s"
    by (simp_all add: sorted_members_def)
  then show "verify_chain demo_audit demo_table 7 1 2 = Inr True" "verify_chain demo_audit demo_reordered 7 1 2 = Inr True"
    by (auto simp: demo_reordered_def demo_table_rows demo_row_def verify_chain_def segment_def rows_of_def
        row_to_audit_entry_def action demo_hash)
qed

theorem tampering_needs_collision_witness:
  "demo_table \<noteq> demo_reordered \<and>
   (map (row_bytes demo_audit) (segment 7 1 2 demo_table) = map (row_bytes demo_audit) (segment 7 1 2 demo_reordered) \<or>
    collision demo_audit (segment 7 1 2 demo_table) (segment 7 1 2 demo_reordered)) \<and>
   verify_chain demo_audit demo_table 7 1 2 = Inr True \<and> verify_chain demo_audit (tl demo_table) 7 1 2 = Inr True"
proof -
  have width: "length (al_sha256 demo_audit b) = 32" for b by (simp add: demo_audit_def)
  have same: "demo_table \<noteq> demo_reordered"
    "length (segment 7 1 2 demo_table) = length (segment 7 1 2 demo_reordered)"
    "ar_hash (last (segment 7 1 2 demo_table)) = ar_hash (last (segment 7 1 2 demo_reordered))"
    "1 < length (segment 7 1 2 demo_table)" "segment 7 1 2 (tl demo_table) = drop 1 (segment 7 1 2 demo_table)"
    by (simp_all add: demo_reordered_def demo_table_rows demo_row_def segment_def rows_of_def)
  show ?thesis using tampering_needs_collision [OF width demo_verifies same(3)] demo_verifies(1) same by blast
qed

definition demo_entry :: audit_entry where
  "demo_entry = \<lparr>ae_community_id = 7, ae_seq = 1, ae_hash = [], ae_prev_hash = None, ae_action = ChannelCreated,
     ae_actor_pubkey = None, ae_object_id = Some ''x'', ae_detail = JNumber ''12'', ae_created_at = demo_now\<rparr>"

theorem object_detail_boundary_unhashed_witness:
  "demo_entry\<lparr>ae_object_id := Some ''x1'', ae_detail := JNumber ''2''\<rparr> \<noteq> demo_entry \<and>
   compute_hash demo_audit (demo_entry\<lparr>ae_object_id := Some ''x1'', ae_detail := JNumber ''2''\<rparr>) = compute_hash demo_audit demo_entry"
  using object_detail_boundary_unhashed [of demo_entry "''x''" demo_audit "CHR ''1''" "''2''" "JNumber ''2''"]
  by (simp add: demo_entry_def demo_audit_def)

end
