(* ===== verification/Acp_Queue.thy ===== *)
theory Acp_Queue
  imports Conversations "HOL-Library.Multiset"
begin

section \<open>The agent event queue (\<open>crates/buzz-acp/src/queue.rs\<close>)\<close>

text \<open>
  The per-channel event queues of the agent harness: events wait per channel, a flush drains one
  channel into a batch and marks the channel in flight, and a batch comes back as completed,
  failed, deferred or cancelled. Times are nanoseconds of the monotonic clock and arguments of
  the operations that read it. Hash maps are association lists in iteration order, hash sets are
  sets. Event content is Unicode text; \<open>to_lowercase\<close> is the parameter of the confirmation check.
  Logging is not modelled.
\<close>

record acp_event =
  av_id :: string
  av_pubkey :: string
  av_kind :: nat
  av_created_at :: nat
  av_content :: utext
  av_tags :: "string list list"

record queued_event =
  qe_channel_id :: uuid
  qe_event :: acp_event
  qe_received_at :: nat
  qe_prompt_tag :: string

record batch_event =
  be_event :: acp_event
  be_prompt_tag :: string
  be_received_at :: nat

datatype cancel_reason = Interrupt | Steer

record flush_batch =
  fb_channel_id :: uuid
  fb_events :: "batch_event list"
  fb_cancelled_events :: "batch_event list"
  fb_cancel_reason :: "cancel_reason option"

datatype dedup_mode = DropMode | QueueMode

record event_queue =
  eq_parent_pacing :: bool
  eq_isolate_threads :: bool
  eq_parent_flat_channels :: "uuid set"
  eq_queues :: "(uuid \<times> queued_event list) list"
  eq_in_flight_channels :: "uuid set"
  eq_in_flight_deadlines :: "(uuid \<times> nat) list"
  eq_in_flight_batch_sizes :: "(uuid \<times> nat) list"
  eq_retry_after :: "(uuid \<times> nat) list"
  eq_retry_counts :: "(uuid \<times> nat) list"
  eq_dedup_mode :: dedup_mode
  eq_cancelled_batches :: "(uuid \<times> batch_event list) list"
  eq_cancel_reasons :: "(uuid \<times> cancel_reason) list"
  eq_withheld_native_steer :: "(uuid \<times> queued_event list) list"
  eq_in_flight_deadline :: nat

definition secs :: "nat \<Rightarrow> nat" where "secs n = n * 1000000000"

definition MAX_PENDING_PER_CHANNEL :: nat where "MAX_PENDING_PER_CHANNEL = 500"
definition MAX_BATCH_EVENTS :: nat where "MAX_BATCH_EVENTS = 50"
definition MAX_RETRIES :: nat where "MAX_RETRIES = 10"
definition BASE_RETRY_DELAY_SECS :: nat where "BASE_RETRY_DELAY_SECS = 5"
definition MAX_RETRY_DELAY_SECS :: nat where "MAX_RETRY_DELAY_SECS = 300"
definition IN_FLIGHT_DEADLINE_BUFFER_SECS :: nat where "IN_FLIGHT_DEADLINE_BUFFER_SECS = 100"
definition DEFAULT_IN_FLIGHT_DEADLINE_SECS :: nat where "DEFAULT_IN_FLIGHT_DEADLINE_SECS = 7300"
definition KIND_AIRHOP_AGENT_TASK :: nat where "KIND_AIRHOP_AGENT_TASK = 21021"

text \<open>\<open>map.get(k).unwrap_or_default()\<close>, and \<open>map.entry(k).or_default()\<close> read without its insertion.\<close>

definition get_or_default :: "('k \<times> 'v list) list \<Rightarrow> 'k \<Rightarrow> 'v list" where
  "get_or_default m k = (case map_of m k of Some v \<Rightarrow> v | None \<Rightarrow> [])"

subsection \<open>Construction\<close>

definition queue_new :: "dedup_mode \<Rightarrow> event_queue" where
  "queue_new mode = \<lparr>eq_parent_pacing = False, eq_isolate_threads = False, eq_parent_flat_channels = {}, eq_queues = [],
     eq_in_flight_channels = {}, eq_in_flight_deadlines = [], eq_in_flight_batch_sizes = [], eq_retry_after = [],
     eq_retry_counts = [], eq_dedup_mode = mode, eq_cancelled_batches = [], eq_cancel_reasons = [],
     eq_withheld_native_steer = [], eq_in_flight_deadline = secs DEFAULT_IN_FLIGHT_DEADLINE_SECS\<rparr>"

definition with_in_flight_deadline :: "nat \<Rightarrow> event_queue \<Rightarrow> event_queue" where
  "with_in_flight_deadline max_turn q =
     q\<lparr>eq_in_flight_deadline := secs (max_turn + IN_FLIGHT_DEADLINE_BUFFER_SECS)\<rparr>"

definition with_thread_isolation :: "bool \<Rightarrow> event_queue \<Rightarrow> event_queue" where
  "with_thread_isolation enabled q = q\<lparr>eq_isolate_threads := enabled\<rparr>"

definition with_parent_pacing :: "bool \<Rightarrow> event_queue \<Rightarrow> event_queue" where
  "with_parent_pacing enabled q = q\<lparr>eq_parent_pacing := enabled\<rparr>"

definition set_parent_channel_threaded :: "uuid \<Rightarrow> bool \<Rightarrow> event_queue \<Rightarrow> event_queue" where
  "set_parent_channel_threaded c threaded q =
     (if threaded then q\<lparr>eq_parent_flat_channels := eq_parent_flat_channels q - {c}\<rparr>
      else q\<lparr>eq_parent_flat_channels := insert c (eq_parent_flat_channels q)\<rparr>)"

subsection \<open>Threads and tasks\<close>

record thread_tags =
  tt_root_event_id :: "string option"
  tt_parent_event_id :: "string option"
  tt_mentioned_pubkeys :: "string list"

text \<open>One tag of the loop: the last root, the last reply, the mentions in order.\<close>

definition thread_tag_step :: "string list \<Rightarrow> string option \<times> string option \<times> string list \<Rightarrow> string option \<times> string option \<times> string list" where
  "thread_tag_step parts acc =
     (case acc of (root, reply, mentions) \<Rightarrow>
        if parts \<noteq> [] \<and> hd parts = ''e'' \<and> length parts \<ge> 4 then
          if parts ! 3 = ''root'' then (Some (parts ! 1), reply, mentions)
          else if parts ! 3 = ''reply'' then (root, Some (parts ! 1), mentions)
          else acc
        else if parts \<noteq> [] \<and> hd parts = ''p'' \<and> length parts \<ge> 2 then (root, reply, mentions @ [parts ! 1])
        else acc)"

definition parse_thread_tags :: "acp_event \<Rightarrow> thread_tags" where
  "parse_thread_tags event =
     (let (root, reply, mentions) = fold thread_tag_step (av_tags event) (None, None, []);
          (root_event_id, parent_event_id) =
            (case (root, reply) of
               (Some r, Some p) \<Rightarrow> (Some r, Some p)
             | (Some r, None) \<Rightarrow> (Some r, Some r)
             | (None, Some p) \<Rightarrow> (Some p, Some p)
             | (None, None) \<Rightarrow> (None, None))
      in \<lparr>tt_root_event_id = root_event_id, tt_parent_event_id = parent_event_id, tt_mentioned_pubkeys = mentions\<rparr>)"

definition conversation_thread_key :: "acp_event \<Rightarrow> string" where
  "conversation_thread_key event =
     (case tt_root_event_id (parse_thread_tags event) of Some r \<Rightarrow> r | None \<Rightarrow> av_id event)"

definition to_ascii_lower :: "char \<Rightarrow> char" where
  "to_ascii_lower c = (if is_ascii_uppercase c then char_of (byte c + 32) else c)"

definition has_tag :: "acp_event \<Rightarrow> string \<Rightarrow> string option \<Rightarrow> bool" where
  "has_tag event name v \<longleftrightarrow>
     (\<exists>parts\<in>set (av_tags event). parts \<noteq> [] \<and> hd parts = name \<and>
        (case v of None \<Rightarrow> True
         | Some expected \<Rightarrow> length parts > 1 \<and> map to_ascii_lower (parts ! 1) = map to_ascii_lower expected))"

definition is_kickoff_task :: "acp_event \<Rightarrow> bool" where
  "is_kickoff_task event \<longleftrightarrow> av_kind event = KIND_AIRHOP_AGENT_TASK \<and>
     has_tag event ''airhop-task'' None \<and> has_tag event ''airhop-kickoff-stage'' None"

subsection \<open>Queueing\<close>

definition push :: "queued_event \<Rightarrow> event_queue \<Rightarrow> event_queue \<times> bool" where
  "push e q =
     (if eq_dedup_mode q = DropMode \<and> qe_channel_id e \<in> eq_in_flight_channels q then (q, False)
      else
        let queue = get_or_default (eq_queues q) (qe_channel_id e);
            queue = (if length queue \<ge> MAX_PENDING_PER_CHANNEL then tl queue else queue)
        in (q\<lparr>eq_queues := AList.update (qe_channel_id e) (queue @ [e]) (eq_queues q)\<rparr>, True))"

definition to_queued :: "uuid \<Rightarrow> batch_event \<Rightarrow> queued_event" where
  "to_queued c be = \<lparr>qe_channel_id = c, qe_event = be_event be, qe_received_at = be_received_at be,
     qe_prompt_tag = be_prompt_tag be\<rparr>"

definition to_batch :: "queued_event \<Rightarrow> batch_event" where
  "to_batch qe = \<lparr>be_event = qe_event qe, be_prompt_tag = qe_prompt_tag qe, be_received_at = qe_received_at qe\<rparr>"

text \<open>\<open>for x in xs.rev() { queue.push_front(x) }\<close> and \<open>while queue.len() > cap { queue.pop_back() }\<close>\<close>

definition push_front_all :: "'a list \<Rightarrow> 'a list \<Rightarrow> 'a list" where
  "push_front_all xs queue = fold (\<lambda>x q. x # q) (rev xs) queue"

definition pop_back_to_cap :: "'a list \<Rightarrow> 'a list" where
  "pop_back_to_cap queue = take MAX_PENDING_PER_CHANNEL queue"

definition recover_withheld_for_expired_channel :: "uuid \<Rightarrow> event_queue \<Rightarrow> event_queue" where
  "recover_withheld_for_expired_channel c q =
     (case map_of (eq_withheld_native_steer q) c of
        None \<Rightarrow> q
      | Some entries \<Rightarrow>
          q\<lparr>eq_withheld_native_steer := AList.delete c (eq_withheld_native_steer q),
            eq_queues := AList.update c (pop_back_to_cap (push_front_all entries (get_or_default (eq_queues q) c))) (eq_queues q)\<rparr>)"

definition expire_channel :: "uuid \<Rightarrow> event_queue \<Rightarrow> event_queue" where
  "expire_channel c q = recover_withheld_for_expired_channel c
     (q\<lparr>eq_in_flight_batch_sizes := AList.delete c (eq_in_flight_batch_sizes q),
        eq_in_flight_channels := eq_in_flight_channels q - {c},
        eq_in_flight_deadlines := AList.delete c (eq_in_flight_deadlines q)\<rparr>)"

definition expire_in_flight :: "nat \<Rightarrow> event_queue \<Rightarrow> event_queue" where
  "expire_in_flight now q = fold expire_channel (map fst (filter (\<lambda>kv. now \<ge> snd kv) (eq_in_flight_deadlines q))) q"

subsection \<open>Flushing\<close>

definition parent_batch_ready :: "(utext \<Rightarrow> utext) \<Rightarrow> event_queue \<Rightarrow> uuid \<Rightarrow> queued_event list \<Rightarrow> nat \<Rightarrow> bool" where
  "parent_batch_ready to_lowercase q c queue now =
     (if \<not> eq_parent_pacing q then True
      else case queue of
        [] \<Rightarrow> False
      | first # _ \<Rightarrow>
          let scope = conversation_thread_key (qe_event first);
              same = takeWhile (\<lambda>item. \<not> eq_isolate_threads q \<or> c \<in> eq_parent_flat_channels q \<or>
                         conversation_thread_key (qe_event item) = scope) (take MAX_BATCH_EVENTS queue);
              last = (if same = [] then first else last same)
          in is_booking_confirmation to_lowercase (av_content (qe_event last)) \<or>
             now - qe_received_at first \<ge> secs 3 \<or> now - qe_received_at last \<ge> 1200000000)"

text \<open>The channels a flush may choose from.\<close>

definition ready :: "(utext \<Rightarrow> utext) \<Rightarrow> nat \<Rightarrow> event_queue \<Rightarrow> uuid \<times> queued_event list \<Rightarrow> bool" where
  "ready to_lowercase now q kv \<longleftrightarrow>
     snd kv \<noteq> [] \<and> fst kv \<notin> eq_in_flight_channels q \<and>
     (case map_of (eq_retry_after q) (fst kv) of None \<Rightarrow> True | Some t \<Rightarrow> t \<le> now) \<and>
     parent_batch_ready to_lowercase q (fst kv) (snd kv) now"

text \<open>\<open>Iterator::min_by_key\<close>: the first element with the least key.\<close>

fun min_by_key :: "('a \<Rightarrow> nat) \<Rightarrow> 'a list \<Rightarrow> 'a option" where
  "min_by_key f [] = None"
| "min_by_key f (x # xs) =
     (case min_by_key f xs of None \<Rightarrow> Some x | Some y \<Rightarrow> if f y < f x then Some y else Some x)"

definition requeue_cancelled_channel :: "uuid \<times> batch_event list \<Rightarrow> event_queue \<Rightarrow> event_queue" where
  "requeue_cancelled_channel kv q =
     q\<lparr>eq_queues := AList.update (fst kv) (push_front_all (map (to_queued (fst kv)) (snd kv))
         (get_or_default (eq_queues q) (fst kv))) (eq_queues q)\<rparr>"

definition requeue_cancelled :: "event_queue \<Rightarrow> event_queue" where
  "requeue_cancelled q =
     (if eq_isolate_threads q then
        fold requeue_cancelled_channel (eq_cancelled_batches q)
          (q\<lparr>eq_cancelled_batches := [], eq_cancel_reasons := []\<rparr>)
      else q)"

definition mark_in_flight :: "nat \<Rightarrow> uuid \<Rightarrow> nat \<Rightarrow> event_queue \<Rightarrow> event_queue" where
  "mark_in_flight now c n q =
     q\<lparr>eq_in_flight_channels := insert c (eq_in_flight_channels q),
       eq_in_flight_deadlines := AList.update c (now + eq_in_flight_deadline q) (eq_in_flight_deadlines q),
       eq_in_flight_batch_sizes := AList.update c n (eq_in_flight_batch_sizes q)\<rparr>"

text \<open>How many events of a queue go into one batch.\<close>

definition drain_count :: "event_queue \<Rightarrow> uuid \<Rightarrow> queued_event list \<Rightarrow> nat" where
  "drain_count q c queue =
     (let n = (if eq_isolate_threads q \<and> c \<notin> eq_parent_flat_channels q
               then length (takeWhile (\<lambda>item. Some (conversation_thread_key (qe_event item)) =
                      (case queue of [] \<Rightarrow> None | f # _ \<Rightarrow> Some (conversation_thread_key (qe_event f))))
                      (take MAX_BATCH_EVENTS queue))
               else min MAX_BATCH_EVENTS (length queue));
          before_kickoff = length (takeWhile (\<lambda>item. \<not> is_kickoff_task (qe_event item)) (take n queue))
      in min n (max before_kickoff 1))"

definition flush_queued :: "nat \<Rightarrow> uuid \<Rightarrow> event_queue \<Rightarrow> event_queue \<times> flush_batch option" where
  "flush_queued now c q =
     (let queue = get_or_default (eq_queues q) c;
          n = drain_count q c queue;
          events = sort_key (\<lambda>be. av_created_at (be_event be)) (map to_batch (take n queue));
          rest = drop n queue;
          q1 = q\<lparr>eq_queues := (if rest = [] then AList.delete c (eq_queues q) else AList.update c rest (eq_queues q))\<rparr>;
          cancelled_events = get_or_default (eq_cancelled_batches q) c;
          cancel_reason = (if cancelled_events = [] then None else map_of (eq_cancel_reasons q) c);
          q2 = (mark_in_flight now c (length events) q1)\<lparr>
                 eq_cancelled_batches := AList.delete c (eq_cancelled_batches q),
                 eq_cancel_reasons := AList.delete c (eq_cancel_reasons q)\<rparr>
      in (q2, Some \<lparr>fb_channel_id = c, fb_events = events, fb_cancelled_events = cancelled_events,
                    fb_cancel_reason = cancel_reason\<rparr>))"

definition flush_cancelled :: "nat \<Rightarrow> uuid \<Rightarrow> event_queue \<Rightarrow> event_queue \<times> flush_batch option" where
  "flush_cancelled now c q =
     (let cancelled = get_or_default (eq_cancelled_batches q) c;
          cancel_reason = map_of (eq_cancel_reasons q) c;
          q1 = q\<lparr>eq_cancelled_batches := AList.delete c (eq_cancelled_batches q),
                 eq_cancel_reasons := AList.delete c (eq_cancel_reasons q)\<rparr>
      in (mark_in_flight now c (length cancelled) q1,
          Some \<lparr>fb_channel_id = c, fb_events = cancelled, fb_cancelled_events = [], fb_cancel_reason = cancel_reason\<rparr>))"

definition flush_next :: "(utext \<Rightarrow> utext) \<Rightarrow> nat \<Rightarrow> event_queue \<Rightarrow> event_queue \<times> flush_batch option" where
  "flush_next to_lowercase now q =
     (let q1 = expire_in_flight now (requeue_cancelled q) in
      case min_by_key (\<lambda>kv. qe_received_at (hd (snd kv))) (filter (ready to_lowercase now q1) (eq_queues q1)) of
        Some (c, _) \<Rightarrow> flush_queued now c q1
      | None \<Rightarrow>
          (case find (\<lambda>c. c \<notin> eq_in_flight_channels q1) (map fst (eq_cancelled_batches q1)) of
             Some c \<Rightarrow> flush_cancelled now c q1
           | None \<Rightarrow> (q1, None)))"

definition has_flushable_work :: "(utext \<Rightarrow> utext) \<Rightarrow> nat \<Rightarrow> event_queue \<Rightarrow> event_queue \<times> bool" where
  "has_flushable_work to_lowercase now q =
     (let q1 = expire_in_flight now q in
      (q1, (\<exists>kv\<in>set (eq_queues q1). ready to_lowercase now q1 kv) \<or>
           (\<exists>c\<in>set (map fst (eq_cancelled_batches q1)). c \<notin> eq_in_flight_channels q1)))"

subsection \<open>The end of a turn\<close>

definition mark_complete :: "nat \<Rightarrow> uuid \<Rightarrow> event_queue \<Rightarrow> event_queue" where
  "mark_complete now c q =
     (let q1 = q\<lparr>eq_in_flight_channels := eq_in_flight_channels q - {c},
                 eq_in_flight_deadlines := AList.delete c (eq_in_flight_deadlines q),
                 eq_in_flight_batch_sizes := AList.delete c (eq_in_flight_batch_sizes q)\<rparr>
      in case map_of (eq_retry_after q) c of
           Some deadline \<Rightarrow>
             if deadline > now then q1
             else q1\<lparr>eq_retry_after := AList.delete c (eq_retry_after q), eq_retry_counts := AList.delete c (eq_retry_counts q)\<rparr>
         | None \<Rightarrow> q1\<lparr>eq_retry_counts := AList.delete c (eq_retry_counts q)\<rparr>)"

text \<open>
  The backoff before an attempt is repeated. The jitter \<open>0.8 + (nanos / u32::MAX) * 0.4\<close> is
  computed with exact fractions and the delay is rounded down to a nanosecond, in place of the
  source's floating point.
\<close>

definition retry_delay :: "nat \<Rightarrow> nat \<Rightarrow> nat" where
  "retry_delay attempt nanos =
     (let base_secs = BASE_RETRY_DELAY_SECS * 2 ^ min (attempt - 1) 6;
          capped_secs = min base_secs MAX_RETRY_DELAY_SECS
      in secs capped_secs * (8 * (2 ^ 32 - 1) + 4 * nanos) div (10 * (2 ^ 32 - 1)))"

definition requeue :: "nat \<Rightarrow> nat \<Rightarrow> flush_batch \<Rightarrow> event_queue \<Rightarrow> event_queue \<times> flush_batch option" where
  "requeue now nanos batch q =
     (let c = fb_channel_id batch;
          attempt = (case map_of (eq_retry_counts q) c of Some n \<Rightarrow> n | None \<Rightarrow> 0) + 1
      in if attempt > MAX_RETRIES then
           (q\<lparr>eq_retry_counts := AList.delete c (eq_retry_counts q), eq_retry_after := AList.delete c (eq_retry_after q)\<rparr>, Some batch)
         else
           (q\<lparr>eq_retry_counts := AList.update c attempt (eq_retry_counts q),
              eq_queues := AList.update c (pop_back_to_cap (push_front_all (map (to_queued c) (fb_events batch))
                (get_or_default (eq_queues q) c))) (eq_queues q),
              eq_retry_after := AList.update c (now + retry_delay attempt nanos) (eq_retry_after q)\<rparr>, None))"

definition requeue_preserve_timestamps :: "flush_batch \<Rightarrow> event_queue \<Rightarrow> event_queue" where
  "requeue_preserve_timestamps batch q =
     (let c = fb_channel_id batch
      in q\<lparr>eq_queues := AList.update c (pop_back_to_cap (push_front_all (map (to_queued c) (fb_events batch))
           (get_or_default (eq_queues q) c))) (eq_queues q)\<rparr>)"

definition defer_batch :: "nat \<Rightarrow> flush_batch \<Rightarrow> nat \<Rightarrow> event_queue \<Rightarrow> event_queue" where
  "defer_batch now batch delay q =
     (let c = fb_channel_id batch;
          q1 = requeue_preserve_timestamps
                 (batch\<lparr>fb_events := fb_cancelled_events batch @ fb_events batch, fb_cancelled_events := []\<rparr>) q
      in q1\<lparr>eq_retry_after := AList.update c (now + delay) (eq_retry_after q1)\<rparr>)"

definition requeue_as_cancelled :: "flush_batch \<Rightarrow> cancel_reason \<Rightarrow> event_queue \<Rightarrow> event_queue" where
  "requeue_as_cancelled batch reason q =
     (let c = fb_channel_id batch
      in q\<lparr>eq_cancelled_batches := AList.update c (get_or_default (eq_cancelled_batches q) c @
             fb_cancelled_events batch @ fb_events batch) (eq_cancelled_batches q),
           eq_cancel_reasons := AList.update c reason (eq_cancel_reasons q)\<rparr>)"

definition extend_in_flight_deadline :: "nat \<Rightarrow> uuid \<Rightarrow> nat \<Rightarrow> event_queue \<Rightarrow> event_queue" where
  "extend_in_flight_deadline now c max_turn_secs q =
     (case map_of (eq_in_flight_deadlines q) c of
        None \<Rightarrow> q
      | Some current \<Rightarrow>
          let extended = now + secs (max_turn_secs + IN_FLIGHT_DEADLINE_BUFFER_SECS)
          in if extended > current then q\<lparr>eq_in_flight_deadlines := AList.update c extended (eq_in_flight_deadlines q)\<rparr>
             else q)"

definition pending_channels :: "event_queue \<Rightarrow> nat" where
  "pending_channels q = length (eq_queues q)"

definition drain_channel :: "uuid \<Rightarrow> event_queue \<Rightarrow> event_queue \<times> string list" where
  "drain_channel c q =
     (q\<lparr>eq_queues := AList.delete c (eq_queues q), eq_retry_after := AList.delete c (eq_retry_after q),
        eq_retry_counts := AList.delete c (eq_retry_counts q), eq_cancelled_batches := AList.delete c (eq_cancelled_batches q),
        eq_cancel_reasons := AList.delete c (eq_cancel_reasons q),
        eq_withheld_native_steer := AList.delete c (eq_withheld_native_steer q)\<rparr>,
      map (\<lambda>e. av_id (qe_event e)) (get_or_default (eq_queues q) c))"

definition is_channel_in_flight :: "uuid \<Rightarrow> event_queue \<Rightarrow> bool" where
  "is_channel_in_flight c q \<longleftrightarrow> c \<in> eq_in_flight_channels q"

definition has_in_flight :: "event_queue \<Rightarrow> bool" where
  "has_in_flight q \<longleftrightarrow> eq_in_flight_channels q \<noteq> {}"

subsection \<open>Withheld events\<close>

text \<open>Taking the first event with an identifier out of a list, and storing a list unless it is empty.\<close>

definition take_event :: "string \<Rightarrow> queued_event list \<Rightarrow> (queued_event \<times> queued_event list) option" where
  "take_event i xs =
     (case dropWhile (\<lambda>e. av_id (qe_event e) \<noteq> i) xs of
        [] \<Rightarrow> None
      | e # rest \<Rightarrow> Some (e, takeWhile (\<lambda>e. av_id (qe_event e) \<noteq> i) xs @ rest))"

definition put_or_remove :: "'k \<Rightarrow> 'v list \<Rightarrow> ('k \<times> 'v list) list \<Rightarrow> ('k \<times> 'v list) list" where
  "put_or_remove k v m = (if v = [] then AList.delete k m else AList.update k v m)"

definition mark_native_steer_pending :: "uuid \<Rightarrow> string \<Rightarrow> event_queue \<Rightarrow> event_queue \<times> bool" where
  "mark_native_steer_pending c i q =
     (case Option.bind (map_of (eq_queues q) c) (take_event i) of
        None \<Rightarrow> (q, False)
      | Some (e, rest) \<Rightarrow>
          (q\<lparr>eq_queues := put_or_remove c rest (eq_queues q),
             eq_withheld_native_steer := AList.update c (get_or_default (eq_withheld_native_steer q) c @ [e])
               (eq_withheld_native_steer q)\<rparr>, True))"

definition release_native_steer :: "uuid \<Rightarrow> string \<Rightarrow> event_queue \<Rightarrow> event_queue" where
  "release_native_steer c i q =
     (case Option.bind (map_of (eq_withheld_native_steer q) c) (take_event i) of
        None \<Rightarrow> q
      | Some (e, rest) \<Rightarrow>
          q\<lparr>eq_withheld_native_steer := put_or_remove c rest (eq_withheld_native_steer q),
            eq_queues := AList.update c (pop_back_to_cap (e # get_or_default (eq_queues q) c)) (eq_queues q)\<rparr>)"

definition without_event :: "string \<Rightarrow> uuid \<Rightarrow> (uuid \<times> queued_event list) list \<Rightarrow> (uuid \<times> queued_event list) list" where
  "without_event i c m =
     (case map_of m c of None \<Rightarrow> m | Some xs \<Rightarrow> put_or_remove c (filter (\<lambda>e. av_id (qe_event e) \<noteq> i) xs) m)"

definition remove_event :: "uuid \<Rightarrow> string \<Rightarrow> event_queue \<Rightarrow> event_queue" where
  "remove_event c i q =
     q\<lparr>eq_withheld_native_steer := without_event i c (eq_withheld_native_steer q),
       eq_queues := without_event i c (eq_queues q)\<rparr>"

definition compact_expired_state :: "nat \<Rightarrow> event_queue \<Rightarrow> event_queue" where
  "compact_expired_state now q =
     (let retry_after = filter (\<lambda>kv. snd kv > now) (eq_retry_after q)
      in q\<lparr>eq_retry_after := retry_after,
           eq_retry_counts := filter (\<lambda>kv. map_of retry_after (fst kv) \<noteq> None \<or> get_or_default (eq_queues q) (fst kv) \<noteq> [] \<or>
             fst kv \<in> eq_in_flight_channels q) (eq_retry_counts q)\<rparr>)"

datatype reply_mode = FlatChannel | ThreadedChannel | DirectMessage

definition resolve_reply_mode :: "uuid \<Rightarrow> uuid set \<Rightarrow> bool \<Rightarrow> reply_mode" where
  "resolve_reply_mode c flat is_dm = (if is_dm then DirectMessage else if c \<in> flat then FlatChannel else ThreadedChannel)"

end
