(* ===== verification/Acp_Queue_Safety.thy ===== *)
theory Acp_Queue_Safety
  imports Acp_Queue
begin

section \<open>What the agent event queue guarantees\<close>

text \<open>
  Accounting of events over any use of the queue, the invariant of the in-flight tables, the
  contents and the fairness of a flushed batch, and the retry budget.
\<close>

named_theorems queue_defs \<open>definitions of the queue's operations\<close>

declare push_def [queue_defs] recover_withheld_for_expired_channel_def [queue_defs] expire_channel_def [queue_defs]
  requeue_cancelled_channel_def [queue_defs] mark_in_flight_def [queue_defs] flush_queued_def [queue_defs]
  flush_cancelled_def [queue_defs] mark_complete_def [queue_defs] requeue_def [queue_defs]
  requeue_preserve_timestamps_def [queue_defs] defer_batch_def [queue_defs] requeue_as_cancelled_def [queue_defs]
  extend_in_flight_deadline_def [queue_defs] drain_channel_def [queue_defs] mark_native_steer_pending_def [queue_defs]
  release_native_steer_def [queue_defs] remove_event_def [queue_defs] compact_expired_state_def [queue_defs]
  set_parent_channel_threaded_def [queue_defs]

subsection \<open>Maps of lists\<close>

lemma get_update [simp]: "get_or_default (AList.update k v m) k' = (if k' = k then v else get_or_default m k')"
  by (simp add: get_or_default_def)

lemma get_delete [simp]: "get_or_default (AList.delete k m) k' = (if k' = k then [] else get_or_default m k')"
  by (simp add: get_or_default_def)

lemma get_put [simp]: "get_or_default (put_or_remove k v m) k' = (if k' = k then v else get_or_default m k')"
  by (simp add: put_or_remove_def)

lemma get_Nil [simp]: "get_or_default [] k = []"
  by (simp add: get_or_default_def)

lemma get_Some [simp]: "map_of m k = Some v \<Longrightarrow> get_or_default m k = v"
  by (simp add: get_or_default_def)

lemma get_without [simp]:
  "get_or_default (without_event i c m) k =
     (if k = c then filter (\<lambda>e. av_id (qe_event e) \<noteq> i) (get_or_default m k) else get_or_default m k)"
  by (auto simp: without_event_def get_or_default_def put_or_remove_def split: option.splits)

lemma distinct_put [simp]: "distinct (map fst m) \<Longrightarrow> distinct (map fst (put_or_remove k v m))"
  by (simp add: put_or_remove_def distinct_delete distinct_update)

lemma distinct_without [simp]: "distinct (map fst m) \<Longrightarrow> distinct (map fst (without_event i c m))"
  by (auto simp: without_event_def split: option.splits)

lemma push_front_all_append [simp]: "push_front_all xs queue = xs @ queue"
  unfolding push_front_all_def by (induction xs arbitrary: queue rule: rev_induct) auto

lemma to_batch_queued [simp]: "to_batch (to_queued c be) = be" "to_batch \<circ> to_queued c = id"
  by (auto simp: to_batch_def to_queued_def fun_eq_iff)

lemma image_to_batch_queued [simp]: "image_mset to_batch (image_mset (to_queued c) M) = M"
  by (simp add: multiset.map_comp)

lemma mset_take_sub: "mset (take n xs) \<subseteq># mset xs"
  by (metis append_take_drop_id mset_append mset_subset_eq_add_left)

lemma mset_cap_sub: "mset (map f (pop_back_to_cap xs)) \<subseteq># mset (map f xs)"
  by (metis mset_take_sub pop_back_to_cap_def take_map)

lemma pop_back_small: "length xs \<le> MAX_PENDING_PER_CHANNEL \<Longrightarrow> pop_back_to_cap xs = xs"
  by (simp add: pop_back_to_cap_def)

lemma take_event_parts: "take_event i xs = Some (e, rest) \<Longrightarrow> mset xs = add_mset e (mset rest) \<and> av_id (qe_event e) = i"
proof -
  assume t: "take_event i xs = Some (e, rest)"
  let ?P = "\<lambda>e. av_id (qe_event e) \<noteq> i"
  from t obtain ys where ys: "dropWhile ?P xs = e # ys" "rest = takeWhile ?P xs @ ys"
    by (auto simp: take_event_def split: list.splits)
  have "xs = takeWhile ?P xs @ e # ys" using ys(1) by (metis takeWhile_dropWhile_id)
  then have "mset xs = mset (takeWhile ?P xs) + mset (e # ys)" by (metis mset_append)
  moreover have "av_id (qe_event e) = i" using ys(1) by (metis (mono_tags, lifting) dropWhile_eq_Cons_conv)
  ultimately show ?thesis using ys(2) by simp
qed

subsection \<open>The events waiting for a channel\<close>

definition waiting :: "event_queue \<Rightarrow> uuid \<Rightarrow> batch_event multiset" where
  "waiting q c = mset (map to_batch (get_or_default (eq_queues q) c)) +
     mset (map to_batch (get_or_default (eq_withheld_native_steer q) c)) + mset (get_or_default (eq_cancelled_batches q) c)"

definition batch_contents :: "flush_batch \<Rightarrow> batch_event multiset" where
  "batch_contents b = mset (fb_events b) + mset (fb_cancelled_events b)"

definition in_channel :: "uuid \<Rightarrow> flush_batch \<Rightarrow> batch_event multiset" where
  "in_channel c b = (if fb_channel_id b = c then batch_contents b else {#})"

text \<open>No queue would overflow if all withheld events came back.\<close>

definition roomy :: "event_queue \<Rightarrow> bool" where
  "roomy q \<longleftrightarrow> (\<forall>c. length (get_or_default (eq_queues q) c) + length (get_or_default (eq_withheld_native_steer q) c) \<le>
     MAX_PENDING_PER_CHANNEL)"

lemma waiting_recover: "waiting (recover_withheld_for_expired_channel c q) c' \<subseteq># waiting q c'"
proof (cases "map_of (eq_withheld_native_steer q) c")
  case (Some entries)
  have "mset (map to_batch (pop_back_to_cap (entries @ get_or_default (eq_queues q) c))) \<subseteq>#
      mset (map to_batch (get_or_default (eq_queues q) c)) + mset (map to_batch entries)"
    using mset_cap_sub [of to_batch "entries @ get_or_default (eq_queues q) c"] by (simp add: add.commute)
  then show ?thesis
    using Some by (auto simp: queue_defs waiting_def intro!: subset_mset.add_right_mono)
qed (simp add: queue_defs)

lemma waiting_recover_roomy: "roomy q \<Longrightarrow> waiting (recover_withheld_for_expired_channel c q) c' = waiting q c' \<and>
    roomy (recover_withheld_for_expired_channel c q)"
proof (cases "map_of (eq_withheld_native_steer q) c")
  case (Some entries)
  assume r: "roomy q"
  then have "length (entries @ get_or_default (eq_queues q) c) \<le> MAX_PENDING_PER_CHANNEL"
    using Some by (auto simp: roomy_def add.commute dest!: spec [of _ c])
  with r Some show ?thesis
    by (auto simp: queue_defs waiting_def pop_back_small roomy_def)
qed (simp add: queue_defs)

lemma waiting_in_flight_fields [simp]:
  "waiting (q\<lparr>eq_in_flight_batch_sizes := a, eq_in_flight_channels := b, eq_in_flight_deadlines := d\<rparr>) c = waiting q c"
  "roomy (q\<lparr>eq_in_flight_batch_sizes := a, eq_in_flight_channels := b, eq_in_flight_deadlines := d\<rparr>) = roomy q"
  by (simp_all add: waiting_def roomy_def)

lemma waiting_expire: "waiting (expire_channel c q) c' \<subseteq># waiting q c'"
  unfolding expire_channel_def by (rule subset_mset.order_trans [OF waiting_recover]) simp

lemma waiting_expire_roomy: "roomy q \<Longrightarrow> waiting (expire_channel c q) c' = waiting q c' \<and> roomy (expire_channel c q)"
  unfolding expire_channel_def using waiting_recover_roomy [where c = c] by simp

lemma waiting_expire_in_flight: "waiting (expire_in_flight now q) c \<subseteq># waiting q c"
proof -
  have "waiting (fold expire_channel cs q) c \<subseteq># waiting q c" for cs
    by (induction cs arbitrary: q) (auto intro: subset_mset.order_trans waiting_expire)
  then show ?thesis by (simp add: expire_in_flight_def)
qed

lemma waiting_expire_in_flight_roomy:
  "roomy q \<Longrightarrow> waiting (expire_in_flight now q) c = waiting q c"
proof -
  have "roomy q \<Longrightarrow> waiting (fold expire_channel cs q) c = waiting q c" for cs
    by (induction cs arbitrary: q) (auto simp: waiting_expire_roomy)
  then show "roomy q \<Longrightarrow> waiting (expire_in_flight now q) c = waiting q c" by (simp add: expire_in_flight_def)
qed

text \<open>Maps hold each key once.\<close>

definition keys_once :: "event_queue \<Rightarrow> bool" where
  "keys_once q \<longleftrightarrow> distinct (map fst (eq_queues q)) \<and> distinct (map fst (eq_in_flight_deadlines q)) \<and>
     distinct (map fst (eq_in_flight_batch_sizes q)) \<and> distinct (map fst (eq_retry_after q)) \<and>
     distinct (map fst (eq_retry_counts q)) \<and> distinct (map fst (eq_cancelled_batches q)) \<and>
     distinct (map fst (eq_cancel_reasons q)) \<and> distinct (map fst (eq_withheld_native_steer q))"

lemma requeued_queues:
  "distinct (map fst kvs) \<Longrightarrow> get_or_default (eq_queues (fold requeue_cancelled_channel kvs q)) c =
     map (to_queued c) (get_or_default kvs c) @ get_or_default (eq_queues q) c"
proof (induction kvs arbitrary: q)
  case (Cons kv kvs)
  have "map_of kvs (fst kv) = None" using Cons.prems by (simp add: map_of_eq_None_iff)
  then have "get_or_default kvs (fst kv) = []" by (simp add: get_or_default_def)
  moreover have "get_or_default (kv # kvs) c = (if c = fst kv then snd kv else get_or_default kvs c)"
    by (cases kv) (simp add: get_or_default_def)
  ultimately show ?case using Cons by (auto simp: requeue_cancelled_channel_def)
qed simp

lemma requeued_fields [simp]:
  "eq_withheld_native_steer (fold requeue_cancelled_channel kvs q) = eq_withheld_native_steer q"
  "eq_cancelled_batches (fold requeue_cancelled_channel kvs q) = eq_cancelled_batches q"
  "eq_in_flight_channels (fold requeue_cancelled_channel kvs q) = eq_in_flight_channels q"
  "eq_in_flight_deadlines (fold requeue_cancelled_channel kvs q) = eq_in_flight_deadlines q"
  "eq_in_flight_batch_sizes (fold requeue_cancelled_channel kvs q) = eq_in_flight_batch_sizes q"
  "eq_in_flight_deadline (fold requeue_cancelled_channel kvs q) = eq_in_flight_deadline q"
  "eq_retry_after (fold requeue_cancelled_channel kvs q) = eq_retry_after q"
  "eq_retry_counts (fold requeue_cancelled_channel kvs q) = eq_retry_counts q"
  "eq_cancel_reasons (fold requeue_cancelled_channel kvs q) = eq_cancel_reasons q"
  by (induction kvs arbitrary: q) (auto simp: requeue_cancelled_channel_def)

lemma waiting_requeue_cancelled: "keys_once q \<Longrightarrow> waiting (requeue_cancelled q) c = waiting q c"
  by (auto simp: requeue_cancelled_def waiting_def requeued_queues keys_once_def)

lemma waiting_flush_queued:
  "flush_queued now c q = (q', Some b) \<Longrightarrow> waiting q c' = waiting q' c' + in_channel c' b"
proof -
  assume f: "flush_queued now c q = (q', Some b)"
  let ?queue = "get_or_default (eq_queues q) c" and ?n = "drain_count q c (get_or_default (eq_queues q) c)"
  have "mset (map to_batch (take ?n ?queue)) + mset (map to_batch (drop ?n ?queue)) = mset (map to_batch ?queue)"
    by (metis append_take_drop_id map_append mset_append)
  then show ?thesis
    using f by (auto simp: queue_defs waiting_def in_channel_def batch_contents_def Let_def ac_simps)
qed

lemma waiting_flush_cancelled:
  "flush_cancelled now c q = (q', Some b) \<Longrightarrow> waiting q c' = waiting q' c' + in_channel c' b"
  by (auto simp: queue_defs waiting_def in_channel_def batch_contents_def Let_def)

text \<open>A flush is one of three: a ready queue, a cancelled batch, or nothing.\<close>

lemma flush_cases [consumes 1, case_names queued cancelled nothing]:
  assumes "flush_next lower now q = (q', r)"
  defines "q1 \<equiv> expire_in_flight now (requeue_cancelled q)"
  obtains c queue where
      "min_by_key (\<lambda>kv. qe_received_at (hd (snd kv))) (filter (ready lower now q1) (eq_queues q1)) = Some (c, queue)"
      "flush_queued now c q1 = (q', r)"
    | c where "filter (ready lower now q1) (eq_queues q1) = []" "c \<in> fst ` set (eq_cancelled_batches q1)" "c \<notin> eq_in_flight_channels q1"
        "flush_cancelled now c q1 = (q', r)"
    | "filter (ready lower now q1) (eq_queues q1) = []" "\<forall>c\<in>fst ` set (eq_cancelled_batches q1). c \<in> eq_in_flight_channels q1"
        "q' = q1" "r = None"
proof -
  have none: "min_by_key f xs = None \<longleftrightarrow> xs = []" for f and xs :: "(uuid \<times> queued_event list) list"
    by (cases xs) (auto split: option.splits)
  have found: "find P xs = Some x \<Longrightarrow> P x \<and> x \<in> set xs" for P and xs :: "uuid list" and x
    by (auto simp: find_Some_iff)
  let ?m = "min_by_key (\<lambda>kv. qe_received_at (hd (snd kv))) (filter (ready lower now q1) (eq_queues q1))"
  show thesis
  proof (cases ?m)
    case (Some kv)
    then show thesis using assms(1) that(1) [of "fst kv" "snd kv"] by (simp add: flush_next_def q1_def split_beta Let_def)
  next
    case no_queue: None
    then have empty: "filter (ready lower now q1) (eq_queues q1) = []" by (simp only: none)
    show thesis
    proof (cases "find (\<lambda>c. c \<notin> eq_in_flight_channels q1) (map fst (eq_cancelled_batches q1))")
      case (Some c)
      then have "flush_cancelled now c q1 = (q', r)"
        using assms(1) no_queue by (simp add: flush_next_def q1_def Let_def)
      then show thesis using that(2) [OF empty] found [OF Some] by auto
    next
      case None
      moreover from this no_queue have "q' = q1" "r = None"
        using assms(1) by (simp_all add: flush_next_def q1_def Let_def)
      ultimately show thesis using that(3) [OF empty] by (auto simp: find_None_iff)
    qed
  qed
qed

lemma flush_queued_Some: "flush_queued now c q = (q', r) \<Longrightarrow> \<exists>b. r = Some b"
  by (auto simp: flush_queued_def Let_def)

lemma flush_cancelled_Some: "flush_cancelled now c q = (q', r) \<Longrightarrow> \<exists>b. r = Some b"
  by (auto simp: flush_cancelled_def Let_def)

definition flushed :: "uuid \<Rightarrow> flush_batch option \<Rightarrow> batch_event multiset" where
  "flushed c r = (case r of Some b \<Rightarrow> in_channel c b | None \<Rightarrow> {#})"

lemma waiting_flush_split:
  assumes "flush_next lower now q = (q', r)"
  shows "waiting (expire_in_flight now (requeue_cancelled q)) c = waiting q' c + flushed c r"
  using assms
proof (cases rule: flush_cases)
  case (queued d queue)
  then show ?thesis using flush_queued_Some waiting_flush_queued by (fastforce simp: flushed_def)
next
  case (cancelled d)
  then show ?thesis using flush_cancelled_Some waiting_flush_cancelled by (fastforce simp: flushed_def)
qed (simp add: flushed_def)

subsection \<open>Any sequence of calls\<close>

datatype acp_op =
    Push queued_event
  | Flush nat
  | HasWork nat
  | Complete nat uuid
  | Fail nat nat flush_batch
  | PutBack flush_batch
  | Defer nat flush_batch nat
  | Cancel flush_batch cancel_reason
  | Extend nat uuid nat
  | Drain uuid
  | SteerPending uuid string
  | SteerRelease uuid string
  | RemoveEvent uuid string
  | Compact nat
  | SetThreaded uuid bool

fun op_step :: "(utext \<Rightarrow> utext) \<Rightarrow> acp_op \<Rightarrow> event_queue \<Rightarrow> event_queue" where
  "op_step lower (Push e) q = fst (push e q)"
| "op_step lower (Flush now) q = fst (flush_next lower now q)"
| "op_step lower (HasWork now) q = fst (has_flushable_work lower now q)"
| "op_step lower (Complete now c) q = mark_complete now c q"
| "op_step lower (Fail now nanos b) q = fst (requeue now nanos b q)"
| "op_step lower (PutBack b) q = requeue_preserve_timestamps b q"
| "op_step lower (Defer now b delay) q = defer_batch now b delay q"
| "op_step lower (Cancel b r) q = requeue_as_cancelled b r q"
| "op_step lower (Extend now c n) q = extend_in_flight_deadline now c n q"
| "op_step lower (Drain c) q = fst (drain_channel c q)"
| "op_step lower (SteerPending c i) q = fst (mark_native_steer_pending c i q)"
| "op_step lower (SteerRelease c i) q = release_native_steer c i q"
| "op_step lower (RemoveEvent c i) q = remove_event c i q"
| "op_step lower (Compact now) q = compact_expired_state now q"
| "op_step lower (SetThreaded c t) q = set_parent_channel_threaded c t q"

definition configured :: "event_queue \<Rightarrow> bool" where
  "configured q \<longleftrightarrow> (\<exists>mode n isolate pacing. q = queue_new mode \<or>
     q = with_parent_pacing pacing (with_thread_isolation isolate (with_in_flight_deadline n (queue_new mode))))"

inductive acp_reach :: "(utext \<Rightarrow> utext) \<Rightarrow> event_queue \<Rightarrow> bool" for lower where
  reach_start: "configured q \<Longrightarrow> acp_reach lower q"
| reach_step: "acp_reach lower q \<Longrightarrow> acp_reach lower (op_step lower op q)"

text \<open>
  The invariant: each map holds a key once, the three in-flight tables have the same channels, no
  retry counter passes the limit, and, unless threads are isolated, no queue passes its cap.
\<close>

definition in_flight_agree :: "event_queue \<Rightarrow> bool" where
  "in_flight_agree q \<longleftrightarrow> dom (map_of (eq_in_flight_deadlines q)) = eq_in_flight_channels q \<and>
     dom (map_of (eq_in_flight_batch_sizes q)) = eq_in_flight_channels q"

definition counts_ok :: "event_queue \<Rightarrow> bool" where
  "counts_ok q \<longleftrightarrow> list_all (\<lambda>kv. snd kv \<le> MAX_RETRIES) (eq_retry_counts q)"

definition within_cap :: "event_queue \<Rightarrow> bool" where
  "within_cap q \<longleftrightarrow> eq_isolate_threads q \<or> (\<forall>c. length (get_or_default (eq_queues q) c) \<le> MAX_PENDING_PER_CHANNEL)"

lemma dom_update [simp]: "dom (map_of (AList.update k v m)) = insert k (dom (map_of m))"
  by (auto simp: dom_def)

lemma dom_delete [simp]: "dom (map_of (AList.delete k m)) = dom (map_of m) - {k}"
  by (auto simp: dom_def)

lemma length_pop_back [simp]: "length (pop_back_to_cap xs) \<le> MAX_PENDING_PER_CHANNEL"
  by (simp add: pop_back_to_cap_def)

lemmas dist_simps = distinct_update distinct_delete

text \<open>The parts of a flush.\<close>

lemma fold_keeps: "(\<And>x q. P q \<Longrightarrow> P (f x q)) \<Longrightarrow> P q \<Longrightarrow> P (fold f xs q)"
  by (induction xs arbitrary: q) simp_all

lemma expire_in_flight_keeps: "(\<And>c q. P q \<Longrightarrow> P (expire_channel c q)) \<Longrightarrow> P q \<Longrightarrow> P (expire_in_flight now q)"
  unfolding expire_in_flight_def by (rule fold_keeps [of P])

lemma requeue_cancelled_keeps:
  assumes "P q" and "P q \<Longrightarrow> P (q\<lparr>eq_cancelled_batches := [], eq_cancel_reasons := []\<rparr>)"
    and "\<And>kv q. P q \<Longrightarrow> P (requeue_cancelled_channel kv q)"
  shows "P (requeue_cancelled q)"
  unfolding requeue_cancelled_def using assms(1,2) by (auto intro: fold_keeps [of P] assms(3))

lemma flush_keeps:
  assumes "P q" and start: "P q \<Longrightarrow> P (requeue_cancelled q)" and expire: "\<And>c q. P q \<Longrightarrow> P (expire_channel c q)"
    and queued: "\<And>c q. P q \<Longrightarrow> P (fst (flush_queued now c q))" and cancelled: "\<And>c q. P q \<Longrightarrow> P (fst (flush_cancelled now c q))"
  shows "P (fst (flush_next lower now q))"
proof -
  have inv1: "P (expire_in_flight now (requeue_cancelled q))"
    by (rule expire_in_flight_keeps [of P]) (auto intro: expire start assms(1))
  obtain q' r where f: "flush_next lower now q = (q', r)" by fastforce
  from f have "P q'"
  proof (cases rule: flush_cases)
    case (queued d queue)
    then show ?thesis using assms(4) [OF inv1, of d] by simp
  next
    case (cancelled d)
    then show ?thesis using assms(5) [OF inv1, of d] by simp
  qed (use inv1 in simp)
  with f show ?thesis by simp
qed

lemma keys_expire: "keys_once q \<Longrightarrow> keys_once (expire_channel c q)"
  by (simp add: keys_once_def queue_defs dist_simps split: option.split)

lemma keys_requeued: "keys_once q \<Longrightarrow> keys_once (requeue_cancelled_channel kv q)"
  by (simp add: keys_once_def queue_defs dist_simps)

lemma keys_flush: "keys_once q \<Longrightarrow> keys_once (fst (flush_next lower now q))"
proof (rule flush_keeps [of keys_once, OF _ _ keys_expire])
  show "keys_once q \<Longrightarrow> keys_once (requeue_cancelled q)"
    by (rule requeue_cancelled_keeps [of keys_once, OF _ _ keys_requeued]) (simp_all add: keys_once_def)
qed (simp_all add: keys_once_def queue_defs Let_def dist_simps)

lemma agree_expire: "in_flight_agree q \<Longrightarrow> in_flight_agree (expire_channel c q)"
  by (simp add: in_flight_agree_def queue_defs split: option.split)

lemma agree_requeued: "in_flight_agree q \<Longrightarrow> in_flight_agree (requeue_cancelled_channel kv q)"
  by (simp add: in_flight_agree_def queue_defs)

lemma agree_flush: "in_flight_agree q \<Longrightarrow> in_flight_agree (fst (flush_next lower now q))"
proof (rule flush_keeps [of in_flight_agree, OF _ _ agree_expire])
  show "in_flight_agree q \<Longrightarrow> in_flight_agree (requeue_cancelled q)"
    by (rule requeue_cancelled_keeps [of in_flight_agree, OF _ _ agree_requeued]) (simp_all add: in_flight_agree_def)
qed (simp_all add: in_flight_agree_def queue_defs Let_def)

lemma counts_flush: "counts_ok q \<Longrightarrow> counts_ok (fst (flush_next lower now q))"
proof (rule flush_keeps [of counts_ok])
  show "counts_ok q \<Longrightarrow> counts_ok (requeue_cancelled q)" by (simp add: requeue_cancelled_def counts_ok_def)
qed (simp_all add: counts_ok_def queue_defs Let_def split: option.split)

lemma cap_expire: "within_cap q \<Longrightarrow> within_cap (expire_channel c q)"
  by (auto simp: within_cap_def queue_defs split: option.split)

lemma isolated_requeued: "eq_isolate_threads (fold requeue_cancelled_channel kvs q) = eq_isolate_threads q"
  by (induction kvs arbitrary: q) (auto simp: requeue_cancelled_channel_def)

lemma cap_flush: "within_cap q \<Longrightarrow> within_cap (fst (flush_next lower now q))"
proof (rule flush_keeps [of within_cap, OF _ _ cap_expire])
  show "within_cap q \<Longrightarrow> within_cap (requeue_cancelled q)"
    by (auto simp: requeue_cancelled_def within_cap_def isolated_requeued)
  show "within_cap q \<Longrightarrow> within_cap (fst (flush_queued now c q))" for c q
    by (auto simp: within_cap_def queue_defs Let_def le_diff_conv trans_le_add1)
  show "within_cap q \<Longrightarrow> within_cap (fst (flush_cancelled now c q))" for c q
    by (auto simp: within_cap_def queue_defs Let_def)
qed

text \<open>Every call keeps each of the four.\<close>

lemma keys_filter: "distinct (map fst m) \<Longrightarrow> distinct (map fst (filter P m))"
  by (simp add: distinct_map_filter)

lemma keys_step: "keys_once q \<Longrightarrow> keys_once (op_step lower op q)"
proof (cases op)
  case (HasWork now)
  assume "keys_once q"
  then have "keys_once (expire_in_flight now q)"
    using keys_expire by (metis expire_in_flight_keeps [of keys_once])
  then show ?thesis using HasWork by (simp add: has_flushable_work_def Let_def)
qed (simp_all add: keys_flush, simp_all add: keys_once_def queue_defs Let_def dist_simps keys_filter split: option.split)

lemma agree_step: "in_flight_agree q \<Longrightarrow> in_flight_agree (op_step lower op q)"
proof (cases op)
  case (HasWork now)
  assume "in_flight_agree q"
  then have "in_flight_agree (expire_in_flight now q)"
    using agree_expire by (metis expire_in_flight_keeps [of in_flight_agree])
  then show ?thesis using HasWork by (simp add: has_flushable_work_def Let_def)
qed (simp_all add: agree_flush, auto simp: in_flight_agree_def queue_defs Let_def split: option.split)

lemma counts_expire [simp]: "eq_retry_counts (expire_in_flight now q) = eq_retry_counts q"
  by (rule expire_in_flight_keeps [of "\<lambda>q'. eq_retry_counts q' = eq_retry_counts q"])
    (simp_all add: queue_defs split: option.split)

lemma list_all_update: "list_all P m \<Longrightarrow> P (k, v) \<Longrightarrow> list_all P (AList.update k v m)"
  by (induction m) auto

lemma list_all_delete: "list_all P m \<Longrightarrow> list_all P (AList.delete k m)"
  by (induction m) auto

lemma list_all_keep: "list_all P m \<Longrightarrow> list_all P (filter Q m)"
  by (auto simp: list_all_iff)

lemma counts_step: "counts_ok q \<Longrightarrow> counts_ok (op_step lower op q)"
  by (cases op, simp_all add: counts_flush)
    (auto simp: counts_ok_def queue_defs has_flushable_work_def Let_def list_all_update list_all_delete list_all_keep
      split: option.split)

lemma cap_step: "within_cap q \<Longrightarrow> within_cap (op_step lower op q)"
proof (cases op)
  case (HasWork now)
  assume "within_cap q"
  then have "within_cap (expire_in_flight now q)" using cap_expire by (metis expire_in_flight_keeps [of within_cap])
  then show ?thesis using HasWork by (simp add: has_flushable_work_def Let_def)
next
  case (Push e)
  assume "within_cap q"
  then have "eq_isolate_threads q \<or> length (get_or_default (eq_queues q) (qe_channel_id e)) \<le> MAX_PENDING_PER_CHANNEL"
    by (auto simp: within_cap_def)
  with \<open>within_cap q\<close> Push show ?thesis by (auto simp: within_cap_def push_def Let_def MAX_PENDING_PER_CHANNEL_def)
next
  case (SteerPending c i)
  assume ok: "within_cap q"
  have "length rest \<le> length xs" if "take_event i xs = Some (e, rest)" for e rest xs
    using take_event_parts [OF that] by (metis add_mset_add_single impossible_Cons le_SucI nat_le_linear size_mset size_add_mset)
  then show ?thesis
    using ok SteerPending
    by (auto simp: within_cap_def mark_native_steer_pending_def split: option.split bind_splits) (metis get_Some le_trans)
next
  case (RemoveEvent c i)
  assume "within_cap q"
  moreover have "length (filter P xs) \<le> n" if "length xs \<le> n" for P and xs :: "queued_event list" and n
    using that length_filter_le [of P xs] by linarith
  ultimately show ?thesis using RemoveEvent by (auto simp: within_cap_def remove_event_def)
qed (simp_all add: cap_flush, auto simp: within_cap_def queue_defs Let_def split: option.split)

definition queue_inv :: "event_queue \<Rightarrow> bool" where
  "queue_inv q \<longleftrightarrow> keys_once q \<and> in_flight_agree q \<and> counts_ok q \<and> within_cap q"

lemma reach_inv: "acp_reach lower q \<Longrightarrow> queue_inv q"
proof (induction rule: acp_reach.induct)
  case (reach_start q)
  then show ?case
    by (auto simp: configured_def queue_inv_def keys_once_def in_flight_agree_def counts_ok_def within_cap_def
        queue_new_def with_parent_pacing_def with_thread_isolation_def with_in_flight_deadline_def)
qed (simp add: queue_inv_def keys_step agree_step counts_step cap_step)

text \<open>What expiry leaves in flight.\<close>

lemma expire_in_flight_channels:
  "eq_in_flight_channels (expire_in_flight now q) =
     eq_in_flight_channels q - fst ` set (filter (\<lambda>kv. now \<ge> snd kv) (eq_in_flight_deadlines q))"
proof -
  have "eq_in_flight_channels (fold expire_channel cs q) = eq_in_flight_channels q - set cs" for cs
    by (induction cs arbitrary: q) (auto simp: queue_defs split: option.split)
  then show ?thesis by (simp add: expire_in_flight_def)
qed

lemma unexpired:
  assumes "queue_inv q" and "c \<in> eq_in_flight_channels (expire_in_flight now q)"
  shows "\<exists>d. map_of (eq_in_flight_deadlines q) c = Some d \<and> now < d"
proof -
  from assms have c: "c \<in> eq_in_flight_channels q" and live: "c \<notin> fst ` set (filter (\<lambda>kv. now \<ge> snd kv) (eq_in_flight_deadlines q))"
    by (simp_all add: expire_in_flight_channels)
  obtain d where d: "map_of (eq_in_flight_deadlines q) c = Some d"
    using assms(1) c by (auto simp: queue_inv_def in_flight_agree_def)
  then have "(c, d) \<in> set (eq_in_flight_deadlines q)" by (rule map_of_SomeD)
  then have "now < d" using live by (force simp: not_less image_iff)
  with d show ?thesis by blast
qed

text \<open>
  Whatever calls are made, in any order and with any batches: the in-flight channels are
  exactly those with a deadline and with a recorded size, so none can stay in flight past its
  deadline (the next check releases it); a retry counter never passes ten; and, unless threads
  are isolated, a channel never holds more than 500 queued events.
\<close>

theorem queue_invariant:
  assumes "acp_reach lower q"
  shows "dom (map_of (eq_in_flight_deadlines q)) = eq_in_flight_channels q \<and>
    dom (map_of (eq_in_flight_batch_sizes q)) = eq_in_flight_channels q \<and>
    (\<forall>now c. c \<in> eq_in_flight_channels (fst (has_flushable_work lower now q)) \<longrightarrow>
       (\<exists>d. map_of (eq_in_flight_deadlines q) c = Some d \<and> now < d)) \<and>
    (\<forall>c n. map_of (eq_retry_counts q) c = Some n \<longrightarrow> n \<le> MAX_RETRIES) \<and>
    (\<not> eq_isolate_threads q \<longrightarrow> (\<forall>c. length (get_or_default (eq_queues q) c) \<le> MAX_PENDING_PER_CHANNEL))"
proof -
  note inv = reach_inv [OF assms]
  then have "\<forall>c n. map_of (eq_retry_counts q) c = Some n \<longrightarrow> n \<le> MAX_RETRIES"
    by (auto simp: queue_inv_def counts_ok_def list_all_iff dest!: map_of_SomeD)
  then show ?thesis
    using inv unexpired [OF inv] by (auto simp: queue_inv_def in_flight_agree_def within_cap_def has_flushable_work_def Let_def)
qed

subsection \<open>Accounting of events\<close>

text \<open>
  A harness between a source of events and an agent: it puts events into a store, takes batches
  out, and each batch it holds it either gives back or settles (answered, dropped or reported as
  failed). The ledger records the batches held, what was put in and what was settled, per channel.
\<close>

inductive ledger ::
  "('c \<Rightarrow> 'e \<Rightarrow> 'q \<Rightarrow> 'q \<Rightarrow> bool) \<Rightarrow> ('q \<Rightarrow> 'q \<Rightarrow> 'b \<Rightarrow> bool) \<Rightarrow> ('b \<Rightarrow> 'q \<Rightarrow> 'q \<Rightarrow> bool) \<Rightarrow> ('q \<Rightarrow> 'q \<Rightarrow> bool) \<Rightarrow>
   ('c \<Rightarrow> 'b \<Rightarrow> 'e multiset) \<Rightarrow> 'q \<Rightarrow> 'q \<Rightarrow> 'b multiset \<Rightarrow> ('c \<Rightarrow> 'e multiset) \<Rightarrow> ('c \<Rightarrow> 'e multiset) \<Rightarrow> bool"
  for put :: "'c \<Rightarrow> 'e \<Rightarrow> 'q \<Rightarrow> 'q \<Rightarrow> bool" and takes :: "'q \<Rightarrow> 'q \<Rightarrow> 'b \<Rightarrow> bool"
    and returns :: "'b \<Rightarrow> 'q \<Rightarrow> 'q \<Rightarrow> bool" and quiet :: "'q \<Rightarrow> 'q \<Rightarrow> bool"
    and contents :: "'c \<Rightarrow> 'b \<Rightarrow> 'e multiset" and q0 :: 'q where
  ledger_start: "ledger put takes returns quiet contents q0 q0 {#} (\<lambda>_. {#}) (\<lambda>_. {#})"
| ledger_put: "ledger put takes returns quiet contents q0 q held pushed settled \<Longrightarrow> put c e q q' \<Longrightarrow>
    ledger put takes returns quiet contents q0 q' held (pushed(c := add_mset e (pushed c))) settled"
| ledger_take: "ledger put takes returns quiet contents q0 q held pushed settled \<Longrightarrow> takes q q' b \<Longrightarrow>
    ledger put takes returns quiet contents q0 q' (add_mset b held) pushed settled"
| ledger_back: "ledger put takes returns quiet contents q0 q (add_mset b held) pushed settled \<Longrightarrow> returns b q q' \<Longrightarrow>
    ledger put takes returns quiet contents q0 q' held pushed settled"
| ledger_settle: "ledger put takes returns quiet contents q0 q (add_mset b held) pushed settled \<Longrightarrow> quiet q q' \<Longrightarrow>
    ledger put takes returns quiet contents q0 q' held pushed (\<lambda>c. settled c + contents c b)"
| ledger_quiet: "ledger put takes returns quiet contents q0 q held pushed settled \<Longrightarrow> quiet q q' \<Longrightarrow>
    ledger put takes returns quiet contents q0 q' held pushed settled"

text \<open>What the harness relies on of the store: no operation makes an event appear twice.\<close>

locale event_store =
  fixes put :: "'c \<Rightarrow> 'e \<Rightarrow> 'q \<Rightarrow> 'q \<Rightarrow> bool" and takes :: "'q \<Rightarrow> 'q \<Rightarrow> 'b \<Rightarrow> bool"
    and returns :: "'b \<Rightarrow> 'q \<Rightarrow> 'q \<Rightarrow> bool" and quiet :: "'q \<Rightarrow> 'q \<Rightarrow> bool"
    and contents :: "'c \<Rightarrow> 'b \<Rightarrow> 'e multiset" and stored :: "'q \<Rightarrow> 'c \<Rightarrow> 'e multiset" and ok :: "'q \<Rightarrow> bool"
  assumes put_law: "ok q \<Longrightarrow> put c e q q' \<Longrightarrow> ok q' \<and> stored q' c' \<subseteq># stored q c' + (if c' = c then {#e#} else {#})"
    and take_law: "ok q \<Longrightarrow> takes q q' b \<Longrightarrow> ok q' \<and> stored q' c' + contents c' b \<subseteq># stored q c'"
    and back_law: "ok q \<Longrightarrow> returns b q q' \<Longrightarrow> ok q' \<and> stored q' c' \<subseteq># stored q c' + contents c' b"
    and quiet_law: "ok q \<Longrightarrow> quiet q q' \<Longrightarrow> ok q' \<and> stored q' c' \<subseteq># stored q c'"
begin

lemma sub_step: "A \<subseteq># B \<Longrightarrow> B + r \<subseteq># p \<Longrightarrow> A + r \<subseteq># p" for A B r p :: "'e multiset"
  by (meson subset_mset.add_right_mono subset_mset.order_trans)

lemma at_most_once:
  assumes "ledger put takes returns quiet contents q0 q held pushed settled" and "ok q0" and "\<And>c. stored q0 c = {#}"
  shows "ok q \<and> stored q c + (\<Sum>b\<in>#held. contents c b) + settled c \<subseteq># pushed c"
  using assms
proof (induction arbitrary: c rule: ledger.induct)
  case (ledger_put q held pushed settled d e q')
  let ?new = "if c = d then {#e#} else {#}"
  have "stored q' c \<subseteq># stored q c + ?new" "ok q'" using put_law ledger_put by blast+
  moreover have "stored q c + ?new + ((\<Sum>b\<in>#held. contents c b) + settled c) \<subseteq># pushed c + ?new"
    using subset_mset.add_right_mono [of "stored q c + (\<Sum>b\<in>#held. contents c b) + settled c" "pushed c" ?new] ledger_put
    by (simp add: ac_simps)
  ultimately show ?case using sub_step by (fastforce simp: add.assoc)
next
  case (ledger_take q held pushed settled q' b)
  have "stored q' c + contents c b \<subseteq># stored q c" "ok q'" using take_law ledger_take by blast+
  moreover have "stored q c + ((\<Sum>b\<in>#held. contents c b) + settled c) \<subseteq># pushed c" using ledger_take by (simp add: add.assoc)
  ultimately show ?case using sub_step by (fastforce simp: add.assoc)
next
  case (ledger_back q b held pushed settled q')
  have "stored q' c \<subseteq># stored q c + contents c b" "ok q'" using back_law ledger_back by blast+
  moreover have "stored q c + contents c b + ((\<Sum>b\<in>#held. contents c b) + settled c) \<subseteq># pushed c"
    using ledger_back.IH [of c] ledger_back.prems by (simp add: add.assoc)
  ultimately show ?case using sub_step by (fastforce simp: add.assoc)
next
  case (ledger_settle q b held pushed settled q')
  have "stored q' c \<subseteq># stored q c" "ok q'" using quiet_law ledger_settle by blast+
  moreover have "stored q c + ((\<Sum>b\<in>#held. contents c b) + (settled c + contents c b)) \<subseteq># pushed c"
    using ledger_settle.IH [of c] ledger_settle.prems by (simp add: ac_simps)
  ultimately show ?case using sub_step by (fastforce simp: add.assoc)
next
  case (ledger_quiet q held pushed settled q')
  have "stored q' c \<subseteq># stored q c" "ok q'" using quiet_law ledger_quiet by blast+
  moreover have "stored q c + ((\<Sum>b\<in>#held. contents c b) + settled c) \<subseteq># pushed c" using ledger_quiet by (simp add: add.assoc)
  ultimately show ?case using sub_step by (fastforce simp: add.assoc)
qed simp

end

text \<open>The four kinds of call on the event queue.\<close>

definition acp_put :: "uuid \<Rightarrow> batch_event \<Rightarrow> event_queue \<Rightarrow> event_queue \<Rightarrow> bool" where
  "acp_put c be q q' \<longleftrightarrow> (\<exists>e. qe_channel_id e = c \<and> to_batch e = be \<and> push e q = (q', True))"

definition acp_take :: "(utext \<Rightarrow> utext) \<Rightarrow> event_queue \<Rightarrow> event_queue \<Rightarrow> flush_batch \<Rightarrow> bool" where
  "acp_take lower q q' b \<longleftrightarrow> (\<exists>now. flush_next lower now q = (q', Some b))"

definition acp_back :: "flush_batch \<Rightarrow> event_queue \<Rightarrow> event_queue \<Rightarrow> bool" where
  "acp_back b q q' \<longleftrightarrow> (\<exists>now nanos. requeue now nanos b q = (q', None)) \<or> q' = requeue_preserve_timestamps b q \<or>
     (\<exists>now delay. q' = defer_batch now b delay q) \<or> (\<exists>r. q' = requeue_as_cancelled b r q)"

text \<open>Calls that neither accept an event nor hand out or take back a batch: the others, a flush without result
  and a failure that exhausts the retries.\<close>

definition acp_quiet :: "(utext \<Rightarrow> utext) \<Rightarrow> event_queue \<Rightarrow> event_queue \<Rightarrow> bool" where
  "acp_quiet lower q q' \<longleftrightarrow> q' = q \<or> (\<exists>now. flush_next lower now q = (q', None)) \<or>
     (\<exists>now nanos b. requeue now nanos b q = (q', Some b)) \<or>
     (\<exists>now. q' = fst (has_flushable_work lower now q)) \<or> (\<exists>now c. q' = mark_complete now c q) \<or>
     (\<exists>now c n. q' = extend_in_flight_deadline now c n q) \<or> (\<exists>c. q' = fst (drain_channel c q)) \<or>
     (\<exists>c i. q' = fst (mark_native_steer_pending c i q)) \<or> (\<exists>c i. q' = release_native_steer c i q) \<or>
     (\<exists>c i. q' = remove_event c i q) \<or> (\<exists>now. q' = compact_expired_state now q) \<or>
     (\<exists>c t. q' = set_parent_channel_threaded c t q)"

lemma waiting_flush_le:
  assumes "keys_once q" and "flush_next lower now q = (q', r)"
  shows "waiting q' c + flushed c r \<subseteq># waiting q c"
  using waiting_flush_split [OF assms(2)] waiting_expire_in_flight [of now "requeue_cancelled q" c]
    waiting_requeue_cancelled [OF assms(1)] by simp

lemma mset_tl_sub: "mset (map f (tl xs)) \<subseteq># mset (map f xs)"
  by (cases xs) (auto simp: subset_mset.le_iff_add intro: exI)

lemma waiting_push: "push e q = (q', True) \<Longrightarrow> waiting q' c \<subseteq># waiting q c + (if c = qe_channel_id e then {#to_batch e#} else {#})"
  using mset_tl_sub [of to_batch "get_or_default (eq_queues q) (qe_channel_id e)"]
  by (auto simp: push_def waiting_def Let_def subset_mset.add_mono split: if_splits)

lemma mset_cap_append: "mset (map f (pop_back_to_cap (xs @ ys))) \<subseteq># mset (map f xs) + mset (map f ys)"
  using mset_cap_sub [of f "xs @ ys"] by simp

lemma waiting_preserve: "waiting (requeue_preserve_timestamps b q) c \<subseteq># waiting q c + in_channel c (b\<lparr>fb_cancelled_events := []\<rparr>)"
  using mset_cap_append [of to_batch "map (to_queued (fb_channel_id b)) (fb_events b)" "get_or_default (eq_queues q) (fb_channel_id b)"]
  by (auto simp: requeue_preserve_timestamps_def waiting_def in_channel_def batch_contents_def Let_def
      subset_mset.add_mono ac_simps)

lemma in_channel_events_le: "in_channel c (b\<lparr>fb_cancelled_events := []\<rparr>) \<subseteq># in_channel c b"
  by (simp add: in_channel_def batch_contents_def)

lemma waiting_retry_fields [simp]:
  "waiting (q\<lparr>eq_retry_after := x\<rparr>) c = waiting q c" "waiting (q\<lparr>eq_retry_counts := y\<rparr>) c = waiting q c"
  by (simp_all add: waiting_def)

lemma waiting_requeue_None:
  "requeue now nanos b q = (q', None) \<Longrightarrow> waiting q' c = waiting (requeue_preserve_timestamps b q) c"
  by (auto simp: requeue_def requeue_preserve_timestamps_def waiting_def Let_def split: if_splits)

lemma waiting_back: "acp_back b q q' \<Longrightarrow> waiting q' c \<subseteq># waiting q c + in_channel c b"
proof -
  have preserve: "waiting (requeue_preserve_timestamps b q) c \<subseteq># waiting q c + in_channel c b"
    using waiting_preserve in_channel_events_le by (meson subset_mset.add_left_mono subset_mset.order_trans)
  let ?b = "b\<lparr>fb_events := fb_cancelled_events b @ fb_events b, fb_cancelled_events := []\<rparr>"
  have "in_channel c (?b\<lparr>fb_cancelled_events := []\<rparr>) = in_channel c b"
    by (simp add: in_channel_def batch_contents_def add.commute)
  then have deferred: "waiting (defer_batch now b delay q) c \<subseteq># waiting q c + in_channel c b" for now delay
    using waiting_preserve [of ?b q c] by (simp add: defer_batch_def Let_def)
  have "waiting (requeue_as_cancelled b r q) c = waiting q c + in_channel c b" for r
    by (simp add: requeue_as_cancelled_def waiting_def in_channel_def batch_contents_def Let_def ac_simps)
  then show "acp_back b q q' \<Longrightarrow> waiting q' c \<subseteq># waiting q c + in_channel c b"
    using preserve deferred by (auto simp: acp_back_def waiting_requeue_None)
qed

lemma waiting_steer: "waiting (fst (mark_native_steer_pending d i q)) c = waiting q c"
proof (cases "Option.bind (map_of (eq_queues q) d) (take_event i)")
  case (Some er)
  then obtain xs where xs: "map_of (eq_queues q) d = Some xs" "take_event i xs = Some (fst er, snd er)"
    by (cases "map_of (eq_queues q) d") auto
  have "mset (map to_batch xs) = add_mset (to_batch (fst er)) (mset (map to_batch (snd er)))"
    using take_event_parts [OF xs(2)] by simp
  then show ?thesis using Some xs by (auto simp: mark_native_steer_pending_def waiting_def split: prod.split)
qed (simp add: mark_native_steer_pending_def)

lemma waiting_release: "waiting (release_native_steer d i q) c \<subseteq># waiting q c"
proof (cases "Option.bind (map_of (eq_withheld_native_steer q) d) (take_event i)")
  case (Some er)
  then obtain xs where xs: "map_of (eq_withheld_native_steer q) d = Some xs" "take_event i xs = Some (fst er, snd er)"
    by (cases "map_of (eq_withheld_native_steer q) d") auto
  have "mset (map to_batch xs) = add_mset (to_batch (fst er)) (mset (map to_batch (snd er)))"
    using take_event_parts [OF xs(2)] by simp
  then show ?thesis
    using Some xs mset_cap_append [of to_batch "[fst er]" "get_or_default (eq_queues q) d"]
    by (auto simp: release_native_steer_def waiting_def subset_mset.add_mono split: prod.split)
qed (simp add: release_native_steer_def)

lemma mset_filter_sub: "mset (map f (filter P xs)) \<subseteq># mset (map f xs)"
  by (simp add: image_mset_subseteq_mono)

lemma waiting_remove: "waiting (remove_event d i q) c \<subseteq># waiting q c"
  by (auto simp: remove_event_def waiting_def intro!: subset_mset.add_mono image_mset_subseteq_mono)

lemma waiting_drain: "waiting (fst (drain_channel d q)) c \<subseteq># waiting q c"
  by (simp add: drain_channel_def waiting_def)

lemma waiting_quiet:
  assumes "keys_once q" and "acp_quiet lower q q'"
  shows "waiting q' c \<subseteq># waiting q c"
proof -
  have same: "waiting (mark_complete now d q) c = waiting q c" "waiting (extend_in_flight_deadline now d n q) c = waiting q c"
      "waiting (compact_expired_state now q) c = waiting q c" "waiting (set_parent_channel_threaded d t q) c = waiting q c"
      "requeue now n b q = (q', Some b') \<Longrightarrow> waiting q' c = waiting q c" for now d n t b b' q'
    by (auto simp: queue_defs waiting_def Let_def split: option.splits if_splits)
  show ?thesis
    using assms(2) waiting_flush_le [OF assms(1), of lower _ q' None c]
    unfolding acp_quiet_def
    by (auto simp: same waiting_steer waiting_release waiting_remove waiting_drain flushed_def has_flushable_work_def Let_def
        waiting_expire_in_flight)
qed

lemma keys_of_steps:
  "keys_once q \<Longrightarrow> acp_put c e q q' \<Longrightarrow> keys_once q'" "keys_once q \<Longrightarrow> acp_take lower q q' b \<Longrightarrow> keys_once q'"
  "keys_once q \<Longrightarrow> acp_back b q q' \<Longrightarrow> keys_once q'" "keys_once q \<Longrightarrow> acp_quiet lower q q' \<Longrightarrow> keys_once q'"
proof -
  note step = keys_step [of q] op_step.simps fst_conv
  show "keys_once q \<Longrightarrow> acp_put c e q q' \<Longrightarrow> keys_once q'" unfolding acp_put_def by (metis step)
  show "keys_once q \<Longrightarrow> acp_take lower q q' b \<Longrightarrow> keys_once q'" unfolding acp_take_def by (metis step)
  show "keys_once q \<Longrightarrow> acp_back b q q' \<Longrightarrow> keys_once q'"
    unfolding acp_back_def by (elim disjE exE) (metis step)+
  show "keys_once q \<Longrightarrow> acp_quiet lower q q' \<Longrightarrow> keys_once q'"
    unfolding acp_quiet_def by (elim disjE exE) (metis step)+
qed

interpretation acp_store: event_store acp_put "acp_take lower" acp_back "acp_quiet lower" in_channel waiting keys_once for lower
proof unfold_locales
  fix q q' :: event_queue and c c' e b
  show "keys_once q \<Longrightarrow> acp_put c e q q' \<Longrightarrow> keys_once q' \<and> waiting q' c' \<subseteq># waiting q c' + (if c' = c then {#e#} else {#})"
    using keys_of_steps(1) waiting_push by (metis acp_put_def)
  show "keys_once q \<Longrightarrow> acp_take lower q q' b \<Longrightarrow> keys_once q' \<and> waiting q' c' + in_channel c' b \<subseteq># waiting q c'"
    using keys_of_steps(2) waiting_flush_le [of q lower _ q' "Some b" c'] by (auto simp: acp_take_def flushed_def)
  show "keys_once q \<Longrightarrow> acp_back b q q' \<Longrightarrow> keys_once q' \<and> waiting q' c' \<subseteq># waiting q c' + in_channel c' b"
    using keys_of_steps(3) waiting_back by blast
  show "keys_once q \<Longrightarrow> acp_quiet lower q q' \<Longrightarrow> keys_once q' \<and> waiting q' c' \<subseteq># waiting q c'"
    using keys_of_steps(4) waiting_quiet by blast
qed

lemma configured_start: "configured q \<Longrightarrow> keys_once q \<and> waiting q c = {#}"
  by (auto simp: configured_def keys_once_def waiting_def queue_new_def with_parent_pacing_def with_thread_isolation_def
      with_in_flight_deadline_def)

text \<open>
  C4. No event is processed twice. Over any history in which batches are only given back or
  settled by whoever holds them, the events still stored, the events in batches held and the
  events settled are, counted with multiplicity, among the events that were accepted for the
  channel, whatever expires, overflows, is steered or is cancelled in between.
\<close>

theorem events_processed_at_most_once:
  assumes "configured q0"
    and "ledger acp_put (acp_take lower) acp_back (acp_quiet lower) in_channel q0 q held pushed settled"
  shows "waiting q c + (\<Sum>b\<in>#held. in_channel c b) + settled c \<subseteq># pushed c"
  using acp_store.at_most_once [OF assms(2)] configured_start [OF assms(1)] by blast

subsection \<open>What a flush returns\<close>

lemma min_by_key_Some: "min_by_key f xs = Some x \<Longrightarrow> x \<in> set xs \<and> (\<forall>y\<in>set xs. f x \<le> f y)"
proof (induction xs arbitrary: x)
  case (Cons y ys)
  show ?case
  proof (cases "min_by_key f ys")
    case None
    then have "ys = []" by (cases ys) (auto split: option.splits if_splits)
    then show ?thesis using Cons.prems by simp
  next
    case (Some z)
    with Cons.IH [OF Some] Cons.prems show ?thesis by (auto split: if_splits intro: order_trans less_imp_le)
  qed
qed simp

lemma min_by_key_None: "min_by_key f xs = None \<longleftrightarrow> xs = []"
  by (cases xs) (auto split: option.splits)

text \<open>The batch drained from a queue: at most fifty, of one thread when isolated, a kickoff only alone.\<close>

lemma drain_count_bounds:
  assumes "queue \<noteq> []"
  shows "0 < drain_count q c queue" "drain_count q c queue \<le> MAX_BATCH_EVENTS"
    "drain_count q c queue \<le> length queue"
    "eq_isolate_threads q \<Longrightarrow> c \<notin> eq_parent_flat_channels q \<Longrightarrow> e \<in> set (take (drain_count q c queue) queue) \<Longrightarrow>
       conversation_thread_key (qe_event e) = conversation_thread_key (qe_event (hd queue))"
    "e \<in> set (take (drain_count q c queue) queue) \<Longrightarrow> is_kickoff_task (qe_event e) \<Longrightarrow> drain_count q c queue = 1"
proof -
  obtain f rest where queue: "queue = f # rest" using assms by (cases queue) auto
  let ?same = "\<lambda>item. conversation_thread_key (qe_event item) = conversation_thread_key (qe_event f)"
  let ?n = "if eq_isolate_threads q \<and> c \<notin> eq_parent_flat_channels q
    then length (takeWhile ?same (take MAX_BATCH_EVENTS queue)) else min MAX_BATCH_EVENTS (length queue)"
  let ?k = "length (takeWhile (\<lambda>item. \<not> is_kickoff_task (qe_event item)) (take ?n queue))"
  have n: "drain_count q c queue = min ?n (max ?k 1)" by (simp add: drain_count_def queue Let_def)
  have tw: "length (takeWhile ?same (take MAX_BATCH_EVENTS queue)) \<le> length (take MAX_BATCH_EVENTS queue)"
    by (rule length_takeWhile_le)
  have pos: "0 < ?n" by (simp add: queue MAX_BATCH_EVENTS_def)
  show "0 < drain_count q c queue" using pos by (simp add: n)
  show "drain_count q c queue \<le> MAX_BATCH_EVENTS" "drain_count q c queue \<le> length queue" using tw by (auto simp: n)
  show "conversation_thread_key (qe_event e) = conversation_thread_key (qe_event (hd queue))"
    if iso: "eq_isolate_threads q" "c \<notin> eq_parent_flat_channels q" and e: "e \<in> set (take (drain_count q c queue) queue)"
  proof -
    have "take ?n queue = takeWhile ?same (take MAX_BATCH_EVENTS queue)"
      using iso takeWhile_eq_take [of ?same "take MAX_BATCH_EVENTS queue"] tw by (simp add: min_absorb1)
    moreover have "set (take (drain_count q c queue) queue) \<subseteq> set (take ?n queue)"
      by (rule set_take_subset_set_take) (simp add: n)
    ultimately show ?thesis using e by (auto simp: queue dest!: set_takeWhileD)
  qed
  show "drain_count q c queue = 1" if e: "e \<in> set (take (drain_count q c queue) queue)" "is_kickoff_task (qe_event e)"
  proof (rule ccontr)
    assume "drain_count q c queue \<noteq> 1"
    then have "drain_count q c queue \<le> ?k" using \<open>0 < drain_count q c queue\<close> by (simp add: n split: if_splits)
    then have "set (take (drain_count q c queue) queue) \<subseteq> set (take ?k queue)" by (rule set_take_subset_set_take)
    moreover have "?k \<le> ?n" by (rule le_trans [OF length_takeWhile_le]) (simp only: length_take min.cobounded2)
    then have "take ?k queue = take ?k (take ?n queue)" by (simp only: take_take min_absorb1)
    moreover have "take ?k (take ?n queue) = takeWhile (\<lambda>item. \<not> is_kickoff_task (qe_event item)) (take ?n queue)"
      by (metis takeWhile_eq_take)
    ultimately show False using e by (metis (no_types, lifting) set_takeWhileD subsetD)
  qed
qed

lemma expire_keeps_config:
  "eq_in_flight_deadline (expire_in_flight now q) = eq_in_flight_deadline q"
  "eq_isolate_threads (expire_in_flight now q) = eq_isolate_threads q"
  by (rule expire_in_flight_keeps [of "\<lambda>q'. eq_in_flight_deadline q' = eq_in_flight_deadline q"])
    (simp_all add: queue_defs expire_in_flight_keeps [of "\<lambda>q'. eq_isolate_threads q' = eq_isolate_threads q"] split: option.split)

lemma flush_queued_batch:
  assumes "flush_queued now c q = (q', Some b)" and queue: "map_of (eq_queues q) c = Some queue" "queue \<noteq> []"
  shows "fb_channel_id b = c" "map_of (eq_in_flight_deadlines q') c = Some (now + eq_in_flight_deadline q)"
    "fb_events b \<noteq> []" "length (fb_events b) \<le> MAX_BATCH_EVENTS"
    "sorted (map (\<lambda>be. av_created_at (be_event be)) (fb_events b))"
    "mset (fb_events b) = mset (map to_batch (take (length (fb_events b)) queue))"
    "eq_isolate_threads q \<Longrightarrow> c \<notin> eq_parent_flat_channels q \<Longrightarrow> x \<in> set (fb_events b) \<Longrightarrow>
       conversation_thread_key (be_event x) = conversation_thread_key (qe_event (hd queue))"
    "x \<in> set (fb_events b) \<Longrightarrow> is_kickoff_task (be_event x) \<Longrightarrow> length (fb_events b) = 1"
proof -
  let ?n = "drain_count q c queue"
  have b: "fb_channel_id b = c" "fb_events b = sort_key (\<lambda>be. av_created_at (be_event be)) (map to_batch (take ?n queue))"
      "map_of (eq_in_flight_deadlines q') c = Some (now + eq_in_flight_deadline q)"
    using assms(1) queue(1) by (auto simp: flush_queued_def Let_def mark_in_flight_def)
  note bounds = drain_count_bounds [OF queue(2), where q = q and c = c]
  have len: "length (fb_events b) = ?n" using bounds(3) by (simp add: b(2) min_absorb2)
  have mem: "\<exists>e\<in>set (take ?n queue). be_event x = qe_event e" if "x \<in> set (fb_events b)" for x
    using that by (auto simp: b(2) to_batch_def)
  show "fb_channel_id b = c" "map_of (eq_in_flight_deadlines q') c = Some (now + eq_in_flight_deadline q)" using b by simp_all
  show "fb_events b \<noteq> []" using bounds(1) len by auto
  show "length (fb_events b) \<le> MAX_BATCH_EVENTS" using bounds(2) len by simp
  show "sorted (map (\<lambda>be. av_created_at (be_event be)) (fb_events b))" by (simp add: b(2))
  show "mset (fb_events b) = mset (map to_batch (take (length (fb_events b)) queue))" unfolding len by (simp add: b(2))
  show "conversation_thread_key (be_event x) = conversation_thread_key (qe_event (hd queue))"
    if "eq_isolate_threads q" "c \<notin> eq_parent_flat_channels q" "x \<in> set (fb_events b)"
    using bounds(4) [OF that(1,2)] mem [OF that(3)] by auto
  show "length (fb_events b) = 1" if "x \<in> set (fb_events b)" "is_kickoff_task (be_event x)"
    using bounds(5) mem [OF that(1)] that(2) len by auto
qed

text \<open>
  A flush is fair and its batch well formed. The channel it returns was not in flight and now
  is, until its deadline. When any channel is ready, the flushed channel is a ready one whose
  oldest event is at least as old as that of every other ready channel, and the batch is the front
  of its queue: between one and fifty events, sorted by their creation time, all of one thread
  where threads are isolated, and an onboarding kickoff only ever alone.
\<close>

theorem flush_fair_and_well_formed:
  assumes "acp_reach lower q" and "flush_next lower now q = (q', Some b)"
    and "q1 = expire_in_flight now (requeue_cancelled q)" and "c = fb_channel_id b"
  shows "c \<notin> eq_in_flight_channels q1 \<and> map_of (eq_in_flight_deadlines q') c = Some (now + eq_in_flight_deadline q) \<and>
    (\<forall>kv\<in>set (eq_queues q1). ready lower now q1 kv \<longrightarrow>
      (\<exists>queue. map_of (eq_queues q1) c = Some queue \<and> ready lower now q1 (c, queue) \<and>
        qe_received_at (hd queue) \<le> qe_received_at (hd (snd kv)) \<and>
        fb_events b \<noteq> [] \<and> length (fb_events b) \<le> MAX_BATCH_EVENTS \<and>
        sorted (map (\<lambda>be. av_created_at (be_event be)) (fb_events b)) \<and>
        mset (fb_events b) = mset (map to_batch (take (length (fb_events b)) queue)) \<and>
        (eq_isolate_threads q1 \<and> c \<notin> eq_parent_flat_channels q1 \<longrightarrow>
          (\<forall>x\<in>set (fb_events b). conversation_thread_key (be_event x) = conversation_thread_key (qe_event (hd queue)))) \<and>
        (\<forall>x\<in>set (fb_events b). is_kickoff_task (be_event x) \<longrightarrow> length (fb_events b) = 1)))"
proof -
  have inv: "keys_once q" using reach_inv [OF assms(1)] by (simp add: queue_inv_def)
  have "keys_once (requeue_cancelled q)"
    using inv by (rule requeue_cancelled_keeps [of keys_once, OF _ _ keys_requeued]) (simp add: keys_once_def)
  then have keys: "distinct (map fst (eq_queues q1))"
    using expire_in_flight_keeps [of keys_once, OF keys_expire] unfolding assms(3) by (auto simp: keys_once_def)
  have dl: "eq_in_flight_deadline q1 = eq_in_flight_deadline q"
    by (simp add: assms(3) expire_keeps_config requeue_cancelled_def)
  from assms(2) show ?thesis
  proof (cases rule: flush_cases)
    case (queued d queue)
    note pick = min_by_key_Some [OF queued(1) [folded assms(3)]]
    have ready: "ready lower now q1 (d, queue)" and mem: "(d, queue) \<in> set (eq_queues q1)" using pick by auto
    have mapq: "map_of (eq_queues q1) d = Some queue" using keys mem by simp
    have ne: "queue \<noteq> []" using ready by (simp add: ready_def)
    note batch = flush_queued_batch [OF queued(2) [folded assms(3)] mapq ne]
    have c: "c = d" using batch(1) assms(4) by simp
    have out: "d \<notin> eq_in_flight_channels q1" using ready by (simp add: ready_def)
    have least: "\<forall>kv\<in>set (eq_queues q1). ready lower now q1 kv \<longrightarrow> qe_received_at (hd queue) \<le> qe_received_at (hd (snd kv))"
      using pick by auto
    show ?thesis unfolding c using out batch mapq ready least dl by simp
  next
    case (cancelled d)
    then have "c = d" "map_of (eq_in_flight_deadlines q') d = Some (now + eq_in_flight_deadline q1)"
      using assms(4) by (auto simp: flush_cancelled_def mark_in_flight_def Let_def assms(3))
    then show ?thesis using cancelled dl by (auto simp: assms(3) filter_empty_conv)
  qed simp
qed

text \<open>
  A flush loses nothing: unless withheld events would overflow a queue, what a channel had
  waiting is what it has waiting afterwards plus what the flush returned for it.
\<close>

theorem flush_loses_nothing:
  assumes "acp_reach lower q" and "roomy (requeue_cancelled q)" and "flush_next lower now q = (q', r)"
  shows "waiting q c = waiting q' c + flushed c r"
proof -
  have "keys_once q" using reach_inv [OF assms(1)] by (simp add: queue_inv_def)
  then show ?thesis
    using waiting_flush_split [OF assms(3)] waiting_expire_in_flight_roomy [OF assms(2)] waiting_requeue_cancelled by simp
qed

text \<open>
  Unless threads are isolated, the check for work agrees with the flush: it answers yes
  exactly when a flush at the same moment returns a batch.
\<close>

theorem flushable_iff_flush:
  assumes "\<not> eq_isolate_threads q"
  shows "snd (has_flushable_work lower now q) \<longleftrightarrow> snd (flush_next lower now q) \<noteq> None"
proof -
  obtain q' r where f: "flush_next lower now q = (q', r)" by fastforce
  have same: "requeue_cancelled q = q" using assms by (simp add: requeue_cancelled_def)
  from f show ?thesis
  proof (cases rule: flush_cases)
    case (queued c queue)
    have "(c, queue) \<in> set (filter (ready lower now (expire_in_flight now q)) (eq_queues (expire_in_flight now q)))"
      using min_by_key_Some [OF queued(1)] unfolding same by blast
    moreover have "\<exists>b. r = Some b" by (rule flush_queued_Some [OF queued(2)])
    ultimately show ?thesis using f by (auto simp: has_flushable_work_def Let_def same)
  next
    case (cancelled c)
    then show ?thesis
      using f flush_cancelled_Some [OF cancelled(4)] by (auto simp: has_flushable_work_def Let_def same)
  next
    case nothing
    then show ?thesis using f by (auto simp: has_flushable_work_def Let_def same filter_empty_conv)
  qed
qed

subsection \<open>Failures\<close>

definition prior_failures :: "event_queue \<Rightarrow> uuid \<Rightarrow> nat" where
  "prior_failures q c = (case map_of (eq_retry_counts q) c of Some n \<Rightarrow> n | None \<Rightarrow> 0)"

definition nominal_secs :: "nat \<Rightarrow> nat" where
  "nominal_secs failures = min (5 * 2 ^ min failures 6) 300"

lemma retry_delay_bounds:
  assumes "nanos < 1000000000"
  shows "8 * (nominal_secs n * 100000000) \<le> retry_delay (n + 1) nanos \<and> retry_delay (n + 1) nanos < 9 * (nominal_secs n * 100000000)"
proof -
  let ?s = "nominal_secs n" and ?u = "2 ^ 32 - 1 :: nat"
  have delay: "retry_delay (n + 1) nanos = ?s * 1000000000 * (8 * ?u + 4 * nanos) div (10 * ?u)"
    by (simp add: retry_delay_def nominal_secs_def secs_def BASE_RETRY_DELAY_SECS_def MAX_RETRY_DELAY_SECS_def Let_def)
  have pos: "0 < ?s" by (simp add: nominal_secs_def)
  have "8 * (?s * 100000000) * (10 * ?u) \<le> ?s * 1000000000 * (8 * ?u + 4 * nanos)" by (simp add: algebra_simps)
  moreover have "?s * 1000000000 * (8 * ?u + 4 * nanos) < 9 * (?s * 100000000) * (10 * ?u)"
    using pos assms by simp
  ultimately show ?thesis unfolding delay by (simp add: less_eq_div_iff_mult_less_eq div_less_iff_less_mult)
qed

text \<open>
  The retry budget: a failed batch is given up exactly when the channel already failed ten
  times, and then the channel's retry state is cleared. Otherwise the failure is counted, the
  count survives the completion of the failed turn, and the channel is not ready before a delay
  of 0.8 to 0.9 times the nominal backoff of 5, 10, 20, 40, 80, 160 and then 300 seconds.
\<close>

theorem retry_budget:
  assumes "acp_reach lower q" and "nanos < 1000000000" and "requeue now nanos b q = (q', r)" and "c = fb_channel_id b"
    and "n = prior_failures q c"
  shows "(r = Some b \<and> n = 10 \<and> map_of (eq_retry_counts q') c = None \<and> map_of (eq_retry_after q') c = None \<and> eq_queues q' = eq_queues q) \<or>
    (r = None \<and> n < 10 \<and> prior_failures q' c = n + 1 \<and>
      (\<exists>d. map_of (eq_retry_after q') c = Some (now + d) \<and>
        8 * (nominal_secs n * 100000000) \<le> d \<and> d < 9 * (nominal_secs n * 100000000) \<and>
        (\<forall>t < now + d. prior_failures (mark_complete t c q') c = n + 1 \<and> (\<forall>queue. \<not> ready lower t q' (c, queue)))))"
proof -
  have le: "n \<le> 10"
    using reach_inv [OF assms(1)] assms(5)
    by (auto simp: queue_inv_def counts_ok_def list_all_iff prior_failures_def MAX_RETRIES_def dest!: map_of_SomeD split: option.splits)
  show ?thesis
  proof (cases "n = 10")
    case True
    then show ?thesis using assms(3-5) by (auto simp: requeue_def prior_failures_def MAX_RETRIES_def Let_def split: if_splits)
  next
    case False
    then have n: "\<not> Suc n > MAX_RETRIES" "n < 10" using le by (simp_all add: MAX_RETRIES_def)
    let ?d = "retry_delay (n + 1) nanos"
    have q': "r = None" "map_of (eq_retry_counts q') c = Some (n + 1)" "map_of (eq_retry_after q') c = Some (now + ?d)"
      using assms(3-5) n(1) by (auto simp: requeue_def prior_failures_def Let_def)
    have "prior_failures (mark_complete t c q') c = n + 1 \<and> (\<forall>queue. \<not> ready lower t q' (c, queue))" if "t < now + ?d" for t
      using that q' by (simp add: mark_complete_def prior_failures_def ready_def Let_def)
    then show ?thesis using q' n(2) retry_delay_bounds [OF assms(2), of n] by (auto simp: prior_failures_def)
  qed
qed

text \<open>
  Of a batch that carries cancelled events, deferring keeps everything, but putting it back
  because no agent was free keeps only its new events: the cancelled ones are dropped.
\<close>

theorem put_back_drops_cancelled:
  assumes "length (fb_cancelled_events b) + length (fb_events b) + length (get_or_default (eq_queues q) (fb_channel_id b)) \<le>
    MAX_PENDING_PER_CHANNEL"
  shows "waiting (defer_batch now b delay q) (fb_channel_id b) = waiting q (fb_channel_id b) + batch_contents b \<and>
    waiting (requeue_preserve_timestamps b q) (fb_channel_id b) = waiting q (fb_channel_id b) + mset (fb_events b)"
  using assms
  by (simp add: defer_batch_def requeue_preserve_timestamps_def waiting_def batch_contents_def pop_back_small Let_def ac_simps)

subsection \<open>Concrete runs\<close>

definition demo_event :: "string \<Rightarrow> nat \<Rightarrow> acp_event" where
  "demo_event i created = \<lparr>av_id = i, av_pubkey = ''p'', av_kind = 9, av_created_at = created, av_content = ascii ''hi'', av_tags = []\<rparr>"

definition demo_queued :: "uuid \<Rightarrow> string \<Rightarrow> nat \<Rightarrow> nat \<Rightarrow> queued_event" where
  "demo_queued c i created received = \<lparr>qe_channel_id = c, qe_event = demo_event i created, qe_received_at = received, qe_prompt_tag = ''m''\<rparr>"

text \<open>Three events for two channels; channel 2 has the oldest, and its events were created in reverse order.\<close>

definition demo_queue :: event_queue where
  "demo_queue = fst (push (demo_queued 2 ''c'' 4 7) (fst (push (demo_queued 1 ''b'' 5 6) (fst (push (demo_queued 2 ''a'' 9 5) (queue_new QueueMode))))))"

definition demo_batch :: flush_batch where
  "demo_batch = \<lparr>fb_channel_id = 2, fb_events = [to_batch (demo_queued 2 ''c'' 4 7), to_batch (demo_queued 2 ''a'' 9 5)],
     fb_cancelled_events = [], fb_cancel_reason = None\<rparr>"

lemma demo_reach: "acp_reach lower demo_queue"
proof -
  have "demo_queue = op_step lower (Push (demo_queued 2 ''c'' 4 7)) (op_step lower (Push (demo_queued 1 ''b'' 5 6))
      (op_step lower (Push (demo_queued 2 ''a'' 9 5)) (queue_new QueueMode)))"
    by (simp add: demo_queue_def)
  moreover have "configured (queue_new QueueMode)" by (auto simp: configured_def)
  ultimately show ?thesis by (metis reach_start reach_step)
qed

lemma demo_queues: "eq_queues demo_queue = [(2, [demo_queued 2 ''a'' 9 5, demo_queued 2 ''c'' 4 7]), (1, [demo_queued 1 ''b'' 5 6])]"
    "eq_in_flight_deadlines demo_queue = []" "eq_in_flight_channels demo_queue = {}" "eq_retry_after demo_queue = []"
    "\<not> eq_parent_pacing demo_queue" "\<not> eq_isolate_threads demo_queue" "eq_cancelled_batches demo_queue = []"
    "eq_withheld_native_steer demo_queue = []" "eq_retry_counts demo_queue = []"
  by (simp_all add: demo_queue_def push_def queue_new_def demo_queued_def MAX_PENDING_PER_CHANNEL_def get_or_default_def Let_def)

lemma demo_flush: "snd (flush_next lower 10 demo_queue) = Some demo_batch"
proof -
  have idle: "expire_in_flight 10 (requeue_cancelled demo_queue) = demo_queue"
    by (simp add: requeue_cancelled_def expire_in_flight_def demo_queues)
  have ready: "filter (ready lower 10 demo_queue) (eq_queues demo_queue) = eq_queues demo_queue"
    by (simp add: demo_queues ready_def parent_batch_ready_def)
  have "drain_count demo_queue 2 [demo_queued 2 ''a'' 9 5, demo_queued 2 ''c'' 4 7] = 2"
    by (simp add: drain_count_def demo_queues MAX_BATCH_EVENTS_def demo_queued_def demo_event_def is_kickoff_task_def
        KIND_AIRHOP_AGENT_TASK_def)
  then show ?thesis
    unfolding flush_next_def idle ready Let_def
    by (simp add: demo_queues flush_queued_def demo_batch_def get_or_default_def) (simp add: demo_queued_def demo_event_def to_batch_def)
qed

theorem queue_invariant_witness:
  "eq_in_flight_channels (fst (flush_next id 10 demo_queue)) = {2} \<and>
   dom (map_of (eq_in_flight_deadlines (fst (flush_next id 10 demo_queue)))) = {2}"
proof -
  obtain q' where f: "flush_next id 10 demo_queue = (q', Some demo_batch)"
    using demo_flush [of id] by (cases "flush_next id 10 demo_queue") auto
  have "acp_reach id q'" using reach_step [OF demo_reach, of id "Flush 10"] f by simp
  moreover have "eq_in_flight_channels q' = {2}"
    using f
  proof (cases rule: flush_cases)
    case (queued c queue)
    then show ?thesis
      by (auto simp: flush_queued_def mark_in_flight_def demo_batch_def demo_queues requeue_cancelled_def expire_in_flight_def Let_def)
  next
    case (cancelled c)
    then show ?thesis by (simp add: requeue_cancelled_def expire_in_flight_def demo_queues)
  qed simp
  ultimately show ?thesis using queue_invariant [of id q'] f by simp
qed

theorem flush_fair_and_well_formed_witness:
  "\<exists>q'. flush_next id 10 demo_queue = (q', Some demo_batch) \<and>
     map_of (eq_in_flight_deadlines q') 2 = Some (10 + eq_in_flight_deadline demo_queue) \<and>
     sorted (map (\<lambda>be. av_created_at (be_event be)) (fb_events demo_batch))"
proof -
  obtain q' where f: "flush_next id 10 demo_queue = (q', Some demo_batch)"
    using demo_flush [of id] by (cases "flush_next id 10 demo_queue") auto
  have idle: "expire_in_flight 10 (requeue_cancelled demo_queue) = demo_queue"
    by (simp add: requeue_cancelled_def expire_in_flight_def demo_queues)
  have "ready id 10 demo_queue (1, [demo_queued 1 ''b'' 5 6])" by (simp add: demo_queues ready_def parent_batch_ready_def)
  then show ?thesis
    using flush_fair_and_well_formed [OF demo_reach f idle [symmetric] refl] f by (auto simp: demo_queues demo_batch_def)
qed

theorem flush_loses_nothing_witness:
  "\<exists>q'. flush_next id 10 demo_queue = (q', Some demo_batch) \<and>
     waiting demo_queue 2 = waiting q' 2 + batch_contents demo_batch"
proof -
  obtain q' where f: "flush_next id 10 demo_queue = (q', Some demo_batch)"
    using demo_flush [of id] by (cases "flush_next id 10 demo_queue") auto
  have "roomy (requeue_cancelled demo_queue)"
    by (auto simp: roomy_def requeue_cancelled_def demo_queues get_or_default_def MAX_PENDING_PER_CHANNEL_def)
  then show ?thesis
    using flush_loses_nothing [OF demo_reach _ f, of 2] f by (auto simp: flushed_def in_channel_def demo_batch_def)
qed

theorem flushable_iff_flush_witness: "snd (has_flushable_work id 10 demo_queue)"
  using flushable_iff_flush [OF demo_queues(6), of id 10] demo_flush by simp

theorem retry_budget_witness:
  "\<exists>q'. requeue 20 500 demo_batch demo_queue = (q', None) \<and> prior_failures q' 2 = 1"
proof -
  obtain q' r where f: "requeue 20 500 demo_batch demo_queue = (q', r)" by fastforce
  have "prior_failures demo_queue 2 = 0" "fb_channel_id demo_batch = 2"
    by (simp_all add: prior_failures_def demo_queues demo_batch_def)
  then show ?thesis using retry_budget [OF demo_reach [of id] _ f refl refl] f by auto
qed

theorem put_back_drops_cancelled_witness:
  "waiting (requeue_preserve_timestamps (demo_batch\<lparr>fb_cancelled_events := [to_batch (demo_queued 2 ''z'' 1 1)]\<rparr>) (queue_new QueueMode)) 2 =
     mset (fb_events demo_batch)"
proof -
  let ?b = "demo_batch\<lparr>fb_cancelled_events := [to_batch (demo_queued 2 ''z'' 1 1)]\<rparr>"
  have "length (fb_cancelled_events ?b) + length (fb_events ?b) + length (get_or_default (eq_queues (queue_new QueueMode)) (fb_channel_id ?b)) \<le>
      MAX_PENDING_PER_CHANNEL"
    by (simp add: demo_batch_def queue_new_def MAX_PENDING_PER_CHANNEL_def)
  moreover have "waiting (queue_new QueueMode) 2 = {#}" by (simp add: waiting_def queue_new_def)
  ultimately show ?thesis using put_back_drops_cancelled [of ?b "queue_new QueueMode"] by (simp add: demo_batch_def)
qed

theorem events_processed_at_most_once_witness:
  "\<exists>q' pushed. ledger acp_put (acp_take id) acp_back (acp_quiet id) in_channel (queue_new QueueMode) q' {#demo_batch#} pushed (\<lambda>_. {#}) \<and>
     batch_contents demo_batch \<subseteq># pushed 2"
proof -
  let ?L = "ledger acp_put (acp_take id) acp_back (acp_quiet id) in_channel (queue_new QueueMode)"
  have push_ok: "acp_put (qe_channel_id e) (to_batch e) q (fst (push e q))" if "eq_dedup_mode q = QueueMode" for e q
    using that by (auto simp: acp_put_def push_def Let_def)
  have mode: "eq_dedup_mode (fst (push e q)) = eq_dedup_mode q" for e q by (simp add: push_def Let_def)
  let ?reach = "\<lambda>q. eq_dedup_mode q = QueueMode \<and> (\<exists>p. ?L q {#} p (\<lambda>_. {#}))"
  have put: "?reach (fst (push e q))" if "?reach q" for e q
  proof -
    from that obtain p where p: "?L q {#} p (\<lambda>_. {#})" and m: "eq_dedup_mode q = QueueMode" by blast
    show ?thesis using ledger_put [OF p push_ok [OF m, of e]] mode [of e q] m by auto
  qed
  have "?reach (queue_new QueueMode)" using ledger_start by (fastforce simp: queue_new_def)
  then have "?reach demo_queue" unfolding demo_queue_def by (intro put)
  then have "\<exists>p. ?L demo_queue {#} p (\<lambda>_. {#})" by blast
  then obtain p where p: "?L demo_queue {#} p (\<lambda>_. {#})" by blast
  obtain q' where f: "flush_next id 10 demo_queue = (q', Some demo_batch)"
    using demo_flush [of id] by (cases "flush_next id 10 demo_queue") auto
  have run: "?L q' {#demo_batch#} p (\<lambda>_. {#})" using ledger_take [OF p] f by (auto simp: acp_take_def)
  have "configured (queue_new QueueMode)" by (auto simp: configured_def)
  from events_processed_at_most_once [OF this run, of 2] have "batch_contents demo_batch \<subseteq># p 2"
    by (simp add: in_channel_def demo_batch_def) (meson mset_subset_eq_add_right subset_mset.order_trans)
  with run show ?thesis by blast
qed

end
