(* ===== verification/Mesh_Wire.thy ===== *)
theory Mesh_Wire
  imports Prelude
begin

section \<open>The mesh wire contract\<close>

text \<open>
  The frames relay runtimes exchange (\<open>buzz-relay-mesh/src/wire.rs\<close>, \<open>peer.rs\<close>, \<open>lib.rs\<close>): the
  fenced header every session-bearing frame carries, one version byte in front of every encoded
  frame, the length-delimited framing of reliable streams and the size check of datagrams. The
  serializer \<open>postcard\<close> is a pair of parameters. A stream is the list of the bytes it carries; the
  texts of transport errors are not kept.
\<close>

text \<open>A runtime is identified by the 32 bytes of its endpoint key.\<close>

type_synonym runtime_id = bytes

record fenced_header =
  fh_session_id :: uuid
  fh_generation :: nat
  fh_owner_runtime_id :: runtime_id

datatype profile = ReliableStream | RealtimeMedia | HuddleControl

datatype goodbye_reason = SessionEnded | Draining | StaleGenerationReason

datatype stream_role = Control | SessionRole (sr_fenced: fenced_header) (sr_profile: profile)

record stream_hello =
  sh_sender :: runtime_id
  sh_role :: stream_role

record mesh_datagram =
  md_fenced :: fenced_header
  md_seq :: nat
  md_payload :: bytes

datatype mesh_stream_frame =
    Hello stream_hello
  | Data fenced_header bytes
  | Goodbye fenced_header goodbye_reason
  | Gossip bytes

datatype mesh_error =
    Encode
  | Decode
  | UnknownWireVersion "8 word"
  | EmptyFrame
  | FrameTooLarge nat nat
  | DatagramTooLarge nat nat
  | PeerNotConnected runtime_id
  | PeerDraining runtime_id
  | StaleGeneration uuid nat nat
  | NoActiveLease uuid nat nat runtime_id
  | OwnerMismatch uuid nat runtime_id runtime_id
  | FutureGeneration uuid nat nat
  | Disabled
  | Transport
  | Redis

subsection \<open>Encoding behind a version byte\<close>

text \<open>The serializer: \<open>pc_to\<close> is \<open>postcard::to_extend\<close>, \<open>pc_from\<close> is \<open>postcard::from_bytes\<close>.\<close>

record 'a postcard =
  pc_to :: "'a \<Rightarrow> bytes option"
  pc_from :: "bytes \<Rightarrow> 'a option"

definition WIRE_VERSION :: "8 word" where
  "WIRE_VERSION = 1"

definition MAX_STREAM_FRAME :: nat where
  "MAX_STREAM_FRAME = 16 * 1024 * 1024"

definition encode_frame :: "'a postcard \<Rightarrow> 'a \<Rightarrow> (bytes, mesh_error) result" where
  "encode_frame pc frame = (case pc_to pc frame of None \<Rightarrow> Inl Encode | Some b \<Rightarrow> Inr (WIRE_VERSION # b))"

definition decode_frame :: "'a postcard \<Rightarrow> bytes \<Rightarrow> ('a, mesh_error) result" where
  "decode_frame pc bytes =
     (case bytes of
        [] \<Rightarrow> Inl EmptyFrame
      | v # rest \<Rightarrow>
          if v = WIRE_VERSION then (case pc_from pc rest of None \<Rightarrow> Inl Decode | Some x \<Rightarrow> Inr x)
          else Inl (UnknownWireVersion v))"

definition encode_datagram_checked :: "mesh_datagram postcard \<Rightarrow> mesh_datagram \<Rightarrow> nat \<Rightarrow> (bytes, mesh_error) result" where
  "encode_datagram_checked pc dgram max_datagram_size =
     and_then (encode_frame pc dgram) (\<lambda>bytes.
       if max_datagram_size < length bytes then Inl (DatagramTooLarge (length bytes) max_datagram_size)
       else Inr bytes)"

subsection \<open>Length-delimited framing\<close>

text \<open>\<open>u32::to_le_bytes\<close> and \<open>u32::from_le_bytes\<close>.\<close>

fun le_digits :: "nat \<Rightarrow> nat \<Rightarrow> bytes" where
  "le_digits 0 n = []"
| "le_digits (Suc k) n = word_of_nat n # le_digits k (n div 256)"

definition le_bytes :: "nat \<Rightarrow> bytes" where
  "le_bytes n = le_digits 4 n"

fun le_value :: "bytes \<Rightarrow> nat" where
  "le_value [] = 0"
| "le_value (b # bs) = unat b + 256 * le_value bs"

text \<open>What \<open>IrohSendHalf::send_frame\<close> writes to the stream.\<close>

definition send_frame :: "mesh_stream_frame postcard \<Rightarrow> mesh_stream_frame \<Rightarrow> (bytes, mesh_error) result" where
  "send_frame pc frame =
     and_then (encode_frame pc frame) (\<lambda>bytes.
       if MAX_STREAM_FRAME < length bytes then Inl (FrameTooLarge (length bytes) MAX_STREAM_FRAME)
       else Inr (le_bytes (length bytes) @ bytes))"

text \<open>
  \<open>IrohRecvHalf::recv_frame\<close> on what the stream still carries before the sender finished it:
  no frame at a clean end, otherwise the frame and the rest of the stream.
\<close>

definition recv_frame :: "mesh_stream_frame postcard \<Rightarrow> bytes \<Rightarrow> ((mesh_stream_frame \<times> bytes) option, mesh_error) result" where
  "recv_frame pc buf =
     (if buf = [] then Inr None
      else if length buf < 4 then Inl Transport
      else let len = le_value (take 4 buf) in
        if MAX_STREAM_FRAME < len then Inl (FrameTooLarge len MAX_STREAM_FRAME)
        else if length (drop 4 buf) < len then Inl Transport
        else and_then (decode_frame pc (take len (drop 4 buf))) (\<lambda>f. Inr (Some (f, drop (4 + len) buf))))"

lemma recv_frame_shrinks: "recv_frame pc buf = Inr (Some (f, rest)) \<Longrightarrow> length rest < length buf"
  by (auto simp: recv_frame_def Let_def and_then_eq_Inr split: if_splits)

text \<open>A receiver reading to the end of the stream.\<close>

function recv_all :: "mesh_stream_frame postcard \<Rightarrow> bytes \<Rightarrow> (mesh_stream_frame list, mesh_error) result" where
  "recv_all pc buf =
     (case recv_frame pc buf of
        Inl e \<Rightarrow> Inl e
      | Inr None \<Rightarrow> Inr []
      | Inr (Some (f, rest)) \<Rightarrow> and_then (recv_all pc rest) (\<lambda>fs. Inr (f # fs)))"
  by auto
termination by (relation "measure (\<lambda>(pc, buf). length buf)") (auto dest: recv_frame_shrinks)

declare recv_all.simps [simp del]

fun send_all :: "mesh_stream_frame postcard \<Rightarrow> mesh_stream_frame list \<Rightarrow> (bytes, mesh_error) result" where
  "send_all pc [] = Inr []"
| "send_all pc (f # fs) = and_then (send_frame pc f) (\<lambda>b. and_then (send_all pc fs) (\<lambda>bs. Inr (b @ bs)))"

subsection \<open>Frames survive the stream\<close>

definition postcard_laws :: "'a postcard \<Rightarrow> bool" where
  "postcard_laws pc \<longleftrightarrow> (\<forall>x b. pc_to pc x = Some b \<longrightarrow> pc_from pc b = Some x)"

lemma length_le_digits [simp]: "length (le_digits k n) = k"
  by (induction k arbitrary: n) simp_all

lemma length_le_bytes [simp]: "length (le_bytes n) = 4"
  by (simp add: le_bytes_def)

lemma le_value_le_digits: "n < 256 ^ k \<Longrightarrow> le_value (le_digits k n) = n"
proof (induction k arbitrary: n)
  case (Suc k)
  then have "n div 256 < 256 ^ k" by (simp add: less_mult_imp_div_less mult.commute)
  with Suc.IH show ?case by (simp add: unat_of_nat)
qed simp

lemma le_value_le_bytes: "n < 2 ^ 32 \<Longrightarrow> le_value (le_bytes n) = n"
  by (simp add: le_bytes_def le_value_le_digits)

lemma decode_encode_frame: "postcard_laws pc \<Longrightarrow> encode_frame pc f = Inr b \<Longrightarrow> decode_frame pc b = Inr f"
  by (auto simp: encode_frame_def decode_frame_def postcard_laws_def split: option.splits)

lemma recv_sent_frame:
  assumes "postcard_laws pc" and "send_frame pc f = Inr b"
  shows "recv_frame pc (b @ rest) = Inr (Some (f, rest))"
proof -
  obtain body where body: "encode_frame pc f = Inr body" "length body \<le> MAX_STREAM_FRAME"
      "b = le_bytes (length body) @ body"
    using assms(2) by (auto simp: send_frame_def and_then_eq_Inr split: if_splits)
  then have "le_value (le_bytes (length body)) = length body"
    by (intro le_value_le_bytes) (simp add: MAX_STREAM_FRAME_def)
  moreover have nonempty: "le_bytes (length body) \<noteq> []"
    using length_le_bytes [of "length body"] by (metis list.size(3) zero_neq_numeral)
  ultimately show ?thesis
    using body decode_encode_frame [OF assms(1) body(1)]
    by (simp add: recv_frame_def Let_def nonempty)
qed

text \<open>
  Whatever frames a sender writes to a reliable stream, each within the frame limit, the
  receiver reads back exactly those frames in their order and then sees the clean end.
\<close>

theorem stream_frames_round_trip:
  assumes "postcard_laws pc" and "send_all pc fs = Inr buf"
  shows "recv_all pc buf = Inr fs"
  using assms(2)
proof (induction fs arbitrary: buf)
  case Nil
  then show ?case by (simp add: recv_all.simps recv_frame_def)
next
  case (Cons f fs)
  then obtain b bs where "send_frame pc f = Inr b" "send_all pc fs = Inr bs" "buf = b @ bs"
    by (auto simp: and_then_eq_Inr)
  then show ?case
    using Cons.IH [of bs] by (simp add: recv_all.simps [of pc "b @ bs"] recv_sent_frame [OF assms(1)])
qed

text \<open>A codec of a single kind of frame, to run the framing.\<close>

definition demo_postcard :: "mesh_stream_frame postcard" where
  "demo_postcard = \<lparr>pc_to = (\<lambda>f. case f of Gossip p \<Rightarrow> Some p | _ \<Rightarrow> None), pc_from = (\<lambda>b. Some (Gossip b))\<rparr>"

lemma demo_postcard_laws: "postcard_laws demo_postcard"
  by (auto simp: postcard_laws_def demo_postcard_def split: mesh_stream_frame.splits)

lemma le_bytes_small:
  assumes "n < 256"
  shows "le_bytes n = [word_of_nat n, 0, 0, 0]"
proof -
  have "le_digits (Suc (Suc (Suc (Suc 0)))) n = [word_of_nat n, 0, 0, 0]"
    using assms by simp
  moreover have "Suc (Suc (Suc (Suc 0))) = 4" by simp
  ultimately show ?thesis unfolding le_bytes_def by metis
qed

theorem stream_frames_round_trip_witness:
  "recv_all demo_postcard [3, 0, 0, 0, 1, 7, 9, 1, 0, 0, 0, 1] = Inr [Gossip [7, 9], Gossip []]"
proof (rule stream_frames_round_trip [OF demo_postcard_laws])
  show "send_all demo_postcard [Gossip [7, 9], Gossip []] = Inr [3, 0, 0, 0, 1, 7, 9, 1, 0, 0, 0, 1]"
    by (simp add: send_frame_def encode_frame_def demo_postcard_def MAX_STREAM_FRAME_def WIRE_VERSION_def
        le_bytes_small)
qed

end
