(* ===== verification/Session_Directory.thy ===== *)
theory Session_Directory
  imports Mesh_Wire
begin

section \<open>The fenced session directory\<close>

text \<open>
  Ownership of tunnel sessions (\<open>buzz-relay/src/tunnel/directory.rs\<close>): the Lua scripts that run
  atomically in Redis, the Rust operations around them, and the check every session-bearing frame
  passes at every hop. The commands of Redis, hexadecimal, the text of identifiers and Lua's number
  formatting are parameters, fields of the record \<open>dir_env\<close> whose documented behaviour is
  \<open>env_laws\<close>. A call may fail before it reaches Redis or lose its reply after the script ran
  (\<open>net\<close>). Log lines and rejection counters are not modelled.
\<close>

text \<open>The type \<open>'r\<close> is the state of the Redis server.\<close>

record 'r dir_env =
  rd_get :: "'r \<Rightarrow> string \<Rightarrow> string option"
  rd_set_px :: "'r \<Rightarrow> string \<Rightarrow> string \<Rightarrow> int \<Rightarrow> 'r"
  rd_incr :: "'r \<Rightarrow> string \<Rightarrow> (int \<times> 'r) option"
  rd_pexpire :: "'r \<Rightarrow> string \<Rightarrow> int \<Rightarrow> 'r"
  rd_del :: "'r \<Rightarrow> string \<Rightarrow> 'r"
  rd_volatile :: "'r \<Rightarrow> string \<Rightarrow> bool"
  hex_enc :: "bytes \<Rightarrow> string"
  hex_dec :: "string \<Rightarrow> bytes option"
  uuid_text :: "uuid \<Rightarrow> string"
  lua_tostring :: "int \<Rightarrow> string"

subsection \<open>The Lua scripts\<close>

text \<open>\<open>string.match(s, '^([^|]+)|([^|]+)|([^|]+)$')\<close>: three captures, or three times nil.\<close>

definition lua_match3 :: "string \<Rightarrow> string option \<times> string option \<times> string option" where
  "lua_match3 s =
     (case split_on (CHR ''|'') s of
        [a, b, c] \<Rightarrow> if a \<noteq> [] \<and> b \<noteq> [] \<and> c \<noteq> [] then (Some a, Some b, Some c) else (None, None, None)
      | _ \<Rightarrow> (None, None, None))"

text \<open>\<open>x or y\<close> for a possibly missing string.\<close>

fun lua_or :: "string option \<Rightarrow> string \<Rightarrow> string" where
  "lua_or None y = y"
| "lua_or (Some x) y = x"

type_synonym reply = "string \<times> string \<times> string"

definition acquire_script :: "'r dir_env \<Rightarrow> string \<Rightarrow> string \<Rightarrow> string \<Rightarrow> string \<Rightarrow> int \<Rightarrow> 'r \<Rightarrow> ('r \<times> reply) option" where
  "acquire_script E lease_key generation_key owner profile ttl r =
     (case rd_get E r lease_key of
        Some current \<Rightarrow> Some (r, ''exists'', current, lua_or (rd_get E r generation_key) '''')
      | None \<Rightarrow>
         (case rd_incr E r generation_key of
            None \<Rightarrow> None
          | Some (generation, r1) \<Rightarrow>
             (let value = owner @ ''|'' @ lua_tostring E generation @ ''|'' @ profile
              in Some (rd_set_px E r1 lease_key value ttl, ''acquired'', value, lua_tostring E generation))))"

definition renew_script :: "'r dir_env \<Rightarrow> string \<Rightarrow> string \<Rightarrow> string \<Rightarrow> string \<Rightarrow> int \<Rightarrow> 'r \<Rightarrow> ('r \<times> reply) option" where
  "renew_script E lease_key generation_key owner generation ttl r =
     (case rd_get E r lease_key of
        None \<Rightarrow> Some (r, ''missing'', '''', lua_or (rd_get E r generation_key) '''')
      | Some current \<Rightarrow>
         (let (current_owner, current_generation, current_profile) = lua_match3 current in
          if current_owner = Some owner \<and> current_generation = Some generation
          then let r1 = rd_pexpire E r lease_key ttl in
            Some (r1, ''renewed'', current, lua_or (rd_get E r1 generation_key) (lua_or current_generation ''''))
          else Some (r, ''lost'', current, lua_or (rd_get E r generation_key) (lua_or current_generation ''''))))"

definition release_script :: "'r dir_env \<Rightarrow> string \<Rightarrow> string \<Rightarrow> string \<Rightarrow> string \<Rightarrow> 'r \<Rightarrow> ('r \<times> reply) option" where
  "release_script E lease_key generation_key owner generation r =
     (case rd_get E r lease_key of
        None \<Rightarrow> Some (r, ''missing'', '''', lua_or (rd_get E r generation_key) '''')
      | Some current \<Rightarrow>
         (let (current_owner, current_generation, current_profile) = lua_match3 current in
          if current_owner = Some owner \<and> current_generation = Some generation
          then let r1 = rd_del E r lease_key in
            Some (r1, ''released'', current, lua_or (rd_get E r1 generation_key) (lua_or current_generation ''''))
          else Some (r, ''lost'', current, lua_or (rd_get E r generation_key) (lua_or current_generation ''''))))"

definition validate_script :: "'r dir_env \<Rightarrow> string \<Rightarrow> string \<Rightarrow> 'r \<Rightarrow> string \<times> string" where
  "validate_script E lease_key generation_key r =
     (lua_or (rd_get E r lease_key) '''', lua_or (rd_get E r generation_key) '''')"

subsection \<open>Leases and their text\<close>

record session_lease =
  sl_community_id :: uuid
  sl_session_id :: uuid
  sl_owner_runtime_id :: runtime_id
  sl_generation :: nat
  sl_profile :: profile

datatype acquire_result = Acquired session_lease | Exists session_lease

datatype renew_result = Renewed session_lease | Lost "session_lease option" "nat option"

datatype release_result = Released session_lease | NotOwner "session_lease option" "nat option"

text \<open>\<open>Panicked\<close> is an \<open>expect\<close> that fails.\<close>

datatype directory_error =
    PoolError
  | RedisError
  | MalformedLease uuid uuid string
  | MalformedGeneration uuid uuid string
  | UnexpectedScriptStatus string
  | InvalidLeaseTtl
  | Panicked

definition fenced_header_of :: "session_lease \<Rightarrow> fenced_header" where
  "fenced_header_of l =
     \<lparr>fh_session_id = sl_session_id l, fh_generation = sl_generation l, fh_owner_runtime_id = sl_owner_runtime_id l\<rparr>"

definition session_base :: "'r dir_env \<Rightarrow> uuid \<Rightarrow> uuid \<Rightarrow> string" where
  "session_base E community_id session_id =
     ''buzz:'' @ uuid_text E community_id @ '':tunnel:'' @ uuid_text E session_id"

definition lease_key :: "'r dir_env \<Rightarrow> uuid \<Rightarrow> uuid \<Rightarrow> string" where
  "lease_key E community_id session_id = session_base E community_id session_id @ '':lease''"

definition generation_key :: "'r dir_env \<Rightarrow> uuid \<Rightarrow> uuid \<Rightarrow> string" where
  "generation_key E community_id session_id = session_base E community_id session_id @ '':generation''"

fun as_wire_str :: "profile \<Rightarrow> string" where
  "as_wire_str ReliableStream = ''reliable-stream''"
| "as_wire_str RealtimeMedia = ''realtime-media''"
| "as_wire_str HuddleControl = ''huddle-control''"

definition profile_from_wire :: "string \<Rightarrow> profile option" where
  "profile_from_wire value =
     (if value = ''reliable-stream'' then Some ReliableStream
      else if value = ''realtime-media'' then Some RealtimeMedia
      else if value = ''huddle-control'' then Some HuddleControl
      else None)"

definition parse_lease :: "'r dir_env \<Rightarrow> uuid \<Rightarrow> uuid \<Rightarrow> string \<Rightarrow> (session_lease, directory_error) result" where
  "parse_lease E community_id session_id value =
     (let malformed = Inl (MalformedLease community_id session_id value);
          parts = split_on (CHR ''|'') value in
      case parts of
        owner_hex # generation_text # rest \<Rightarrow>
         (case parse_unsigned 64 generation_text of
            None \<Rightarrow> malformed
          | Some generation \<Rightarrow>
             (if generation = 0 then malformed
              else case rest of
                [profile_text] \<Rightarrow>
                 (case profile_from_wire profile_text of
                    None \<Rightarrow> malformed
                  | Some profile \<Rightarrow>
                     (case hex_dec E owner_hex of
                        None \<Rightarrow> malformed
                      | Some owner \<Rightarrow>
                         (if length owner \<noteq> 32 then malformed
                          else Inr \<lparr>sl_community_id = community_id, sl_session_id = session_id,
                            sl_owner_runtime_id = owner, sl_generation = generation, sl_profile = profile\<rparr>)))
              | _ \<Rightarrow> malformed))
      | _ \<Rightarrow> malformed)"

definition parse_optional_lease :: "'r dir_env \<Rightarrow> uuid \<Rightarrow> uuid \<Rightarrow> string \<Rightarrow> (session_lease option, directory_error) result" where
  "parse_optional_lease E community_id session_id value =
     (if value = [] then Inr None
      else and_then (parse_lease E community_id session_id value) (\<lambda>l. Inr (Some l)))"

definition parse_optional_generation :: "uuid \<Rightarrow> uuid \<Rightarrow> string \<Rightarrow> (nat option, directory_error) result" where
  "parse_optional_generation community_id session_id value =
     (if value = [] then Inr None
      else case parse_unsigned 64 value of
        None \<Rightarrow> Inl (MalformedGeneration community_id session_id value)
      | Some generation \<Rightarrow>
         (if generation = 0 then Inl (MalformedGeneration community_id session_id value)
          else Inr (Some generation)))"

text \<open>The lease duration in milliseconds.\<close>

definition ttl_ms :: "nat \<Rightarrow> (int, directory_error) result" where
  "ttl_ms ttl = (if 0 < ttl \<and> ttl < 2 ^ 63 then Inr (int ttl) else Inl InvalidLeaseTtl)"

subsection \<open>The operations\<close>

text \<open>What became of a call: no connection, an error before the script ran, a lost reply, or a reply.\<close>

datatype net = NoConnection | NotSent | ReplyLost | Delivered

definition invoke :: "net \<Rightarrow> 'r \<Rightarrow> ('r \<times> 'a) option \<Rightarrow> 'r \<times> ('a, directory_error) result" where
  "invoke net r outcome =
     (case net of
        NoConnection \<Rightarrow> (r, Inl PoolError)
      | NotSent \<Rightarrow> (r, Inl RedisError)
      | ReplyLost \<Rightarrow> (case outcome of None \<Rightarrow> (r, Inl RedisError) | Some (r', _) \<Rightarrow> (r', Inl RedisError))
      | Delivered \<Rightarrow> (case outcome of None \<Rightarrow> (r, Inl RedisError) | Some (r', x) \<Rightarrow> (r', Inr x)))"

definition acquire ::
    "'r dir_env \<Rightarrow> net \<Rightarrow> nat \<Rightarrow> uuid \<Rightarrow> uuid \<Rightarrow> runtime_id \<Rightarrow> profile \<Rightarrow> 'r \<Rightarrow> 'r \<times> (acquire_result, directory_error) result" where
  "acquire E net lease_ttl community_id session_id owner profile r =
     (case ttl_ms lease_ttl of
        Inl e \<Rightarrow> (r, Inl e)
      | Inr ttl \<Rightarrow>
         (let (r', reply) = invoke net r (acquire_script E (lease_key E community_id session_id)
                (generation_key E community_id session_id) (hex_enc E owner) (as_wire_str profile) ttl r)
          in (r', and_then reply (\<lambda>(status, value, _).
                and_then (parse_lease E community_id session_id value) (\<lambda>lease.
                  if status = ''acquired'' then Inr (Acquired lease)
                  else if status = ''exists'' then Inr (Exists lease)
                  else Inl (UnexpectedScriptStatus status))))))"

definition takeover ::
    "'r dir_env \<Rightarrow> net \<Rightarrow> nat \<Rightarrow> uuid \<Rightarrow> uuid \<Rightarrow> runtime_id \<Rightarrow> profile \<Rightarrow> 'r \<Rightarrow> 'r \<times> (acquire_result, directory_error) result" where
  "takeover = acquire"

definition renew :: "'r dir_env \<Rightarrow> net \<Rightarrow> nat \<Rightarrow> session_lease \<Rightarrow> 'r \<Rightarrow> 'r \<times> (renew_result, directory_error) result" where
  "renew E net lease_ttl lease r =
     (let cid = sl_community_id lease; sid = sl_session_id lease in
      case ttl_ms lease_ttl of
        Inl e \<Rightarrow> (r, Inl e)
      | Inr ttl \<Rightarrow>
         (let (r', reply) = invoke net r (renew_script E (lease_key E cid sid) (generation_key E cid sid)
                (hex_enc E (sl_owner_runtime_id lease)) (decimal (sl_generation lease)) ttl r)
          in (r', and_then reply (\<lambda>(status, value, known_generation).
                and_then (parse_optional_lease E cid sid value) (\<lambda>current.
                  if status = ''renewed'' then (case current of None \<Rightarrow> Inl Panicked | Some l \<Rightarrow> Inr (Renewed l))
                  else if status = ''missing'' \<or> status = ''lost''
                  then and_then (parse_optional_generation cid sid known_generation) (\<lambda>known. Inr (Lost current known))
                  else Inl (UnexpectedScriptStatus status))))))"

definition release :: "'r dir_env \<Rightarrow> net \<Rightarrow> session_lease \<Rightarrow> 'r \<Rightarrow> 'r \<times> (release_result, directory_error) result" where
  "release E net lease r =
     (let cid = sl_community_id lease; sid = sl_session_id lease;
          (r', reply) = invoke net r (release_script E (lease_key E cid sid) (generation_key E cid sid)
                (hex_enc E (sl_owner_runtime_id lease)) (decimal (sl_generation lease)) r)
      in (r', and_then reply (\<lambda>(status, value, known_generation).
            and_then (parse_optional_lease E cid sid value) (\<lambda>current.
              if status = ''released'' then (case current of None \<Rightarrow> Inl Panicked | Some l \<Rightarrow> Inr (Released l))
              else if status = ''missing'' \<or> status = ''lost''
              then and_then (parse_optional_generation cid sid known_generation) (\<lambda>known. Inr (NotOwner current known))
              else Inl (UnexpectedScriptStatus status)))))"

definition lookup :: "'r dir_env \<Rightarrow> net \<Rightarrow> uuid \<Rightarrow> uuid \<Rightarrow> 'r \<Rightarrow> (session_lease option, directory_error) result" where
  "lookup E net community_id session_id r =
     and_then (snd (invoke net r (Some (r, rd_get E r (lease_key E community_id session_id))))) (\<lambda>value.
       case value of
         None \<Rightarrow> Inr None
       | Some v \<Rightarrow> and_then (parse_lease E community_id session_id v) (\<lambda>l. Inr (Some l)))"

definition known_generation :: "'r dir_env \<Rightarrow> net \<Rightarrow> uuid \<Rightarrow> uuid \<Rightarrow> 'r \<Rightarrow> (nat option, directory_error) result" where
  "known_generation E net community_id session_id r =
     and_then (snd (invoke net r (Some (r, rd_get E r (generation_key E community_id session_id))))) (\<lambda>value.
       case value of
         None \<Rightarrow> Inr None
       | Some v \<Rightarrow> parse_optional_generation community_id session_id v)"

text \<open>\<open>map_err(|e| MeshError::Transport(e.to_string()))\<close>\<close>

fun transport_err :: "('a, directory_error) result \<Rightarrow> ('a, mesh_error) result" where
  "transport_err (Inl _) = Inl Transport"
| "transport_err (Inr x) = Inr x"

definition check_fence :: "session_lease option \<Rightarrow> nat \<Rightarrow> fenced_header \<Rightarrow> (unit, mesh_error) result" where
  "check_fence current known_from_counter fenced =
     (let known = max (case current of Some lease \<Rightarrow> sl_generation lease | None \<Rightarrow> known_from_counter) known_from_counter in
      if 0 < known \<and> fh_generation fenced < known
      then Inl (StaleGeneration (fh_session_id fenced) (fh_generation fenced) known)
      else case current of
        None \<Rightarrow> Inl (NoActiveLease (fh_session_id fenced) (fh_generation fenced) known (fh_owner_runtime_id fenced))
      | Some lease \<Rightarrow>
          if fh_generation fenced \<noteq> sl_generation lease
          then Inl (FutureGeneration (fh_session_id fenced) (fh_generation fenced) (sl_generation lease))
          else if fh_owner_runtime_id fenced \<noteq> sl_owner_runtime_id lease
          then Inl (OwnerMismatch (fh_session_id fenced) (fh_generation fenced) (fh_owner_runtime_id fenced)
                 (sl_owner_runtime_id lease))
          else Inr ())"

definition validate_fenced_header :: "'r dir_env \<Rightarrow> net \<Rightarrow> uuid \<Rightarrow> fenced_header \<Rightarrow> 'r \<Rightarrow> (unit, mesh_error) result" where
  "validate_fenced_header E net community_id fenced r =
     (let sid = fh_session_id fenced in
      case snd (invoke net r (Some (r, validate_script E (lease_key E community_id sid) (generation_key E community_id sid) r))) of
        Inl PoolError \<Rightarrow> Inl Transport
      | Inl _ \<Rightarrow> Inl Redis
      | Inr (lease_value, counter_text) \<Rightarrow>
          and_then (transport_err (parse_optional_generation community_id sid counter_text)) (\<lambda>known.
          and_then (transport_err (parse_optional_lease E community_id sid lease_value)) (\<lambda>current.
            check_fence current (case known of None \<Rightarrow> 0 | Some g \<Rightarrow> g) fenced)))"

end
