(* ===== verification/Session_Fencing.thy ===== *)
theory Session_Fencing
  imports Session_Directory
begin

section \<open>Leases as an abstract state machine, and fencing\<close>

text \<open>
  What the session directory promises. Abstractly a session has the number of generations issued so
  far and the runtime that holds the current one, if any. Every operation of
  \<open>buzz-relay/src/tunnel/directory.rs\<close> is shown to be a step of that machine, whatever happens to
  its request and reply; from the machine alone follows that what different runtimes are told over
  time never goes back to an older generation and never names two owners for one.
\<close>

named_theorems redis_simps \<open>commands of Redis and the keys of a session\<close>

subsection \<open>What the parameters do\<close>

definition redis_laws :: "'r dir_env \<Rightarrow> bool" where
  "redis_laws E \<longleftrightarrow>
     (\<forall>r k v ttl k'. 0 < ttl \<longrightarrow> rd_get E (rd_set_px E r k v ttl) k' = (if k' = k then Some v else rd_get E r k')) \<and>
     (\<forall>r k v ttl k'. 0 < ttl \<longrightarrow> rd_volatile E (rd_set_px E r k v ttl) k' = (k' = k \<or> rd_volatile E r k')) \<and>
     (\<forall>r k. rd_get E r k = None \<longrightarrow> (\<exists>r'. rd_incr E r k = Some (1, r') \<and>
        rd_get E r' = (rd_get E r)(k \<mapsto> decimal 1) \<and> rd_volatile E r' = (rd_volatile E r)(k := False))) \<and>
     (\<forall>r k n. rd_get E r k = Some (decimal n) \<and> n + 1 < 2 ^ 63 \<longrightarrow> (\<exists>r'. rd_incr E r k = Some (int (n + 1), r') \<and>
        rd_get E r' = (rd_get E r)(k \<mapsto> decimal (n + 1)) \<and> rd_volatile E r' = rd_volatile E r)) \<and>
     (\<forall>r k ttl. 0 < ttl \<longrightarrow> rd_get E (rd_pexpire E r k ttl) = rd_get E r) \<and>
     (\<forall>r k ttl k'. rd_volatile E (rd_pexpire E r k ttl) k' \<longrightarrow> k' = k \<or> rd_volatile E r k') \<and>
     (\<forall>r k k'. rd_get E (rd_del E r k) k' = (if k' = k then None else rd_get E r k')) \<and>
     (\<forall>r k k'. rd_volatile E (rd_del E r k) k' \<longrightarrow> rd_volatile E r k')"

definition text_laws :: "'r dir_env \<Rightarrow> bool" where
  "text_laws E \<longleftrightarrow>
     (\<forall>b. hex_dec E (hex_enc E b) = Some b) \<and>
     (\<forall>b. \<forall>c\<in>set (hex_enc E b). is_lowercase_hexdigit c) \<and>
     (\<forall>b. length (hex_enc E b) = 2 * length b) \<and>
     (\<forall>u v. uuid_text E u = uuid_text E v \<longrightarrow> u = v) \<and> (\<forall>u. length (uuid_text E u) = 36) \<and>
     (\<forall>n. n < 10 ^ 14 \<longrightarrow> lua_tostring E (int n) = decimal n)"

definition env_laws :: "'r dir_env \<Rightarrow> bool" where
  "env_laws E \<longleftrightarrow> redis_laws E \<and> text_laws E"

lemma redis_commands [redis_simps]:
  assumes "env_laws E"
  shows "0 < ttl \<Longrightarrow> rd_get E (rd_set_px E r k v ttl) k' = (if k' = k then Some v else rd_get E r k')"
    and "0 < ttl \<Longrightarrow> rd_volatile E (rd_set_px E r k v ttl) k' \<longleftrightarrow> k' = k \<or> rd_volatile E r k'"
    and "0 < ttl \<Longrightarrow> rd_get E (rd_pexpire E r k ttl) k' = rd_get E r k'"
    and "rd_volatile E (rd_pexpire E r k ttl) k' \<Longrightarrow> k' = k \<or> rd_volatile E r k'"
    and "rd_get E (rd_del E r k) k' = (if k' = k then None else rd_get E r k')"
    and "rd_volatile E (rd_del E r k) k' \<Longrightarrow> rd_volatile E r k'"
  using assms unfolding env_laws_def redis_laws_def by metis+

lemma redis_incr:
  assumes "env_laws E" and "rd_get E r k = (if n = 0 then None else Some (decimal n))" and "n + 1 < 2 ^ 63"
    and "n = 0 \<Longrightarrow> \<not> rd_volatile E r k"
  obtains r' where "rd_incr E r k = Some (int (n + 1), r')"
    and "\<And>k'. rd_get E r' k' = (if k' = k then Some (decimal (n + 1)) else rd_get E r k')"
    and "\<And>k'. rd_volatile E r' k' = rd_volatile E r k'"
proof (cases "n = 0")
  case True
  then obtain r' where r': "rd_incr E r k = Some (1, r')" "rd_get E r' = (rd_get E r)(k \<mapsto> decimal 1)"
      "rd_volatile E r' = (rd_volatile E r)(k := False)"
    using assms(1,2) unfolding env_laws_def redis_laws_def by (metis (no_types, lifting))
  show thesis by (rule that [of r']) (use r' True assms(4) in auto)
next
  case False
  then obtain r' where r': "rd_incr E r k = Some (int (n + 1), r')" "rd_get E r' = (rd_get E r)(k \<mapsto> decimal (n + 1))"
      "rd_volatile E r' = rd_volatile E r"
    using assms(1-3) unfolding env_laws_def redis_laws_def by (metis (no_types, lifting))
  show thesis by (rule that [of r']) (use r' in auto)
qed

text \<open>The keys of different sessions differ, and so do the two keys of one session.\<close>

lemma session_keys [redis_simps]:
  assumes "env_laws E"
  shows "lease_key E c s = lease_key E c' s' \<longleftrightarrow> c = c' \<and> s = s'"
    and "generation_key E c s = generation_key E c' s' \<longleftrightarrow> c = c' \<and> s = s'"
    and "lease_key E c s \<noteq> generation_key E c' s'" "generation_key E c s \<noteq> lease_key E c' s'"
proof -
  have len: "length (uuid_text E u) = 36" and inj: "uuid_text E u = uuid_text E v \<longleftrightarrow> u = v" for u v
    using assms unfolding env_laws_def text_laws_def by auto
  have base: "session_base E c s = session_base E c' s' \<longleftrightarrow> c = c' \<and> s = s'" for c s c' s'
    by (simp add: session_base_def append_eq_append_conv len inj)
  have size: "length (session_base E c s) = 85" for c s by (simp add: session_base_def len)
  show "lease_key E c s = lease_key E c' s' \<longleftrightarrow> c = c' \<and> s = s'"
    and "generation_key E c s = generation_key E c' s' \<longleftrightarrow> c = c' \<and> s = s'"
    by (simp_all add: lease_key_def generation_key_def base)
  have "length (lease_key E c s) \<noteq> length (generation_key E c' s')" for c s c' s'
    by (simp add: lease_key_def generation_key_def size)
  then show "lease_key E c s \<noteq> generation_key E c' s'" "generation_key E c s \<noteq> lease_key E c' s'"
    by metis+
qed

subsection \<open>The text of a lease\<close>

definition lease_text :: "'r dir_env \<Rightarrow> runtime_id \<Rightarrow> nat \<Rightarrow> profile \<Rightarrow> string" where
  "lease_text E owner generation profile =
     hex_enc E owner @ ''|'' @ decimal generation @ ''|'' @ as_wire_str profile"

lemma profile_round_trip [simp]: "profile_from_wire (as_wire_str p) = Some p"
  by (cases p) (simp_all add: profile_from_wire_def)

lemma as_wire_str_no_bar: "CHR ''|'' \<notin> set (as_wire_str p)" "as_wire_str p \<noteq> []"
  by (cases p; simp)+

lemma decimal_no_bar: "CHR ''|'' \<notin> set (decimal n)"
  using decimal_digits [of "CHR ''|''" n] by (auto simp: ascii_defs)

lemma split_lease_text:
  assumes "env_laws E"
  shows "split_on (CHR ''|'') (lease_text E owner g p) = [hex_enc E owner, decimal g, as_wire_str p]"
proof -
  have "CHR ''|'' \<notin> set (hex_enc E owner)"
    using assms by (fastforce simp: env_laws_def text_laws_def ascii_defs)
  then show ?thesis
    by (simp add: lease_text_def split_on_append_sep split_on_no_sep_self decimal_no_bar as_wire_str_no_bar)
qed

lemma parse_lease_text:
  assumes "env_laws E" and "length owner = 32" and "0 < g" and "g < 2 ^ 64"
  shows "parse_lease E c s (lease_text E owner g p) =
    Inr \<lparr>sl_community_id = c, sl_session_id = s, sl_owner_runtime_id = owner, sl_generation = g, sl_profile = p\<rparr>"
proof -
  have "hex_dec E (hex_enc E owner) = Some owner"
    using assms(1) by (simp add: env_laws_def text_laws_def)
  then show ?thesis
    using assms(2-4) by (simp add: parse_lease_def split_lease_text [OF assms(1)] parse_unsigned_decimal)
qed

lemma lease_text_not_Nil: "lease_text E owner g p \<noteq> []"
  by (simp add: lease_text_def)

lemma match_lease_text:
  assumes "env_laws E" and "length owner = 32"
  shows "lua_match3 (lease_text E owner g p) = (Some (hex_enc E owner), Some (decimal g), Some (as_wire_str p))"
proof -
  have "hex_enc E owner \<noteq> []"
    using assms by (auto simp: env_laws_def text_laws_def dest: arg_cong [of _ _ length])
  then show ?thesis by (simp add: lua_match3_def split_lease_text [OF assms(1)] as_wire_str_no_bar)
qed

lemma hex_enc_inject: "env_laws E \<Longrightarrow> hex_enc E a = hex_enc E b \<longleftrightarrow> a = b"
  unfolding env_laws_def text_laws_def by (metis option.inject)

subsection \<open>The abstract machine\<close>

text \<open>
  The state of a session: how many generations were issued, and the holder of the last one while
  its lease lives. A label is what a caller is told: nothing, a live lease, a lease it just
  obtained, or a lease it just gave up.
\<close>

type_synonym session_key = "uuid \<times> uuid"

record lease_state =
  st_generation :: nat
  st_lease :: "(runtime_id \<times> profile) option"

datatype told =
    Nothing
  | Live session_key nat runtime_id
  | Granted session_key nat runtime_id
  | GivenUp session_key nat runtime_id

type_synonym sessions = "session_key \<Rightarrow> lease_state"

definition granted_state :: "lease_state \<Rightarrow> runtime_id \<Rightarrow> profile \<Rightarrow> lease_state" where
  "granted_state \<sigma> owner p = \<lparr>st_generation = st_generation \<sigma> + 1, st_lease = Some (owner, p)\<rparr>"

inductive lease_step :: "sessions \<Rightarrow> told \<Rightarrow> sessions \<Rightarrow> bool" where
  unchanged: "lease_step S Nothing S"
| seen: "st_lease (S k) = Some (owner, p) \<Longrightarrow> lease_step S (Live k (st_generation (S k)) owner) S"
| granted: "st_lease (S k) = None \<Longrightarrow>
    lease_step S (Granted k (st_generation (S k) + 1) owner) (S(k := granted_state (S k) owner p))"
| granted_unseen: "st_lease (S k) = None \<Longrightarrow> lease_step S Nothing (S(k := granted_state (S k) owner p))"
| given_up: "st_lease (S k) = Some (owner, p) \<Longrightarrow>
    lease_step S (GivenUp k (st_generation (S k)) owner) (S(k := (S k)\<lparr>st_lease := None\<rparr>))"
| expired: "(\<And>k. S' k = S k \<or> S' k = (S k)\<lparr>st_lease := None\<rparr>) \<Longrightarrow> lease_step S Nothing S'"

fun told_lease :: "told \<Rightarrow> (session_key \<times> nat \<times> runtime_id) option" where
  "told_lease Nothing = None"
| "told_lease (Live k g owner) = Some (k, g, owner)"
| "told_lease (Granted k g owner) = Some (k, g, owner)"
| "told_lease (GivenUp k g owner) = Some (k, g, owner)"

fun is_granted :: "told \<Rightarrow> bool" where
  "is_granted (Granted _ _ _) = True"
| "is_granted _ = False"

fun is_given_up :: "told \<Rightarrow> bool" where
  "is_given_up (GivenUp _ _ _) = True"
| "is_given_up _ = False"

text \<open>
  What fencing means for two answers about one session, \<open>old\<close> before \<open>new\<close>: the generation does
  not go back, one generation has one owner, and it is strictly greater when \<open>new\<close> grants a lease
  or \<open>old\<close> gave one up.
\<close>

definition fence_order :: "told \<Rightarrow> told \<Rightarrow> bool" where
  "fence_order old new \<longleftrightarrow>
     (\<forall>k g owner g' owner'. told_lease old = Some (k, g, owner) \<longrightarrow> told_lease new = Some (k, g', owner') \<longrightarrow>
        g \<le> g' \<and> (g = g' \<longrightarrow> owner = owner') \<and> (is_granted new \<or> is_given_up old \<longrightarrow> g < g'))"

text \<open>The answers given so far, the latest first.\<close>

inductive lease_run :: "sessions \<Rightarrow> told list \<Rightarrow> bool" where
  lr_start: "(\<And>k. S k = \<lparr>st_generation = 0, st_lease = None\<rparr>) \<Longrightarrow> lease_run S []"
| lr_step: "lease_run S h \<Longrightarrow> lease_step S t S' \<Longrightarrow> lease_run S' (t # h)"
| lr_quiet: "lease_run S h \<Longrightarrow> lease_step S Nothing S' \<Longrightarrow> lease_run S' h"

definition explained :: "sessions \<Rightarrow> told \<Rightarrow> bool" where
  "explained S t \<longleftrightarrow>
     (\<forall>k g owner. told_lease t = Some (k, g, owner) \<longrightarrow>
        g \<le> st_generation (S k) \<and>
        (g = st_generation (S k) \<longrightarrow> st_lease (S k) \<noteq> None \<longrightarrow> fst (the (st_lease (S k))) = owner \<and> \<not> is_given_up t))"

lemma explained_step:
  assumes "explained S old" and "lease_step S t S'"
  shows "explained S' old" and "fence_order old t"
proof -
  show "explained S' old"
    using assms(2,1)
  proof cases
    case (expired)
    have "st_generation (S' k) = st_generation (S k)"
      and "st_lease (S' k) \<noteq> None \<Longrightarrow> st_lease (S' k) = st_lease (S k)" for k
      using expired(2) [of k] by auto
    then show ?thesis using assms(1) unfolding explained_def by (metis (no_types, lifting))
  qed (auto simp: explained_def granted_state_def split: if_splits)
  show "fence_order old t"
    using assms(2,1) by cases (auto simp: explained_def fence_order_def)
qed

lemma explained_told: "lease_step S t S' \<Longrightarrow> explained S' t"
  by (cases rule: lease_step.cases) (auto simp: explained_def granted_state_def)

lemma run_explained: "lease_run S h \<Longrightarrow> t \<in> set h \<Longrightarrow> explained S t"
  by (induction rule: lease_run.induct) (auto intro: explained_step(1) explained_told)

lemma run_fenced: "lease_run S h \<Longrightarrow> sorted_wrt (\<lambda>new old. fence_order old new) h"
  by (induction rule: lease_run.induct) (auto intro: explained_step(2) run_explained)

subsection \<open>The directory implements the machine\<close>

definition represents :: "'r dir_env \<Rightarrow> 'r \<Rightarrow> session_key \<Rightarrow> lease_state \<Rightarrow> bool" where
  "represents E r k \<sigma> \<longleftrightarrow>
     (case k of (c, s) \<Rightarrow>
        \<not> rd_volatile E r (generation_key E c s) \<and> st_generation \<sigma> < 10 ^ 14 \<and>
        rd_get E r (generation_key E c s) = (if st_generation \<sigma> = 0 then None else Some (decimal (st_generation \<sigma>))) \<and>
        (case st_lease \<sigma> of
           None \<Rightarrow> rd_get E r (lease_key E c s) = None
         | Some (owner, p) \<Rightarrow> 0 < st_generation \<sigma> \<and> length owner = 32 \<and>
             rd_get E r (lease_key E c s) = Some (lease_text E owner (st_generation \<sigma>) p)))"

definition stores :: "'r dir_env \<Rightarrow> 'r \<Rightarrow> sessions \<Rightarrow> bool" where
  "stores E r S \<longleftrightarrow> (\<forall>k. represents E r k (S k))"

text \<open>The lease a session has, as the value callers see.\<close>

definition lease_of :: "sessions \<Rightarrow> session_key \<Rightarrow> session_lease option" where
  "lease_of S k = map_option (\<lambda>(owner, p).
     \<lparr>sl_community_id = fst k, sl_session_id = snd k, sl_owner_runtime_id = owner,
      sl_generation = st_generation (S k), sl_profile = p\<rparr>) (st_lease (S k))"

lemma stores_counter:
  assumes "stores E r S"
  shows "rd_get E r (generation_key E c s) = (if st_generation (S (c, s)) = 0 then None else Some (decimal (st_generation (S (c, s)))))"
    and "\<not> rd_volatile E r (generation_key E c s)" and "st_generation (S (c, s)) < 10 ^ 14"
  using assms by (auto simp: stores_def represents_def split: prod.splits)

lemma stores_lease:
  assumes "stores E r S"
  shows "st_lease (S (c, s)) = None \<Longrightarrow> rd_get E r (lease_key E c s) = None"
    and "st_lease (S (c, s)) = Some (owner, p) \<Longrightarrow>
      0 < st_generation (S (c, s)) \<and> length owner = 32 \<and>
      rd_get E r (lease_key E c s) = Some (lease_text E owner (st_generation (S (c, s))) p)"
proof -
  have "represents E r (c, s) (S (c, s))" using assms by (simp add: stores_def)
  then show "st_lease (S (c, s)) = None \<Longrightarrow> rd_get E r (lease_key E c s) = None"
    and "st_lease (S (c, s)) = Some (owner, p) \<Longrightarrow>
      0 < st_generation (S (c, s)) \<and> length owner = 32 \<and>
      rd_get E r (lease_key E c s) = Some (lease_text E owner (st_generation (S (c, s))) p)"
    by (simp_all add: represents_def)
qed

lemma parse_stored_lease:
  assumes "env_laws E" and "stores E r S" and "st_lease (S (c, s)) = Some (owner, p)"
  shows "parse_lease E c s (lease_text E owner (st_generation (S (c, s))) p) = Inr (the (lease_of S (c, s)))"
  using assms stores_lease(2) [OF assms(2,3)] stores_counter(3) [OF assms(2), of c s]
  by (simp add: parse_lease_text lease_of_def)

lemma parse_stored_counter:
  assumes "stores E r S"
  shows "parse_optional_generation c s (lua_or (rd_get E r (generation_key E c' s')) '''') =
    Inr (if st_generation (S (c', s')) = 0 then None else Some (st_generation (S (c', s'))))"
  using stores_counter(1,3) [OF assms, of c' s']
  by (auto simp: parse_optional_generation_def parse_unsigned_decimal)

text \<open>Changing the lease and counter keys of one session changes the state of that session only.\<close>

lemma stores_update:
  assumes "env_laws E" and "stores E r S" and "represents E r' (c, s) \<sigma>"
    and "\<And>k. k \<noteq> lease_key E c s \<Longrightarrow> k \<noteq> generation_key E c s \<Longrightarrow>
      rd_get E r' k = rd_get E r k \<and> (rd_volatile E r' k \<longrightarrow> rd_volatile E r k)"
  shows "stores E r' (S((c, s) := \<sigma>))"
  unfolding stores_def
proof
  fix k :: session_key
  obtain c' s' where k: "k = (c', s')" by (cases k)
  show "represents E r' k ((S((c, s) := \<sigma>)) k)"
  proof (cases "k = (c, s)")
    case False
    have "represents E r k (S k)" using assms(2) unfolding stores_def by blast
    moreover have "lease_key E c' s' \<noteq> lease_key E c s \<and> lease_key E c' s' \<noteq> generation_key E c s"
        "generation_key E c' s' \<noteq> lease_key E c s \<and> generation_key E c' s' \<noteq> generation_key E c s"
      using False k session_keys [OF assms(1)] by auto
    ultimately show ?thesis using False assms(4)
      by (auto simp: represents_def k split: option.splits)
  qed (use assms(3) in simp)
qed

subsubsection \<open>The scripts\<close>

lemma acquire_script_held:
  assumes "stores E r S" and "st_lease (S (c, s)) = Some (owner', p')"
  shows "\<exists>x. acquire_script E (lease_key E c s) (generation_key E c s) owner p ttl r =
    Some (r, ''exists'', lease_text E owner' (st_generation (S (c, s))) p', x)"
  using stores_lease(2) [OF assms] by (simp add: acquire_script_def)

lemma acquire_script_free:
  assumes "env_laws E" and "stores E r S" and "st_lease (S (c, s)) = None" and "length owner = 32" and "0 < ttl"
    and "st_generation (S (c, s)) + 1 < 10 ^ 14"
  shows "\<exists>r' x. acquire_script E (lease_key E c s) (generation_key E c s) (hex_enc E owner) (as_wire_str p) ttl r =
      Some (r', ''acquired'', lease_text E owner (st_generation (S (c, s)) + 1) p, x) \<and>
    stores E r' (S((c, s) := granted_state (S (c, s)) owner p))"
proof -
  let ?g = "st_generation (S (c, s))" and ?lk = "lease_key E c s" and ?gk = "generation_key E c s"
  have bound: "?g + 1 < 2 ^ 63" using assms(6) by simp
  obtain r1 where r1: "rd_incr E r ?gk = Some (int (?g + 1), r1)"
      "\<And>k'. rd_get E r1 k' = (if k' = ?gk then Some (decimal (?g + 1)) else rd_get E r k')"
      "\<And>k'. rd_volatile E r1 k' = rd_volatile E r k'"
    using redis_incr [OF assms(1) stores_counter(1) [OF assms(2)] bound] stores_counter(2) [OF assms(2)] by blast
  let ?v = "lease_text E owner (?g + 1) p"
  let ?r' = "rd_set_px E r1 ?lk ?v ttl"
  have tostring: "lua_tostring E (int (?g + 1)) = decimal (?g + 1)"
    using assms(1,6) unfolding env_laws_def text_laws_def by blast
  have "acquire_script E ?lk ?gk (hex_enc E owner) (as_wire_str p) ttl r =
      Some (?r', ''acquired'', ?v, decimal (?g + 1))"
    using stores_lease(1) [OF assms(2,3)] tostring by (simp add: acquire_script_def r1(1) lease_text_def Let_def)
  moreover have "represents E ?r' (c, s) (granted_state (S (c, s)) owner p)"
    using assms(4-6) stores_counter(2) [OF assms(2), of c s]
    by (simp add: represents_def granted_state_def redis_commands [OF assms(1)] session_keys [OF assms(1)] r1(2,3))
  then have "stores E ?r' (S((c, s) := granted_state (S (c, s)) owner p))"
    by (rule stores_update [OF assms(1,2)]) (use assms(5) in \<open>simp add: redis_commands [OF assms(1)] r1(2,3)\<close>)
  ultimately show ?thesis by blast
qed

lemma owner_script_match:
  assumes "env_laws E" and "stores E r S" and "st_lease (S (c, s)) = Some (owner', p)"
  shows "lua_match3 (lease_text E owner' (st_generation (S (c, s))) p) =
      (Some (hex_enc E owner'), Some (decimal (st_generation (S (c, s)))), Some (as_wire_str p))"
  using match_lease_text [OF assms(1)] stores_lease(2) [OF assms(2,3)] by blast

lemma stores_pexpire:
  assumes "env_laws E" and "stores E r S" and "0 < ttl"
  shows "stores E (rd_pexpire E r (lease_key E c s) ttl) S"
proof -
  have same: "represents E r (c, s) (S (c, s))" using assms(2) unfolding stores_def by blast
  have "\<not> rd_volatile E (rd_pexpire E r (lease_key E c s) ttl) (generation_key E c s)"
    using redis_commands(4) [OF assms(1)] session_keys(4) [OF assms(1)] stores_counter(2) [OF assms(2)] by blast
  with same have "represents E (rd_pexpire E r (lease_key E c s) ttl) (c, s) (S (c, s))"
    using assms(3) by (auto simp: represents_def redis_commands(3) [OF assms(1)] split: option.splits)
  then have "stores E (rd_pexpire E r (lease_key E c s) ttl) (S((c, s) := S (c, s)))"
    using assms(3) redis_commands(3,4) [OF assms(1)] by (intro stores_update [OF assms(1,2)]) blast+
  then show ?thesis by simp
qed

lemma stores_del:
  assumes "env_laws E" and "stores E r S"
  shows "stores E (rd_del E r (lease_key E c s)) (S((c, s) := (S (c, s))\<lparr>st_lease := None\<rparr>))"
proof (rule stores_update [OF assms])
  have "\<not> rd_volatile E (rd_del E r (lease_key E c s)) (generation_key E c s)"
    using redis_commands(6) [OF assms(1)] stores_counter(2) [OF assms(2)] by blast
  then show "represents E (rd_del E r (lease_key E c s)) (c, s) ((S (c, s))\<lparr>st_lease := None\<rparr>)"
    using stores_counter [OF assms(2), of c s]
    by (simp add: represents_def redis_commands(5) [OF assms(1)] session_keys [OF assms(1)])
qed (use redis_commands(5,6) [OF assms(1)] in auto)

subsubsection \<open>The operations\<close>

fun told_acquire :: "session_key \<Rightarrow> (acquire_result, directory_error) result \<Rightarrow> told" where
  "told_acquire k (Inr (Acquired l)) = Granted k (sl_generation l) (sl_owner_runtime_id l)"
| "told_acquire k (Inr (Exists l)) = Live k (sl_generation l) (sl_owner_runtime_id l)"
| "told_acquire k (Inl _) = Nothing"

fun told_renew :: "session_key \<Rightarrow> (renew_result, directory_error) result \<Rightarrow> told" where
  "told_renew k (Inr (Renewed l)) = Live k (sl_generation l) (sl_owner_runtime_id l)"
| "told_renew k (Inr (Lost (Some l) _)) = Live k (sl_generation l) (sl_owner_runtime_id l)"
| "told_renew k _ = Nothing"

fun told_release :: "session_key \<Rightarrow> (release_result, directory_error) result \<Rightarrow> told" where
  "told_release k (Inr (Released l)) = GivenUp k (sl_generation l) (sl_owner_runtime_id l)"
| "told_release k (Inr (NotOwner (Some l) _)) = Live k (sl_generation l) (sl_owner_runtime_id l)"
| "told_release k _ = Nothing"

fun told_lookup :: "session_key \<Rightarrow> (session_lease option, directory_error) result \<Rightarrow> told" where
  "told_lookup k (Inr (Some l)) = Live k (sl_generation l) (sl_owner_runtime_id l)"
| "told_lookup k _ = Nothing"

fun told_validate :: "uuid \<Rightarrow> fenced_header \<Rightarrow> (unit, mesh_error) result \<Rightarrow> told" where
  "told_validate c f (Inr ()) = Live (c, fh_session_id f) (fh_generation f) (fh_owner_runtime_id f)"
| "told_validate c f (Inl _) = Nothing"

lemma lease_of_seen:
  "lease_of S k = Some l \<Longrightarrow> lease_step S (Live k (sl_generation l) (sl_owner_runtime_id l)) S"
  by (auto simp: lease_of_def intro: seen)

lemma ttl_ms_cases:
  obtains "ttl_ms t = Inl InvalidLeaseTtl" | i where "ttl_ms t = Inr i" and "0 < i"
  by (cases "0 < t \<and> t < 2 ^ 63") (simp_all add: ttl_ms_def)

text \<open>Whatever becomes of the call, acquiring is a step of the machine.\<close>

lemma acquire_sim:
  assumes "env_laws E" and "stores E r S" and "length owner = 32" and "st_generation (S (c, s)) + 1 < 10 ^ 14"
    and "acquire E net ttl c s owner p r = (r', res)"
  shows "\<exists>S'. lease_step S (told_acquire (c, s) res) S' \<and> stores E r' S' \<and>
    (S' = S \<or> S' = S((c, s) := granted_state (S (c, s)) owner p))"
proof (cases rule: ttl_ms_cases [of ttl])
  case 1
  with assms(2,5) show ?thesis by (intro exI [of _ S]) (auto simp: acquire_def intro: unchanged)
next
  case (2 i)
  show ?thesis
  proof (cases "st_lease (S (c, s))")
    case None
    let ?S' = "S((c, s) := granted_state (S (c, s)) owner p)"
    obtain q x where q: "acquire_script E (lease_key E c s) (generation_key E c s) (hex_enc E owner) (as_wire_str p) i r =
        Some (q, ''acquired'', lease_text E owner (st_generation (S (c, s)) + 1) p, x)" "stores E q ?S'"
      using acquire_script_free [OF assms(1,2) None assms(3) 2(2) assms(4)] by blast
    have "st_lease (?S' (c, s)) = Some (owner, p)" "st_generation (?S' (c, s)) = st_generation (S (c, s)) + 1"
      by (simp_all add: granted_state_def)
    then have l: "parse_lease E c s (lease_text E owner (st_generation (S (c, s)) + 1) p) = Inr (the (lease_of ?S' (c, s)))"
      using parse_stored_lease [OF assms(1) q(2)] by metis
    have steps: "lease_step S (Granted (c, s) (st_generation (S (c, s)) + 1) owner) ?S'" "lease_step S Nothing ?S'"
      by (rule granted [of S "(c, s)", OF None], rule granted_unseen [of S "(c, s)", OF None])
    have new: "told_acquire (c, s) (Inr (Acquired (the (lease_of ?S' (c, s))))) = Granted (c, s) (st_generation (S (c, s)) + 1) owner"
      by (simp add: lease_of_def granted_state_def)
    have "res = Inr (Acquired (the (lease_of ?S' (c, s)))) \<and> r' = q \<or> (\<exists>e. res = Inl e) \<and> (r' = q \<or> r' = r)"
      using assms(5) q l 2 by (cases net) (auto simp: acquire_def invoke_def)
    then show ?thesis
      using assms(2) q(2) steps unchanged [of S] new by (elim disjE conjE exE) auto
  next
    case (Some op)
    then obtain owner' p' where op: "st_lease (S (c, s)) = Some (owner', p')" by (cases op) auto
    then obtain x where "acquire_script E (lease_key E c s) (generation_key E c s) (hex_enc E owner) (as_wire_str p) i r =
        Some (r, ''exists'', lease_text E owner' (st_generation (S (c, s))) p', x)"
      using acquire_script_held [OF assms(2)] by blast
    then have "r' = r" "res = Inr (Exists (the (lease_of S (c, s)))) \<or> (\<exists>e. res = Inl e)"
      using assms(5) 2 parse_stored_lease [OF assms(1,2) op] by (cases net; auto simp: acquire_def invoke_def)+
    then show ?thesis
      using assms(2) op lease_of_seen [of S "(c, s)"] unchanged [of S] by (auto simp: lease_of_def)
  qed
qed

text \<open>The generation counter of a session, as callers see it, and who holds its lease.\<close>

definition counter_of :: "sessions \<Rightarrow> session_key \<Rightarrow> nat option" where
  "counter_of S k = (if st_generation (S k) = 0 then None else Some (st_generation (S k)))"

definition holds :: "sessions \<Rightarrow> session_lease \<Rightarrow> bool" where
  "holds S l \<longleftrightarrow> (\<exists>cur. lease_of S (sl_community_id l, sl_session_id l) = Some cur \<and>
     sl_owner_runtime_id cur = sl_owner_runtime_id l \<and> sl_generation cur = sl_generation l)"

lemma holds_iff:
  "holds S l \<longleftrightarrow> (\<exists>p. st_lease (S (sl_community_id l, sl_session_id l)) = Some (sl_owner_runtime_id l, p)) \<and>
     st_generation (S (sl_community_id l, sl_session_id l)) = sl_generation l"
  by (auto simp: holds_def lease_of_def)

lemma lua_or_counter:
  assumes "stores E r S"
  shows "lua_or (rd_get E r (generation_key E c s)) x = (case counter_of S (c, s) of None \<Rightarrow> x | Some g \<Rightarrow> decimal g)"
  using stores_counter(1) [OF assms, of c s] by (simp add: counter_of_def)

lemma parse_counter:
  assumes "stores E r S"
  shows "parse_optional_generation c s (case counter_of S k of None \<Rightarrow> '''' | Some g \<Rightarrow> decimal g) = Inr (counter_of S k)"
proof -
  obtain c' s' where "k = (c', s')" by (cases k)
  then show ?thesis using parse_stored_counter [OF assms, of c s c' s'] lua_or_counter [OF assms, of c' s']
    by (simp add: counter_of_def)
qed

text \<open>What the two owner-only scripts answer.\<close>

lemma owner_scripts:
  assumes "env_laws E" and "stores E r S" and l: "sl_community_id l = c" "sl_session_id l = s" and "0 < ttl"
  defines "text \<equiv> \<lambda>S. case lease_of S (c, s) of None \<Rightarrow> '''' | Some cur \<Rightarrow>
      lease_text E (sl_owner_runtime_id cur) (sl_generation cur) (sl_profile cur)"
    and "counter \<equiv> case counter_of S (c, s) of None \<Rightarrow> '''' | Some g \<Rightarrow> decimal g"
  shows "renew_script E (lease_key E c s) (generation_key E c s) (hex_enc E (sl_owner_runtime_id l)) (decimal (sl_generation l)) ttl r =
      Some (if holds S l then (rd_pexpire E r (lease_key E c s) ttl, ''renewed'', text S, counter)
            else (r, (if lease_of S (c, s) = None then ''missing'' else ''lost''), text S, counter))"
    and "release_script E (lease_key E c s) (generation_key E c s) (hex_enc E (sl_owner_runtime_id l)) (decimal (sl_generation l)) r =
      Some (if holds S l then (rd_del E r (lease_key E c s), ''released'', text S, counter)
            else (r, (if lease_of S (c, s) = None then ''missing'' else ''lost''), text S, counter))"
proof -
  show "renew_script E (lease_key E c s) (generation_key E c s) (hex_enc E (sl_owner_runtime_id l)) (decimal (sl_generation l)) ttl r =
      Some (if holds S l then (rd_pexpire E r (lease_key E c s) ttl, ''renewed'', text S, counter)
            else (r, (if lease_of S (c, s) = None then ''missing'' else ''lost''), text S, counter))"
  proof (cases "st_lease (S (c, s))")
    case None
    then show ?thesis
      using stores_lease(1) [OF assms(2)] lua_or_counter [OF assms(2)]
      by (simp add: renew_script_def lease_of_def holds_iff l text_def counter_def)
  next
    case (Some op)
    then obtain o' p where op: "st_lease (S (c, s)) = Some (o', p)" by (cases op) auto
    note st = stores_lease(2) [OF assms(2) op] owner_script_match [OF assms(1,2) op]
    have c: "lua_or (rd_get E r (generation_key E c s)) x = counter" for x
      using st lua_or_counter [OF assms(2)] by (simp add: counter_def counter_of_def)
    show ?thesis
      using st op c assms(5)
      by (auto simp: renew_script_def lease_of_def holds_iff l text_def hex_enc_inject [OF assms(1)]
          redis_commands(3) [OF assms(1)] Let_def)
  qed
  show "release_script E (lease_key E c s) (generation_key E c s) (hex_enc E (sl_owner_runtime_id l)) (decimal (sl_generation l)) r =
      Some (if holds S l then (rd_del E r (lease_key E c s), ''released'', text S, counter)
            else (r, (if lease_of S (c, s) = None then ''missing'' else ''lost''), text S, counter))"
  proof (cases "st_lease (S (c, s))")
    case None
    then show ?thesis
      using stores_lease(1) [OF assms(2)] lua_or_counter [OF assms(2)]
      by (simp add: release_script_def lease_of_def holds_iff l text_def counter_def)
  next
    case (Some op)
    then obtain o' p where op: "st_lease (S (c, s)) = Some (o', p)" by (cases op) auto
    note st = stores_lease(2) [OF assms(2) op] owner_script_match [OF assms(1,2) op]
    have c: "lua_or (rd_get E r (generation_key E c s)) x = counter" for x
      using st lua_or_counter [OF assms(2)] by (simp add: counter_def counter_of_def)
    show ?thesis
      using st op c
      by (auto simp: release_script_def lease_of_def holds_iff l text_def hex_enc_inject [OF assms(1)]
          redis_commands(5) [OF assms(1)] session_keys [OF assms(1)] Let_def)
  qed
qed

lemma parse_lease_of:
  assumes "env_laws E" and "stores E r S"
  shows "parse_optional_lease E c s (case lease_of S (c, s) of None \<Rightarrow> '''' | Some cur \<Rightarrow>
      lease_text E (sl_owner_runtime_id cur) (sl_generation cur) (sl_profile cur)) = Inr (lease_of S (c, s))"
proof (cases "st_lease (S (c, s))")
  case None
  then show ?thesis by (simp add: lease_of_def parse_optional_lease_def)
next
  case (Some op)
  then obtain o' p where op: "st_lease (S (c, s)) = Some (o', p)" by (cases op) auto
  then show ?thesis
    using parse_stored_lease [OF assms op] by (simp add: lease_of_def parse_optional_lease_def lease_text_not_Nil)
qed

lemma renew_exact:
  assumes "env_laws E" and "stores E r S" and "renew E net ttl l r = (r', res)"
  defines "k \<equiv> (sl_community_id l, sl_session_id l)"
  shows "stores E r' S"
    and "res = Inr (if holds S l then Renewed (the (lease_of S k)) else Lost (lease_of S k) (counter_of S k)) \<or>
      (\<exists>e. res = Inl e \<and> (net \<noteq> Delivered \<or> ttl_ms ttl = Inl e))"
proof -
  obtain c s where k: "sl_community_id l = c" "sl_session_id l = s" by blast
  have "stores E r' S \<and> (res = Inr (if holds S l then Renewed (the (lease_of S k)) else Lost (lease_of S k) (counter_of S k)) \<or>
      (\<exists>e. res = Inl e \<and> (net \<noteq> Delivered \<or> ttl_ms ttl = Inl e)))"
  proof (cases rule: ttl_ms_cases [of ttl])
    case 1
    with assms(2,3) show ?thesis by (auto simp: renew_def)
  next
    case (2 i)
    note script = owner_scripts(1) [OF assms(1,2) k 2(2)]
    have held: "holds S l \<Longrightarrow> \<exists>cur. lease_of S (c, s) = Some cur" by (auto simp: holds_def k)
    have p: "stores E (rd_pexpire E r (lease_key E c s) i) S" by (rule stores_pexpire [OF assms(1,2) 2(2)])
    show ?thesis
      using assms(2,3) 2 k p held parse_lease_of [OF assms(1,2), of c s] parse_counter [OF assms(2), of c s "(c, s)"]
      by (cases net) (auto simp: renew_def Let_def k_def script invoke_def split: if_splits option.splits)
  qed
  then show "stores E r' S"
    and "res = Inr (if holds S l then Renewed (the (lease_of S k)) else Lost (lease_of S k) (counter_of S k)) \<or>
      (\<exists>e. res = Inl e \<and> (net \<noteq> Delivered \<or> ttl_ms ttl = Inl e))" by blast+
qed

lemma release_exact:
  assumes "env_laws E" and "stores E r S" and "release E net l r = (r', res)"
  defines "k \<equiv> (sl_community_id l, sl_session_id l)"
  shows "stores E r' (if holds S l \<and> net \<in> {ReplyLost, Delivered} then S(k := (S k)\<lparr>st_lease := None\<rparr>) else S)"
    and "res = Inr (if holds S l then Released (the (lease_of S k)) else NotOwner (lease_of S k) (counter_of S k)) \<or>
      (\<exists>e. res = Inl e \<and> net \<noteq> Delivered)"
proof -
  obtain c s where k: "sl_community_id l = c" "sl_session_id l = s" by blast
  note script = owner_scripts(2) [OF assms(1,2) k, of 1, simplified]
  have held: "holds S l \<Longrightarrow> \<exists>cur. lease_of S (c, s) = Some cur" by (auto simp: holds_def k)
  have p: "stores E (rd_del E r (lease_key E c s)) (S((c, s) := (S (c, s))\<lparr>st_lease := None\<rparr>))"
    by (rule stores_del [OF assms(1,2)])
  show "stores E r' (if holds S l \<and> net \<in> {ReplyLost, Delivered} then S(k := (S k)\<lparr>st_lease := None\<rparr>) else S)"
    using assms(2,3) k p by (cases net) (auto simp: release_def Let_def k_def script invoke_def split: if_splits)
  show "res = Inr (if holds S l then Released (the (lease_of S k)) else NotOwner (lease_of S k) (counter_of S k)) \<or>
      (\<exists>e. res = Inl e \<and> net \<noteq> Delivered)"
    using assms(3) k held parse_lease_of [OF assms(1,2), of c s] parse_counter [OF assms(2), of c s "(c, s)"]
    by (cases net) (auto simp: release_def Let_def k_def script invoke_def split: if_splits option.splits)
qed

lemma acquire_exact:
  assumes "env_laws E" and "stores E r S" and "length owner = 32" and "st_generation (S (c, s)) + 1 < 10 ^ 14"
    and "0 < ttl" and "ttl < 2 ^ 63" and "acquire E Delivered ttl c s owner p r = (r', res)"
  shows "case lease_of S (c, s) of
      Some cur \<Rightarrow> res = Inr (Exists cur) \<and> r' = r
    | None \<Rightarrow> res = Inr (Acquired \<lparr>sl_community_id = c, sl_session_id = s, sl_owner_runtime_id = owner,
          sl_generation = st_generation (S (c, s)) + 1, sl_profile = p\<rparr>) \<and>
        stores E r' (S((c, s) := granted_state (S (c, s)) owner p))"
proof (cases "st_lease (S (c, s))")
  case None
  have ttl: "ttl_ms ttl = Inr (int ttl)" using assms(5,6) by (simp add: ttl_ms_def)
  have "0 < int ttl" using assms(5) by simp
  then obtain q x where q: "acquire_script E (lease_key E c s) (generation_key E c s) (hex_enc E owner) (as_wire_str p) (int ttl) r =
      Some (q, ''acquired'', lease_text E owner (st_generation (S (c, s)) + 1) p, x)"
      "stores E q (S((c, s) := granted_state (S (c, s)) owner p))"
    using acquire_script_free [OF assms(1,2) None assms(3) _ assms(4)] by blast
  have "parse_lease E c s (lease_text E owner (st_generation (S (c, s)) + 1) p) =
      Inr \<lparr>sl_community_id = c, sl_session_id = s, sl_owner_runtime_id = owner,
          sl_generation = st_generation (S (c, s)) + 1, sl_profile = p\<rparr>"
    using assms(4) by (intro parse_lease_text [OF assms(1,3)]) simp_all
  then show ?thesis
    using assms(7) None q ttl by (auto simp: acquire_def invoke_def lease_of_def)
next
  case (Some op)
  then obtain owner' p' where op: "st_lease (S (c, s)) = Some (owner', p')" by (cases op) auto
  have ttl: "ttl_ms ttl = Inr (int ttl)" using assms(5,6) by (simp add: ttl_ms_def)
  obtain x where "acquire_script E (lease_key E c s) (generation_key E c s) (hex_enc E owner) (as_wire_str p) (int ttl) r =
      Some (r, ''exists'', lease_text E owner' (st_generation (S (c, s))) p', x)"
    using acquire_script_held [OF assms(2) op] by blast
  then show ?thesis
    using assms(7) op parse_stored_lease [OF assms(1,2) op] ttl by (simp add: acquire_def invoke_def lease_of_def)
qed

lemma validate_exact:
  assumes "env_laws E" and "stores E r S"
  shows "validate_fenced_header E Delivered c f r =
    check_fence (lease_of S (c, fh_session_id f)) (st_generation (S (c, fh_session_id f))) f"
proof -
  let ?k = "(c, fh_session_id f)"
  have lease: "lua_or (rd_get E r (lease_key E c (fh_session_id f))) '''' =
      (case lease_of S ?k of None \<Rightarrow> '''' | Some cur \<Rightarrow>
        lease_text E (sl_owner_runtime_id cur) (sl_generation cur) (sl_profile cur))"
    using stores_lease [OF assms(2), of c "fh_session_id f"]
    by (cases "st_lease (S ?k)") (auto simp: lease_of_def)
  have counter: "(case counter_of S ?k of None \<Rightarrow> 0 | Some g \<Rightarrow> g) = st_generation (S ?k)"
    by (simp add: counter_of_def)
  show ?thesis
    by (simp add: validate_fenced_header_def invoke_def validate_script_def lease lua_or_counter [OF assms(2)]
        parse_counter [OF assms(2)] parse_lease_of [OF assms] counter Let_def)
qed

lemma lookup_exact:
  assumes "env_laws E" and "stores E r S"
  shows "lookup E Delivered c s r = Inr (lease_of S (c, s))"
    and "known_generation E Delivered c s r = Inr (counter_of S (c, s))"
proof -
  show "lookup E Delivered c s r = Inr (lease_of S (c, s))"
  proof (cases "st_lease (S (c, s))")
    case None
    then show ?thesis
      using stores_lease(1) [OF assms(2)] by (simp add: lookup_def invoke_def lease_of_def)
  next
    case (Some op)
    then obtain o' p where op: "st_lease (S (c, s)) = Some (o', p)" by (cases op) auto
    then show ?thesis
      using stores_lease(2) [OF assms(2) op] parse_stored_lease [OF assms op] by (simp add: lookup_def invoke_def lease_of_def)
  qed
  show "known_generation E Delivered c s r = Inr (counter_of S (c, s))"
    using stores_counter(1) [OF assms(2), of c s] parse_stored_counter [OF assms(2), of c s c s]
    by (cases "st_generation (S (c, s)) = 0") (simp_all add: known_generation_def invoke_def counter_of_def)
qed

lemma accepted_fence_live:
  "check_fence (lease_of S (c, fh_session_id f)) (st_generation (S (c, fh_session_id f))) f = Inr () \<longleftrightarrow>
     (\<exists>l. lease_of S (c, fh_session_id f) = Some l \<and> fenced_header_of l = f)"
proof (cases "st_lease (S (c, fh_session_id f))")
  case (Some op)
  then show ?thesis
    by (cases op; cases f) (auto simp: check_fence_def lease_of_def fenced_header_of_def Let_def)
qed (simp add: check_fence_def lease_of_def Let_def)

lemma delivered_iff: "snd (invoke net r (Some (r, x))) = Inr y \<longleftrightarrow> net = Delivered \<and> y = x"
  by (cases net) (auto simp: invoke_def)

lemma validate_sim:
  assumes "env_laws E" and "stores E r S"
  shows "lease_step S (told_validate c f (validate_fenced_header E net c f r)) S"
proof (cases "validate_fenced_header E net c f r")
  case (Inr u)
  then have "net = Delivered"
    by (cases net) (auto simp: validate_fenced_header_def invoke_def Let_def)
  then have "check_fence (lease_of S (c, fh_session_id f)) (st_generation (S (c, fh_session_id f))) f = Inr ()"
    using Inr validate_exact [OF assms, of c f] by simp
  then obtain l where "lease_of S (c, fh_session_id f) = Some l" "fenced_header_of l = f"
    by (auto simp: accepted_fence_live)
  then show ?thesis
    using Inr lease_of_seen [of S "(c, fh_session_id f)" l] by (auto simp: fenced_header_of_def)
qed (simp add: unchanged)

lemma lookup_sim:
  assumes "env_laws E" and "stores E r S"
  shows "lease_step S (told_lookup (c, s) (lookup E net c s r)) S"
proof -
  have "net = Delivered \<or> (\<exists>e. lookup E net c s r = Inl e)"
    by (cases net) (auto simp: lookup_def invoke_def)
  then show ?thesis
    using lookup_exact(1) [OF assms, of c s] lease_of_seen [of S "(c, s)"] unchanged [of S]
    by (cases "lease_of S (c, s)") auto
qed

lemma renew_sim:
  assumes "env_laws E" and "stores E r S" and "renew E net ttl l r = (r', res)"
  shows "lease_step S (told_renew (sl_community_id l, sl_session_id l) res) S" and "stores E r' S"
proof -
  note ex = renew_exact [OF assms]
  show "stores E r' S" by (rule ex(1))
  have "holds S l \<Longrightarrow> lease_of S (sl_community_id l, sl_session_id l) \<noteq> None" by (auto simp: holds_def)
  then show "lease_step S (told_renew (sl_community_id l, sl_session_id l) res) S"
    using ex(2) lease_of_seen [of S "(sl_community_id l, sl_session_id l)"] unchanged [of S]
    by (cases "lease_of S (sl_community_id l, sl_session_id l)") (auto split: if_splits)
qed

lemma release_sim:
  assumes "env_laws E" and "stores E r S" and "release E net l r = (r', res)"
  shows "\<exists>S'. lease_step S (told_release (sl_community_id l, sl_session_id l) res) S' \<and> stores E r' S' \<and>
    (\<forall>k. st_generation (S' k) = st_generation (S k))"
proof -
  let ?k = "(sl_community_id l, sl_session_id l)"
  let ?S' = "if holds S l \<and> net \<in> {ReplyLost, Delivered} then S(?k := (S ?k)\<lparr>st_lease := None\<rparr>) else S"
  note ex = release_exact [OF assms]
  have quiet: "lease_step S Nothing ?S'" by (rule expired) simp
  have "lease_step S (told_release ?k res) ?S'"
  proof (cases "holds S l \<and> res = Inr (Released (the (lease_of S ?k)))")
    case True
    then obtain p where p: "st_lease (S ?k) = Some (sl_owner_runtime_id l, p)" "st_generation (S ?k) = sl_generation l"
      by (auto simp: holds_iff)
    have "net = Delivered" using True assms(3) by (cases net) (auto simp: release_def invoke_def Let_def split: option.splits prod.splits)
    with given_up [of S ?k, OF p(1)] p True show ?thesis by (simp add: lease_of_def)
  next
    case False
    then have "(\<exists>e. res = Inl e) \<or> \<not> holds S l \<and> res = Inr (NotOwner (lease_of S ?k) (counter_of S ?k))"
      using ex(2) by (auto split: if_splits)
    then show ?thesis
      using quiet lease_of_seen [of S ?k] by (cases "lease_of S ?k") auto
  qed
  then show ?thesis using ex(1) by (intro exI [of _ ?S']) auto
qed

end
