(* ===== verification/Session_Runs.thy ===== *)
theory Session_Runs
  imports Session_Fencing
begin

section \<open>Runs of the session directory\<close>

text \<open>
  Any number of runtimes call the directory in any order, requests and replies get lost, leases
  expire and other parts of the system use the same Redis server. The properties of
  \<open>buzz-relay/src/tunnel/directory.rs\<close> over such runs, with a concrete store to run them on.
\<close>

text \<open>
  What happens to the server between two calls: keys with an expiry may vanish, and keys of other
  components may change. No data is lost otherwise.
\<close>

definition elsewhere :: "'r dir_env \<Rightarrow> 'r \<Rightarrow> 'r \<Rightarrow> bool" where
  "elsewhere E r r' \<longleftrightarrow>
     (\<forall>c s. (rd_get E r' (lease_key E c s) = rd_get E r (lease_key E c s) \<or> rd_get E r' (lease_key E c s) = None) \<and>
        (\<not> rd_volatile E r (generation_key E c s) \<longrightarrow>
           rd_get E r' (generation_key E c s) = rd_get E r (generation_key E c s) \<and>
           \<not> rd_volatile E r' (generation_key E c s)))"

definition fresh_store :: "'r dir_env \<Rightarrow> 'r \<Rightarrow> bool" where
  "fresh_store E r \<longleftrightarrow>
     (\<forall>c s. rd_get E r (lease_key E c s) = None \<and> rd_get E r (generation_key E c s) = None \<and>
        \<not> rd_volatile E r (generation_key E c s))"

text \<open>What the callers were told, the latest first.\<close>

inductive dir_run :: "'r dir_env \<Rightarrow> 'r \<Rightarrow> told list \<Rightarrow> bool" for E where
  run_start: "fresh_store E r \<Longrightarrow> dir_run E r []"
| run_acquire: "dir_run E r h \<Longrightarrow> length owner = 32 \<Longrightarrow> acquire E net ttl c s owner p r = (r', res) \<Longrightarrow>
    dir_run E r' (told_acquire (c, s) res # h)"
| run_renew: "dir_run E r h \<Longrightarrow> renew E net ttl l r = (r', res) \<Longrightarrow>
    dir_run E r' (told_renew (sl_community_id l, sl_session_id l) res # h)"
| run_release: "dir_run E r h \<Longrightarrow> release E net l r = (r', res) \<Longrightarrow>
    dir_run E r' (told_release (sl_community_id l, sl_session_id l) res # h)"
| run_lookup: "dir_run E r h \<Longrightarrow> dir_run E r (told_lookup (c, s) (lookup E net c s r) # h)"
| run_validate: "dir_run E r h \<Longrightarrow> dir_run E r (told_validate c f (validate_fenced_header E net c f r) # h)"
| run_elsewhere: "dir_run E r h \<Longrightarrow> elsewhere E r r' \<Longrightarrow> dir_run E r' h"

lemma elsewhere_sim:
  assumes "stores E r S" and "elsewhere E r r'"
  shows "\<exists>S'. lease_step S Nothing S' \<and> stores E r' S' \<and> (\<forall>k. st_generation (S' k) = st_generation (S k))"
proof -
  let ?S' = "\<lambda>k. if rd_get E r' (lease_key E (fst k) (snd k)) = rd_get E r (lease_key E (fst k) (snd k)) then S k
      else (S k)\<lparr>st_lease := None\<rparr>"
  have "represents E r' k (?S' k)" for k
  proof -
    obtain c s where k: "k = (c, s)" by (cases k)
    have "represents E r k (S k)" using assms(1) unfolding stores_def by blast
    then show ?thesis
      using assms(2) [unfolded elsewhere_def, rule_format, of c s] by (auto simp: represents_def k split: option.splits)
  qed
  then have "stores E r' ?S'" by (simp add: stores_def)
  moreover have "lease_step S Nothing ?S'" by (rule expired) simp
  ultimately show ?thesis by (intro exI [of _ ?S']) simp
qed

lemma run_simulated:
  assumes "env_laws E" and "dir_run E r h" and "length h < 10 ^ 14"
  shows "\<exists>S. lease_run S h \<and> stores E r S \<and> (\<forall>k. st_generation (S k) \<le> length h)"
  using assms(2,3)
proof (induction rule: dir_run.induct)
  case (run_start r)
  then have "stores E r (\<lambda>_. \<lparr>st_generation = 0, st_lease = None\<rparr>)"
    by (auto simp: stores_def represents_def fresh_store_def)
  moreover have "lease_run (\<lambda>_. \<lparr>st_generation = 0, st_lease = None\<rparr>) []" by (rule lr_start) simp
  ultimately show ?case by fastforce
next
  case (run_acquire r h owner net ttl c s p r' res)
  then obtain S where S: "lease_run S h" "stores E r S" "\<forall>k. st_generation (S k) \<le> length h" by auto
  have "st_generation (S (c, s)) + 1 < 10 ^ 14" using S(3) [rule_format, of "(c, s)"] run_acquire.prems by simp
  then obtain S' where S': "lease_step S (told_acquire (c, s) res) S'" "stores E r' S'"
      "S' = S \<or> S' = S((c, s) := granted_state (S (c, s)) owner p)"
    using acquire_sim [OF assms(1) S(2) run_acquire.hyps(2) _ run_acquire.hyps(3)] by blast
  have "st_generation (S' k) \<le> Suc (length h)" for k
    using S'(3) S(3) [rule_format, of k] by (auto simp: granted_state_def)
  then show ?case using lr_step [OF S(1) S'(1)] S'(2) by auto
next
  case (run_renew r h net ttl l r' res)
  then obtain S where "lease_run S h" "stores E r S" "\<forall>k. st_generation (S k) \<le> length h" by auto
  then show ?case
    using renew_sim [OF assms(1) _ run_renew.hyps(2)] lr_step by (metis le_Suc_eq length_Cons)
next
  case (run_release r h net l r' res)
  then obtain S where "lease_run S h" "stores E r S" "\<forall>k. st_generation (S k) \<le> length h" by auto
  then show ?case
    using release_sim [OF assms(1) _ run_release.hyps(2)] lr_step by (metis le_Suc_eq length_Cons)
next
  case (run_lookup r h c s net)
  then obtain S where "lease_run S h" "stores E r S" "\<forall>k. st_generation (S k) \<le> length h" by auto
  then show ?case
    using lookup_sim [OF assms(1)] lr_step by (metis le_Suc_eq length_Cons)
next
  case (run_validate r h c f net)
  then obtain S where "lease_run S h" "stores E r S" "\<forall>k. st_generation (S k) \<le> length h" by auto
  then show ?case
    using validate_sim [OF assms(1)] lr_step by (metis le_Suc_eq length_Cons)
next
  case (run_elsewhere r h r')
  then obtain S where "lease_run S h" "stores E r S" "\<forall>k. st_generation (S k) \<le> length h" by auto
  then show ?case
    using elsewhere_sim [OF _ run_elsewhere.hyps(2)] lr_quiet by metis
qed

text \<open>
  C1. Fencing. Over any run of acquisitions, renewals, releases, lookups and validations by any
  runtimes, with requests or replies lost and leases expiring in between, what callers are told
  about one session never goes back to an older generation, never names two owners for one
  generation, and grants only generations newer than everything told before; a generation that was
  given up is never reported again.
\<close>

theorem session_fencing:
  assumes "env_laws E" and "dir_run E r h" and "length h < 10 ^ 14"
  shows "sorted_wrt (\<lambda>new old. fence_order old new) h"
  using run_simulated [OF assms] run_fenced by blast

text \<open>
  Once a lease of some generation was granted, every frame of the session that carries an
  older generation is rejected as stale, at every later moment and whoever sends it.
\<close>

theorem superseded_frames_rejected:
  assumes "env_laws E" and "dir_run E r h" and "length h < 10 ^ 14"
    and "Granted (c, fh_session_id f) g owner \<in> set h" and "fh_generation f < g"
  shows "\<exists>known\<ge>g. validate_fenced_header E Delivered c f r =
    Inl (StaleGeneration (fh_session_id f) (fh_generation f) known)"
proof -
  obtain S where S: "lease_run S h" "stores E r S" using run_simulated [OF assms(1-3)] by blast
  have "explained S (Granted (c, fh_session_id f) g owner)" using run_explained [OF S(1) assms(4)] .
  then have "g \<le> st_generation (S (c, fh_session_id f))" by (auto simp: explained_def)
  moreover have "lease_of S (c, fh_session_id f) = Some l \<Longrightarrow> sl_generation l = st_generation (S (c, fh_session_id f))" for l
    by (auto simp: lease_of_def)
  ultimately show ?thesis
    using assms(5) unfolding validate_exact [OF assms(1) S(2)]
    by (intro exI [of _ "st_generation (S (c, fh_session_id f))"])
       (auto simp: check_fence_def Let_def split: option.splits)
qed

text \<open>
  The fence check accepts a frame exactly when the session has a live lease with the frame's
  generation and owner. Otherwise the error says which of the four cases holds: an older
  generation than the last one issued, no live lease, a generation not issued yet, or another
  owner.
\<close>

theorem fence_check_exact:
  assumes "env_laws E" and "dir_run E r h" and "length h < 10 ^ 14"
    and "lookup E Delivered c (fh_session_id f) r = Inr current"
    and "known_generation E Delivered c (fh_session_id f) r = Inr known"
  shows "let issued = (case known of None \<Rightarrow> 0 | Some g \<Rightarrow> g) in
    validate_fenced_header E Delivered c f r =
    (if fh_generation f < issued then Inl (StaleGeneration (fh_session_id f) (fh_generation f) issued)
     else case current of
       None \<Rightarrow> Inl (NoActiveLease (fh_session_id f) (fh_generation f) issued (fh_owner_runtime_id f))
     | Some l \<Rightarrow>
         if issued < fh_generation f then Inl (FutureGeneration (fh_session_id f) (fh_generation f) issued)
         else if fh_owner_runtime_id f \<noteq> sl_owner_runtime_id l
         then Inl (OwnerMismatch (fh_session_id f) (fh_generation f) (fh_owner_runtime_id f) (sl_owner_runtime_id l))
         else Inr ()) \<and>
    (validate_fenced_header E Delivered c f r = Inr () \<longleftrightarrow> (\<exists>l. current = Some l \<and> fenced_header_of l = f))"
proof -
  obtain S where S: "stores E r S" using run_simulated [OF assms(1-3)] by blast
  define issued where "issued = (case known of None \<Rightarrow> 0 | Some g \<Rightarrow> g)"
  let ?k = "(c, fh_session_id f)"
  have cur: "current = lease_of S ?k" and iss: "issued = st_generation (S ?k)"
    using lookup_exact [OF assms(1) S, of c "fh_session_id f"] assms(4,5)
    by (auto simp: issued_def counter_of_def)
  have gen: "lease_of S ?k = Some l \<Longrightarrow> sl_generation l = st_generation (S ?k)" for l
    by (auto simp: lease_of_def)
  have "check_fence (lease_of S ?k) (st_generation (S ?k)) f =
    (if fh_generation f < issued then Inl (StaleGeneration (fh_session_id f) (fh_generation f) issued)
     else case current of
       None \<Rightarrow> Inl (NoActiveLease (fh_session_id f) (fh_generation f) issued (fh_owner_runtime_id f))
     | Some l \<Rightarrow>
         if issued < fh_generation f then Inl (FutureGeneration (fh_session_id f) (fh_generation f) issued)
         else if fh_owner_runtime_id f \<noteq> sl_owner_runtime_id l
         then Inl (OwnerMismatch (fh_session_id f) (fh_generation f) (fh_owner_runtime_id f) (sl_owner_runtime_id l))
         else Inr ())"
    unfolding cur iss by (cases "lease_of S ?k") (auto simp: check_fence_def Let_def dest: gen)
  then show ?thesis
    unfolding validate_exact [OF assms(1) S] issued_def [symmetric] Let_def
    using accepted_fence_live [of S c f] cur by simp
qed

text \<open>
  C21. The directory implements the abstract leases: on a store that represents a state of the
  machine, a delivered acquisition of a free session grants the next generation and one of a held
  session reports its lease and changes nothing; a renewal and a release succeed exactly for the
  current owner and generation, a release frees the session, and everyone else is told the current
  lease and the last generation. The new store represents the new state, so every other session is
  untouched.
\<close>

theorem directory_refines_leases:
  assumes "env_laws E" and "stores E r S" and "length owner = 32" and "st_generation (S (c, s)) + 1 < 10 ^ 14"
    and "0 < ttl" and "ttl < 2 ^ 63" and l: "sl_community_id l = c" "sl_session_id l = s"
  shows "(case acquire E Delivered ttl c s owner p r of (r', res) \<Rightarrow>
      (case lease_of S (c, s) of
         Some cur \<Rightarrow> res = Inr (Exists cur) \<and> stores E r' S
       | None \<Rightarrow>
          (let S' = S((c, s) := granted_state (S (c, s)) owner p) in
             stores E r' S' \<and> res = Inr (Acquired (the (lease_of S' (c, s))))))) \<and>
    (case renew E Delivered ttl l r of (r', res) \<Rightarrow> stores E r' S \<and>
      res = Inr (if holds S l then Renewed (the (lease_of S (c, s))) else Lost (lease_of S (c, s)) (counter_of S (c, s)))) \<and>
    (case release E Delivered l r of (r', res) \<Rightarrow>
      stores E r' (if holds S l then S((c, s) := (S (c, s))\<lparr>st_lease := None\<rparr>) else S) \<and>
      res = Inr (if holds S l then Released (the (lease_of S (c, s))) else NotOwner (lease_of S (c, s)) (counter_of S (c, s))))"
proof (intro conjI)
  obtain ra acq where a: "acquire E Delivered ttl c s owner p r = (ra, acq)" by (cases "acquire E Delivered ttl c s owner p r")
  show "case acquire E Delivered ttl c s owner p r of (r', res) \<Rightarrow>
      (case lease_of S (c, s) of
         Some cur \<Rightarrow> res = Inr (Exists cur) \<and> stores E r' S
       | None \<Rightarrow>
          (let S' = S((c, s) := granted_state (S (c, s)) owner p) in
             stores E r' S' \<and> res = Inr (Acquired (the (lease_of S' (c, s))))))"
    using acquire_exact [OF assms(1-6) a] assms(2)
    by (auto simp: a Let_def granted_state_def lease_of_def split: option.splits)
  obtain rn ren where n: "renew E Delivered ttl l r = (rn, ren)" by (cases "renew E Delivered ttl l r")
  have "ttl_ms ttl = Inr (int ttl)" using assms(5,6) by (simp add: ttl_ms_def)
  then show "case renew E Delivered ttl l r of (r', res) \<Rightarrow> stores E r' S \<and>
      res = Inr (if holds S l then Renewed (the (lease_of S (c, s))) else Lost (lease_of S (c, s)) (counter_of S (c, s)))"
    using renew_exact [OF assms(1,2) n] by (auto simp: n l)
  obtain rl rel where r: "release E Delivered l r = (rl, rel)" by (cases "release E Delivered l r")
  show "case release E Delivered l r of (r', res) \<Rightarrow>
      stores E r' (if holds S l then S((c, s) := (S (c, s))\<lparr>st_lease := None\<rparr>) else S) \<and>
      res = Inr (if holds S l then Released (the (lease_of S (c, s))) else NotOwner (lease_of S (c, s)) (counter_of S (c, s)))"
    using release_exact [OF assms(1,2) r] by (auto simp: r l)
qed

subsection \<open>A store to run on\<close>

text \<open>A server with string values and a set of keys that expire, and simple text codecs.\<close>

fun nibbles :: "nat \<Rightarrow> nat \<Rightarrow> string" where
  "nibbles 0 n = []"
| "nibbles (Suc k) n = char_of (if n mod 16 < 10 then 48 + n mod 16 else 87 + n mod 16) # nibbles k (n div 16)"

definition nibble_value :: "char \<Rightarrow> nat" where
  "nibble_value c = (if byte c < 58 then byte c - 48 else byte c - 87)"

fun unhex :: "string \<Rightarrow> bytes option" where
  "unhex [] = Some []"
| "unhex [c] = None"
| "unhex (c # d # s) = map_option (\<lambda>b. word_of_nat (nibble_value c + 16 * nibble_value d) # b) (unhex s)"

definition demo_hex :: "bytes \<Rightarrow> string" where
  "demo_hex b = concat (map (\<lambda>w. nibbles 2 (unat w)) b)"

type_synonym demo_redis = "(string \<Rightarrow> string option) \<times> (string \<Rightarrow> bool)"

definition demo_incr :: "demo_redis \<Rightarrow> string \<Rightarrow> (int \<times> demo_redis) option" where
  "demo_incr r k =
     (case fst r k of
        None \<Rightarrow> Some (1, ((fst r)(k \<mapsto> decimal 1), (snd r)(k := False)))
      | Some t \<Rightarrow>
         (let n = decimal_value 0 t in
          if n + 1 < 2 ^ 63 then Some (int (n + 1), ((fst r)(k \<mapsto> decimal (n + 1)), snd r)) else None))"

definition demo_env :: "demo_redis dir_env" where
  "demo_env = \<lparr>rd_get = fst,
     rd_set_px = (\<lambda>r k v ttl. ((fst r)(k \<mapsto> v), (snd r)(k := True))),
     rd_incr = demo_incr,
     rd_pexpire = (\<lambda>r k ttl. (fst r, (snd r)(k := True))),
     rd_del = (\<lambda>r k. ((fst r)(k := None), (snd r)(k := False))),
     rd_volatile = snd, hex_enc = demo_hex, hex_dec = unhex,
     uuid_text = (\<lambda>u. ''----'' @ nibbles 32 (unat u)),
     lua_tostring = (\<lambda>i. decimal (nat i))\<rparr>"

lemma length_nibbles [simp]: "length (nibbles k n) = k"
  by (induction k arbitrary: n) simp_all

lemma nibble_value_char: "m < 16 \<Longrightarrow> nibble_value (char_of (if m < 10 then 48 + m else 87 + m)) = m"
  by (auto simp: nibble_value_def byte_def)

lemma nibbles_inject: "m < 16 ^ k \<Longrightarrow> n < 16 ^ k \<Longrightarrow> nibbles k m = nibbles k n \<Longrightarrow> m = n"
proof (induction k arbitrary: m n)
  case (Suc k)
  have "m div 16 < 16 ^ k" "n div 16 < 16 ^ k"
    using Suc.prems(1,2) by (simp_all add: less_mult_imp_div_less mult.commute)
  then have "m div 16 = n div 16" using Suc.IH Suc.prems(3) by simp
  moreover have "m mod 16 = n mod 16"
    using nibble_value_char [of "m mod 16"] nibble_value_char [of "n mod 16"] Suc.prems(3)
    unfolding nibbles.simps by (metis list.inject mod_less_divisor zero_less_numeral)
  ultimately show ?case by (metis div_mult_mod_eq)
qed simp

lemma nibbles_two: "nibbles 2 n =
    [char_of (if n mod 16 < 10 then 48 + n mod 16 else 87 + n mod 16),
     char_of (if n div 16 mod 16 < 10 then 48 + n div 16 mod 16 else 87 + n div 16 mod 16)]"
  by (simp add: numeral_2_eq_2)

lemma unhex_demo_hex: "unhex (demo_hex b) = Some b"
proof (induction b)
  case (Cons w b)
  have "unat w < 256" using unsigned_less [of w] by simp
  then have "unat w div 16 mod 16 = unat w div 16" by (simp add: less_mult_imp_div_less)
  then have "unat w mod 16 + 16 * (unat w div 16 mod 16) = unat w" by simp
  then show ?case
    using Cons nibble_value_char [of "unat w mod 16"] nibble_value_char [of "unat w div 16 mod 16"]
    by (simp add: demo_hex_def nibbles_two)
qed (simp add: demo_hex_def)

lemma nibbles_hex: "c \<in> set (nibbles k n) \<Longrightarrow> is_lowercase_hexdigit c"
proof (induction k arbitrary: n)
  case (Suc k)
  have "is_lowercase_hexdigit (char_of (if m < 10 then 48 + m else 87 + m))" if "m < 16" for m :: nat
    using that by (auto simp: ascii_defs)
  from this [of "n mod 16"] Suc show ?case by auto
qed simp

lemma demo_text_laws: "text_laws demo_env"
proof -
  have "length (demo_hex b) = 2 * length b" for b by (induction b) (simp_all add: demo_hex_def)
  moreover have "is_lowercase_hexdigit c" if "c \<in> set (demo_hex b)" for b c
    using that nibbles_hex by (auto simp: demo_hex_def)
  moreover have "u = v" if "nibbles 32 (unat u) = nibbles 32 (unat v)" for u v :: uuid
    using nibbles_inject [OF _ _ that] unsigned_less [of u] unsigned_less [of v] by (simp add: word_unat_eq_iff)
  ultimately show ?thesis
    by (auto simp: text_laws_def demo_env_def unhex_demo_hex)
qed

lemma demo_redis_laws: "redis_laws demo_env"
  by (auto simp: redis_laws_def demo_env_def demo_incr_def decimal_inverse Let_def)

lemma demo_laws: "env_laws demo_env"
  by (simp add: env_laws_def demo_text_laws demo_redis_laws)

text \<open>
  Two runtimes and one session. The first acquires it and releases it, the second acquires it; a
  frame of the first is validated between and after.
\<close>

definition demo_owner :: "8 word \<Rightarrow> runtime_id" where
  "demo_owner b = replicate 32 b"

definition demo_lease :: "8 word \<Rightarrow> nat \<Rightarrow> session_lease" where
  "demo_lease b g = \<lparr>sl_community_id = 1, sl_session_id = 2, sl_owner_runtime_id = demo_owner b, sl_generation = g,
     sl_profile = ReliableStream\<rparr>"

definition demo_empty :: demo_redis where
  "demo_empty = ((\<lambda>_. None), (\<lambda>_. False))"

definition demo_free :: "nat \<Rightarrow> sessions" where
  "demo_free g = (\<lambda>_. \<lparr>st_generation = 0, st_lease = None\<rparr>)((1, 2) := \<lparr>st_generation = g, st_lease = None\<rparr>)"

definition demo_held :: "8 word \<Rightarrow> nat \<Rightarrow> sessions" where
  "demo_held b g = (demo_free g)((1, 2) := \<lparr>st_generation = g, st_lease = Some (demo_owner b, ReliableStream)\<rparr>)"

lemma demo_empty_stores: "fresh_store demo_env demo_empty" "stores demo_env demo_empty (demo_free 0)"
  by (auto simp: fresh_store_def stores_def represents_def demo_free_def demo_env_def demo_empty_def)

lemma demo_lease_of:
  "lease_of (demo_free g) (1, 2) = None" "lease_of (demo_held b g) (1, 2) = Some (demo_lease b g)"
  "holds (demo_held b g) (demo_lease b g)"
  by (simp_all add: lease_of_def demo_free_def demo_held_def demo_lease_def holds_def)

lemma demo_acquire:
  assumes "dir_run demo_env r h" and "stores demo_env r (demo_free g)" and "g + 1 < 10 ^ 14"
  obtains r' where "dir_run demo_env r' (Granted (1, 2) (g + 1) (demo_owner b) # h)"
    and "stores demo_env r' (demo_held b (g + 1))"
proof -
  obtain r' res where a: "acquire demo_env Delivered 30000 1 2 (demo_owner b) ReliableStream r = (r', res)"
    by (cases "acquire demo_env Delivered 30000 1 2 (demo_owner b) ReliableStream r")
  have len: "length (demo_owner b) = 32" by (simp add: demo_owner_def)
  have next': "(demo_free g)((1, 2) := granted_state (demo_free g (1, 2)) (demo_owner b) ReliableStream) = demo_held b (g + 1)"
    by (auto simp: demo_free_def demo_held_def granted_state_def fun_eq_iff)
  have gen: "st_generation (demo_free g (1, 2)) = g" by (simp add: demo_free_def)
  have bound: "st_generation (demo_free g (1, 2)) + 1 < 10 ^ 14" using assms(3) gen by simp
  have "res = Inr (Acquired (demo_lease b (g + 1)))" "stores demo_env r' (demo_held b (g + 1))"
    using acquire_exact [OF demo_laws assms(2) len bound _ _ a]
    unfolding next' gen demo_lease_of(1) by (simp_all add: demo_lease_def)
  then show thesis using that run_acquire [OF assms(1) len a] by (simp add: demo_lease_def)
qed

lemma demo_release:
  assumes "dir_run demo_env r h" and "stores demo_env r (demo_held b g)"
  obtains r' where "dir_run demo_env r' (GivenUp (1, 2) g (demo_owner b) # h)"
    and "stores demo_env r' (demo_free g)"
proof -
  obtain r' res where a: "release demo_env Delivered (demo_lease b g) r = (r', res)"
    by (cases "release demo_env Delivered (demo_lease b g) r")
  have id: "sl_community_id (demo_lease b g) = 1" "sl_session_id (demo_lease b g) = 2" by (simp_all add: demo_lease_def)
  have next': "(demo_held b g)((1, 2) := (demo_held b g (1, 2))\<lparr>st_lease := None\<rparr>) = demo_free g"
    by (auto simp: demo_free_def demo_held_def fun_eq_iff)
  have "res = Inr (Released (demo_lease b g))" "stores demo_env r' (demo_free g)"
    using release_exact [OF demo_laws assms(2) a] next' by (simp_all add: id demo_lease_of)
  then show thesis using that run_release [OF assms(1) a] by (simp add: demo_lease_def)
qed

lemma demo_history:
  obtains r where "dir_run demo_env r [Granted (1, 2) 2 (demo_owner 8), GivenUp (1, 2) 1 (demo_owner 7), Granted (1, 2) 1 (demo_owner 7)]"
    and "stores demo_env r (demo_held 8 2)"
proof -
  obtain r1 where r1: "dir_run demo_env r1 [Granted (1, 2) (0 + 1) (demo_owner 7)]" "stores demo_env r1 (demo_held 7 (0 + 1))"
    using demo_acquire [OF run_start [OF demo_empty_stores(1)] demo_empty_stores(2)] by auto
  obtain r2 where r2: "dir_run demo_env r2 [GivenUp (1, 2) (0 + 1) (demo_owner 7), Granted (1, 2) (0 + 1) (demo_owner 7)]"
      "stores demo_env r2 (demo_free (0 + 1))"
    using demo_release [OF r1] by blast
  obtain r3 where "dir_run demo_env r3 [Granted (1, 2) (0 + 1 + 1) (demo_owner 8), GivenUp (1, 2) (0 + 1) (demo_owner 7), Granted (1, 2) (0 + 1) (demo_owner 7)]"
      "stores demo_env r3 (demo_held 8 (0 + 1 + 1))"
    using demo_acquire [OF r2] by auto
  then show thesis using that by (simp add: numeral_2_eq_2)
qed

theorem session_fencing_witness:
  "\<exists>r h. dir_run demo_env r h \<and> h = [Granted (1, 2) 2 (demo_owner 8), GivenUp (1, 2) 1 (demo_owner 7), Granted (1, 2) 1 (demo_owner 7)] \<and>
     sorted_wrt (\<lambda>new old. fence_order old new) h"
proof -
  obtain r where r: "dir_run demo_env r [Granted (1, 2) 2 (demo_owner 8), GivenUp (1, 2) 1 (demo_owner 7), Granted (1, 2) 1 (demo_owner 7)]"
    by (rule demo_history)
  show ?thesis
    by (intro exI [of _ r] exI conjI) (rule r, rule refl, rule session_fencing [OF demo_laws r], simp)
qed

theorem superseded_frames_rejected_witness:
  "\<exists>r known. 2 \<le> known \<and> validate_fenced_header demo_env Delivered 1 (fenced_header_of (demo_lease 7 1)) r = Inl (StaleGeneration 2 1 known)"
proof -
  obtain r where r: "dir_run demo_env r [Granted (1, 2) 2 (demo_owner 8), GivenUp (1, 2) 1 (demo_owner 7), Granted (1, 2) 1 (demo_owner 7)]"
    by (rule demo_history)
  have f: "fh_session_id (fenced_header_of (demo_lease 7 1)) = 2" "fh_generation (fenced_header_of (demo_lease 7 1)) = 1"
    by (simp_all add: fenced_header_of_def demo_lease_def)
  show ?thesis
    using superseded_frames_rejected [OF demo_laws r, of 1 "fenced_header_of (demo_lease 7 1)" 2 "demo_owner 8"] f
    by (intro exI [of _ r]) auto
qed

theorem fence_check_exact_witness:
  "\<exists>r. validate_fenced_header demo_env Delivered 1 (fenced_header_of (demo_lease 8 2)) r = Inr () \<and>
     validate_fenced_header demo_env Delivered 1 (fenced_header_of (demo_lease 7 2)) r = Inl (OwnerMismatch 2 2 (demo_owner 7) (demo_owner 8))"
proof -
  obtain r where r: "dir_run demo_env r [Granted (1, 2) 2 (demo_owner 8), GivenUp (1, 2) 1 (demo_owner 7), Granted (1, 2) 1 (demo_owner 7)]"
      "stores demo_env r (demo_held 8 2)"
    by (rule demo_history)
  have look: "lookup demo_env Delivered 1 2 r = Inr (Some (demo_lease 8 2))" "known_generation demo_env Delivered 1 2 r = Inr (Some 2)"
    using lookup_exact [OF demo_laws r(2), of 1 2] by (simp_all add: demo_lease_of counter_of_def, simp add: demo_held_def)
  have f: "fh_session_id (fenced_header_of (demo_lease b g)) = 2" "fh_generation (fenced_header_of (demo_lease b g)) = g"
      "fh_owner_runtime_id (fenced_header_of (demo_lease b g)) = demo_owner b" "sl_owner_runtime_id (demo_lease b g) = demo_owner b" for b g
    by (simp_all add: fenced_header_of_def demo_lease_def)
  have "demo_owner 7 \<noteq> demo_owner 8" by (simp add: demo_owner_def)
  then show ?thesis
    using fence_check_exact [OF demo_laws r(1), of 1 "fenced_header_of (demo_lease 8 2)" "Some (demo_lease 8 2)" "Some 2"]
      fence_check_exact [OF demo_laws r(1), of 1 "fenced_header_of (demo_lease 7 2)" "Some (demo_lease 8 2)" "Some 2"]
    by (intro exI [of _ r]) (simp add: f look)
qed

theorem directory_refines_leases_witness:
  "snd (acquire demo_env Delivered 30000 1 2 (demo_owner 7) ReliableStream demo_empty) = Inr (Acquired (demo_lease 7 1)) \<and>
   snd (release demo_env Delivered (demo_lease 7 1) demo_empty) = Inr (NotOwner None None)"
proof -
  have *: "length (demo_owner 7) = 32" "st_generation (demo_free 0 (1, 2)) + 1 < 10 ^ 14" "0 < (30000 :: nat)" "(30000 :: nat) < 2 ^ 63"
      "sl_community_id (demo_lease 7 1) = 1" "sl_session_id (demo_lease 7 1) = 2"
    by (simp_all add: demo_owner_def demo_free_def demo_lease_def)
  show ?thesis
    using directory_refines_leases [OF demo_laws demo_empty_stores(2) *, of ReliableStream]
    by (auto simp: demo_lease_of holds_def demo_lease_def counter_of_def Let_def split: prod.splits)
       (simp_all add: demo_free_def lease_of_def granted_state_def)
qed

end
