(* ===== verification/Tunnel.thy ===== *)
theory Tunnel
  imports Session_Runs
begin

section \<open>Reliable tunnel streams\<close>

text \<open>
  Routing of reliable sessions (\<open>buzz-relay/src/tunnel/reliable.rs\<close>): joining a session, accepting
  a stream of another runtime, the frames inside a mesh stream, and the renewer of a lease. A mesh
  stream is what its receiving half will return, what was sent on it, and how many more frames the
  connection takes before it fails. Timers are the sequence of ticks they produce.
\<close>

datatype reliable_stream_error =
    DirectoryErr directory_error
  | MeshErr mesh_error
  | ProfileMismatch uuid profile profile
  | SenderMismatch runtime_id runtime_id
  | UnexpectedStreamRole
  | OwnerIsNotLocal uuid runtime_id runtime_id
  | UnexpectedFrame string
  | FrameFenceMismatch fenced_header fenced_header
  | CommunityMismatch uuid uuid
  | MalformedReliableFrame string

text \<open>The \<open>From\<close> conversions of the \<open>?\<close> operator.\<close>

fun from_mesh :: "('a, mesh_error) result \<Rightarrow> ('a, reliable_stream_error) result" where
  "from_mesh (Inl e) = Inl (MeshErr e)"
| "from_mesh (Inr x) = Inr x"

record mesh_stream =
  ms_in :: "(mesh_stream_frame, mesh_error) result list"
  ms_out :: "mesh_stream_frame list"
  ms_room :: nat
  ms_finished :: bool

definition stream_send :: "mesh_stream_frame \<Rightarrow> mesh_stream \<Rightarrow> (mesh_stream, mesh_error) result" where
  "stream_send f st =
     (if ms_room st = 0 then Inl Transport
      else Inr (st\<lparr>ms_out := ms_out st @ [f], ms_room := ms_room st - 1\<rparr>))"

definition stream_recv :: "mesh_stream \<Rightarrow> mesh_stream \<times> (mesh_stream_frame option, mesh_error) result" where
  "stream_recv st =
     (case ms_in st of
        [] \<Rightarrow> (st, Inr None)
      | Inl e # rest \<Rightarrow> (st\<lparr>ms_in := rest\<rparr>, Inl e)
      | Inr f # rest \<Rightarrow> (st\<lparr>ms_in := rest\<rparr>, Inr (Some f)))"

subsection \<open>Frames inside the stream\<close>

datatype reliable_wire_frame =
    WireData (wf_community: uuid) bytes
  | WireGoodbye (wf_community: uuid) goodbye_reason

datatype reliable_frame = DataFrame bytes | GoodbyeFrame goodbye_reason

fun to_wire_byte :: "goodbye_reason \<Rightarrow> 8 word" where
  "to_wire_byte SessionEnded = 1"
| "to_wire_byte Draining = 2"
| "to_wire_byte StaleGenerationReason = 3"

definition from_wire_byte :: "8 word \<Rightarrow> (goodbye_reason, reliable_stream_error) result" where
  "from_wire_byte b =
     (if b = 1 then Inr SessionEnded
      else if b = 2 then Inr Draining
      else if b = 3 then Inr StaleGenerationReason
      else Inl (MalformedReliableFrame ''unknown goodbye reason''))"

text \<open>\<open>Uuid::as_bytes\<close> and \<open>Uuid::from_bytes\<close>: sixteen bytes, the most significant first.\<close>

definition uuid_bytes :: "uuid \<Rightarrow> bytes" where
  "uuid_bytes u = rev (le_digits 16 (unat u))"

definition uuid_from_bytes :: "bytes \<Rightarrow> uuid" where
  "uuid_from_bytes b = word_of_nat (le_value (rev b))"

fun wire_encode :: "reliable_wire_frame \<Rightarrow> bytes" where
  "wire_encode (WireData community_id payload) = 1 # 1 # uuid_bytes community_id @ payload"
| "wire_encode (WireGoodbye community_id reason) = 1 # 2 # uuid_bytes community_id @ [to_wire_byte reason]"

definition wire_decode :: "bytes \<Rightarrow> (reliable_wire_frame, reliable_stream_error) result" where
  "wire_decode b =
     (if length b < 18 then Inl (MalformedReliableFrame ''too short'')
      else if b ! 0 \<noteq> 1 then Inl (MalformedReliableFrame ''unknown version'')
      else let community_id = uuid_from_bytes (take 16 (drop 2 b)) in
        if b ! 1 = 1 then Inr (WireData community_id (drop 18 b))
        else if b ! 1 = 2 then
          (if length b \<noteq> 19 then Inl (MalformedReliableFrame ''bad goodbye length'')
           else and_then (from_wire_byte (b ! 18)) (\<lambda>reason. Inr (WireGoodbye community_id reason)))
        else Inl (MalformedReliableFrame ''unknown kind''))"

subsection \<open>A stream pinned to one session\<close>

record reliable_mesh_stream =
  rs_fenced :: fenced_header
  rs_stream :: mesh_stream
  rs_community_id :: "uuid option"

definition new_stream :: "fenced_header \<Rightarrow> mesh_stream \<Rightarrow> reliable_mesh_stream" where
  "new_stream fenced stream = \<lparr>rs_fenced = fenced, rs_stream = stream, rs_community_id = None\<rparr>"

definition with_community :: "uuid \<Rightarrow> reliable_mesh_stream \<Rightarrow> reliable_mesh_stream" where
  "with_community community_id st = st\<lparr>rs_community_id := Some community_id\<rparr>"

definition ensure_outbound_community ::
    "uuid \<Rightarrow> reliable_mesh_stream \<Rightarrow> (reliable_mesh_stream, reliable_stream_error) result" where
  "ensure_outbound_community community_id st =
     (case rs_community_id st of
        Some expected \<Rightarrow> if expected \<noteq> community_id then Inl (CommunityMismatch expected community_id) else Inr st
      | None \<Rightarrow> Inr (st\<lparr>rs_community_id := Some community_id\<rparr>))"

definition MAX_RELIABLE_PAYLOAD_BYTES :: nat where
  "MAX_RELIABLE_PAYLOAD_BYTES = 1024 * 1024"

text \<open>\<open>slice::chunks\<close>: pieces of \<open>n\<close> bytes, the last one possibly shorter, none of an empty slice.\<close>

function chunks :: "nat \<Rightarrow> 'a list \<Rightarrow> 'a list list" where
  "chunks n xs = (if n = 0 \<or> xs = [] then [] else take n xs # chunks n (drop n xs))"
  by auto
termination by (relation "measure (\<lambda>(n, xs). length xs)") auto

declare chunks.simps [simp del]

fun send_chunks :: "uuid \<Rightarrow> bytes list \<Rightarrow> reliable_mesh_stream \<Rightarrow> reliable_mesh_stream \<times> (unit, reliable_stream_error) result" where
  "send_chunks community_id [] st = (st, Inr ())"
| "send_chunks community_id (chunk # rest) st =
     (case stream_send (Data (rs_fenced st) (wire_encode (WireData community_id chunk))) (rs_stream st) of
        Inl e \<Rightarrow> (st, Inl (MeshErr e))
      | Inr stream \<Rightarrow> send_chunks community_id rest (st\<lparr>rs_stream := stream\<rparr>))"

definition send_bytes :: "uuid \<Rightarrow> bytes \<Rightarrow> reliable_mesh_stream \<Rightarrow> reliable_mesh_stream \<times> (unit, reliable_stream_error) result" where
  "send_bytes community_id bytes st =
     (case ensure_outbound_community community_id st of
        Inl e \<Rightarrow> (st, Inl e)
      | Inr st' \<Rightarrow> send_chunks community_id (chunks MAX_RELIABLE_PAYLOAD_BYTES bytes) st')"

definition finish :: "reliable_mesh_stream \<Rightarrow> reliable_mesh_stream" where
  "finish st = st\<lparr>rs_stream := (rs_stream st)\<lparr>ms_finished := True\<rparr>\<rparr>"

definition send_goodbye ::
    "uuid \<Rightarrow> goodbye_reason \<Rightarrow> reliable_mesh_stream \<Rightarrow> reliable_mesh_stream \<times> (unit, reliable_stream_error) result" where
  "send_goodbye community_id reason st =
     (case ensure_outbound_community community_id st of
        Inl e \<Rightarrow> (st, Inl e)
      | Inr st' \<Rightarrow>
         (case stream_send (Data (rs_fenced st') (wire_encode (WireGoodbye community_id reason))) (rs_stream st') of
            Inl e \<Rightarrow> (st', Inl (MeshErr e))
          | Inr stream \<Rightarrow> (finish (st'\<lparr>rs_stream := stream\<rparr>), Inr ())))"

definition validate_frame_fence ::
    "'r dir_env \<Rightarrow> net \<Rightarrow> uuid \<Rightarrow> fenced_header \<Rightarrow> 'r \<Rightarrow> reliable_mesh_stream \<Rightarrow> (reliable_mesh_stream, reliable_stream_error) result" where
  "validate_frame_fence E net community_id fenced r st =
     (if fenced \<noteq> rs_fenced st then Inl (FrameFenceMismatch (rs_fenced st) fenced)
      else case rs_community_id st of
        Some expected \<Rightarrow>
          if expected \<noteq> community_id then Inl (CommunityMismatch expected community_id)
          else and_then (from_mesh (validate_fenced_header E net community_id fenced r)) (\<lambda>_. Inr st)
      | None \<Rightarrow>
          and_then (from_mesh (validate_fenced_header E net community_id fenced r)) (\<lambda>_.
            Inr (st\<lparr>rs_community_id := Some community_id\<rparr>)))"

definition recv_validated ::
    "'r dir_env \<Rightarrow> net \<Rightarrow> 'r \<Rightarrow> reliable_mesh_stream \<Rightarrow> reliable_mesh_stream \<times> (reliable_frame option, reliable_stream_error) result" where
  "recv_validated E net r st =
     (let (stream, got) = stream_recv (rs_stream st); st' = st\<lparr>rs_stream := stream\<rparr> in
      case got of
        Inl e \<Rightarrow> (st', Inl (MeshErr e))
      | Inr None \<Rightarrow> (st', Inr None)
      | Inr (Some (Data fenced payload)) \<Rightarrow>
         (case wire_decode payload of
            Inl e \<Rightarrow> (st', Inl e)
          | Inr frame \<Rightarrow>
             (case validate_frame_fence E net (wf_community frame) fenced r st' of
                Inl e \<Rightarrow> (st', Inl e)
              | Inr st'' \<Rightarrow>
                  (st'', Inr (Some (case frame of WireData _ payload \<Rightarrow> DataFrame payload | WireGoodbye _ reason \<Rightarrow> GoodbyeFrame reason)))))
      | Inr (Some (Goodbye _ _)) \<Rightarrow> (st', Inl (UnexpectedFrame ''goodbye''))
      | Inr (Some (Hello _)) \<Rightarrow> (st', Inl (UnexpectedFrame ''hello''))
      | Inr (Some (Gossip _)) \<Rightarrow> (st', Inl (UnexpectedFrame ''gossip'')))"

subsection \<open>Joining and accepting\<close>

datatype reliable_join =
    Owned session_lease
  | Forwarded session_lease reliable_mesh_stream

text \<open>\<open>open_session_stream\<close> is the transport's: it sends the hello to the runtime, or fails.\<close>

definition join ::
    "'r dir_env \<Rightarrow> net \<Rightarrow> nat \<Rightarrow> (runtime_id \<Rightarrow> stream_hello \<Rightarrow> (mesh_stream, mesh_error) result) \<Rightarrow> runtime_id \<Rightarrow>
      uuid \<Rightarrow> uuid \<Rightarrow> 'r \<Rightarrow> 'r \<times> (reliable_join, reliable_stream_error) result" where
  "join E net ttl open_session_stream local_runtime_id community_id session_id r =
     (let (r', acquired) = acquire E net ttl community_id session_id local_runtime_id ReliableStream r in
      (r', case acquired of
         Inl e \<Rightarrow> Inl (DirectoryErr e)
       | Inr (Acquired lease) \<Rightarrow> Inr (Owned lease)
       | Inr (Exists lease) \<Rightarrow>
           if sl_profile lease \<noteq> ReliableStream
           then Inl (ProfileMismatch session_id ReliableStream (sl_profile lease))
           else if sl_owner_runtime_id lease = local_runtime_id then Inr (Owned lease)
           else let fenced = fenced_header_of lease;
                    hello = \<lparr>sh_sender = local_runtime_id, sh_role = SessionRole fenced ReliableStream\<rparr> in
             (case open_session_stream (sl_owner_runtime_id lease) hello of
                Inl e \<Rightarrow> Inl (MeshErr e)
              | Inr stream \<Rightarrow> Inr (Forwarded lease (new_stream fenced stream)))))"

record reliable_inbound =
  ri_fenced :: fenced_header
  ri_from :: runtime_id
  ri_stream :: reliable_mesh_stream

definition accept_inbound ::
    "runtime_id \<Rightarrow> runtime_id \<Rightarrow> stream_hello \<Rightarrow> mesh_stream \<Rightarrow> (reliable_inbound, reliable_stream_error) result" where
  "accept_inbound local_runtime_id from hello stream =
     (if sh_sender hello \<noteq> from then Inl (SenderMismatch from (sh_sender hello))
      else case sh_role hello of
        Control \<Rightarrow> Inl UnexpectedStreamRole
      | SessionRole fenced profile \<Rightarrow>
          if profile \<noteq> ReliableStream
          then Inl (ProfileMismatch (fh_session_id fenced) ReliableStream profile)
          else if fh_owner_runtime_id fenced \<noteq> local_runtime_id
          then Inl (OwnerIsNotLocal (fh_session_id fenced) (fh_owner_runtime_id fenced) local_runtime_id)
          else Inr \<lparr>ri_fenced = fenced, ri_from = from, ri_stream = new_stream fenced stream\<rparr>)"

subsection \<open>Renewing a lease in the background\<close>

text \<open>What the renewer's select waits for: the caller cancels, or the interval ticks.\<close>

datatype renewer_event = Cancelled | Tick net

text \<open>
  The loop of \<open>spawn_lease_renewer_with_interval\<close>: the store, whether the caller cancelled it, and
  the events it did not consume; \<open>None\<close> while it is still waiting. Between two events the server
  goes on, so the store at each event is part of the input.
\<close>

fun renewer_loop :: "'r dir_env \<Rightarrow> nat \<Rightarrow> session_lease \<Rightarrow> (renewer_event \<times> 'r) list \<Rightarrow> bool option" where
  "renewer_loop E ttl lease [] = None"
| "renewer_loop E ttl lease ((Cancelled, r) # rest) = Some True"
| "renewer_loop E ttl lease ((Tick net, r) # rest) =
     (case snd (renew E net ttl lease r) of
        Inr (Renewed _) \<Rightarrow> renewer_loop E ttl lease rest
      | Inr (Lost _ _) \<Rightarrow> Some False
      | Inl _ \<Rightarrow> Some False)"

text \<open>
  The whole task: the loop, then the release on the store it finds then; the result is the store
  after the release and whether the loss signal was cancelled.
\<close>

definition lease_renewer ::
    "'r dir_env \<Rightarrow> nat \<Rightarrow> session_lease \<Rightarrow> (renewer_event \<times> 'r) list \<Rightarrow> net \<Rightarrow> 'r \<Rightarrow> ('r \<times> bool) option" where
  "lease_renewer E ttl lease events net r =
     (case renewer_loop E ttl lease events of
        None \<Rightarrow> None
      | Some caller_cancelled \<Rightarrow>
         (let lost = \<not> caller_cancelled; (r', released) = release E net lease r in
          Some (r', case released of
              Inr (Released _) \<Rightarrow> lost
            | Inr (NotOwner _ _) \<Rightarrow> True
            | Inl _ \<Rightarrow> if \<not> caller_cancelled then True else lost)))"

subsection \<open>Frames and chunks\<close>

lemma le_value_bound: "le_value b < 256 ^ length b"
proof (induction b)
  case (Cons x b)
  have "unat x < 256" using unsigned_less [of x] by simp
  with Cons show ?case by simp
qed simp

lemma le_digits_le_value: "le_digits (length b) (le_value b) = b"
proof (induction b)
  case (Cons x b)
  have x: "unat x < 256" using unsigned_less [of x] by simp
  have "word_of_nat (unat x + 256 * le_value b) = (x :: 8 word)"
  proof -
    have "word_of_nat (unat x + 256 * le_value b) = x + 256 * (word_of_nat (le_value b) :: 8 word)" by simp
    moreover have "(256 :: 8 word) = 0" by simp
    ultimately show ?thesis by (metis add.right_neutral mult_zero_left)
  qed
  then show ?case using Cons x by simp
qed simp

lemma uuid_round_trip: "uuid_from_bytes (uuid_bytes u) = u"
proof -
  have "unat u < 256 ^ 16" using unsigned_less [of u] by simp
  then show ?thesis by (simp add: uuid_from_bytes_def uuid_bytes_def le_value_le_digits)
qed

lemma uuid_bytes_round_trip:
  assumes "length b = 16"
  shows "uuid_bytes (uuid_from_bytes b) = b"
proof -
  have "le_value (rev b) < 2 ^ 128" using le_value_bound [of "rev b"] assms by simp
  then have "unat (uuid_from_bytes b) = le_value (rev b)"
    by (simp add: uuid_from_bytes_def unat_of_nat)
  then show ?thesis using le_digits_le_value [of "rev b"] assms by (simp add: uuid_bytes_def)
qed

lemma length_uuid_bytes [simp]: "length (uuid_bytes u) = 16"
  by (simp add: uuid_bytes_def)

lemma wire_byte_round_trip: "from_wire_byte b = Inr x \<longleftrightarrow> b = to_wire_byte x"
  by (cases x) (auto simp: from_wire_byte_def)

lemma wire_encode_decoded: "wire_decode (wire_encode f) = Inr f"
  by (cases f) (auto simp: wire_decode_def uuid_round_trip wire_byte_round_trip and_then_eq_Inr nth_append Let_def nth_Cons')

lemma wire_decode_encoded:
  assumes d: "wire_decode b = Inr f'"
  shows "wire_encode f' = b"
proof -
  from d have len: "18 \<le> length b" and b0: "b ! 0 = 1" by (auto simp: wire_decode_def split: if_splits)
  then obtain x y t where b: "b = x # y # t" "16 \<le> length t" "x = 1"
    by (cases b; cases "tl b") auto
  have u: "uuid_bytes (uuid_from_bytes (take 16 t)) = take 16 t" using b(2) by (intro uuid_bytes_round_trip) simp
  show "wire_encode f' = b"
  proof (cases "y = 1")
    case True
    then show ?thesis using d b u by (auto simp: wire_decode_def Let_def)
  next
    case False
    then have y: "y = 2" and t: "length t = 17" and r: "\<exists>reason. t ! 16 = to_wire_byte reason \<and> f' = WireGoodbye (uuid_from_bytes (take 16 t)) reason"
      using d b by (auto simp: wire_decode_def Let_def and_then_eq_Inr wire_byte_round_trip split: if_splits)
    have "t = take 16 t @ [t ! 16]" using t by (metis take_Suc_conv_app_nth lessI take_all order_refl numeral_eq_Suc pred_numeral_simps(3) BitM.simps)
    then show ?thesis using r u b(1,3) y by auto
  qed
qed

text \<open>
  The frames inside a reliable stream have one encoding each: decoding inverts encoding, and
  bytes that decode to a frame are the encoding of that frame, so no two byte strings mean the same.
\<close>

theorem wire_frames_bijective:
  "wire_decode (wire_encode f) = Inr f \<and> (wire_decode b = Inr f' \<longrightarrow> wire_encode f' = b)"
  using wire_encode_decoded wire_decode_encoded by blast

lemma concat_chunks: "0 < n \<Longrightarrow> concat (chunks n xs) = xs"
proof (induction n xs rule: chunks.induct)
  case (1 n xs)
  then show ?case by (simp add: chunks.simps [of n xs])
qed

lemma chunk_length: "p \<in> set (chunks n xs) \<Longrightarrow> p \<noteq> [] \<and> length p \<le> n"
proof (induction n xs rule: chunks.induct)
  case (1 n xs)
  then show ?case by (subst (asm) (2) chunks.simps) (auto split: if_splits)
qed

subsection \<open>One fence at a time\<close>

text \<open>
  What a stream relies on of the directory: at one moment at most one fence of a session is
  accepted. Every stream that can deliver then is pinned to that fence.
\<close>

locale session_fence =
  fixes accepts :: "'s \<Rightarrow> uuid \<Rightarrow> fenced_header \<Rightarrow> bool"
  assumes one_fence: "accepts s c f \<Longrightarrow> accepts s c f' \<Longrightarrow> fh_session_id f = fh_session_id f' \<Longrightarrow> f = f'"
begin

lemma accepted_streams_agree:
  assumes "\<And>i. i \<in> I \<Longrightarrow> accepts s c (fence i)" and "\<And>i. i \<in> I \<Longrightarrow> fh_session_id (fence i) = sid"
  shows "i \<in> I \<Longrightarrow> j \<in> I \<Longrightarrow> fence i = fence j"
  using assms one_fence by metis

end

lemma checked_fence_unique:
  assumes "check_fence cur n f = Inr ()" and "check_fence cur n f' = Inr ()" and "fh_session_id f = fh_session_id f'"
  shows "f = f'"
proof (cases cur)
  case None
  with assms(1) show ?thesis by (simp add: check_fence_def Let_def split: if_splits)
next
  case (Some l)
  with assms show ?thesis
    by (cases f; cases f') (simp add: check_fence_def Let_def split: if_splits)
qed

lemma validate_checks:
  assumes "validate_fenced_header E net c f r = Inr ()"
  shows "\<exists>cur n. check_fence cur n f = Inr () \<and>
    (\<forall>f'. fh_session_id f' = fh_session_id f \<longrightarrow> validate_fenced_header E net c f' r = check_fence cur n f')"
  using assms
  by (cases net; cases "validate_script E (lease_key E c (fh_session_id f)) (generation_key E c (fh_session_id f)) r")
     (auto simp: validate_fenced_header_def invoke_def Let_def and_then_eq_Inr, blast)

interpretation directory: session_fence "\<lambda>r c f. validate_fenced_header E net c f r = Inr ()"
proof
  fix r c f f'
  assume f: "validate_fenced_header E net c f r = Inr ()" "validate_fenced_header E net c f' r = Inr ()"
      "fh_session_id f = fh_session_id f'"
  then show "f = f'" using validate_checks [OF f(1)] checked_fence_unique by metis
qed

subsection \<open>What a stream delivers\<close>

lemma validate_frame_fence_ok:
  "validate_frame_fence E net c f r st = Inr st' \<longleftrightarrow>
     f = rs_fenced st \<and> rs_community_id st \<in> {None, Some c} \<and> validate_fenced_header E net c f r = Inr () \<and>
     st' = st\<lparr>rs_community_id := Some c\<rparr>"
proof (cases "validate_fenced_header E net c f r")
  case (Inr u)
  then show ?thesis by (cases st) (auto simp: validate_frame_fence_def split: option.splits)
qed (auto simp: validate_frame_fence_def split: option.splits)

fun frame_of :: "reliable_wire_frame \<Rightarrow> reliable_frame" where
  "frame_of (WireData _ payload) = DataFrame payload"
| "frame_of (WireGoodbye _ reason) = GoodbyeFrame reason"

lemma recv_delivers:
  assumes "recv_validated E net r st = (st', Inr (Some d))"
  shows "\<exists>frame rest. ms_in (rs_stream st) = Inr (Data (rs_fenced st) (wire_encode frame)) # rest \<and> frame_of frame = d \<and>
    validate_fenced_header E net (wf_community frame) (rs_fenced st) r = Inr () \<and>
    rs_community_id st \<in> {None, Some (wf_community frame)} \<and>
    st' = st\<lparr>rs_stream := (rs_stream st)\<lparr>ms_in := rest\<rparr>, rs_community_id := Some (wf_community frame)\<rparr>"
proof -
  obtain stream got where g: "stream_recv (rs_stream st) = (stream, got)" by (cases "stream_recv (rs_stream st)")
  let ?st = "st\<lparr>rs_stream := stream\<rparr>"
  from assms g obtain f payload frame where f: "got = Inr (Some (Data f payload))" "wire_decode payload = Inr frame"
      "validate_frame_fence E net (wf_community frame) f r ?st = Inr st'" "d = frame_of frame"
    by (auto simp: recv_validated_def Let_def split: sum.splits option.splits mesh_stream_frame.splits reliable_wire_frame.splits)
  have "wire_encode frame = payload" using wire_decode_encoded f(2) by blast
  moreover obtain rest where "ms_in (rs_stream st) = Inr (Data f payload) # rest" "stream = (rs_stream st)\<lparr>ms_in := rest\<rparr>"
    using g f(1) by (auto simp: stream_recv_def split: list.splits sum.splits)
  ultimately show ?thesis using f(3,4) by (auto simp: validate_frame_fence_ok)
qed

text \<open>
  A receiver reading a stream while the world goes on: the store each read finds, and what the
  reads return; reading stops at the first error.
\<close>

fun recv_each ::
    "'r dir_env \<Rightarrow> (net \<times> 'r) list \<Rightarrow> reliable_mesh_stream \<Rightarrow> (reliable_frame option, reliable_stream_error) result list" where
  "recv_each E [] st = []"
| "recv_each E ((net, r) # rest) st =
     (case recv_validated E net r st of (st', res) \<Rightarrow> (case res of Inl e \<Rightarrow> [Inl e] | Inr d \<Rightarrow> Inr d # recv_each E rest st'))"

lemma length_concat_nonempty: "(\<And>p. p \<in> set ps \<Longrightarrow> p \<noteq> []) \<Longrightarrow> length ps \<le> length (concat ps)"
proof (induction ps)
  case (Cons p ps)
  then have "0 < length p" "length ps \<le> length (concat ps)" by auto
  then show ?case unfolding concat.simps length_append list.size by linarith
qed simp

lemma validate_delivered: "validate_fenced_header E net c f r = Inr () \<Longrightarrow> net = Delivered"
  by (cases net) (simp_all add: validate_fenced_header_def invoke_def)

text \<open>
  C10. Whatever frames arrive on a stream, a read delivers only the next frame, only when it carries
  the fence the stream is pinned to and the community latched by the first delivery, and only while
  the directory has a live lease with exactly that owner and generation. Two streams of one session
  that deliver at the same moment are pinned to the same owner and generation.
\<close>

theorem delivery_needs_live_lease:
  assumes "env_laws E" and "dir_run E r h" and "length h < 10 ^ 14"
    and "recv_validated E net r st = (st', Inr (Some d))"
  shows "(\<exists>frame rest l. ms_in (rs_stream st) = Inr (Data (rs_fenced st) (wire_encode frame)) # rest \<and> frame_of frame = d \<and>
      lookup E Delivered (wf_community frame) (fh_session_id (rs_fenced st)) r = Inr (Some l) \<and> fenced_header_of l = rs_fenced st \<and>
      rs_community_id st \<in> {None, Some (wf_community frame)} \<and>
      st' = st\<lparr>rs_stream := (rs_stream st)\<lparr>ms_in := rest\<rparr>, rs_community_id := Some (wf_community frame)\<rparr>) \<and>
    (\<forall>net2 st2 st2' d2. recv_validated E net2 r st2 = (st2', Inr (Some d2)) \<and> rs_community_id st2' = rs_community_id st' \<and>
      fh_session_id (rs_fenced st2) = fh_session_id (rs_fenced st) \<longrightarrow> rs_fenced st2 = rs_fenced st)"
proof -
  obtain S where S: "stores E r S" using run_simulated [OF assms(1-3)] by blast
  obtain frame rest where f: "ms_in (rs_stream st) = Inr (Data (rs_fenced st) (wire_encode frame)) # rest" "frame_of frame = d"
      "validate_fenced_header E net (wf_community frame) (rs_fenced st) r = Inr ()"
      "rs_community_id st \<in> {None, Some (wf_community frame)}"
      "st' = st\<lparr>rs_stream := (rs_stream st)\<lparr>ms_in := rest\<rparr>, rs_community_id := Some (wf_community frame)\<rparr>"
    using recv_delivers [OF assms(4)] by blast
  have net: "net = Delivered" by (rule validate_delivered [OF f(3)])
  have "\<exists>l. lease_of S (wf_community frame, fh_session_id (rs_fenced st)) = Some l \<and> fenced_header_of l = rs_fenced st"
    using f(3) unfolding net validate_exact [OF assms(1) S] accepted_fence_live .
  moreover have "rs_fenced st2 = rs_fenced st"
    if two: "recv_validated E net2 r st2 = (st2', Inr (Some d2))" "rs_community_id st2' = rs_community_id st'"
      "fh_session_id (rs_fenced st2) = fh_session_id (rs_fenced st)" for net2 st2 st2' d2
  proof -
    have "validate_fenced_header E net2 (wf_community frame) (rs_fenced st2) r = Inr ()"
      using recv_delivers [OF two(1)] two(2) f(5) by auto
    then show ?thesis
      using directory.one_fence [OF _ f(3) [unfolded net] two(3)] validate_delivered by metis
  qed
  ultimately show ?thesis
    using f lookup_exact(1) [OF assms(1) S] by metis
qed

text \<open>Sending: every chunk becomes one frame.\<close>

lemma send_chunks_ok:
  assumes "length cs \<le> ms_room (rs_stream st)"
  shows "send_chunks c cs st = (st\<lparr>rs_stream := (rs_stream st)
      \<lparr>ms_out := ms_out (rs_stream st) @ map (\<lambda>p. Data (rs_fenced st) (wire_encode (WireData c p))) cs,
       ms_room := ms_room (rs_stream st) - length cs\<rparr>\<rparr>, Inr ())"
  using assms by (induction cs arbitrary: st) (simp_all add: stream_send_def)

lemma recv_data:
  assumes "ms_in (rs_stream st) = Inr (Data (rs_fenced st) (wire_encode (WireData c p))) # rest"
    and "rs_community_id st \<in> {None, Some c}" and "validate_fenced_header E net c (rs_fenced st) r = Inr ()"
  shows "recv_validated E net r st =
    (st\<lparr>rs_stream := (rs_stream st)\<lparr>ms_in := rest\<rparr>, rs_community_id := Some c\<rparr>, Inr (Some (DataFrame p)))"
proof -
  let ?st = "st\<lparr>rs_stream := (rs_stream st)\<lparr>ms_in := rest\<rparr>\<rparr>"
  have "validate_frame_fence E net c (rs_fenced st) r ?st = Inr (?st\<lparr>rs_community_id := Some c\<rparr>)"
    using assms(2,3) by (simp add: validate_frame_fence_ok)
  then show ?thesis
    using assms(1) by (simp add: recv_validated_def stream_recv_def wire_encode_decoded Let_def del: wire_encode.simps)
qed

lemma recv_each_data:
  assumes "ms_in (rs_stream st) = map (\<lambda>p. Inr (Data (rs_fenced st) (wire_encode (WireData c p)))) ps"
    and "rs_community_id st \<in> {None, Some c}" and "length rs = length ps"
    and "\<And>net r. (net, r) \<in> set rs \<Longrightarrow> validate_fenced_header E net c (rs_fenced st) r = Inr ()"
  shows "recv_each E rs st = map (\<lambda>p. Inr (Some (DataFrame p))) ps"
  using assms
proof (induction ps arbitrary: rs st)
  case (Cons p ps)
  then obtain net r rs' where rs: "rs = (net, r) # rs'" by (cases rs) auto
  have "recv_validated E net r st = (st\<lparr>rs_stream := (rs_stream st)
      \<lparr>ms_in := map (\<lambda>p. Inr (Data (rs_fenced st) (wire_encode (WireData c p)))) ps\<rparr>, rs_community_id := Some c\<rparr>, Inr (Some (DataFrame p)))"
    using Cons.prems rs by (intro recv_data) auto
  then show ?case
    using Cons.IH [of "st\<lparr>rs_stream := (rs_stream st)
      \<lparr>ms_in := map (\<lambda>p. Inr (Data (rs_fenced st) (wire_encode (WireData c p)))) ps\<rparr>, rs_community_id := Some c\<rparr>" rs'] Cons.prems rs
    by simp
qed simp

text \<open>The hello with which a runtime joins a session that another one owns.\<close>

abbreviation join_hello :: "runtime_id \<Rightarrow> session_lease \<Rightarrow> stream_hello" where
  "join_hello local lease \<equiv> \<lparr>sh_sender = local, sh_role = SessionRole (fenced_header_of lease) ReliableStream\<rparr>"

lemma join_forwards:
  assumes "env_laws E" and "stores E r S" and "length local = 32" and "st_generation (S (c, s)) + 1 < 10 ^ 14"
    and "0 < ttl" and "ttl < 2 ^ 63"
    and "lease_of S (c, s) = Some lease" and "sl_profile lease = ReliableStream" and "sl_owner_runtime_id lease \<noteq> local"
  shows "snd (join E Delivered ttl T local c s r) = (case T (sl_owner_runtime_id lease) (join_hello local lease) of
      Inl e \<Rightarrow> Inl (MeshErr e) | Inr stream \<Rightarrow> Inr (Forwarded lease (new_stream (fenced_header_of lease) stream)))"
proof -
  obtain r1 res where a: "acquire E Delivered ttl c s local ReliableStream r = (r1, res)"
    by (cases "acquire E Delivered ttl c s local ReliableStream r")
  have "res = Inr (Exists lease)" using acquire_exact [OF assms(1-6) a] assms(7) by simp
  then show ?thesis using a assms(8,9) by (simp add: join_def Let_def)
qed

lemma reliable_pieces:
  "concat (chunks MAX_RELIABLE_PAYLOAD_BYTES bytes) = bytes"
  "\<forall>p\<in>set (chunks MAX_RELIABLE_PAYLOAD_BYTES bytes). length p \<le> 1048576"
  "length (chunks MAX_RELIABLE_PAYLOAD_BYTES bytes) \<le> length bytes"
proof -
  have max: "0 < MAX_RELIABLE_PAYLOAD_BYTES" by (simp add: MAX_RELIABLE_PAYLOAD_BYTES_def)
  note c = chunk_length [of _ MAX_RELIABLE_PAYLOAD_BYTES bytes]
  show all: "concat (chunks MAX_RELIABLE_PAYLOAD_BYTES bytes) = bytes" by (rule concat_chunks [OF max])
  show "\<forall>p\<in>set (chunks MAX_RELIABLE_PAYLOAD_BYTES bytes). length p \<le> 1048576"
    using c by (auto simp: MAX_RELIABLE_PAYLOAD_BYTES_def)
  have "length (chunks MAX_RELIABLE_PAYLOAD_BYTES bytes) \<le> length (concat (chunks MAX_RELIABLE_PAYLOAD_BYTES bytes))"
    using c by (intro length_concat_nonempty) blast
  then show "length (chunks MAX_RELIABLE_PAYLOAD_BYTES bytes) \<le> length bytes" unfolding all .
qed

lemma forwarded_send:
  assumes "length bytes \<le> ms_room stream" and "ms_out stream = []"
  shows "\<exists>st'. send_bytes c bytes (new_stream f stream) = (st', Inr ()) \<and>
    ms_out (rs_stream st') = map (\<lambda>p. Data f (wire_encode (WireData c p))) (chunks MAX_RELIABLE_PAYLOAD_BYTES bytes)"
  using assms reliable_pieces(3) [of bytes] by (simp add: send_bytes_def ensure_outbound_community_def new_stream_def send_chunks_ok)

text \<open>What the owner makes of the frames of such a stream.\<close>

lemma forwarded_received:
  assumes "env_laws E" and "lease_of S (c, s) = Some lease"
    and frames: "out = map (\<lambda>p. Data (fenced_header_of lease) (wire_encode (WireData c p))) (chunks MAX_RELIABLE_PAYLOAD_BYTES bytes)"
    and "length rs = length out" and live: "\<forall>r'\<in>set rs. \<exists>S'. stores E r' S' \<and> lease_of S' (c, s) = Some lease"
  shows "\<exists>inbound pieces.
      accept_inbound (sl_owner_runtime_id lease) local (join_hello local lease) (stream\<lparr>ms_in := map Inr out\<rparr>) = Inr inbound \<and>
      ri_fenced inbound = fenced_header_of lease \<and> ri_from inbound = local \<and>
      recv_each E (map (\<lambda>r'. (Delivered, r')) rs) (ri_stream inbound) = map (\<lambda>p. Inr (Some (DataFrame p))) pieces \<and>
      concat pieces = bytes \<and> (\<forall>p\<in>set pieces. length p \<le> 1048576)"
proof -
  let ?f = "fenced_header_of lease" and ?cs = "chunks MAX_RELIABLE_PAYLOAD_BYTES bytes"
  let ?st = "new_stream ?f (stream\<lparr>ms_in := map Inr out\<rparr>)"
  have ids: "fh_session_id ?f = s" "fh_owner_runtime_id ?f = sl_owner_runtime_id lease"
    using assms(2) by (auto simp: fenced_header_of_def lease_of_def)
  have received: "recv_each E (map (\<lambda>r'. (Delivered, r')) rs) ?st = map (\<lambda>p. Inr (Some (DataFrame p))) ?cs"
  proof (rule recv_each_data)
    show "validate_fenced_header E net c (rs_fenced ?st) r' = Inr ()" if "(net, r') \<in> set (map (\<lambda>r'. (Delivered, r')) rs)" for net r'
    proof -
      from that obtain S' where "net = Delivered" "stores E r' S'" "lease_of S' (c, s) = Some lease" using live by auto
      then show ?thesis
        using validate_exact [OF assms(1), of r' S' c ?f] accepted_fence_live [of S' c ?f] ids by (simp add: new_stream_def)
    qed
  qed (use assms(4) in \<open>simp_all add: frames new_stream_def\<close>)
  have "accept_inbound (sl_owner_runtime_id lease) local (join_hello local lease) (stream\<lparr>ms_in := map Inr out\<rparr>) =
      Inr \<lparr>ri_fenced = ?f, ri_from = local, ri_stream = ?st\<rparr>"
    using ids by (simp add: accept_inbound_def)
  then show ?thesis using received reliable_pieces [of bytes]
    by (intro exI [of _ "\<lparr>ri_fenced = ?f, ri_from = local, ri_stream = ?st\<rparr>"] exI [of _ ?cs])
      (simp only: reliable_inbound.select_convs simp_thms)
qed

text \<open>
  C35. End to end. A client that joins a reliable session on a runtime that is not its owner opens
  exactly one kind of stream: whatever the transport does elsewhere, the join succeeds as soon as the
  transport connects to the lease's owner with the hello that the join composes, it fails with the
  transport's error when that connection fails, and the owner accepts that very hello as coming from the
  joining runtime, under the lease's fence. The bytes the client sends on the stream arrive at the owner
  complete and in order, in pieces of at most one mebibyte, as long as the lease stays live while they are read.
\<close>

theorem forwarded_bytes_arrive:
  assumes "env_laws E" and "stores E r S" and "length local = 32" and "st_generation (S (c, s)) + 1 < 10 ^ 14"
    and "0 < ttl" and "ttl < 2 ^ 63"
    and "lease_of S (c, s) = Some lease" and "sl_profile lease = ReliableStream" and "sl_owner_runtime_id lease \<noteq> local"
  shows "\<exists>hello.
    (\<forall>T e. T (sl_owner_runtime_id lease) hello = Inl e \<longrightarrow> snd (join E Delivered ttl T local c s r) = Inl (MeshErr e)) \<and>
    (\<forall>T stream. T (sl_owner_runtime_id lease) hello = Inr stream \<and> length bytes \<le> ms_room stream \<and> ms_out stream = [] \<longrightarrow>
      (\<exists>st st'. snd (join E Delivered ttl T local c s r) = Inr (Forwarded lease st) \<and>
        send_bytes c bytes st = (st', Inr ()) \<and>
        (\<forall>stores_read. length stores_read = length (ms_out (rs_stream st')) \<and>
            (\<forall>r'\<in>set stores_read. \<exists>S'. stores E r' S' \<and> lease_of S' (c, s) = Some lease) \<longrightarrow>
          (\<exists>inbound pieces.
            accept_inbound (sl_owner_runtime_id lease) local hello (stream\<lparr>ms_in := map Inr (ms_out (rs_stream st'))\<rparr>) = Inr inbound \<and>
            ri_fenced inbound = fenced_header_of lease \<and> ri_from inbound = local \<and>
            recv_each E (map (\<lambda>r'. (Delivered, r')) stores_read) (ri_stream inbound) = map (\<lambda>p. Inr (Some (DataFrame p))) pieces \<and>
            concat pieces = bytes \<and> (\<forall>p\<in>set pieces. length p \<le> 1048576)))))"
proof (rule exI [of _ "join_hello local lease"], intro conjI allI impI)
  note joined = join_forwards [OF assms]
  let ?f = "fenced_header_of lease" and ?hello = "join_hello local lease"
  fix T :: "runtime_id \<Rightarrow> stream_hello \<Rightarrow> (mesh_stream, mesh_error) result" and stream
  show "snd (join E Delivered ttl T local c s r) = Inl (MeshErr e)" if "T (sl_owner_runtime_id lease) ?hello = Inl e" for e
    using that by (simp add: joined)
  assume T: "T (sl_owner_runtime_id lease) ?hello = Inr stream \<and> length bytes \<le> ms_room stream \<and> ms_out stream = []"
  then obtain st' where st': "send_bytes c bytes (new_stream ?f stream) = (st', Inr ())"
      "ms_out (rs_stream st') = map (\<lambda>p. Data ?f (wire_encode (WireData c p))) (chunks MAX_RELIABLE_PAYLOAD_BYTES bytes)"
    using forwarded_send by blast
  show "\<exists>st st'. snd (join E Delivered ttl T local c s r) = Inr (Forwarded lease st) \<and>
      send_bytes c bytes st = (st', Inr ()) \<and>
      (\<forall>stores_read. length stores_read = length (ms_out (rs_stream st')) \<and>
          (\<forall>r'\<in>set stores_read. \<exists>S'. stores E r' S' \<and> lease_of S' (c, s) = Some lease) \<longrightarrow>
        (\<exists>inbound pieces.
          accept_inbound (sl_owner_runtime_id lease) local ?hello (stream\<lparr>ms_in := map Inr (ms_out (rs_stream st'))\<rparr>) = Inr inbound \<and>
          ri_fenced inbound = ?f \<and> ri_from inbound = local \<and>
          recv_each E (map (\<lambda>r'. (Delivered, r')) stores_read) (ri_stream inbound) = map (\<lambda>p. Inr (Some (DataFrame p))) pieces \<and>
          concat pieces = bytes \<and> (\<forall>p\<in>set pieces. length p \<le> 1048576)))"
    unfolding joined using T st'(1) forwarded_received [OF assms(1,7) st'(2)]
    by (intro exI [of _ "new_stream ?f stream"] exI [of _ st']) simp
qed

subsection \<open>The renewer\<close>

text \<open>
  When the background renewer of a lease ends, it has given the lease up if it still held it,
  and its loss signal is set exactly when a renewal failed or the final release found that the
  lease was no longer held. The latter also happens after the caller cancelled it, although
  cancelling is documented not to trip the signal.
\<close>

theorem renewer_loss_exact:
  assumes "env_laws E" and "stores E r S" and "renewer_loop E ttl lease events = Some cancelled"
  shows "\<exists>r'. lease_renewer E ttl lease events Delivered r = Some (r', \<not> cancelled \<or> \<not> holds S lease) \<and>
    stores E r' (if holds S lease
      then S((sl_community_id lease, sl_session_id lease) := (S (sl_community_id lease, sl_session_id lease))\<lparr>st_lease := None\<rparr>)
      else S)"
proof -
  obtain r' res where r': "release E Delivered lease r = (r', res)" by (cases "release E Delivered lease r")
  note ex = release_exact [OF assms(1,2) r']
  have "res = Inr (if holds S lease then Released (the (lease_of S (sl_community_id lease, sl_session_id lease)))
      else NotOwner (lease_of S (sl_community_id lease, sl_session_id lease)) (counter_of S (sl_community_id lease, sl_session_id lease)))"
    using ex(2) by simp
  then show ?thesis using ex(1) r' assms(3) by (simp add: lease_renewer_def)
qed

subsection \<open>Runs on the demonstration store\<close>

lemma demo_held_store: "\<exists>r h. dir_run demo_env r h \<and> length h = 3 \<and> stores demo_env r (demo_held 8 2)"
  by (rule demo_history) force

theorem wire_frames_bijective_witness:
  "wire_decode (wire_encode (WireData 7 [1, 2])) = Inr (WireData 7 [1, 2]) \<and>
   wire_encode (WireGoodbye 7 Draining) = 1 # 2 # uuid_bytes 7 @ [2]"
proof -
  have "wire_decode (1 # 2 # uuid_bytes 7 @ [2]) = Inr (WireGoodbye 7 Draining)"
    using wire_encode_decoded [of "WireGoodbye 7 Draining"] by simp
  then show ?thesis
    using wire_frames_bijective [of "WireData 7 [1, 2]" "1 # 2 # uuid_bytes 7 @ [2]" "WireGoodbye 7 Draining"] by blast
qed

definition demo_stream :: mesh_stream where
  "demo_stream = \<lparr>ms_in = [Inr (Data (fenced_header_of (demo_lease 8 2)) (wire_encode (WireData 1 [5])))], ms_out = [],
     ms_room = 9, ms_finished = False\<rparr>"

theorem delivery_needs_live_lease_witness:
  "\<exists>r l. lookup demo_env Delivered 1 2 r = Inr (Some l) \<and> fenced_header_of l = fenced_header_of (demo_lease 8 2) \<and>
     snd (recv_validated demo_env Delivered r (new_stream (fenced_header_of (demo_lease 8 2)) demo_stream)) = Inr (Some (DataFrame [5]))"
proof -
  let ?f = "fenced_header_of (demo_lease 8 2)" and ?st = "new_stream (fenced_header_of (demo_lease 8 2)) demo_stream"
  obtain r h where r: "dir_run demo_env r h" "length h < 10 ^ 14" "stores demo_env r (demo_held 8 2)"
    using demo_held_store by force
  have sid: "fh_session_id ?f = 2" by (simp add: fenced_header_of_def demo_lease_def)
  have "validate_fenced_header demo_env Delivered 1 ?f r = Inr ()"
    using validate_exact [OF demo_laws r(3), of 1 ?f] accepted_fence_live [of "demo_held 8 2" 1 ?f] demo_lease_of(2) sid by simp
  then obtain st' where recv: "recv_validated demo_env Delivered r ?st = (st', Inr (Some (DataFrame [5])))"
    using recv_data [of ?st 1 "[5]" "[]" demo_env Delivered r] by (simp add: new_stream_def demo_stream_def)
  obtain frame l where "lookup demo_env Delivered (wf_community frame) (fh_session_id (rs_fenced ?st)) r = Inr (Some l)"
      "fenced_header_of l = rs_fenced ?st" "ms_in (rs_stream ?st) = [Inr (Data (rs_fenced ?st) (wire_encode frame))]"
    using delivery_needs_live_lease [OF demo_laws r(1,2) recv] by (auto simp: new_stream_def demo_stream_def)
  moreover have "frame = WireData 1 [5]"
    using calculation(3) wire_encode_decoded [of frame] wire_encode_decoded [of "WireData 1 [5]"]
    by (simp add: new_stream_def demo_stream_def del: wire_encode.simps)
  ultimately show ?thesis using recv sid by (intro exI [of _ r] exI [of _ l]) (simp add: new_stream_def)
qed

text \<open>A transport that connects only to the owner of the demonstration lease.\<close>

definition demo_transport :: "runtime_id \<Rightarrow> stream_hello \<Rightarrow> (mesh_stream, mesh_error) result" where
  "demo_transport to hello = (if to = demo_owner 8 then Inr demo_stream else Inl (PeerNotConnected to))"

theorem forwarded_bytes_arrive_witness:
  "\<exists>r st st' hello inbound pieces.
     snd (join demo_env Delivered 30000 demo_transport (demo_owner 7) 1 2 r) = Inr (Forwarded (demo_lease 8 2) st) \<and>
     send_bytes 1 [1, 2, 3] st = (st', Inr ()) \<and>
     accept_inbound (demo_owner 8) (demo_owner 7) hello (demo_stream\<lparr>ms_in := map Inr (ms_out (rs_stream st'))\<rparr>) = Inr inbound \<and>
     recv_each demo_env (map (\<lambda>m. (Delivered, r)) (ms_out (rs_stream st'))) (ri_stream inbound) = map (\<lambda>p. Inr (Some (DataFrame p))) pieces \<and>
     concat pieces = [1, 2, 3]"
proof -
  obtain r where r: "stores demo_env r (demo_held 8 2)" using demo_held_store by blast
  have *: "length (demo_owner 7) = 32" "st_generation (demo_held 8 2 (1, 2)) + 1 < 10 ^ 14" "0 < (30000 :: nat)" "(30000 :: nat) < 2 ^ 63"
      "sl_profile (demo_lease 8 2) = ReliableStream" "sl_owner_runtime_id (demo_lease 8 2) \<noteq> demo_owner 7"
    and **: "length [1, 2, 3 :: 8 word] \<le> ms_room demo_stream" "ms_out demo_stream = []"
      "sl_owner_runtime_id (demo_lease 8 2) = demo_owner 8"
    by (simp_all add: demo_owner_def demo_held_def demo_lease_def demo_stream_def)
  have T: "demo_transport (demo_owner 8) hello = Inr demo_stream" for hello by (simp add: demo_transport_def)
  obtain hello where hello: "\<forall>T stream. T (demo_owner 8) hello = Inr stream \<and> length [1, 2, 3 :: 8 word] \<le> ms_room stream \<and> ms_out stream = [] \<longrightarrow>
      (\<exists>st st'. snd (join demo_env Delivered 30000 T (demo_owner 7) 1 2 r) = Inr (Forwarded (demo_lease 8 2) st) \<and>
        send_bytes 1 [1, 2, 3] st = (st', Inr ()) \<and>
        (\<forall>stores_read. length stores_read = length (ms_out (rs_stream st')) \<and>
            (\<forall>r'\<in>set stores_read. \<exists>S'. stores demo_env r' S' \<and> lease_of S' (1, 2) = Some (demo_lease 8 2)) \<longrightarrow>
          (\<exists>inbound pieces.
            accept_inbound (demo_owner 8) (demo_owner 7) hello (stream\<lparr>ms_in := map Inr (ms_out (rs_stream st'))\<rparr>) = Inr inbound \<and>
            ri_fenced inbound = fenced_header_of (demo_lease 8 2) \<and> ri_from inbound = demo_owner 7 \<and>
            recv_each demo_env (map (\<lambda>r'. (Delivered, r')) stores_read) (ri_stream inbound) = map (\<lambda>p. Inr (Some (DataFrame p))) pieces \<and>
            concat pieces = [1, 2, 3] \<and> (\<forall>p\<in>set pieces. length p \<le> 1048576))))"
    using forwarded_bytes_arrive [OF demo_laws r *(1-4) demo_lease_of(2) *(5-6), of "[1, 2, 3]"] unfolding **(3)
    by (elim exE conjE) (rule that)
  obtain st st' where st: "snd (join demo_env Delivered 30000 demo_transport (demo_owner 7) 1 2 r) = Inr (Forwarded (demo_lease 8 2) st)"
      "send_bytes 1 [1, 2, 3] st = (st', Inr ())"
    and reads: "\<forall>stores_read. length stores_read = length (ms_out (rs_stream st')) \<and>
        (\<forall>r'\<in>set stores_read. \<exists>S'. stores demo_env r' S' \<and> lease_of S' (1, 2) = Some (demo_lease 8 2)) \<longrightarrow>
      (\<exists>inbound pieces. accept_inbound (demo_owner 8) (demo_owner 7) hello (demo_stream\<lparr>ms_in := map Inr (ms_out (rs_stream st'))\<rparr>) = Inr inbound \<and>
        recv_each demo_env (map (\<lambda>r'. (Delivered, r')) stores_read) (ri_stream inbound) = map (\<lambda>p. Inr (Some (DataFrame p))) pieces \<and>
        concat pieces = [1, 2, 3])"
    using hello [rule_format, of demo_transport demo_stream] **(1,2) T by blast
  have "\<forall>r'\<in>set (map (\<lambda>m. r) (ms_out (rs_stream st'))). \<exists>S'. stores demo_env r' S' \<and> lease_of S' (1, 2) = Some (demo_lease 8 2)"
    using r demo_lease_of(2) by auto
  with reads obtain inbound pieces where
      "accept_inbound (demo_owner 8) (demo_owner 7) hello (demo_stream\<lparr>ms_in := map Inr (ms_out (rs_stream st'))\<rparr>) = Inr inbound"
      "recv_each demo_env (map (\<lambda>r'. (Delivered, r')) (map (\<lambda>m. r) (ms_out (rs_stream st')))) (ri_stream inbound) =
        map (\<lambda>p. Inr (Some (DataFrame p))) pieces" "concat pieces = [1, 2, 3]"
    using length_map by blast
  with st show ?thesis unfolding map_map comp_def by blast
qed

theorem renewer_loss_exact_witness:
  "\<exists>r r'. lease_renewer demo_env 30000 (demo_lease 7 1) [(Cancelled, demo_empty)] Delivered r = Some (r', True)"
proof -
  obtain r where r: "stores demo_env r (demo_held 8 2)" using demo_held_store by blast
  have gone: "\<not> holds (demo_held 8 2) (demo_lease 7 1)" by (simp add: holds_iff demo_held_def demo_lease_def)
  have "renewer_loop demo_env 30000 (demo_lease 7 1) [(Cancelled, demo_empty)] = Some True" by simp
  from renewer_loss_exact [OF demo_laws r this]
  obtain r' where "lease_renewer demo_env 30000 (demo_lease 7 1) [(Cancelled, demo_empty)] Delivered r =
      Some (r', \<not> True \<or> \<not> holds (demo_held 8 2) (demo_lease 7 1))" by blast
  then have "lease_renewer demo_env 30000 (demo_lease 7 1) [(Cancelled, demo_empty)] Delivered r = Some (r', True)"
    using gone by simp
  then show ?thesis by blast
qed

end
