(* ===== verification/Mesh_Gossip.thy ===== *)
theory Mesh_Gossip
  imports Mesh_Wire "HOL-Library.List_Lexorder" "HOL-Library.Char_ord"
begin

section \<open>Membership of the relay mesh\<close>

text \<open>
  Who is in the mesh (\<open>buzz-relay-mesh/src/gossip.rs\<close>, \<open>membership.rs\<close>, \<open>registry.rs\<close>,
  \<open>status.rs\<close>): gossip records with their versions, the digest and delta exchange, the table of
  peers fed by attested seeds and by gossip, and their counters. The hexadecimal form of an
  identifier is the parameter \<open>hex\<close> and the verification of an attestation's signature the
  parameter \<open>verify\<close>. Suspicion levels are floating-point and stay a parameter of the operations
  that read them; the load factor is carried unread as its 32 bits.
\<close>

subsection \<open>Gossip records and messages\<close>

record gossip_record =
  gr_runtime_id :: runtime_id
  gr_endpoint_addrs :: "string list"
  gr_proto_version :: "16 word"
  gr_load :: "32 word"
  gr_draining :: bool
  gr_capabilities :: "string list"
  gr_version :: nat
  gr_heartbeat_millis :: nat

definition new_record :: "nat \<Rightarrow> runtime_id \<Rightarrow> string list \<Rightarrow> 16 word \<Rightarrow> gossip_record" where
  "new_record now runtime_id endpoint_addrs proto_version =
     \<lparr>gr_runtime_id = runtime_id, gr_endpoint_addrs = endpoint_addrs, gr_proto_version = proto_version, gr_load = 0,
      gr_draining = False, gr_capabilities = [], gr_version = 1, gr_heartbeat_millis = now\<rparr>"

text \<open>\<open>u64::saturating_add\<close>\<close>

definition sat_add :: "nat \<Rightarrow> nat \<Rightarrow> nat" where
  "sat_add a b = min (a + b) (2 ^ 64 - 1)"

record digest_entry =
  de_runtime_id :: runtime_id
  de_version :: nat

datatype gossip_message =
    Digest "8 word" "digest_entry list"
  | Delta "8 word" "gossip_record list"

definition GOSSIP_PAYLOAD_VERSION :: "8 word" where
  "GOSSIP_PAYLOAD_VERSION = 1"

definition encode_message :: "gossip_message postcard \<Rightarrow> gossip_message \<Rightarrow> (bytes, mesh_error) result" where
  "encode_message pc message = (case pc_to pc message of None \<Rightarrow> Inl Encode | Some b \<Rightarrow> Inr b)"

definition decode_message :: "gossip_message postcard \<Rightarrow> bytes \<Rightarrow> (gossip_message, mesh_error) result" where
  "decode_message pc bytes =
     (case pc_from pc bytes of
        None \<Rightarrow> Inl Decode
      | Some message \<Rightarrow>
         (let version = (case message of Digest v _ \<Rightarrow> v | Delta v _ \<Rightarrow> v) in
          if version \<noteq> GOSSIP_PAYLOAD_VERSION then Inl Transport else Inr message))"

text \<open>The digest and the delta of a collection of records, shared by the two tables below.\<close>

definition digest_of :: "(runtime_id \<Rightarrow> string) \<Rightarrow> gossip_record list \<Rightarrow> digest_entry list" where
  "digest_of hex records =
     sort_key (\<lambda>e. hex (de_runtime_id e))
       (map (\<lambda>r. \<lparr>de_runtime_id = gr_runtime_id r, de_version = gr_version r\<rparr>) records)"

definition remote_versions :: "digest_entry list \<Rightarrow> (runtime_id \<times> nat) list" where
  "remote_versions digest = fold (\<lambda>e. AList.update (de_runtime_id e) (de_version e)) digest []"

definition delta_of :: "(runtime_id \<Rightarrow> string) \<Rightarrow> digest_entry list \<Rightarrow> gossip_record list \<Rightarrow> gossip_record list" where
  "delta_of hex digest records =
     sort_key (\<lambda>r. hex (gr_runtime_id r))
       (filter (\<lambda>r. case map_of (remote_versions digest) (gr_runtime_id r) of
            None \<Rightarrow> True | Some remote \<Rightarrow> remote < gr_version r) records)"

subsection \<open>\<open>GossipState\<close>\<close>

text \<open>The records by runtime, a \<open>HashMap\<close>.\<close>

type_synonym gossip_state = "(runtime_id \<times> gossip_record) list"

definition gs_new :: "gossip_record \<Rightarrow> gossip_state" where
  "gs_new local_record = [(gr_runtime_id local_record, local_record)]"

definition gs_get :: "gossip_state \<Rightarrow> runtime_id \<Rightarrow> gossip_record option" where
  "gs_get st runtime_id = map_of st runtime_id"

definition gs_update_local ::
    "nat \<Rightarrow> runtime_id \<Rightarrow> (gossip_record \<Rightarrow> gossip_record) \<Rightarrow> gossip_state \<Rightarrow> gossip_state \<times> gossip_record option" where
  "gs_update_local now runtime_id update st =
     (case map_of st runtime_id of
        None \<Rightarrow> (st, None)
      | Some record \<Rightarrow>
         (let record' = (update record)\<lparr>gr_version := sat_add (gr_version (update record)) 1, gr_heartbeat_millis := now\<rparr>
          in (AList.update runtime_id record' st, Some record')))"

definition gs_digest :: "(runtime_id \<Rightarrow> string) \<Rightarrow> gossip_state \<Rightarrow> gossip_message" where
  "gs_digest hex st = Digest GOSSIP_PAYLOAD_VERSION (digest_of hex (map snd st))"

definition gs_delta_for :: "(runtime_id \<Rightarrow> string) \<Rightarrow> digest_entry list \<Rightarrow> gossip_state \<Rightarrow> gossip_message" where
  "gs_delta_for hex digest st = Delta GOSSIP_PAYLOAD_VERSION (delta_of hex digest (map snd st))"

definition gs_apply :: "gossip_record \<Rightarrow> gossip_state \<times> runtime_id list \<Rightarrow> gossip_state \<times> runtime_id list" where
  "gs_apply record acc =
     (let should_apply = (case map_of (fst acc) (gr_runtime_id record) of
            None \<Rightarrow> True | Some existing \<Rightarrow> gr_version existing < gr_version record)
      in if should_apply then (AList.update (gr_runtime_id record) record (fst acc), snd acc @ [gr_runtime_id record]) else acc)"

definition gs_apply_delta :: "gossip_record list \<Rightarrow> gossip_state \<Rightarrow> gossip_state \<times> runtime_id list" where
  "gs_apply_delta records st = fold gs_apply records (st, [])"

subsection \<open>Heartbeat intervals\<close>

text \<open>Times are milliseconds since the epoch.\<close>

record phi_accrual =
  pa_samples :: "nat list"
  pa_last_heartbeat :: "nat option"
  pa_max_samples :: nat

definition phi_new :: "nat \<Rightarrow> phi_accrual" where
  "phi_new max_samples = \<lparr>pa_samples = [], pa_last_heartbeat = None, pa_max_samples = max max_samples 1\<rparr>"

definition observe :: "nat \<Rightarrow> phi_accrual \<Rightarrow> phi_accrual" where
  "observe at p =
     (let p' = (case pa_last_heartbeat p of
          None \<Rightarrow> p
        | Some prev \<Rightarrow>
            if prev < at
            then let samples = pa_samples p @ [at - prev] in
              p\<lparr>pa_samples := (if pa_max_samples p < length samples then tl samples else samples)\<rparr>
            else p)
      in p'\<lparr>pa_last_heartbeat := Some at\<rparr>)"

subsection \<open>The ready registry's records\<close>

record ready_record =
  rr_runtime_id :: runtime_id
  rr_runtime_pubkey :: string
  rr_relay_pubkey :: string
  rr_relay_sig :: string
  rr_endpoint_addrs :: "string list"
  rr_proto_version :: "16 word"
  rr_capabilities :: "string list"

definition attestation_preimage :: "(runtime_id \<Rightarrow> string) \<Rightarrow> runtime_id \<Rightarrow> string \<Rightarrow> string" where
  "attestation_preimage hex runtime_id relay_pubkey =
     ''buzz-relay-mesh-ready-v1'' @ [CHR 0x0A] @ ''runtime_pubkey='' @ hex runtime_id @ [CHR 0x0A] @ ''relay_pubkey='' @ relay_pubkey"

text \<open>
  \<open>verify pubkey sig preimage\<close> stands for parsing the key and the signature and checking the
  signature over the hash of the preimage.
\<close>

type_synonym verifier = "string \<Rightarrow> string \<Rightarrow> string \<Rightarrow> bool"

definition verify_attestation :: "(runtime_id \<Rightarrow> string) \<Rightarrow> verifier \<Rightarrow> ready_record \<Rightarrow> (unit, mesh_error) result" where
  "verify_attestation hex verify ready =
     (if rr_runtime_pubkey ready \<noteq> hex (rr_runtime_id ready) then Inl Transport
      else if verify (rr_relay_pubkey ready) (rr_relay_sig ready)
          (attestation_preimage hex (rr_runtime_id ready) (rr_relay_pubkey ready)) then Inr ()
      else Inl Transport)"

definition ready_key :: "(runtime_id \<Rightarrow> string) \<Rightarrow> runtime_id \<Rightarrow> string" where
  "ready_key hex runtime_id = ''mesh:ready:'' @ hex runtime_id"

text \<open>
  What \<open>scan_ready\<close> keeps of the values it reads: \<open>decode\<close> stands for the JSON decoder, a value
  is \<open>None\<close> when the key vanished in between.
\<close>

definition scanned_records ::
    "(runtime_id \<Rightarrow> string) \<Rightarrow> verifier \<Rightarrow> (string \<Rightarrow> ready_record option) \<Rightarrow> (string \<times> string option) list \<Rightarrow> ready_record list" where
  "scanned_records hex verify decode entries =
     concat (map (\<lambda>(key, raw).
       case raw of
         None \<Rightarrow> []
       | Some text \<Rightarrow>
          (case decode text of
             None \<Rightarrow> []
           | Some record \<Rightarrow>
               if ready_key hex (rr_runtime_id record) \<noteq> key then []
               else case verify_attestation hex verify record of Inl _ \<Rightarrow> [] | Inr _ \<Rightarrow> [record])) entries)"

subsection \<open>\<open>MeshMembership\<close>\<close>

datatype connection_state = Disconnected | Connecting | Connected | Suspect

record peer_counters =
  pk_streams_opened :: nat
  pk_streams_received :: nat
  pk_datagrams_sent :: nat
  pk_datagrams_received :: nat
  pk_gossip_frames_sent :: nat
  pk_gossip_frames_received :: nat
  pk_stale_generation_rejections :: nat

definition no_counters :: peer_counters where
  "no_counters = \<lparr>pk_streams_opened = 0, pk_streams_received = 0, pk_datagrams_sent = 0, pk_datagrams_received = 0,
     pk_gossip_frames_sent = 0, pk_gossip_frames_received = 0, pk_stale_generation_rejections = 0\<rparr>"

record peer_state =
  ps_record :: gossip_record
  ps_phi :: phi_accrual
  ps_connection_state :: connection_state
  ps_counters :: peer_counters

record mesh_membership =
  mm_local_runtime_id :: runtime_id
  mm_local_record :: gossip_record
  mm_peers :: "(runtime_id \<times> peer_state) list"
  mm_draining :: bool
  mm_stale_generation_rejections :: nat
  mm_foreign_relay_rejections :: nat
  mm_expected_relay_pubkey :: "string option"

definition mm_new :: "gossip_record \<Rightarrow> mesh_membership" where
  "mm_new local_record =
     \<lparr>mm_local_runtime_id = gr_runtime_id local_record, mm_local_record = local_record, mm_peers = [], mm_draining = False,
      mm_stale_generation_rejections = 0, mm_foreign_relay_rejections = 0, mm_expected_relay_pubkey = None\<rparr>"

definition with_expected_relay_pubkey :: "string \<Rightarrow> mesh_membership \<Rightarrow> mesh_membership" where
  "with_expected_relay_pubkey pubkey_hex m = m\<lparr>mm_expected_relay_pubkey := Some pubkey_hex\<rparr>"

definition apply_gossip_record :: "gossip_record \<Rightarrow> mesh_membership \<Rightarrow> mesh_membership \<times> bool" where
  "apply_gossip_record record m =
     (if gr_runtime_id record = mm_local_runtime_id m then (m, False)
      else case map_of (mm_peers m) (gr_runtime_id record) of
        Some peer \<Rightarrow>
          if gr_version record \<le> gr_version (ps_record peer) then (m, False)
          else (m\<lparr>mm_peers := AList.update (gr_runtime_id record)
                  (peer\<lparr>ps_record := record, ps_connection_state := Connected,
                    ps_phi := observe (gr_heartbeat_millis record) (ps_phi peer)\<rparr>) (mm_peers m)\<rparr>, True)
      | None \<Rightarrow>
          (m\<lparr>mm_peers := AList.update (gr_runtime_id record)
               \<lparr>ps_record = record, ps_phi = observe (gr_heartbeat_millis record) (phi_new 100),
                ps_connection_state = Connected, ps_counters = no_counters\<rparr> (mm_peers m)\<rparr>, True))"

text \<open>\<open>fetch_add\<close> on the counter of rejections wraps at 64 bits.\<close>

definition apply_ready_record :: "(runtime_id \<Rightarrow> string) \<Rightarrow> verifier \<Rightarrow> nat \<Rightarrow> ready_record \<Rightarrow> mesh_membership \<Rightarrow> mesh_membership" where
  "apply_ready_record hex verify now ready m =
     (if rr_runtime_id ready = mm_local_runtime_id m then m
      else if mm_expected_relay_pubkey m \<noteq> Some (rr_relay_pubkey ready)
      then m\<lparr>mm_foreign_relay_rejections := (mm_foreign_relay_rejections m + 1) mod 2 ^ 64\<rparr>
      else case verify_attestation hex verify ready of
        Inl _ \<Rightarrow> m
      | Inr _ \<Rightarrow>
         fst (apply_gossip_record
           ((new_record now (rr_runtime_id ready) (rr_endpoint_addrs ready) (rr_proto_version ready))
              \<lparr>gr_capabilities := rr_capabilities ready\<rparr>) m))"

definition apply_ready_records ::
    "(runtime_id \<Rightarrow> string) \<Rightarrow> verifier \<Rightarrow> (nat \<times> ready_record) list \<Rightarrow> mesh_membership \<Rightarrow> mesh_membership" where
  "apply_ready_records hex verify records m = fold (\<lambda>(now, ready). apply_ready_record hex verify now ready) records m"

definition mark_connection_state :: "runtime_id \<Rightarrow> connection_state \<Rightarrow> mesh_membership \<Rightarrow> mesh_membership" where
  "mark_connection_state runtime_id state m =
     (case map_of (mm_peers m) runtime_id of
        None \<Rightarrow> m
      | Some peer \<Rightarrow> m\<lparr>mm_peers := AList.update runtime_id (peer\<lparr>ps_connection_state := state\<rparr>) (mm_peers m)\<rparr>)"

definition update_local :: "nat \<Rightarrow> (gossip_record \<Rightarrow> gossip_record) \<Rightarrow> mesh_membership \<Rightarrow> mesh_membership" where
  "update_local now update m =
     (let record = update (mm_local_record m) in
      m\<lparr>mm_local_record := record\<lparr>gr_version := sat_add (gr_version record) 1, gr_heartbeat_millis := now\<rparr>\<rparr>)"

definition begin_drain :: "nat \<Rightarrow> mesh_membership \<Rightarrow> mesh_membership" where
  "begin_drain now m = update_local now (\<lambda>r. r\<lparr>gr_draining := True\<rparr>) (m\<lparr>mm_draining := True\<rparr>)"

definition has_peer :: "runtime_id \<Rightarrow> mesh_membership \<Rightarrow> bool" where
  "has_peer runtime_id m \<longleftrightarrow> map_of (mm_peers m) runtime_id \<noteq> None"

definition known_records :: "mesh_membership \<Rightarrow> gossip_record list" where
  "known_records m = map (ps_record \<circ> snd) (mm_peers m) @ [mm_local_record m]"

definition mm_digest :: "(runtime_id \<Rightarrow> string) \<Rightarrow> mesh_membership \<Rightarrow> gossip_message" where
  "mm_digest hex m = Digest GOSSIP_PAYLOAD_VERSION (digest_of hex (known_records m))"

definition mm_delta_for :: "(runtime_id \<Rightarrow> string) \<Rightarrow> digest_entry list \<Rightarrow> mesh_membership \<Rightarrow> gossip_message" where
  "mm_delta_for hex digest m = Delta GOSSIP_PAYLOAD_VERSION (delta_of hex digest (known_records m))"

definition update_peer_counters :: "runtime_id \<Rightarrow> (peer_counters \<Rightarrow> peer_counters) \<Rightarrow> mesh_membership \<Rightarrow> mesh_membership" where
  "update_peer_counters runtime_id update m =
     (case map_of (mm_peers m) runtime_id of
        None \<Rightarrow> m
      | Some peer \<Rightarrow> m\<lparr>mm_peers := AList.update runtime_id (peer\<lparr>ps_counters := update (ps_counters peer)\<rparr>) (mm_peers m)\<rparr>)"

definition record_stream_opened :: "runtime_id \<Rightarrow> mesh_membership \<Rightarrow> mesh_membership" where
  "record_stream_opened runtime_id = update_peer_counters runtime_id (\<lambda>c. c\<lparr>pk_streams_opened := sat_add (pk_streams_opened c) 1\<rparr>)"

definition record_stream_received :: "runtime_id \<Rightarrow> mesh_membership \<Rightarrow> mesh_membership" where
  "record_stream_received runtime_id = update_peer_counters runtime_id (\<lambda>c. c\<lparr>pk_streams_received := sat_add (pk_streams_received c) 1\<rparr>)"

definition record_datagram_sent :: "runtime_id \<Rightarrow> mesh_membership \<Rightarrow> mesh_membership" where
  "record_datagram_sent runtime_id = update_peer_counters runtime_id (\<lambda>c. c\<lparr>pk_datagrams_sent := sat_add (pk_datagrams_sent c) 1\<rparr>)"

definition record_datagram_received :: "runtime_id \<Rightarrow> mesh_membership \<Rightarrow> mesh_membership" where
  "record_datagram_received runtime_id = update_peer_counters runtime_id (\<lambda>c. c\<lparr>pk_datagrams_received := sat_add (pk_datagrams_received c) 1\<rparr>)"

definition record_gossip_frame_sent :: "runtime_id \<Rightarrow> mesh_membership \<Rightarrow> mesh_membership" where
  "record_gossip_frame_sent runtime_id = update_peer_counters runtime_id (\<lambda>c. c\<lparr>pk_gossip_frames_sent := sat_add (pk_gossip_frames_sent c) 1\<rparr>)"

definition record_gossip_frame_received :: "runtime_id \<Rightarrow> mesh_membership \<Rightarrow> mesh_membership" where
  "record_gossip_frame_received runtime_id =
     update_peer_counters runtime_id (\<lambda>c. c\<lparr>pk_gossip_frames_received := sat_add (pk_gossip_frames_received c) 1\<rparr>)"

definition record_stale_generation_rejection :: "runtime_id option \<Rightarrow> mesh_membership \<Rightarrow> mesh_membership" where
  "record_stale_generation_rejection runtime_id m =
     (let m' = m\<lparr>mm_stale_generation_rejections := (mm_stale_generation_rejections m + 1) mod 2 ^ 64\<rparr> in
      case runtime_id of
        None \<Rightarrow> m'
      | Some rid \<Rightarrow>
          update_peer_counters rid
            (\<lambda>c. c\<lparr>pk_stale_generation_rejections := sat_add (pk_stale_generation_rejections c) 1\<rparr>) m')"

text \<open>Live peers: \<open>suspected\<close> stands for the comparison of the suspicion level with the threshold.\<close>

definition live_peers :: "(phi_accrual \<Rightarrow> bool) \<Rightarrow> mesh_membership \<Rightarrow> (runtime_id \<times> bool \<times> 32 word) list" where
  "live_peers suspected m =
     map (\<lambda>(_, p). (gr_runtime_id (ps_record p), gr_draining (ps_record p), gr_load (ps_record p)))
       (filter (\<lambda>(_, p). \<not> suspected (ps_phi p)) (mm_peers m))"

end
