(* ===== verification/Mesh_Convergence.thy ===== *)
theory Mesh_Convergence
  imports Mesh_Gossip "HOL-Library.Multiset"
begin

section \<open>Gossip converges\<close>

text \<open>
  Both tables of \<open>buzz-relay-mesh\<close> that take part in gossip, \<open>GossipState\<close> and
  \<open>MeshMembership\<close>, offer the same interface: a partial view of the records by runtime, the list
  of records a digest and a delta are computed from, and taking over a record when its version is
  newer. What one exchange achieves is proved once for the interface.
\<close>

definition newer :: "gossip_record option \<Rightarrow> gossip_record \<Rightarrow> gossip_record" where
  "newer x r = (case x of None \<Rightarrow> r | Some e \<Rightarrow> if gr_version e < gr_version r then r else e)"

definition join_views :: "gossip_record option \<Rightarrow> gossip_record option \<Rightarrow> gossip_record option" where
  "join_views x y = (case y of None \<Rightarrow> x | Some r \<Rightarrow> Some (newer x r))"

lemma digest_of_set: "set (digest_of hex rs) = (\<lambda>r. \<lparr>de_runtime_id = gr_runtime_id r, de_version = gr_version r\<rparr>) ` set rs"
  by (simp add: digest_of_def)

lemma digest_of_distinct:
  assumes "distinct (map gr_runtime_id rs)"
  shows "distinct (map de_runtime_id (digest_of hex rs))"
proof -
  have "mset (digest_of hex rs) = mset (map (\<lambda>r. \<lparr>de_runtime_id = gr_runtime_id r, de_version = gr_version r\<rparr>) rs)"
    by (simp add: digest_of_def)
  then have "mset (map de_runtime_id (digest_of hex rs)) = mset (map gr_runtime_id rs)"
    by (simp add: mset_map image_mset.compositionality comp_def)
  then show ?thesis using assms by (metis mset_eq_imp_distinct_iff)
qed

lemma remote_versions_digest:
  assumes "distinct (map gr_runtime_id rs)"
  shows "r \<in> set rs \<Longrightarrow> map_of (remote_versions (digest_of hex rs)) (gr_runtime_id r) = Some (gr_version r)"
    and "k \<notin> gr_runtime_id ` set rs \<Longrightarrow> map_of (remote_versions (digest_of hex rs)) k = None"
proof -
  let ?e = "\<lambda>r. \<lparr>de_runtime_id = gr_runtime_id r, de_version = gr_version r\<rparr>"
  show "r \<in> set rs \<Longrightarrow> map_of (remote_versions (digest_of hex rs)) (gr_runtime_id r) = Some (gr_version r)"
    using hm.get_fold_ins_unique [OF digest_of_distinct [OF assms], of "?e r" hex de_version]
    by (simp add: remote_versions_def digest_of_set)
  assume k: "k \<notin> gr_runtime_id ` set rs"
  show "map_of (remote_versions (digest_of hex rs)) k = None"
  proof (rule ccontr)
    assume "map_of (remote_versions (digest_of hex rs)) k \<noteq> None"
    then obtain v where "map_of (remote_versions (digest_of hex rs)) k = Some v" by auto
    from hm.get_fold_ins_sound [OF this [unfolded remote_versions_def]] k show False
      by (auto simp: digest_of_set)
  qed
qed

locale gossip_replica =
  fixes inv :: "'s \<Rightarrow> bool"
    and view :: "'s \<Rightarrow> runtime_id \<Rightarrow> gossip_record option"
    and own :: "'s \<Rightarrow> runtime_id \<Rightarrow> bool"
    and recs :: "'s \<Rightarrow> gossip_record list"
    and take_record :: "gossip_record \<Rightarrow> 's \<Rightarrow> 's"
  assumes recs_view: "inv s \<Longrightarrow> r \<in> set (recs s) \<longleftrightarrow> view s (gr_runtime_id r) = Some r"
    and recs_distinct: "inv s \<Longrightarrow> distinct (map gr_runtime_id (recs s))"
    and view_id: "inv s \<Longrightarrow> view s k = Some r \<Longrightarrow> gr_runtime_id r = k"
    and take_inv: "inv s \<Longrightarrow> inv (take_record r s)"
    and take_own: "own (take_record r s) = own s"
    and take_view: "inv s \<Longrightarrow> view (take_record r s) k =
      (if k = gr_runtime_id r \<and> \<not> own s k then Some (newer (view s k) r) else view s k)"
begin

definition merge :: "gossip_record list \<Rightarrow> 's \<Rightarrow> 's" where
  "merge rs s = fold take_record rs s"

lemma merge_inv: "inv s \<Longrightarrow> inv (merge rs s)"
  unfolding merge_def by (induction rs arbitrary: s) (auto intro: take_inv)

lemma merge_own: "own (merge rs s) = own s"
  unfolding merge_def by (induction rs arbitrary: s) (simp_all add: take_own)

lemma merge_absent:
  "inv s \<Longrightarrow> k \<notin> gr_runtime_id ` set rs \<or> own s k \<Longrightarrow> view (merge rs s) k = view s k"
  unfolding merge_def by (induction rs arbitrary: s) (auto simp: take_view take_inv take_own)

lemma merge_present:
  "inv s \<Longrightarrow> distinct (map gr_runtime_id rs) \<Longrightarrow> r \<in> set rs \<Longrightarrow> \<not> own s (gr_runtime_id r) \<Longrightarrow>
     view (merge rs s) (gr_runtime_id r) = Some (newer (view s (gr_runtime_id r)) r)"
proof (induction rs arbitrary: s)
  case (Cons x rs)
  show ?case
  proof (cases "r = x")
    case True
    then show ?thesis
      using Cons.prems merge_absent [OF take_inv [OF Cons.prems(1)], of "gr_runtime_id x" rs x]
      by (simp add: merge_def take_view)
  next
    case False
    then have "gr_runtime_id r \<noteq> gr_runtime_id x" using Cons.prems by (auto simp: rev_image_eqI)
    then show ?thesis
      using False Cons.prems Cons.IH [OF take_inv [OF Cons.prems(1)], of x] by (simp add: merge_def take_view take_own)
  qed
qed simp

text \<open>What a replica sends in answer to a digest, and what the other one holds afterwards.\<close>

lemma delta_set:
  assumes "inv a" and "inv b"
  shows "r \<in> set (delta_of hex (digest_of hex (recs b)) (recs a)) \<longleftrightarrow>
    view a (gr_runtime_id r) = Some r \<and> newer (view b (gr_runtime_id r)) r = r \<and> view b (gr_runtime_id r) \<noteq> Some r"
proof -
  have "(case map_of (remote_versions (digest_of hex (recs b))) (gr_runtime_id r) of
        None \<Rightarrow> True | Some remote \<Rightarrow> remote < gr_version r) \<longleftrightarrow>
      newer (view b (gr_runtime_id r)) r = r \<and> view b (gr_runtime_id r) \<noteq> Some r"
  proof (cases "view b (gr_runtime_id r)")
    case None
    then have "gr_runtime_id r \<notin> gr_runtime_id ` set (recs b)" using recs_view [OF assms(2)] by auto
    then show ?thesis
      using None remote_versions_digest(2) [OF recs_distinct [OF assms(2)]] by (simp add: newer_def)
  next
    case (Some e)
    then have e: "gr_runtime_id e = gr_runtime_id r" "e \<in> set (recs b)"
      using view_id [OF assms(2)] recs_view [OF assms(2)] by auto
    then show ?thesis
      using Some remote_versions_digest(1) [OF recs_distinct [OF assms(2)] e(2), of hex] by (auto simp: newer_def)
  qed
  then show ?thesis using recs_view [OF assms(1)] by (auto simp: delta_of_def)
qed

lemma delta_distinct: "inv a \<Longrightarrow> distinct (map gr_runtime_id (delta_of hex d (recs a)))"
proof -
  assume "inv a"
  let ?rs = "filter (\<lambda>r. case map_of (remote_versions d) (gr_runtime_id r) of None \<Rightarrow> True | Some remote \<Rightarrow> remote < gr_version r) (recs a)"
  have "distinct (map gr_runtime_id ?rs)" by (rule distinct_map_filter [OF recs_distinct [OF \<open>inv a\<close>]])
  moreover have "mset (map gr_runtime_id (delta_of hex d (recs a))) = mset (map gr_runtime_id ?rs)"
    by (simp add: delta_of_def mset_map)
  ultimately show ?thesis by (metis mset_eq_imp_distinct_iff)
qed

lemma exchange_view:
  assumes "inv a" and "inv b"
  shows "view (merge (delta_of hex (digest_of hex (recs b)) (recs a)) b) k =
    (if own b k then view b k else join_views (view b k) (view a k))"
proof (cases "own b k")
  case True
  then show ?thesis using merge_absent [OF assms(2)] by simp
next
  case False
  let ?d = "delta_of hex (digest_of hex (recs b)) (recs a)"
  show ?thesis
  proof (cases "k \<in> gr_runtime_id ` set ?d")
    case True
    then obtain r where r: "r \<in> set ?d" "gr_runtime_id r = k" by auto
    then have "view a k = Some r" using delta_set [OF assms] by auto
    then show ?thesis
      using merge_present [OF assms(2) delta_distinct [OF assms(1)] r(1)] False r by (simp add: join_views_def)
  next
    case absent: False
    have "join_views (view b k) (view a k) = view b k"
    proof (cases "view a k")
      case (Some r)
      then have "gr_runtime_id r = k" using view_id [OF assms(1)] by simp
      then have "\<not> (newer (view b k) r = r \<and> view b k \<noteq> Some r)"
        using absent Some delta_set [OF assms, of r hex] by auto
      then show ?thesis using Some by (cases "view b k") (auto simp: join_views_def newer_def split: if_splits)
    qed (simp add: join_views_def)
    then show ?thesis using merge_absent [OF assms(2)] absent False by simp
  qed
qed

text \<open>
  One round: \<open>b\<close> learns from \<open>a\<close>, then \<open>a\<close> from the updated \<open>b\<close>. When each knows its own record
  best, the two agree on the version of every record.
\<close>

lemma round_agrees:
  assumes "inv a" and "inv b"
    and "b' = merge (delta_of hex (digest_of hex (recs b)) (recs a)) b"
    and "a' = merge (delta_of hex (digest_of hex (recs a)) (recs b')) a"
    and "\<And>k r. own a k \<Longrightarrow> view b k = Some r \<Longrightarrow> \<exists>r'. view a k = Some r' \<and> gr_version r \<le> gr_version r'"
    and "\<And>k r. own b k \<Longrightarrow> view a k = Some r \<Longrightarrow> \<exists>r'. view b k = Some r' \<and> gr_version r \<le> gr_version r'"
    and "\<And>k. own b k \<Longrightarrow> \<not> own a k"
  shows "map_option gr_version (view a' k) = map_option gr_version (view b' k)"
proof -
  have inv': "inv b'" unfolding assms(3) by (rule merge_inv [OF assms(2)])
  have b': "view b' k = (if own b k then view b k else join_views (view b k) (view a k))"
    unfolding assms(3) by (rule exchange_view [OF assms(1,2)])
  have a': "view a' k = (if own a k then view a k else join_views (view a k) (view b' k))"
    unfolding assms(4) by (rule exchange_view [OF inv' assms(1)])
  show ?thesis
    using assms(5-7) [of k] unfolding a' b'
    by (cases "view a k"; cases "view b k") (auto simp: join_views_def newer_def)
qed

end

subsection \<open>The two tables are replicas\<close>

definition gs_inv :: "gossip_state \<Rightarrow> bool" where
  "gs_inv st \<longleftrightarrow> distinct (map fst st) \<and> (\<forall>k r. map_of st k = Some r \<longrightarrow> gr_runtime_id r = k)"

definition gs_take :: "gossip_record \<Rightarrow> gossip_state \<Rightarrow> gossip_state" where
  "gs_take r st = fst (gs_apply r (st, []))"

lemma gs_take_view: "map_of (gs_take r st) k = (if k = gr_runtime_id r then Some (newer (map_of st k) r) else map_of st k)"
  by (auto simp: gs_take_def gs_apply_def newer_def Let_def split: option.splits)

lemma gs_apply_state: "fst (gs_apply r acc) = gs_take r (fst acc)"
  by (simp add: gs_take_def gs_apply_def Let_def)

lemma gs_apply_delta_fold: "fst (gs_apply_delta rs st) = fold gs_take rs st"
proof -
  have "fst (fold gs_apply rs acc) = fold gs_take rs (fst acc)" for acc
    by (induction rs arbitrary: acc) (simp_all add: gs_apply_state)
  then show ?thesis by (simp add: gs_apply_delta_def)
qed

interpretation scuttlebutt: gossip_replica gs_inv map_of "\<lambda>_ _. False" "map snd" gs_take
proof
  fix s :: gossip_state and k r
  assume inv: "gs_inv s"
  then have d: "distinct (map fst s)" and ids: "\<And>k r. map_of s k = Some r \<Longrightarrow> gr_runtime_id r = k"
    by (auto simp: gs_inv_def)
  have mem: "x \<in> set s \<longleftrightarrow> map_of s (fst x) = Some (snd x)" for x using d by (cases x) simp
  show "r \<in> set (map snd s) \<longleftrightarrow> map_of s (gr_runtime_id r) = Some r"
  proof
    assume "r \<in> set (map snd s)"
    then obtain x where "x \<in> set s" "snd x = r" by auto
    then show "map_of s (gr_runtime_id r) = Some r" using mem ids by metis
  next
    assume "map_of s (gr_runtime_id r) = Some r"
    then have "(gr_runtime_id r, r) \<in> set s" by (rule map_of_SomeD)
    then show "r \<in> set (map snd s)" by force
  qed
  have "map gr_runtime_id (map snd s) = map fst s" using mem ids by simp
  then show "distinct (map gr_runtime_id (map snd s))" using d by metis
  show "map_of s k = Some r \<Longrightarrow> gr_runtime_id r = k" by (rule ids)
  have "distinct (map fst (gs_take r s))"
    using d by (simp add: gs_take_def gs_apply_def Let_def distinct_update)
  then show "gs_inv (gs_take r s)"
    using ids by (auto simp: gs_inv_def gs_take_view newer_def split: option.splits if_splits)
  show "map_of (gs_take r s) k = (if k = gr_runtime_id r \<and> \<not> False then Some (newer (map_of s k) r) else map_of s k)"
    by (simp add: gs_take_view)
qed simp

definition mm_view :: "mesh_membership \<Rightarrow> runtime_id \<Rightarrow> gossip_record option" where
  "mm_view m k = (if k = mm_local_runtime_id m then Some (mm_local_record m) else map_option ps_record (map_of (mm_peers m) k))"

definition mm_inv :: "mesh_membership \<Rightarrow> bool" where
  "mm_inv m \<longleftrightarrow> distinct (map fst (mm_peers m)) \<and> gr_runtime_id (mm_local_record m) = mm_local_runtime_id m \<and>
     map_of (mm_peers m) (mm_local_runtime_id m) = None \<and>
     (\<forall>k p. map_of (mm_peers m) k = Some p \<longrightarrow> gr_runtime_id (ps_record p) = k)"

definition mm_take :: "gossip_record \<Rightarrow> mesh_membership \<Rightarrow> mesh_membership" where
  "mm_take r m = fst (apply_gossip_record r m)"

lemma mm_take_same [simp]:
  "mm_local_runtime_id (mm_take r m) = mm_local_runtime_id m" "mm_local_record (mm_take r m) = mm_local_record m"
  "mm_expected_relay_pubkey (mm_take r m) = mm_expected_relay_pubkey m"
  by (simp_all add: mm_take_def apply_gossip_record_def split: option.splits)

lemma mm_take_view: "mm_view (mm_take r m) k =
    (if k = gr_runtime_id r \<and> k \<noteq> mm_local_runtime_id m then Some (newer (mm_view m k) r) else mm_view m k)"
  by (auto simp: mm_view_def mm_take_def apply_gossip_record_def newer_def split: option.splits)

lemma mm_take_inv:
  assumes "mm_inv m"
  shows "mm_inv (mm_take r m)"
proof (cases "gr_runtime_id r = mm_local_runtime_id m")
  case True
  then show ?thesis using assms by (simp add: mm_take_def apply_gossip_record_def)
next
  case False
  have "distinct (map fst (mm_peers (mm_take r m)))"
    using assms by (auto simp: mm_inv_def mm_take_def apply_gossip_record_def distinct_update split: option.splits)
  then show ?thesis
    using assms False
    by (auto simp: mm_inv_def mm_take_def apply_gossip_record_def simp del: map_of_eq_Some_iff split: option.splits if_splits)
qed

interpretation membership: gossip_replica mm_inv mm_view "\<lambda>m k. k = mm_local_runtime_id m" known_records mm_take
proof
  fix m k r
  show "(\<lambda>k. k = mm_local_runtime_id (mm_take r m)) = (\<lambda>k. k = mm_local_runtime_id m)" by simp
  assume inv: "mm_inv m"
  then have d: "distinct (map fst (mm_peers m))" and l: "gr_runtime_id (mm_local_record m) = mm_local_runtime_id m"
      "map_of (mm_peers m) (mm_local_runtime_id m) = None"
    and ids: "\<And>k p. map_of (mm_peers m) k = Some p \<Longrightarrow> gr_runtime_id (ps_record p) = k"
    by (auto simp: mm_inv_def)
  have mem: "x \<in> set (mm_peers m) \<longleftrightarrow> map_of (mm_peers m) (fst x) = Some (snd x)" for x using d by (cases x) simp
  show "r \<in> set (known_records m) \<longleftrightarrow> mm_view m (gr_runtime_id r) = Some r"
  proof
    assume "r \<in> set (known_records m)"
    then show "mm_view m (gr_runtime_id r) = Some r"
      using mem ids l by (auto simp: known_records_def mm_view_def)
  next
    assume "mm_view m (gr_runtime_id r) = Some r"
    then show "r \<in> set (known_records m)"
      using mem [of "(gr_runtime_id r, the (map_of (mm_peers m) (gr_runtime_id r)))"]
      by (force simp: known_records_def mm_view_def split: if_splits)
  qed
  have "map gr_runtime_id (map (ps_record \<circ> snd) (mm_peers m)) = map fst (mm_peers m)" using mem ids by simp
  then have keys: "map gr_runtime_id (known_records m) = map fst (mm_peers m) @ [mm_local_runtime_id m]"
    using l(1) by (simp add: known_records_def)
  have "mm_local_runtime_id m \<notin> set (map fst (mm_peers m))" using l(2) by (simp add: map_of_eq_None_iff)
  then show "distinct (map gr_runtime_id (known_records m))" unfolding keys using d by simp
  show "mm_view m k = Some r \<Longrightarrow> gr_runtime_id r = k"
    using ids l(1) by (auto simp: mm_view_def split: if_splits)
  show "mm_inv (mm_take r m)" by (rule mm_take_inv [OF inv])
  show "mm_view (mm_take r m) k = (if k = gr_runtime_id r \<and> k \<noteq> mm_local_runtime_id m then Some (newer (mm_view m k) r) else mm_view m k)"
    by (rule mm_take_view)
qed

subsection \<open>An exchange of two runtimes\<close>

text \<open>
  How \<open>control_stream_exchange\<close> in \<open>runtime.rs\<close> answers a decoded gossip message: a digest with
  the delta for it, a delta by applying its records.
\<close>

definition on_gossip :: "(runtime_id \<Rightarrow> string) \<Rightarrow> gossip_message \<Rightarrow> mesh_membership \<Rightarrow> mesh_membership \<times> gossip_message option" where
  "on_gossip hex message m =
     (case message of
        Digest _ entries \<Rightarrow> (m, Some (mm_delta_for hex entries m))
      | Delta _ rs \<Rightarrow> (fold (\<lambda>r m. fst (apply_gossip_record r m)) rs m, None))"

text \<open>\<open>learn hex a b\<close>: \<open>b\<close> sends its digest to \<open>a\<close>, and takes the delta it gets back.\<close>

definition learn :: "(runtime_id \<Rightarrow> string) \<Rightarrow> mesh_membership \<Rightarrow> mesh_membership \<Rightarrow> mesh_membership" where
  "learn hex a b =
     (case snd (on_gossip hex (mm_digest hex b) a) of
        None \<Rightarrow> b
      | Some reply \<Rightarrow> fst (on_gossip hex reply b))"

lemma learn_merge: "learn hex a b = membership.merge (delta_of hex (digest_of hex (known_records b)) (known_records a)) b"
proof -
  have "mm_take = (\<lambda>r m. fst (apply_gossip_record r m))" by (simp add: fun_eq_iff mm_take_def)
  then show ?thesis by (simp add: learn_def on_gossip_def mm_digest_def mm_delta_for_def membership.merge_def)
qed

text \<open>
  Scuttlebutt converges in one round. When a runtime has taken another's delta, it holds of
  every record the newer of the two versions, its own record excepted, which it keeps. After the
  exchange in both directions the two hold every record in the same version, provided each knows
  its own record best.
\<close>

theorem gossip_round_converges:
  assumes "mm_inv a" and "mm_inv b" and "mm_local_runtime_id a \<noteq> mm_local_runtime_id b"
    and "\<And>r. mm_view b (mm_local_runtime_id a) = Some r \<Longrightarrow> gr_version r \<le> gr_version (mm_local_record a)"
    and "\<And>r. mm_view a (mm_local_runtime_id b) = Some r \<Longrightarrow> gr_version r \<le> gr_version (mm_local_record b)"
  shows "mm_view (learn hex a b) k =
      (if k = mm_local_runtime_id b then Some (mm_local_record b) else join_views (mm_view b k) (mm_view a k)) \<and>
    map_option gr_version (mm_view (learn hex (learn hex a b) a) k) = map_option gr_version (mm_view (learn hex a b) k)"
proof
  show "mm_view (learn hex a b) k =
      (if k = mm_local_runtime_id b then Some (mm_local_record b) else join_views (mm_view b k) (mm_view a k))"
    using membership.exchange_view [OF assms(1,2), of hex k] by (simp add: learn_merge mm_view_def)
  show "map_option gr_version (mm_view (learn hex (learn hex a b) a) k) = map_option gr_version (mm_view (learn hex a b) k)"
    by (rule membership.round_agrees [OF assms(1,2) learn_merge learn_merge [of hex "learn hex a b" a]])
       (use assms(3-5) in \<open>auto simp: mm_view_def\<close>)
qed

subsection \<open>A mesh of runtimes\<close>

text \<open>
  All runtimes of a mesh, the records ever sent in a delta, and what each owner published under
  each version of its record. Deltas answer arbitrary digests, and their records arrive in any
  order, any number of times, or never; seeds from the registry enter as version-1 hints.
\<close>

record mesh_system =
  sys_nodes :: "runtime_id \<Rightarrow> mesh_membership"
  sys_sent :: "gossip_record set"
  sys_published :: "runtime_id \<Rightarrow> nat \<Rightarrow> gossip_record option"

definition keeps_identity :: "(gossip_record \<Rightarrow> gossip_record) \<Rightarrow> bool" where
  "keeps_identity update \<longleftrightarrow>
     (\<forall>r. gr_runtime_id (update r) = gr_runtime_id r \<and> gr_version (update r) = gr_version r)"

text \<open>The number counts the updates of local records.\<close>

inductive mesh_run :: "(runtime_id \<Rightarrow> string) \<Rightarrow> verifier \<Rightarrow> nat \<Rightarrow> mesh_system \<Rightarrow> bool" for hex verify where
  boot: "(\<And>k. mm_inv (nodes k) \<and> mm_local_runtime_id (nodes k) = k \<and> mm_peers (nodes k) = [] \<and> gr_version (mm_local_record (nodes k)) = 1) \<Longrightarrow>
    mesh_run hex verify 0
      \<lparr>sys_nodes = nodes, sys_sent = {}, sys_published = (\<lambda>k v. if v = 1 then Some (mm_local_record (nodes k)) else None)\<rparr>"
| local_update: "mesh_run hex verify n s \<Longrightarrow> keeps_identity update \<Longrightarrow> m = update_local now update (sys_nodes s k) \<Longrightarrow>
    mesh_run hex verify (n + 1) (s\<lparr>sys_nodes := (sys_nodes s)(k := m),
      sys_published := (sys_published s)(k := (sys_published s k)(gr_version (mm_local_record m) \<mapsto> mm_local_record m))\<rparr>)"
| answer_digest: "mesh_run hex verify n s \<Longrightarrow> snd (on_gossip hex (Digest v entries) (sys_nodes s k)) = Some (Delta v' rs) \<Longrightarrow>
    mesh_run hex verify n (s\<lparr>sys_sent := sys_sent s \<union> set rs\<rparr>)"
| take_delta: "mesh_run hex verify n s \<Longrightarrow> set rs \<subseteq> sys_sent s \<Longrightarrow>
    mesh_run hex verify n (s\<lparr>sys_nodes := (sys_nodes s)(k := fst (on_gossip hex (Delta v rs) (sys_nodes s k)))\<rparr>)"
| take_seeds: "mesh_run hex verify n s \<Longrightarrow>
    mesh_run hex verify n (s\<lparr>sys_nodes := (sys_nodes s)(k := apply_ready_records hex verify seeds (sys_nodes s k))\<rparr>)"

text \<open>A record is genuine when it is a seed hint or was published by its owner under its version.\<close>

definition genuine :: "mesh_system \<Rightarrow> gossip_record \<Rightarrow> bool" where
  "genuine s r \<longleftrightarrow> gr_version r = 1 \<or>
     2 \<le> gr_version r \<and> sys_published s (gr_runtime_id r) (gr_version r) = Some r \<and>
     gr_version r \<le> gr_version (mm_local_record (sys_nodes s (gr_runtime_id r)))"

definition sys_inv :: "nat \<Rightarrow> mesh_system \<Rightarrow> bool" where
  "sys_inv n s \<longleftrightarrow>
     (\<forall>k. mm_inv (sys_nodes s k) \<and> mm_local_runtime_id (sys_nodes s k) = k \<and>
        sys_published s k (gr_version (mm_local_record (sys_nodes s k))) = Some (mm_local_record (sys_nodes s k)) \<and>
        1 \<le> gr_version (mm_local_record (sys_nodes s k)) \<and> gr_version (mm_local_record (sys_nodes s k)) \<le> n + 1) \<and>
     (\<forall>k r. r \<in> set (known_records (sys_nodes s k)) \<longrightarrow> genuine s r) \<and> (\<forall>r\<in>sys_sent s. genuine s r)"

lemma take_records: "mm_inv m \<Longrightarrow> set (known_records (mm_take r m)) \<subseteq> insert r (set (known_records m))"
proof
  fix x
  assume inv: "mm_inv m" and "x \<in> set (known_records (mm_take r m))"
  then have "mm_view (mm_take r m) (gr_runtime_id x) = Some x"
    using membership.recs_view [OF mm_take_inv] by blast
  then have "x = r \<or> mm_view m (gr_runtime_id x) = Some x"
    by (auto simp: mm_take_view newer_def split: if_splits option.splits)
  then show "x \<in> insert r (set (known_records m))" using membership.recs_view [OF inv] by blast
qed

text \<open>Taking in a list of records changes neither the node's identity nor its own record.\<close>

definition takes_from :: "gossip_record set \<Rightarrow> mesh_membership \<Rightarrow> mesh_membership \<Rightarrow> bool" where
  "takes_from G m m' \<longleftrightarrow> mm_inv m' \<and> mm_local_runtime_id m' = mm_local_runtime_id m \<and> mm_local_record m' = mm_local_record m \<and>
     set (known_records m') \<subseteq> set (known_records m) \<union> G"

lemma takes_from_fold:
  assumes "\<And>x m. x \<in> set xs \<Longrightarrow> mm_inv m \<Longrightarrow> takes_from G m (f x m)" and "mm_inv m"
  shows "takes_from G m (fold f xs m)"
  using assms
proof (induction xs arbitrary: m)
  case (Cons x xs)
  then have "takes_from G m (f x m)" by simp
  moreover from this have "takes_from G (f x m) (fold f xs (f x m))"
    using Cons by (auto simp: takes_from_def)
  ultimately show ?case by (auto simp: takes_from_def)
qed (simp add: takes_from_def)

lemma takes_from_take: "mm_inv m \<Longrightarrow> r \<in> G \<Longrightarrow> takes_from G m (mm_take r m)"
  using take_records by (fastforce simp: takes_from_def mm_take_inv)

lemma takes_from_delta: "mm_inv m \<Longrightarrow> takes_from (set rs) m (fst (on_gossip hex (Delta v rs) m))"
  unfolding on_gossip_def gossip_message.case fst_conv
  by (rule takes_from_fold) (simp_all add: takes_from_take mm_take_def [symmetric])

lemma takes_from_seeds: "mm_inv m \<Longrightarrow> takes_from {r. gr_version r = 1} m (apply_ready_records hex verify seeds m)"
  unfolding apply_ready_records_def
proof (rule takes_from_fold)
  fix x :: "nat \<times> ready_record" and m
  assume inv: "mm_inv m"
  obtain now ready where x: "x = (now, ready)" by (cases x)
  have same: "takes_from {r. gr_version r = 1} m m" "takes_from {r. gr_version r = 1} m (m\<lparr>mm_foreign_relay_rejections := c\<rparr>)" for c
    using inv by (auto simp: takes_from_def mm_inv_def known_records_def)
  have "takes_from {r. gr_version r = 1} m (mm_take r m)" if "gr_version r = 1" for r
    using takes_from_take [OF inv] that by simp
  then show "takes_from {r. gr_version r = 1} m ((case x of (now, ready) \<Rightarrow> apply_ready_record hex verify now ready) m)"
    using same by (auto simp: x apply_ready_record_def mm_take_def [symmetric] new_record_def split: sum.splits)
qed

lemma sys_inv_take:
  assumes "sys_inv n s" and "takes_from G (sys_nodes s k) m'" and "\<And>r. r \<in> G \<Longrightarrow> genuine s r"
  shows "sys_inv n (s\<lparr>sys_nodes := (sys_nodes s)(k := m')\<rparr>)"
proof -
  have "genuine (s\<lparr>sys_nodes := (sys_nodes s)(k := m')\<rparr>) r = genuine s r" for r
    using assms(2) by (auto simp: genuine_def takes_from_def)
  then show ?thesis
    using assms unfolding sys_inv_def takes_from_def by (auto split: if_splits)
qed

lemma sys_inv_update:
  assumes "sys_inv n s" and "keeps_identity update" and m: "m = update_local now update (sys_nodes s k)" and "n + 2 < 2 ^ 64"
  shows "sys_inv (n + 1) (s\<lparr>sys_nodes := (sys_nodes s)(k := m),
      sys_published := (sys_published s)(k := (sys_published s k)(gr_version (mm_local_record m) \<mapsto> mm_local_record m))\<rparr>)"
    (is "sys_inv _ ?s'")
proof -
  let ?l = "mm_local_record (sys_nodes s k)"
  have l: "1 \<le> gr_version ?l" "gr_version ?l \<le> n + 1" and inv: "mm_inv (sys_nodes s k)" and k: "mm_local_runtime_id (sys_nodes s k) = k"
    using assms(1) unfolding sys_inv_def by blast+
  have v: "gr_version (mm_local_record m) = gr_version ?l + 1"
    using assms(2,4) l by (simp add: m update_local_def keeps_identity_def sat_add_def Let_def)
  have m_id: "gr_runtime_id (mm_local_record m) = k"
    using assms(2) inv k by (simp add: m update_local_def keeps_identity_def mm_inv_def Let_def)
  have peers: "mm_peers m = mm_peers (sys_nodes s k)" "mm_local_runtime_id m = k"
    using k by (simp_all add: m update_local_def Let_def)
  have inv': "mm_inv m" using inv m_id peers k by (simp add: mm_inv_def)
  have keep: "genuine ?s' r" if "genuine s r" for r
    using that v by (auto simp: genuine_def)
  have "genuine ?s' (mm_local_record m)" using v l m_id by (simp add: genuine_def)
  moreover have "set (known_records m) \<subseteq> insert (mm_local_record m) (set (known_records (sys_nodes s k)))"
    by (auto simp: known_records_def peers)
  ultimately have "r \<in> set (known_records m) \<Longrightarrow> genuine ?s' r" for r
    using assms(1) keep unfolding sys_inv_def by blast
  moreover have "gr_version (mm_local_record (sys_nodes s j)) \<le> n + 1 + 1" for j
    using assms(1) unfolding sys_inv_def by (meson le_add1 order_trans)
  ultimately show ?thesis
    using assms(1) keep inv' peers v l unfolding sys_inv_def by (auto split: if_splits)
qed

lemma mesh_run_inv: "mesh_run hex verify n s \<Longrightarrow> n + 2 < 2 ^ 64 \<Longrightarrow> sys_inv n s"
proof (induction rule: mesh_run.induct)
  case (boot nodes)
  then show ?case by (auto simp: sys_inv_def genuine_def known_records_def)
next
  case (local_update n s update m now k)
  then show ?case using sys_inv_update [of n s update m now k] by simp
next
  case (answer_digest n s v entries k v' rs)
  then have inv: "sys_inv n s" by simp
  have "set rs \<subseteq> set (known_records (sys_nodes s k))"
    using answer_digest.hyps(2) by (auto simp: on_gossip_def mm_delta_for_def delta_of_def)
  then have "genuine s r" if "r \<in> set rs" for r using that inv unfolding sys_inv_def by blast
  then show ?case using inv unfolding sys_inv_def genuine_def by auto
next
  case (take_delta n s rs k v)
  then have inv: "sys_inv n s" by simp
  then have "takes_from (set rs) (sys_nodes s k) (fst (on_gossip hex (Delta v rs) (sys_nodes s k)))"
    by (intro takes_from_delta) (simp add: sys_inv_def)
  then show ?case
    by (rule sys_inv_take [OF inv]) (use take_delta.hyps(2) inv in \<open>auto simp: sys_inv_def\<close>)
next
  case (take_seeds n s k seeds)
  then have inv: "sys_inv n s" by simp
  then have "takes_from {r. gr_version r = 1} (sys_nodes s k) (apply_ready_records hex verify seeds (sys_nodes s k))"
    by (intro takes_from_seeds) (simp add: sys_inv_def)
  then show ?case by (rule sys_inv_take [OF inv]) (simp add: genuine_def)
qed

text \<open>
  C9. Only the owner of a record writes it. However deltas are lost, repeated and reordered, every
  copy of a runtime's record that is newer than a seed hint is what its owner published under that
  version, and is not newer than the owner's current record; so runtimes that hold a record in the
  same version hold the same record.
\<close>

theorem gossip_copies_genuine:
  assumes "mesh_run hex verify n s" and "n + 2 < 2 ^ 64"
    and "mm_view (sys_nodes s a) k = Some r" and "2 \<le> gr_version r"
  shows "sys_published s k (gr_version r) = Some r \<and> gr_version r \<le> gr_version (mm_local_record (sys_nodes s k)) \<and>
    (\<forall>b r'. mm_view (sys_nodes s b) k = Some r' \<and> gr_version r' = gr_version r \<longrightarrow> r' = r)"
proof -
  have inv: "sys_inv n s" by (rule mesh_run_inv [OF assms(1,2)])
  have copy: "gr_runtime_id x = k \<and> genuine s x" if "mm_view (sys_nodes s c) k = Some x" for c x
  proof -
    have m: "mm_inv (sys_nodes s c)" using inv by (simp add: sys_inv_def)
    have "gr_runtime_id x = k" using membership.view_id [OF m that] .
    then have "x \<in> set (known_records (sys_nodes s c))" using membership.recs_view [OF m] that by simp
    then show ?thesis using \<open>gr_runtime_id x = k\<close> inv unfolding sys_inv_def by blast
  qed
  have pub: "sys_published s k (gr_version x) = Some x \<and> gr_version x \<le> gr_version (mm_local_record (sys_nodes s k))"
    if "mm_view (sys_nodes s c) k = Some x" "2 \<le> gr_version x" for c x
    using copy [OF that(1)] that(2) by (auto simp: genuine_def)
  show ?thesis using pub assms(3,4) by (metis option.inject)
qed

subsection \<open>Small meshes\<close>

definition demo_record :: "runtime_id \<Rightarrow> nat \<Rightarrow> gossip_record" where
  "demo_record k v = (new_record 1000 k [] 1)\<lparr>gr_version := v\<rparr>"

definition demo_name :: "runtime_id \<Rightarrow> string" where
  "demo_name b = map (\<lambda>w. char_of (unat w)) b"

lemma demo_node: "mm_inv (mm_new (demo_record k v))" "mm_local_runtime_id (mm_new (demo_record k v)) = k"
  "mm_local_record (mm_new (demo_record k v)) = demo_record k v" "gr_version (demo_record k v) = v" "gr_runtime_id (demo_record k v) = k"
  "mm_view (mm_new (demo_record k v)) j = (if j = k then Some (demo_record k v) else None)"
  by (simp_all add: mm_inv_def mm_new_def mm_view_def demo_record_def new_record_def)

theorem gossip_round_converges_witness:
  "mm_view (learn demo_name (mm_new (demo_record [1] 3)) (mm_new (demo_record [2] 5))) [1] = Some (demo_record [1] 3) \<and>
   map_option gr_version (mm_view (learn demo_name (learn demo_name (mm_new (demo_record [1] 3)) (mm_new (demo_record [2] 5)))
     (mm_new (demo_record [1] 3))) [2]) = Some 5"
proof -
  note c = gossip_round_converges [OF demo_node(1) demo_node(1), of "[1]" 3 "[2]" 5]
  have "mm_view (learn demo_name (mm_new (demo_record [1] 3)) (mm_new (demo_record [2] 5))) [1] = Some (demo_record [1] 3)"
    using c [of demo_name "[1]"] by (simp add: demo_node join_views_def newer_def)
  moreover have "map_option gr_version (mm_view (learn demo_name (learn demo_name (mm_new (demo_record [1] 3)) (mm_new (demo_record [2] 5)))
     (mm_new (demo_record [1] 3))) [2]) = Some 5"
    using c [of demo_name "[2]"] by (simp add: demo_node)
  ultimately show ?thesis ..
qed

definition demo_updated :: mesh_membership where
  "demo_updated = update_local 2000 (\<lambda>r. r) (mm_new (demo_record [1] 1))"

theorem gossip_copies_genuine_witness:
  "\<exists>s r. mesh_run demo_name (\<lambda>_ _ _. False) 1 s \<and> mm_view (sys_nodes s [2]) [1] = Some r \<and> gr_version r = 2 \<and>
     sys_published s [1] 2 = Some r"
proof -
  let ?run = "mesh_run demo_name (\<lambda>_ _ _. False)" and ?nodes = "\<lambda>k. mm_new (demo_record k 1)"
  let ?r = "mm_local_record demo_updated"
  have r: "gr_runtime_id ?r = [1]" "gr_version ?r = 2"
    by (simp_all add: demo_updated_def update_local_def mm_new_def demo_record_def new_record_def sat_add_def)
  have "mm_peers (?nodes k) = []" for k by (simp add: mm_new_def)
  then have "?run 0 \<lparr>sys_nodes = ?nodes, sys_sent = {}, sys_published = (\<lambda>k v. if v = 1 then Some (mm_local_record (?nodes k)) else None)\<rparr>"
    by (intro boot) (simp add: demo_node)
  then obtain s0 where s0: "?run 0 s0" "sys_nodes s0 = ?nodes" by force
  obtain s1 where s1: "?run 1 s1" "sys_nodes s1 = ?nodes([1] := demo_updated)"
    using local_update [OF s0(1), of "\<lambda>r. r" demo_updated 2000 "[1]"] s0(2)
    by (auto simp: keeps_identity_def demo_updated_def)
  have "known_records demo_updated = [?r]" by (simp add: known_records_def demo_updated_def update_local_def mm_new_def Let_def)
  then have ans: "snd (on_gossip demo_name (Digest 1 []) (sys_nodes s1 [1])) = Some (Delta 1 [?r])"
    by (simp add: on_gossip_def mm_delta_for_def delta_of_def remote_versions_def s1(2) GOSSIP_PAYLOAD_VERSION_def)
  define s2 where "s2 = s1\<lparr>sys_sent := sys_sent s1 \<union> set [?r]\<rparr>"
  have s2: "?run 1 s2" "sys_nodes s2 = sys_nodes s1" "set [?r] \<subseteq> sys_sent s2"
    using answer_digest [OF s1(1) ans] by (simp_all add: s2_def)
  obtain s3 where s3: "?run 1 s3" "sys_nodes s3 [2] = fst (on_gossip demo_name (Delta 1 [?r]) (?nodes [2]))"
    by (rule that [OF take_delta [OF s2(1,3), of "[2]" 1]]) (simp add: s2(2) s1(2))
  have view: "mm_view (sys_nodes s3 [2]) [1] = Some ?r"
    using mm_take_view [of ?r "?nodes [2]" "[1]"] r by (simp add: s3(2) on_gossip_def mm_take_def demo_node newer_def)
  have "sys_published s3 [1] (gr_version ?r) = Some ?r"
    by (rule gossip_copies_genuine [OF s3(1) _ view, THEN conjunct1]) (simp_all only: r, simp_all)
  then show ?thesis using s3(1) r(2) view by (intro exI [of _ s3] exI [of _ ?r]) simp
qed

end
