(* ===== verification/Mesh_Runtime.thy ===== *)
theory Mesh_Runtime
  imports Mesh_Convergence
begin

section \<open>The mesh runtime: admission and connections\<close>

text \<open>
  The warm peer manager (\<open>buzz-relay-mesh/src/runtime.rs\<close>): admission of inbound connections, the
  table of connections with its tie-break for simultaneous dials, and which peers a reconcile pass
  dials. A connection is a number; its background tasks and the transport are not modelled.
\<close>

record peer_entry =
  pe_peer :: nat
  pe_control_tx :: bool

record mesh_runtime =
  rt_local :: runtime_id
  rt_membership :: mesh_membership
  rt_peers :: "(runtime_id \<times> peer_entry) list"

definition connected_peers :: "mesh_runtime \<Rightarrow> runtime_id list" where
  "connected_peers rt = map fst (rt_peers rt)"

definition new_connection_wins :: "runtime_id \<Rightarrow> runtime_id \<Rightarrow> bool \<Rightarrow> bool" where
  "new_connection_wins local_id remote new_dialed_by_us = (if local_id < remote then new_dialed_by_us else \<not> new_dialed_by_us)"

definition install_peer :: "nat \<Rightarrow> runtime_id \<Rightarrow> bool \<Rightarrow> mesh_runtime \<Rightarrow> mesh_runtime \<times> bool" where
  "install_peer peer remote dialed_by_us rt =
     (if map_of (rt_peers rt) remote \<noteq> None \<and> \<not> new_connection_wins (rt_local rt) remote dialed_by_us then (rt, False)
      else (rt\<lparr>rt_peers := AList.update remote \<lparr>pe_peer = peer, pe_control_tx = dialed_by_us\<rparr> (rt_peers rt),
               rt_membership := mark_connection_state remote Connected (rt_membership rt)\<rparr>, True))"

definition remove_peer :: "runtime_id \<Rightarrow> mesh_runtime \<Rightarrow> mesh_runtime" where
  "remove_peer remote rt =
     (case map_of (rt_peers rt) remote of
        None \<Rightarrow> rt
      | Some _ \<Rightarrow> rt\<lparr>rt_peers := AList.delete remote (rt_peers rt),
                     rt_membership := mark_connection_state remote Disconnected (rt_membership rt)\<rparr>)"

text \<open>
  \<open>is_known_peer\<close>: the scan of the registry is its result, absent when there is no registry; each
  record comes with the time at which it is applied.
\<close>

definition is_known_peer ::
    "(runtime_id \<Rightarrow> string) \<Rightarrow> verifier \<Rightarrow> ((nat \<times> ready_record) list, mesh_error) result option \<Rightarrow> runtime_id \<Rightarrow>
      mesh_membership \<Rightarrow> mesh_membership \<times> bool" where
  "is_known_peer hex verify scan runtime_id m =
     (if has_peer runtime_id m then (m, True)
      else let m' = (case scan of Some (Inr seeds) \<Rightarrow> apply_ready_records hex verify seeds m | _ \<Rightarrow> m) in
        (m', has_peer runtime_id m'))"

text \<open>One connection of the accept loop.\<close>

definition accept_connection ::
    "(runtime_id \<Rightarrow> string) \<Rightarrow> verifier \<Rightarrow> ((nat \<times> ready_record) list, mesh_error) result option \<Rightarrow> nat \<Rightarrow> runtime_id \<Rightarrow>
      mesh_runtime \<Rightarrow> mesh_runtime" where
  "accept_connection hex verify scan peer remote rt =
     (let (m, known) = is_known_peer hex verify scan remote (rt_membership rt); rt' = rt\<lparr>rt_membership := m\<rparr> in
      if known then fst (install_peer peer remote False rt') else rt')"

text \<open>The peers a reconcile pass dials, after the rescan.\<close>

definition reconcile_targets :: "mesh_runtime \<Rightarrow> gossip_record list" where
  "reconcile_targets rt =
     filter (\<lambda>r. map_of (rt_peers rt) (gr_runtime_id r) = None)
       (filter (\<lambda>r. gr_runtime_id r \<noteq> rt_local rt \<and> \<not> gr_draining r) (known_records (rt_membership rt)))"

definition shutdown :: "mesh_runtime \<Rightarrow> mesh_runtime" where
  "shutdown rt = rt\<lparr>rt_peers := []\<rparr>"

subsection \<open>Admission\<close>

definition authorized :: "(runtime_id \<Rightarrow> string) \<Rightarrow> verifier \<Rightarrow> mesh_membership \<Rightarrow> ready_record \<Rightarrow> bool" where
  "authorized hex verify m ready \<longleftrightarrow>
     rr_runtime_id ready \<noteq> mm_local_runtime_id m \<and> mm_expected_relay_pubkey m = Some (rr_relay_pubkey ready) \<and>
     verify_attestation hex verify ready = Inr ()"

lemma has_peer_take: "has_peer k (mm_take r m) \<longleftrightarrow> has_peer k m \<or> k = gr_runtime_id r \<and> k \<noteq> mm_local_runtime_id m"
  by (auto simp: has_peer_def mm_take_def apply_gossip_record_def split: option.splits)

lemma ready_record_effect:
  "has_peer k (apply_ready_record hex verify now ready m) \<longleftrightarrow> has_peer k m \<or> authorized hex verify m ready \<and> rr_runtime_id ready = k"
  "mm_local_runtime_id (apply_ready_record hex verify now ready m) = mm_local_runtime_id m"
  "mm_expected_relay_pubkey (apply_ready_record hex verify now ready m) = mm_expected_relay_pubkey m"
proof -
  have eq: "apply_ready_record hex verify now ready m =
      (if rr_runtime_id ready = mm_local_runtime_id m then m
       else if mm_expected_relay_pubkey m \<noteq> Some (rr_relay_pubkey ready)
       then m\<lparr>mm_foreign_relay_rejections := (mm_foreign_relay_rejections m + 1) mod 2 ^ 64\<rparr>
       else if verify_attestation hex verify ready = Inr ()
       then mm_take ((new_record now (rr_runtime_id ready) (rr_endpoint_addrs ready) (rr_proto_version ready))
              \<lparr>gr_capabilities := rr_capabilities ready\<rparr>) m
       else m)"
    by (simp add: apply_ready_record_def mm_take_def split: sum.splits)
  have same: "has_peer k (m\<lparr>mm_foreign_relay_rejections := c\<rparr>) = has_peer k m" for c
    by (simp add: has_peer_def)
  show "has_peer k (apply_ready_record hex verify now ready m) \<longleftrightarrow> has_peer k m \<or> authorized hex verify m ready \<and> rr_runtime_id ready = k"
    unfolding eq authorized_def by (auto simp: has_peer_take same new_record_def)
  show "mm_local_runtime_id (apply_ready_record hex verify now ready m) = mm_local_runtime_id m"
    "mm_expected_relay_pubkey (apply_ready_record hex verify now ready m) = mm_expected_relay_pubkey m"
    unfolding eq by simp_all
qed

lemma ready_records_effect:
  "has_peer k (apply_ready_records hex verify seeds m) \<longleftrightarrow>
     has_peer k m \<or> (\<exists>(now, ready)\<in>set seeds. authorized hex verify m ready \<and> rr_runtime_id ready = k)"
  unfolding apply_ready_records_def
proof (induction seeds arbitrary: m)
  case (Cons x seeds)
  obtain now ready where x: "x = (now, ready)" by (cases x)
  have "authorized hex verify (apply_ready_record hex verify now ready m) r = authorized hex verify m r" for r
    by (simp add: authorized_def ready_record_effect(2,3))
  with Cons show ?case by (auto simp: x ready_record_effect(1))
qed simp

lemma scanned_record:
  "ready \<in> set (scanned_records hex verify decode entries) \<longleftrightarrow>
     (\<exists>text. (ready_key hex (rr_runtime_id ready), Some text) \<in> set entries \<and> decode text = Some ready) \<and>
     verify_attestation hex verify ready = Inr ()"
  by (force simp: scanned_records_def split: option.splits if_splits sum.splits)

text \<open>
  An inbound connection of a runtime that is not in the table yet is admitted exactly when the
  registry has, under that runtime's key, a record of it that is attested by the relay identity this
  deployment is anchored to; without an anchor nobody is admitted this way, nor is anybody under
  this runtime's own identity.
\<close>

theorem inbound_admission_exact:
  assumes "\<not> has_peer runtime_id m" and "map snd seeds = scanned_records hex verify decode entries"
  shows "snd (is_known_peer hex verify (Some (Inr seeds)) runtime_id m) \<longleftrightarrow>
    (\<exists>ready text. (ready_key hex runtime_id, Some text) \<in> set entries \<and> decode text = Some ready \<and>
       rr_runtime_id ready = runtime_id \<and> runtime_id \<noteq> mm_local_runtime_id m \<and>
       mm_expected_relay_pubkey m = Some (rr_relay_pubkey ready) \<and> rr_runtime_pubkey ready = hex runtime_id \<and>
       verify (rr_relay_pubkey ready) (rr_relay_sig ready) (attestation_preimage hex runtime_id (rr_relay_pubkey ready)))"
proof -
  have seeds: "(\<exists>(now, ready)\<in>set seeds. P ready) \<longleftrightarrow> (\<exists>ready\<in>set (scanned_records hex verify decode entries). P ready)" for P
    unfolding assms(2) [symmetric] by force
  have "snd (is_known_peer hex verify (Some (Inr seeds)) runtime_id m) \<longleftrightarrow>
      (\<exists>ready\<in>set (scanned_records hex verify decode entries). authorized hex verify m ready \<and> rr_runtime_id ready = runtime_id)"
    using assms(1) by (simp add: is_known_peer_def ready_records_effect seeds)
  moreover have "verify_attestation hex verify ready = Inr () \<longleftrightarrow> rr_runtime_pubkey ready = hex (rr_runtime_id ready) \<and>
      verify (rr_relay_pubkey ready) (rr_relay_sig ready) (attestation_preimage hex (rr_runtime_id ready) (rr_relay_pubkey ready))" for ready
    by (simp add: verify_attestation_def)
  ultimately show ?thesis unfolding Bex_def scanned_record authorized_def by blast
qed

subsection \<open>Simultaneous dials\<close>

text \<open>The connections to one runtime in the order they are installed, each with whether we dialed it.\<close>

fun install_all :: "runtime_id \<Rightarrow> (nat \<times> bool) list \<Rightarrow> mesh_runtime \<Rightarrow> mesh_runtime" where
  "install_all remote [] rt = rt"
| "install_all remote ((c, dialed) # cs) rt = install_all remote cs (fst (install_peer c remote dialed rt))"

definition kept :: "runtime_id \<Rightarrow> mesh_runtime \<Rightarrow> nat option" where
  "kept remote rt = map_option pe_peer (map_of (rt_peers rt) remote)"

lemma install_peer_kept:
  "kept remote (fst (install_peer c remote dialed rt)) =
     (if kept remote rt \<noteq> None \<and> \<not> new_connection_wins (rt_local rt) remote dialed then kept remote rt else Some c)"
  "rt_local (fst (install_peer c remote dialed rt)) = rt_local rt"
  by (auto simp: kept_def install_peer_def)

text \<open>The last connection of the canonical dialer is kept; without one, the first connection is.\<close>

lemma install_all_kept:
  "kept remote (install_all remote cs rt) =
     (case filter (\<lambda>(c, dialed). new_connection_wins (rt_local rt) remote dialed) cs of
        [] \<Rightarrow> (case kept remote rt of None \<Rightarrow> map_option fst (if cs = [] then None else Some (hd cs)) | Some c \<Rightarrow> Some c)
      | w # ws \<Rightarrow> Some (fst (last (w # ws))))"
proof (induction remote cs rt rule: install_all.induct)
  case (2 remote c dialed cs rt)
  have "map_option fst (if cs = [] then None else Some (hd cs)) = None \<longleftrightarrow> cs = []" by simp
  then show ?case
    using "2.IH" by (cases "kept remote rt") (auto simp: install_peer_kept split: list.splits if_splits)
qed (simp split: option.splits)

text \<open>
  Two runtimes that dial each other at the same time end up on the same connection: of the
  connections between them, installed at the two ends in whatever order, both ends keep the one
  dialed by the runtime with the smaller identity.
\<close>

theorem simultaneous_dials_agree:
  assumes "a < b" and "rt_local ra = a" and "rt_local rb = b"
    and "filter (\<lambda>(c, dialer). dialer = a) xs = [(conn, a)]" and "\<forall>(c, dialer)\<in>set xs. dialer \<in> {a, b}"
    and "mset ys = mset xs"
  shows "kept b (install_all b (map (\<lambda>(c, dialer). (c, dialer = a)) xs) ra) = Some conn \<and>
    kept a (install_all a (map (\<lambda>(c, dialer). (c, dialer = b)) ys) rb) = Some conn"
proof
  have wins: "new_connection_wins a b d = d" "new_connection_wins b a d = (\<not> d)" for d
    using assms(1) by (auto simp: new_connection_wins_def)
  have "filter (\<lambda>(c, dialed). new_connection_wins a b dialed) (map (\<lambda>(c, dialer). (c, dialer = a)) xs) =
      map (\<lambda>(c, dialer). (c, dialer = a)) (filter (\<lambda>(c, dialer). dialer = a) xs)"
    by (simp add: wins filter_map comp_def case_prod_unfold)
  then show "kept b (install_all b (map (\<lambda>(c, dialer). (c, dialer = a)) xs) ra) = Some conn"
    using assms(2,4) by (simp add: install_all_kept)
  have "\<forall>(c, dialer)\<in>set ys. dialer \<in> {a, b}" using assms(5) mset_eq_setD [OF assms(6)] by simp
  then have "filter (\<lambda>(c, dialer). dialer \<noteq> b) ys = filter (\<lambda>(c, dialer). dialer = a) ys"
    using assms(1) by (intro filter_cong) auto
  moreover have "mset (filter (\<lambda>(c, dialer). dialer = a) ys) = {#(conn, a)#}"
    using assms(4,6) by (metis mset_filter mset.simps(1) mset_single_iff)
  ultimately have one: "filter (\<lambda>(c, dialer). dialer \<noteq> b) ys = [(conn, a)]" by (simp only: mset_single_iff)
  have "filter (\<lambda>(c, dialed). new_connection_wins b a dialed) (map (\<lambda>(c, dialer). (c, dialer = b)) ys) =
      map (\<lambda>(c, dialer). (c, dialer = b)) (filter (\<lambda>(c, dialer). dialer \<noteq> b) ys)"
    by (simp add: wins filter_map comp_def case_prod_unfold)
  then show "kept a (install_all a (map (\<lambda>(c, dialer). (c, dialer = b)) ys) rb) = Some conn"
    using assms(3) one by (simp add: install_all_kept)
qed

subsection \<open>Small examples\<close>

definition demo_ready :: ready_record where
  "demo_ready = \<lparr>rr_runtime_id = [2], rr_runtime_pubkey = demo_name [2], rr_relay_pubkey = ''relay'', rr_relay_sig = ''sig'',
     rr_endpoint_addrs = [], rr_proto_version = 1, rr_capabilities = []\<rparr>"

definition demo_anchored :: mesh_membership where
  "demo_anchored = with_expected_relay_pubkey ''relay'' (mm_new (demo_record [1] 1))"

theorem inbound_admission_exact_witness:
  "snd (is_known_peer demo_name (\<lambda>_ sig _. sig = ''sig'') (Some (Inr [(0, demo_ready)])) [2] demo_anchored)"
proof -
  let ?verify = "\<lambda>_ sig _. sig = ''sig''" and ?entries = "[(ready_key demo_name [2], Some ''json'')]"
  have "\<not> has_peer [2] demo_anchored" "map snd [(0, demo_ready)] = scanned_records demo_name ?verify (\<lambda>_. Some demo_ready) ?entries"
    by (simp_all add: has_peer_def demo_anchored_def with_expected_relay_pubkey_def mm_new_def scanned_records_def
        demo_ready_def verify_attestation_def)
  from inbound_admission_exact [OF this] show ?thesis
    by (simp add: demo_ready_def demo_anchored_def with_expected_relay_pubkey_def mm_new_def demo_record_def new_record_def)
qed

definition demo_runtime :: "runtime_id \<Rightarrow> mesh_runtime" where
  "demo_runtime k = \<lparr>rt_local = k, rt_membership = mm_new (demo_record k 1), rt_peers = []\<rparr>"

theorem simultaneous_dials_agree_witness:
  "kept [2] (install_all [2] [(11, True), (12, False)] (demo_runtime [1])) = Some 11 \<and>
   kept [1] (install_all [1] [(12, True), (11, False)] (demo_runtime [2])) = Some 11"
  using simultaneous_dials_agree [of "[1]" "[2]" "demo_runtime [1]" "demo_runtime [2]" "[(11, [1]), (12, [2])]" 11 "[(12, [2]), (11, [1])]"]
  by (simp add: demo_runtime_def)

end
