(* ===== verification/Workflow_Schema.thy ===== *)
theory Workflow_Schema
  imports Text
begin

section \<open>Workflow definitions (\<open>crates/buzz-workflow/src/schema.rs\<close>, \<open>error.rs\<close>)\<close>

text \<open>
  The data of a workflow and its validation. Strings are Unicode text. The message of an error is
  a constructor of its own, one for each message the code writes; the texts that messages quote
  are kept only where a caller can read them back. Reading YAML and cron expressions is the work
  of other packages: \<open>cron_ok\<close> says whether the \<open>cron\<close> package accepts an expression.
\<close>

datatype definition_problem =
    NameRequired
  | StepsRequired
  | StepIdEmpty
  | StepIdInvalid utext
  | DuplicateStepId utext
  | ScheduleMissing
  | ScheduleAmbiguous
  | InvalidCron utext
  | InvalidInterval utext
  | IntervalTooShort
  | InvalidDuration utext
  | DurationOverflow utext
  | DelayTooLong nat
  | ChannelOverrideInvalid
  | ChannelOverrideForeign
  | NoChannel
  | NoMessageId
  | SinkNotInitialized
  | JsonEncoding

datatype template_problem = TruncateNeedsNumber utext | UnknownFilter utext

datatype condition_problem = ContextRejected | ExpressionTooLong | EvaluationTimedOut | EvaluationFailed

datatype webhook_problem =
    RunLookupFailed | WorkflowLookupFailed | SinkFailed
  | SsrfTaskFailed | DnsFailed | DnsEmpty | SsrfBlocked
  | InvalidUrl | NoHost | ClientBuild | InvalidMethod | SendFailed | BodyReadFailed | BodyTooLarge
  | ReactionHttp | ReactionStatus nat

datatype authority_problem = AuthorityLookupFailed | AuthorityLacking

datatype workflow_error =
    InvalidYaml
  | InvalidDefinition definition_problem
  | ConditionError condition_problem
  | TemplateError template_problem
  | StepTimeout utext nat
  | WebhookError webhook_problem
  | CapacityExceeded
  | Database
  | Unauthorized authority_problem
  | NotImplemented string

datatype trigger_def =
    MessagePosted "utext option"
  | ReactionAdded "utext option"
  | DiffPosted "utext option"
  | Schedule "utext option" "utext option"
  | Webhook

datatype action_def =
    SendMessage utext "utext option"
  | SendDm utext utext
  | SetChannelTopic utext
  | AddReaction utext
  | CallWebhook utext "utext option" "(utext \<times> utext) list option" "utext option"
  | RequestApproval utext utext "utext option"
  | Delay utext

record wf_step =
  st_id :: utext
  st_name :: "utext option"
  st_if_expr :: "utext option"
  st_timeout_secs :: "nat option"
  st_action :: action_def

record workflow_def =
  wd_name :: utext
  wd_description :: "utext option"
  wd_trigger :: trigger_def
  wd_steps :: "wf_step list"
  wd_enabled :: bool

subsection \<open>Durations\<close>

text \<open>\<open>str::parse::<u64>\<close> of Unicode text: a character outside ASCII is not a digit.\<close>

definition parse_u64 :: "utext \<Rightarrow> nat option" where
  "parse_u64 t = (if list_all (\<lambda>c. c < 128) t then parse_unsigned 64 (map char_of t) else None)"

definition strip_last :: "char \<Rightarrow> utext \<Rightarrow> utext option" where
  "strip_last c t = (if t \<noteq> [] \<and> last t = of_char c then Some (butlast t) else None)"

definition checked_mul_u64 :: "nat \<Rightarrow> nat \<Rightarrow> nat option" where
  "checked_mul_u64 a b = (if a * b < 2 ^ 64 then Some (a * b) else None)"

definition scaled_duration :: "utext \<Rightarrow> utext \<Rightarrow> nat \<Rightarrow> workflow_error + nat" where
  "scaled_duration duration n unit =
     (case parse_u64 (trim n) of
        None \<Rightarrow> Inl (InvalidDefinition (InvalidDuration duration))
      | Some k \<Rightarrow> (case checked_mul_u64 k unit of
          None \<Rightarrow> Inl (InvalidDefinition (DurationOverflow duration))
        | Some s \<Rightarrow> Inr s))"

definition parse_duration_secs :: "utext \<Rightarrow> workflow_error + nat" where
  "parse_duration_secs text =
     (let duration = trim text in
      case strip_last CHR ''h'' duration of
        Some n \<Rightarrow> scaled_duration duration n 3600
      | None \<Rightarrow> (case strip_last CHR ''m'' duration of
          Some n \<Rightarrow> scaled_duration duration n 60
        | None \<Rightarrow> (case strip_last CHR ''s'' duration of
            Some n \<Rightarrow> (case parse_u64 (trim n) of
                None \<Rightarrow> Inl (InvalidDefinition (InvalidDuration duration))
              | Some k \<Rightarrow> Inr k)
          | None \<Rightarrow> (case parse_u64 duration of
                None \<Rightarrow> Inl (InvalidDefinition (InvalidDuration duration))
              | Some k \<Rightarrow> Inr k))))"

subsection \<open>Cron expressions\<close>

text \<open>\<open>split_whitespace().count()\<close>\<close>

fun field_count :: "bool \<Rightarrow> utext \<Rightarrow> nat" where
  "field_count inside [] = 0"
| "field_count inside (c # cs) =
     (if is_whitespace c then field_count False cs
      else if inside then field_count True cs else Suc (field_count True cs))"

definition normalize_cron :: "utext \<Rightarrow> utext" where
  "normalize_cron expr =
     (let n = field_count False expr in
      if n = 5 then ascii ''0 '' @ expr @ ascii '' *''
      else if n = 6 then expr @ ascii '' *''
      else expr)"

definition validate_cron :: "(utext \<Rightarrow> bool) \<Rightarrow> utext \<Rightarrow> workflow_error + unit" where
  "validate_cron cron_ok expr = ensure (cron_ok (normalize_cron expr)) (InvalidDefinition (InvalidCron expr))"

subsection \<open>Validation\<close>

definition requires_elevated_authority :: "workflow_def \<Rightarrow> bool" where
  "requires_elevated_authority def \<longleftrightarrow>
     (\<exists>s\<in>set (wd_steps def). case st_action s of CallWebhook _ _ _ _ \<Rightarrow> True | _ \<Rightarrow> False)"

definition ascii_word_char :: "nat \<Rightarrow> bool" where
  "ascii_word_char c \<longleftrightarrow> 48 \<le> c \<and> c \<le> 57 \<or> 65 \<le> c \<and> c \<le> 90 \<or> 97 \<le> c \<and> c \<le> 122 \<or> c = 95"

definition valid_step_id :: "utext \<Rightarrow> bool" where
  "valid_step_id sid \<longleftrightarrow> sid \<noteq> [] \<and> utf8_len sid \<le> 64 \<and> list_all ascii_word_char sid"

fun validate_steps :: "wf_step list \<Rightarrow> utext list \<Rightarrow> workflow_error + unit" where
  "validate_steps [] seen_ids = Inr ()"
| "validate_steps (step # steps) seen_ids =
     (if trim (st_id step) = [] then Inl (InvalidDefinition StepIdEmpty)
      else if \<not> valid_step_id (st_id step) then Inl (InvalidDefinition (StepIdInvalid (st_id step)))
      else if st_id step \<in> set seen_ids then Inl (InvalidDefinition (DuplicateStepId (st_id step)))
      else validate_steps steps (st_id step # seen_ids))"

definition validate_trigger :: "(utext \<Rightarrow> bool) \<Rightarrow> trigger_def \<Rightarrow> workflow_error + unit" where
  "validate_trigger cron_ok trigger =
     (case trigger of
        Schedule cron interval \<Rightarrow>
          if cron = None \<and> interval = None then Inl (InvalidDefinition ScheduleMissing)
          else if cron \<noteq> None \<and> interval \<noteq> None then Inl (InvalidDefinition ScheduleAmbiguous)
          else and_then (case cron of Some expr \<Rightarrow> validate_cron cron_ok expr | None \<Rightarrow> Inr ())
            (\<lambda>_. case interval of
               None \<Rightarrow> Inr ()
             | Some dur \<Rightarrow> (case parse_duration_secs dur of
                 Inl _ \<Rightarrow> Inl (InvalidDefinition (InvalidInterval dur))
               | Inr secs \<Rightarrow> if secs < 60 then Inl (InvalidDefinition IntervalTooShort) else Inr ()))
      | _ \<Rightarrow> Inr ())"

definition validate :: "(utext \<Rightarrow> bool) \<Rightarrow> workflow_def \<Rightarrow> workflow_error + unit" where
  "validate cron_ok def =
     (if trim (wd_name def) = [] then Inl (InvalidDefinition NameRequired)
      else if wd_steps def = [] then Inl (InvalidDefinition StepsRequired)
      else and_then (validate_steps (wd_steps def) []) (\<lambda>_. validate_trigger cron_ok (wd_trigger def)))"

text \<open>
  \<open>parse_yaml\<close>: the YAML reader and the JSON printer are the packages' (\<open>None\<close> is their error).
\<close>

definition parse_yaml ::
  "(utext \<Rightarrow> workflow_def option) \<Rightarrow> (workflow_def \<Rightarrow> utext option) \<Rightarrow> (utext \<Rightarrow> bool)
   \<Rightarrow> utext \<Rightarrow> workflow_error + workflow_def \<times> utext" where
  "parse_yaml from_yaml to_json cron_ok yaml =
     (case from_yaml yaml of
        None \<Rightarrow> Inl InvalidYaml
      | Some def \<Rightarrow> and_then (validate cron_ok def) (\<lambda>_.
          case to_json def of
            None \<Rightarrow> Inl (InvalidDefinition JsonEncoding)
          | Some json \<Rightarrow> Inr (def, json)))"

subsection \<open>What validation guarantees\<close>

lemma trim_no_space: "\<forall>c\<in>set t. \<not> is_whitespace c \<Longrightarrow> trim t = t"
proof -
  assume a: "\<forall>c\<in>set t. \<not> is_whitespace c"
  have drop: "dropWhile is_whitespace xs = xs" if "\<forall>c\<in>set xs. \<not> is_whitespace c" for xs
    using that by (cases xs) auto
  show ?thesis using a by (simp add: trim_def drop)
qed

lemma word_char_not_space: "ascii_word_char c \<Longrightarrow> \<not> is_whitespace c"
  by (auto simp: ascii_word_char_def is_whitespace_def)

lemma valid_step_id_trim: "valid_step_id sid \<Longrightarrow> trim sid = sid"
  by (rule trim_no_space) (auto simp: valid_step_id_def list_all_iff word_char_not_space)

lemma validate_steps_ok:
  "validate_steps steps seen = Inr () \<longleftrightarrow>
   (\<forall>s\<in>set steps. valid_step_id (st_id s) \<and> st_id s \<notin> set seen) \<and> distinct (map st_id steps)"
proof (induction steps arbitrary: seen)
  case (Cons s steps)
  have "valid_step_id (st_id s) \<Longrightarrow> trim (st_id s) \<noteq> []"
    by (simp add: valid_step_id_trim) (simp add: valid_step_id_def)
  then show ?case by (auto simp: Cons.IH intro: rev_image_eqI)
qed simp

definition schedule_ok :: "(utext \<Rightarrow> bool) \<Rightarrow> trigger_def \<Rightarrow> bool" where
  "schedule_ok cron_ok trigger \<longleftrightarrow> (case trigger of
     Schedule (Some expr) None \<Rightarrow> cron_ok (normalize_cron expr)
   | Schedule None (Some dur) \<Rightarrow> (\<exists>secs. parse_duration_secs dur = Inr secs \<and> 60 \<le> secs)
   | Schedule _ _ \<Rightarrow> False
   | _ \<Rightarrow> True)"

lemma validate_trigger_ok: "validate_trigger cron_ok trigger = Inr () \<longleftrightarrow> schedule_ok cron_ok trigger"
  by (auto simp: validate_trigger_def schedule_ok_def validate_cron_def result_simps
      split: trigger_def.splits option.splits sum.splits if_splits)

text \<open>C38. A definition is accepted exactly when its name is not blank, it has steps, their
  identifiers are pairwise distinct words of at most 64 ASCII letters, digits and underscores, and
  a schedule gives either a cron expression that the cron reader accepts in its seven-field form or
  an interval of at least a minute, and not both.\<close>

theorem workflow_validation_exact:
  "validate cron_ok def = Inr () \<longleftrightarrow>
     trim (wd_name def) \<noteq> [] \<and> wd_steps def \<noteq> []
     \<and> distinct (map st_id (wd_steps def))
     \<and> (\<forall>s\<in>set (wd_steps def). 0 < length (st_id s) \<and> length (st_id s) \<le> 64 \<and> list_all ascii_word_char (st_id s))
     \<and> schedule_ok cron_ok (wd_trigger def)"
proof -
  have "utf8_len t = length t" if "list_all ascii_word_char t" for t
    using that by (induction t) (auto simp: utf8_len_def utf8_width_def ascii_word_char_def)
  then have "valid_step_id t \<longleftrightarrow> 0 < length t \<and> length t \<le> 64 \<and> list_all ascii_word_char t" for t
    by (auto simp: valid_step_id_def)
  then show ?thesis
    by (auto simp: validate_def result_simps validate_steps_ok validate_trigger_ok)
qed

theorem workflow_validation_exact_witness:
  "validate (\<lambda>_. True) \<lparr>wd_name = ascii ''greet'', wd_description = None, wd_trigger = Schedule (Some (ascii ''0 9 * * *'')) None,
     wd_steps = map (\<lambda>i. \<lparr>st_id = ascii i, st_name = None, st_if_expr = None, st_timeout_secs = None,
                              st_action = SendMessage (ascii ''hi'') None\<rparr>) [''one'', ''step_2''], wd_enabled = True\<rparr> = Inr ()"
  by (simp add: workflow_validation_exact schedule_ok_def) (simp add: trim_def is_whitespace_def ascii_def ascii_word_char_def)

subsection \<open>Durations\<close>

lemma map_char_of_ascii: "map char_of (ascii s) = s"
  by (simp add: ascii_def o_def)

lemma parse_u64_bound: "parse_u64 t = Some n \<Longrightarrow> n < 2 ^ 64"
  by (auto simp: parse_u64_def parse_unsigned_def Let_def split: if_splits)

lemma parse_u64_decimal:
  assumes "n < 2 ^ 64"
  shows "parse_u64 (ascii (decimal n)) = Some n"
proof -
  have "list_all (\<lambda>c. c < 128) (ascii (decimal n))"
    using decimal_digits [of _ n] by (fastforce simp: list_all_iff ascii_def is_ascii_digit_def byte_def)
  then show ?thesis using assms by (simp add: parse_u64_def map_char_of_ascii parse_unsigned_decimal)
qed

lemma digit_not_space: "is_ascii_digit c \<Longrightarrow> \<not> is_whitespace (of_char c)"
  by (auto simp: is_ascii_digit_def byte_def is_whitespace_def)

lemma trim_ascii_decimal: "trim (ascii (decimal n)) = ascii (decimal n)"
  by (rule trim_no_space) (use decimal_digits digit_not_space in \<open>auto simp: ascii_def\<close>)

lemma parse_duration_bound: "parse_duration_secs t = Inr n \<Longrightarrow> n < 2 ^ 64"
  using parse_u64_bound
  by (fastforce simp: parse_duration_secs_def scaled_duration_def checked_mul_u64_def Let_def
      split: option.splits if_splits)

text \<open>A written duration is read back exactly: a count with the unit \<open>h\<close>, \<open>m\<close>, \<open>s\<close> or none
  stands for that many hours, minutes or seconds when the seconds fit 64 bits, and a count whose
  seconds do not fit is reported as an overflow instead of wrapping around.\<close>

theorem duration_units:
  assumes "n < 2 ^ 64" and unit: "u \<in> {ascii ''h'', ascii ''m'', ascii ''s'', []}"
  shows "parse_duration_secs (ascii (decimal n) @ u) =
     (if u = ascii ''h'' then
        if n * 3600 < 2 ^ 64 then Inr (n * 3600) else Inl (InvalidDefinition (DurationOverflow (ascii (decimal n) @ u)))
      else if u = ascii ''m'' then
        if n * 60 < 2 ^ 64 then Inr (n * 60) else Inl (InvalidDefinition (DurationOverflow (ascii (decimal n) @ u)))
      else Inr n)"
proof -
  let ?d = "ascii (decimal n)"
  have d: "\<not> is_whitespace c \<and> c < 58" if "c \<in> set ?d" for c
    using that decimal_digits [of _ n] digit_not_space by (fastforce simp: ascii_def is_ascii_digit_def byte_def)
  have tr: "trim (?d @ u) = ?d @ u"
    by (rule trim_no_space) (use unit d in \<open>auto simp: ascii_def is_whitespace_def\<close>)
  have "?d \<noteq> []" by (simp add: ascii_def)
  then have "last ?d < 58" using d last_in_set by blast
  then have "last ?d \<noteq> 104" "last ?d \<noteq> 109" "last ?d \<noteq> 115" by simp_all
  then have digits: "strip_last CHR ''h'' ?d = None" "strip_last CHR ''m'' ?d = None" "strip_last CHR ''s'' ?d = None"
    by (simp_all add: strip_last_def)
  have snoc: "strip_last c (?d @ ascii [c']) = (if c' = c then Some ?d else None)" for c c'
    by (simp add: strip_last_def ascii_def)
  note step = parse_duration_secs_def Let_def scaled_duration_def checked_mul_u64_def trim_ascii_decimal
    parse_u64_decimal [OF assms(1)]
  from unit consider "u = ascii ''h''" | "u = ascii ''m''" | "u = ascii ''s''" | "u = []" by blast
  then show ?thesis
  proof cases
    case 1
    have "parse_duration_secs (?d @ u) = scaled_duration (?d @ u) ?d 3600"
      using 1 tr snoc by (simp add: parse_duration_secs_def)
    then show ?thesis using 1 by (simp add: step)
  next
    case 2
    have "parse_duration_secs (?d @ u) = scaled_duration (?d @ u) ?d 60"
      using 2 tr snoc by (simp add: parse_duration_secs_def)
    then show ?thesis using 2 by (simp add: step) (simp add: ascii_def)
  next
    case 3
    then show ?thesis using tr snoc by (simp add: step) (simp add: ascii_def)
  next
    case 4
    then show ?thesis using tr digits by (simp add: step) (simp add: ascii_def)
  qed
qed

theorem duration_units_witness:
  "parse_duration_secs (ascii ''90m'') = Inr 5400"
proof -
  have "decimal 90 = ''90''" by code_simp
  then show ?thesis using duration_units [of 90 "ascii ''m''"] by (simp add: ascii_def)
qed

end
