(* ===== verification/Workflow_Template.thy ===== *)
theory Workflow_Template
  imports Workflow_Schema
begin

section \<open>Templates and conditions (\<open>crates/buzz-workflow/src/executor.rs\<close>)\<close>

text \<open>
  How the text of a step is completed from the trigger and from the outputs of earlier steps, and
  what a condition of a step sees. The text of a nested JSON value (\<open>print_json\<close>), the bech32
  form of a public key (\<open>npub_text\<close>, \<open>None\<close> for text that is no key) and the expression
  evaluator with its variable store are other packages' and stay parameters. Maps are association
  lists in the order a \<open>HashMap\<close> happens to iterate; no statement depends on that order.
\<close>

datatype json_number = JsonInt int | JsonFloat utext

datatype wjson =
    WNull
  | WBool bool
  | WNumber json_number
  | WString utext
  | WArray "wjson list"
  | WObject "(utext \<times> wjson) list"

type_synonym step_outputs = "(utext \<times> wjson) list"

record trigger_context =
  tc_text :: utext
  tc_author :: utext
  tc_channel_id :: utext
  tc_timestamp :: utext
  tc_emoji :: utext
  tc_message_id :: utext
  tc_webhook_fields :: "(utext \<times> utext) list"

record text_lib =
  print_json :: "wjson \<Rightarrow> utext"
  npub_text :: "utext \<Rightarrow> utext option"

definition get_field :: "trigger_context \<Rightarrow> utext \<Rightarrow> utext option" where
  "get_field tc name =
     (if name = ascii ''text'' then Some (tc_text tc)
      else if name = ascii ''author'' then Some (tc_author tc)
      else if name = ascii ''channel_id'' then Some (tc_channel_id tc)
      else if name = ascii ''timestamp'' then Some (tc_timestamp tc)
      else if name = ascii ''emoji'' then Some (tc_emoji tc)
      else if name = ascii ''message_id'' then Some (tc_message_id tc)
      else map_of (tc_webhook_fields tc) name)"

subsection \<open>Searching text\<close>

text \<open>\<open>str::find\<close>, and the text before and after the first occurrence.\<close>

fun find_sub :: "'a list \<Rightarrow> 'a list \<Rightarrow> nat option" where
  "find_sub p [] = (if p = [] then Some 0 else None)"
| "find_sub p (c # cs) = (if starts_with p (c # cs) then Some 0 else map_option Suc (find_sub p cs))"

definition break_at :: "'a list \<Rightarrow> 'a list \<Rightarrow> ('a list \<times> 'a list) option" where
  "break_at p s = map_option (\<lambda>i. (take i s, drop (i + length p) s)) (find_sub p s)"

definition contains :: "'a list \<Rightarrow> 'a list \<Rightarrow> bool" where
  "contains p s \<longleftrightarrow> find_sub p s \<noteq> None"

lemma find_sub_split: "find_sub p s = Some i \<Longrightarrow> s = take i s @ p @ drop (i + length p) s"
proof (induction s arbitrary: i)
  case (Cons c cs)
  show ?case
  proof (cases "starts_with p (c # cs)")
    case True
    with Cons.prems have "i = 0" by simp
    with True show ?thesis by (simp add: starts_with_def) (metis append_take_drop_id)
  next
    case False
    with Cons.prems obtain j where "find_sub p cs = Some j" "i = Suc j" by auto
    with Cons.IH [of j] show ?thesis by simp
  qed
qed (auto split: if_splits)

lemma break_at_split: "break_at p s = Some (a, b) \<Longrightarrow> s = a @ p @ b"
  using find_sub_split by (fastforce simp: break_at_def)

lemma break_at_shorter: "break_at p s = Some (a, b) \<Longrightarrow> p \<noteq> [] \<Longrightarrow> length b < length s"
  by (frule break_at_split) simp

lemma break_at_None: "break_at p s = None \<longleftrightarrow> \<not> contains p s"
  by (simp add: break_at_def contains_def)

subsection \<open>Values of placeholders\<close>

definition decimal_int :: "int \<Rightarrow> utext" where
  "decimal_int i = ascii ((if i < 0 then ''-'' else []) @ decimal (nat \<bar>i\<bar>))"

definition number_text :: "json_number \<Rightarrow> utext" where
  "number_text n = (case n of JsonInt i \<Rightarrow> decimal_int i | JsonFloat t \<Rightarrow> t)"

definition json_to_string :: "text_lib \<Rightarrow> wjson \<Rightarrow> utext" where
  "json_to_string L v = (case v of
     WString s \<Rightarrow> s
   | WBool b \<Rightarrow> ascii (if b then ''true'' else ''false'')
   | WNumber n \<Rightarrow> number_text n
   | WNull \<Rightarrow> []
   | other \<Rightarrow> print_json L other)"

definition json_get_str :: "text_lib \<Rightarrow> wjson \<Rightarrow> utext \<Rightarrow> utext option" where
  "json_get_str L v key = (case v of
     WObject m \<Rightarrow> map_option (json_to_string L) (map_of m key)
   | _ \<Rightarrow> None)"

definition resolve_variable ::
  "text_lib \<Rightarrow> trigger_context \<Rightarrow> step_outputs \<Rightarrow> utext \<Rightarrow> utext option" where
  "resolve_variable L tc outs path =
     (case strip_prefix (ascii ''trigger.'') path of
        Some field \<Rightarrow> get_field tc field
      | None \<Rightarrow> (case strip_prefix (ascii ''steps.'') path of
          None \<Rightarrow> None
        | Some rest \<Rightarrow> (case break_at (ascii ''.'') rest of
            None \<Rightarrow> None
          | Some (step_id, rest') \<Rightarrow> (case break_at (ascii ''.'') rest' of
              None \<Rightarrow> None
            | Some (middle, field) \<Rightarrow>
                if middle \<noteq> ascii ''output'' then None
                else (case map_of outs step_id of
                    None \<Rightarrow> None
                  | Some output \<Rightarrow> json_get_str L output field)))))"

definition apply_filter :: "text_lib \<Rightarrow> utext \<Rightarrow> utext \<Rightarrow> workflow_error + utext" where
  "apply_filter L value filter0 =
     (let filter = trim filter0 in
      case Option.bind (strip_prefix (ascii ''truncate('') filter) (strip_last CHR '')'') of
        Some inner \<Rightarrow> (case parse_u64 (trim inner) of
            None \<Rightarrow> Inl (TemplateError (TruncateNeedsNumber inner))
          | Some n \<Rightarrow> Inr (take n value))
      | None \<Rightarrow>
          if filter = ascii ''npub'' \<or> filter = ascii ''truncate_pubkey'' then
            (case npub_text L value of Some s \<Rightarrow> Inr s | None \<Rightarrow> Inr value)
          else Inl (TemplateError (UnknownFilter filter)))"

subsection \<open>Resolving a template\<close>

definition lbraces :: utext where "lbraces = ascii ''{{''"
definition rbraces :: utext where "rbraces = ascii ''}}''"

text \<open>The variable path and the filter of the text between the braces.\<close>

definition split_filter :: "utext \<Rightarrow> utext \<times> utext option" where
  "split_filter expr = (case break_at (ascii ''|'') expr of
     None \<Rightarrow> (trim expr, None)
   | Some (v, f) \<Rightarrow> (trim v, Some (trim f)))"

lemma braces_not_Nil [simp]: "lbraces \<noteq> []" "rbraces \<noteq> []"
  by (simp_all add: lbraces_def rbraces_def ascii_def)

function resolve_loop ::
  "text_lib \<Rightarrow> trigger_context \<Rightarrow> step_outputs \<Rightarrow> utext \<Rightarrow> utext \<Rightarrow> workflow_error + utext" where
  "resolve_loop L tc outs result remaining =
     (case break_at lbraces remaining of
        None \<Rightarrow> Inr (result @ remaining)
      | Some (before, rest) \<Rightarrow> (case break_at rbraces rest of
          None \<Rightarrow> Inr (result @ before @ lbraces @ rest)
        | Some (inner, rest') \<Rightarrow>
            let expr = trim inner;
                (var_path, filter) = split_filter expr
            in case (resolve_variable L tc outs var_path, filter) of
                 (Some v, Some f) \<Rightarrow> (case apply_filter L v f of
                     Inl e \<Rightarrow> Inl e
                   | Inr w \<Rightarrow> resolve_loop L tc outs (result @ before @ w) rest')
               | (Some v, None) \<Rightarrow> resolve_loop L tc outs (result @ before @ v) rest'
               | (None, _) \<Rightarrow> resolve_loop L tc outs (result @ before @ lbraces @ expr @ rbraces) rest'))"
  by pat_completeness auto
termination
  by (relation "measure (\<lambda>(L, tc, outs, result, remaining). length remaining)")
    (auto dest!: break_at_shorter)

declare resolve_loop.simps [simp del]

definition resolve_template ::
  "text_lib \<Rightarrow> trigger_context \<Rightarrow> step_outputs \<Rightarrow> utext \<Rightarrow> workflow_error + utext" where
  "resolve_template L tc outs template =
     (if \<not> contains lbraces template then Inr template else resolve_loop L tc outs [] template)"

subsection \<open>A template as its segments\<close>

text \<open>
  The reading of a template that depends on its text alone: literal text and placeholders. An
  opening pair of braces that is never closed is literal text.
\<close>

datatype segment = Literal utext | Placeholder utext

function segments :: "utext \<Rightarrow> segment list" where
  "segments t = (case break_at lbraces t of
     None \<Rightarrow> [Literal t]
   | Some (before, rest) \<Rightarrow> (case break_at rbraces rest of
       None \<Rightarrow> [Literal (before @ lbraces @ rest)]
     | Some (inner, rest') \<Rightarrow> Literal before # Placeholder inner # segments rest'))"
  by pat_completeness auto
termination
  by (relation "measure length") (auto dest!: break_at_shorter)

declare segments.simps [simp del]

fun segment_source :: "segment \<Rightarrow> utext" where
  "segment_source (Literal s) = s"
| "segment_source (Placeholder inner) = lbraces @ inner @ rbraces"

fun render_segment :: "text_lib \<Rightarrow> trigger_context \<Rightarrow> step_outputs \<Rightarrow> segment \<Rightarrow> workflow_error + utext" where
  "render_segment L tc outs (Literal s) = Inr s"
| "render_segment L tc outs (Placeholder inner) =
     (let (var_path, filter) = split_filter (trim inner) in
      case resolve_variable L tc outs var_path of
        None \<Rightarrow> Inr (lbraces @ trim inner @ rbraces)
      | Some v \<Rightarrow> (case filter of None \<Rightarrow> Inr v | Some f \<Rightarrow> apply_filter L v f))"

text \<open>The concatenation of fallible pieces: the first error wins.\<close>

fun join_results :: "('e + 'a list) list \<Rightarrow> 'e + 'a list" where
  "join_results [] = Inr []"
| "join_results (r # rs) = and_then r (\<lambda>s. and_then (join_results rs) (\<lambda>t. Inr (s @ t)))"

lemma segments_source: "concat (map segment_source (segments t)) = t"
proof (induction t rule: segments.induct)
  case (1 t)
  show ?case
  proof (cases "break_at lbraces t")
    case None
    then show ?thesis by (simp add: segments.simps [of t])
  next
    case (Some p)
    then obtain before rest where b: "break_at lbraces t = Some (before, rest)" by (cases p) simp
    show ?thesis
    proof (cases "break_at rbraces rest")
      case None
      with b show ?thesis by (simp add: segments.simps [of t] break_at_split [OF b, symmetric])
    next
      case (Some q)
      then obtain inner rest' where r: "break_at rbraces rest = Some (inner, rest')" by (cases q) simp
      from 1 [OF b _ r] have "concat (map segment_source (segments rest')) = rest'" by simp
      with b r show ?thesis by (simp add: segments.simps [of t]) (metis break_at_split append_assoc)
    qed
  qed
qed

lemma resolve_loop_step:
  assumes "break_at lbraces remaining = Some (before, rest)" and "break_at rbraces rest = Some (inner, rest')"
  shows "resolve_loop L tc outs result remaining =
    and_then (render_segment L tc outs (Placeholder inner)) (\<lambda>w. resolve_loop L tc outs (result @ before @ w) rest')"
  using assms
  by (subst resolve_loop.simps)
    (simp add: Let_def split: prod.splits option.splits sum.splits; auto simp: and_then_def split: sum.splits)

lemma resolve_loop_segments:
  "resolve_loop L tc outs result remaining =
   and_then (join_results (map (render_segment L tc outs) (segments remaining))) (\<lambda>t. Inr (result @ t))"
proof (induction remaining arbitrary: result rule: segments.induct)
  case (1 t)
  show ?case
  proof (cases "break_at lbraces t")
    case None
    then show ?thesis by (simp add: segments.simps [of t] resolve_loop.simps [of L tc outs result])
  next
    case (Some p)
    then obtain before rest where b: "break_at lbraces t = Some (before, rest)" by (cases p) simp
    show ?thesis
    proof (cases "break_at rbraces rest")
      case None
      with b show ?thesis by (simp add: segments.simps [of t] resolve_loop.simps [of L tc outs result])
    next
      case (Some q)
      then obtain inner rest' where r: "break_at rbraces rest = Some (inner, rest')" by (cases q) simp
      note IH = 1 [OF b refl r refl]
      have seg: "segments t = Literal before # Placeholder inner # segments rest'"
        using b r by (simp add: segments.simps [of t])
      show ?thesis
        unfolding resolve_loop_step [OF b r] seg IH
        by (cases "render_segment L tc outs (Placeholder inner)";
            cases "join_results (map (render_segment L tc outs) (segments rest'))")
          (simp_all del: render_segment.simps(2))
    qed
  qed
qed

lemma resolve_template_segments:
  "resolve_template L tc outs t = join_results (map (render_segment L tc outs) (segments t))"
proof -
  have "segments t = [Literal t]" if "\<not> contains lbraces t"
    using that by (simp add: segments.simps [of t] break_at_None [symmetric])
  moreover have "and_then x Inr = x" for x :: "workflow_error + utext" by (cases x) simp_all
  ultimately show ?thesis by (simp add: resolve_template_def resolve_loop_segments)
qed

lemma join_results_error: "join_results rs = Inl e \<Longrightarrow> Inl e \<in> set rs"
  by (induction rs) (auto simp: and_then_def split: sum.splits)

lemma render_error: "render_segment L tc outs seg = Inl e \<Longrightarrow> \<exists>p. e = TemplateError p"
  by (cases seg) (auto simp: apply_filter_def Let_def split: prod.splits option.splits if_splits)

lemma template_error: "resolve_template L tc outs t = Inl e \<Longrightarrow> \<exists>p. e = TemplateError p"
  using render_error by (fastforce simp: resolve_template_segments dest!: join_results_error)

text \<open>C31. Resolving a template replaces each placeholder once and touches nothing else: the
  template falls into literal text and placeholders by its own text alone (and these segments
  spell the template), the literal text is kept, a placeholder becomes the value of its variable
  with its filter applied, and one whose variable is unknown stays, its inner white space trimmed.
  Inserted values are never scanned for placeholders again, and the first failing filter is the error.\<close>

theorem template_resolution_exact:
  "concat (map segment_source (segments t)) = t \<and>
   resolve_template L tc outs t = join_results (map (render_segment L tc outs) (segments t))"
  by (simp add: segments_source resolve_template_segments)

end
