(* ===== verification/Workflow_Condition.thy ===== *)
theory Workflow_Condition
  imports Workflow_Template
begin

section \<open>Conditions of steps (\<open>crates/buzz-workflow/src/executor.rs\<close>)\<close>

text \<open>
  The variables a condition sees. The variable store and the evaluator belong to the \<open>evalexpr\<close>
  package and are parameters: \<open>set_value\<close> stores a variable (\<open>None\<close> is its error), \<open>eval\<close>
  evaluates an expression. What the code relies on is \<open>store_laws\<close>: a variable that is new, or
  of the type it already has, can be set, and reading gives the last value set. The string helper
  functions that the code registers are not variables and not modelled.
\<close>

datatype eval_value = EvString utext | EvBool bool | EvInt int | EvFloat json_number | EvEmpty

definition json_value_to_eval :: "text_lib \<Rightarrow> wjson \<Rightarrow> eval_value" where
  "json_value_to_eval L v = (case v of
     WString s \<Rightarrow> EvString s
   | WBool b \<Rightarrow> EvBool b
   | WNumber n \<Rightarrow> (case n of
       JsonInt i \<Rightarrow> if - (2 ^ 63) \<le> i \<and> i < 2 ^ 63 then EvInt i else EvFloat n
     | JsonFloat _ \<Rightarrow> EvFloat n)
   | WNull \<Rightarrow> EvEmpty
   | other \<Rightarrow> EvString (print_json L other))"

record 'c eval_lib =
  new_store :: 'c
  set_value :: "utext \<Rightarrow> eval_value \<Rightarrow> 'c \<Rightarrow> 'c option"
  get_value :: "'c \<Rightarrow> utext \<Rightarrow> eval_value option"

fun same_type :: "eval_value \<Rightarrow> eval_value \<Rightarrow> bool" where
  "same_type (EvString _) (EvString _) = True"
| "same_type (EvBool _) (EvBool _) = True"
| "same_type (EvInt _) (EvInt _) = True"
| "same_type (EvFloat _) (EvFloat _) = True"
| "same_type EvEmpty EvEmpty = True"
| "same_type _ _ = False"

definition store_laws :: "('c, 'z) eval_lib_scheme \<Rightarrow> bool" where
  "store_laws E \<longleftrightarrow>
     (\<forall>n. get_value E (new_store E) n = None) \<and>
     (\<forall>n v c c'. set_value E n v c = Some c' \<longrightarrow> get_value E c' = (get_value E c)(n \<mapsto> v)) \<and>
     (\<forall>n v c. (\<forall>v'. get_value E c n = Some v' \<longrightarrow> same_type v' v) \<longrightarrow> set_value E n v c \<noteq> None)"

subsection \<open>The variables of a run\<close>

definition trigger_fields :: "trigger_context \<Rightarrow> (utext \<times> utext) list" where
  "trigger_fields tc =
     [(ascii ''trigger_text'', tc_text tc),
      (ascii ''trigger_author'', tc_author tc),
      (ascii ''trigger_channel_id'', tc_channel_id tc),
      (ascii ''trigger_timestamp'', tc_timestamp tc),
      (ascii ''trigger_emoji'', tc_emoji tc),
      (ascii ''trigger_message_id'', tc_message_id tc)]"

definition webhook_bindings :: "trigger_context \<Rightarrow> (utext \<times> eval_value) list" where
  "webhook_bindings tc =
     map (\<lambda>(key, val). (ascii ''trigger_'' @ key, EvString val))
       (filter (\<lambda>(key, val). \<not> (starts_with (ascii ''trigger_'') key \<or> starts_with (ascii ''steps_'') key))
         (tc_webhook_fields tc))"

definition step_variable :: "utext \<Rightarrow> utext \<Rightarrow> utext" where
  "step_variable step_id field = ascii ''steps_'' @ step_id @ ascii ''_output_'' @ field"

definition step_bindings :: "text_lib \<Rightarrow> step_outputs \<Rightarrow> (utext \<times> eval_value) list" where
  "step_bindings L outs =
     concat (map (\<lambda>(step_id, output). case output of
         WObject m \<Rightarrow> map (\<lambda>(field, val). (step_variable step_id field, json_value_to_eval L val)) m
       | _ \<Rightarrow> []) outs)"

text \<open>The calls of \<open>set_value\<close>, in order.\<close>

definition eval_bindings :: "text_lib \<Rightarrow> trigger_context \<Rightarrow> step_outputs \<Rightarrow> (utext \<times> eval_value) list" where
  "eval_bindings L tc outs =
     webhook_bindings tc @ map (\<lambda>(name, val). (name, EvString val)) (trigger_fields tc) @ step_bindings L outs"

definition bind_value :: "('c, 'z) eval_lib_scheme \<Rightarrow> utext \<times> eval_value \<Rightarrow> 'c \<Rightarrow> workflow_error + 'c" where
  "bind_value E nv c = (case set_value E (fst nv) (snd nv) c of
     None \<Rightarrow> Inl (ConditionError ContextRejected)
   | Some c' \<Rightarrow> Inr c')"

definition build_eval_context ::
  "text_lib \<Rightarrow> ('c, 'z) eval_lib_scheme \<Rightarrow> trigger_context \<Rightarrow> step_outputs \<Rightarrow> workflow_error + 'c" where
  "build_eval_context L E tc outs = try_fold (bind_value E) (eval_bindings L tc outs) (new_store E)"

datatype eval_outcome = Evaluated bool | EvalError | TimedOut | Panicked

definition MAX_EXPR_LEN :: nat where "MAX_EXPR_LEN = 4096"

text \<open>The evaluation of an expression in a store, as the timer, the blocking task and the evaluator report it.\<close>

record 'c condition_lib = "'c eval_lib" +
  run_eval :: "utext \<Rightarrow> 'c \<Rightarrow> eval_outcome"

definition evaluate_condition ::
  "text_lib \<Rightarrow> 'c condition_lib \<Rightarrow> utext \<Rightarrow> trigger_context \<Rightarrow> step_outputs \<Rightarrow> workflow_error + bool" where
  "evaluate_condition L E expr tc outs =
     and_then (build_eval_context L E tc outs) (\<lambda>ctx.
       if utf8_len expr > MAX_EXPR_LEN then Inl (ConditionError ExpressionTooLong)
       else case run_eval E expr ctx of
              TimedOut \<Rightarrow> Inl (ConditionError EvaluationTimedOut)
            | Panicked \<Rightarrow> Inl (ConditionError EvaluationFailed)
            | EvalError \<Rightarrow> Inl (ConditionError EvaluationFailed)
            | Evaluated b \<Rightarrow> Inr b)"

subsection \<open>What the store holds\<close>

lemma bind_value_get:
  assumes "store_laws E" and "bind_value E (n, v) c = Inr c'"
  shows "get_value E c' = (get_value E c)(n \<mapsto> v)"
  using assms by (auto simp: store_laws_def bind_value_def split: option.splits)

lemma bindings_get:
  assumes "store_laws E" and "try_fold (bind_value E) bs c = Inr c'"
  shows "get_value E c' = get_value E c ++ map_of (rev bs)"
  using assms(2)
proof (induction bs arbitrary: c)
  case (Cons b bs)
  then obtain d where d: "bind_value E b c = Inr d" "try_fold (bind_value E) bs d = Inr c'"
    by (auto simp: result_simps)
  obtain n v where b: "b = (n, v)" by (cases b)
  show ?case
    using Cons.IH [OF d(2)] bind_value_get [OF assms(1) d(1) [unfolded b]] by (simp add: b map_add_def fun_eq_iff split: option.splits)
qed simp

lemma bindings_total:
  assumes "store_laws E"
    and "\<And>n v. (n, v) \<in> set bs \<Longrightarrow> (\<forall>v'. get_value E c n = Some v' \<longrightarrow> same_type v' v)
           \<and> (\<forall>v'. (n, v') \<in> set bs \<longrightarrow> same_type v' v)"
  shows "\<exists>c'. try_fold (bind_value E) bs c = Inr c'"
  using assms(2)
proof (induction bs arbitrary: c)
  case (Cons b bs)
  obtain n v where b: "b = (n, v)" by (cases b)
  have "set_value E n v c \<noteq> None"
    using assms(1) Cons.prems [of n v] by (simp add: store_laws_def b)
  then obtain d where d: "set_value E n v c = Some d" by blast
  have get: "get_value E d = (get_value E c)(n \<mapsto> v)"
    using assms(1) d by (simp add: store_laws_def)
  have "\<exists>c'. try_fold (bind_value E) bs d = Inr c'"
  proof (rule Cons.IH)
    fix m w assume "(m, w) \<in> set bs"
    then show "(\<forall>v'. get_value E d m = Some v' \<longrightarrow> same_type v' w) \<and> (\<forall>v'. (m, v') \<in> set bs \<longrightarrow> same_type v' w)"
      using Cons.prems [of m w] by (auto simp: get b split: if_splits)
  qed
  moreover have "bind_value E (n, v) c = Inr d" by (simp add: bind_value_def d)
  ultimately show ?case by (simp add: b)
qed simp

subsection \<open>Standard fields cannot be forged\<close>

lemma in_step_bindings:
  "(n, v) \<in> set (step_bindings L outs) \<longleftrightarrow>
   (\<exists>step_id m field val. (step_id, WObject m) \<in> set outs \<and> (field, val) \<in> set m
      \<and> n = step_variable step_id field \<and> v = json_value_to_eval L val)"
  by (force simp: step_bindings_def split: wjson.splits)

lemma trigger_not_step: "ascii ''trigger_'' @ k \<noteq> step_variable step_id field"
  by (simp add: step_variable_def ascii_def)

lemma distinct_trigger_fields: "distinct (map fst (trigger_fields tc))"
  by (simp add: trigger_fields_def ascii_def)

lemma trigger_fields_prefixed: "(n, v) \<in> set (trigger_fields tc) \<Longrightarrow> \<exists>k. n = ascii ''trigger_'' @ k"
  by (auto simp: trigger_fields_def ascii_def)

lemma get_field_standard:
  "(ascii ''trigger_'' @ f, v) \<in> set (trigger_fields tc) \<Longrightarrow> get_field tc f = Some v"
  by (auto simp: trigger_fields_def get_field_def ascii_def)

lemma map_of_rev_distinct: "distinct (map fst bs) \<Longrightarrow> map_of (rev bs) = map_of bs"
  by (rule map_of_inject_set [THEN iffD2]) (simp_all add: rev_map [symmetric])

lemma standard_binding:
  assumes "(n, v) \<in> set (trigger_fields tc)"
  shows "map_of (rev (eval_bindings L tc outs)) n = Some (EvString v)"
proof -
  let ?F = "map (\<lambda>(name, val). (name, EvString val)) (trigger_fields tc)"
  have keys: "map fst ?F = map fst (trigger_fields tc)" by (simp add: split_beta)
  have "map_of (rev ?F) = map_of ?F"
    by (rule map_of_rev_distinct) (simp only: keys distinct_trigger_fields)
  moreover have "map_of ?F n = Some (EvString v)"
    by (rule map_of_is_SomeI) (use assms keys distinct_trigger_fields in \<open>force simp del: map_map\<close>)+
  ultimately have "map_of (rev ?F) n = Some (EvString v)" by simp
  moreover have "map_of (rev (step_bindings L outs)) n = None"
    using trigger_fields_prefixed [OF assms] trigger_not_step
    by (auto simp: map_of_eq_None_iff in_step_bindings)
  ultimately show ?thesis by (simp add: eval_bindings_def map_add_def)
qed

text \<open>Whatever fields a webhook caller sends and whatever earlier steps put out, a condition and
  a template read the six standard fields of the trigger (text, author, channel, time, emoji,
  message) from the trigger itself.\<close>

theorem trigger_fields_authentic:
  assumes "store_laws E" and "build_eval_context L E tc outs = Inr c"
    and "(ascii ''trigger_'' @ f, v) \<in> set (trigger_fields tc)"
  shows "get_value E c (ascii ''trigger_'' @ f) = Some (EvString v)
    \<and> resolve_variable L tc outs (ascii ''trigger.'' @ f) = Some v"
  using bindings_get [OF assms(1) assms(2) [unfolded build_eval_context_def]] standard_binding [OF assms(3)]
  by (simp add: resolve_variable_def get_field_standard [OF assms(3)])

definition list_store :: "(utext \<times> eval_value) list eval_lib" where
  "list_store = \<lparr>new_store = [],
     set_value = (\<lambda>n v c. case map_of c n of
        Some v' \<Rightarrow> if same_type v' v then Some ((n, v) # c) else None
      | None \<Rightarrow> Some ((n, v) # c)),
     get_value = map_of\<rparr>"

lemma list_store_laws: "store_laws list_store"
  by (auto simp: store_laws_def list_store_def split: option.splits if_splits)

definition demo_lib :: text_lib where
  "demo_lib = \<lparr>print_json = (\<lambda>_. []), npub_text = (\<lambda>_. None)\<rparr>"

definition forged_trigger :: trigger_context where
  "forged_trigger = \<lparr>tc_text = ascii ''hi'', tc_author = ascii ''ab'', tc_channel_id = [], tc_timestamp = [],
     tc_emoji = [], tc_message_id = [], tc_webhook_fields = [(ascii ''author'', ascii ''eve'')]\<rparr>"

theorem trigger_fields_authentic_witness:
  "\<exists>c. build_eval_context demo_lib list_store forged_trigger [] = Inr c
     \<and> get_value list_store c (ascii ''trigger_author'') = Some (EvString (ascii ''ab''))"
proof -
  obtain c where c: "build_eval_context demo_lib list_store forged_trigger [] = Inr c"
    by (simp add: build_eval_context_def eval_bindings_def webhook_bindings_def trigger_fields_def step_bindings_def
        forged_trigger_def list_store_def bind_value_def starts_with_def ascii_def)
  moreover have "(ascii ''trigger_'' @ ascii ''author'', ascii ''ab'') \<in> set (trigger_fields forged_trigger)"
    by (simp add: trigger_fields_def forged_trigger_def ascii_def)
  ultimately show ?thesis
    using trigger_fields_authentic [OF list_store_laws c, of "ascii ''author''" "ascii ''ab''"]
    by (simp add: ascii_def)
qed

subsection \<open>Variables of steps are unambiguous\<close>

text \<open>
  The fields of the objects that actions put out. No field name is a proper suffix of another, so a
  variable name determines the step and the field it comes from although identifiers may contain
  underscores.
\<close>

definition output_fields :: "utext list" where
  "output_fields = map ascii [''sent'', ''event_id'', ''added'', ''status'', ''response'', ''body'', ''slept_secs'']"

definition engine_output :: "wjson \<Rightarrow> bool" where
  "engine_output v = (case v of
     WObject m \<Rightarrow> distinct (map fst m) \<and> (\<forall>k\<in>set (map fst m). k \<in> set output_fields)
   | _ \<Rightarrow> False)"

lemma output_fields_table:
  "\<forall>f\<in>set output_fields. \<forall>g\<in>set output_fields. drop (length g - length f) g = f \<longrightarrow> f = g"
  by code_simp

lemma output_fields_suffix_free:
  assumes "f \<in> set output_fields" "g \<in> set output_fields" and "x @ f = y @ g"
  shows "f = g"
proof -
  have suffix: "f = g" if "f \<in> set output_fields" "g \<in> set output_fields" "g = us @ f" for f g us
    using bspec [OF bspec [OF output_fields_table that(1)] that(2)] by (simp add: that(3))
  obtain us where "g = us @ f \<or> f = us @ g"
    using assms(3) by (auto simp: append_eq_append_conv2)
  then show ?thesis
    by (elim disjE) (rule suffix [OF assms(1,2)], assumption, rule suffix [OF assms(2,1), symmetric], assumption)
qed

lemma step_variable_inject:
  assumes "f \<in> set output_fields" "g \<in> set output_fields"
  shows "step_variable i f = step_variable j g \<longleftrightarrow> i = j \<and> f = g"
proof
  assume eq: "step_variable i f = step_variable j g"
  then have "(i @ ascii ''_output_'') @ f = (j @ ascii ''_output_'') @ g" by (simp add: step_variable_def)
  then have "f = g" using output_fields_suffix_free [OF assms] by blast
  with eq show "i = j \<and> f = g" by (simp add: step_variable_def)
qed simp

lemma same_type_refl [simp]: "same_type v v"
  by (cases v) simp_all

lemma engine_output_field:
  assumes "engine_output (WObject m)" and "(f, v) \<in> set m"
  shows "f \<in> set output_fields" and "(f, w) \<in> set m \<Longrightarrow> w = v"
  using assms by (auto simp: engine_output_def dest: eq_key_imp_eq_value)

lemma step_bindings_unique:
  assumes "distinct (map fst outs)" and "\<forall>(i, out)\<in>set outs. engine_output out"
    and "(n, v) \<in> set (step_bindings L outs)" and "(n, w) \<in> set (step_bindings L outs)"
  shows "w = v"
proof -
  from assms(3) obtain i m f a where a: "(i, WObject m) \<in> set outs" "(f, a) \<in> set m"
      "n = step_variable i f" "v = json_value_to_eval L a" by (auto simp: in_step_bindings)
  from assms(4) obtain j k g b where b: "(j, WObject k) \<in> set outs" "(g, b) \<in> set k"
      "n = step_variable j g" "w = json_value_to_eval L b" by (auto simp: in_step_bindings)
  have engine: "engine_output (WObject m)" "engine_output (WObject k)" using assms(2) a(1) b(1) by auto
  have "i = j \<and> f = g"
    using a(3) b(3) step_variable_inject engine_output_field(1) [OF engine(1) a(2)]
      engine_output_field(1) [OF engine(2) b(2)] by simp
  moreover from this have "WObject m = WObject k" using eq_key_imp_eq_value [OF assms(1) a(1)] b(1) by simp
  ultimately show ?thesis using a b engine_output_field(2) [OF engine(1) a(2)] by simp
qed

text \<open>The outputs a run collects: each step at most once, each in the form actions put out.\<close>

definition outputs_ok :: "step_outputs \<Rightarrow> bool" where
  "outputs_ok outs \<longleftrightarrow> distinct (map fst outs) \<and> (\<forall>(i, out)\<in>set outs. engine_output out)"

lemma context_total:
  assumes "store_laws E" and "outputs_ok outs"
  shows "\<exists>c. build_eval_context L E tc outs = Inr c"
  unfolding build_eval_context_def
proof (rule bindings_total [OF assms(1)], intro conjI allI impI)
  fix n v v'
  assume nv: "(n, v) \<in> set (eval_bindings L tc outs)"
  show "same_type v' v" if "get_value E (new_store E) n = Some v'"
    using assms(1) that by (simp add: store_laws_def)
  show "same_type v' v" if "(n, v') \<in> set (eval_bindings L tc outs)"
  proof (cases "\<exists>k. n = ascii ''trigger_'' @ k")
    case True
    then have "(n, u) \<notin> set (step_bindings L outs)" for u
      using trigger_not_step by (auto simp: in_step_bindings)
    then show ?thesis
      using nv that by (auto simp: eval_bindings_def webhook_bindings_def)
  next
    case False
    then have "(n, u) \<in> set (step_bindings L outs)" if "(n, u) \<in> set (eval_bindings L tc outs)" for u
      using that trigger_fields_prefixed by (fastforce simp: eval_bindings_def webhook_bindings_def)
    from step_bindings_unique [OF _ _ this [OF nv] this [OF that]] show ?thesis
      using assms(2) by (simp add: outputs_ok_def)
  qed
qed

text \<open>The variables a condition sees of earlier steps are unambiguous: although identifiers and
  fields are joined with underscores that both may contain, setting up the variables never fails
  for the outputs that actions produce, and each variable holds the value that its own step put
  out under its own field.\<close>

theorem step_variables_unambiguous:
  assumes "store_laws E" and "outputs_ok outs"
  shows "\<exists>c. build_eval_context L E tc outs = Inr c \<and>
    (\<forall>i m f v. map_of outs i = Some (WObject m) \<longrightarrow> map_of m f = Some v \<longrightarrow>
       get_value E c (step_variable i f) = Some (json_value_to_eval L v))"
proof -
  obtain c where c: "build_eval_context L E tc outs = Inr c" using context_total [OF assms] by blast
  have "get_value E c (step_variable i f) = Some (json_value_to_eval L v)"
    if m: "map_of outs i = Some (WObject m)" and v: "map_of m f = Some v" for i m f v
  proof -
    have b: "(step_variable i f, json_value_to_eval L v) \<in> set (step_bindings L outs)"
      using map_of_SomeD [OF m] map_of_SomeD [OF v] by (auto simp: in_step_bindings)
    then obtain w where w: "map_of (rev (step_bindings L outs)) (step_variable i f) = Some w"
      by (metis (no_types, lifting) map_of_eq_None_iff image_eqI fst_conv not_Some_eq set_rev)
    have "w = json_value_to_eval L v"
      using step_bindings_unique [OF _ _ b] map_of_SomeD [OF w] assms(2) by (simp add: outputs_ok_def)
    with w show ?thesis
      using bindings_get [OF assms(1) c [unfolded build_eval_context_def]]
      by (simp add: eval_bindings_def map_add_def)
  qed
  with c show ?thesis by blast
qed

definition demo_outputs :: step_outputs where
  "demo_outputs = [(ascii ''a'', WObject [(ascii ''sent'', WBool True)]),
     (ascii ''a_output'', WObject [(ascii ''status'', WNumber (JsonInt 200))])]"

theorem step_variables_unambiguous_witness:
  "\<exists>c. build_eval_context demo_lib list_store forged_trigger demo_outputs = Inr c
     \<and> get_value list_store c (ascii ''steps_a_output_output_status'') = Some (EvInt 200)"
proof -
  have "outputs_ok demo_outputs"
    by (simp add: outputs_ok_def demo_outputs_def engine_output_def output_fields_def ascii_def)
  from step_variables_unambiguous [OF list_store_laws this, of demo_lib forged_trigger]
  obtain c where c: "build_eval_context demo_lib list_store forged_trigger demo_outputs = Inr c"
    and v: "\<And>i m f v. map_of demo_outputs i = Some (WObject m) \<Longrightarrow> map_of m f = Some v \<Longrightarrow>
       get_value list_store c (step_variable i f) = Some (json_value_to_eval demo_lib v)" by blast
  have "get_value list_store c (step_variable (ascii ''a_output'') (ascii ''status'')) = Some (EvInt 200)"
    using v [of "ascii ''a_output''" "[(ascii ''status'', WNumber (JsonInt 200))]" "ascii ''status''" "WNumber (JsonInt 200)"]
    by (simp add: demo_outputs_def ascii_def json_value_to_eval_def)
  with c show ?thesis by (simp add: step_variable_def ascii_def)
qed

end
