(* ===== verification/Network.thy ===== *)
theory Network
  imports Prelude
begin

unbundle bit_operations_syntax

section \<open>Addresses a server must not call (\<open>crates/buzz-core/src/network.rs\<close>)\<close>

text \<open>
  The classification of IP addresses that outbound calls rely on. An address is kept as the
  standard library shows it: four octets for version 4, eight 16-bit segments for version 6. The
  predicates of \<open>std::net\<close> that the code calls are written out, and the whole classification
  is proved equal to membership in the table of address blocks its documentation lists.
\<close>

datatype ipv4_addr = Ipv4Addr "8 word" "8 word" "8 word" "8 word"

datatype ipv6_addr =
  Ipv6Addr "16 word" "16 word" "16 word" "16 word" "16 word" "16 word" "16 word" "16 word"

datatype ip_addr = V4 ipv4_addr | V6 ipv6_addr

subsection \<open>The standard library's predicates\<close>

fun v4_is_loopback :: "ipv4_addr \<Rightarrow> bool" where
  "v4_is_loopback (Ipv4Addr a b c d) \<longleftrightarrow> a = 127"

fun v4_is_private :: "ipv4_addr \<Rightarrow> bool" where
  "v4_is_private (Ipv4Addr a b c d) \<longleftrightarrow>
     a = 10 \<or> a = 172 \<and> 16 \<le> b \<and> b \<le> 31 \<or> a = 192 \<and> b = 168"

fun v4_is_link_local :: "ipv4_addr \<Rightarrow> bool" where
  "v4_is_link_local (Ipv4Addr a b c d) \<longleftrightarrow> a = 169 \<and> b = 254"

fun v4_is_broadcast :: "ipv4_addr \<Rightarrow> bool" where
  "v4_is_broadcast (Ipv4Addr a b c d) \<longleftrightarrow> a = 255 \<and> b = 255 \<and> c = 255 \<and> d = 255"

text \<open>The two octets of a segment, in network order.\<close>

definition high_octet :: "16 word \<Rightarrow> 8 word" where
  "high_octet s = ucast (drop_bit 8 s)"

definition low_octet :: "16 word \<Rightarrow> 8 word" where
  "low_octet s = ucast s"

fun v6_octets :: "ipv6_addr \<Rightarrow> 8 word list" where
  "v6_octets (Ipv6Addr a b c d e f g h) =
     concat (map (\<lambda>s. [high_octet s, low_octet s]) [a, b, c, d, e, f, g, h])"

fun v6_is_loopback :: "ipv6_addr \<Rightarrow> bool" where
  "v6_is_loopback (Ipv6Addr a b c d e f g h) \<longleftrightarrow>
     a = 0 \<and> b = 0 \<and> c = 0 \<and> d = 0 \<and> e = 0 \<and> f = 0 \<and> g = 0 \<and> h = 1"

fun v6_is_unspecified :: "ipv6_addr \<Rightarrow> bool" where
  "v6_is_unspecified (Ipv6Addr a b c d e f g h) \<longleftrightarrow>
     a = 0 \<and> b = 0 \<and> c = 0 \<and> d = 0 \<and> e = 0 \<and> f = 0 \<and> g = 0 \<and> h = 0"

text \<open>\<open>to_ipv4\<close>: the IPv4-compatible (\<open>::a.b.c.d\<close>) and the IPv4-mapped (\<open>::ffff:a.b.c.d\<close>) form.\<close>

fun v6_to_ipv4 :: "ipv6_addr \<Rightarrow> ipv4_addr option" where
  "v6_to_ipv4 (Ipv6Addr a b c d e f g h) =
     (if a = 0 \<and> b = 0 \<and> c = 0 \<and> d = 0 \<and> e = 0 \<and> (f = 0 \<or> f = 0xffff)
      then Some (Ipv4Addr (high_octet g) (low_octet g) (high_octet h) (low_octet h))
      else None)"

subsection \<open>The classification\<close>

definition NAT64_WELL_KNOWN_PREFIX :: "8 word list" where
  "NAT64_WELL_KNOWN_PREFIX = [0x00, 0x64, 0xff, 0x9b, 0, 0, 0, 0, 0, 0, 0, 0]"

definition IPV4_TRANSLATED_PREFIX :: "8 word list" where
  "IPV4_TRANSLATED_PREFIX = [0, 0, 0, 0, 0, 0, 0, 0, 0xff, 0xff, 0, 0]"

definition embedded_ipv4 :: "ipv6_addr \<Rightarrow> 8 word list \<Rightarrow> ipv4_addr option" where
  "embedded_ipv4 v6 prefix =
     (let octets = v6_octets v6 in
      if take (length prefix) octets = prefix
      then Some (Ipv4Addr (octets ! 12) (octets ! 13) (octets ! 14) (octets ! 15))
      else None)"

fun v4_private :: "ipv4_addr \<Rightarrow> bool" where
  "v4_private (Ipv4Addr a b c d) \<longleftrightarrow>
     v4_is_loopback (Ipv4Addr a b c d)
     \<or> v4_is_private (Ipv4Addr a b c d)
     \<or> v4_is_link_local (Ipv4Addr a b c d)
     \<or> a = 0
     \<or> v4_is_broadcast (Ipv4Addr a b c d)
     \<or> a = 100 \<and> b AND 0xC0 = 64
     \<or> a = 198 \<and> b AND 0xFE = 18"

fun v6_reserved :: "ipv6_addr \<Rightarrow> bool" where
  "v6_reserved (Ipv6Addr s0 s1 s2 s3 s4 s5 s6 s7) \<longleftrightarrow>
     v6_is_loopback (Ipv6Addr s0 s1 s2 s3 s4 s5 s6 s7)
     \<or> v6_is_unspecified (Ipv6Addr s0 s1 s2 s3 s4 s5 s6 s7)
     \<or> s0 AND 0xfe00 = 0xfc00
     \<or> s0 AND 0xffc0 = 0xfe80
     \<or> s0 AND 0xff00 = 0xff00
     \<or> s0 = 0x0064 \<and> s1 = 0xff9b \<and> s2 = 1
     \<or> s0 = 0x2001 \<and> s1 = 0
     \<or> s0 = 0x2002
     \<or> s0 = 0x2001 \<and> s1 = 0x0db8"

definition is_private_ip :: "ip_addr \<Rightarrow> bool" where
  "is_private_ip ip = (case ip of
     V4 v4 \<Rightarrow> v4_private v4
   | V6 v6 \<Rightarrow> (case v6_to_ipv4 v6 of
       Some v4 \<Rightarrow> v4_private v4
     | None \<Rightarrow> (case embedded_ipv4 v6 NAT64_WELL_KNOWN_PREFIX of
         Some v4 \<Rightarrow> v4_private v4
       | None \<Rightarrow> (case embedded_ipv4 v6 IPV4_TRANSLATED_PREFIX of
           Some v4 \<Rightarrow> v4_private v4
         | None \<Rightarrow> v6_reserved v6))))"

subsection \<open>The documented table of blocks\<close>

text \<open>An address as a number, and a block as the numbers that share their leading bits.\<close>

fun v4_value :: "ipv4_addr \<Rightarrow> nat" where
  "v4_value (Ipv4Addr a b c d) = unat a * 2 ^ 24 + unat b * 2 ^ 16 + unat c * 2 ^ 8 + unat d"

fun v6_value :: "ipv6_addr \<Rightarrow> nat" where
  "v6_value (Ipv6Addr a b c d e f g h) =
     unat a * 2 ^ 112 + unat b * 2 ^ 96 + unat c * 2 ^ 80 + unat d * 2 ^ 64
     + unat e * 2 ^ 48 + unat f * 2 ^ 32 + unat g * 2 ^ 16 + unat h"

definition in_block :: "nat \<Rightarrow> nat \<Rightarrow> nat \<times> nat \<Rightarrow> bool" where
  "in_block width n block = (n div 2 ^ (width - snd block) = fst block div 2 ^ (width - snd block))"

definition v4_blocks :: "(nat \<times> nat) list" where
  "v4_blocks = map (\<lambda>(a, len). (v4_value a, len))
     [(Ipv4Addr 127 0 0 0, 8), (Ipv4Addr 10 0 0 0, 8), (Ipv4Addr 172 16 0 0, 12),
      (Ipv4Addr 192 168 0 0, 16), (Ipv4Addr 169 254 0 0, 16), (Ipv4Addr 0 0 0 0, 8),
      (Ipv4Addr 255 255 255 255, 32), (Ipv4Addr 100 64 0 0, 10), (Ipv4Addr 198 18 0 0, 15)]"

definition v6_blocks :: "(nat \<times> nat) list" where
  "v6_blocks = map (\<lambda>(a, len). (v6_value a, len))
     [(Ipv6Addr 0 0 0 0 0 0 0 1, 128), (Ipv6Addr 0 0 0 0 0 0 0 0, 128),
      (Ipv6Addr 0xfc00 0 0 0 0 0 0 0, 7), (Ipv6Addr 0xfe80 0 0 0 0 0 0 0, 10),
      (Ipv6Addr 0xff00 0 0 0 0 0 0 0, 8), (Ipv6Addr 0x2001 0x0db8 0 0 0 0 0 0, 32),
      (Ipv6Addr 0x64 0xff9b 1 0 0 0 0 0, 48), (Ipv6Addr 0x2001 0 0 0 0 0 0 0, 32),
      (Ipv6Addr 0x2002 0 0 0 0 0 0 0, 16)]"

text \<open>The /96 blocks whose last 32 bits are an IPv4 address.\<close>

definition v4_carriers :: "(nat \<times> nat) list" where
  "v4_carriers = map (\<lambda>a. (v6_value a, 96))
     [Ipv6Addr 0 0 0 0 0 0 0 0, Ipv6Addr 0 0 0 0 0 0xffff 0 0,
      Ipv6Addr 0x64 0xff9b 0 0 0 0 0 0, Ipv6Addr 0 0 0 0 0xffff 0 0 0]"

definition blocked :: "ip_addr \<Rightarrow> bool" where
  "blocked ip = (case ip of
     V4 v4 \<Rightarrow> list_ex (in_block 32 (v4_value v4)) v4_blocks
   | V6 v6 \<Rightarrow>
       if list_ex (in_block 128 (v6_value v6)) v4_carriers
       then list_ex (in_block 32 (v6_value v6 mod 2 ^ 32)) v4_blocks
       else list_ex (in_block 128 (v6_value v6)) v6_blocks)"

subsection \<open>Bits of words as quotients\<close>

lemma and_not_mask: "(w :: 'a::len word) AND NOT (mask n) = push_bit n (drop_bit n w)"
  by (rule bit_word_eqI) (auto simp: bit_simps)

lemma high_bits_eq:
  fixes w :: "'a::len word"
  assumes "m = NOT (mask n)" and "c = push_bit n k" and "n < LENGTH('a)" and "unat k < 2 ^ (LENGTH('a) - n)"
  shows "w AND m = c \<longleftrightarrow> unat w div 2 ^ n = unat k"
proof -
  have "w AND m = c \<longleftrightarrow> push_bit n (drop_bit n w) = push_bit n k"
    using assms by (simp add: and_not_mask)
  also have "\<dots> \<longleftrightarrow> drop_bit n w = k"
  proof
    assume eq: "push_bit n (drop_bit n w) = push_bit n k"
    have "bit (drop_bit n w) i = bit k i" if "i < LENGTH('a)" for i
    proof (cases "i + n < LENGTH('a)")
      case True
      have "bit (push_bit n (drop_bit n w)) (i + n) = bit (push_bit n k) (i + n)" by (simp only: eq)
      with True show ?thesis by (simp add: bit_simps)
    next
      case False
      have "\<not> bit (unat k) i"
      proof -
        have "unat k < 2 ^ i"
          using assms(4) False by (meson less_le_trans not_less le_diff_conv one_le_numeral power_increasing)
        then show ?thesis by (simp add: bit_iff_odd)
      qed
      then have "\<not> bit k i" by (simp add: bit_unsigned_iff that)
      with False show ?thesis by (auto simp: bit_simps dest: bit_imp_le_length)
    qed
    then show "drop_bit n w = k" by (intro bit_word_eqI) auto
  qed simp
  also have "\<dots> \<longleftrightarrow> unat w div 2 ^ n = unat k"
    by (simp only: word_unat_eq_iff unat_drop_bit_eq) (simp add: drop_bit_eq_div)
  finally show ?thesis .
qed

lemma octet_masks:
  "(b :: 8 word) AND 0xC0 = 64 \<longleftrightarrow> unat b div 64 = 1"
  "(b :: 8 word) AND 0xFE = 18 \<longleftrightarrow> unat b div 2 = 9"
  apply (subst high_bits_eq [where n = 6 and k = 1]; simp add: mask_eq_exp_minus_1)
  apply (subst high_bits_eq [where n = 1 and k = 9]; simp add: mask_eq_exp_minus_1)
  done

lemma segment_masks:
  "(s :: 16 word) AND 0xfe00 = 0xfc00 \<longleftrightarrow> unat s div 512 = 126"
  "(s :: 16 word) AND 0xffc0 = 0xfe80 \<longleftrightarrow> unat s div 64 = 1018"
  "(s :: 16 word) AND 0xff00 = 0xff00 \<longleftrightarrow> unat s div 256 = 255"
  apply (subst high_bits_eq [where n = 9 and k = 126]; simp add: mask_eq_exp_minus_1)
  apply (subst high_bits_eq [where n = 6 and k = 1018]; simp add: mask_eq_exp_minus_1)
  apply (subst high_bits_eq [where n = 8 and k = 255]; simp add: mask_eq_exp_minus_1)
  done

lemma octet_lt: "unat (b :: 8 word) < 256"
  using unsigned_less [of b] by simp

lemma segment_lt: "unat (s :: 16 word) < 65536"
  using unsigned_less [of s] by simp

lemma word_eq_num: "(w :: 'a::len word) = numeral n \<longleftrightarrow> unat w = unat (numeral n :: 'a word)"
  "w = 0 \<longleftrightarrow> unat w = 0" "w = 1 \<longleftrightarrow> unat w = 1"
  by (simp_all add: word_unat_eq_iff)

text \<open>The quotients of the two readings of an address.\<close>

lemma quotient_split: "(y :: nat) < k \<Longrightarrow> (x * k + y) div (k * l) = x div l"
  by (simp add: div_mult2_eq)

lemma digits_eq:
  fixes x y x' y' k :: nat
  assumes "y < k" "y' < k"
  shows "x * k + y = x' * k + y' \<longleftrightarrow> x = x' \<and> y = y'"
proof
  assume eq: "x * k + y = x' * k + y'"
  have "(x * k + y) div k = x" "(x' * k + y') div k = x'" using assms by simp_all
  with eq show "x = x' \<and> y = y'" by simp
qed simp

lemma v4_quotients:
  fixes a b c d :: nat
  assumes "b < 256" "c < 256" "d < 256"
  shows "(a * 16777216 + b * 65536 + c * 256 + d) div 16777216 = a"
    "(a * 16777216 + b * 65536 + c * 256 + d) div 4194304 = a * 4 + b div 64"
    "(a * 16777216 + b * 65536 + c * 256 + d) div 1048576 = a * 16 + b div 16"
    "(a * 16777216 + b * 65536 + c * 256 + d) div 131072 = a * 128 + b div 2"
    "(a * 16777216 + b * 65536 + c * 256 + d) div 65536 = a * 256 + b"
proof -
  have q: "(a * 16777216 + b * 65536 + c * 256 + d) div (65536 * l) = (a * 256 + b) div l" for l
    using quotient_split [of "c * 256 + d" 65536 "a * 256 + b" l] assms by (simp add: algebra_simps)
  have r: "(a * 256 + b) div 64 = a * 4 + b div 64" "(a * 256 + b) div 16 = a * 16 + b div 16"
    "(a * 256 + b) div 2 = a * 128 + b div 2"
    using div_mult_self3 [of 64 "a * 4" b] div_mult_self3 [of 16 "a * 16" b] div_mult_self3 [of 2 "a * 128" b]
    by (simp_all add: mult.assoc)
  show "(a * 16777216 + b * 65536 + c * 256 + d) div 16777216 = a" using q [of 256] assms by simp
  show "(a * 16777216 + b * 65536 + c * 256 + d) div 4194304 = a * 4 + b div 64" using q [of 64] r by simp
  show "(a * 16777216 + b * 65536 + c * 256 + d) div 1048576 = a * 16 + b div 16" using q [of 16] r by simp
  show "(a * 16777216 + b * 65536 + c * 256 + d) div 131072 = a * 128 + b div 2" using q [of 2] r by simp
  show "(a * 16777216 + b * 65536 + c * 256 + d) div 65536 = a * 256 + b" using q [of 1] by simp
qed

lemma v4_private_exact: "v4_private a \<longleftrightarrow> list_ex (in_block 32 (v4_value a)) v4_blocks"
proof (cases a)
  case (Ipv4Addr a b c d)
  note lt = octet_lt [of a] octet_lt [of b] octet_lt [of c] octet_lt [of d]
  have "list_ex (in_block 32 (v4_value (Ipv4Addr a b c d))) v4_blocks \<longleftrightarrow>
      unat a = 127 \<or> unat a = 10 \<or> unat a * 16 + unat b div 16 = 172 * 16 + 1
      \<or> unat a * 256 + unat b = 192 * 256 + 168 \<or> unat a * 256 + unat b = 169 * 256 + 254
      \<or> unat a = 0 \<or> v4_value (Ipv4Addr a b c d) = 2 ^ 32 - 1
      \<or> unat a * 4 + unat b div 64 = 100 * 4 + 1 \<or> unat a * 128 + unat b div 2 = 198 * 128 + 9"
    by (simp add: v4_blocks_def in_block_def v4_quotients [OF lt(2-4)])
  also have "\<dots> \<longleftrightarrow> v4_private (Ipv4Addr a b c d)"
  proof -
    have q: "unat b div 16 < 16" "unat b div 64 < 4" "unat b div 2 < 128" using lt(2) by simp_all
    have b16: "unat b div 16 = 1 \<longleftrightarrow> 16 \<le> unat b \<and> unat b \<le> 31" by linarith
    have all: "v4_value (Ipv4Addr a b c d) = 2 ^ 32 - 1 \<longleftrightarrow> unat a = 255 \<and> unat b = 255 \<and> unat c = 255 \<and> unat d = 255"
      using digits_eq [OF lt(2), of 255 "unat a" 255]
        digits_eq [OF lt(3), of 255 "unat a * 256 + unat b" "255 * 256 + 255"]
        digits_eq [OF lt(4), of 255 "(unat a * 256 + unat b) * 256 + unat c" "(255 * 256 + 255) * 256 + 255"]
      by (simp add: algebra_simps)
    show ?thesis
      using lt
      by (simp only: v4_private.simps octet_masks, simp only: digits_eq [OF q(1)] digits_eq [OF lt(2)] digits_eq [OF q(2)] digits_eq [OF q(3)] all b16
          v4_is_loopback.simps v4_is_private.simps v4_is_link_local.simps v4_is_broadcast.simps
          word_eq_num word_le_nat_alt) simp
  qed
  finally show ?thesis by (simp add: Ipv4Addr)
qed

subsection \<open>Version 6 addresses as numbers\<close>

definition segments_value :: "nat list \<Rightarrow> nat" where
  "segments_value = foldl (\<lambda>n s. n * 65536 + s) 0"

lemma segments_value_snoc [simp]: "segments_value (xs @ [x]) = segments_value xs * 65536 + x"
  by (simp add: segments_value_def)

lemma segments_value_prefix:
  "\<forall>y\<in>set ys. y < 65536 \<Longrightarrow> segments_value (xs @ ys) div 65536 ^ length ys = segments_value xs"
proof (induction ys rule: rev_induct)
  case (snoc y ys)
  then have "(segments_value (xs @ ys) * 65536 + y) div (65536 * 65536 ^ length ys) = segments_value xs"
    by (simp add: quotient_split)
  then show ?case by (simp flip: append_assoc)
qed simp

lemma segments_value_inject:
  "length xs = length ys \<Longrightarrow> \<forall>x\<in>set xs \<union> set ys. x < 65536 \<Longrightarrow>
   segments_value xs = segments_value ys \<longleftrightarrow> xs = ys"
proof (induction xs arbitrary: ys rule: rev_induct)
  case (snoc x xs)
  then obtain zs z where "ys = zs @ [z]" by (cases ys rule: rev_cases) auto
  with snoc show ?case by (auto simp: digits_eq)
qed simp

text \<open>A block of whole segments fixes these segments.\<close>

lemma segment_block:
  assumes "\<forall>s\<in>set ss \<union> set bs. s < 65536" and "length ss = 8" "length bs = 8" and "n \<le> 8"
  shows "in_block 128 (segments_value ss) (segments_value bs, 16 * n) \<longleftrightarrow> take n ss = take n bs"
proof -
  have q: "segments_value xs div 2 ^ (128 - 16 * n) = segments_value (take n xs)"
    if "\<forall>s\<in>set xs. s < 65536" "length xs = 8" for xs
  proof -
    have "(2 :: nat) ^ (128 - 16 * n) = 65536 ^ length (drop n xs)"
      using that(2) power_mult [of "2 :: nat" 16 "8 - n"] by (simp add: diff_mult_distrib2)
    then show ?thesis
      using segments_value_prefix [of "drop n xs" "take n xs"] that(1) by (auto dest: in_set_dropD)
  qed
  show ?thesis
    using assms q by (simp add: in_block_def) (subst segments_value_inject; auto dest: in_set_takeD)
qed

text \<open>A block shorter than a segment fixes the leading bits of the first segment.\<close>

lemma leading_block:
  assumes "\<forall>s\<in>set ss \<union> set bs. s < 65536" and "length ss = 7" "length bs = 7" and "n \<le> 16" "a < 65536" "b < 65536"
  shows "in_block 128 (segments_value (a # ss)) (segments_value (b # bs), n) \<longleftrightarrow> a div 2 ^ (16 - n) = b div 2 ^ (16 - n)"
proof -
  have q: "segments_value (x # xs) div 2 ^ (128 - n) = x div 2 ^ (16 - n)"
    if "\<forall>s\<in>set xs. s < 65536" "length xs = 7" for x xs
  proof -
    have "(2 :: nat) ^ (128 - n) = 65536 ^ length xs * 2 ^ (16 - n)"
      using that(2) assms(4) power_add [of "2 :: nat" 112 "16 - n"] by simp
    moreover have "segments_value [x] = x" by (simp add: segments_value_def)
    ultimately show ?thesis
      using segments_value_prefix [of xs "[x]"] that(1) by (simp add: div_mult2_eq)
  qed
  show ?thesis using assms q by (simp add: in_block_def)
qed

subsection \<open>The classification is the table\<close>

lemma v6_value_segments:
  "v6_value (Ipv6Addr a b c d e f g h) = segments_value (map unat [a, b, c, d, e, f, g, h])"
  by (simp add: segments_value_def algebra_simps)

lemma octets_of_segment:
  "unat (high_octet s) = unat s div 256" "unat (low_octet s) = unat s mod 256"
proof -
  have "unat s div 256 < 256" using segment_lt [of s] by (simp add: less_mult_imp_div_less)
  then show "unat (high_octet s) = unat s div 256"
    by (simp only: high_octet_def unsigned_ucast_eq unat_drop_bit_eq) (simp add: drop_bit_eq_div take_bit_eq_mod)
  show "unat (low_octet s) = unat s mod 256"
    by (simp add: low_octet_def unsigned_ucast_eq take_bit_eq_mod)
qed

lemma segment_octets_eq:
  "high_octet s = p \<and> low_octet s = q \<longleftrightarrow> unat s = unat p * 256 + unat q"
proof -
  have "unat s = unat s div 256 * 256 + unat s mod 256" by simp
  then show ?thesis
    using digits_eq [of "unat s mod 256" 256 "unat q" "unat s div 256" "unat p"] octet_lt [of q]
    by (simp add: word_unat_eq_iff octets_of_segment)
qed

lemma embedded_value:
  "v4_value (Ipv4Addr (high_octet g) (low_octet g) (high_octet h) (low_octet h)) =
   v6_value (Ipv6Addr a b c d e f g h) mod 2 ^ 32"
proof -
  have "v6_value (Ipv6Addr a b c d e f g h)
      = segments_value (map unat [a, b, c, d, e, f]) * 2 ^ 32 + (unat g * 65536 + unat h)"
    by (simp add: segments_value_def algebra_simps)
  then have "v6_value (Ipv6Addr a b c d e f g h) mod 2 ^ 32 = (unat g * 65536 + unat h) mod 2 ^ 32"
    by (metis mod_mult_self3)
  also have "\<dots> = unat g * 65536 + unat h"
    using segment_lt [of g] segment_lt [of h] by simp
  also have "\<dots> = v4_value (Ipv4Addr (high_octet g) (low_octet g) (high_octet h) (low_octet h))"
  proof -
    obtain p q where "unat g div 256 = p" "unat g mod 256 = q" "unat g = p * 256 + q"
      using div_mult_mod_eq [of "unat g" 256] by metis
    then show ?thesis by (simp add: octets_of_segment algebra_simps)
  qed
  finally show ?thesis by simp
qed

lemma segment_num:
  fixes s :: "16 word"
  shows "unat s = 0 \<longleftrightarrow> s = 0" "unat s = Suc 0 \<longleftrightarrow> s = 1"
    "(numeral n :: nat) < 65536 \<Longrightarrow> unat s = numeral n \<longleftrightarrow> s = numeral n"
proof -
  show "unat s = 0 \<longleftrightarrow> s = 0" by (simp add: unat_eq_0)
  show "unat s = Suc 0 \<longleftrightarrow> s = 1" by (simp add: word_unat_eq_iff)
  assume "(numeral n :: nat) < 65536"
  then have "unat (numeral n :: 16 word) = numeral n"
    by (simp only: unsigned_numeral of_nat_id) (rule take_bit_nat_eq_self, simp)
  then show "unat s = numeral n \<longleftrightarrow> s = numeral n" by (simp only: word_unat_eq_iff)
qed

lemma embedded_prefixes:
  "embedded_ipv4 (Ipv6Addr a b c d e f g h) NAT64_WELL_KNOWN_PREFIX =
     (if a = 0x64 \<and> b = 0xff9b \<and> c = 0 \<and> d = 0 \<and> e = 0 \<and> f = 0
      then Some (Ipv4Addr (high_octet g) (low_octet g) (high_octet h) (low_octet h)) else None)"
  "embedded_ipv4 (Ipv6Addr a b c d e f g h) IPV4_TRANSLATED_PREFIX =
     (if a = 0 \<and> b = 0 \<and> c = 0 \<and> d = 0 \<and> e = 0xffff \<and> f = 0
      then Some (Ipv4Addr (high_octet g) (low_octet g) (high_octet h) (low_octet h)) else None)"
proof -
  have eq: "high_octet s = p \<and> low_octet s = q \<and> R \<longleftrightarrow> unat s = unat p * 256 + unat q \<and> R" for s p q R
    using segment_octets_eq by blast
  have octs: "v6_octets (Ipv6Addr a b c d e f g h) =
      [high_octet a, low_octet a, high_octet b, low_octet b, high_octet c, low_octet c,
       high_octet d, low_octet d, high_octet e, low_octet e, high_octet f, low_octet f,
       high_octet g, low_octet g, high_octet h, low_octet h]" by simp
  show "embedded_ipv4 (Ipv6Addr a b c d e f g h) NAT64_WELL_KNOWN_PREFIX =
     (if a = 0x64 \<and> b = 0xff9b \<and> c = 0 \<and> d = 0 \<and> e = 0 \<and> f = 0
      then Some (Ipv4Addr (high_octet g) (low_octet g) (high_octet h) (low_octet h)) else None)"
    unfolding embedded_ipv4_def NAT64_WELL_KNOWN_PREFIX_def octs Let_def
    by (simp add: eq segment_octets_eq segment_num cong: if_cong)
  show "embedded_ipv4 (Ipv6Addr a b c d e f g h) IPV4_TRANSLATED_PREFIX =
     (if a = 0 \<and> b = 0 \<and> c = 0 \<and> d = 0 \<and> e = 0xffff \<and> f = 0
      then Some (Ipv4Addr (high_octet g) (low_octet g) (high_octet h) (low_octet h)) else None)"
    unfolding embedded_ipv4_def IPV4_TRANSLATED_PREFIX_def octs Let_def
    by (simp add: eq segment_octets_eq segment_num cong: if_cong)
qed

lemma v6_block_simps:
  fixes a b c d e f g h :: "16 word"
  shows "list_ex (in_block 128 (v6_value (Ipv6Addr a b c d e f g h))) v4_carriers \<longleftrightarrow>
      a = 0 \<and> b = 0 \<and> c = 0 \<and> d = 0 \<and> e = 0 \<and> (f = 0 \<or> f = 0xffff)
      \<or> a = 0x64 \<and> b = 0xff9b \<and> c = 0 \<and> d = 0 \<and> e = 0 \<and> f = 0
      \<or> a = 0 \<and> b = 0 \<and> c = 0 \<and> d = 0 \<and> e = 0xffff \<and> f = 0"
proof -
  have "in_block 128 (v6_value (Ipv6Addr a b c d e f g h)) (v6_value (Ipv6Addr a' b' c' d' e' f' g' h'), 96)
      \<longleftrightarrow> a = a' \<and> b = b' \<and> c = c' \<and> d = d' \<and> e = e' \<and> f = f'" for a' b' c' d' e' f' g' h'
    using segment_block [of "map unat [a, b, c, d, e, f, g, h]" "map unat [a', b', c', d', e', f', g', h']" 6]
    by (simp add: v6_value_segments segment_lt word_unat_eq_iff del: v6_value.simps)
  then show ?thesis by (auto simp: v4_carriers_def simp del: v6_value.simps)
qed

lemma v6_reserved_exact: "v6_reserved x \<longleftrightarrow> list_ex (in_block 128 (v6_value x)) v6_blocks"
proof (cases x)
  case (Ipv6Addr a b c d e f g h)
  let ?v = "v6_value (Ipv6Addr a b c d e f g h)"
  have whole: "in_block 128 ?v (v6_value (Ipv6Addr a' b' c' d' e' f' g' h'), 16 * n) \<longleftrightarrow>
      take n (map unat [a, b, c, d, e, f, g, h]) = take n (map unat [a', b', c', d', e', f', g', h'])"
    if "n \<le> 8" for a' b' c' d' e' f' g' h' n
    using segment_block [of "map unat [a, b, c, d, e, f, g, h]" "map unat [a', b', c', d', e', f', g', h']" n] that
    by (simp add: v6_value_segments segment_lt del: v6_value.simps)
  have lead: "in_block 128 ?v (v6_value (Ipv6Addr a' 0 0 0 0 0 0 0), n) \<longleftrightarrow>
      unat a div 2 ^ (16 - n) = unat a' div 2 ^ (16 - n)" if "n \<le> 16" for a' n
    using leading_block [of "map unat [b, c, d, e, f, g, h]" "[0, 0, 0, 0, 0, 0, 0]" n "unat a" "unat a'"] that
    by (simp add: v6_value_segments segment_lt del: v6_value.simps)
  have "list_ex (in_block 128 ?v) v6_blocks \<longleftrightarrow>
      v6_is_loopback (Ipv6Addr a b c d e f g h) \<or> v6_is_unspecified (Ipv6Addr a b c d e f g h)
      \<or> unat a div 512 = 126 \<or> unat a div 64 = 1018 \<or> unat a div 256 = 255
      \<or> a = 0x2001 \<and> b = 0x0db8 \<or> a = 0x64 \<and> b = 0xff9b \<and> c = 1
      \<or> a = 0x2001 \<and> b = 0 \<or> a = 0x2002"
  proof -
    have "in_block 128 ?v (v6_value (Ipv6Addr 0 0 0 0 0 0 0 1), 128) \<longleftrightarrow> v6_is_loopback (Ipv6Addr a b c d e f g h)"
      using whole [of 8 0 0 0 0 0 0 0 1] by (simp add: segment_num del: v6_value.simps)
    moreover have "in_block 128 ?v (v6_value (Ipv6Addr 0 0 0 0 0 0 0 0), 128) \<longleftrightarrow> v6_is_unspecified (Ipv6Addr a b c d e f g h)"
      using whole [of 8 0 0 0 0 0 0 0 0] by (simp add: segment_num del: v6_value.simps)
    moreover have "in_block 128 ?v (v6_value (Ipv6Addr 0x2001 0x0db8 0 0 0 0 0 0), 32) \<longleftrightarrow> a = 0x2001 \<and> b = 0x0db8"
      using whole [of 2 "0x2001" "0x0db8" 0 0 0 0 0 0] by (simp add: segment_num del: v6_value.simps)
    moreover have "in_block 128 ?v (v6_value (Ipv6Addr 0x64 0xff9b 1 0 0 0 0 0), 48) \<longleftrightarrow> a = 0x64 \<and> b = 0xff9b \<and> c = 1"
      using whole [of 3 "0x64" "0xff9b" 1 0 0 0 0 0] by (simp add: segment_num del: v6_value.simps)
    moreover have "in_block 128 ?v (v6_value (Ipv6Addr 0x2001 0 0 0 0 0 0 0), 32) \<longleftrightarrow> a = 0x2001 \<and> b = 0"
      using whole [of 2 "0x2001" 0 0 0 0 0 0 0] by (simp add: segment_num del: v6_value.simps)
    moreover have "in_block 128 ?v (v6_value (Ipv6Addr 0x2002 0 0 0 0 0 0 0), 16) \<longleftrightarrow> a = 0x2002"
      using whole [of 1 "0x2002" 0 0 0 0 0 0 0] by (simp add: segment_num del: v6_value.simps)
    moreover have "in_block 128 ?v (v6_value (Ipv6Addr 0xfc00 0 0 0 0 0 0 0), 7) \<longleftrightarrow> unat a div 512 = 126"
      using lead [of 7 "0xfc00"] by (simp del: v6_value.simps)
    moreover have "in_block 128 ?v (v6_value (Ipv6Addr 0xfe80 0 0 0 0 0 0 0), 10) \<longleftrightarrow> unat a div 64 = 1018"
      using lead [of 10 "0xfe80"] by (simp del: v6_value.simps)
    moreover have "in_block 128 ?v (v6_value (Ipv6Addr 0xff00 0 0 0 0 0 0 0), 8) \<longleftrightarrow> unat a div 256 = 255"
      using lead [of 8 "0xff00"] by (simp del: v6_value.simps)
    ultimately show ?thesis
      by (simp only: v6_blocks_def list.map prod.case list_ex_Nil_iff list_ex_Cons_iff simp_thms)
  qed
  then show ?thesis unfolding Ipv6Addr v6_reserved.simps segment_masks by (simp only: disj_ac)
qed

text \<open>The classification that guards outbound calls is exactly the documented table of address
  blocks: an IPv4 address is rejected when it lies in one of the nine blocks, and so is every IPv6
  address that carries one of those in its last 32 bits (compatible, mapped, translated or NAT64
  form); any other IPv6 address is rejected when it lies in one of the reserved IPv6 blocks.\<close>

theorem private_ip_exact: "is_private_ip ip \<longleftrightarrow> blocked ip"
proof (cases ip)
  case (V4 v4)
  then show ?thesis by (simp add: is_private_ip_def blocked_def v4_private_exact)
next
  case (V6 v6)
  obtain a b c d e f g h where v6: "v6 = Ipv6Addr a b c d e f g h" by (cases v6)
  let ?w = "Ipv4Addr (high_octet g) (low_octet g) (high_octet h) (low_octet h)"
  have "is_private_ip ip = (if list_ex (in_block 128 (v6_value v6)) v4_carriers then v4_private ?w else v6_reserved v6)"
    unfolding v6 v6_block_simps
    by (auto simp: V6 v6 is_private_ip_def embedded_prefixes simp del: v4_private.simps v6_reserved.simps)
  then show ?thesis
    by (simp only: v4_private_exact v6_reserved_exact embedded_value [of g h a b c d e f])
      (simp add: blocked_def V6 v6 del: v6_value.simps)
qed

end
