(* ===== verification/Workflow_Executor.thy ===== *)
theory Workflow_Executor
  imports Workflow_Condition Network
begin

section \<open>Executing the steps of a workflow (\<open>crates/buzz-workflow/src/executor.rs\<close>)\<close>

text \<open>
  One step after another: condition, templates, action, output. What an action does to the world
  is recorded as a list of effects, in order; what the world answers (the database, the message
  sink, name resolution, HTTP, the random token, the timer around the action) is the record
  \<open>step_io\<close>, one for each step. Pure functions of other packages (URL and UUID syntax, hexadecimal
  and JSON text) are the record \<open>engine_lib\<close>.
\<close>

datatype dns_outcome = DnsTaskFailed | DnsError | Resolved "ip_addr list"

datatype chunk_result = Chunk bytes | ChunkError

datatype http_outcome = HttpFailed | HttpResponse nat "chunk_result list"

datatype reaction_outcome = ReactionUnreachable | ReactionResponse nat "utext option"

text \<open>The answers of the world to one step; an \<open>option\<close> is \<open>None\<close> for a failed call.\<close>

record step_io =
  io_run :: "uuid option"
  io_workflow :: "(uuid option \<times> bytes) option"
  io_sink :: "utext option"
  io_dns :: dns_outcome
  io_client :: bool
  io_http :: http_outcome
  io_reaction :: reaction_outcome
  io_token :: utext
  io_timeout :: "nat option"

record 'c engine_lib =
  el_text :: text_lib
  el_cond :: "'c condition_lib"
  el_parse_uuid :: "utext \<Rightarrow> uuid option"
  el_show_uuid :: "uuid \<Rightarrow> utext"
  el_hex :: "bytes \<Rightarrow> utext"
  el_parse_url :: "utext \<Rightarrow> (utext option \<times> nat option) option"
  el_method_ok :: "utext \<Rightarrow> bool"
  el_utf8_lossy :: "bytes \<Rightarrow> utext"
  el_from_json :: "utext \<Rightarrow> wjson option"
  el_default_timeout :: nat
  el_sink_set :: bool
  el_env :: "string \<Rightarrow> utext option"

datatype effect =
    PostMessage uuid utext utext utext
  | HttpCall ip_addr nat utext utext "(utext \<times> utext) list option" "utext option"
  | PostReaction utext "(utext \<times> utext) option" utext
  | Slept nat

subsection \<open>Resolving the fields of an action\<close>

definition t_opt :: "(utext \<Rightarrow> workflow_error + utext) \<Rightarrow> utext option \<Rightarrow> workflow_error + utext option" where
  "t_opt t s = (case s of None \<Rightarrow> Inr None | Some v \<Rightarrow> and_then (t v) (\<lambda>w. Inr (Some w)))"

fun resolve_headers ::
  "(utext \<Rightarrow> workflow_error + utext) \<Rightarrow> (utext \<times> utext) list \<Rightarrow> workflow_error + (utext \<times> utext) list" where
  "resolve_headers t [] = Inr []"
| "resolve_headers t ((k, v) # h) =
     and_then (t v) (\<lambda>w. and_then (resolve_headers t h) (\<lambda>out. Inr ((k, w) # out)))"

definition resolve_step_templates ::
  "text_lib \<Rightarrow> action_def \<Rightarrow> trigger_context \<Rightarrow> step_outputs \<Rightarrow> workflow_error + action_def" where
  "resolve_step_templates L action tc outs =
     (let t = resolve_template L tc outs in
      case action of
        SendMessage text channel \<Rightarrow>
          and_then (t text) (\<lambda>text'. and_then (t_opt t channel) (\<lambda>channel'. Inr (SendMessage text' channel')))
      | SendDm to text \<Rightarrow> and_then (t to) (\<lambda>to'. and_then (t text) (\<lambda>text'. Inr (SendDm to' text')))
      | SetChannelTopic topic \<Rightarrow> and_then (t topic) (\<lambda>topic'. Inr (SetChannelTopic topic'))
      | AddReaction emoji \<Rightarrow> and_then (t emoji) (\<lambda>emoji'. Inr (AddReaction emoji'))
      | CallWebhook url method headers body \<Rightarrow>
          and_then (case headers of None \<Rightarrow> Inr None
                    | Some h \<Rightarrow> and_then (resolve_headers t h) (\<lambda>out. Inr (Some out))) (\<lambda>headers'.
          and_then (t url) (\<lambda>url'.
          and_then (t_opt t body) (\<lambda>body'. Inr (CallWebhook url' method headers' body'))))
      | RequestApproval from message timeout \<Rightarrow>
          and_then (t from) (\<lambda>from'. and_then (t message) (\<lambda>message'. Inr (RequestApproval from' message' timeout)))
      | Delay duration \<Rightarrow> Inr (Delay duration))"

subsection \<open>Actions\<close>

definition resolve_send_message_channel ::
  "('c, 'z) engine_lib_scheme \<Rightarrow> utext option \<Rightarrow> utext \<Rightarrow> uuid option \<Rightarrow> workflow_error + utext" where
  "resolve_send_message_channel EL explicit0 trigger_channel workflow_channel_id =
     (let explicit = Option.bind (map_option trim explicit0) (\<lambda>v. if v = [] then None else Some v) in
      case workflow_channel_id of
        Some wc \<Rightarrow> (case explicit of
            Some ex \<Rightarrow> (case el_parse_uuid EL ex of
                None \<Rightarrow> Inl (InvalidDefinition ChannelOverrideInvalid)
              | Some oc \<Rightarrow> if oc \<noteq> wc then Inl (InvalidDefinition ChannelOverrideForeign)
                           else Inr (el_show_uuid EL wc))
          | None \<Rightarrow> Inr (el_show_uuid EL wc))
      | None \<Rightarrow> (case explicit of
            Some ex \<Rightarrow> (case el_parse_uuid EL ex of
                None \<Rightarrow> Inl (InvalidDefinition ChannelOverrideInvalid)
              | Some oc \<Rightarrow> Inr (el_show_uuid EL oc))
          | None \<Rightarrow>
              if trim trigger_channel = [] then Inl (InvalidDefinition NoChannel)
              else Inr (trim trigger_channel)))"

definition check_ssrf :: "dns_outcome \<Rightarrow> workflow_error + ip_addr" where
  "check_ssrf dns = (case dns of
     DnsTaskFailed \<Rightarrow> Inl (WebhookError SsrfTaskFailed)
   | DnsError \<Rightarrow> Inl (WebhookError DnsFailed)
   | Resolved [] \<Rightarrow> Inl (WebhookError DnsEmpty)
   | Resolved (a # addrs) \<Rightarrow>
       if list_ex is_private_ip (a # addrs) then Inl (WebhookError SsrfBlocked) else Inr a)"

definition WEBHOOK_MAX_RESPONSE_BYTES :: nat where
  "WEBHOOK_MAX_RESPONSE_BYTES = 1024 * 1024"

fun read_body :: "bytes \<Rightarrow> chunk_result list \<Rightarrow> workflow_error + bytes" where
  "read_body acc [] = Inr acc"
| "read_body acc (ChunkError # cs) = Inl (WebhookError BodyReadFailed)"
| "read_body acc (Chunk b # cs) =
     (if length (acc @ b) > WEBHOOK_MAX_RESPONSE_BYTES then Inl (WebhookError BodyTooLarge)
      else read_body (acc @ b) cs)"

definition call_webhook_impl ::
  "('c, 'z) engine_lib_scheme \<Rightarrow> step_io \<Rightarrow> utext \<Rightarrow> utext \<Rightarrow> (utext \<times> utext) list option
   \<Rightarrow> utext option \<Rightarrow> effect list \<times> (workflow_error + wjson)" where
  "call_webhook_impl EL io url method headers body =
     (case el_parse_url EL url of
        None \<Rightarrow> ([], Inl (WebhookError InvalidUrl))
      | Some (None, _) \<Rightarrow> ([], Inl (WebhookError NoHost))
      | Some (Some host, port0) \<Rightarrow>
          (case check_ssrf (io_dns io) of
             Inl e \<Rightarrow> ([], Inl e)
           | Inr safe_ip \<Rightarrow>
               let port = (case port0 of Some p \<Rightarrow> p | None \<Rightarrow> 80) in
               if \<not> io_client io then ([], Inl (WebhookError ClientBuild))
               else if \<not> el_method_ok EL method then ([], Inl (WebhookError InvalidMethod))
               else ([HttpCall safe_ip port method url headers body],
                 case io_http io of
                   HttpFailed \<Rightarrow> Inl (WebhookError SendFailed)
                 | HttpResponse status chunks \<Rightarrow>
                     and_then (read_body [] chunks) (\<lambda>body_bytes.
                       Inr (WObject [(ascii ''body'', WString (el_utf8_lossy EL body_bytes)),
                                     (ascii ''status'', WNumber (JsonInt (int status)))])))))"

text \<open>
  The one other request over HTTP: a POST of the emoji to the relay's own address, as the environment of
  the process gives it, with the credential the environment gives.
\<close>

definition reaction_url :: "('c, 'z) engine_lib_scheme \<Rightarrow> utext \<Rightarrow> utext" where
  "reaction_url EL message_id =
     (case el_env EL ''BUZZ_RELAY_BASE_URL'' of Some base_url \<Rightarrow> base_url | None \<Rightarrow> ascii ''http://localhost:3000'')
       @ ascii ''/api/messages/'' @ message_id @ ascii ''/reactions''"

definition reaction_credential :: "('c, 'z) engine_lib_scheme \<Rightarrow> (utext \<times> utext) option" where
  "reaction_credential EL = (case el_env EL ''BUZZ_API_TOKEN'' of
     Some token \<Rightarrow> Some (ascii ''Authorization'', ascii ''Bearer '' @ token)
   | None \<Rightarrow> map_option (\<lambda>pubkey. (ascii ''X-Pubkey'', pubkey)) (el_env EL ''BUZZ_RELAY_PUBKEY''))"

definition add_reaction_impl ::
  "('c, 'z) engine_lib_scheme \<Rightarrow> step_io \<Rightarrow> utext \<Rightarrow> utext \<Rightarrow> effect list \<times> (workflow_error + wjson)" where
  "add_reaction_impl EL io message_id emoji =
     ([PostReaction (reaction_url EL message_id) (reaction_credential EL) emoji],
      case io_reaction io of
        ReactionUnreachable \<Rightarrow> Inl (WebhookError ReactionHttp)
      | ReactionResponse status body \<Rightarrow>
          if \<not> (200 \<le> status \<and> status < 300) then Inl (WebhookError (ReactionStatus status))
          else let body_text = (case body of Some b \<Rightarrow> b | None \<Rightarrow> []);
                   body_json = (case el_from_json EL body_text of
                       Some j \<Rightarrow> j | None \<Rightarrow> WObject [(ascii ''raw'', WString body_text)])
               in Inr (WObject [(ascii ''added'', WBool True), (ascii ''response'', body_json),
                                (ascii ''status'', WNumber (JsonInt (int status)))]))"

datatype step_result = Completed wjson | Suspended utext | Skipped

definition MAX_DELAY_SECS :: nat where "MAX_DELAY_SECS = 270"

definition dispatch_action ::
  "('c, 'z) engine_lib_scheme \<Rightarrow> step_io \<Rightarrow> uuid \<Rightarrow> trigger_context \<Rightarrow> action_def
   \<Rightarrow> effect list \<times> (workflow_error + step_result)" where
  "dispatch_action EL io community_id tc action =
     (case action of
        SendMessage text channel \<Rightarrow>
          (case io_run io of
             None \<Rightarrow> ([], Inl (WebhookError RunLookupFailed))
           | Some workflow_id \<Rightarrow> (case io_workflow io of
               None \<Rightarrow> ([], Inl (WebhookError WorkflowLookupFailed))
             | Some (wf_channel, owner) \<Rightarrow>
                 (case resolve_send_message_channel EL channel (tc_channel_id tc) wf_channel of
                    Inl e \<Rightarrow> ([], Inl e)
                  | Inr channel_id \<Rightarrow>
                      if \<not> el_sink_set EL then ([], Inl (InvalidDefinition SinkNotInitialized))
                      else ([PostMessage community_id channel_id text (el_hex EL owner)],
                        case io_sink io of
                          None \<Rightarrow> Inl (WebhookError SinkFailed)
                        | Some event_id \<Rightarrow>
                            Inr (Completed (WObject [(ascii ''event_id'', WString event_id),
                                                     (ascii ''sent'', WBool True)]))))))
      | SendDm to text \<Rightarrow> ([], Inl (NotImplemented ''SendDm''))
      | SetChannelTopic topic \<Rightarrow> ([], Inl (NotImplemented ''SetChannelTopic''))
      | AddReaction emoji \<Rightarrow>
          if tc_message_id tc = [] then ([], Inl (InvalidDefinition NoMessageId))
          else (case add_reaction_impl EL io (tc_message_id tc) emoji of
                  (effs, r) \<Rightarrow> (effs, and_then r (\<lambda>v. Inr (Completed v))))
      | CallWebhook url method headers body \<Rightarrow>
          (case call_webhook_impl EL io url (case method of Some m \<Rightarrow> m | None \<Rightarrow> ascii ''POST'') headers body of
             (effs, r) \<Rightarrow> (effs, and_then r (\<lambda>v. Inr (Completed v))))
      | RequestApproval from message timeout \<Rightarrow> ([], Inr (Suspended (io_token io)))
      | Delay duration \<Rightarrow>
          (case parse_duration_secs duration of
             Inl e \<Rightarrow> ([], Inl e)
           | Inr secs \<Rightarrow>
               if secs > MAX_DELAY_SECS then ([], Inl (InvalidDefinition (DelayTooLong secs)))
               else ([Slept secs],
                     Inr (Completed (WObject [(ascii ''slept_secs'', WNumber (JsonInt (int secs)))])))))"

subsection \<open>The loop over the steps\<close>

datatype trace_entry = TraceCompleted utext wjson | TraceSkipped utext

record execution_result =
  er_approval_token :: "utext option"
  er_step_index :: nat
  er_step_outputs :: step_outputs
  er_trace :: "trace_entry list"

record partial_progress =
  pp_step_index :: nat
  pp_trace :: "trace_entry list"

type_synonym run_outcome = "(workflow_error \<times> partial_progress) + execution_result"

text \<open>The action under its timer: a timeout strikes after some of the effects.\<close>

definition timed_dispatch ::
  "('c, 'z) engine_lib_scheme \<Rightarrow> step_io \<Rightarrow> uuid \<Rightarrow> trigger_context \<Rightarrow> wf_step \<Rightarrow> action_def
   \<Rightarrow> effect list \<times> (workflow_error + step_result)" where
  "timed_dispatch EL io community_id tc step action =
     (let timeout_secs = (case st_timeout_secs step of Some s \<Rightarrow> s | None \<Rightarrow> el_default_timeout EL);
          (effs, r) = dispatch_action EL io community_id tc action
      in case io_timeout io of
           Some n \<Rightarrow> (take n effs, Inl (StepTimeout (st_id step) timeout_secs))
         | None \<Rightarrow> (effs, r))"

fun steps_from ::
  "('c, 'z) engine_lib_scheme \<Rightarrow> (nat \<Rightarrow> step_io) \<Rightarrow> uuid \<Rightarrow> trigger_context \<Rightarrow> nat
   \<Rightarrow> nat \<Rightarrow> wf_step list \<Rightarrow> step_outputs \<Rightarrow> trace_entry list \<Rightarrow> effect list \<times> run_outcome" where
  "steps_from EL io community_id tc start i [] outs trace =
     ([], Inr \<lparr>er_approval_token = None, er_step_index = i, er_step_outputs = outs, er_trace = trace\<rparr>)"
| "steps_from EL io community_id tc start i (step # steps) outs trace =
     (let failed = (\<lambda>effs e. (effs, Inl (e, \<lparr>pp_step_index = i, pp_trace = trace\<rparr>)));
          continue = steps_from EL io community_id tc start (Suc i) steps
      in
      if i < start then continue outs trace
      else case (case st_if_expr step of
                   None \<Rightarrow> Inr True
                 | Some expr \<Rightarrow> evaluate_condition (el_text EL) (el_cond EL) expr tc outs) of
             Inl e \<Rightarrow> failed [] e
           | Inr False \<Rightarrow> continue outs (trace @ [TraceSkipped (st_id step)])
           | Inr True \<Rightarrow>
               (case resolve_step_templates (el_text EL) (st_action step) tc outs of
                  Inl e \<Rightarrow> failed [] e
                | Inr action \<Rightarrow>
                    (case timed_dispatch EL (io i) community_id tc step action of
                       (effs, Inl e) \<Rightarrow> failed effs e
                     | (effs, Inr (Suspended token)) \<Rightarrow>
                         (effs, Inr \<lparr>er_approval_token = Some token, er_step_index = i,
                                     er_step_outputs = outs, er_trace = trace\<rparr>)
                     | (effs, Inr (Completed output)) \<Rightarrow>
                         (case continue (AList.update (st_id step) output outs)
                                 (trace @ [TraceCompleted (st_id step) output]) of
                            (effs', r) \<Rightarrow> (effs @ effs', r))
                     | (effs, Inr Skipped) \<Rightarrow>
                         (case continue outs (trace @ [TraceSkipped (st_id step)]) of
                            (effs', r) \<Rightarrow> (effs @ effs', r)))))"

definition execute_steps ::
  "('c, 'z) engine_lib_scheme \<Rightarrow> (nat \<Rightarrow> step_io) \<Rightarrow> uuid \<Rightarrow> workflow_def \<Rightarrow> trigger_context \<Rightarrow> nat
   \<Rightarrow> step_outputs option \<Rightarrow> effect list \<times> run_outcome" where
  "execute_steps EL io community_id def tc start_index initial_outputs =
     steps_from EL io community_id tc start_index 0 (wd_steps def)
       (case initial_outputs of Some outs \<Rightarrow> outs | None \<Rightarrow> []) []"

subsection \<open>Effects\<close>

text \<open>A template changes the texts of an action, never which action it is.\<close>

lemma resolve_keeps_webhook:
  "resolve_step_templates L action tc outs = Inr (CallWebhook url m h b) \<Longrightarrow> \<exists>url' h' b'. action = CallWebhook url' m h' b'"
  by (cases action) (auto simp: resolve_step_templates_def Let_def result_simps)

lemma dispatch_http:
  assumes "HttpCall ip port m url h b \<in> set (fst (dispatch_action EL io c tc action))"
  shows "\<exists>m' h' b'. action = CallWebhook url m' h' b'" and "\<not> is_private_ip ip"
  using assms
  by (auto simp: dispatch_action_def call_webhook_impl_def add_reaction_impl_def check_ssrf_def Let_def
      split: action_def.splits option.splits prod.splits sum.splits if_splits dns_outcome.splits list.splits)

lemma dispatch_message:
  assumes "PostMessage c' ch text author \<in> set (fst (dispatch_action EL io c tc action))"
  shows "\<exists>explicit wc owner. action = SendMessage text explicit \<and> c' = c \<and> io_workflow io = Some (wc, owner)
    \<and> author = el_hex EL owner \<and> resolve_send_message_channel EL explicit (tc_channel_id tc) wc = Inr ch"
  using assms
  by (auto simp: dispatch_action_def call_webhook_impl_def add_reaction_impl_def Let_def
      split: action_def.splits option.splits prod.splits sum.splits if_splits)

lemma dispatch_slept:
  "Slept n \<in> set (fst (dispatch_action EL io c tc action)) \<Longrightarrow> n \<le> MAX_DELAY_SECS"
  by (auto simp: dispatch_action_def call_webhook_impl_def add_reaction_impl_def Let_def
      split: action_def.splits option.splits prod.splits sum.splits if_splits)

lemma timed_dispatch_effects:
  "set (fst (timed_dispatch EL io c tc step action)) \<subseteq> set (fst (dispatch_action EL io c tc action))"
  by (auto simp: timed_dispatch_def Let_def split: prod.splits option.splits dest: in_set_takeD)

lemma steps_effects:
  assumes "e \<in> set (fst (steps_from EL io c tc start i steps outs trace))"
  shows "\<exists>step\<in>set steps. \<exists>k outs' action. resolve_step_templates (el_text EL) (st_action step) tc outs' = Inr action
    \<and> e \<in> set (fst (dispatch_action EL (io k) c tc action))"
  using assms
proof (induction steps arbitrary: i outs trace)
  case (Cons step steps)
  let ?go = "\<lambda>outs trace. steps_from EL io c tc start (Suc i) steps outs trace"
  have later: ?case if "e \<in> set (fst (?go outs' trace'))" for outs' trace'
    using Cons.IH [OF that] by auto
  show ?case
  proof (cases "\<exists>action. resolve_step_templates (el_text EL) (st_action step) tc outs = Inr action
      \<and> e \<in> set (fst (timed_dispatch EL (io i) c tc step action))")
    case True
    then show ?thesis using timed_dispatch_effects by fastforce
  next
    case False
    then have "\<exists>outs' trace'. e \<in> set (fst (?go outs' trace'))"
      using Cons.prems
      by (auto simp: Let_def split: if_splits option.splits sum.splits bool.splits prod.splits step_result.splits)
        (metis Un_iff fst_conv set_append)+
    then show ?thesis using later by blast
  qed
qed simp

lemma execute_effects:
  assumes "e \<in> set (fst (execute_steps EL io c def tc start init))"
  shows "\<exists>step\<in>set (wd_steps def). \<exists>k outs action. resolve_step_templates (el_text EL) (st_action step) tc outs = Inr action
    \<and> e \<in> set (fst (dispatch_action EL (io k) c tc action))"
  using steps_effects assms unfolding execute_steps_def by blast

lemma dispatch_reaction:
  assumes "PostReaction url auth emoji \<in> set (fst (dispatch_action EL io c tc action))"
  shows "action = AddReaction emoji \<and> url = reaction_url EL (tc_message_id tc) \<and> auth = reaction_credential EL \<and> tc_message_id tc \<noteq> []"
  using assms
  by (auto simp: dispatch_action_def call_webhook_impl_def add_reaction_impl_def Let_def
      split: action_def.splits option.splits prod.splits sum.splits if_splits)

lemma resolve_keeps_reaction:
  "resolve_step_templates L action tc outs = Inr (AddReaction emoji) \<Longrightarrow> \<exists>emoji'. action = AddReaction emoji'"
  by (cases action) (auto simp: resolve_step_templates_def Let_def result_simps)

text \<open>C17. Every request a run makes over HTTP is one of two, whatever name resolution answers and whatever the
  templates produce. The request of a \<open>call_webhook\<close> step is made only by a definition that needs elevated
  authority, and only to an address outside the blocks of the table \<open>blocked\<close>: for IPv4 the blocks
  127/8, 10/8, 172.16/12, 192.168/16, 169.254/16, 0/8, 255.255.255.255, 100.64/10 and 198.18/15 (multicast 224/4
  and the rest of 240/4 are not in the table), for IPv6 the loopback, the unspecified, the unique local,
  link-local, multicast, documentation, local NAT64, Teredo and 6to4 blocks, and the IPv4 blocks again in the
  addresses that carry an IPv4 address. The request of an \<open>add_reaction\<close> step needs neither; it goes to the
  relay's own base URL, \<open>http://localhost:3000\<close> unless the environment says otherwise, with the credential of
  the environment, and only the message that triggered the run and the emoji vary in it.\<close>

theorem webhook_calls_guarded:
  assumes "e \<in> set (fst (execute_steps EL io c def tc start init))"
  shows "case e of
      HttpCall ip port m url h b \<Rightarrow> requires_elevated_authority def \<and> \<not> blocked ip
    | PostReaction url auth emoji \<Rightarrow>
        (\<exists>step\<in>set (wd_steps def). \<exists>emoji'. st_action step = AddReaction emoji') \<and> tc_message_id tc \<noteq> [] \<and>
        url = (case el_env EL ''BUZZ_RELAY_BASE_URL'' of Some base_url \<Rightarrow> base_url | None \<Rightarrow> ascii ''http://localhost:3000'')
          @ ascii ''/api/messages/'' @ tc_message_id tc @ ascii ''/reactions'' \<and>
        auth = (case el_env EL ''BUZZ_API_TOKEN'' of
            Some token \<Rightarrow> Some (ascii ''Authorization'', ascii ''Bearer '' @ token)
          | None \<Rightarrow> map_option (\<lambda>pubkey. (ascii ''X-Pubkey'', pubkey)) (el_env EL ''BUZZ_RELAY_PUBKEY''))
    | _ \<Rightarrow> True"
proof -
  from execute_effects [OF assms] obtain step k outs action where
    s: "step \<in> set (wd_steps def)" "resolve_step_templates (el_text EL) (st_action step) tc outs = Inr action"
      "e \<in> set (fst (dispatch_action EL (io k) c tc action))" by blast
  show ?thesis
  proof (cases e)
    case (HttpCall ip port m url h b)
    note call = s(3) [unfolded HttpCall]
    obtain u' m' h' b' where "st_action step = CallWebhook u' m' h' b'"
      using dispatch_http(1) [OF call] s(2) resolve_keeps_webhook by blast
    with s(1) have "requires_elevated_authority def" by (force simp: requires_elevated_authority_def)
    with dispatch_http(2) [OF call] show ?thesis by (simp add: HttpCall private_ip_exact)
  next
    case (PostReaction url auth emoji)
    note d = dispatch_reaction [OF s(3) [unfolded PostReaction]]
    obtain emoji' where "st_action step = AddReaction emoji'" using d s(2) resolve_keeps_reaction by blast
    then show ?thesis
      using d s(1) by (auto simp: PostReaction reaction_url_def reaction_credential_def split: option.splits)
  qed simp_all
qed

text \<open>C18. The messages a run posts stay at home: they carry the community of the run and the owner of
  its workflow, and when the workflow is bound to a channel they go to this channel, whatever
  channel a step names, whatever a template resolves to, whatever the trigger says.\<close>

theorem messages_stay_in_channel:
  assumes "\<forall>k. io_workflow (io k) = None \<or> io_workflow (io k) = Some (Some wc, owner)"
    and "PostMessage c' ch text author \<in> set (fst (execute_steps EL io c def tc start init))"
  shows "c' = c \<and> ch = el_show_uuid EL wc \<and> author = el_hex EL owner"
proof -
  from execute_effects [OF assms(2)] obtain k action where
    "PostMessage c' ch text author \<in> set (fst (dispatch_action EL (io k) c tc action))" by blast
  from dispatch_message [OF this] obtain explicit ch' owner' where
    d: "c' = c" "io_workflow (io k) = Some (ch', owner')" "author = el_hex EL owner'"
      "resolve_send_message_channel EL explicit (tc_channel_id tc) ch' = Inr ch" by blast
  with assms(1) have "ch' = Some wc" "owner' = owner" by (metis option.distinct(1) option.inject prod.inject)+
  with d show ?thesis
    by (auto simp: resolve_send_message_channel_def Let_def split: option.splits if_splits)
qed

subsection \<open>The trace\<close>

fun entry_step :: "trace_entry \<Rightarrow> utext" where
  "entry_step (TraceCompleted sid _) = sid"
| "entry_step (TraceSkipped sid) = sid"

fun entry_output :: "trace_entry \<Rightarrow> (utext \<times> wjson) option" where
  "entry_output (TraceCompleted sid output) = Some (sid, output)"
| "entry_output (TraceSkipped sid) = None"

text \<open>The outputs that the entries of a trace stand for, as a resumed run rebuilds them.\<close>

definition trace_outputs :: "step_outputs \<Rightarrow> trace_entry list \<Rightarrow> step_outputs" where
  "trace_outputs outs trace =
     fold (\<lambda>e outs. case entry_output e of Some (sid, v) \<Rightarrow> AList.update sid v outs | None \<Rightarrow> outs) trace outs"

lemma trace_outputs_snoc:
  "trace_outputs outs (trace @ [TraceCompleted sid v]) = AList.update sid v (trace_outputs outs trace)"
  "trace_outputs outs (trace @ [TraceSkipped sid]) = trace_outputs outs trace"
  by (simp_all add: trace_outputs_def)

text \<open>
  What the loop guarantees when it stops at a step, in terms of the steps it started from: \<open>k\<close> is
  the index it stopped at, the new entries of the trace are those of the steps before \<open>k\<close>.
\<close>

definition stopped_at :: "nat \<Rightarrow> nat \<Rightarrow> wf_step list \<Rightarrow> trace_entry list \<Rightarrow> nat \<Rightarrow> trace_entry list \<Rightarrow> bool" where
  "stopped_at start i steps trace k trace' \<longleftrightarrow>
     i \<le> k \<and> k \<le> i + length steps \<and> take (length trace) trace' = trace
     \<and> map entry_step (drop (length trace) trace') = map st_id (drop (start - i) (take (k - i) steps))"

lemma stopped_here: "stopped_at start i steps trace i trace"
  by (simp add: stopped_at_def)

lemma stopped_skip:
  assumes "stopped_at start (Suc i) steps trace k trace'" and "i < start"
  shows "stopped_at start i (step # steps) trace k trace'"
proof -
  have "k - i = Suc (k - Suc i)" "start - i = Suc (start - Suc i)" using assms by (auto simp: stopped_at_def)
  with assms(1) show ?thesis by (auto simp: stopped_at_def)
qed

lemma stopped_later:
  assumes "stopped_at start (Suc i) steps (trace @ [e]) k trace'" and "\<not> i < start" "entry_step e = st_id step"
  shows "stopped_at start i (step # steps) trace k trace'"
proof -
  have ki: "k - i = Suc (k - Suc i)" using assms(1) by (auto simp: stopped_at_def)
  have len: "take (Suc (length trace)) trace' = trace @ [e]" using assms(1) by (simp add: stopped_at_def)
  then have "length trace < length trace'"
    by (metis append_take_drop_id length_append length_append_singleton less_add_Suc1 add_Suc trans_less_add1 lessI)
  then have "drop (length trace) trace' = trace' ! length trace # drop (Suc (length trace)) trace'"
    by (simp add: Cons_nth_drop_Suc)
  moreover have "trace' ! length trace = e"
    by (metis len lessI nth_append_length nth_take)
  moreover have "take (length trace) trace' = trace"
    by (metis append_eq_conv_conj len min.absorb1 less_or_eq_imp_le lessI take_take)
  ultimately show ?thesis using assms ki by (auto simp: stopped_at_def)
qed

definition outcome_ok :: "nat \<Rightarrow> nat \<Rightarrow> wf_step list \<Rightarrow> step_outputs \<Rightarrow> trace_entry list \<Rightarrow> run_outcome \<Rightarrow> bool" where
  "outcome_ok start i steps outs0 trace outcome = (case outcome of
     Inl (e, p) \<Rightarrow> stopped_at start i steps trace (pp_step_index p) (pp_trace p)
       \<and> start \<le> pp_step_index p \<and> pp_step_index p < i + length steps
   | Inr r \<Rightarrow> stopped_at start i steps trace (er_step_index r) (er_trace r)
       \<and> er_step_outputs r = trace_outputs outs0 (er_trace r)
       \<and> (er_approval_token r = None \<longleftrightarrow> er_step_index r = i + length steps))"

lemma outcome_skip:
  "outcome_ok start (Suc i) steps outs0 trace r \<Longrightarrow> i < start \<Longrightarrow> outcome_ok start i (step # steps) outs0 trace r"
  by (auto simp: outcome_ok_def stopped_skip split: sum.splits prod.splits)

lemma outcome_later:
  "outcome_ok start (Suc i) steps outs0 (trace @ [e]) r \<Longrightarrow> \<not> i < start \<Longrightarrow> entry_step e = st_id step
   \<Longrightarrow> outcome_ok start i (step # steps) outs0 trace r"
  by (auto simp: outcome_ok_def split: sum.splits prod.splits dest: stopped_later)

lemma outcome_failed:
  "\<not> i < start \<Longrightarrow> outcome_ok start i (step # steps) outs0 trace (Inl (e, \<lparr>pp_step_index = i, pp_trace = trace\<rparr>))"
  by (simp add: outcome_ok_def stopped_here)

lemma outcome_suspended:
  "outcome_ok start i (step # steps) outs0 trace
     (Inr \<lparr>er_approval_token = Some token, er_step_index = i, er_step_outputs = trace_outputs outs0 trace, er_trace = trace\<rparr>)"
  by (simp add: outcome_ok_def stopped_here)

text \<open>
  One turn of the loop: it stops with an outcome, or it goes on with one entry more in the trace.
\<close>

definition turn ::
  "('c, 'z) engine_lib_scheme \<Rightarrow> step_io \<Rightarrow> uuid \<Rightarrow> trigger_context \<Rightarrow> nat \<Rightarrow> wf_step \<Rightarrow> step_outputs
   \<Rightarrow> trace_entry list \<Rightarrow> effect list \<times> (run_outcome + trace_entry)" where
  "turn EL io c tc i step outs trace =
     (let failed = (\<lambda>e. Inl (Inl (e, \<lparr>pp_step_index = i, pp_trace = trace\<rparr>))) in
      case (case st_if_expr step of
              None \<Rightarrow> Inr True
            | Some expr \<Rightarrow> evaluate_condition (el_text EL) (el_cond EL) expr tc outs) of
        Inl e \<Rightarrow> ([], failed e)
      | Inr False \<Rightarrow> ([], Inr (TraceSkipped (st_id step)))
      | Inr True \<Rightarrow> (case resolve_step_templates (el_text EL) (st_action step) tc outs of
          Inl e \<Rightarrow> ([], failed e)
        | Inr action \<Rightarrow> (case timed_dispatch EL io c tc step action of
            (effs, r) \<Rightarrow> (effs, case r of
              Inl e \<Rightarrow> failed e
            | Inr (Suspended token) \<Rightarrow> Inl (Inr \<lparr>er_approval_token = Some token, er_step_index = i,
                er_step_outputs = outs, er_trace = trace\<rparr>)
            | Inr (Completed v) \<Rightarrow> Inr (TraceCompleted (st_id step) v)
            | Inr Skipped \<Rightarrow> Inr (TraceSkipped (st_id step))))))"

lemma trace_outputs_single:
  "trace_outputs outs [TraceCompleted sid v] = AList.update sid v outs" "trace_outputs outs [TraceSkipped sid] = outs"
  by (simp_all add: trace_outputs_def)

lemma steps_from_turn:
  "steps_from EL io c tc start i (step # steps) outs trace =
     (if i < start then steps_from EL io c tc start (Suc i) steps outs trace
      else case turn EL (io i) c tc i step outs trace of
        (effs, Inl outcome) \<Rightarrow> (effs, outcome)
      | (effs, Inr e) \<Rightarrow>
          (effs @ fst (steps_from EL io c tc start (Suc i) steps (trace_outputs outs [e]) (trace @ [e])),
           snd (steps_from EL io c tc start (Suc i) steps (trace_outputs outs [e]) (trace @ [e]))))"
  by (auto simp: turn_def Let_def trace_outputs_single
      split: prod.splits sum.splits option.splits bool.splits step_result.splits)

lemma turn_entry: "turn EL io c tc i step outs trace = (effs, Inr e) \<Longrightarrow> entry_step e = st_id step"
  by (auto simp: turn_def Let_def split: prod.splits sum.splits option.splits bool.splits step_result.splits)

lemma turn_stop:
  assumes "turn EL io c tc i step (trace_outputs outs0 trace) trace = (effs, Inl outcome)" and "\<not> i < start"
  shows "outcome_ok start i (step # steps) outs0 trace outcome"
  using assms outcome_failed outcome_suspended
  by (auto simp: turn_def Let_def split: prod.splits sum.splits option.splits bool.splits step_result.splits)

lemma steps_outcome:
  "outcome_ok start i steps outs0 trace (snd (steps_from EL io c tc start i steps (trace_outputs outs0 trace) trace))"
proof (induction steps arbitrary: i trace)
  case Nil
  then show ?case by (simp add: outcome_ok_def stopped_here)
next
  case (Cons step steps)
  have snoc: "trace_outputs (trace_outputs outs0 trace) [e] = trace_outputs outs0 (trace @ [e])" for e
    by (simp add: trace_outputs_def)
  show ?case
  proof (cases "i < start")
    case True
    then show ?thesis using Cons.IH by (simp add: outcome_skip)
  next
    case False
    obtain effs r where t: "turn EL (io i) c tc i step (trace_outputs outs0 trace) trace = (effs, r)" by fastforce
    show ?thesis
    proof (cases r)
      case (Inl outcome)
      then show ?thesis using turn_stop t False by (simp add: steps_from_turn del: steps_from.simps)
    next
      case (Inr e)
      then have "entry_step e = st_id step" using t turn_entry by blast
      then show ?thesis
        using Cons.IH [of "Suc i" "trace @ [e]"] t Inr False
        by (simp add: steps_from_turn snoc outcome_later del: steps_from.simps)
    qed
  qed
qed

lemma execute_outcome:
  "outcome_ok start 0 (wd_steps def) (case init of Some outs \<Rightarrow> outs | None \<Rightarrow> []) []
     (snd (execute_steps EL io c def tc start init))"
  using steps_outcome [where trace = "[]"] by (simp add: execute_steps_def trace_outputs_def)

text \<open>C23. Steps run in order and each leaves one trace entry, until one fails or asks for approval:
  a run that started at some step and returns has exactly the entries of the steps from there up
  to the index it reports, that index is the end exactly when no approval is pending, the outputs
  it reports are those of its entries; and a failed run reports the index of the step that failed
  together with the entries of the steps before it.\<close>

theorem execution_in_order:
  "case snd (execute_steps EL io c def tc start init) of
     Inr r \<Rightarrow> er_step_index r \<le> length (wd_steps def)
       \<and> map entry_step (er_trace r) = map st_id (drop start (take (er_step_index r) (wd_steps def)))
       \<and> (er_approval_token r = None \<longleftrightarrow> er_step_index r = length (wd_steps def))
       \<and> er_step_outputs r = trace_outputs (case init of Some outs \<Rightarrow> outs | None \<Rightarrow> []) (er_trace r)
   | Inl (e, p) \<Rightarrow> start \<le> pp_step_index p \<and> pp_step_index p < length (wd_steps def)
       \<and> map entry_step (pp_trace p) = map st_id (drop start (take (pp_step_index p) (wd_steps def)))"
  using execute_outcome [of start def init EL io c tc]
  by (auto simp: outcome_ok_def stopped_at_def split: sum.splits)

subsection \<open>Resuming a run\<close>

definition with_prefix :: "trace_entry list \<Rightarrow> run_outcome \<Rightarrow> run_outcome" where
  "with_prefix pre outcome = (case outcome of
     Inl (e, p) \<Rightarrow> Inl (e, p\<lparr>pp_trace := pre @ pp_trace p\<rparr>)
   | Inr r \<Rightarrow> Inr (r\<lparr>er_trace := pre @ er_trace r\<rparr>))"

lemma turn_prefix:
  "turn EL io c tc i step outs (pre @ trace) =
     (case turn EL io c tc i step outs trace of
        (effs, Inl outcome) \<Rightarrow> (effs, Inl (with_prefix pre outcome))
      | (effs, Inr e) \<Rightarrow> (effs, Inr e))"
  by (auto simp: turn_def Let_def with_prefix_def
      split: prod.splits sum.splits option.splits bool.splits step_result.splits)

lemma steps_prefix:
  "steps_from EL io c tc start i steps outs (pre @ trace) =
     map_prod id (with_prefix pre) (steps_from EL io c tc start i steps outs trace)"
proof (induction steps arbitrary: i outs trace)
  case Nil
  then show ?case by (simp add: with_prefix_def)
next
  case (Cons step steps)
  have "steps_from EL io c tc start (Suc i) steps outs' (pre @ (trace @ [e])) =
      map_prod id (with_prefix pre) (steps_from EL io c tc start (Suc i) steps outs' (trace @ [e]))" for outs' e
    by (rule Cons.IH)
  then show ?case
    using Cons.IH [of "Suc i" outs trace]
    by (auto simp: steps_from_turn turn_prefix simp del: steps_from.simps split: prod.splits sum.splits)
qed

lemma steps_skip:
  "i + length xs \<le> start \<Longrightarrow>
   steps_from EL io c tc start i (xs @ ys) outs trace = steps_from EL io c tc start (i + length xs) ys outs trace"
  by (induction xs arbitrary: i) (auto simp: steps_from_turn simp del: steps_from.simps)

lemma steps_start:
  "start \<le> i \<Longrightarrow> steps_from EL io c tc start i steps outs trace = steps_from EL io c tc 0 i steps outs trace"
  by (induction steps arbitrary: i outs trace)
    (auto simp: steps_from_turn simp del: steps_from.simps(2) split: prod.splits sum.splits)

lemma turn_stop_pending:
  "turn EL io c tc i step outs trace = (effs, Inl (Inr r)) \<Longrightarrow> er_approval_token r \<noteq> None"
  by (auto simp: turn_def Let_def split: prod.splits sum.splits option.splits bool.splits step_result.splits)

lemma steps_append:
  assumes "snd (steps_from EL io c tc 0 i xs outs trace) = Inr r" and "er_approval_token r = None"
  shows "steps_from EL io c tc 0 i (xs @ ys) outs trace =
    (fst (steps_from EL io c tc 0 i xs outs trace)
       @ fst (steps_from EL io c tc 0 (i + length xs) ys (er_step_outputs r) (er_trace r)),
     snd (steps_from EL io c tc 0 (i + length xs) ys (er_step_outputs r) (er_trace r)))"
  using assms
proof (induction xs arbitrary: i outs trace)
  case Nil
  then show ?case by auto
next
  case (Cons x xs)
  obtain effs t where t: "turn EL (io i) c tc i x outs trace = (effs, t)" by fastforce
  show ?case
  proof (cases t)
    case (Inl outcome)
    with t Cons.prems have "turn EL (io i) c tc i x outs trace = (effs, Inl (Inr r))"
      by (simp add: steps_from_turn del: steps_from.simps)
    then show ?thesis using turn_stop_pending Cons.prems(2) by blast
  next
    case (Inr e)
    with t Cons.prems have "snd (steps_from EL io c tc 0 (Suc i) xs (trace_outputs outs [e]) (trace @ [e])) = Inr r"
      by (simp add: steps_from_turn del: steps_from.simps)
    from Cons.IH [OF this Cons.prems(2)] t Inr show ?thesis
      by (simp add: steps_from_turn del: steps_from.simps)
  qed
qed

text \<open>C22. Resuming loses nothing: when the first steps of a workflow have run to completion, starting
  again behind them with the outputs rebuilt from the stored trace, and putting the stored trace
  in front of the new one, has the effects and the outcome of the run that was never interrupted.\<close>

theorem resume_continues_run:
  assumes "snd (execute_steps EL io c (def\<lparr>wd_steps := take k (wd_steps def)\<rparr>) tc 0 None) = Inr r"
    and "er_approval_token r = None" and "k \<le> length (wd_steps def)"
  shows "execute_steps EL io c def tc 0 None =
    (let (effs, outcome) = execute_steps EL io c def tc k (Some (trace_outputs [] (er_trace r)))
     in (fst (execute_steps EL io c (def\<lparr>wd_steps := take k (wd_steps def)\<rparr>) tc 0 None) @ effs,
         with_prefix (er_trace r) outcome))"
proof -
  let ?xs = "take k (wd_steps def)" and ?ys = "drop k (wd_steps def)"
  have first: "snd (steps_from EL io c tc 0 0 ?xs [] []) = Inr r"
    using assms(1) by (simp add: execute_steps_def)
  have outs: "er_step_outputs r = trace_outputs [] (er_trace r)"
    using execute_outcome [of 0 "def\<lparr>wd_steps := ?xs\<rparr>" None EL io c tc] assms(1)
    by (simp add: outcome_ok_def)
  have "execute_steps EL io c def tc k (Some (trace_outputs [] (er_trace r)))
      = steps_from EL io c tc 0 k ?ys (er_step_outputs r) []"
    using steps_skip [where EL = EL and i = 0 and xs = ?xs and start = k and ys = ?ys]
      steps_start [where EL = EL and start = k and i = k and steps = ?ys]
    by (simp add: execute_steps_def outs min.absorb2 assms(3))
  moreover have "execute_steps EL io c def tc 0 None =
      (fst (steps_from EL io c tc 0 0 ?xs [] []) @ fst (steps_from EL io c tc 0 k ?ys (er_step_outputs r) (er_trace r)),
       snd (steps_from EL io c tc 0 k ?ys (er_step_outputs r) (er_trace r)))"
    using steps_append [OF first assms(2), of ?ys] by (simp add: execute_steps_def min.absorb2 assms(3))
  ultimately show ?thesis
    using steps_prefix [where EL = EL and trace = "[]" and pre = "er_trace r"]
    by (simp add: execute_steps_def split_beta)
qed

subsection \<open>Examples\<close>

definition demo_engine :: "(utext \<times> eval_value) list engine_lib" where
  "demo_engine = \<lparr>el_text = demo_lib,
     el_cond = \<lparr>new_store = [], set_value = set_value list_store, get_value = map_of, run_eval = (\<lambda>_ _. Evaluated True)\<rparr>,
     el_parse_uuid = (\<lambda>t. if t = ascii ''7'' then Some 7 else None), el_show_uuid = (\<lambda>u. decimal_int (uint u)),
     el_hex = (\<lambda>_. ascii ''00''), el_parse_url = (\<lambda>u. Some (Some u, Some 443)), el_method_ok = (\<lambda>_. True),
     el_utf8_lossy = (\<lambda>b. map unat b), el_from_json = (\<lambda>_. None), el_default_timeout = 300, el_sink_set = True,
     el_env = (\<lambda>_. None)\<rparr>"

definition demo_io :: step_io where
  "demo_io = \<lparr>io_run = Some 5, io_workflow = Some (Some 7, [1]), io_sink = Some (ascii ''ev''),
     io_dns = Resolved [V4 (Ipv4Addr 8 8 8 8)], io_client = True, io_http = HttpResponse 200 [Chunk [104]],
     io_reaction = ReactionUnreachable, io_token = ascii ''tok'', io_timeout = None\<rparr>"

definition demo_step :: "string \<Rightarrow> action_def \<Rightarrow> wf_step" where
  "demo_step sid action =
     \<lparr>st_id = ascii sid, st_name = None, st_if_expr = None, st_timeout_secs = None, st_action = action\<rparr>"

definition demo_workflow :: workflow_def where
  "demo_workflow = \<lparr>wd_name = ascii ''w'', wd_description = None, wd_trigger = Webhook,
     wd_steps = [demo_step ''say'' (SendMessage (ascii ''hi'') None),
                 demo_step ''call'' (CallWebhook (ascii ''u'') None None None)], wd_enabled = True\<rparr>"

lemma find_sub_single: "find_sub p [c] = (if p = [] \<or> p = [c] then Some 0 else None)"
  by (cases p) (auto simp: starts_with_def)

lemma demo_resolve: "resolve_step_templates L (SendMessage (ascii ''hi'') None) tc outs = Inr (SendMessage (ascii ''hi'') None)"
  "resolve_step_templates L (CallWebhook (ascii ''u'') None None None) tc outs = Inr (CallWebhook (ascii ''u'') None None None)"
  by (simp_all add: resolve_step_templates_def resolve_template_def contains_def starts_with_def lbraces_def ascii_def t_opt_def)

lemma demo_execution:
  "fst (execute_steps demo_engine (\<lambda>_. demo_io) 3 demo_workflow forged_trigger 0 None) =
     [PostMessage 3 (decimal_int 7) (ascii ''hi'') (ascii ''00''),
      HttpCall (V4 (Ipv4Addr 8 8 8 8)) 443 (ascii ''POST'') (ascii ''u'') None None]"
  by (simp add: execute_steps_def demo_workflow_def demo_step_def demo_resolve timed_dispatch_def dispatch_action_def
      call_webhook_impl_def check_ssrf_def resolve_send_message_channel_def is_private_ip_def demo_io_def
      demo_engine_def WEBHOOK_MAX_RESPONSE_BYTES_def)

lemma demo_reaction:
  "fst (execute_steps demo_engine (\<lambda>_. demo_io) 3 (demo_workflow\<lparr>wd_steps := [demo_step ''react'' (AddReaction (ascii ''ok''))]\<rparr>)
       (forged_trigger\<lparr>tc_message_id := ascii ''m1''\<rparr>) 0 None) =
     [PostReaction (ascii ''http://localhost:3000/api/messages/m1/reactions'') None (ascii ''ok'')]"
  by (simp add: execute_steps_def demo_workflow_def demo_step_def resolve_step_templates_def resolve_template_def contains_def
      starts_with_def lbraces_def timed_dispatch_def dispatch_action_def add_reaction_impl_def reaction_url_def reaction_credential_def
      demo_io_def demo_engine_def ascii_def)

text \<open>The webhook of one definition goes to a public address; the reaction of another goes to the relay.\<close>

theorem webhook_calls_guarded_witness:
  "requires_elevated_authority demo_workflow \<and> \<not> blocked (V4 (Ipv4Addr 8 8 8 8)) \<and>
   (\<exists>emoji. PostReaction (ascii ''http://localhost:3000'' @ ascii ''/api/messages/'' @ ascii ''m1'' @ ascii ''/reactions'') None emoji
      \<in> set (fst (execute_steps demo_engine (\<lambda>_. demo_io) 3 (demo_workflow\<lparr>wd_steps := [demo_step ''react'' (AddReaction (ascii ''ok''))]\<rparr>)
        (forged_trigger\<lparr>tc_message_id := ascii ''m1''\<rparr>) 0 None)))"
proof -
  let ?def = "demo_workflow\<lparr>wd_steps := [demo_step ''react'' (AddReaction (ascii ''ok''))]\<rparr>"
  let ?e = "PostReaction (ascii ''http://localhost:3000/api/messages/m1/reactions'') None (ascii ''ok'')"
  have one: "HttpCall (V4 (Ipv4Addr 8 8 8 8)) 443 (ascii ''POST'') (ascii ''u'') None None
      \<in> set (fst (execute_steps demo_engine (\<lambda>_. demo_io) 3 demo_workflow forged_trigger 0 None))" by (simp add: demo_execution)
  have two: "?e \<in> set (fst (execute_steps demo_engine (\<lambda>_. demo_io) 3 ?def (forged_trigger\<lparr>tc_message_id := ascii ''m1''\<rparr>) 0 None))"
    by (simp add: demo_reaction)
  from webhook_calls_guarded [OF two] have "ascii ''http://localhost:3000/api/messages/m1/reactions'' =
      ascii ''http://localhost:3000'' @ ascii ''/api/messages/'' @ ascii ''m1'' @ ascii ''/reactions''"
    by (simp add: demo_engine_def)
  with two webhook_calls_guarded [OF one] show ?thesis by auto
qed

theorem messages_stay_in_channel_witness:
  "\<exists>ch. PostMessage 3 ch (ascii ''hi'') (ascii ''00'') \<in> set (fst (execute_steps demo_engine (\<lambda>_. demo_io) 3 demo_workflow forged_trigger 0 None))
     \<and> ch = el_show_uuid demo_engine 7"
proof -
  have "PostMessage 3 (decimal_int 7) (ascii ''hi'') (ascii ''00'')
      \<in> set (fst (execute_steps demo_engine (\<lambda>_. demo_io) 3 demo_workflow forged_trigger 0 None))"
    by (simp add: demo_execution)
  moreover from this have "decimal_int 7 = el_show_uuid demo_engine 7"
    using messages_stay_in_channel [where EL = demo_engine and io = "\<lambda>_. demo_io" and wc = 7 and owner = "[1]"]
    by (simp add: demo_io_def)
  ultimately show ?thesis by blast
qed

theorem resume_continues_run_witness:
  "\<exists>r. snd (execute_steps demo_engine (\<lambda>_. demo_io) 3 (demo_workflow\<lparr>wd_steps := take 1 (wd_steps demo_workflow)\<rparr>) forged_trigger 0 None) = Inr r
    \<and> snd (execute_steps demo_engine (\<lambda>_. demo_io) 3 demo_workflow forged_trigger 0 None)
      = with_prefix (er_trace r) (snd (execute_steps demo_engine (\<lambda>_. demo_io) 3 demo_workflow forged_trigger 1
          (Some (trace_outputs [] (er_trace r)))))"
proof -
  obtain r where r: "snd (execute_steps demo_engine (\<lambda>_. demo_io) 3 (demo_workflow\<lparr>wd_steps := take 1 (wd_steps demo_workflow)\<rparr>)
      forged_trigger 0 None) = Inr r" "er_approval_token r = None"
    by (simp add: execute_steps_def demo_workflow_def demo_step_def demo_resolve timed_dispatch_def dispatch_action_def
        resolve_send_message_channel_def demo_io_def demo_engine_def)
  have "1 \<le> length (wd_steps demo_workflow)" by (simp add: demo_workflow_def)
  from resume_continues_run [OF r this] r(1) show ?thesis by (auto simp: split_beta Let_def)
qed

subsection \<open>The variables of a running workflow\<close>

lemma dispatch_output:
  "dispatch_action EL io c tc action = (effs, Inr (Completed v)) \<Longrightarrow> engine_output v"
  by (auto simp: dispatch_action_def call_webhook_impl_def add_reaction_impl_def Let_def result_simps
      engine_output_def output_fields_def ascii_def
      split: action_def.splits option.splits prod.splits sum.splits if_splits http_outcome.splits reaction_outcome.splits)

lemma outputs_ok_update: "outputs_ok outs \<Longrightarrow> engine_output v \<Longrightarrow> outputs_ok (AList.update sid v outs)"
proof -
  assume ok: "outputs_ok outs" and v: "engine_output v"
  have "set (AList.update sid v outs) \<subseteq> insert (sid, v) (set outs)" by (induction outs) auto
  with ok v show ?thesis by (auto simp: outputs_ok_def distinct_update)
qed

lemma turn_outputs_ok:
  "turn EL io c tc i step outs trace = (effs, Inr e) \<Longrightarrow> outputs_ok outs \<Longrightarrow> outputs_ok (trace_outputs outs [e])"
  by (auto simp: turn_def Let_def timed_dispatch_def trace_outputs_single
      intro!: outputs_ok_update dest!: dispatch_output
      split: prod.splits sum.splits option.splits bool.splits step_result.splits)

lemma resolve_headers_error: "resolve_headers t h = Inl e \<Longrightarrow> \<exists>s. t s = Inl e"
  by (induction h) (auto simp: and_then_def split: sum.splits)

lemma step_template_error:
  "resolve_step_templates L action tc outs = Inl e \<Longrightarrow> \<exists>p. e = TemplateError p"
  by (auto simp: resolve_step_templates_def Let_def and_then_def t_opt_def
      split: action_def.splits option.splits sum.splits dest!: template_error resolve_headers_error)

lemma duration_error: "parse_duration_secs d = Inl e \<Longrightarrow> \<exists>p. e = InvalidDefinition p"
  by (auto simp: parse_duration_secs_def scaled_duration_def Let_def split: option.splits)

lemma read_body_error: "read_body acc cs = Inl e \<Longrightarrow> \<exists>p. e = WebhookError p"
  by (induction acc cs rule: read_body.induct) (auto split: if_splits)

lemma webhook_error: "snd (call_webhook_impl EL io url m h b) = Inl e \<Longrightarrow> \<exists>p. e = WebhookError p"
  by (auto simp: call_webhook_impl_def check_ssrf_def Let_def and_then_def
      split: option.splits prod.splits sum.splits if_splits http_outcome.splits dns_outcome.splits list.splits
      dest!: read_body_error)

lemma reaction_error: "snd (add_reaction_impl EL io mid emoji) = Inl e \<Longrightarrow> \<exists>p. e = WebhookError p"
  by (auto simp: add_reaction_impl_def Let_def split: reaction_outcome.splits if_splits)

lemma channel_error: "resolve_send_message_channel EL ex tch wch = Inl e \<Longrightarrow> \<exists>p. e = InvalidDefinition p"
  by (auto simp: resolve_send_message_channel_def Let_def split: option.splits if_splits)

lemma dispatch_error: "snd (dispatch_action EL io c tc action) \<noteq> Inl (ConditionError q)"
proof (cases action)
  case (CallWebhook url m h b)
  then show ?thesis
    using webhook_error [of EL io url "case m of Some m \<Rightarrow> m | None \<Rightarrow> ascii ''POST''" h b]
    by (auto simp: dispatch_action_def and_then_def split: prod.splits sum.splits)
next
  case (AddReaction emoji)
  then show ?thesis
    using reaction_error [of EL io "tc_message_id tc" emoji]
    by (auto simp: dispatch_action_def and_then_def split: prod.splits sum.splits)
qed (auto simp: dispatch_action_def split: option.splits prod.splits sum.splits dest!: channel_error duration_error)

lemma turn_no_rejection:
  assumes "store_laws (el_cond EL)" and "outputs_ok outs"
  shows "snd (turn EL io c tc i step outs trace) \<noteq> Inl (Inl (ConditionError ContextRejected, p))"
proof -
  have cond: "evaluate_condition L (el_cond EL) expr tc outs \<noteq> Inl (ConditionError ContextRejected)" for L expr
    using context_total [OF assms, of L tc] by (auto simp: evaluate_condition_def split: eval_outcome.splits if_splits)
  have dispatch: "snd (timed_dispatch EL io c tc step action) \<noteq> Inl (ConditionError q)" for action q
    using dispatch_error [of EL io c tc action q]
    by (auto simp: timed_dispatch_def Let_def split: prod.splits option.splits)
  have templates: "resolve_step_templates L action tc outs \<noteq> Inl (ConditionError q)" for L action q
    by (blast dest: step_template_error)
  show ?thesis
    using cond dispatch templates
    by (auto simp: turn_def Let_def split: prod.splits sum.splits option.splits bool.splits step_result.splits)
      (metis snd_conv)+
qed

lemma steps_no_rejection:
  assumes "store_laws (el_cond EL)"
  shows "outputs_ok outs \<Longrightarrow> snd (steps_from EL io c tc start i steps outs trace) \<noteq> Inl (ConditionError ContextRejected, p)"
proof (induction steps arbitrary: i outs trace)
  case (Cons step steps)
  obtain effs r where t: "turn EL (io i) c tc i step outs trace = (effs, r)" by fastforce
  show ?case
  proof (cases r)
    case (Inl outcome)
    with t Cons show ?thesis
      using turn_no_rejection [OF assms Cons.prems, of "io i" c tc i step trace p]
      by (simp add: steps_from_turn del: steps_from.simps)
  next
    case (Inr e)
    with t Cons turn_outputs_ok [OF t [unfolded Inr] Cons.prems] show ?thesis
      by (simp add: steps_from_turn del: steps_from.simps)
  qed
qed simp

text \<open>The condition of a step is always evaluated against a complete set of variables: with a
  variable store that keeps its laws, no run fails because the variables of the trigger and of the
  earlier steps could not be set up, whatever the actions before it returned.\<close>

theorem conditions_always_set_up:
  assumes "store_laws (el_cond EL)"
  shows "snd (execute_steps EL io c def tc start None) \<noteq> Inl (ConditionError ContextRejected, p)"
  using steps_no_rejection [OF assms, of "[]"] by (simp add: execute_steps_def outputs_ok_def)

theorem conditions_always_set_up_witness:
  "\<forall>p. snd (execute_steps demo_engine (\<lambda>_. demo_io) 3 demo_workflow forged_trigger 0 None) \<noteq> Inl (ConditionError ContextRejected, p)"
proof -
  have "store_laws (el_cond demo_engine)"
    using list_store_laws by (simp add: store_laws_def demo_engine_def list_store_def)
  then show ?thesis using conditions_always_set_up by blast
qed

end
