(* ===== verification/Workflow_Engine.thy ===== *)
theory Workflow_Engine
  imports Workflow_Executor
begin

section \<open>Triggering workflows from events (\<open>crates/buzz-workflow/src/lib.rs\<close>)\<close>

text \<open>
  The engine's reaction to a stored event: which workflows of the channel match, whether their
  owner may still run them, which runs are created. The database answers are parameters: the
  enabled workflows of the channel, the owner's current role, whether a run could be inserted. The
  cache in front of the workflow list is a map with explicit invalidation.
\<close>

record wf_event =
  we_id :: utext
  we_pubkey :: utext
  we_created_at :: nat
  we_kind :: nat
  we_tags :: "(utext \<times> utext option) list"
  we_content :: utext
  we_channel_id :: "uuid option"

definition KIND_REACTION :: nat where "KIND_REACTION = 7"
definition KIND_STREAM_MESSAGE :: nat where "KIND_STREAM_MESSAGE = 9"
definition KIND_STREAM_MESSAGE_DIFF :: nat where "KIND_STREAM_MESSAGE_DIFF = 40008"
definition KIND_WORKFLOW_TRIGGERED :: nat where "KIND_WORKFLOW_TRIGGERED = 46001"
definition KIND_WORKFLOW_APPROVAL_DENIED :: nat where "KIND_WORKFLOW_APPROVAL_DENIED = 46012"

lemmas workflow_kind_defs = KIND_REACTION_def KIND_STREAM_MESSAGE_def KIND_STREAM_MESSAGE_DIFF_def
  KIND_WORKFLOW_TRIGGERED_def KIND_WORKFLOW_APPROVAL_DENIED_def

definition is_workflow_execution_kind :: "nat \<Rightarrow> bool" where
  "is_workflow_execution_kind kind \<longleftrightarrow> KIND_WORKFLOW_TRIGGERED \<le> kind \<and> kind \<le> KIND_WORKFLOW_APPROVAL_DENIED"

text \<open>The row of a workflow; a definition that cannot be read back from its JSON is \<open>None\<close>.\<close>

record workflow_record =
  wr_community_id :: uuid
  wr_id :: uuid
  wr_channel_id :: "uuid option"
  wr_owner_pubkey :: bytes
  wr_definition :: "workflow_def option"

subsection \<open>The owner's authority\<close>

definition owner_authority_allows :: "utext option \<Rightarrow> bool \<Rightarrow> bool" where
  "owner_authority_allows role needs_elevated = (case role of
     None \<Rightarrow> False
   | Some r \<Rightarrow> if needs_elevated then r = ascii ''owner'' \<or> r = ascii ''admin'' else True)"

text \<open>The lookup of the owner's role: \<open>None\<close> is a failed lookup, \<open>Some None\<close> no active member.\<close>

definition check_owner_authority :: "utext option option \<Rightarrow> workflow_def \<Rightarrow> workflow_error + unit" where
  "check_owner_authority lookup def = (case lookup of
     None \<Rightarrow> Inl (Unauthorized AuthorityLookupFailed)
   | Some role \<Rightarrow>
       if owner_authority_allows role (requires_elevated_authority def) then Inr ()
       else Inl (Unauthorized AuthorityLacking))"

subsection \<open>The trigger\<close>

definition is_hex_digit :: "nat \<Rightarrow> bool" where
  "is_hex_digit c \<longleftrightarrow> 48 \<le> c \<and> c \<le> 57 \<or> 65 \<le> c \<and> c \<le> 70 \<or> 97 \<le> c \<and> c \<le> 102"

fun find_map :: "('a \<Rightarrow> 'b option) \<Rightarrow> 'a list \<Rightarrow> 'b option" where
  "find_map f [] = None"
| "find_map f (x # xs) = (case f x of Some y \<Rightarrow> Some y | None \<Rightarrow> find_map f xs)"

definition event_author :: "wf_event \<Rightarrow> utext" where
  "event_author ev = (case find_map (\<lambda>(kind, content). if kind = ascii ''actor'' then content else None) (we_tags ev) of
     Some a \<Rightarrow> a | None \<Rightarrow> we_pubkey ev)"

definition reaction_target :: "wf_event \<Rightarrow> utext option" where
  "reaction_target ev = find_map (\<lambda>(kind, content).
     if kind = ascii ''e'' then
       Option.bind content (\<lambda>v. if utf8_len v = 64 \<and> list_all is_hex_digit v then Some v else None)
     else None) (rev (we_tags ev))"

definition build_trigger_context :: "(uuid \<Rightarrow> utext) \<Rightarrow> wf_event \<Rightarrow> trigger_context" where
  "build_trigger_context show_uuid ev =
     \<lparr>tc_text = we_content ev,
      tc_author = event_author ev,
      tc_channel_id = (case we_channel_id ev of Some c \<Rightarrow> show_uuid c | None \<Rightarrow> []),
      tc_timestamp = ascii (decimal (we_created_at ev)),
      tc_emoji = (if we_kind ev = KIND_REACTION then we_content ev else []),
      tc_message_id = (if we_kind ev = KIND_REACTION
         then (case reaction_target ev of Some v \<Rightarrow> v | None \<Rightarrow> we_id ev) else we_id ev),
      tc_webhook_fields = []\<rparr>"

definition trigger_matches_event :: "trigger_def \<Rightarrow> nat \<Rightarrow> bool" where
  "trigger_matches_event trigger kind = (case trigger of
     MessagePosted _ \<Rightarrow> kind = KIND_STREAM_MESSAGE
   | ReactionAdded _ \<Rightarrow> kind = KIND_REACTION
   | DiffPosted _ \<Rightarrow> kind = KIND_STREAM_MESSAGE_DIFF
   | Schedule _ _ \<Rightarrow> False
   | Webhook \<Rightarrow> False)"

text \<open>A filter that fails counts as a filter that is false.\<close>

definition filter_passes :: "text_lib \<Rightarrow> 'c condition_lib \<Rightarrow> trigger_context \<Rightarrow> utext \<Rightarrow> bool" where
  "filter_passes L E tc expr = (case evaluate_condition L E expr tc [] of Inr b \<Rightarrow> b | Inl _ \<Rightarrow> False)"

definition should_fire_workflow :: "text_lib \<Rightarrow> 'c condition_lib \<Rightarrow> workflow_def \<Rightarrow> trigger_context \<Rightarrow> bool" where
  "should_fire_workflow L E def tc =
     (if (case wd_trigger def of ReactionAdded (Some expected) \<Rightarrow> tc_emoji tc \<noteq> expected | _ \<Rightarrow> False) then False
      else if (case wd_trigger def of MessagePosted (Some expr) \<Rightarrow> \<not> filter_passes L E tc expr | _ \<Rightarrow> False) then False
      else if (case wd_trigger def of DiffPosted (Some expr) \<Rightarrow> \<not> filter_passes L E tc expr | _ \<Rightarrow> False) then False
      else True)"

subsection \<open>The cache of channel workflows and the event hook\<close>

type_synonym workflow_cache = "((uuid \<times> uuid) \<times> workflow_record list) list"

definition invalidate_channel_workflows :: "uuid \<Rightarrow> uuid \<Rightarrow> workflow_cache \<Rightarrow> workflow_cache" where
  "invalidate_channel_workflows community_id channel_id cache = AList.delete (community_id, channel_id) cache"

record spawned_run =
  sp_community_id :: uuid
  sp_run_id :: uuid
  sp_workflow :: workflow_record
  sp_def :: workflow_def
  sp_trigger :: trigger_context

text \<open>
  The answers of the database while an event is handled: the enabled workflows of the channel, and
  for each workflow the role of its owner and the identifier of the inserted run.
\<close>

record event_io =
  ei_list :: "workflow_record list option"
  ei_role :: "workflow_record \<Rightarrow> utext option option"
  ei_create :: "workflow_record \<Rightarrow> uuid option"

definition fire_one ::
  "text_lib \<Rightarrow> 'c condition_lib \<Rightarrow> event_io \<Rightarrow> uuid \<Rightarrow> nat \<Rightarrow> trigger_context \<Rightarrow> workflow_record \<Rightarrow> spawned_run option" where
  "fire_one L E io community_id kind tc workflow = (case wr_definition workflow of
     None \<Rightarrow> None
   | Some def \<Rightarrow>
       if \<not> wd_enabled def \<or> \<not> trigger_matches_event (wd_trigger def) kind then None
       else if \<not> should_fire_workflow L E def tc then None
       else case check_owner_authority (ei_role io workflow) def of
              Inl _ \<Rightarrow> None
            | Inr _ \<Rightarrow> (case ei_create io workflow of
                None \<Rightarrow> None
              | Some run_id \<Rightarrow> Some \<lparr>sp_community_id = community_id, sp_run_id = run_id, sp_workflow = workflow,
                    sp_def = def, sp_trigger = tc\<rparr>))"

definition on_event ::
  "text_lib \<Rightarrow> 'c condition_lib \<Rightarrow> (uuid \<Rightarrow> utext) \<Rightarrow> event_io \<Rightarrow> uuid \<Rightarrow> wf_event \<Rightarrow> workflow_cache
   \<Rightarrow> workflow_cache \<times> (workflow_error + spawned_run list)" where
  "on_event L E show_uuid io community_id ev cache =
     (case we_channel_id ev of
        None \<Rightarrow> (cache, Inr [])
      | Some channel_id \<Rightarrow>
          if is_workflow_execution_kind (we_kind ev) then (cache, Inr [])
          else
            let fired = (\<lambda>workflows. List.map_filter
                  (fire_one L E io community_id (we_kind ev) (build_trigger_context show_uuid ev)) workflows)
            in case map_of cache (community_id, channel_id) of
                 Some cached \<Rightarrow> (cache, Inr (fired cached))
               | None \<Rightarrow> (case ei_list io of
                   None \<Rightarrow> (cache, Inl Database)
                 | Some fresh \<Rightarrow> (AList.update (community_id, channel_id) fresh cache, Inr (fired fresh))))"

subsection \<open>Which runs an event creates\<close>

text \<open>What a workflow needs to fire for an event, written out.\<close>

definition fires :: "text_lib \<Rightarrow> 'c condition_lib \<Rightarrow> event_io \<Rightarrow> nat \<Rightarrow> trigger_context \<Rightarrow> workflow_record \<Rightarrow> bool" where
  "fires L E io kind tc workflow \<longleftrightarrow>
     (\<exists>def role. wr_definition workflow = Some def \<and> wd_enabled def
        \<and> (case wd_trigger def of
             MessagePosted f \<Rightarrow> kind = KIND_STREAM_MESSAGE \<and> (\<forall>expr. f = Some expr \<longrightarrow> filter_passes L E tc expr)
           | DiffPosted f \<Rightarrow> kind = KIND_STREAM_MESSAGE_DIFF \<and> (\<forall>expr. f = Some expr \<longrightarrow> filter_passes L E tc expr)
           | ReactionAdded f \<Rightarrow> kind = KIND_REACTION \<and> (\<forall>emoji. f = Some emoji \<longrightarrow> tc_emoji tc = emoji)
           | _ \<Rightarrow> False)
        \<and> ei_role io workflow = Some (Some role)
        \<and> (requires_elevated_authority def \<longrightarrow> role = ascii ''owner'' \<or> role = ascii ''admin'')
        \<and> ei_create io workflow \<noteq> None)"

lemma check_owner_authority_ok:
  "check_owner_authority lookup def = Inr () \<longleftrightarrow>
   (\<exists>role. lookup = Some (Some role) \<and> (requires_elevated_authority def \<longrightarrow> role = ascii ''owner'' \<or> role = ascii ''admin''))"
  by (auto simp: check_owner_authority_def owner_authority_allows_def split: option.splits if_splits)

lemma trigger_fires:
  "trigger_matches_event (wd_trigger def) kind \<and> should_fire_workflow L E def tc \<longleftrightarrow>
   (case wd_trigger def of
      MessagePosted f \<Rightarrow> kind = KIND_STREAM_MESSAGE \<and> (\<forall>expr. f = Some expr \<longrightarrow> filter_passes L E tc expr)
    | DiffPosted f \<Rightarrow> kind = KIND_STREAM_MESSAGE_DIFF \<and> (\<forall>expr. f = Some expr \<longrightarrow> filter_passes L E tc expr)
    | ReactionAdded f \<Rightarrow> kind = KIND_REACTION \<and> (\<forall>emoji. f = Some emoji \<longrightarrow> tc_emoji tc = emoji)
    | _ \<Rightarrow> False)"
  by (auto simp: trigger_matches_event_def should_fire_workflow_def split: trigger_def.splits option.splits)

lemma fire_one_Some:
  "fire_one L E io c kind tc w = Some r \<longleftrightarrow>
   (\<exists>def run_id. wr_definition w = Some def \<and> wd_enabled def
      \<and> trigger_matches_event (wd_trigger def) kind \<and> should_fire_workflow L E def tc
      \<and> check_owner_authority (ei_role io w) def = Inr () \<and> ei_create io w = Some run_id
      \<and> r = \<lparr>sp_community_id = c, sp_run_id = run_id, sp_workflow = w, sp_def = def, sp_trigger = tc\<rparr>)"
  by (auto simp: fire_one_def split: option.splits sum.splits if_splits)

lemma fire_one_iff: "fire_one L E io c kind tc w \<noteq> None \<longleftrightarrow> fires L E io kind tc w"
proof -
  have "fire_one L E io c kind tc w \<noteq> None \<longleftrightarrow>
      (\<exists>def. wr_definition w = Some def \<and> wd_enabled def
        \<and> (trigger_matches_event (wd_trigger def) kind \<and> should_fire_workflow L E def tc)
        \<and> check_owner_authority (ei_role io w) def = Inr () \<and> ei_create io w \<noteq> None)"
    by (auto simp: fire_one_Some simp flip: not_None_eq split: option.splits)
  then show ?thesis unfolding trigger_fires check_owner_authority_ok fires_def by auto
qed

lemma fired_workflows:
  "map sp_workflow (List.map_filter (fire_one L E io c kind tc) ws) = filter (fires L E io kind tc) ws"
proof (induction ws)
  case (Cons w ws)
  show ?case
  proof (cases "fire_one L E io c kind tc w")
    case None
    then show ?thesis using Cons.IH fire_one_iff [of L E io c kind tc w] by (simp add: map_filter_simps)
  next
    case (Some r)
    then have "sp_workflow r = w" by (auto simp: fire_one_Some)
    then show ?thesis using Some Cons.IH fire_one_iff [of L E io c kind tc w] by (simp add: map_filter_simps)
  qed
qed (simp add: map_filter_simps)

lemma fired_run:
  "r \<in> set (List.map_filter (fire_one L E io c kind tc) ws) \<Longrightarrow>
   sp_community_id r = c \<and> sp_trigger r = tc \<and> wr_definition (sp_workflow r) = Some (sp_def r)"
  by (induction ws) (auto simp: map_filter_simps fire_one_Some split: option.splits)

text \<open>C24. An event in a channel creates runs for exactly the workflows of this channel, as cached or
  as read, that are enabled, whose trigger fits the kind of the event and whose emoji or filter
  accepts it, and whose owner is a member of the channel at this moment, as owner or admin when
  the workflow calls out; in the order of the list, each under the event's community and with the
  event as its trigger. Events of workflow execution create none.\<close>

theorem event_fires_exactly:
  assumes "on_event L E show_uuid io c ev cache = (cache', Inr runs)" and "we_channel_id ev = Some ch"
  shows "if is_workflow_execution_kind (we_kind ev) then runs = [] else
    (\<exists>workflows. (map_of cache (c, ch) = Some workflows \<or> map_of cache (c, ch) = None \<and> ei_list io = Some workflows)
       \<and> map_of cache' (c, ch) = Some workflows
       \<and> map sp_workflow runs = filter (fires L E io (we_kind ev) (build_trigger_context show_uuid ev)) workflows
       \<and> (\<forall>r\<in>set runs. sp_community_id r = c \<and> sp_trigger r = build_trigger_context show_uuid ev
             \<and> wr_definition (sp_workflow r) = Some (sp_def r)))"
  using assms
  by (auto simp: on_event_def Let_def fired_workflows dest: fired_run split: option.splits if_splits)

definition demo_record :: workflow_record where
  "demo_record = \<lparr>wr_community_id = 3, wr_id = 5, wr_channel_id = Some 7, wr_owner_pubkey = [1],
     wr_definition = Some (demo_workflow\<lparr>wd_trigger := MessagePosted None\<rparr>)\<rparr>"

definition demo_post :: wf_event where
  "demo_post = \<lparr>we_id = ascii ''e1'', we_pubkey = ascii ''p1'', we_created_at = 10, we_kind = 9,
     we_tags = [], we_content = ascii ''hello'', we_channel_id = Some 7\<rparr>"

definition demo_event_io :: event_io where
  "demo_event_io = \<lparr>ei_list = Some [demo_record], ei_role = (\<lambda>_. Some (Some (ascii ''member''))), ei_create = (\<lambda>_. Some 11)\<rparr>"

text \<open>A plain member cannot fire a workflow that calls out.\<close>

theorem event_fires_exactly_witness:
  "\<exists>cache'. on_event demo_lib (el_cond demo_engine) (\<lambda>_. []) demo_event_io 3 demo_post [] = (cache', Inr [])
     \<and> map_of cache' (3, 7) = Some [demo_record]
     \<and> filter (fires demo_lib (el_cond demo_engine) demo_event_io 9 (build_trigger_context (\<lambda>_. []) demo_post)) [demo_record] = []"
proof -
  have "on_event demo_lib (el_cond demo_engine) (\<lambda>_. []) demo_event_io 3 demo_post [] =
      ([((3, 7), [demo_record])], Inr [])"
    by (simp add: on_event_def demo_post_def is_workflow_execution_kind_def workflow_kind_defs demo_event_io_def
        fire_one_def demo_record_def map_filter_simps check_owner_authority_def owner_authority_allows_def
        requires_elevated_authority_def demo_workflow_def demo_step_def ascii_def)
  from event_fires_exactly [OF this, of 7] this show ?thesis
    by (simp add: demo_post_def is_workflow_execution_kind_def workflow_kind_defs demo_event_io_def)
qed

end
