(* ===== verification/Workflow_Schedule.thy ===== *)
theory Workflow_Schedule
  imports Workflow_Engine
begin

section \<open>Scheduled workflows (\<open>crates/buzz-workflow/src/lib.rs\<close>, \<open>crates/buzz-db/src/workflow.rs\<close>)\<close>

text \<open>
  The scheduler of one pod, and several pods over one database. Instants are counted in
  nanoseconds from the Unix epoch. The reading of cron expressions and the range of representable
  dates belong to other packages: \<open>cron_after\<close> gives, for an expression that can be read, the next
  scheduled instant after an instant, and \<open>from_timestamp\<close> the instant of a second, if any.
\<close>

type_synonym instant = int

record schedule_lib =
  cron_after :: "utext \<Rightarrow> (instant \<Rightarrow> instant option) option"
  from_timestamp :: "int \<Rightarrow> instant option"

definition nanos :: int where "nanos = 1000000000"

lemma nanos_pos: "0 \<le> nanos"
  by (simp add: nanos_def)

text \<open>\<open>DateTime::timestamp\<close>, and \<open>num_seconds().unsigned_abs()\<close> of a difference.\<close>

definition timestamp :: "instant \<Rightarrow> int" where "timestamp t = t div nanos"

definition elapsed_secs :: "instant \<Rightarrow> instant \<Rightarrow> nat" where
  "elapsed_secs now since = nat (\<bar>now - since\<bar> div nanos)"

definition as_i64 :: "nat \<Rightarrow> int" where
  "as_i64 n = (if n < 2 ^ 63 then int n else int n - 2 ^ 64)"

definition div_euclid :: "int \<Rightarrow> int \<Rightarrow> int" where
  "div_euclid a b = (if 0 < b then a div b else - (a div (- b)))"

subsection \<open>When a schedule is due\<close>

definition cron_fire_instant :: "schedule_lib \<Rightarrow> utext \<Rightarrow> instant \<Rightarrow> int \<Rightarrow> instant option" where
  "cron_fire_instant S expr now window_secs = (case cron_after S (normalize_cron expr) of
     None \<Rightarrow> None
   | Some next_after \<Rightarrow> Option.bind (next_after (now - window_secs * nanos)) (\<lambda>t. if t \<le> now then Some t else None))"

definition interval_fire_instant :: "schedule_lib \<Rightarrow> utext \<Rightarrow> instant \<Rightarrow> instant option" where
  "interval_fire_instant S dur now = (case parse_duration_secs dur of
     Inl _ \<Rightarrow> None
   | Inr interval_secs \<Rightarrow>
       if interval_secs > 0 then
         let secs = as_i64 interval_secs
         in from_timestamp S (div_euclid (timestamp now) secs * secs)
       else None)"

definition interval_should_fire :: "utext \<Rightarrow> instant option \<Rightarrow> instant \<Rightarrow> bool" where
  "interval_should_fire dur last_fired now = (case parse_duration_secs dur of
     Inl _ \<Rightarrow> False
   | Inr interval_secs \<Rightarrow>
       elapsed_secs now (case last_fired of Some t \<Rightarrow> t | None \<Rightarrow> now) \<ge> interval_secs)"

type_synonym fire_times = "((uuid \<times> uuid) \<times> instant) list"

definition interval_prefilter_should_fire ::
  "fire_times \<Rightarrow> uuid \<Rightarrow> uuid \<Rightarrow> utext \<Rightarrow> instant option \<Rightarrow> instant \<Rightarrow> bool \<times> fire_times" where
  "interval_prefilter_should_fire last_fired community_id workflow_id dur anchor now =
     (if interval_should_fire dur anchor now then (True, last_fired)
      else if anchor = None then (False, AList.update (community_id, workflow_id) now last_fired)
      else (False, last_fired))"

subsection \<open>Claims\<close>

text \<open>
  The table of claimed fires, and which workflows exist. A claim is the key (community, workflow,
  instant) with the run attached to it, if any.
\<close>

record claims_db =
  cd_workflows :: "(uuid \<times> uuid) list"
  cd_claims :: "((uuid \<times> uuid \<times> instant) \<times> uuid option) list"

definition claim_scheduled_workflow_fire ::
  "uuid \<Rightarrow> uuid \<Rightarrow> instant \<Rightarrow> claims_db \<Rightarrow> bool \<times> claims_db" where
  "claim_scheduled_workflow_fire community_id workflow_id scheduled_for db =
     (if (community_id, workflow_id) \<in> set (cd_workflows db)
         \<and> map_of (cd_claims db) (community_id, workflow_id, scheduled_for) = None
      then (True, db\<lparr>cd_claims := cd_claims db @ [((community_id, workflow_id, scheduled_for), None)]\<rparr>)
      else (False, db))"

definition claimed_instants :: "uuid \<Rightarrow> uuid \<Rightarrow> claims_db \<Rightarrow> instant list" where
  "claimed_instants community_id workflow_id db =
     List.map_filter (\<lambda>((c, w, t), _). if c = community_id \<and> w = workflow_id then Some t else None) (cd_claims db)"

definition latest_scheduled_workflow_fire :: "uuid \<Rightarrow> uuid \<Rightarrow> claims_db \<Rightarrow> instant option" where
  "latest_scheduled_workflow_fire community_id workflow_id db =
     (case claimed_instants community_id workflow_id db of [] \<Rightarrow> None | t # ts \<Rightarrow> Some (fold max ts t))"

definition attach_scheduled_workflow_run ::
  "uuid \<Rightarrow> uuid \<Rightarrow> instant \<Rightarrow> uuid \<Rightarrow> claims_db \<Rightarrow> bool \<times> claims_db" where
  "attach_scheduled_workflow_run community_id workflow_id scheduled_for run_id db =
     (if map_of (cd_claims db) (community_id, workflow_id, scheduled_for) = Some None
      then (True, db\<lparr>cd_claims := AList.update (community_id, workflow_id, scheduled_for) (Some run_id) (cd_claims db)\<rparr>)
      else (False, db))"

text \<open>
  Deleting a workflow takes its claims with it: the foreign key of the table of claims cascades. Pruning
  removes the claims that the database stamped before the cutoff; the stamps are an argument.
\<close>

definition delete_workflow :: "uuid \<Rightarrow> uuid \<Rightarrow> claims_db \<Rightarrow> bool \<times> claims_db" where
  "delete_workflow community_id workflow_id db =
     (if (community_id, workflow_id) \<in> set (cd_workflows db)
      then (True, \<lparr>cd_workflows = filter (\<lambda>key. key \<noteq> (community_id, workflow_id)) (cd_workflows db),
                   cd_claims = filter (\<lambda>((c, w, _), _). (c, w) \<noteq> (community_id, workflow_id)) (cd_claims db)\<rparr>)
      else (False, db))"

definition prune_scheduled_workflow_fires_before ::
  "(uuid \<times> uuid \<times> instant \<Rightarrow> instant) \<Rightarrow> instant \<Rightarrow> claims_db \<Rightarrow> nat \<times> claims_db" where
  "prune_scheduled_workflow_fires_before claimed_at older_than db =
     (let (old, rest) = partition (\<lambda>(key, _). claimed_at key < older_than) (cd_claims db)
      in (length old, db\<lparr>cd_claims := rest\<rparr>))"

subsection \<open>One tick\<close>

text \<open>
  What fails or succeeds during a tick, for each workflow: reading the restart anchor, the owner's
  role, the claim statement, inserting the run (with its identifier), attaching it.
\<close>

record tick_io =
  ti_anchor_ok :: "workflow_record \<Rightarrow> bool"
  ti_role :: "workflow_record \<Rightarrow> utext option option"
  ti_claim_ok :: "workflow_record \<Rightarrow> bool"
  ti_create :: "workflow_record \<Rightarrow> uuid option"
  ti_attach_ok :: "workflow_record \<Rightarrow> bool"

record fired_run =
  fr_workflow :: workflow_record
  fr_scheduled_for :: instant
  fr_run_id :: uuid
  fr_at :: instant
  fr_trigger :: trigger_context

text \<open>The instant a workflow is due for on this tick, and whether its schedule is an interval.\<close>

definition due_instant ::
  "schedule_lib \<Rightarrow> tick_io \<Rightarrow> instant \<Rightarrow> workflow_record \<Rightarrow> trigger_def \<Rightarrow> claims_db \<Rightarrow> fire_times
   \<Rightarrow> (instant \<times> bool) option \<times> fire_times" where
  "due_instant S io now workflow trigger db last_fired = (case trigger of
     Schedule (Some expr) None \<Rightarrow>
       (map_option (\<lambda>t. (t, False)) (cron_fire_instant S expr now 60), last_fired)
   | Schedule None (Some dur) \<Rightarrow>
       (let key = (wr_community_id workflow, wr_id workflow);
            anchor = (case map_of last_fired key of
                Some t \<Rightarrow> Some t
              | None \<Rightarrow> if ti_anchor_ok io workflow
                        then latest_scheduled_workflow_fire (fst key) (snd key) db else None);
            (fire, last_fired') = interval_prefilter_should_fire last_fired (fst key) (snd key) dur anchor now
        in if \<not> fire then (None, last_fired')
           else (map_option (\<lambda>t. (t, True)) (interval_fire_instant S dur now), last_fired'))
   | _ \<Rightarrow> (None, last_fired))"

text \<open>From the due instant to the run: the owner's authority, the claim, the insertion, the anchor.\<close>

definition claim_and_run ::
  "(uuid \<Rightarrow> utext) \<Rightarrow> tick_io \<Rightarrow> instant \<Rightarrow> workflow_record \<Rightarrow> workflow_def \<Rightarrow> uuid \<Rightarrow> instant \<Rightarrow> bool
   \<Rightarrow> claims_db \<Rightarrow> fire_times \<Rightarrow> (claims_db \<times> fire_times) \<times> fired_run option" where
  "claim_and_run show_uuid io now workflow def channel_id scheduled_for interval db lf =
     (let community_id = wr_community_id workflow;
          advanced = (if interval then AList.update (community_id, wr_id workflow) now lf else lf)
      in if check_owner_authority (ti_role io workflow) def \<noteq> Inr () then ((db, lf), None)
         else if \<not> ti_claim_ok io workflow then ((db, lf), None)
         else case claim_scheduled_workflow_fire community_id (wr_id workflow) scheduled_for db of
                (False, db') \<Rightarrow> ((db', advanced), None)
              | (True, db') \<Rightarrow> (case ti_create io workflow of
                  None \<Rightarrow> ((db', lf), None)
                | Some run_id \<Rightarrow>
                    ((if ti_attach_ok io workflow
                      then snd (attach_scheduled_workflow_run community_id (wr_id workflow) scheduled_for run_id db')
                      else db', advanced),
                     Some \<lparr>fr_workflow = workflow, fr_scheduled_for = scheduled_for, fr_run_id = run_id, fr_at = now,
                       fr_trigger = \<lparr>tc_text = [], tc_author = [], tc_channel_id = show_uuid channel_id,
                         tc_timestamp = decimal_int (timestamp now), tc_emoji = [], tc_message_id = [],
                         tc_webhook_fields = []\<rparr>\<rparr>)))"

definition tick_workflow ::
  "schedule_lib \<Rightarrow> (uuid \<Rightarrow> utext) \<Rightarrow> tick_io \<Rightarrow> instant \<Rightarrow> workflow_record \<Rightarrow> claims_db \<times> fire_times
   \<Rightarrow> (claims_db \<times> fire_times) \<times> fired_run option" where
  "tick_workflow S show_uuid io now workflow st =
     (case wr_definition workflow of
        None \<Rightarrow> (st, None)
      | Some def \<Rightarrow>
          if \<not> wd_enabled def then (st, None)
          else case wr_channel_id workflow of
            None \<Rightarrow> (st, None)
          | Some channel_id \<Rightarrow>
              (case due_instant S io now workflow (wd_trigger def) (fst st) (snd st) of
                 (None, lf) \<Rightarrow> ((fst st, lf), None)
               | (Some (scheduled_for, interval), lf) \<Rightarrow>
                   claim_and_run show_uuid io now workflow def channel_id scheduled_for interval (fst st) lf))"

fun tick_all ::
  "schedule_lib \<Rightarrow> (uuid \<Rightarrow> utext) \<Rightarrow> tick_io \<Rightarrow> instant \<Rightarrow> workflow_record list \<Rightarrow> claims_db \<times> fire_times
   \<Rightarrow> (claims_db \<times> fire_times) \<times> fired_run list" where
  "tick_all S show_uuid io now [] st = (st, [])"
| "tick_all S show_uuid io now (w # ws) st =
     (case tick_workflow S show_uuid io now w st of
        (st', fired) \<Rightarrow> (case tick_all S show_uuid io now ws st' of
          (st'', runs) \<Rightarrow> (st'', (case fired of Some r \<Rightarrow> r # runs | None \<Rightarrow> runs))))"

text \<open>The body of the loop: \<open>None\<close> is a failed read of the workflows; stale anchors go at the end.\<close>

definition engine_tick ::
  "schedule_lib \<Rightarrow> (uuid \<Rightarrow> utext) \<Rightarrow> tick_io \<Rightarrow> instant \<Rightarrow> workflow_record list option \<Rightarrow> claims_db \<times> fire_times
   \<Rightarrow> (claims_db \<times> fire_times) \<times> fired_run list" where
  "engine_tick S show_uuid io now listed st = (case listed of
     None \<Rightarrow> (st, [])
   | Some workflows \<Rightarrow>
       (case tick_all S show_uuid io now workflows st of
          ((db, lf), runs) \<Rightarrow>
            ((db, filter (\<lambda>(key, _). key \<in> set (map (\<lambda>w. (wr_community_id w, wr_id w)) workflows)) lf), runs)))"

subsection \<open>Several pods over one database\<close>

text \<open>
  Any number of pods tick in any order with any clocks, a whole tick at once or one workflow at a time; a pod
  may restart and lose its memory; workflows are created and deleted by others, and the claims are pruned at any
  time and with any cutoff. The log keeps, in the order of the claims, the runs that were started, and the
  deletions and prunings.
\<close>

datatype cluster_event =
    Fired fired_run
  | WorkflowDeleted uuid uuid
  | ClaimsPruned "(uuid \<times> uuid \<times> instant) list"

record cluster =
  cl_db :: claims_db
  cl_pods :: "nat \<Rightarrow> fire_times"
  cl_log :: "cluster_event list"

inductive cluster_step :: "schedule_lib \<Rightarrow> (uuid \<Rightarrow> utext) \<Rightarrow> cluster \<Rightarrow> cluster \<Rightarrow> bool" for S show_uuid where
  pod_tick: "engine_tick S show_uuid io now listed (cl_db s, cl_pods s p) = ((db, lf), runs) \<Longrightarrow>
     cluster_step S show_uuid s
       (s\<lparr>cl_db := db, cl_pods := (cl_pods s)(p := lf), cl_log := cl_log s @ map Fired runs\<rparr>)"
| pod_turn: "tick_workflow S show_uuid io now w (cl_db s, cl_pods s p) = ((db, lf), fired) \<Longrightarrow>
     cluster_step S show_uuid s
       (s\<lparr>cl_db := db, cl_pods := (cl_pods s)(p := lf),
          cl_log := cl_log s @ (case fired of None \<Rightarrow> [] | Some r \<Rightarrow> [Fired r])\<rparr>)"
| pod_restart: "cluster_step S show_uuid s (s\<lparr>cl_pods := (cl_pods s)(p := [])\<rparr>)"
| workflow_created: "cluster_step S show_uuid s (s\<lparr>cl_db := (cl_db s)\<lparr>cd_workflows := (c, w) # cd_workflows (cl_db s)\<rparr>\<rparr>)"
| workflow_deleted: "delete_workflow c w (cl_db s) = (True, db) \<Longrightarrow>
     cluster_step S show_uuid s (s\<lparr>cl_db := db, cl_log := cl_log s @ [WorkflowDeleted c w]\<rparr>)"
| claims_pruned: "prune_scheduled_workflow_fires_before claimed_at older_than (cl_db s) = (n, db) \<Longrightarrow>
     cluster_step S show_uuid s (s\<lparr>cl_db := db,
       cl_log := cl_log s @ [ClaimsPruned (filter (\<lambda>key. claimed_at key < older_than) (map fst (cd_claims (cl_db s))))]\<rparr>)"

definition initial_cluster :: cluster where
  "initial_cluster = \<lparr>cl_db = \<lparr>cd_workflows = [], cd_claims = []\<rparr>, cl_pods = (\<lambda>_. []), cl_log = []\<rparr>"

definition cluster_reachable :: "schedule_lib \<Rightarrow> (uuid \<Rightarrow> utext) \<Rightarrow> cluster \<Rightarrow> bool" where
  "cluster_reachable S show_uuid s \<longleftrightarrow> (cluster_step S show_uuid)\<^sup>*\<^sup>* initial_cluster s"

definition fire_key :: "fired_run \<Rightarrow> uuid \<times> uuid \<times> instant" where
  "fire_key r = (wr_community_id (fr_workflow r), wr_id (fr_workflow r), fr_scheduled_for r)"

definition claimed :: "claims_db \<Rightarrow> (uuid \<times> uuid \<times> instant) set" where
  "claimed db = dom (map_of (cd_claims db))"

lemma claim_true:
  "claim_scheduled_workflow_fire c w t db = (True, db') \<Longrightarrow>
   (c, w, t) \<notin> claimed db \<and> claimed db' = insert (c, w, t) (claimed db)"
  by (auto simp: claim_scheduled_workflow_fire_def claimed_def map_add_def split: if_splits option.splits)

lemma claim_false: "claim_scheduled_workflow_fire c w t db = (False, db') \<Longrightarrow> db' = db"
  by (auto simp: claim_scheduled_workflow_fire_def split: if_splits)

lemma attach_claimed: "claimed (snd (attach_scheduled_workflow_run c w t r db)) = claimed db"
  by (auto simp: attach_scheduled_workflow_run_def claimed_def split: if_splits)

text \<open>A tick of one workflow: at most one run, for a fresh claim, by an authorised owner.\<close>

lemma claim_and_run_claims:
  assumes "claim_and_run show_uuid io now w def ch t interval db lf = ((db', lf'), fired)"
  shows "claimed db \<subseteq> claimed db' \<and> (\<forall>r. fired = Some r \<longrightarrow>
     fr_workflow r = w \<and> fr_at r = now \<and> fire_key r \<in> claimed db' - claimed db \<and> check_owner_authority (ti_role io w) def = Inr ())"
proof (cases "check_owner_authority (ti_role io w) def = Inr () \<and> ti_claim_ok io w")
  case False
  with assms show ?thesis by (auto simp: claim_and_run_def Let_def split: if_splits)
next
  case True
  obtain won db1 where c: "claim_scheduled_workflow_fire (wr_community_id w) (wr_id w) t db = (won, db1)" by fastforce
  show ?thesis
  proof (cases "won \<and> ti_create io w \<noteq> None")
    case False
    then show ?thesis
      using True assms c by (auto simp: claim_and_run_def Let_def split: bool.splits dest: claim_true claim_false)
  next
    case fired: True
    then obtain run_id where r: "ti_create io w = Some run_id" by blast
    from fired c have "claimed db1 = insert (wr_community_id w, wr_id w, t) (claimed db)"
      "(wr_community_id w, wr_id w, t) \<notin> claimed db"
      using claim_true [of "wr_community_id w" "wr_id w" t db db1] by simp_all
    then show ?thesis
      using True assms c r fired by (auto simp: claim_and_run_def Let_def fire_key_def attach_claimed)
  qed
qed

lemma tick_workflow_claims:
  assumes "tick_workflow S show_uuid io now w (db, lf) = ((db', lf'), fired)"
  shows "claimed db \<subseteq> claimed db' \<and> (\<forall>r. fired = Some r \<longrightarrow>
     fr_workflow r = w \<and> fr_at r = now \<and> fire_key r \<in> claimed db' - claimed db
     \<and> (\<exists>def. wr_definition w = Some def \<and> wd_enabled def \<and> check_owner_authority (ti_role io w) def = Inr ()))"
  using assms
  by (auto simp: tick_workflow_def split: option.splits prod.splits if_splits dest!: claim_and_run_claims)

lemma tick_all_claims:
  assumes "tick_all S show_uuid io now ws (db, lf) = ((db', lf'), runs)"
  shows "claimed db \<subseteq> claimed db' \<and> distinct (map fire_key runs)
    \<and> fire_key ` set runs \<subseteq> claimed db' - claimed db
    \<and> (\<forall>r\<in>set runs. \<exists>def. wr_definition (fr_workflow r) = Some def \<and> wd_enabled def
          \<and> check_owner_authority (ti_role io (fr_workflow r)) def = Inr ())"
  using assms
proof (induction ws arbitrary: db lf runs)
  case (Cons w ws)
  obtain db1 lf1 fired where t: "tick_workflow S show_uuid io now w (db, lf) = ((db1, lf1), fired)"
    by (metis surj_pair)
  obtain runs1 where a: "tick_all S show_uuid io now ws (db1, lf1) = ((db', lf'), runs1)"
      "runs = (case fired of Some r \<Rightarrow> r # runs1 | None \<Rightarrow> runs1)"
    using Cons.prems t by (auto split: prod.splits)
  show ?case
    using tick_workflow_claims [OF t] Cons.IH [OF a(1)] a(2) by (fastforce split: option.splits)
qed simp

lemma engine_tick_claims:
  assumes "engine_tick S show_uuid io now listed (db, lf) = ((db', lf'), runs)"
  shows "claimed db \<subseteq> claimed db' \<and> distinct (map fire_key runs)
    \<and> fire_key ` set runs \<subseteq> claimed db' - claimed db
    \<and> (\<forall>r\<in>set runs. \<exists>def. wr_definition (fr_workflow r) = Some def \<and> wd_enabled def
          \<and> check_owner_authority (ti_role io (fr_workflow r)) def = Inr ())"
  using assms
  by (auto simp: engine_tick_def split: option.splits prod.splits dest!: tick_all_claims)

text \<open>Which keys are spent after a log, and whether no spent key fires.\<close>

fun erases :: "uuid \<times> uuid \<times> instant \<Rightarrow> cluster_event \<Rightarrow> bool" where
  "erases key (Fired r) \<longleftrightarrow> False"
| "erases (c, w, t) (WorkflowDeleted c' w') \<longleftrightarrow> (c, w) = (c', w')"
| "erases key (ClaimsPruned keys) \<longleftrightarrow> key \<in> set keys"

fun spend :: "cluster_event \<Rightarrow> (uuid \<times> uuid \<times> instant) set \<Rightarrow> (uuid \<times> uuid \<times> instant) set" where
  "spend (Fired r) K = insert (fire_key r) K"
| "spend ev K = {key\<in>K. \<not> erases key ev}"

fun once :: "(uuid \<times> uuid \<times> instant) set \<Rightarrow> cluster_event list \<Rightarrow> bool" where
  "once K [] \<longleftrightarrow> True"
| "once K (ev # evs) \<longleftrightarrow> (case ev of Fired r \<Rightarrow> fire_key r \<notin> K | _ \<Rightarrow> True) \<and> once (spend ev K) evs"

lemma once_append: "once K (xs @ ys) \<longleftrightarrow> once K xs \<and> once (fold spend xs K) ys"
  by (induction xs arbitrary: K) simp_all

lemma spend_keeps: "key \<in> K \<Longrightarrow> \<not> erases key ev \<Longrightarrow> key \<in> spend ev K"
  by (cases ev) simp_all

lemma spent_stays: "key \<in> K \<Longrightarrow> \<forall>ev\<in>set evs. \<not> erases key ev \<Longrightarrow> key \<in> fold spend evs K"
  by (induction evs arbitrary: K) (simp_all add: spend_keeps)

lemma once_separated:
  assumes "once K (xs @ Fired r # ys @ Fired r' # zs)" and "fire_key r = fire_key r'"
  shows "\<exists>ev\<in>set ys. erases (fire_key r) ev"
proof (rule ccontr)
  assume no: "\<not> (\<exists>ev\<in>set ys. erases (fire_key r) ev)"
  have "fire_key r \<in> fold spend ys (insert (fire_key r) (fold spend xs K))" by (rule spent_stays) (use no in auto)
  then show False using assms by (simp add: once_append)
qed

lemma spend_fired: "fold spend (map Fired runs) K = K \<union> fire_key ` set runs"
  by (induction runs arbitrary: K) auto

lemma once_fired: "distinct (map fire_key runs) \<Longrightarrow> fire_key ` set runs \<inter> K = {} \<Longrightarrow> once K (map Fired runs)"
  by (induction runs arbitrary: K) auto

lemma once_distinct: "once K (map Fired runs) \<Longrightarrow> distinct (map fire_key runs) \<and> fire_key ` set runs \<inter> K = {}"
  by (induction runs arbitrary: K) fastforce+

definition log_ok :: "cluster \<Rightarrow> bool" where
  "log_ok s \<longleftrightarrow> once {} (cl_log s) \<and> fold spend (cl_log s) {} \<subseteq> claimed (cl_db s)"

lemma log_ok_fired:
  assumes "log_ok s" and "claimed (cl_db s) \<subseteq> claimed db" and "distinct (map fire_key runs)"
    and "fire_key ` set runs \<subseteq> claimed db - claimed (cl_db s)"
  shows "log_ok (s\<lparr>cl_db := db, cl_pods := pods, cl_log := cl_log s @ map Fired runs\<rparr>)"
proof -
  have "fire_key ` set runs \<inter> fold spend (cl_log s) {} = {}" using assms(1,4) by (auto simp: log_ok_def)
  from once_fired [OF assms(3) this] show ?thesis using assms by (auto simp: log_ok_def once_append spend_fired)
qed

lemma deleted_claims:
  "delete_workflow c w db = (True, db') \<Longrightarrow> claimed db' = {key\<in>claimed db. \<not> erases key (WorkflowDeleted c w)}"
  by (force simp: delete_workflow_def claimed_def dom_map_of_conv_image_fst split: if_splits)

lemma pruned_claims:
  "prune_scheduled_workflow_fires_before claimed_at older_than db = (n, db') \<Longrightarrow>
   claimed db' = {key\<in>claimed db. \<not> erases key (ClaimsPruned (filter (\<lambda>key. claimed_at key < older_than) (map fst (cd_claims db))))}"
  by (force simp: prune_scheduled_workflow_fires_before_def claimed_def dom_map_of_conv_image_fst)

lemma cluster_invariant:
  assumes "cluster_reachable S show_uuid s"
  shows "log_ok s"
  using assms unfolding cluster_reachable_def
proof (induction rule: rtranclp_induct)
  case base
  then show ?case by (simp add: initial_cluster_def log_ok_def)
next
  case (step s s')
  from step.hyps(2) show ?case
  proof cases
    case (pod_tick io now listed p db lf runs)
    with engine_tick_claims [OF pod_tick(2)] log_ok_fired [OF step.IH, of db runs] show ?thesis by blast
  next
    case (pod_turn io now w p db lf fired)
    with tick_workflow_claims [OF pod_turn(2)] log_ok_fired [OF step.IH, of db "[]"] log_ok_fired [OF step.IH, of db "[the fired]"]
    show ?thesis by (cases fired) auto
  next
    case (workflow_created c w)
    with step.IH show ?thesis by (simp add: log_ok_def claimed_def)
  next
    case (workflow_deleted c w db)
    with step.IH deleted_claims [OF workflow_deleted(2)] show ?thesis by (auto simp: log_ok_def once_append)
  next
    case (claims_pruned claimed_at older_than n db)
    with step.IH pruned_claims [OF claims_pruned(2)] show ?thesis by (auto simp: log_ok_def once_append)
  qed (use step.IH in \<open>auto simp: log_ok_def\<close>)
qed

text \<open>C16. A scheduled workflow fires at most once for each scheduled instant, across all pods, for as long as
  the claim of that instant is kept. Whatever the order of ticks, the clocks, the failures of the database, the
  restarts, and the creation and deletion of workflows: between any two runs that pods have started for the same
  community, workflow and instant, that workflow was deleted (which takes its claims with it, so that a
  workflow created again under its identifier may fire for an instant it already fired for), or that very
  claim was pruned. In particular all runs differ in one of the three as long as nothing is deleted or pruned.\<close>

theorem scheduled_fires_at_most_once:
  assumes "cluster_reachable S show_uuid s"
  shows "(\<forall>xs r ys r' zs. cl_log s = xs @ Fired r # ys @ Fired r' # zs \<and>
        wr_community_id (fr_workflow r) = wr_community_id (fr_workflow r') \<and> wr_id (fr_workflow r) = wr_id (fr_workflow r') \<and>
        fr_scheduled_for r = fr_scheduled_for r' \<longrightarrow>
      WorkflowDeleted (wr_community_id (fr_workflow r)) (wr_id (fr_workflow r)) \<in> set ys \<or>
      (\<exists>keys. ClaimsPruned keys \<in> set ys \<and> (wr_community_id (fr_workflow r), wr_id (fr_workflow r), fr_scheduled_for r) \<in> set keys))
    \<and> (\<forall>runs. cl_log s = map Fired runs \<longrightarrow>
      distinct (map (\<lambda>r. (wr_community_id (fr_workflow r), wr_id (fr_workflow r), fr_scheduled_for r)) runs))"
proof -
  have ok: "once {} (cl_log s)" using cluster_invariant [OF assms] by (simp add: log_ok_def)
  have "WorkflowDeleted c w \<in> set ys \<or> (\<exists>keys. ClaimsPruned keys \<in> set ys \<and> (c, w, t) \<in> set keys)"
    if "\<exists>ev\<in>set ys. erases (c, w, t) ev" for c w t and ys :: "cluster_event list"
  proof -
    from that obtain ev where ev: "ev \<in> set ys" "erases (c, w, t) ev" by blast
    from ev(2) have "ev = WorkflowDeleted c w \<or> (\<exists>keys. ev = ClaimsPruned keys \<and> (c, w, t) \<in> set keys)" by (cases ev) auto
    then show ?thesis using ev(1) by blast
  qed
  then have "WorkflowDeleted (wr_community_id (fr_workflow r)) (wr_id (fr_workflow r)) \<in> set ys \<or>
      (\<exists>keys. ClaimsPruned keys \<in> set ys \<and> (wr_community_id (fr_workflow r), wr_id (fr_workflow r), fr_scheduled_for r) \<in> set keys)"
    if "cl_log s = xs @ Fired r # ys @ Fired r' # zs" "fire_key r = fire_key r'" for xs r ys r' zs
    using once_separated [OF ok [unfolded that(1)] that(2)] unfolding fire_key_def by blast
  moreover have "distinct (map fire_key runs)" if "cl_log s = map Fired runs" for runs
    using once_distinct [of "{}" runs] ok that by simp
  ultimately show ?thesis unfolding fire_key_def [abs_def] by simp
qed

text \<open>A tick starts a scheduled run only for an enabled definition whose owner holds, at this tick,
  a role in the channel, and the role of owner or admin when the definition calls out.\<close>

theorem scheduled_runs_authorised:
  assumes "engine_tick S show_uuid io now listed st = (st', runs)" and "r \<in> set runs"
  shows "\<exists>def role. wr_definition (fr_workflow r) = Some def \<and> wd_enabled def
    \<and> ti_role io (fr_workflow r) = Some (Some role)
    \<and> (requires_elevated_authority def \<longrightarrow> role = ascii ''owner'' \<or> role = ascii ''admin'')"
proof -
  obtain db lf db' lf' where "st = (db, lf)" "st' = (db', lf')" by (cases st; cases st') auto
  then obtain def where "wr_definition (fr_workflow r) = Some def" "wd_enabled def"
      "check_owner_authority (ti_role io (fr_workflow r)) def = Inr ()"
    using engine_tick_claims [of S show_uuid io now listed db lf db' lf' runs] assms by auto
  then show ?thesis by (auto simp: check_owner_authority_ok)
qed

subsection \<open>Intervals\<close>

text \<open>The start of the bucket of an instant, in seconds.\<close>

lemma interval_instant:
  assumes "parse_duration_secs dur = Inr n" and "0 < n" and "n < 2 ^ 63"
  shows "interval_fire_instant S dur now = from_timestamp S (timestamp now div int n * int n)"
  using assms by (simp add: interval_fire_instant_def as_i64_def div_euclid_def Let_def)

lemma elapsed_later:
  assumes "t \<le> now"
  shows "n \<le> elapsed_secs now t \<longleftrightarrow> t + int n * nanos \<le> now"
proof -
  have "int n \<le> (now - t) div nanos \<longleftrightarrow> int n * nanos \<le> now - t" unfolding nanos_def by linarith
  moreover have "n \<le> elapsed_secs now t \<longleftrightarrow> int n \<le> (now - t) div nanos"
    using assms by (simp add: elapsed_secs_def nanos_def le_nat_iff pos_imp_zdiv_nonneg_iff)
  ultimately show ?thesis by linarith
qed

lemma elapsed_self [simp]: "elapsed_secs now now = 0"
  by (simp add: elapsed_secs_def)

lemma bucket_advances:
  assumes "t + int n * nanos \<le> now" and "0 < n"
  shows "timestamp t div int n * int n < timestamp now div int n * int n"
proof -
  have "timestamp t + int n \<le> timestamp now" using assms(1) unfolding timestamp_def nanos_def by linarith
  then have "(timestamp t + int n) div int n \<le> timestamp now div int n" using assms(2) by (intro zdiv_mono1) auto
  moreover have "(timestamp t + int n) div int n = timestamp t div int n + 1"
    using assms(2) div_add_self2 [of "int n" "timestamp t"] by linarith
  ultimately show ?thesis using assms(2) by simp
qed

text \<open>The dates of the model are unbounded where the package's are not: within its range.\<close>

definition dates_ok :: "schedule_lib \<Rightarrow> bool" where
  "dates_ok S \<longleftrightarrow> (\<forall>s. 0 \<le> s \<and> s < 2 ^ 40 \<longrightarrow> from_timestamp S s = Some (s * nanos))"

definition interval_workflow :: "workflow_record \<Rightarrow> workflow_def \<Rightarrow> utext \<Rightarrow> nat \<Rightarrow> bool" where
  "interval_workflow w def dur n \<longleftrightarrow>
     wr_definition w = Some def \<and> wd_enabled def \<and> wr_channel_id w \<noteq> None \<and>
     wd_trigger def = Schedule None (Some dur) \<and> parse_duration_secs dur = Inr n \<and> 0 < n \<and> n < 2 ^ 63"

definition tick_works :: "tick_io \<Rightarrow> workflow_record \<Rightarrow> workflow_def \<Rightarrow> bool" where
  "tick_works io w def \<longleftrightarrow> check_owner_authority (ti_role io w) def = Inr () \<and> ti_claim_ok io w \<and> ti_create io w \<noteq> None"

lemma due_anchored:
  assumes "interval_workflow w def dur n" and "map_of lf (wr_community_id w, wr_id w) = Some t" and "t \<le> now"
  shows "due_instant S io now w (wd_trigger def) db lf =
    (if t + int n * nanos \<le> now
     then map_option (\<lambda>b. (b, True)) (from_timestamp S (timestamp now div int n * int n)) else None, lf)"
  using assms
  by (auto simp: interval_workflow_def due_instant_def interval_prefilter_should_fire_def interval_should_fire_def
      interval_instant elapsed_later Let_def)

lemma due_cold:
  assumes "interval_workflow w def dur n" and "map_of lf (wr_community_id w, wr_id w) = None"
    and "claimed_instants (wr_community_id w) (wr_id w) db = []"
  shows "due_instant S io now w (wd_trigger def) db lf = (None, AList.update (wr_community_id w, wr_id w) now lf)"
  using assms
  by (auto simp: interval_workflow_def due_instant_def interval_prefilter_should_fire_def interval_should_fire_def
      latest_scheduled_workflow_fire_def Let_def)

lemma claim_and_run_fires:
  assumes "tick_works io w def" and "(wr_community_id w, wr_id w) \<in> set (cd_workflows db)"
    and "(wr_community_id w, wr_id w, t) \<notin> claimed db"
  shows "\<exists>db' r. claim_and_run show_uuid io now w def ch t interval db lf =
      ((db', if interval then AList.update (wr_community_id w, wr_id w) now lf else lf), Some r)
    \<and> fr_workflow r = w \<and> fr_scheduled_for r = t \<and> fr_at r = now"
proof -
  have "map_of (cd_claims db) (wr_community_id w, wr_id w, t) = None"
    using assms(3) by (simp add: claimed_def domIff)
  then show ?thesis
    using assms by (auto simp: claim_and_run_def Let_def tick_works_def claim_scheduled_workflow_fire_def)
qed

lemma not_claimed_instant:
  "claimed_instants c w db = [] \<Longrightarrow> (c, w, t) \<notin> claimed db"
proof -
  assume none: "claimed_instants c w db = []"
  have "(c, w, t) \<notin> fst ` set cs"
    if "List.map_filter (\<lambda>((c', w', t'), _). if c' = c \<and> w' = w then Some t' else None) cs = []"
    for cs :: "((uuid \<times> uuid \<times> instant) \<times> uuid option) list"
    using that by (induction cs) (force simp: map_filter_simps split: if_splits)+
  with none show ?thesis by (auto simp: claimed_instants_def claimed_def domIff map_of_eq_None_iff)
qed

text \<open>An interval workflow is not starved by a cold start: the first tick that sees it, with no
  anchor in memory and no claim in the database, does not fire but remembers its time, and any
  tick at least an interval later creates a run for the start of the interval bucket of that tick,
  when the database answers, the owner has the authority and the workflow still exists.\<close>

theorem interval_cold_start_fires:
  assumes "interval_workflow w def dur n" and "dates_ok S"
    and "map_of lf (wr_community_id w, wr_id w) = None"
    and "claimed_instants (wr_community_id w) (wr_id w) db = []"
    and "(wr_community_id w, wr_id w) \<in> set (cd_workflows db)"
    and "0 \<le> t0" and "t0 + int n * nanos \<le> t1" and "t1 < 2 ^ 40 * nanos" and "tick_works io1 w def"
  shows "\<exists>lf'. tick_workflow S show_uuid io0 t0 w (db, lf) = ((db, lf'), None)
    \<and> (\<exists>st r. tick_workflow S show_uuid io1 t1 w (db, lf') = (st, Some r)
          \<and> fr_scheduled_for r = timestamp t1 div int n * int n * nanos)"
proof -
  let ?lf = "AList.update (wr_community_id w, wr_id w) t0 lf"
  let ?b = "timestamp t1 div int n * int n"
  obtain ch where ch: "wr_definition w = Some def" "wd_enabled def" "wr_channel_id w = Some ch"
    using assms(1) by (auto simp: interval_workflow_def)
  have n: "0 < int n" "t0 \<le> t1" using assms(1,7) by (auto simp: interval_workflow_def nanos_def)
  have t1: "0 \<le> timestamp t1" "timestamp t1 < 2 ^ 40" using assms(6,8) n(2) by (auto simp: timestamp_def nanos_def)
  have "?b = timestamp t1 - timestamp t1 mod int n" by (simp add: minus_mod_eq_div_mult)
  then have "?b \<le> timestamp t1" using pos_mod_sign [OF n(1), of "timestamp t1"] by linarith
  moreover have "0 \<le> ?b" using t1 n(1) by (simp add: pos_imp_zdiv_nonneg_iff)
  ultimately have "0 \<le> ?b" "?b < 2 ^ 40" using t1 by linarith+
  then have "from_timestamp S ?b = Some (?b * nanos)" using assms(2) by (simp add: dates_ok_def)
  then have due: "due_instant S io1 t1 w (wd_trigger def) db ?lf = (Some (?b * nanos, True), ?lf)"
    using due_anchored [OF assms(1), of ?lf t0 t1 S io1 db] n(2) assms(7) by simp
  have fresh: "(wr_community_id w, wr_id w, ?b * nanos) \<notin> claimed db" by (rule not_claimed_instant [OF assms(4)])
  obtain db' r where "claim_and_run show_uuid io1 t1 w def ch (?b * nanos) True db ?lf =
      ((db', AList.update (wr_community_id w, wr_id w) t1 ?lf), Some r)" "fr_scheduled_for r = ?b * nanos"
    using claim_and_run_fires [OF assms(9,5) fresh,
        where show_uuid = show_uuid and now = t1 and ch = ch and interval = True and lf = ?lf]
    by auto
  moreover have "tick_workflow S show_uuid io0 t0 w (db, lf) = ((db, ?lf), None)"
    by (simp add: tick_workflow_def ch due_cold [OF assms(1,3,4)])
  ultimately show ?thesis by (intro exI [of _ ?lf]) (simp add: tick_workflow_def ch due)
qed

lemma claimed_in_instants: "(c, w, t) \<in> claimed db \<Longrightarrow> t \<in> set (claimed_instants c w db)"
proof -
  have "t \<in> set (List.map_filter (\<lambda>((c', w', t'), _). if c' = c \<and> w' = w then Some t' else None) cs)"
    if "((c, w, t), x) \<in> set cs" for x and cs :: "((uuid \<times> uuid \<times> instant) \<times> uuid option) list"
    using that by (induction cs) (auto simp: map_filter_simps split: option.splits)
  then show "(c, w, t) \<in> claimed db \<Longrightarrow> ?thesis"
    by (auto simp: claimed_def claimed_instants_def dest!: map_of_SomeD)
qed

lemma fold_max_ge: "x \<in> set (t # ts) \<Longrightarrow> x \<le> fold max ts (t :: int)"
proof (induction ts arbitrary: t x)
  case (Cons u ts)
  have "max u t \<le> fold max ts (max u t)" by (rule Cons.IH) simp
  moreover have "x \<le> fold max ts (max u t)" if "x \<in> set ts" using that by (intro Cons.IH) simp
  ultimately show ?case using Cons.prems by auto
qed simp

lemma latest_is_max:
  "latest_scheduled_workflow_fire c w db = Some m \<Longrightarrow> (c, w, t) \<in> claimed db \<Longrightarrow> t \<le> m"
  using fold_max_ge
  by (fastforce simp: latest_scheduled_workflow_fire_def split: list.splits dest: claimed_in_instants)

lemma mult_le_iff_le_div:
  assumes "0 < (n :: int)"
  shows "a * n \<le> b \<longleftrightarrow> a \<le> b div n"
proof
  assume "a * n \<le> b"
  then have "a * n div n \<le> b div n" using assms by (rule zdiv_mono1)
  then show "a \<le> b div n" using assms by simp
next
  assume "a \<le> b div n"
  then have "a * n \<le> b div n * n" using assms by simp
  also have "\<dots> = b - b mod n" by (simp add: minus_mod_eq_div_mult)
  also have "\<dots> \<le> b" using assms by simp
  finally show "a * n \<le> b" .
qed

lemma next_bucket:
  assumes "0 < n"
  shows "k * int n * nanos + int n * nanos \<le> now \<longleftrightarrow> k < timestamp now div int n"
proof -
  have "k * int n * nanos + int n * nanos \<le> now \<longleftrightarrow> (k + 1) * int n * nanos \<le> now" by (simp add: algebra_simps)
  also have "\<dots> \<longleftrightarrow> (k + 1) * int n \<le> timestamp now"
    unfolding timestamp_def by (rule mult_le_iff_le_div) (simp add: nanos_def)
  also have "\<dots> \<longleftrightarrow> k < timestamp now div int n"
    using assms by (subst mult_le_iff_le_div) auto
  finally show ?thesis .
qed

text \<open>After a restart an interval workflow fires again at the next boundary of its interval, not an
  interval after its last run: with the anchor read back from the claims, a tick creates a run
  exactly when it lies in a later bucket than the last claim, and the run is for that bucket.\<close>

theorem restart_fires_at_next_bucket:
  assumes "interval_workflow w def dur n" and "dates_ok S"
    and "map_of lf (wr_community_id w, wr_id w) = None" and "ti_anchor_ok io w"
    and "latest_scheduled_workflow_fire (wr_community_id w) (wr_id w) db = Some (k * int n * nanos)"
    and "(wr_community_id w, wr_id w) \<in> set (cd_workflows db)"
    and "0 \<le> k" and "k * int n * nanos \<le> now" and "now < 2 ^ 40 * nanos" and "tick_works io w def"
  shows "if k < timestamp now div int n
    then \<exists>st r. tick_workflow S show_uuid io now w (db, lf) = (st, Some r)
       \<and> fr_scheduled_for r = timestamp now div int n * int n * nanos \<and> fr_at r = now
    else tick_workflow S show_uuid io now w (db, lf) = ((db, lf), None)"
proof -
  let ?b = "timestamp now div int n * int n"
  obtain ch where ch: "wr_definition w = Some def" "wd_enabled def" "wr_channel_id w = Some ch"
    and n: "0 < n" using assms(1) by (auto simp: interval_workflow_def)
  have "0 \<le> now" using assms(7,8) n by (meson mult_nonneg_nonneg nanos_pos of_nat_0_le_iff order.trans)
  then have t: "0 \<le> timestamp now" "timestamp now < 2 ^ 40" using assms(9) by (auto simp: timestamp_def nanos_def)
  have "?b \<le> timestamp now" using n mult_le_iff_le_div [of "int n"] by simp
  moreover have "0 \<le> ?b" using t n by (simp add: pos_imp_zdiv_nonneg_iff)
  ultimately have date: "from_timestamp S ?b = Some (?b * nanos)" using t assms(2) by (simp add: dates_ok_def)
  have due: "due_instant S io now w (wd_trigger def) db lf =
      (if k < timestamp now div int n then Some (?b * nanos, True) else None, lf)"
    using assms(1,3,4,5,8) date next_bucket [OF n, of k now]
    by (auto simp: interval_workflow_def due_instant_def interval_prefilter_should_fire_def interval_should_fire_def
        interval_instant elapsed_later Let_def)
  show ?thesis
  proof (cases "k < timestamp now div int n")
    case True
    then have "k * int n * nanos < ?b * nanos" using n by (simp add: nanos_def)
    then have fresh: "(wr_community_id w, wr_id w, ?b * nanos) \<notin> claimed db" using latest_is_max [OF assms(5)] by fastforce
    from claim_and_run_fires [OF assms(10,6) fresh, of show_uuid now ch True lf] True show ?thesis
      by (auto simp: tick_workflow_def ch due)
  qed (simp add: tick_workflow_def ch due)
qed

subsection \<open>Cron expressions\<close>

text \<open>What the code relies on of a cron schedule: the next instant is the least one after a time.\<close>

definition schedule_of :: "instant set \<Rightarrow> (instant \<Rightarrow> instant option) \<Rightarrow> bool" where
  "schedule_of I next_after \<longleftrightarrow> (\<forall>t. case next_after t of
     None \<Rightarrow> (\<forall>s\<in>I. s \<le> t)
   | Some s \<Rightarrow> s \<in> I \<and> t < s \<and> (\<forall>s'\<in>I. t < s' \<longrightarrow> s \<le> s'))"

lemma cron_fire_bounds:
  assumes "cron_after S (normalize_cron expr) = Some next_after" and "schedule_of I next_after"
    and "cron_fire_instant S expr now window = Some s"
  shows "s \<in> I" "now - window * nanos < s" "s \<le> now"
proof -
  from assms(1,3) have "next_after (now - window * nanos) = Some s" "s \<le> now"
    by (auto simp: cron_fire_instant_def bind_eq_Some_conv split: if_splits)
  with assms(2) show "s \<in> I" "now - window * nanos < s" "s \<le> now"
    unfolding schedule_of_def by (metis (no_types, lifting) option.simps(5))+
qed

text \<open>Between two ticks of the scheduler an instant of a cron schedule (of minute granularity or
  coarser) fires exactly when it lies less than sixty seconds before the later tick: ticks at most
  a minute apart miss nothing, and of ticks further apart the instants in the gap are never
  fired.\<close>

theorem cron_window_exact:
  assumes "cron_after S (normalize_cron expr) = Some next_after" and "schedule_of I next_after"
    and "\<forall>a\<in>I. \<forall>b\<in>I. a < b \<longrightarrow> a + 60 * nanos \<le> b"
    and "s \<in> I" and "previous < s" and "s \<le> now"
  shows "cron_fire_instant S expr previous 60 = Some s \<or> cron_fire_instant S expr now 60 = Some s
    \<longleftrightarrow> now - 60 * nanos < s"
proof
  assume "cron_fire_instant S expr previous 60 = Some s \<or> cron_fire_instant S expr now 60 = Some s"
  then show "now - 60 * nanos < s"
    using cron_fire_bounds [OF assms(1,2)] assms(5) by fastforce
next
  assume late: "now - 60 * nanos < s"
  have n: "case next_after (now - 60 * nanos) of None \<Rightarrow> \<forall>u\<in>I. u \<le> now - 60 * nanos
      | Some u \<Rightarrow> u \<in> I \<and> now - 60 * nanos < u \<and> (\<forall>u'\<in>I. now - 60 * nanos < u' \<longrightarrow> u \<le> u')"
    using assms(2) unfolding schedule_of_def by blast
  have "next_after (now - 60 * nanos) = Some s"
  proof (cases "next_after (now - 60 * nanos)")
    case None
    with n late assms(4) show ?thesis by auto
  next
    case (Some u)
    with n late assms(4) have u: "u \<in> I" "now - 60 * nanos < u" "u \<le> s" by auto
    have "\<not> u < s" using assms(3,4,6) u by fastforce
    with u Some show ?thesis by simp
  qed
  then show "cron_fire_instant S expr previous 60 = Some s \<or> cron_fire_instant S expr now 60 = Some s"
    using assms(1,6) by (simp add: cron_fire_instant_def)
qed

subsection \<open>Examples\<close>

definition minutely :: "instant \<Rightarrow> instant option" where
  "minutely t = Some ((t div (60 * nanos) + 1) * (60 * nanos))"

definition demo_schedules :: schedule_lib where
  "demo_schedules = \<lparr>cron_after = (\<lambda>_. Some minutely), from_timestamp = (\<lambda>s. Some (s * nanos))\<rparr>"

lemma minutely_schedule: "schedule_of (range (\<lambda>k. k * (60 * nanos))) minutely"
  unfolding schedule_of_def
proof
  fix t :: instant
  let ?m = "60 * nanos"
  have m: "0 < ?m" by (simp add: nanos_def)
  have "t < (t div ?m + 1) * ?m"
  proof -
    have "t = t div ?m * ?m + t mod ?m" by (simp only: div_mult_mod_eq)
    moreover have "t mod ?m < ?m" by (rule pos_mod_bound [OF m])
    ultimately show ?thesis by (simp only: distrib_right)
  qed
  moreover have "(t div ?m + 1) * ?m \<le> k * ?m" if "t < k * ?m" for k
  proof -
    have "\<not> k \<le> t div ?m" using that mult_le_iff_le_div [OF m, of k t] by linarith
    then show ?thesis using m by simp
  qed
  ultimately show "case minutely t of None \<Rightarrow> \<forall>s\<in>range (\<lambda>k. k * ?m). s \<le> t
      | Some s \<Rightarrow> s \<in> range (\<lambda>k. k * ?m) \<and> t < s \<and> (\<forall>s'\<in>range (\<lambda>k. k * ?m). t < s' \<longrightarrow> s \<le> s')"
    by (auto simp: minutely_def)
qed

text \<open>Two ticks sixty-one seconds apart, at 59 and 120 seconds, skip the instant at 60 seconds.\<close>

theorem cron_window_exact_witness:
  "cron_fire_instant demo_schedules [] (59 * nanos) 60 \<noteq> Some (60 * nanos)
   \<and> cron_fire_instant demo_schedules [] (120 * nanos) 60 \<noteq> Some (60 * nanos)"
proof -
  have "\<forall>a\<in>range (\<lambda>k. k * (60 * nanos)). \<forall>b\<in>range (\<lambda>k. k * (60 * nanos)). a < b \<longrightarrow> a + 60 * nanos \<le> b"
    by (auto simp: nanos_def)
  moreover have "60 * nanos \<in> range (\<lambda>k. k * (60 * nanos))" by (rule range_eqI [of _ _ 1]) simp
  ultimately show ?thesis
    using cron_window_exact [of demo_schedules "[]" minutely _ "60 * nanos" "59 * nanos" "120 * nanos", OF _ minutely_schedule]
    by (simp add: demo_schedules_def nanos_def)
qed

definition hourly_record :: workflow_record where
  "hourly_record = demo_record\<lparr>wr_definition := Some (demo_workflow\<lparr>wd_trigger := Schedule None (Some (ascii ''1h''))\<rparr>)\<rparr>"

definition demo_tick :: tick_io where
  "demo_tick = \<lparr>ti_anchor_ok = (\<lambda>_. True), ti_role = (\<lambda>_. Some (Some (ascii ''owner''))), ti_claim_ok = (\<lambda>_. True),
     ti_create = (\<lambda>_. Some 21), ti_attach_ok = (\<lambda>_. True)\<rparr>"

lemma hourly_interval:
  "interval_workflow hourly_record (demo_workflow\<lparr>wd_trigger := Schedule None (Some (ascii ''1h''))\<rparr>) (ascii ''1h'') 3600"
proof -
  have "char_of (49 :: nat) = CHR ''1''" by code_simp
  then have "parse_duration_secs (ascii ''1h'') = Inr 3600"
    by (simp add: parse_duration_secs_def ascii_def trim_def is_whitespace_def strip_last_def scaled_duration_def
        parse_u64_def parse_unsigned_def is_ascii_digit_def byte_def checked_mul_u64_def)
  then show ?thesis by (simp add: interval_workflow_def hourly_record_def demo_record_def demo_workflow_def)
qed

lemma demo_dates: "dates_ok demo_schedules"
  by (simp add: dates_ok_def demo_schedules_def)

lemma hourly_works:
  "tick_works demo_tick hourly_record (demo_workflow\<lparr>wd_trigger := Schedule None (Some (ascii ''1h''))\<rparr>)"
  by (simp add: tick_works_def demo_tick_def check_owner_authority_ok)

text \<open>A run at 7199 seconds, a restart, and a run at 7259 seconds: an hourly workflow, a minute apart.\<close>

definition claimed_hour :: claims_db where
  "claimed_hour = \<lparr>cd_workflows = [(3, 5)], cd_claims = [((3, 5, 3600 * nanos), Some 21)]\<rparr>"

theorem restart_fires_at_next_bucket_witness:
  "\<exists>st1 r1 st2 r2.
     tick_workflow demo_schedules (\<lambda>_. []) demo_tick (7199 * nanos) hourly_record
       (\<lparr>cd_workflows = [(3, 5)], cd_claims = []\<rparr>, [((3, 5), 3599 * nanos)]) = (st1, Some r1)
     \<and> fst st1 = claimed_hour
     \<and> tick_workflow demo_schedules (\<lambda>_. []) demo_tick (7259 * nanos) hourly_record (claimed_hour, []) = (st2, Some r2)
     \<and> fr_scheduled_for r2 = 7200 * nanos"
proof -
  have "\<exists>st1 r1. tick_workflow demo_schedules (\<lambda>_. []) demo_tick (7199 * nanos) hourly_record
       (\<lparr>cd_workflows = [(3, 5)], cd_claims = []\<rparr>, [((3, 5), 3599 * nanos)]) = (st1, Some r1) \<and> fst st1 = claimed_hour"
  proof -
    have due: "due_instant demo_schedules demo_tick (7199 * nanos) hourly_record (Schedule None (Some (ascii ''1h'')))
        \<lparr>cd_workflows = [(3, 5)], cd_claims = []\<rparr> [((3, 5), 3599 * nanos)] = (Some (3600 * nanos, True), [((3, 5), 3599 * nanos)])"
      using due_anchored [OF hourly_interval, of "[((3, 5), 3599 * nanos)]" "3599 * nanos" "7199 * nanos" demo_schedules demo_tick
          "\<lparr>cd_workflows = [(3, 5)], cd_claims = []\<rparr>"]
      by (simp add: hourly_record_def demo_record_def demo_workflow_def demo_schedules_def timestamp_def nanos_def)
    show ?thesis
      using due hourly_works
      by (simp add: tick_workflow_def tick_works_def hourly_record_def demo_record_def demo_workflow_def claim_and_run_def
          claim_scheduled_workflow_fire_def attach_scheduled_workflow_run_def demo_tick_def claimed_hour_def)
  qed
  moreover have "\<exists>st2 r2. tick_workflow demo_schedules (\<lambda>_. []) demo_tick (7259 * nanos) hourly_record (claimed_hour, [])
      = (st2, Some r2) \<and> fr_scheduled_for r2 = 7200 * nanos"
  proof -
    have key: "wr_community_id hourly_record = 3" "wr_id hourly_record = 5"
      by (simp_all add: hourly_record_def demo_record_def)
    have latest: "latest_scheduled_workflow_fire 3 5 claimed_hour = Some (1 * int 3600 * nanos)"
      by (simp add: claimed_hour_def latest_scheduled_workflow_fire_def claimed_instants_def map_filter_simps)
    show ?thesis
      using restart_fires_at_next_bucket [OF hourly_interval demo_dates _ _ _ _ _ _ _ hourly_works,
          where lf = "[]" and db = claimed_hour and k = 1 and now = "7259 * nanos" and show_uuid = "\<lambda>_. []"] latest
      by (simp add: key timestamp_def nanos_def)
        (auto simp: claimed_hour_def demo_tick_def)
  qed
  ultimately show ?thesis by blast
qed

theorem interval_cold_start_fires_witness:
  "\<exists>lf' st r. tick_workflow demo_schedules (\<lambda>_. []) demo_tick 0 hourly_record (\<lparr>cd_workflows = [(3, 5)], cd_claims = []\<rparr>, [])
       = ((\<lparr>cd_workflows = [(3, 5)], cd_claims = []\<rparr>, lf'), None)
     \<and> tick_workflow demo_schedules (\<lambda>_. []) demo_tick (3660 * nanos) hourly_record (\<lparr>cd_workflows = [(3, 5)], cd_claims = []\<rparr>, lf') = (st, Some r)
     \<and> fr_scheduled_for r = 3600 * nanos"
proof -
  have key: "wr_community_id hourly_record = 3" "wr_id hourly_record = 5"
    by (simp_all add: hourly_record_def demo_record_def)
  show ?thesis
    using interval_cold_start_fires [OF hourly_interval demo_dates _ _ _ _ _ _ hourly_works, where lf = "[]"
        and db = "\<lparr>cd_workflows = [(3, 5)], cd_claims = []\<rparr>" and ?t0.0 = 0 and ?t1.0 = "3660 * nanos"
        and show_uuid = "\<lambda>_. []" and ?io0.0 = demo_tick]
    by (simp add: key claimed_instants_def map_filter_simps timestamp_def nanos_def)
qed

definition minutely_record :: workflow_record where
  "minutely_record = demo_record\<lparr>wr_definition := Some (demo_workflow\<lparr>wd_trigger := Schedule (Some []) None\<rparr>)\<rparr>"

lemma minutely_tick:
  "\<exists>db r. engine_tick demo_schedules (\<lambda>_. []) demo_tick (90 * nanos) (Some [minutely_record])
     (\<lparr>cd_workflows = [(3, 5)], cd_claims = []\<rparr>, []) = ((db, []), [r])
     \<and> fr_workflow r = minutely_record \<and> fr_scheduled_for r = 60 * nanos
     \<and> cd_workflows db = [(3, 5)] \<and> claimed db = {(3, 5, 60 * nanos)}"
proof -
  have "normalize_cron [] = []" by (simp add: normalize_cron_def)
  then show ?thesis
    by (simp add: engine_tick_def tick_workflow_def minutely_record_def demo_record_def demo_workflow_def due_instant_def
        cron_fire_instant_def demo_schedules_def minutely_def nanos_def claim_and_run_def demo_tick_def
        claim_scheduled_workflow_fire_def attach_scheduled_workflow_run_def check_owner_authority_ok claimed_def)
qed

theorem scheduled_runs_authorised_witness:
  "\<exists>role. ti_role demo_tick minutely_record = Some (Some role) \<and> (role = ascii ''owner'' \<or> role = ascii ''admin'')"
proof -
  obtain db r where t: "engine_tick demo_schedules (\<lambda>_. []) demo_tick (90 * nanos) (Some [minutely_record])
     (\<lparr>cd_workflows = [(3, 5)], cd_claims = []\<rparr>, []) = ((db, []), [r])" and w: "fr_workflow r = minutely_record"
    using minutely_tick by blast
  have elevated: "requires_elevated_authority (demo_workflow\<lparr>wd_trigger := Schedule (Some []) None\<rparr>)"
    by (simp add: requires_elevated_authority_def demo_workflow_def demo_step_def)
  from scheduled_runs_authorised [OF t, of r] elevated show ?thesis
    by (auto simp: w minutely_record_def)
qed

text \<open>
  One pod fires the workflow for the minute; it is deleted and created again; another pod fires it for the same
  minute.
\<close>

theorem scheduled_fires_at_most_once_witness:
  "\<exists>s r. cluster_reachable demo_schedules (\<lambda>_. []) s \<and> cl_log s = [Fired r, WorkflowDeleted 3 5, Fired r] \<and>
     fr_scheduled_for r = 60 * nanos \<and> fr_workflow r = minutely_record \<and>
     (WorkflowDeleted 3 5 \<in> set [WorkflowDeleted 3 5] \<or> (\<exists>keys. ClaimsPruned keys \<in> set [WorkflowDeleted 3 5] \<and> (3, 5, 60 * nanos) \<in> set keys))"
proof -
  let ?db = "\<lparr>cd_workflows = [(3, 5)], cd_claims = []\<rparr>" and ?step = "cluster_step demo_schedules (\<lambda>_. [])"
  obtain db r where t: "engine_tick demo_schedules (\<lambda>_. []) demo_tick (90 * nanos) (Some [minutely_record]) (?db, []) = ((db, []), [r])"
      and r: "fr_workflow r = minutely_record" "fr_scheduled_for r = 60 * nanos" and db: "cd_workflows db = [(3, 5)]" "claimed db = {(3, 5, 60 * nanos)}"
    using minutely_tick by blast
  have gone: "delete_workflow 3 5 db = (True, \<lparr>cd_workflows = [], cd_claims = []\<rparr>)"
  proof -
    have "\<forall>e\<in>set (cd_claims db). fst e = (3, 5, 60 * nanos)" using db(2) by (auto simp: claimed_def dom_map_of_conv_image_fst)
    then show ?thesis using db(1) by (auto simp: delete_workflow_def filter_empty_conv)
  qed
  define s where "s d pods log = \<lparr>cl_db = d, cl_pods = pods, cl_log = log\<rparr>" for d pods log
  have "(\<lambda>_. [])(p := []) = (\<lambda>_. [])" for p :: nat by (rule ext) simp
  note eval = s_def initial_cluster_def this
  have "?step initial_cluster (s ?db (\<lambda>_. []) [])"
    using workflow_created [of demo_schedules "\<lambda>_. []" initial_cluster 3 5] by (simp add: eval)
  moreover have "?step (s ?db (\<lambda>_. []) []) (s db (\<lambda>_. []) [Fired r])"
    using pod_tick [of demo_schedules "\<lambda>_. []" demo_tick "90 * nanos" "Some [minutely_record]" "s ?db (\<lambda>_. []) []" 0 db "[]" "[r]"] t by (simp add: eval)
  moreover have "?step (s db (\<lambda>_. []) [Fired r]) (s \<lparr>cd_workflows = [], cd_claims = []\<rparr> (\<lambda>_. []) [Fired r, WorkflowDeleted 3 5])"
    using workflow_deleted [of 3 5 "s db (\<lambda>_. []) [Fired r]"] gone by (simp add: eval)
  moreover have "?step (s \<lparr>cd_workflows = [], cd_claims = []\<rparr> (\<lambda>_. []) [Fired r, WorkflowDeleted 3 5]) (s ?db (\<lambda>_. []) [Fired r, WorkflowDeleted 3 5])"
    using workflow_created [of demo_schedules "\<lambda>_. []" "s \<lparr>cd_workflows = [], cd_claims = []\<rparr> (\<lambda>_. []) [Fired r, WorkflowDeleted 3 5]" 3 5] by (simp add: eval)
  moreover have "?step (s ?db (\<lambda>_. []) [Fired r, WorkflowDeleted 3 5]) (s db (\<lambda>_. []) [Fired r, WorkflowDeleted 3 5, Fired r])"
    using pod_tick [of demo_schedules "\<lambda>_. []" demo_tick "90 * nanos" "Some [minutely_record]" "s ?db (\<lambda>_. []) [Fired r, WorkflowDeleted 3 5]" 1 db "[]" "[r]"] t
    by (simp add: eval)
  ultimately have run: "cluster_reachable demo_schedules (\<lambda>_. []) (s db (\<lambda>_. []) [Fired r, WorkflowDeleted 3 5, Fired r])"
    unfolding cluster_reachable_def by (meson converse_rtranclp_into_rtranclp rtranclp.rtrancl_refl)
  have key: "wr_community_id minutely_record = 3" "wr_id minutely_record = 5" by (simp_all add: minutely_record_def demo_record_def)
  have "WorkflowDeleted 3 5 \<in> set [WorkflowDeleted 3 5] \<or> (\<exists>keys. ClaimsPruned keys \<in> set [WorkflowDeleted 3 5] \<and> (3, 5, 60 * nanos) \<in> set keys)"
    using conjunct1 [OF scheduled_fires_at_most_once [OF run], rule_format, of "[]" r "[WorkflowDeleted 3 5]" r "[]"] r key by (simp add: eval)
  then show ?thesis using run r by (intro exI [of _ "s db (\<lambda>_. []) [Fired r, WorkflowDeleted 3 5, Fired r]"] exI [of _ r]) (simp add: eval)
qed

end
