(* ===== verification/Workflow_Sink.thy ===== *)
theory Workflow_Sink
  imports Workflow_Engine
begin

section \<open>Messages of workflows (\<open>crates/buzz-relay/src/workflow_sink.rs\<close>, \<open>handlers/event.rs\<close>)\<close>

text \<open>
  The relay's side of an action: which members a workflow message mentions, the event it posts,
  and the gate before the workflow engine in the dispatch of stored events. Case folding follows
  the standard library: a character folds to the characters of a Unicode table, and a string
  folds character by character except for the capital sigma, which folds to the final sigma at
  the end of a word. The tables are the record \<open>unicode\<close>.
\<close>

record unicode =
  lower_char :: "nat \<Rightarrow> utext"
  is_cased :: "nat \<Rightarrow> bool"
  is_case_ignorable :: "nat \<Rightarrow> bool"
  is_alphanumeric :: "nat \<Rightarrow> bool"

subsection \<open>Folding case\<close>

definition ignorable_then_cased :: "unicode \<Rightarrow> utext \<Rightarrow> bool" where
  "ignorable_then_cased U t = (case dropWhile (is_case_ignorable U) t of [] \<Rightarrow> False | c # _ \<Rightarrow> is_cased U c)"

text \<open>\<open>str::to_lowercase\<close>; the first argument is the text before, reversed.\<close>

fun lower_str_from :: "unicode \<Rightarrow> utext \<Rightarrow> utext \<Rightarrow> utext" where
  "lower_str_from U before [] = []"
| "lower_str_from U before (c # cs) =
     (if c = 931 then
        (if ignorable_then_cased U before \<and> \<not> ignorable_then_cased U cs then [962] else [963])
      else lower_char U c) @ lower_str_from U (c # before) cs"

definition lower_str :: "unicode \<Rightarrow> utext \<Rightarrow> utext" where
  "lower_str U t = lower_str_from U [] t"

subsection \<open>Mentions\<close>

type_synonym member = "utext \<times> utext"

text \<open>The public key of a folded name, \<open>Some None\<close> when two members share it.\<close>

definition add_member_name :: "unicode \<Rightarrow> member \<Rightarrow> (utext \<times> utext option) list \<Rightarrow> (utext \<times> utext option) list" where
  "add_member_name U m by_name =
     (if trim (fst m) = [] then by_name
      else case map_of by_name (lower_str U (fst m)) of
             Some slot \<Rightarrow> if slot \<noteq> Some (snd m) then AList.update (lower_str U (fst m)) None by_name else by_name
           | None \<Rightarrow> AList.update (lower_str U (fst m)) (Some (snd m)) by_name)"

definition names_by_key :: "unicode \<Rightarrow> member list \<Rightarrow> (utext \<times> utext option) list" where
  "names_by_key U members = fold (add_member_name U) members []"

text \<open>How many characters of the text the folded name consumes.\<close>

fun match_name_len :: "unicode \<Rightarrow> utext \<Rightarrow> utext \<Rightarrow> nat option" where
  "match_name_len U cs [] = Some 0"
| "match_name_len U [] (f # fs) = None"
| "match_name_len U (c # cs) (f # fs) =
     (case strip_prefix (lower_char U c) (f # fs) of
        None \<Rightarrow> None
      | Some rest \<Rightarrow> map_option Suc (match_name_len U cs rest))"

definition is_left_boundary :: "utext \<Rightarrow> nat \<Rightarrow> bool" where
  "is_left_boundary chars i \<longleftrightarrow> i = 0 \<or> is_whitespace (chars ! (i - 1)) \<or> chars ! (i - 1) = of_char CHR ''(''"

definition extends_name :: "unicode \<Rightarrow> nat \<Rightarrow> bool" where
  "extends_name U c \<longleftrightarrow> is_alphanumeric U c \<or> c = of_char CHR ''_''"

text \<open>The length of the folded name at an \<open>@\<close>, when it stands there as a whole.\<close>

definition mention_len :: "unicode \<Rightarrow> utext \<Rightarrow> utext \<Rightarrow> nat \<Rightarrow> nat option" where
  "mention_len U chars folded i =
     (if chars ! i = of_char CHR ''@'' \<and> is_left_boundary chars i
      then Option.bind (match_name_len U (drop (Suc i) chars) folded) (\<lambda>n.
             case drop (Suc i + n) chars of [] \<Rightarrow> Some n | c # _ \<Rightarrow> if extends_name U c then None else Some n)
      else None)"

definition consume :: "nat \<Rightarrow> nat \<Rightarrow> bool list \<Rightarrow> bool list" where
  "consume i span consumed = map (\<lambda>(j, b). b \<or> i \<le> j \<and> j < i + span) (List.enumerate 0 consumed)"

type_synonym hit = "nat \<times> utext"

function scan_name ::
  "unicode \<Rightarrow> utext \<Rightarrow> (utext \<times> utext option) list \<Rightarrow> utext \<Rightarrow> nat \<Rightarrow> bool list \<Rightarrow> hit list \<Rightarrow> bool list \<times> hit list" where
  "scan_name U chars by_name folded i consumed hits =
     (if i < length chars then
        (case (if consumed ! i then None else mention_len U chars folded i) of
           Some n \<Rightarrow>
             scan_name U chars by_name folded (i + Suc n) (consume i (Suc n) consumed)
               (case map_of by_name folded of Some (Some pk) \<Rightarrow> hits @ [(i, pk)] | _ \<Rightarrow> hits)
         | None \<Rightarrow> scan_name U chars by_name folded (Suc i) consumed hits)
      else (consumed, hits))"
  by pat_completeness auto
termination
  by (relation "measure (\<lambda>(U, chars, by_name, folded, i, consumed, hits). length chars - i)") auto

declare scan_name.simps [simp del]

definition scan_member ::
  "unicode \<Rightarrow> utext \<Rightarrow> (utext \<times> utext option) list \<Rightarrow> member \<Rightarrow> bool list \<times> hit list \<Rightarrow> bool list \<times> hit list" where
  "scan_member U chars by_name m st =
     (if lower_str U (fst m) = [] then st
      else scan_name U chars by_name (lower_str U (fst m)) 0 (fst st) (snd st))"

fun first_of_each :: "'a list \<Rightarrow> 'a list \<Rightarrow> 'a list" where
  "first_of_each seen [] = []"
| "first_of_each seen (x # xs) = (if x \<in> set seen then first_of_each seen xs else x # first_of_each (x # seen) xs)"

definition resolve_mention_pubkeys :: "unicode \<Rightarrow> utext \<Rightarrow> member list \<Rightarrow> utext list" where
  "resolve_mention_pubkeys U text members =
     (let by_name = names_by_key U members;
          names = sort_key (\<lambda>m. - int (length (fst m))) members;
          hits = snd (fold (scan_member U text by_name) names (replicate (length text) False, []))
      in first_of_each [] (map snd (sort_key fst hits)))"

subsection \<open>Who is mentioned\<close>

text \<open>The keys of the members that carry a folded name.\<close>

definition owners :: "unicode \<Rightarrow> member list \<Rightarrow> utext \<Rightarrow> utext set" where
  "owners U members k = {pk. \<exists>name. (name, pk) \<in> set members \<and> trim name \<noteq> [] \<and> lower_str U name = k}"

lemma owners_snoc:
  "owners U (ms @ [m]) k =
   (if trim (fst m) \<noteq> [] \<and> lower_str U (fst m) = k then insert (snd m) (owners U ms k) else owners U ms k)"
  by (cases m) (auto simp: owners_def)

definition slot_of :: "'a set \<Rightarrow> 'a option option" where
  "slot_of A = (if A = {} then None else if is_singleton A then Some (Some (the_elem A)) else Some None)"

lemma slot_of_insert:
  "slot_of (insert x A) = (case slot_of A of None \<Rightarrow> Some (Some x) | Some s \<Rightarrow> if s \<noteq> Some x then Some None else Some s)"
proof -
  consider "A = {}" | y where "A = {y}" | "A \<noteq> {}" "\<not> is_singleton A" by (metis is_singletonE)
  then show ?thesis
  proof cases
    case (2 y)
    then show ?thesis by (cases "x = y") (auto simp: slot_of_def is_singleton_def doubleton_eq_iff)
  next
    case 3
    then have "\<not> is_singleton (insert x A)"
      by (metis insert_not_empty is_singleton_def insert_absorb singleton_insert_inj_eq subset_singleton_iff subset_insertI)
    with 3 show ?thesis by (simp add: slot_of_def)
  qed (simp add: slot_of_def)
qed

lemma slot_of_singleton: "slot_of A = Some (Some x) \<longleftrightarrow> A = {x}"
  by (auto simp: slot_of_def is_singleton_the_elem split: if_splits)

lemma names_by_key_owners: "map_of (names_by_key U ms) k = slot_of (owners U ms k)"
proof (induction ms arbitrary: k rule: rev_induct)
  case Nil
  then show ?case by (simp add: names_by_key_def owners_def slot_of_def)
next
  case (snoc m ms)
  have "names_by_key U (ms @ [m]) = add_member_name U m (names_by_key U ms)" by (simp add: names_by_key_def)
  then show ?case
    by (cases "trim (fst m) = []"; cases "lower_str U (fst m) = k")
      (auto simp: add_member_name_def owners_snoc slot_of_insert snoc.IH split: option.splits)
qed

lemma unambiguous_name: "map_of (names_by_key U ms) k = Some (Some pk) \<longleftrightarrow> owners U ms k = {pk}"
  by (simp add: names_by_key_owners slot_of_singleton)

subsubsection \<open>Scanning for one name\<close>

lemma consume_nth: "j < length c \<Longrightarrow> consume i n c ! j \<longleftrightarrow> c ! j \<or> i \<le> j \<and> j < i + n"
  by (simp add: consume_def nth_enumerate_eq)

lemma length_consume [simp]: "length (consume i n c) = length c"
  by (simp add: consume_def)

definition scanned ::
  "unicode \<Rightarrow> utext \<Rightarrow> (utext \<times> utext option) list \<Rightarrow> utext \<Rightarrow> nat \<Rightarrow> bool list \<times> hit list \<Rightarrow> bool list \<times> hit list \<Rightarrow> bool" where
  "scanned U chars by_name folded i st st' \<longleftrightarrow>
     length (fst st') = length chars
     \<and> (\<forall>j<length chars. fst st ! j \<longrightarrow> fst st' ! j)
     \<and> (\<forall>j<length chars. i \<le> j \<and> mention_len U chars folded j \<noteq> None \<longrightarrow> fst st' ! j)
     \<and> (\<forall>(j, pk)\<in>set (snd st'). (j, pk) \<in> set (snd st)
          \<or> j < length chars \<and> \<not> fst st ! j \<and> mention_len U chars folded j \<noteq> None \<and> map_of by_name folded = Some (Some pk))"

lemma scan_name_scanned:
  "length consumed = length chars \<Longrightarrow>
   scanned U chars by_name folded i (consumed, hits) (scan_name U chars by_name folded i consumed hits)"
proof (induction U chars by_name folded i consumed hits rule: scan_name.induct)
  case (1 U chars by_name folded i consumed hits)
  show ?case
  proof (cases "i < length chars")
    case False
    with "1.prems" show ?thesis by (subst scan_name.simps) (auto simp: scanned_def)
  next
    case i: True
    show ?thesis
    proof (cases "if consumed ! i then None else mention_len U chars folded i")
      case None
      let ?r = "scan_name U chars by_name folded (Suc i) consumed hits"
      have r: "scanned U chars by_name folded (Suc i) (consumed, hits) ?r"
        using "1.IH"(1) [OF i None "1.prems"] .
      have "mention_len U chars folded i \<noteq> None \<Longrightarrow> consumed ! i" using None by (auto split: if_splits)
      then have "scanned U chars by_name folded i (consumed, hits) ?r"
        using r i unfolding scanned_def by (auto simp: le_eq_less_or_eq Suc_le_eq)
      then show ?thesis using i None by (subst scan_name.simps) simp
    next
      case (Some n)
      let ?c = "consume i (Suc n) consumed"
      let ?h = "case map_of by_name folded of Some (Some pk) \<Rightarrow> hits @ [(i, pk)] | _ \<Rightarrow> hits"
      let ?r = "scan_name U chars by_name folded (i + Suc n) ?c ?h"
      have r: "scanned U chars by_name folded (i + Suc n) (?c, ?h) ?r"
        using "1.IH"(2) [OF i Some] "1.prems" by simp
      have here: "mention_len U chars folded i \<noteq> None" "\<not> consumed ! i" using Some by (auto split: if_splits)
      have "scanned U chars by_name folded i (consumed, hits) ?r"
        unfolding scanned_def
      proof (intro conjI allI impI ballI)
        show "length (fst ?r) = length chars" using r by (simp add: scanned_def)
        fix j assume j: "j < length chars"
        have c: "?c ! j \<Longrightarrow> fst ?r ! j" using r j by (simp add: scanned_def)
        show "fst ?r ! j" if "fst (consumed, hits) ! j" using that c j "1.prems" by (simp add: consume_nth)
        show "fst ?r ! j" if "i \<le> j \<and> mention_len U chars folded j \<noteq> None"
          using that r c j "1.prems" by (cases "j < i + Suc n") (auto simp: consume_nth scanned_def)
      next
        fix x assume x: "x \<in> set (snd ?r)"
        obtain j pk where jp: "x = (j, pk)" by (cases x)
        from r x jp have "(j, pk) \<in> set ?h \<or> j < length chars \<and> \<not> ?c ! j \<and> mention_len U chars folded j \<noteq> None
            \<and> map_of by_name folded = Some (Some pk)" by (auto simp: scanned_def)
        then show "case x of (j, pk) \<Rightarrow> (j, pk) \<in> set (snd (consumed, hits))
            \<or> j < length chars \<and> \<not> fst (consumed, hits) ! j \<and> mention_len U chars folded j \<noteq> None
              \<and> map_of by_name folded = Some (Some pk)"
          using i here "1.prems" jp by (auto simp: consume_nth split: option.splits)
      qed
      then show ?thesis using i Some by (subst scan_name.simps) simp
    qed
  qed
qed

subsubsection \<open>All names, longest first\<close>

text \<open>
  After the names in \<open>done\<close>: every place where one of them stands is consumed, and every hit comes
  from one of them that no earlier one matched at its place.
\<close>

definition mentioned_at :: "unicode \<Rightarrow> utext \<Rightarrow> member \<Rightarrow> nat \<Rightarrow> bool" where
  "mentioned_at U chars m j \<longleftrightarrow> lower_str U (fst m) \<noteq> [] \<and> mention_len U chars (lower_str U (fst m)) j \<noteq> None"

definition hits_ok :: "unicode \<Rightarrow> utext \<Rightarrow> (utext \<times> utext option) list \<Rightarrow> member list \<Rightarrow> bool list \<times> hit list \<Rightarrow> bool" where
  "hits_ok U chars by_name seen st \<longleftrightarrow>
     length (fst st) = length chars
     \<and> (\<forall>m\<in>set seen. \<forall>j<length chars. mentioned_at U chars m j \<longrightarrow> fst st ! j)
     \<and> (\<forall>(j, pk)\<in>set (snd st). j < length chars \<and>
          (\<exists>a m b. seen = a @ m # b \<and> mentioned_at U chars m j \<and> map_of by_name (lower_str U (fst m)) = Some (Some pk)
             \<and> (\<forall>m'\<in>set a. \<not> mentioned_at U chars m' j)))"

lemma hits_ok_step:
  assumes "hits_ok U chars by_name seen st"
  shows "hits_ok U chars by_name (seen @ [m]) (scan_member U chars by_name m st)"
proof (cases "lower_str U (fst m) = []")
  case True
  then have "\<not> mentioned_at U chars m j" for j by (simp add: mentioned_at_def)
  then show ?thesis using assms True unfolding hits_ok_def scan_member_def by fastforce
next
  case False
  let ?f = "lower_str U (fst m)" and ?st = "scan_member U chars by_name m st"
  have "length (fst st) = length chars" using assms by (simp add: hits_ok_def)
  from scan_name_scanned [OF this, of U by_name ?f 0 "snd st"] False
  have s: "scanned U chars by_name ?f 0 st ?st" by (simp add: scan_member_def)
  have m: "mentioned_at U chars m j \<longleftrightarrow> mention_len U chars ?f j \<noteq> None" for j using False by (simp add: mentioned_at_def)
  show ?thesis unfolding hits_ok_def
  proof (intro conjI ballI allI impI)
    show "length (fst ?st) = length chars" using s by (simp add: scanned_def)
  next
    fix m' j assume m': "m' \<in> set (seen @ [m])" and j: "j < length chars" and at: "mentioned_at U chars m' j"
    show "fst ?st ! j"
      using m' j at s assms m unfolding scanned_def hits_ok_def by auto
  next
    fix x assume x: "x \<in> set (snd ?st)"
    obtain j pk where jp: "x = (j, pk)" by (cases x)
    from s x jp consider "(j, pk) \<in> set (snd st)"
      | "j < length chars" "\<not> fst st ! j" "mentioned_at U chars m j" "map_of by_name ?f = Some (Some pk)"
      unfolding scanned_def m by fastforce
    then show "case x of (j, pk) \<Rightarrow> j < length chars \<and>
        (\<exists>a m' b. seen @ [m] = a @ m' # b \<and> mentioned_at U chars m' j \<and> map_of by_name (lower_str U (fst m')) = Some (Some pk)
           \<and> (\<forall>m''\<in>set a. \<not> mentioned_at U chars m'' j))"
    proof cases
      case 1
      with assms show ?thesis unfolding hits_ok_def jp by fastforce
    next
      case 2
      then have "\<forall>m'\<in>set seen. \<not> mentioned_at U chars m' j" using assms by (auto simp: hits_ok_def)
      with 2 show ?thesis unfolding jp by (intro case_prodI conjI exI [of _ seen] exI [of _ m] exI [of _ "[]"]) auto
    qed
  qed
qed

lemma hits_ok_all:
  "hits_ok U chars by_name names (fold (scan_member U chars by_name) names (replicate (length chars) False, []))"
proof (induction names rule: rev_induct)
  case (snoc m names)
  then show ?case using hits_ok_step by fastforce
qed (simp add: hits_ok_def)

lemma first_of_each_set: "set (first_of_each seen xs) = set xs - set seen"
  by (induction seen xs rule: first_of_each.induct) auto

lemma first_of_each_distinct: "distinct (first_of_each seen xs)"
  by (induction seen xs rule: first_of_each.induct) (auto simp: first_of_each_set)

lemma mentions_sound:
  "distinct (resolve_mention_pubkeys U text members) \<and>
   (\<forall>pk\<in>set (resolve_mention_pubkeys U text members).
      \<exists>m\<in>set members. \<exists>j<length text. mentioned_at U text m j
        \<and> owners U members (lower_str U (fst m)) = {pk}
        \<and> (\<forall>m'\<in>set members. length (fst m) < length (fst m') \<longrightarrow> \<not> mentioned_at U text m' j))"
proof (intro conjI ballI)
  show "distinct (resolve_mention_pubkeys U text members)"
    by (simp add: resolve_mention_pubkeys_def Let_def first_of_each_distinct)
  fix pk assume pk: "pk \<in> set (resolve_mention_pubkeys U text members)"
  let ?names = "sort_key (\<lambda>m. - int (length (fst m))) members"
  let ?st = "fold (scan_member U text (names_by_key U members)) ?names (replicate (length text) False, [])"
  from pk obtain j where "(j, pk) \<in> set (snd ?st)"
    by (auto simp: resolve_mention_pubkeys_def Let_def first_of_each_set)
  with hits_ok_all [of U "text" "names_by_key U members" ?names] obtain a m b where
    h: "j < length text" "?names = a @ m # b" "mentioned_at U text m j"
      "map_of (names_by_key U members) (lower_str U (fst m)) = Some (Some pk)"
      "\<forall>m'\<in>set a. \<not> mentioned_at U text m' j"
    unfolding hits_ok_def by fastforce
  have members: "set members = set a \<union> {m} \<union> set b" using h(2) by (metis set_sort Un_insert_right list.simps(15) set_append sup_bot_right Un_insert_left)
  have "sorted (map (\<lambda>m. - int (length (fst m))) (a @ m # b))" unfolding h(2) [symmetric] by simp
  then have "length (fst m') \<le> length (fst m)" if "m' \<in> set b" for m' using that by (auto simp: sorted_append)
  then have "\<forall>m'\<in>set members. length (fst m) < length (fst m') \<longrightarrow> \<not> mentioned_at U text m' j"
    using h(5) members by fastforce
  with h members show "\<exists>m\<in>set members. \<exists>j<length text. mentioned_at U text m j
      \<and> owners U members (lower_str U (fst m)) = {pk}
      \<and> (\<forall>m'\<in>set members. length (fst m) < length (fst m') \<longrightarrow> \<not> mentioned_at U text m' j)"
    unfolding unambiguous_name by blast
qed

text \<open>A workflow message mentions members of its channel and no one else, each once: behind every
  key that is tagged there is an \<open>@\<close> at the start of a word in the text followed by a whole display
  name, up to case, that belongs to this member and to no other, and no member with a longer name
  is named at that place.\<close>

theorem mentions_name_members:
  "distinct (resolve_mention_pubkeys U text members) \<and>
   (\<forall>pk\<in>set (resolve_mention_pubkeys U text members).
      \<exists>m\<in>set members. \<exists>j<length text. mentioned_at U text m j
        \<and> owners U members (lower_str U (fst m)) = {pk}
        \<and> (\<forall>m'\<in>set members. length (fst m) < length (fst m') \<longrightarrow> \<not> mentioned_at U text m' j))"
  by (rule mentions_sound)

subsection \<open>A name the text cannot spell\<close>

lemma lower_str_from_plain:
  "931 \<notin> set p \<Longrightarrow> lower_str_from U before (p @ rest) = concat (map (lower_char U) p) @ lower_str_from U (rev p @ before) rest"
  by (induction p arbitrary: before) auto

lemma match_prefix:
  assumes "\<forall>c. lower_char U c \<noteq> []"
  shows "match_name_len U (p @ cs) (concat (map (lower_char U) p) @ fs) = map_option ((+) (length p)) (match_name_len U cs fs)"
proof (induction p)
  case Nil
  then show ?case by (simp add: option.map_ident)
next
  case (Cons c p)
  obtain d ds where d: "lower_char U c = d # ds" using assms by (cases "lower_char U c") auto
  have "strip_prefix (lower_char U c) (lower_char U c @ r) = Some r" for r by simp
  then show ?case using Cons by (simp add: d option.map_comp o_def)
qed

text \<open>A display name that ends in a capital sigma is never mentioned, not even by its exact
  spelling: the name folds to the final sigma, the text character by character to the other one.\<close>

theorem final_sigma_never_mentioned:
  assumes "\<forall>c. lower_char U c \<noteq> []" and "lower_char U 931 = [963]"
    and "p \<noteq> []" "is_cased U (last p)" "\<not> is_case_ignorable U (last p)" "931 \<notin> set p" "64 \<notin> set p"
  shows "resolve_mention_pubkeys U (64 # p @ [931]) [(p @ [931], pk)] = []"
proof -
  let ?name = "p @ [931]" and ?text = "64 # p @ [931]"
  have "ignorable_then_cased U (rev p)"
    using assms(3-5) by (cases p rule: rev_cases) (auto simp: ignorable_then_cased_def)
  then have folded: "lower_str U ?name = concat (map (lower_char U) p) @ [962]"
    using assms(6) by (simp add: lower_str_def lower_str_from_plain ignorable_then_cased_def)
  have none: "\<not> mentioned_at U ?text (?name, pk) j" if j: "j < length ?text" for j
  proof (cases j)
    case 0
    have "match_name_len U ?name (lower_str U ?name) = None"
      unfolding folded match_prefix [OF assms(1)] using assms(2) by (simp add: strip_prefix_def starts_with_def)
    then show ?thesis using 0 by (simp add: mentioned_at_def mention_len_def)
  next
    case (Suc i)
    have "?name ! i \<noteq> 64"
      using j Suc assms(7) by (auto simp: nth_append in_set_conv_nth less_Suc_eq split: if_splits)
    then show ?thesis using Suc by (simp add: mentioned_at_def mention_len_def)
  qed
  show ?thesis
    using conjunct2 [OF mentions_sound [of U ?text "[(?name, pk)]"]] none by (cases "resolve_mention_pubkeys U ?text [(?name, pk)]") auto
qed

definition greek :: unicode where
  "greek = \<lparr>lower_char = (\<lambda>c. if 913 \<le> c \<and> c \<le> 937 then [c + 32] else [c]), is_cased = (\<lambda>c. 913 \<le> c \<and> c \<le> 969),
     is_case_ignorable = (\<lambda>_. False), is_alphanumeric = (\<lambda>c. 913 \<le> c \<and> c \<le> 969)\<rparr>"

theorem final_sigma_never_mentioned_witness:
  "resolve_mention_pubkeys greek (64 # [925, 921, 922, 927] @ [931]) [([925, 921, 922, 927] @ [931], ascii ''ab'')] = []
   \<and> resolve_mention_pubkeys greek (64 # [925, 921, 922, 927]) [([925, 921, 922, 927], ascii ''ab'')] = [ascii ''ab'']"
proof
  show "resolve_mention_pubkeys greek (64 # [925, 921, 922, 927] @ [931]) [([925, 921, 922, 927] @ [931], ascii ''ab'')] = []"
    by (rule final_sigma_never_mentioned) (simp_all add: greek_def)
  show "resolve_mention_pubkeys greek (64 # [925, 921, 922, 927]) [([925, 921, 922, 927], ascii ''ab'')] = [ascii ''ab'']"
    by (simp add: resolve_mention_pubkeys_def names_by_key_def add_member_name_def trim_def is_whitespace_def scan_member_def
        scan_name.simps mention_len_def is_left_boundary_def match_name_len.simps strip_prefix_def starts_with_def lower_str_def
        greek_def consume_def)
qed

theorem mentions_name_members_witness:
  "resolve_mention_pubkeys greek [64, 913] [([913], ascii ''a''), ([914], ascii ''b'')] = [ascii ''a'']
   \<and> (\<exists>m\<in>{([913], ascii ''a''), ([914], ascii ''b'')}. owners greek [([913], ascii ''a''), ([914], ascii ''b'')] (lower_str greek (fst m)) = {ascii ''a''})"
proof -
  have "resolve_mention_pubkeys greek [64, 913] [([913], ascii ''a''), ([914], ascii ''b'')] = [ascii ''a'']"
    by (simp add: resolve_mention_pubkeys_def names_by_key_def add_member_name_def trim_def is_whitespace_def scan_member_def
        scan_name.simps mention_len_def is_left_boundary_def match_name_len.simps strip_prefix_def starts_with_def lower_str_def
        greek_def consume_def)
  then show ?thesis
    using mentions_name_members [of greek "[64, 913]" "[([913], ascii ''a''), ([914], ascii ''b'')]"] by auto
qed

subsection \<open>Posting the message\<close>

datatype sink_error = InvalidInput | ChannelNotFound | ChannelArchived | EventBuild | SinkDatabase | EmptyContent

datatype channel_lookup = ChannelMissing | ChannelLookupFailed | ChannelFound bool bool

text \<open>
  The answers around a message: the relay is still running, the host of the community, the channel
  (archived, open), the owner's key in canonical form, its membership, the members of the channel
  with display name and key, the signing, the insertion (\<open>Some False\<close>: already stored).
\<close>

record sink_io =
  si_running :: bool
  si_host :: "utext option option"
  si_channel :: channel_lookup
  si_author :: "utext option"
  si_is_member :: "bool option"
  si_members :: "(utext option \<times> utext option) list option"
  si_event_id :: "utext option"
  si_inserted :: "bool option"

definition named_members :: "(utext option \<times> utext option) list \<Rightarrow> member list" where
  "named_members users = List.map_filter (\<lambda>(name, pk). case (name, pk) of (Some n, Some k) \<Rightarrow> Some (n, k) | _ \<Rightarrow> None) users"

definition workflow_message ::
  "unicode \<Rightarrow> (uuid \<Rightarrow> utext) \<Rightarrow> utext \<Rightarrow> nat \<Rightarrow> uuid \<Rightarrow> utext \<Rightarrow> utext \<Rightarrow> utext \<Rightarrow> member list \<Rightarrow> wf_event" where
  "workflow_message U show_uuid relay_pubkey now channel_uuid event_id content author members =
     \<lparr>we_id = event_id, we_pubkey = relay_pubkey, we_created_at = now, we_kind = KIND_STREAM_MESSAGE,
      we_tags = [(ascii ''p'', Some author), (ascii ''h'', Some (show_uuid channel_uuid)), (ascii ''buzz:workflow'', Some (ascii ''true''))]
        @ map (\<lambda>pk. (ascii ''p'', Some pk)) (filter (\<lambda>pk. pk \<noteq> author) (resolve_mention_pubkeys U content members)),
      we_content = content, we_channel_id = Some channel_uuid\<rparr>"

text \<open>The result of the call, and the event that is stored and dispatched, if any.\<close>

definition send_message ::
  "unicode \<Rightarrow> (utext \<Rightarrow> uuid option) \<Rightarrow> (uuid \<Rightarrow> utext) \<Rightarrow> utext \<Rightarrow> nat \<Rightarrow> sink_io \<Rightarrow> utext \<Rightarrow> utext
   \<Rightarrow> (sink_error + utext) \<times> wf_event option" where
  "send_message U parse_uuid show_uuid relay_pubkey now io channel_id content =
     (if \<not> si_running io then (Inl SinkDatabase, None)
      else case si_host io of
        None \<Rightarrow> (Inl SinkDatabase, None)
      | Some None \<Rightarrow> (Inl SinkDatabase, None)
      | Some (Some host) \<Rightarrow>
          if trim content = [] then (Inl EmptyContent, None)
          else case parse_uuid channel_id of
            None \<Rightarrow> (Inl InvalidInput, None)
          | Some channel_uuid \<Rightarrow> (case si_channel io of
              ChannelMissing \<Rightarrow> (Inl ChannelNotFound, None)
            | ChannelLookupFailed \<Rightarrow> (Inl SinkDatabase, None)
            | ChannelFound archived is_open \<Rightarrow>
                if archived then (Inl ChannelArchived, None)
                else case si_author io of
                  None \<Rightarrow> (Inl InvalidInput, None)
                | Some author \<Rightarrow> (case si_is_member io of
                    None \<Rightarrow> (Inl SinkDatabase, None)
                  | Some is_member \<Rightarrow>
                      if \<not> is_member \<and> \<not> is_open then (Inl InvalidInput, None)
                      else case si_members io of
                        None \<Rightarrow> (Inl SinkDatabase, None)
                      | Some users \<Rightarrow> (case si_event_id io of
                          None \<Rightarrow> (Inl EventBuild, None)
                        | Some event_id \<Rightarrow> (case si_inserted io of
                            None \<Rightarrow> (Inl SinkDatabase, None)
                          | Some inserted \<Rightarrow>
                              (Inr event_id,
                               if inserted
                               then Some (workflow_message U show_uuid relay_pubkey now channel_uuid event_id content author (named_members users))
                               else None))))))"

subsection \<open>The gate before the engine\<close>

definition KIND_GIFT_WRAP :: nat where "KIND_GIFT_WRAP = 1059"

definition is_command_kind :: "nat \<Rightarrow> bool" where
  "is_command_kind kind \<longleftrightarrow> kind \<in> {30620, 41010, 41011, 41012, 46020, 46030, 46031}"

definition reaches_engine :: "utext \<Rightarrow> wf_event \<Rightarrow> bool" where
  "reaches_engine relay_pubkey ev \<longleftrightarrow>
     (let is_relay_workflow_msg = (we_pubkey ev = relay_pubkey \<and> (\<exists>t\<in>set (we_tags ev). fst t = ascii ''buzz:workflow''))
      in \<not> is_workflow_execution_kind (we_kind ev) \<and> \<not> is_command_kind (we_kind ev)
         \<and> \<not> is_relay_workflow_msg \<and> we_kind ev \<noteq> KIND_GIFT_WRAP)"

text \<open>Workflows do not trigger workflows: a message that the relay posts for a workflow never
  reaches the workflow engine; it goes to the channel it was sent to, signed by the relay,
  attributed to the owner, and its further mentions are members of that channel. The call posts
  nothing for blank text, into an archived channel, or into a closed channel the owner is not in.\<close>

theorem workflow_messages_do_not_trigger:
  assumes "send_message U parse_uuid show_uuid relay_pubkey now io channel_id content = (r, Some ev)"
  shows "\<not> reaches_engine relay_pubkey ev
    \<and> we_channel_id ev = parse_uuid channel_id \<and> we_content ev = content \<and> trim content \<noteq> []
    \<and> (\<exists>is_open. si_channel io = ChannelFound False is_open \<and> (si_is_member io = Some True \<or> is_open))
    \<and> (\<exists>author users. si_author io = Some author \<and> si_members io = Some users \<and>
         (\<forall>pk. (ascii ''p'', Some pk) \<in> set (we_tags ev) \<longrightarrow> pk = author \<or> (\<exists>name. (Some name, Some pk) \<in> set users)))"
proof -
  from assms obtain ch host is_open is_member author users event_id where
    s: "trim content \<noteq> []" "parse_uuid channel_id = Some ch" "si_channel io = ChannelFound False is_open"
      "si_author io = Some author" "si_is_member io = Some is_member" "is_member \<or> is_open" "si_members io = Some users"
      "ev = workflow_message U show_uuid relay_pubkey now ch event_id content author (named_members users)"
    by (auto simp: send_message_def split: if_splits option.splits channel_lookup.splits)
  have member: "\<exists>name. (name, pk) \<in> set ms" if pk: "pk \<in> set (resolve_mention_pubkeys U content ms)" for pk ms
  proof -
    obtain m :: member where "owners U ms (lower_str U (fst m)) = {pk}"
      using bspec [OF conjunct2 [OF mentions_sound] pk] by blast
    then have "pk \<in> owners U ms (lower_str U (fst m))" by simp
    then show ?thesis unfolding owners_def by blast
  qed
  have user: "\<exists>name. (Some name, Some pk) \<in> set users" if "(name, pk) \<in> set (named_members users)" for name pk
    using that by (induction users) (auto simp: named_members_def map_filter_simps split: option.splits)
  have tags: "pk = author \<or> (\<exists>name. (Some name, Some pk) \<in> set users)" if "(ascii ''p'', Some pk) \<in> set (we_tags ev)" for pk
  proof -
    from that have "pk = author \<or> pk \<in> set (resolve_mention_pubkeys U content (named_members users))"
      by (auto simp: s(8) workflow_message_def ascii_def)
    then show ?thesis using member user by blast
  qed
  have "\<not> reaches_engine relay_pubkey ev" by (simp add: reaches_engine_def s(8) workflow_message_def)
  moreover have "we_channel_id ev = parse_uuid channel_id" "we_content ev = content"
    by (simp_all add: s(2,8) workflow_message_def)
  moreover have "si_is_member io = Some True \<or> is_open" using s(5,6) by auto
  ultimately show ?thesis using s(1,3,4,7) tags by blast
qed

theorem workflow_messages_do_not_trigger_witness:
  "\<exists>ev. send_message greek (\<lambda>_. Some 7) (\<lambda>_. ascii ''7'') (ascii ''relay'') 10
      \<lparr>si_running = True, si_host = Some (Some []), si_channel = ChannelFound False False, si_author = Some (ascii ''ab''),
       si_is_member = Some True, si_members = Some [], si_event_id = Some (ascii ''e''), si_inserted = Some True\<rparr> (ascii ''7'') (ascii ''hi'')
      = (Inr (ascii ''e''), Some ev) \<and> \<not> reaches_engine (ascii ''relay'') ev"
proof -
  obtain ev where "send_message greek (\<lambda>_. Some 7) (\<lambda>_. ascii ''7'') (ascii ''relay'') 10
      \<lparr>si_running = True, si_host = Some (Some []), si_channel = ChannelFound False False, si_author = Some (ascii ''ab''),
       si_is_member = Some True, si_members = Some [], si_event_id = Some (ascii ''e''), si_inserted = Some True\<rparr> (ascii ''7'') (ascii ''hi'')
      = (Inr (ascii ''e''), Some ev)"
    by (simp add: send_message_def trim_def is_whitespace_def ascii_def)
  with workflow_messages_do_not_trigger show ?thesis by blast
qed

end
