(* ===== verification/Workflow_Runs.thy ===== *)
theory Workflow_Runs
  imports Workflow_Engine
begin

section \<open>Runs and their records (\<open>buzz-workflow/src/executor.rs\<close>, \<open>lib.rs\<close>, \<open>buzz-db/src/workflow.rs\<close>)\<close>

text \<open>
  The table of runs, the permits that bound how many execute at once, and the path of a run from
  its creation over its execution to its recorded end. The time of the database is the argument
  \<open>now\<close>; a flag says whether a statement reaches the database.
\<close>

datatype run_status = Pending | Running | WaitingApproval | RunCompleted | RunFailed | RunCancelled

fun run_status_text :: "run_status \<Rightarrow> string" where
  "run_status_text Pending = ''pending''"
| "run_status_text Running = ''running''"
| "run_status_text WaitingApproval = ''waiting_approval''"
| "run_status_text RunCompleted = ''completed''"
| "run_status_text RunFailed = ''failed''"
| "run_status_text RunCancelled = ''cancelled''"

definition parse_run_status :: "string \<Rightarrow> run_status option" where
  "parse_run_status s =
     (if s = ''pending'' then Some Pending else if s = ''running'' then Some Running
      else if s = ''waiting_approval'' then Some WaitingApproval else if s = ''completed'' then Some RunCompleted
      else if s = ''failed'' then Some RunFailed else if s = ''cancelled'' then Some RunCancelled else None)"

lemma run_status_round_trip: "parse_run_status s = Some st \<longleftrightarrow> s = run_status_text st"
  by (cases st) (auto simp: parse_run_status_def)

datatype run_error = ErrorOf workflow_error | ApprovalGatesMissing

record run_record =
  rn_workflow_id :: uuid
  rn_status :: run_status
  rn_trigger_event_id :: "utext option"
  rn_current_step :: nat
  rn_trace :: "trace_entry list"
  rn_trigger_context :: "trigger_context option"
  rn_started_at :: "int option"
  rn_completed_at :: "int option"
  rn_error :: "run_error option"

type_synonym run_table = "((uuid \<times> uuid) \<times> run_record) list"

definition create_workflow_run ::
  "uuid \<Rightarrow> uuid \<Rightarrow> uuid \<Rightarrow> utext option \<Rightarrow> trigger_context option \<Rightarrow> run_table \<Rightarrow> run_table" where
  "create_workflow_run run_id community_id workflow_id trigger_event_id trigger_context runs =
     AList.update (community_id, run_id)
       \<lparr>rn_workflow_id = workflow_id, rn_status = Pending, rn_trigger_event_id = trigger_event_id, rn_current_step = 0,
        rn_trace = [], rn_trigger_context = trigger_context, rn_started_at = None, rn_completed_at = None, rn_error = None\<rparr> runs"

definition update_workflow_run ::
  "int \<Rightarrow> uuid \<Rightarrow> uuid \<Rightarrow> run_status \<Rightarrow> nat \<Rightarrow> trace_entry list \<Rightarrow> run_error option \<Rightarrow> run_table \<Rightarrow> run_table option" where
  "update_workflow_run now community_id run_id status current_step trace error runs =
     (case map_of runs (community_id, run_id) of
        None \<Rightarrow> None
      | Some row \<Rightarrow> Some (AList.update (community_id, run_id)
          (row\<lparr>rn_status := status, rn_current_step := current_step, rn_trace := trace, rn_error := error,
            rn_started_at := (if status = Running \<and> rn_started_at row = None then Some now else rn_started_at row),
            rn_completed_at := (if status \<in> {RunCompleted, RunFailed, RunCancelled} then Some now else rn_completed_at row)\<rparr>) runs))"

subsection \<open>Permits\<close>

record engine_state =
  en_permits :: nat
  en_runs :: run_table

definition new_engine :: "nat \<Rightarrow> engine_state" where
  "new_engine max_concurrent = \<lparr>en_permits = max max_concurrent 1, en_runs = []\<rparr>"

text \<open>
  The start of an execution: a permit or nothing, then the row is marked as running. The resumed
  variant keeps the stored trace, or an empty one when the row cannot be read.
\<close>

definition start_execution ::
  "int \<Rightarrow> bool \<Rightarrow> uuid \<Rightarrow> uuid \<Rightarrow> nat \<Rightarrow> trace_entry list \<Rightarrow> engine_state \<Rightarrow> (workflow_error + unit) \<times> engine_state" where
  "start_execution now db_ok community_id run_id start trace en =
     (if en_permits en = 0 then (Inl CapacityExceeded, en)
      else case (if db_ok then update_workflow_run now community_id run_id Running start trace None (en_runs en) else None) of
             None \<Rightarrow> (Inl Database, en)
           | Some runs \<Rightarrow> (Inr (), en\<lparr>en_permits := en_permits en - 1, en_runs := runs\<rparr>))"

definition start_run :: "int \<Rightarrow> bool \<Rightarrow> uuid \<Rightarrow> uuid \<Rightarrow> engine_state \<Rightarrow> (workflow_error + unit) \<times> engine_state" where
  "start_run now db_ok community_id run_id en = start_execution now db_ok community_id run_id 0 [] en"

definition start_resume ::
  "int \<Rightarrow> bool \<Rightarrow> bool \<Rightarrow> uuid \<Rightarrow> uuid \<Rightarrow> nat \<Rightarrow> engine_state \<Rightarrow> (workflow_error + unit) \<times> engine_state" where
  "start_resume now read_ok db_ok community_id run_id start en =
     start_execution now db_ok community_id run_id start
       (case map_of (en_runs en) (community_id, run_id) of
          Some row \<Rightarrow> if read_ok then rn_trace row else []
        | None \<Rightarrow> []) en"

text \<open>The permit is dropped when the execution returns, whatever it returns.\<close>

definition release :: "engine_state \<Rightarrow> engine_state" where
  "release en = en\<lparr>en_permits := en_permits en + 1\<rparr>"

definition no_progress :: partial_progress where
  "no_progress = \<lparr>pp_step_index = 0, pp_trace = []\<rparr>"

definition execute_run ::
  "('c, 'z) engine_lib_scheme \<Rightarrow> (nat \<Rightarrow> step_io) \<Rightarrow> int \<Rightarrow> bool \<Rightarrow> uuid \<Rightarrow> uuid \<Rightarrow> workflow_def \<Rightarrow> trigger_context
   \<Rightarrow> engine_state \<Rightarrow> effect list \<times> run_outcome \<times> engine_state" where
  "execute_run EL io now db_ok community_id run_id def tc en =
     (case start_run now db_ok community_id run_id en of
        (Inl e, en') \<Rightarrow> ([], Inl (e, no_progress), en')
      | (Inr _, en') \<Rightarrow> (case execute_steps EL io community_id def tc 0 None of
          (effs, outcome) \<Rightarrow> (effs, outcome, release en')))"

definition execute_from_step ::
  "('c, 'z) engine_lib_scheme \<Rightarrow> (nat \<Rightarrow> step_io) \<Rightarrow> int \<Rightarrow> bool \<Rightarrow> bool \<Rightarrow> uuid \<Rightarrow> uuid \<Rightarrow> workflow_def \<Rightarrow> trigger_context
   \<Rightarrow> nat \<Rightarrow> step_outputs option \<Rightarrow> engine_state \<Rightarrow> effect list \<times> run_outcome \<times> engine_state" where
  "execute_from_step EL io now read_ok db_ok community_id run_id def tc start initial_outputs en =
     (case start_resume now read_ok db_ok community_id run_id start en of
        (Inl e, en') \<Rightarrow> ([], Inl (e, no_progress), en')
      | (Inr _, en') \<Rightarrow> (case execute_steps EL io community_id def tc start initial_outputs of
          (effs, outcome) \<Rightarrow> (effs, outcome, release en')))"

subsection \<open>The recorded end\<close>

definition finalize_run ::
  "int \<Rightarrow> bool \<Rightarrow> uuid \<Rightarrow> uuid \<Rightarrow> run_outcome \<Rightarrow> trace_entry list option \<Rightarrow> engine_state \<Rightarrow> engine_state" where
  "finalize_run now db_ok community_id run_id outcome existing_trace en =
     (let prefix = (case existing_trace of Some t \<Rightarrow> t | None \<Rightarrow> []);
          update = (\<lambda>status step trace error.
            case (if db_ok then update_workflow_run now community_id run_id status step trace error (en_runs en) else None) of
              Some runs \<Rightarrow> en\<lparr>en_runs := runs\<rparr>
            | None \<Rightarrow> en)
      in case outcome of
           Inr r \<Rightarrow>
             if er_approval_token r \<noteq> None
             then update RunFailed (er_step_index r) (prefix @ er_trace r) (Some ApprovalGatesMissing)
             else update RunCompleted (er_step_index r) (prefix @ er_trace r) None
         | Inl (e, p) \<Rightarrow> update RunFailed (pp_step_index p) (prefix @ pp_trace p) (Some (ErrorOf e)))"

text \<open>A spawned task: the execution and its recorded end.\<close>

definition run_task ::
  "('c, 'z) engine_lib_scheme \<Rightarrow> (nat \<Rightarrow> step_io) \<Rightarrow> int \<Rightarrow> bool \<Rightarrow> uuid \<Rightarrow> uuid \<Rightarrow> workflow_def \<Rightarrow> trigger_context
   \<Rightarrow> engine_state \<Rightarrow> effect list \<times> engine_state" where
  "run_task EL io now db_ok community_id run_id def tc en =
     (case execute_run EL io now db_ok community_id run_id def tc en of
        (effs, outcome, en') \<Rightarrow> (effs, finalize_run now db_ok community_id run_id outcome None en'))"

text \<open>Resuming after an approval rebuilds the outputs from the stored trace.\<close>

definition resume_task ::
  "('c, 'z) engine_lib_scheme \<Rightarrow> (nat \<Rightarrow> step_io) \<Rightarrow> int \<Rightarrow> uuid \<Rightarrow> uuid \<Rightarrow> workflow_def option \<Rightarrow> nat
   \<Rightarrow> engine_state \<Rightarrow> effect list \<times> engine_state" where
  "resume_task EL io now community_id run_id stored resume_index en =
     (case map_of (en_runs en) (community_id, run_id) of
        None \<Rightarrow> ([], en)
      | Some run \<Rightarrow>
          if rn_status run \<noteq> WaitingApproval then ([], en)
          else case stored of
            None \<Rightarrow> ([], case update_workflow_run now community_id run_id RunFailed (rn_current_step run) (rn_trace run)
                                (Some (ErrorOf InvalidYaml)) (en_runs en) of
                        Some runs \<Rightarrow> en\<lparr>en_runs := runs\<rparr> | None \<Rightarrow> en)
          | Some def \<Rightarrow>
              let tc = (case rn_trigger_context run of Some t \<Rightarrow> t
                  | None \<Rightarrow> \<lparr>tc_text = [], tc_author = [], tc_channel_id = [], tc_timestamp = [], tc_emoji = [],
                      tc_message_id = [], tc_webhook_fields = []\<rparr>)
              in case execute_from_step EL io now True True community_id run_id def tc resume_index
                        (Some (trace_outputs [] (rn_trace run))) en of
                   (effs, outcome, en') \<Rightarrow> (effs, finalize_run now True community_id run_id outcome (Some (rn_trace run)) en'))"

subsection \<open>What the record says\<close>

lemma update_row:
  assumes "map_of runs (c, run) = Some row"
  shows "\<exists>runs' row'. update_workflow_run now c run status step trace err runs = Some runs'
    \<and> map_of runs' = (map_of runs)((c, run) \<mapsto> row')
    \<and> rn_status row' = status \<and> rn_current_step row' = step \<and> rn_trace row' = trace \<and> rn_error row' = err
    \<and> rn_workflow_id row' = rn_workflow_id row"
  using assms by (auto simp: update_workflow_run_def fun_eq_iff)

definition records :: "trace_entry list \<Rightarrow> run_outcome \<Rightarrow> run_record \<Rightarrow> bool" where
  "records prefix outcome row = (case outcome of
     Inr r \<Rightarrow> rn_current_step row = er_step_index r \<and> rn_trace row = prefix @ er_trace r
       \<and> (if er_approval_token r = None then rn_status row = RunCompleted \<and> rn_error row = None
          else rn_status row = RunFailed \<and> rn_error row = Some ApprovalGatesMissing)
   | Inl (e, p) \<Rightarrow> rn_current_step row = pp_step_index p \<and> rn_trace row = prefix @ pp_trace p
       \<and> rn_status row = RunFailed \<and> rn_error row = Some (ErrorOf e))"

lemma finalize_row:
  assumes "map_of (en_runs en) (c, run) = Some row"
  shows "\<exists>row'. map_of (en_runs (finalize_run now True c run outcome existing en)) = (map_of (en_runs en))((c, run) \<mapsto> row')
    \<and> en_permits (finalize_run now True c run outcome existing en) = en_permits en
    \<and> records (case existing of Some t \<Rightarrow> t | None \<Rightarrow> []) outcome row'"
proof -
  let ?p = "case existing of Some t \<Rightarrow> t | None \<Rightarrow> []"
  show ?thesis
  proof (cases outcome)
    case (Inl a)
    obtain e p where a: "a = (e, p)" by (cases a)
    from update_row [OF assms, of now RunFailed "pp_step_index p" "?p @ pp_trace p" "Some (ErrorOf e)"]
    show ?thesis by (auto simp: finalize_run_def records_def Let_def Inl a)
  next
    case (Inr r)
    from update_row [OF assms, of now RunFailed "er_step_index r" "?p @ er_trace r" "Some ApprovalGatesMissing"]
      update_row [OF assms, of now RunCompleted "er_step_index r" "?p @ er_trace r" None]
    show ?thesis by (cases "er_approval_token r") (auto simp: finalize_run_def records_def Let_def Inr)
  qed
qed

lemma start_run_row:
  assumes "map_of (en_runs en) (c, run) = Some row" and "0 < en_permits en"
  shows "\<exists>en' row'. start_run now True c run en = (Inr (), en') \<and> en_permits en' = en_permits en - 1
    \<and> map_of (en_runs en') = (map_of (en_runs en))((c, run) \<mapsto> row')"
  using update_row [OF assms(1), of now Running 0 "[]" None] assms(2)
  by (auto simp: start_run_def start_execution_def)

text \<open>C25. The record of a run tells what happened: when a permit is free and the database answers, the
  row of the run ends as completed or failed; its trace has exactly the entries of the steps before
  the recorded step, which is the end exactly for a completed run; an error is recorded exactly
  for a failed one; the permit is given back and no other row changes. Without a free permit the
  run has no effect and is recorded as failed for lack of capacity.\<close>

theorem recorded_runs_exact:
  assumes "map_of (en_runs en) (c, run) = Some row"
  shows "\<exists>row'. map_of (en_runs (snd (run_task EL io now True c run def tc en))) = (map_of (en_runs en))((c, run) \<mapsto> row')
    \<and> en_permits (snd (run_task EL io now True c run def tc en)) = en_permits en
    \<and> (if en_permits en = 0
       then fst (run_task EL io now True c run def tc en) = [] \<and> rn_status row' = RunFailed
         \<and> rn_error row' = Some (ErrorOf CapacityExceeded) \<and> rn_trace row' = []
       else rn_status row' \<in> {RunCompleted, RunFailed}
         \<and> map entry_step (rn_trace row') = map st_id (take (rn_current_step row') (wd_steps def))
         \<and> (rn_status row' = RunCompleted \<longleftrightarrow> rn_current_step row' = length (wd_steps def))
         \<and> (rn_status row' = RunCompleted \<longleftrightarrow> rn_error row' = None))"
proof (cases "en_permits en = 0")
  case True
  then have "run_task EL io now True c run def tc en =
      ([], finalize_run now True c run (Inl (CapacityExceeded, no_progress)) None en)"
    by (simp add: run_task_def execute_run_def start_run_def start_execution_def)
  with True finalize_row [OF assms, of now "Inl (CapacityExceeded, no_progress)" None] show ?thesis
    by (auto simp: records_def no_progress_def)
next
  case False
  with start_run_row [OF assms, of now] obtain en1 row1 where
    s: "start_run now True c run en = (Inr (), en1)" "en_permits en1 = en_permits en - 1"
      "map_of (en_runs en1) = (map_of (en_runs en))((c, run) \<mapsto> row1)" by blast
  obtain effs outcome where e: "execute_steps EL io c def tc 0 None = (effs, outcome)" by fastforce
  have t: "run_task EL io now True c run def tc en = (effs, finalize_run now True c run outcome None (release en1))"
    by (simp add: run_task_def execute_run_def s e)
  have "map_of (en_runs (release en1)) (c, run) = Some row1" by (simp add: release_def s)
  from finalize_row [OF this, of now outcome None] obtain row' where f:
    "map_of (en_runs (snd (run_task EL io now True c run def tc en))) = (map_of (en_runs en))((c, run) \<mapsto> row')"
    "en_permits (snd (run_task EL io now True c run def tc en)) = en_permits en"
    "records [] outcome row'"
    using False s by (auto simp: t release_def)
  have o: "outcome_ok 0 0 (wd_steps def) [] [] outcome"
    using execute_outcome [of 0 def None EL io c tc] by (simp add: e)
  show ?thesis
    using f o False
    by (intro exI [of _ row']) (cases outcome; auto simp: records_def outcome_ok_def stopped_at_def split: if_splits prod.splits)
qed

definition demo_runs :: engine_state where
  "demo_runs = \<lparr>en_permits = 1, en_runs = create_workflow_run 11 3 5 None None []\<rparr>"

theorem recorded_runs_exact_witness:
  "\<exists>row'. map_of (en_runs (snd (run_task demo_engine (\<lambda>_. demo_io) 0 True 3 11 demo_workflow forged_trigger demo_runs))) (3, 11) = Some row'
     \<and> map entry_step (rn_trace row') = map st_id (take (rn_current_step row') (wd_steps demo_workflow))"
proof -
  obtain row where "map_of (en_runs demo_runs) (3, 11) = Some row"
    by (simp add: demo_runs_def create_workflow_run_def)
  from recorded_runs_exact [OF this, of demo_engine "\<lambda>_. demo_io" 0 demo_workflow forged_trigger] show ?thesis
    by (auto simp: demo_runs_def)
qed

subsection \<open>Many runs at once\<close>

text \<open>
  The engine with its spawned tasks interleaved: a run is created and waits for its task, a task
  starts its execution or is turned away, an execution ends with any outcome. \<open>pe_waiting\<close> and
  \<open>pe_active\<close> are the tasks before and inside the execution.
\<close>

record pool_engine =
  pe_engine :: engine_state
  pe_waiting :: "(uuid \<times> uuid) list"
  pe_active :: "(uuid \<times> uuid) list"

inductive pool_step :: "pool_engine \<Rightarrow> pool_engine \<Rightarrow> bool" where
  create: "map_of (en_runs (pe_engine s)) (c, run) = None \<Longrightarrow>
    pool_step s (s\<lparr>pe_engine := (pe_engine s)\<lparr>en_runs := create_workflow_run run c w ev tc (en_runs (pe_engine s))\<rparr>,
      pe_waiting := (c, run) # pe_waiting s\<rparr>)"
| start: "(c, run) \<in> set (pe_waiting s) \<Longrightarrow> start_run now db_ok c run (pe_engine s) = (Inr (), en) \<Longrightarrow>
    pool_step s (s\<lparr>pe_engine := en, pe_waiting := removeAll (c, run) (pe_waiting s), pe_active := (c, run) # pe_active s\<rparr>)"
| turned_away: "(c, run) \<in> set (pe_waiting s) \<Longrightarrow> start_run now db_ok c run (pe_engine s) = (Inl e, en) \<Longrightarrow>
    pool_step s (s\<lparr>pe_engine := finalize_run now' db_ok' c run (Inl (e, no_progress)) None en,
      pe_waiting := removeAll (c, run) (pe_waiting s)\<rparr>)"
| finish: "(c, run) \<in> set (pe_active s) \<Longrightarrow>
    pool_step s (s\<lparr>pe_engine := finalize_run now db_ok c run outcome None (release (pe_engine s)),
      pe_active := remove1 (c, run) (pe_active s)\<rparr>)"

definition pool_reachable :: "nat \<Rightarrow> pool_engine \<Rightarrow> bool" where
  "pool_reachable max_concurrent s \<longleftrightarrow>
     pool_step\<^sup>*\<^sup>* \<lparr>pe_engine = new_engine max_concurrent, pe_waiting = [], pe_active = []\<rparr> s"

definition never_waiting :: "run_table \<Rightarrow> bool" where
  "never_waiting runs \<longleftrightarrow> (\<forall>key row. map_of runs key = Some row \<longrightarrow> rn_status row \<noteq> WaitingApproval)"

lemma update_never_waiting:
  "update_workflow_run now c run status step trace err runs = Some runs' \<Longrightarrow> status \<noteq> WaitingApproval \<Longrightarrow>
   never_waiting runs \<Longrightarrow> never_waiting runs'"
  by (auto simp: update_workflow_run_def never_waiting_def split: option.splits if_splits)

lemma start_run_ok:
  "start_run now db_ok c run en = (Inr x, en') \<Longrightarrow>
   en_permits en = Suc (en_permits en') \<and> (never_waiting (en_runs en) \<longrightarrow> never_waiting (en_runs en'))"
  by (auto simp: start_run_def start_execution_def split: if_splits option.splits intro: update_never_waiting)

lemma start_run_error: "start_run now db_ok c run en = (Inl e, en') \<Longrightarrow> en' = en"
  by (auto simp: start_run_def start_execution_def split: if_splits option.splits)

lemma finalize_keeps:
  "en_permits (finalize_run now db_ok c run outcome existing en) = en_permits en \<and>
   (never_waiting (en_runs en) \<longrightarrow> never_waiting (en_runs (finalize_run now db_ok c run outcome existing en)))"
  by (auto simp: finalize_run_def Let_def split: sum.splits prod.splits option.splits intro: update_never_waiting)

lemma create_never_waiting: "never_waiting runs \<Longrightarrow> never_waiting (create_workflow_run run c w ev tc runs)"
  by (auto simp: create_workflow_run_def never_waiting_def)

text \<open>C26. However runs are created, started, turned away and finished, the number of free permits and of
  running executions together stays the configured limit (at least one), so no more runs execute
  at once than configured; and no run is ever recorded as waiting for approval, so that a resumption
  after an approval finds nothing to resume.\<close>

theorem executions_bounded:
  assumes "pool_reachable max_concurrent s"
  shows "en_permits (pe_engine s) + length (pe_active s) = max max_concurrent 1
    \<and> (\<forall>EL io now c run def k. resume_task EL io now c run def k (pe_engine s) = ([], pe_engine s))"
proof -
  have "en_permits (pe_engine s) + length (pe_active s) = max max_concurrent 1 \<and> never_waiting (en_runs (pe_engine s))"
    using assms unfolding pool_reachable_def
  proof (induction rule: rtranclp_induct)
    case base
    then show ?case by (simp add: new_engine_def never_waiting_def)
  next
    case (step s s')
    from step.hyps(2) step.IH show ?case
    proof cases
      case (finish c run now db_ok outcome)
      have "Suc (length (remove1 (c, run) (pe_active s))) = length (pe_active s)"
        using finish(2) length_pos_if_in_set [of "(c, run)" "pe_active s"] by (simp add: length_remove1)
      with step.IH finish finalize_keeps [of now db_ok c run outcome None "release (pe_engine s)"] show ?thesis
        by (simp add: release_def)
    next
      case (start c run now db_ok en)
      with step.IH start_run_ok [OF start(3)] show ?thesis by simp
    next
      case (turned_away c run now db_ok e en now' db_ok')
      with step.IH start_run_error [OF turned_away(3)] finalize_keeps show ?thesis by simp
    qed (auto simp: create_never_waiting)
  qed
  then show ?thesis by (auto simp: resume_task_def never_waiting_def split: option.splits)
qed

theorem executions_bounded_witness:
  "\<exists>s. pool_reachable 1 s \<and> pe_active s = [(3, 11)] \<and> en_permits (pe_engine s) = 0"
proof -
  let ?s0 = "\<lparr>pe_engine = new_engine 1, pe_waiting = [], pe_active = []\<rparr>"
  let ?s1 = "?s0\<lparr>pe_engine := (pe_engine ?s0)\<lparr>en_runs := create_workflow_run 11 3 5 None None (en_runs (pe_engine ?s0))\<rparr>,
      pe_waiting := (3, 11) # pe_waiting ?s0\<rparr>"
  have "pool_step ?s0 ?s1" by (rule create) (simp add: new_engine_def)
  obtain en where en: "start_run 0 True 3 11 (pe_engine ?s1) = (Inr (), en)"
    by (simp add: start_run_def start_execution_def new_engine_def update_workflow_run_def create_workflow_run_def)
  let ?s2 = "?s1\<lparr>pe_engine := en, pe_waiting := removeAll (3, 11) (pe_waiting ?s1), pe_active := (3, 11) # pe_active ?s1\<rparr>"
  have "pool_step ?s1 ?s2" using en by (intro start) simp_all
  with \<open>pool_step ?s0 ?s1\<close> have r: "pool_reachable 1 ?s2" unfolding pool_reachable_def by simp
  from conjunct1 [OF executions_bounded [OF r]] have "en_permits (pe_engine ?s2) = 0" by simp
  with r show ?thesis by (intro exI [of _ ?s2]) simp
qed

end
