(* ===== verification/Workflow_Approval.thy ===== *)
theory Workflow_Approval
  imports Workflow_Runs
begin

section \<open>Approvals (\<open>buzz-relay/src/handlers/command_executor.rs\<close>, \<open>buzz-db/src/workflow.rs\<close>)\<close>

text \<open>
  Granting and denying an approval. A handler first reads and checks the approval, then stores its
  command event in a transaction, updates the approval on the connection pool (outside that
  transaction) and commits; only then the run is resumed or cancelled. Handlers of several clients
  interleave between the check and the rest. Approvals are keyed by community and token hash.
\<close>

datatype approval_status = ApprovalPending | Granted | Denied | Expired

record approval =
  ap_workflow_id :: uuid
  ap_run_id :: uuid
  ap_step_index :: nat
  ap_spec :: utext
  ap_status :: approval_status
  ap_approver :: "utext option"
  ap_note :: "utext option"
  ap_expires_at :: int

datatype command_error =
    MissingReference | BadHash | ApprovalNotFound | AlreadyDecided approval_status | ApprovalExpired
  | NotTheApprover | SpecUnsupported | PersistFailed | UpdateFailed | DecidedConcurrently | CommitFailed

type_synonym approval_key = "uuid \<times> bytes"

definition ascii_lower :: "utext \<Rightarrow> utext" where
  "ascii_lower = map (\<lambda>c. if 65 \<le> c \<and> c \<le> 90 then c + 32 else c)"

definition check_approver_spec :: "utext \<Rightarrow> utext \<Rightarrow> command_error + unit" where
  "check_approver_spec approver_spec requester_hex =
     (let spec = trim approver_spec in
      if spec = [] \<or> spec = ascii ''any'' then Inr ()
      else if utf8_len spec = 64 \<and> list_all is_hex_digit spec then
        (if ascii_lower requester_hex = ascii_lower spec then Inr () else Inl NotTheApprover)
      else Inl SpecUnsupported)"

subsection \<open>The database\<close>

record approval_db =
  ad_events :: "(uuid \<times> utext) list"
  ad_approvals :: "(approval_key \<times> approval) list"

definition create_approval :: "approval_key \<Rightarrow> approval \<Rightarrow> approval_db \<Rightarrow> approval_db" where
  "create_approval key a db =
     (if map_of (ad_approvals db) key = None
      then db\<lparr>ad_approvals := (key, a\<lparr>ap_status := ApprovalPending, ap_approver := None, ap_note := None\<rparr>) # ad_approvals db\<rparr>
      else db)"

definition update_approval_by_stored_hash ::
  "approval_key \<Rightarrow> approval_status \<Rightarrow> utext option \<Rightarrow> utext option \<Rightarrow> approval_db \<Rightarrow> bool \<times> approval_db" where
  "update_approval_by_stored_hash key status approver note db =
     (case map_of (ad_approvals db) key of
        Some a \<Rightarrow>
          if ap_status a = ApprovalPending
          then (True, db\<lparr>ad_approvals := AList.update key (a\<lparr>ap_status := status, ap_approver := approver, ap_note := note\<rparr>) (ad_approvals db)\<rparr>)
          else (False, db)
      | None \<Rightarrow> (False, db))"

subsection \<open>The handlers\<close>

record decision =
  dc_grant :: bool
  dc_key :: approval_key
  dc_event_id :: utext
  dc_actor :: utext
  dc_note :: "utext option"
  dc_run_id :: uuid
  dc_step_index :: nat

definition approval_reference :: "wf_event \<Rightarrow> utext option" where
  "approval_reference ev =
     (let tag = (\<lambda>name. find_map (\<lambda>(kind, content). if kind = ascii name then content else None) (we_tags ev))
      in case tag ''d'' of Some v \<Rightarrow> Some v | None \<Rightarrow> tag ''e'')"

text \<open>The checks before anything is written.\<close>

definition check_approval ::
  "(utext \<Rightarrow> bytes option) \<Rightarrow> int \<Rightarrow> bool \<Rightarrow> uuid \<Rightarrow> wf_event \<Rightarrow> utext \<Rightarrow> approval_db \<Rightarrow> command_error + decision" where
  "check_approval hex_decode now grant community_id ev actor db =
     (case approval_reference ev of
        None \<Rightarrow> Inl MissingReference
      | Some ref \<Rightarrow> (case hex_decode ref of
          None \<Rightarrow> Inl BadHash
        | Some token_hash \<Rightarrow> (case map_of (ad_approvals db) (community_id, token_hash) of
            None \<Rightarrow> Inl ApprovalNotFound
          | Some a \<Rightarrow>
              if ap_status a \<noteq> ApprovalPending then Inl (AlreadyDecided (ap_status a))
              else if now > ap_expires_at a then Inl ApprovalExpired
              else and_then (check_approver_spec (ap_spec a) actor) (\<lambda>_.
                Inr \<lparr>dc_grant = grant, dc_key = (community_id, token_hash), dc_event_id = we_id ev, dc_actor = actor,
                     dc_note = (if we_content ev = [] then None else Some (we_content ev)),
                     dc_run_id = ap_run_id a, dc_step_index = ap_step_index a\<rparr>))))"

datatype decision_outcome = Duplicate | Decided

text \<open>What the database does while the decision is written: the event, the update, the commit.\<close>

record decide_io =
  di_persist :: bool
  di_update :: bool
  di_commit :: bool

definition decide_approval ::
  "decide_io \<Rightarrow> decision \<Rightarrow> approval_db \<Rightarrow> (command_error + decision_outcome) \<times> approval_db" where
  "decide_approval io d db =
     (let event = (fst (dc_key d), dc_event_id d) in
      if \<not> di_persist io then (Inl PersistFailed, db)
      else if event \<in> set (ad_events db) then (Inr Duplicate, db)
      else if \<not> di_update io then (Inl UpdateFailed, db)
      else case update_approval_by_stored_hash (dc_key d) (if dc_grant d then Granted else Denied)
                  (Some (dc_actor d)) (dc_note d) db of
             (False, db') \<Rightarrow> (Inl DecidedConcurrently, db')
           | (True, db') \<Rightarrow>
               if \<not> di_commit io then (Inl CommitFailed, db')
               else (Inr Decided, db'\<lparr>ad_events := event # ad_events db'\<rparr>))"

subsection \<open>Interleaved handlers\<close>

text \<open>
  \<open>am_checked\<close> are the requests that have passed their checks, \<open>am_resumed\<close> and \<open>am_cancelled\<close> the
  runs that were resumed (behind the step that asked) or cancelled, with the approval they are for.
\<close>

record approval_machine =
  am_db :: approval_db
  am_checked :: "decision list"
  am_resumed :: "(approval_key \<times> uuid \<times> nat) list"
  am_cancelled :: "(approval_key \<times> uuid) list"

inductive approval_step :: "(utext \<Rightarrow> bytes option) \<Rightarrow> approval_machine \<Rightarrow> approval_machine \<Rightarrow> bool" for hex_decode where
  requested: "approval_step hex_decode s (s\<lparr>am_db := create_approval key a (am_db s)\<rparr>)"
| checked: "check_approval hex_decode now grant c ev actor (am_db s) = Inr d \<Longrightarrow>
    approval_step hex_decode s (s\<lparr>am_checked := d # am_checked s\<rparr>)"
| refused: "d \<in> set (am_checked s) \<Longrightarrow> decide_approval io d (am_db s) = (r, db) \<Longrightarrow> r \<noteq> Inr Decided \<Longrightarrow>
    approval_step hex_decode s (s\<lparr>am_db := db, am_checked := remove1 d (am_checked s)\<rparr>)"
| granted: "d \<in> set (am_checked s) \<Longrightarrow> dc_grant d \<Longrightarrow> decide_approval io d (am_db s) = (Inr Decided, db) \<Longrightarrow>
    approval_step hex_decode s (s\<lparr>am_db := db, am_checked := remove1 d (am_checked s),
      am_resumed := (dc_key d, dc_run_id d, Suc (dc_step_index d)) # am_resumed s\<rparr>)"
| denied: "d \<in> set (am_checked s) \<Longrightarrow> \<not> dc_grant d \<Longrightarrow> decide_approval io d (am_db s) = (Inr Decided, db) \<Longrightarrow>
    approval_step hex_decode s (s\<lparr>am_db := db, am_checked := remove1 d (am_checked s),
      am_cancelled := (dc_key d, dc_run_id d) # am_cancelled s\<rparr>)"

definition initial_approvals :: approval_machine where
  "initial_approvals = \<lparr>am_db = \<lparr>ad_events = [], ad_approvals = []\<rparr>, am_checked = [], am_resumed = [], am_cancelled = []\<rparr>"

definition approvals_reachable :: "(utext \<Rightarrow> bytes option) \<Rightarrow> approval_machine \<Rightarrow> bool" where
  "approvals_reachable hex_decode s \<longleftrightarrow> (approval_step hex_decode)\<^sup>*\<^sup>* initial_approvals s"

definition acted_on :: "approval_machine \<Rightarrow> approval_key list" where
  "acted_on s = map fst (am_resumed s) @ map fst (am_cancelled s)"

lemma update_true:
  assumes "update_approval_by_stored_hash key status approver note db = (True, db')"
  shows "\<exists>a. map_of (ad_approvals db) key = Some a \<and> ap_status a = ApprovalPending \<and> ad_events db' = ad_events db
    \<and> map_of (ad_approvals db') = (map_of (ad_approvals db))(key \<mapsto> a\<lparr>ap_status := status, ap_approver := approver, ap_note := note\<rparr>)"
  using assms by (auto simp: update_approval_by_stored_hash_def fun_eq_iff split: option.splits if_splits)

lemma update_false: "update_approval_by_stored_hash key status approver note db = (False, db') \<Longrightarrow> db' = db"
  by (auto simp: update_approval_by_stored_hash_def split: option.splits if_splits)

text \<open>What a decision does to the approvals: nothing, or it settles a pending one.\<close>

lemma decide_cases:
  assumes "decide_approval io d db = (r, db')"
  shows "(r \<noteq> Inr Decided \<and> r \<noteq> Inl CommitFailed \<and> ad_approvals db' = ad_approvals db)
    \<or> ((r = Inr Decided \<or> r = Inl CommitFailed) \<and> (\<exists>a. map_of (ad_approvals db) (dc_key d) = Some a \<and> ap_status a = ApprovalPending
        \<and> map_of (ad_approvals db') = (map_of (ad_approvals db))(dc_key d \<mapsto>
            a\<lparr>ap_status := (if dc_grant d then Granted else Denied), ap_approver := Some (dc_actor d), ap_note := dc_note d\<rparr>)))"
  using assms
  by (auto simp: decide_approval_def Let_def split: if_splits prod.splits bool.splits dest!: update_true update_false)

definition authorised :: "approval \<Rightarrow> bool" where
  "authorised a \<longleftrightarrow> ap_status a = ApprovalPending \<or> (\<exists>actor. ap_approver a = Some actor \<and> check_approver_spec (ap_spec a) actor = Inr ())"

definition decision_ok :: "approval_db \<Rightarrow> decision \<Rightarrow> bool" where
  "decision_ok db d \<longleftrightarrow> (\<exists>a. map_of (ad_approvals db) (dc_key d) = Some a \<and> check_approver_spec (ap_spec a) (dc_actor d) = Inr ()
     \<and> dc_run_id d = ap_run_id a \<and> dc_step_index d = ap_step_index a)"

definition resumed_ok :: "approval_db \<Rightarrow> approval_key \<times> uuid \<times> nat \<Rightarrow> bool" where
  "resumed_ok db x \<longleftrightarrow> (\<exists>a. map_of (ad_approvals db) (fst x) = Some a \<and> ap_status a = Granted
     \<and> snd x = (ap_run_id a, Suc (ap_step_index a)))"

definition cancelled_ok :: "approval_db \<Rightarrow> approval_key \<times> uuid \<Rightarrow> bool" where
  "cancelled_ok db x \<longleftrightarrow> (\<exists>a. map_of (ad_approvals db) (fst x) = Some a \<and> ap_status a = Denied \<and> snd x = ap_run_id a)"

definition approvals_ok :: "approval_machine \<Rightarrow> bool" where
  "approvals_ok s \<longleftrightarrow>
     distinct (acted_on s)
     \<and> (\<forall>x\<in>set (am_resumed s). resumed_ok (am_db s) x)
     \<and> (\<forall>x\<in>set (am_cancelled s). cancelled_ok (am_db s) x)
     \<and> (\<forall>k a. map_of (ad_approvals (am_db s)) k = Some a \<longrightarrow> authorised a)
     \<and> (\<forall>d\<in>set (am_checked s). decision_ok (am_db s) d)"

lemma acted_not_pending:
  assumes "approvals_ok s" and "k \<in> set (acted_on s)"
  shows "\<exists>a. map_of (ad_approvals (am_db s)) k = Some a \<and> ap_status a \<noteq> ApprovalPending"
  using assms by (fastforce simp: approvals_ok_def acted_on_def resumed_ok_def cancelled_ok_def)

lemma approval_authorised:
  assumes "approvals_ok s" and "map_of (ad_approvals (am_db s)) k = Some a"
  shows "authorised a"
  using assms unfolding approvals_ok_def by blast

text \<open>
  Settling a pending approval keeps the invariant: \<open>more\<close> says whether the run is also resumed or
  cancelled.
\<close>

lemma settle_ok:
  assumes "approvals_ok s" and "d \<in> set (am_checked s)"
    and "map_of (ad_approvals (am_db s)) (dc_key d) = Some a" "ap_status a = ApprovalPending"
    and db: "map_of (ad_approvals db) = (map_of (ad_approvals (am_db s)))(dc_key d \<mapsto>
            a\<lparr>ap_status := (if dc_grant d then Granted else Denied), ap_approver := Some (dc_actor d), ap_note := dc_note d\<rparr>)"
  shows "approvals_ok (s\<lparr>am_db := db, am_checked := remove1 d (am_checked s),
      am_resumed := (if act \<and> dc_grant d then [(dc_key d, dc_run_id d, Suc (dc_step_index d))] else []) @ am_resumed s,
      am_cancelled := (if act \<and> \<not> dc_grant d then [(dc_key d, dc_run_id d)] else []) @ am_cancelled s\<rparr>)"
    (is "approvals_ok ?s")
proof -
  have fresh: "dc_key d \<notin> set (acted_on s)" using acted_not_pending [OF assms(1), of "dc_key d"] assms(3,4) by auto
  then have other: "fst x \<noteq> dc_key d" if "x \<in> set (am_resumed s)" for x using that by (auto simp: acted_on_def image_iff)
  have other': "fst x \<noteq> dc_key d" if "x \<in> set (am_cancelled s)" for x using that fresh by (auto simp: acted_on_def image_iff)
  have d: "check_approver_spec (ap_spec a) (dc_actor d) = Inr ()" "dc_run_id d = ap_run_id a" "dc_step_index d = ap_step_index a"
    using assms(1-3) by (auto simp: approvals_ok_def decision_ok_def)
  have "distinct (acted_on ?s)" using assms(1) fresh by (auto simp: approvals_ok_def acted_on_def)
  moreover have "resumed_ok db x" if "resumed_ok (am_db s) x" "fst x \<noteq> dc_key d" for x
    using that by (simp add: resumed_ok_def db)
  with assms(1) other d have "\<forall>x\<in>set (am_resumed ?s). resumed_ok (am_db ?s) x"
    by (auto simp: approvals_ok_def resumed_ok_def [of db "(dc_key d, r)" for r] db)
  moreover have "cancelled_ok db x" if "cancelled_ok (am_db s) x" "fst x \<noteq> dc_key d" for x
    using that by (simp add: cancelled_ok_def db)
  with assms(1) other' d have "\<forall>x\<in>set (am_cancelled ?s). cancelled_ok (am_db ?s) x"
    by (auto simp: approvals_ok_def cancelled_ok_def [of db "(dc_key d, r)" for r] db)
  moreover have "\<forall>k b. map_of (ad_approvals (am_db ?s)) k = Some b \<longrightarrow> authorised b"
    using approval_authorised [OF assms(1)] d by (simp add: db) (simp add: authorised_def)
  moreover have "\<forall>e\<in>set (am_checked ?s). decision_ok (am_db ?s) e"
    using assms(1,3) set_remove1_subset [of d "am_checked s"] by (fastforce simp: approvals_ok_def decision_ok_def db)
  ultimately show ?thesis unfolding approvals_ok_def by blast
qed

lemma approvals_ok_same:
  assumes "approvals_ok s" and "ad_approvals db = ad_approvals (am_db s)"
  shows "approvals_ok (s\<lparr>am_db := db, am_checked := remove1 d (am_checked s)\<rparr>)"
  using assms set_remove1_subset [of d "am_checked s"]
  by (auto simp: approvals_ok_def acted_on_def decision_ok_def resumed_ok_def cancelled_ok_def)

lemma approvals_ok_grow:
  assumes "approvals_ok s" and "\<And>k b. map_of (ad_approvals (am_db s)) k = Some b \<Longrightarrow> map_of (ad_approvals db) k = Some b"
    and "\<And>k b. map_of (ad_approvals db) k = Some b \<Longrightarrow> authorised b"
  shows "approvals_ok (s\<lparr>am_db := db\<rparr>)"
proof -
  have "decision_ok db d" if "decision_ok (am_db s) d" for d
    using that assms(2) unfolding decision_ok_def by blast
  moreover have "resumed_ok db x" if "resumed_ok (am_db s) x" for x
    using that assms(2) unfolding resumed_ok_def by blast
  moreover have "cancelled_ok db x" if "cancelled_ok (am_db s) x" for x
    using that assms(2) unfolding cancelled_ok_def by blast
  ultimately show ?thesis using assms(1,3) by (simp add: approvals_ok_def acted_on_def)
qed

lemma approval_step_ok:
  assumes "approval_step hex_decode s s'" and "approvals_ok s"
  shows "approvals_ok s'"
  using assms
proof cases
  case (requested key a)
  have grow: "map_of (ad_approvals (create_approval key a (am_db s))) k = Some b"
    if "map_of (ad_approvals (am_db s)) k = Some b" for k b
    using that by (auto simp: create_approval_def)
  have "authorised b" if "map_of (ad_approvals (create_approval key a (am_db s))) k = Some b" for k b
    using that approval_authorised [OF assms(2), of k b] by (auto simp: create_approval_def authorised_def split: if_splits)
  then show ?thesis unfolding requested by (intro approvals_ok_grow [OF assms(2) grow]) auto
next
  case (checked now grant c ev actor d)
  have "decision_ok (am_db s) d"
    using checked(2) by (auto simp: check_approval_def decision_ok_def result_simps split: option.splits if_splits)
  with checked assms(2) show ?thesis by (auto simp: approvals_ok_def acted_on_def)
next
  case (refused d io r db)
  from decide_cases [OF refused(3)] consider "ad_approvals db = ad_approvals (am_db s)"
    | a where "map_of (ad_approvals (am_db s)) (dc_key d) = Some a" "ap_status a = ApprovalPending"
      "map_of (ad_approvals db) = (map_of (ad_approvals (am_db s)))(dc_key d \<mapsto>
         a\<lparr>ap_status := (if dc_grant d then Granted else Denied), ap_approver := Some (dc_actor d), ap_note := dc_note d\<rparr>)" by blast
  then show ?thesis
  proof cases
    case 1
    then show ?thesis using approvals_ok_same [OF assms(2)] refused by simp
  next
    case 2
    from settle_ok [OF assms(2) refused(2) this, of False] show ?thesis by (simp add: refused(1))
  qed
next
  case (granted d io db)
  from decide_cases [OF granted(4)] obtain a where "map_of (ad_approvals (am_db s)) (dc_key d) = Some a" "ap_status a = ApprovalPending"
      "map_of (ad_approvals db) = (map_of (ad_approvals (am_db s)))(dc_key d \<mapsto>
         a\<lparr>ap_status := (if dc_grant d then Granted else Denied), ap_approver := Some (dc_actor d), ap_note := dc_note d\<rparr>)" by auto
  from settle_ok [OF assms(2) granted(2) this, of True] granted show ?thesis by simp
next
  case (denied d io db)
  from decide_cases [OF denied(4)] obtain a where "map_of (ad_approvals (am_db s)) (dc_key d) = Some a" "ap_status a = ApprovalPending"
      "map_of (ad_approvals db) = (map_of (ad_approvals (am_db s)))(dc_key d \<mapsto>
         a\<lparr>ap_status := (if dc_grant d then Granted else Denied), ap_approver := Some (dc_actor d), ap_note := dc_note d\<rparr>)" by auto
  from settle_ok [OF assms(2) denied(2) this, of True] denied show ?thesis by simp
qed

lemma approvals_invariant: "approvals_reachable hex_decode s \<Longrightarrow> approvals_ok s"
  unfolding approvals_reachable_def
proof (induction rule: rtranclp_induct)
  case base
  then show ?case by (simp add: initial_approvals_def approvals_ok_def acted_on_def)
qed (rule approval_step_ok)

text \<open>C19. An approval is acted on at most once, however grants and denials race: over all interleavings no
  approval resumes or cancels a run twice, nor both; a run is resumed only behind the step that
  asked, only by a granted approval, and every settled approval was settled by someone its
  specification admits.\<close>

theorem approval_acted_on_once:
  assumes "approvals_reachable hex_decode s"
  shows "distinct (map fst (am_resumed s) @ map fst (am_cancelled s))
    \<and> (\<forall>(k, run, i)\<in>set (am_resumed s). \<exists>a actor. map_of (ad_approvals (am_db s)) k = Some a \<and> ap_status a = Granted
         \<and> run = ap_run_id a \<and> i = Suc (ap_step_index a)
         \<and> ap_approver a = Some actor \<and> check_approver_spec (ap_spec a) actor = Inr ())"
proof -
  have ok: "approvals_ok s" by (rule approvals_invariant [OF assms])
  have "\<exists>a actor. map_of (ad_approvals (am_db s)) (fst x) = Some a \<and> ap_status a = Granted
      \<and> snd x = (ap_run_id a, Suc (ap_step_index a)) \<and> ap_approver a = Some actor \<and> check_approver_spec (ap_spec a) actor = Inr ()"
    if x: "x \<in> set (am_resumed s)" for x
  proof -
    from ok x obtain a where a: "map_of (ad_approvals (am_db s)) (fst x) = Some a" "ap_status a = Granted"
        "snd x = (ap_run_id a, Suc (ap_step_index a))" unfolding approvals_ok_def resumed_ok_def by blast
    with approval_authorised [OF ok a(1)] show ?thesis by (auto simp: authorised_def)
  qed
  with ok show ?thesis by (fastforce simp: approvals_ok_def acted_on_def)
qed

subsection \<open>A commit that fails\<close>

lemma settled_stays:
  assumes "approval_step hex_decode s s'" and "map_of (ad_approvals (am_db s)) k = Some a" and "ap_status a \<noteq> ApprovalPending"
  shows "map_of (ad_approvals (am_db s')) k = Some a"
  using assms
proof cases
  case (requested key b)
  with assms(2) show ?thesis by (auto simp: create_approval_def)
next
  case (refused d io r db)
  with decide_cases [OF refused(3)] assms(2,3) show ?thesis by auto
next
  case (granted d io db)
  with decide_cases [OF granted(4)] assms(2,3) show ?thesis by auto
next
  case (denied d io db)
  with decide_cases [OF denied(4)] assms(2,3) show ?thesis by auto
qed auto

lemma settled_not_resumed:
  assumes "approval_step hex_decode s s'" and "map_of (ad_approvals (am_db s)) k = Some a" and "ap_status a \<noteq> ApprovalPending"
    and "k \<notin> fst ` set (am_resumed s)"
  shows "k \<notin> fst ` set (am_resumed s')"
  using assms
proof cases
  case (granted d io db)
  with decide_cases [OF granted(4)] assms(2,3) have "dc_key d \<noteq> k" by auto
  with granted assms(4) show ?thesis by auto
qed auto

lemma settled_forever:
  assumes "(approval_step hex_decode)\<^sup>*\<^sup>* s t" and "map_of (ad_approvals (am_db s)) k = Some a" and "ap_status a \<noteq> ApprovalPending"
    and "k \<notin> fst ` set (am_resumed s)"
  shows "map_of (ad_approvals (am_db t)) k = Some a \<and> k \<notin> fst ` set (am_resumed t)"
  using assms(1)
proof (induction rule: rtranclp_induct)
  case (step t u)
  then show ?case using settled_stays [OF step.hyps(2)] settled_not_resumed [OF step.hyps(2)] assms(3) by blast
qed (use assms in simp)

text \<open>C40. A grant whose commit fails is lost for good: the approval is already marked as granted although
  the client is told of an error, its run is never resumed afterwards, and every repetition of the
  request is turned away.\<close>

theorem failed_commit_loses_grant:
  assumes "approvals_reachable hex_decode s" and "d \<in> set (am_checked s)" and "dc_grant d"
    and "decide_approval io d (am_db s) = (Inl CommitFailed, db)"
    and "(approval_step hex_decode)\<^sup>*\<^sup>* (s\<lparr>am_db := db, am_checked := remove1 d (am_checked s)\<rparr>) t"
  shows "(\<exists>a. map_of (ad_approvals (am_db t)) (dc_key d) = Some a \<and> ap_status a = Granted)
    \<and> dc_key d \<notin> fst ` set (am_resumed t)
    \<and> (\<forall>now grant c ev actor d'. check_approval hex_decode now grant c ev actor (am_db t) = Inr d' \<longrightarrow> dc_key d' \<noteq> dc_key d)"
proof -
  let ?s = "s\<lparr>am_db := db, am_checked := remove1 d (am_checked s)\<rparr>"
  from decide_cases [OF assms(4)] obtain a where
    a: "map_of (ad_approvals (am_db s)) (dc_key d) = Some a" "ap_status a = ApprovalPending"
      "map_of (ad_approvals db) (dc_key d) = Some (a\<lparr>ap_status := Granted, ap_approver := Some (dc_actor d), ap_note := dc_note d\<rparr>)"
    using assms(3) by auto
  have "dc_key d \<notin> set (acted_on s)"
    using acted_not_pending [OF approvals_invariant [OF assms(1)], of "dc_key d"] a(1,2) by auto
  then have "dc_key d \<notin> fst ` set (am_resumed ?s)" by (simp add: acted_on_def)
  from settled_forever [OF assms(5) _ _ this] a(3) have t:
    "map_of (ad_approvals (am_db t)) (dc_key d) = Some (a\<lparr>ap_status := Granted, ap_approver := Some (dc_actor d), ap_note := dc_note d\<rparr>)"
    "dc_key d \<notin> fst ` set (am_resumed t)" by simp_all
  have "dc_key d' \<noteq> dc_key d" if "check_approval hex_decode now grant c ev actor (am_db t) = Inr d'" for now grant c ev actor d'
    using that t(1) by (auto simp: check_approval_def result_simps split: option.splits if_splits)
  with t show ?thesis by auto
qed

subsection \<open>Examples\<close>

definition demo_approval :: approval where
  "demo_approval = \<lparr>ap_workflow_id = 5, ap_run_id = 11, ap_step_index = 0, ap_spec = [], ap_status = ApprovalPending,
     ap_approver = None, ap_note = None, ap_expires_at = 100\<rparr>"

definition demo_grant :: decision where
  "demo_grant = \<lparr>dc_grant = True, dc_key = (3, [1]), dc_event_id = ascii ''g'', dc_actor = ascii ''bob'', dc_note = None,
     dc_run_id = 11, dc_step_index = 0\<rparr>"

definition demo_requested :: approval_machine where
  "demo_requested = initial_approvals\<lparr>am_db := create_approval (3, [1]) demo_approval (am_db initial_approvals), am_checked := [demo_grant]\<rparr>"

lemma demo_requested_reachable: "approvals_reachable (\<lambda>_. Some [1]) demo_requested"
proof -
  let ?s1 = "initial_approvals\<lparr>am_db := create_approval (3, [1]) demo_approval (am_db initial_approvals)\<rparr>"
  let ?ev = "\<lparr>we_id = ascii ''g'', we_pubkey = [], we_created_at = 0, we_kind = 46030, we_tags = [(ascii ''d'', Some (ascii ''01''))],
      we_content = [], we_channel_id = None\<rparr>"
  have "approval_step (\<lambda>_. Some [1]) initial_approvals ?s1" by (rule requested)
  moreover have "check_approval (\<lambda>_. Some [1]) 0 True 3 ?ev (ascii ''bob'') (am_db ?s1) = Inr demo_grant"
    by (simp add: check_approval_def approval_reference_def initial_approvals_def create_approval_def demo_approval_def
        check_approver_spec_def trim_def demo_grant_def)
  from checked [OF this] have "approval_step (\<lambda>_. Some [1]) ?s1 demo_requested"
    by (simp add: demo_requested_def initial_approvals_def)
  ultimately show ?thesis unfolding approvals_reachable_def by simp
qed

lemma demo_decide:
  "\<exists>db. decide_approval \<lparr>di_persist = True, di_update = True, di_commit = ok\<rparr> demo_grant (am_db demo_requested)
     = (if ok then Inr Decided else Inl CommitFailed, db)"
  by (simp add: decide_approval_def demo_grant_def demo_requested_def initial_approvals_def create_approval_def
      update_approval_by_stored_hash_def demo_approval_def)

theorem failed_commit_loses_grant_witness:
  "\<exists>db. decide_approval \<lparr>di_persist = True, di_update = True, di_commit = False\<rparr> demo_grant (am_db demo_requested) = (Inl CommitFailed, db)
     \<and> (\<exists>a. map_of (ad_approvals db) (3, [1]) = Some a \<and> ap_status a = Granted)"
proof -
  obtain db where db: "decide_approval \<lparr>di_persist = True, di_update = True, di_commit = False\<rparr> demo_grant (am_db demo_requested)
      = (Inl CommitFailed, db)" using demo_decide [of False] by auto
  have d: "demo_grant \<in> set (am_checked demo_requested)" "dc_grant demo_grant"
    by (simp_all add: demo_requested_def demo_grant_def)
  from failed_commit_loses_grant [OF demo_requested_reachable d db rtranclp.rtrancl_refl] db show ?thesis
    by (auto simp: demo_grant_def)
qed

theorem approval_acted_on_once_witness:
  "\<exists>s. approvals_reachable (\<lambda>_. Some [1]) s \<and> am_resumed s = [((3, [1]), 11, 1)] \<and> distinct (map fst (am_resumed s) @ map fst (am_cancelled s))"
proof -
  obtain db where db: "decide_approval \<lparr>di_persist = True, di_update = True, di_commit = True\<rparr> demo_grant (am_db demo_requested)
      = (Inr Decided, db)" using demo_decide [of True] by auto
  have d: "demo_grant \<in> set (am_checked demo_requested)" "dc_grant demo_grant"
    by (simp_all add: demo_requested_def demo_grant_def)
  let ?s = "demo_requested\<lparr>am_db := db, am_checked := remove1 demo_grant (am_checked demo_requested),
      am_resumed := (dc_key demo_grant, dc_run_id demo_grant, Suc (dc_step_index demo_grant)) # am_resumed demo_requested\<rparr>"
  have r: "approvals_reachable (\<lambda>_. Some [1]) ?s"
    using demo_requested_reachable granted [OF d db, of "\<lambda>_. Some [1]"] unfolding approvals_reachable_def
    by (rule rtranclp.rtrancl_into_rtrancl)
  from approval_acted_on_once [OF r] r show ?thesis
    by (intro exI [of _ ?s]) (simp add: demo_grant_def demo_requested_def initial_approvals_def)
qed

end
