(* ===== verification/Audio_Room.thy ===== *)
theory Audio_Room
  imports Prelude "HOL-Library.Multiset"
begin

section \<open>Audio rooms: admission, indexes and fan-out\<close>

text \<open>
  Models \<open>buzz-relay/src/audio/room.rs\<close> and the frame header of \<open>audio/wire.rs\<close>: the admission
  guard that allocates peer indexes, the room with its peers and the queues of each peer, the
  published roster mutations, and the manager of rooms. The bounded channels of a peer are lists
  that \<open>try_send\<close> extends up to their capacity while the receiver listens; the broadcast channel of
  roster mutations is the list of everything published. A poisoned mutex is a flag of the room.
\<close>

subsection \<open>Peers and their queues\<close>

datatype peer_ctrl = CtrlJson string | CtrlClose

record audio_peer =
  ap_pubkey :: string
  ap_audio :: "bytes list"
  ap_ctrl :: "peer_ctrl list"
  ap_listening :: bool
  ap_index :: "8 word"

definition AUDIO_CHANNEL_CAPACITY :: nat where "AUDIO_CHANNEL_CAPACITY = 8"
definition CTRL_CHANNEL_CAPACITY :: nat where "CTRL_CHANNEL_CAPACITY = 32"
definition MAX_PEERS_PER_ROOM :: nat where "MAX_PEERS_PER_ROOM = 25"

definition try_send :: "bool \<Rightarrow> nat \<Rightarrow> 'a \<Rightarrow> 'a list \<Rightarrow> 'a list" where
  "try_send listening cap x q = (if listening \<and> length q < cap then q @ [x] else q)"

definition send_audio :: "bytes \<Rightarrow> audio_peer \<Rightarrow> audio_peer" where
  "send_audio frame p = p\<lparr>ap_audio := try_send (ap_listening p) AUDIO_CHANNEL_CAPACITY frame (ap_audio p)\<rparr>"

definition send_ctrl :: "peer_ctrl \<Rightarrow> audio_peer \<Rightarrow> audio_peer" where
  "send_ctrl msg p = p\<lparr>ap_ctrl := try_send (ap_listening p) CTRL_CHANNEL_CAPACITY msg (ap_ctrl p)\<rparr>"

subsection \<open>The roster and the admission guard\<close>

record roster_peer =
  rp_pubkey :: string
  rp_index :: "8 word"

record roster_snapshot =
  rs_revision :: "64 word"
  rs_peers :: "roster_peer list"

record roster_delta =
  rd_revision :: "64 word"
  rd_joined :: "roster_peer option"
  rd_left :: "roster_peer option"

datatype admission_error = Ended | Full | VersionMismatch "8 word" "8 word"

record admission_guard =
  ag_next_fresh :: "8 word"
  ag_free :: "8 word list"
  ag_ended :: bool
  ag_pinned_version :: "8 word option"
  ag_roster_revision :: "64 word"

definition new_guard :: admission_guard where
  "new_guard = \<lparr>ag_next_fresh = 0, ag_free = [], ag_ended = False, ag_pinned_version = None, ag_roster_revision = 0\<rparr>"

text \<open>\<open>Vec::pop\<close> takes the last element, \<open>Vec::push\<close> appends.\<close>

definition alloc :: "admission_guard \<Rightarrow> 8 word option \<times> admission_guard" where
  "alloc g =
     (if ag_free g \<noteq> [] then (Some (last (ag_free g)), g\<lparr>ag_free := butlast (ag_free g)\<rparr>)
      else if ag_next_fresh g = 255 then (None, g)
      else (Some (ag_next_fresh g), g\<lparr>ag_next_fresh := ag_next_fresh g + 1\<rparr>))"

definition release_index :: "8 word \<Rightarrow> admission_guard \<Rightarrow> admission_guard" where
  "release_index i g = g\<lparr>ag_free := ag_free g @ [i]\<rparr>"

subsection \<open>The room\<close>

record room =
  rm_community_id :: uuid
  rm_channel_id :: uuid
  rm_peers :: "(uuid \<times> audio_peer) list"
  rm_guard :: admission_guard
  rm_poisoned :: bool
  rm_deltas :: "roster_delta list"

definition new_room :: "uuid \<Rightarrow> uuid \<Rightarrow> room" where
  "new_room c ch = \<lparr>rm_community_id = c, rm_channel_id = ch, rm_peers = [], rm_guard = new_guard, rm_poisoned = False, rm_deltas = []\<rparr>"

definition mark_ended :: "room \<Rightarrow> bool \<times> room" where
  "mark_ended r = (if rm_poisoned r then (False, r)
     else (rm_peers r = [], r\<lparr>rm_guard := (rm_guard r)\<lparr>ag_ended := True\<rparr>\<rparr>))"

definition clear_ended :: "room \<Rightarrow> room" where
  "clear_ended r = (if rm_poisoned r then r else r\<lparr>rm_guard := (rm_guard r)\<lparr>ag_ended := False\<rparr>\<rparr>)"

text \<open>Counting a roster mutation and publishing it, under the lock.\<close>

definition publish :: "roster_peer option \<Rightarrow> roster_peer option \<Rightarrow> room \<Rightarrow> room" where
  "publish joined left r =
     (let rev = ag_roster_revision (rm_guard r) + 1 in
      r\<lparr>rm_guard := (rm_guard r)\<lparr>ag_roster_revision := rev\<rparr>,
        rm_deltas := rm_deltas r @ [\<lparr>rd_revision = rev, rd_joined = joined, rd_left = left\<rparr>]\<rparr>)"

definition insert_peer :: "uuid \<Rightarrow> string \<Rightarrow> 8 word \<Rightarrow> room \<Rightarrow> room" where
  "insert_peer peer_id pubkey i r =
     publish (Some \<lparr>rp_pubkey = pubkey, rp_index = i\<rparr>) None
       (r\<lparr>rm_peers := AList.update peer_id
            \<lparr>ap_pubkey = pubkey, ap_audio = [], ap_ctrl = [], ap_listening = True, ap_index = i\<rparr> (rm_peers r)\<rparr>)"

definition pin_version :: "8 word \<Rightarrow> admission_guard \<Rightarrow> admission_guard" where
  "pin_version v g = g\<lparr>ag_pinned_version := (case ag_pinned_version g of None \<Rightarrow> Some v | Some p \<Rightarrow> Some p)\<rparr>"

definition version_check :: "8 word \<Rightarrow> admission_guard \<Rightarrow> admission_error + unit" where
  "version_check v g = (case ag_pinned_version g of
     Some pinned \<Rightarrow> if pinned \<noteq> v then Inl (VersionMismatch pinned v) else Inr ()
   | None \<Rightarrow> Inr ())"

definition add_peer :: "uuid \<Rightarrow> string \<Rightarrow> 8 word \<Rightarrow> room \<Rightarrow> (admission_error + 8 word) \<times> room" where
  "add_peer peer_id pubkey requested_version r =
     (if rm_poisoned r then (Inl Ended, r)
      else if ag_ended (rm_guard r) then (Inl Ended, r)
      else if length (rm_peers r) \<ge> MAX_PEERS_PER_ROOM then (Inl Full, r)
      else case version_check requested_version (rm_guard r) of
        Inl e \<Rightarrow> (Inl e, r)
      | Inr _ \<Rightarrow> (case alloc (rm_guard r) of
          (None, g) \<Rightarrow> (Inl Full, r\<lparr>rm_guard := g\<rparr>)
        | (Some i, g) \<Rightarrow> (Inr i, insert_peer peer_id pubkey i (r\<lparr>rm_guard := pin_version requested_version g\<rparr>))))"

text \<open>Keeping a later allocation from colliding with an index taken from outside.\<close>

definition reserve_index :: "8 word \<Rightarrow> admission_guard \<Rightarrow> admission_guard" where
  "reserve_index i g =
     (let g = g\<lparr>ag_free := filter (\<lambda>j. j \<noteq> i) (ag_free g)\<rparr>
      in if i \<ge> ag_next_fresh g then g\<lparr>ag_next_fresh := (if i = 255 then 255 else i + 1)\<rparr> else g)"

definition add_peer_at_index :: "uuid \<Rightarrow> string \<Rightarrow> 8 word \<Rightarrow> 8 word \<Rightarrow> room \<Rightarrow> (admission_error + unit) \<times> room" where
  "add_peer_at_index peer_id pubkey requested_version i r =
     (if rm_poisoned r then (Inl Ended, r)
      else if ag_ended (rm_guard r) then (Inl Ended, r)
      else if length (rm_peers r) \<ge> MAX_PEERS_PER_ROOM \<or> list_ex (\<lambda>(_, p). ap_index p = i) (rm_peers r) then (Inl Full, r)
      else case version_check requested_version (rm_guard r) of
        Inl e \<Rightarrow> (Inl e, r)
      | Inr _ \<Rightarrow>
          (Inr (), insert_peer peer_id pubkey i (r\<lparr>rm_guard := reserve_index i (pin_version requested_version (rm_guard r))\<rparr>)))"

text \<open>Taking a peer out and recycling its index, shared by the two ways of leaving.\<close>

definition drop_peer :: "uuid \<Rightarrow> audio_peer \<Rightarrow> room \<Rightarrow> room" where
  "drop_peer peer_id p r =
     publish None (Some \<lparr>rp_pubkey = ap_pubkey p, rp_index = ap_index p\<rparr>)
       (r\<lparr>rm_peers := AList.delete peer_id (rm_peers r), rm_guard := release_index (ap_index p) (rm_guard r)\<rparr>)"

definition remove_audio_peer :: "uuid \<Rightarrow> room \<Rightarrow> room" where
  "remove_audio_peer peer_id r =
     (if rm_poisoned r then r
      else case map_of (rm_peers r) peer_id of None \<Rightarrow> r | Some p \<Rightarrow> drop_peer peer_id p r)"

definition remove_peer_and_check_ended :: "uuid \<Rightarrow> room \<Rightarrow> (8 word \<times> bool) option \<times> room" where
  "remove_peer_and_check_ended peer_id r =
     (if rm_poisoned r then (None, r)
      else case map_of (rm_peers r) peer_id of
        None \<Rightarrow> (None, r)
      | Some p \<Rightarrow>
          (let r' = drop_peer peer_id p r;
               should_end = (\<not> ag_ended (rm_guard r') \<and> rm_peers r' = [])
           in (Some (ap_index p, should_end),
               if should_end then r'\<lparr>rm_guard := (rm_guard r')\<lparr>ag_ended := True\<rparr>\<rparr> else r')))"

definition broadcast_frame :: "uuid \<Rightarrow> bytes \<Rightarrow> room \<Rightarrow> room" where
  "broadcast_frame sender_id frame r = (case map_of (rm_peers r) sender_id of
     None \<Rightarrow> r
   | Some s \<Rightarrow> r\<lparr>rm_peers := map (\<lambda>(k, p). (k, if k = sender_id then p else send_audio (ap_index s # frame) p)) (rm_peers r)\<rparr>)"

definition deliver_prefixed :: "8 word \<Rightarrow> bytes \<Rightarrow> room \<Rightarrow> room" where
  "deliver_prefixed author_index prefixed r =
     r\<lparr>rm_peers := map (\<lambda>(k, p). (k, if ap_index p = author_index then p else send_audio prefixed p)) (rm_peers r)\<rparr>"

definition broadcast_control :: "string \<Rightarrow> room \<Rightarrow> room" where
  "broadcast_control json r = r\<lparr>rm_peers := map (\<lambda>(k, p). (k, send_ctrl (CtrlJson json) p)) (rm_peers r)\<rparr>"

definition roster_snapshot_of :: "room \<Rightarrow> roster_snapshot" where
  "roster_snapshot_of r =
     \<lparr>rs_revision = ag_roster_revision (rm_guard r),
      rs_peers = sort_key rp_index (map (\<lambda>(_, p). \<lparr>rp_pubkey = ap_pubkey p, rp_index = ap_index p\<rparr>) (rm_peers r))\<rparr>"

definition peer_pubkeys :: "room \<Rightarrow> (string \<times> 8 word) list" where
  "peer_pubkeys r = map (\<lambda>(_, p). (ap_pubkey p, ap_index p)) (rm_peers r)"

subsection \<open>The manager of rooms\<close>

type_synonym room_manager = "((uuid \<times> uuid) \<times> room) list"

definition get_or_create :: "uuid \<Rightarrow> uuid \<Rightarrow> room_manager \<Rightarrow> room \<times> room_manager" where
  "get_or_create c ch rooms = (case map_of rooms (c, ch) of
     Some r \<Rightarrow> (r, rooms)
   | None \<Rightarrow> (new_room c ch, AList.update (c, ch) (new_room c ch) rooms))"

definition get_room :: "uuid \<Rightarrow> uuid \<Rightarrow> room_manager \<Rightarrow> room option" where
  "get_room c ch rooms = map_of rooms (c, ch)"

definition get_unambiguous_by_channel :: "uuid \<Rightarrow> room_manager \<Rightarrow> ((uuid \<times> uuid) \<times> room) option" where
  "get_unambiguous_by_channel ch rooms = (case filter (\<lambda>((c, ch'), r). ch' = ch) rooms of [e] \<Rightarrow> Some e | _ \<Rightarrow> None)"

definition cleanup_if_empty :: "uuid \<Rightarrow> uuid \<Rightarrow> room_manager \<Rightarrow> bool \<times> room_manager" where
  "cleanup_if_empty c ch rooms = (case map_of rooms (c, ch) of
     Some r \<Rightarrow> if rm_peers r = [] then (True, AList.delete (c, ch) rooms) else (False, rooms)
   | None \<Rightarrow> (False, rooms))"

subsection \<open>The header of a version 2 frame\<close>

record frame_header =
  fr_seq :: "16 word"
  fr_ts_48k :: "32 word"
  fr_level_dbov :: "8 word"
  fr_flags :: "8 word"

definition V2_HEADER_LEN :: nat where "V2_HEADER_LEN = 8"

definition is_dtx :: "frame_header \<Rightarrow> bool" where
  "is_dtx h \<longleftrightarrow> bit (fr_flags h) 0"

definition from_be_bytes :: "bytes \<Rightarrow> 'a::len word" where
  "from_be_bytes bs = foldl (\<lambda>acc b. acc * 256 + ucast b) 0 bs"

text \<open>A signed byte is read with \<open>sint\<close>; out of \<open>-127..=0\<close> it becomes \<open>-127\<close>.\<close>

definition parse_header :: "bytes \<Rightarrow> (frame_header \<times> bytes) option" where
  "parse_header bs =
     (if length bs < V2_HEADER_LEN then None
      else let raw_level = bs ! 6 in
        Some (\<lparr>fr_seq = from_be_bytes (take 2 bs), fr_ts_48k = from_be_bytes (take 4 (drop 2 bs)),
               fr_level_dbov = (if -127 \<le> sint raw_level \<and> sint raw_level \<le> 0 then raw_level else -127),
               fr_flags = bs ! 7\<rparr>,
              drop V2_HEADER_LEN bs))"

subsection \<open>Runs of a room\<close>

text \<open>
  A room under any sequence of calls of its tasks: each call holds the lock of the guard. Fresh
  peer identifiers are what \<open>Uuid::new_v4\<close> gives; receivers take from their queues and go away at any
  time. The history keeps every call with its reply.
\<close>

datatype room_op =
    AddPeer uuid string "8 word"
  | AddPeerAt uuid string "8 word" "8 word"
  | RemovePeer uuid
  | RemoveAndCheck uuid
  | MarkEnded
  | ClearEnded
  | BroadcastFrame uuid bytes
  | DeliverPrefixed "8 word" bytes
  | BroadcastControl string
  | Receive uuid "bytes list" "peer_ctrl list" bool

datatype room_reply = Admitted "8 word" | Refused admission_error | Removed "8 word" bool | NoReply

fun room_exec :: "room_op \<Rightarrow> room \<Rightarrow> room_reply \<times> room" where
  "room_exec (AddPeer k pk v) r = (case add_peer k pk v r of
     (Inl e, r') \<Rightarrow> (Refused e, r') | (Inr i, r') \<Rightarrow> (Admitted i, r'))"
| "room_exec (AddPeerAt k pk v i) r = (case add_peer_at_index k pk v i r of
     (Inl e, r') \<Rightarrow> (Refused e, r') | (Inr _, r') \<Rightarrow> (Admitted i, r'))"
| "room_exec (RemovePeer k) r = (NoReply, remove_audio_peer k r)"
| "room_exec (RemoveAndCheck k) r = (case remove_peer_and_check_ended k r of
     (None, r') \<Rightarrow> (NoReply, r') | (Some (i, e), r') \<Rightarrow> (Removed i e, r'))"
| "room_exec MarkEnded r = (NoReply, snd (mark_ended r))"
| "room_exec ClearEnded r = (NoReply, clear_ended r)"
| "room_exec (BroadcastFrame k f) r = (NoReply, broadcast_frame k f r)"
| "room_exec (DeliverPrefixed i f) r = (NoReply, deliver_prefixed i f r)"
| "room_exec (BroadcastControl j) r = (NoReply, broadcast_control j r)"
| "room_exec (Receive k audio ctrl listening) r = (NoReply, r\<lparr>rm_peers :=
     map (\<lambda>(k', p). (k', if k' = k then p\<lparr>ap_audio := drop (length audio) (ap_audio p), ap_ctrl := drop (length ctrl) (ap_ctrl p),
                                          ap_listening := listening\<rparr> else p)) (rm_peers r)\<rparr>)"

fun op_fresh :: "room_op \<Rightarrow> room \<Rightarrow> bool" where
  "op_fresh (AddPeer k pk v) r \<longleftrightarrow> k \<notin> fst ` set (rm_peers r)"
| "op_fresh (AddPeerAt k pk v i) r \<longleftrightarrow> k \<notin> fst ` set (rm_peers r)"
| "op_fresh _ r \<longleftrightarrow> True"

fun takes_index :: "room_op \<Rightarrow> bool" where
  "takes_index (AddPeerAt k pk v i) \<longleftrightarrow> True"
| "takes_index _ \<longleftrightarrow> False"

inductive room_run :: "room \<Rightarrow> (room_op \<times> room_reply) list \<Rightarrow> bool" where
  start: "room_run (new_room c ch) []"
| call: "room_run r h \<Longrightarrow> op_fresh op r \<Longrightarrow> room_exec op r = (reply, r') \<Longrightarrow> room_run r' (h @ [(op, reply)])"

subsection \<open>Indexes are unique\<close>

abbreviation indexes :: "room \<Rightarrow> 8 word list" where
  "indexes r \<equiv> map (\<lambda>e. ap_index (snd e)) (rm_peers r)"

text \<open>The part of the guard and the peers that allocation depends on.\<close>

definition indexes_ok :: "8 word list \<Rightarrow> admission_guard \<Rightarrow> bool" where
  "indexes_ok used g \<longleftrightarrow> distinct (used @ ag_free g)
     \<and> (\<forall>i\<in>set used \<union> set (ag_free g). i < ag_next_fresh g \<or> ag_next_fresh g = 255)"

definition queues_ok :: "audio_peer \<Rightarrow> bool" where
  "queues_ok p \<longleftrightarrow> length (ap_audio p) \<le> AUDIO_CHANNEL_CAPACITY \<and> length (ap_ctrl p) \<le> CTRL_CHANNEL_CAPACITY"

definition room_ok :: "room \<Rightarrow> bool" where
  "room_ok r \<longleftrightarrow> distinct (map fst (rm_peers r)) \<and> length (rm_peers r) \<le> MAX_PEERS_PER_ROOM
     \<and> indexes_ok (indexes r) (rm_guard r) \<and> (\<forall>(_, p)\<in>set (rm_peers r). queues_ok p)"

lemma try_send_bound: "length q \<le> cap \<Longrightarrow> length (try_send l cap x q) \<le> cap"
  by (simp add: try_send_def)

lemma queues_ok_send [simp]:
  "queues_ok p \<Longrightarrow> queues_ok (send_audio f p)" "queues_ok p \<Longrightarrow> queues_ok (send_ctrl m p)"
  by (simp_all add: queues_ok_def send_audio_def send_ctrl_def try_send_bound)

lemma index_send [simp]:
  "ap_index (send_audio f p) = ap_index p" "ap_pubkey (send_audio f p) = ap_pubkey p"
  "ap_index (send_ctrl m p) = ap_index p" "ap_pubkey (send_ctrl m p) = ap_pubkey p"
  by (simp_all add: send_audio_def send_ctrl_def)

lemma word255_max: "(i::8 word) \<le> 255"
  using word_le_def [of i 255] uint_lt2p [of i] by simp

lemma word8_succ: "(i::8 word) \<noteq> 255 \<Longrightarrow> j \<le> i \<Longrightarrow> j < i + 1"
  by unat_arith auto

lemma alloc_ok:
  assumes "indexes_ok used g" and "alloc g = (Some i, g')"
  shows "indexes_ok (used @ [i]) g'"
proof (cases "ag_free g = []")
  case True
  then have g: "ag_next_fresh g \<noteq> 255" "i = ag_next_fresh g" "g' = g\<lparr>ag_next_fresh := ag_next_fresh g + 1\<rparr>"
    using assms(2) by (auto simp: alloc_def split: if_splits)
  have "j < ag_next_fresh g" if "j \<in> set used" for j
    using assms(1) that g(1) by (auto simp: indexes_ok_def)
  then show ?thesis
    using assms(1) g True word8_succ [OF g(1)] by (fastforce simp: indexes_ok_def)
next
  case False
  then obtain js where js: "ag_free g = js @ [i]" "g' = g\<lparr>ag_free := js\<rparr>"
    using assms(2) by (cases "ag_free g" rule: rev_cases) (auto simp: alloc_def)
  then show ?thesis using assms(1) by (auto simp: indexes_ok_def)
qed

lemma at_index_ok:
  assumes "indexes_ok used g" and "i \<notin> set used"
  shows "indexes_ok (used @ [i]) (reserve_index i g)"
proof (cases "i \<ge> ag_next_fresh g")
  case True
  have old: "j < i + 1 \<or> i = 255" if "j \<in> set used \<union> set (ag_free g)" for j
  proof -
    have "j < ag_next_fresh g \<or> ag_next_fresh g = 255" using assms(1) that by (auto simp: indexes_ok_def)
    then have "j \<le> i" using True word255_max [of j] by (auto dest: order.strict_implies_order order.trans)
    then show ?thesis using word8_succ [of i j] by blast
  qed
  have "distinct ((used @ [i]) @ filter (\<lambda>j. j \<noteq> i) (ag_free g))" using assms by (auto simp: indexes_ok_def)
  then show ?thesis using old True word8_succ [of i i] by (cases "i = 255") (auto simp: indexes_ok_def reserve_index_def Let_def)
next
  case False
  then show ?thesis using assms by (auto simp: indexes_ok_def reserve_index_def Let_def not_le)
qed

lemma release_ok:
  assumes "indexes_ok used g" and "i \<in> set used" and "set used' = set used - {i}" and "distinct used'"
  shows "indexes_ok used' (release_index i g)"
  using assms by (auto simp: indexes_ok_def release_index_def)

lemma indexes_ok_guard [simp]:
  "indexes_ok used (g\<lparr>ag_ended := b\<rparr>) = indexes_ok used g"
  "indexes_ok used (g\<lparr>ag_roster_revision := v\<rparr>) = indexes_ok used g"
  "indexes_ok used (pin_version v' g) = indexes_ok used g"
  by (simp_all add: indexes_ok_def pin_version_def)

lemma room_ok_ended [simp]: "room_ok (r\<lparr>rm_guard := (rm_guard r)\<lparr>ag_ended := b\<rparr>\<rparr>) = room_ok r"
  by (simp add: room_ok_def)

lemma room_ok_publish [simp]: "room_ok (publish j l r) = room_ok r"
  by (simp add: room_ok_def publish_def Let_def)

lemma update_fresh: "k \<notin> fst ` set xs \<Longrightarrow> AList.update k v xs = xs @ [(k, v)]"
  by (induction xs) auto

lemma insert_ok:
  assumes "room_ok r" and "k \<notin> fst ` set (rm_peers r)" and "length (rm_peers r) < MAX_PEERS_PER_ROOM"
    and "indexes_ok (indexes r @ [i]) g"
  shows "room_ok (insert_peer k pk i (r\<lparr>rm_guard := g\<rparr>))"
  using assms unfolding insert_peer_def room_ok_publish by (auto simp: room_ok_def update_fresh queues_ok_def)

lemma remaining_indexes:
  assumes "distinct (map fst (rm_peers r))" and "distinct (indexes r)" and "map_of (rm_peers r) k = Some p"
  shows "set (map (\<lambda>e. ap_index (snd e)) (AList.delete k (rm_peers r))) = set (indexes r) - {ap_index p}"
    "distinct (map (\<lambda>e. ap_index (snd e)) (AList.delete k (rm_peers r)))"
proof -
  have kp: "(k, p) \<in> set (rm_peers r)" using assms(3) by (rule map_of_SomeD)
  have key: "e = (k, p)" if "e \<in> set (rm_peers r)" "fst e = k" for e
    using that kp assms(1) by (metis eq_key_imp_eq_value prod.collapse)
  have "set (AList.delete k (rm_peers r)) = set (rm_peers r) - {(k, p)}"
    using key by (auto simp: AList.delete_eq)
  then show "set (map (\<lambda>e. ap_index (snd e)) (AList.delete k (rm_peers r))) = set (indexes r) - {ap_index p}"
    using inj_on_image_set_diff [OF conjunct2 [OF assms(2) [unfolded distinct_map]], of "set (rm_peers r)" "{(k, p)}"] kp by auto
  show "distinct (map (\<lambda>e. ap_index (snd e)) (AList.delete k (rm_peers r)))"
    using assms(2) by (simp add: AList.delete_eq distinct_map_filter)
qed

lemma drop_ok:
  assumes "room_ok r" and "map_of (rm_peers r) k = Some p"
  shows "room_ok (drop_peer k p r)"
proof -
  have d: "distinct (map fst (rm_peers r))" "indexes_ok (indexes r) (rm_guard r)" "distinct (indexes r)"
    using assms(1) by (simp_all add: room_ok_def indexes_ok_def)
  have "ap_index p \<in> set (indexes r)" using map_of_SomeD [OF assms(2)] by force
  then have "indexes_ok (map (\<lambda>e. ap_index (snd e)) (AList.delete k (rm_peers r))) (release_index (ap_index p) (rm_guard r))"
    by (rule release_ok [OF d(2)]) (rule remaining_indexes [OF d(1,3) assms(2)])+
  moreover have "set (AList.delete k (rm_peers r)) \<subseteq> set (rm_peers r)" by (auto simp: AList.delete_eq)
  ultimately show ?thesis
    using assms(1) distinct_delete [of "rm_peers r" k] length_delete_le [of k "rm_peers r"]
    unfolding drop_peer_def room_ok_publish by (auto simp: room_ok_def)
qed

lemma map_peers_ok:
  assumes "room_ok r" and "\<And>k p. ap_index (f k p) = ap_index p" and "\<And>k p. queues_ok p \<Longrightarrow> queues_ok (f k p)"
  shows "room_ok (r\<lparr>rm_peers := map (\<lambda>(k, p). (k, f k p)) (rm_peers r)\<rparr>)"
  using assms by (auto simp: room_ok_def comp_def case_prod_beta)

lemma room_ok_new: "room_ok (new_room c ch)"
  by (simp add: room_ok_def new_room_def new_guard_def indexes_ok_def)

lemma add_peer_cases:
  obtains (refused) e where "add_peer k pk v r = (Inl e, r)"
  | (admitted) i g where "add_peer k pk v r = (Inr i, insert_peer k pk i (r\<lparr>rm_guard := pin_version v g\<rparr>))"
      "\<not> rm_poisoned r" "\<not> ag_ended (rm_guard r)" "length (rm_peers r) < MAX_PEERS_PER_ROOM"
      "version_check v (rm_guard r) = Inr ()" "alloc (rm_guard r) = (Some i, g)"
proof (cases "rm_poisoned r \<or> ag_ended (rm_guard r) \<or> length (rm_peers r) \<ge> MAX_PEERS_PER_ROOM \<or> version_check v (rm_guard r) \<noteq> Inr ()")
  case True
  then have "\<exists>e. add_peer k pk v r = (Inl e, r)" by (cases "version_check v (rm_guard r)") (auto simp: add_peer_def)
  then show thesis using refused by blast
next
  case False
  note ok = this
  obtain o' g where a: "alloc (rm_guard r) = (o', g)" by (cases "alloc (rm_guard r)")
  show thesis
  proof (cases o')
    case None
    then have "g = rm_guard r" using a by (auto simp: alloc_def split: if_splits)
    then show thesis using refused ok a None by (simp add: add_peer_def)
  next
    case (Some i)
    then show thesis using admitted [of i g] ok a by (simp add: add_peer_def)
  qed
qed

lemma add_peer_at_cases:
  obtains (refused) e where "add_peer_at_index k pk v i r = (Inl e, r)"
  | (admitted) "add_peer_at_index k pk v i r = (Inr (), insert_peer k pk i (r\<lparr>rm_guard := reserve_index i (pin_version v (rm_guard r))\<rparr>))"
      "\<not> rm_poisoned r" "\<not> ag_ended (rm_guard r)" "length (rm_peers r) < MAX_PEERS_PER_ROOM" "i \<notin> set (indexes r)"
      "version_check v (rm_guard r) = Inr ()"
proof (cases "rm_poisoned r \<or> ag_ended (rm_guard r) \<or> length (rm_peers r) \<ge> MAX_PEERS_PER_ROOM \<or> i \<in> set (indexes r)
    \<or> version_check v (rm_guard r) \<noteq> Inr ()")
  case True
  then have "\<exists>e. add_peer_at_index k pk v i r = (Inl e, r)"
    by (cases "version_check v (rm_guard r)") (auto simp: add_peer_at_index_def list_ex_iff)
  then show thesis using refused by blast
next
  case False
  then have "\<not> list_ex (\<lambda>(_, p). ap_index p = i) (rm_peers r)" by (force simp: list_ex_iff)
  then show thesis using False admitted by (simp add: add_peer_at_index_def)
qed

lemma remove_cases:
  obtains (absent) "remove_audio_peer k r = r" "remove_peer_and_check_ended k r = (None, r)"
  | (present) p where "map_of (rm_peers r) k = Some p" "\<not> rm_poisoned r" "remove_audio_peer k r = drop_peer k p r"
proof (cases "rm_poisoned r")
  case True
  then show thesis using absent by (simp add: remove_audio_peer_def remove_peer_and_check_ended_def)
next
  case False
  then show thesis using absent present
    by (cases "map_of (rm_peers r) k") (simp_all add: remove_audio_peer_def remove_peer_and_check_ended_def)
qed

text \<open>Every call is an admission, a departure, a change of queues, or a change of the flag.\<close>

lemma exec_cases:
  assumes "room_exec op r = (reply, r')" and "op_fresh op r" and "room_ok r"
  obtains (same) "r' = r"
  | (admit) k pk i g where "r' = insert_peer k pk i (r\<lparr>rm_guard := g\<rparr>)" "k \<notin> fst ` set (rm_peers r)"
      "length (rm_peers r) < MAX_PEERS_PER_ROOM" "indexes_ok (indexes r @ [i]) g" "i \<notin> set (indexes r)"
      "ag_roster_revision g = ag_roster_revision (rm_guard r)"
      "takes_index op \<or> (\<exists>v g'. alloc (rm_guard r) = (Some i, g') \<and> g = pin_version v g')"
  | (leave) k p b where "map_of (rm_peers r) k = Some p" "r' = drop_peer k p r \<or> r' = (drop_peer k p r)\<lparr>rm_guard := (rm_guard (drop_peer k p r))\<lparr>ag_ended := b\<rparr>\<rparr>"
  | (queues) f where "r' = r\<lparr>rm_peers := map (\<lambda>(k, p). (k, f k p)) (rm_peers r)\<rparr>"
      "\<And>k p. ap_index (f k p) = ap_index p" "\<And>k p. ap_pubkey (f k p) = ap_pubkey p" "\<And>k p. queues_ok p \<Longrightarrow> queues_ok (f k p)"
  | (flag) b where "r' = r\<lparr>rm_guard := (rm_guard r)\<lparr>ag_ended := b\<rparr>\<rparr>"
proof (cases op)
  case (AddPeer k pk v)
  show thesis
  proof (cases k pk v r rule: add_peer_cases)
    case (refused e)
    then show thesis using assms(1) AddPeer same by simp
  next
    case (admitted i g)
    have ok: "indexes_ok (indexes r @ [i]) (pin_version v g)"
      using alloc_ok [OF _ admitted(6)] assms(3) by (simp add: room_ok_def)
    have "ag_roster_revision (pin_version v g) = ag_roster_revision (rm_guard r)"
      using admitted(6) by (auto simp: alloc_def pin_version_def split: if_splits)
    then show thesis
      using admit [OF _ _ admitted(4) ok] ok assms(1,2) admitted(1,6) AddPeer by (auto simp: indexes_ok_def)
  qed
next
  case (AddPeerAt k pk v i)
  show thesis
  proof (cases k pk v i r rule: add_peer_at_cases)
    case (refused e)
    then show thesis using assms(1) AddPeerAt same by simp
  next
    case admitted
    have ok: "indexes_ok (indexes r @ [i]) (reserve_index i (pin_version v (rm_guard r)))"
      using assms(3) by (intro at_index_ok admitted(5)) (simp add: room_ok_def)
    have "ag_roster_revision (reserve_index i (pin_version v (rm_guard r))) = ag_roster_revision (rm_guard r)"
      by (simp add: reserve_index_def pin_version_def Let_def)
    then show thesis
      using admit [OF _ _ admitted(4) ok admitted(5)] assms(1,2) admitted(1) AddPeerAt by auto
  qed
next
  case (RemovePeer k)
  then show thesis using assms(1) same leave by (cases k r rule: remove_cases) auto
next
  case (RemoveAndCheck k)
  show thesis
  proof (cases k r rule: remove_cases)
    case absent
    then show thesis using assms(1) RemoveAndCheck same by simp
  next
    case (present p)
    then show thesis
      using assms(1) RemoveAndCheck leave [of k p True]
      by (auto simp: remove_peer_and_check_ended_def Let_def split: if_splits)
  qed
next
  case MarkEnded
  then show thesis using assms(1) same flag by (auto simp: mark_ended_def split: if_splits)
next
  case ClearEnded
  then show thesis using assms(1) same flag by (auto simp: clear_ended_def split: if_splits)
next
  case (BroadcastFrame k f)
  show thesis
  proof (cases "map_of (rm_peers r) k")
    case None
    then show thesis using assms(1) same BroadcastFrame by (simp add: broadcast_frame_def)
  next
    case (Some s)
    show thesis
      by (rule queues [of "\<lambda>k' p. if k' = k then p else send_audio (ap_index s # f) p"])
        (use assms(1) BroadcastFrame Some in \<open>simp_all add: broadcast_frame_def\<close>)
  qed
next
  case (DeliverPrefixed i f)
  show thesis
    by (rule queues [of "\<lambda>k p. if ap_index p = i then p else send_audio f p"])
      (use assms(1) DeliverPrefixed in \<open>simp_all add: deliver_prefixed_def\<close>)
next
  case (BroadcastControl j)
  show thesis
    by (rule queues [of "\<lambda>k. send_ctrl (CtrlJson j)"]) (use assms(1) BroadcastControl in \<open>simp_all add: broadcast_control_def\<close>)
next
  case (Receive k audio ctrl l)
  show thesis
    by (rule queues [of "\<lambda>k' p. if k' = k then p\<lparr>ap_audio := drop (length audio) (ap_audio p), ap_ctrl := drop (length ctrl) (ap_ctrl p),
                                                 ap_listening := l\<rparr> else p"])
      (use assms(1) Receive in \<open>auto simp: queues_ok_def\<close>)
qed

lemma exec_ok:
  assumes "room_ok r" and "op_fresh op r" and "room_exec op r = (reply, r')"
  shows "room_ok r'"
  using assms(3,2,1)
proof (cases rule: exec_cases)
  case (admit k pk i g)
  then show ?thesis using insert_ok [OF assms(1)] by blast
next
  case (leave k p b)
  then show ?thesis using drop_ok [OF assms(1)] by auto
next
  case (queues f)
  then show ?thesis using map_peers_ok [OF assms(1)] by blast
qed (use assms(1) in simp_all)

lemma run_ok: "room_run r h \<Longrightarrow> room_ok r"
  by (induction rule: room_run.induct) (auto simp: room_ok_new intro: exec_ok)

text \<open>C15. However peers join and leave a room, on their own index or on one taken from the owner, the
  room never holds more than 25 peers, no two of them share an index, no index in use is up for
  allocation, and the queues of a peer stay within 8 frames and 32 control messages.\<close>

theorem room_indexes_unique:
  assumes "room_run r h"
  shows "length (rm_peers r) \<le> 25 \<and> distinct (map fst (rm_peers r)) \<and> distinct (indexes r)
    \<and> distinct (ag_free (rm_guard r)) \<and> set (indexes r) \<inter> set (ag_free (rm_guard r)) = {}
    \<and> (\<forall>(_, p)\<in>set (rm_peers r). length (ap_audio p) \<le> 8 \<and> length (ap_ctrl p) \<le> 32)"
  using run_ok [OF assms]
  by (auto simp: room_ok_def indexes_ok_def queues_ok_def MAX_PEERS_PER_ROOM_def AUDIO_CHANNEL_CAPACITY_def CTRL_CHANNEL_CAPACITY_def)

subsection \<open>Admission to an owned room\<close>

text \<open>Without indexes from outside, the indexes handed out so far are those in use and those free.\<close>

definition owner_ok :: "room \<Rightarrow> bool" where
  "owner_ok r \<longleftrightarrow> unat (ag_next_fresh (rm_guard r)) = length (rm_peers r) + length (ag_free (rm_guard r))
     \<and> unat (ag_next_fresh (rm_guard r)) \<le> MAX_PEERS_PER_ROOM"

lemma guard_publish [simp]:
  "rm_peers (publish j l r) = rm_peers r" "ag_free (rm_guard (publish j l r)) = ag_free (rm_guard r)"
  "ag_next_fresh (rm_guard (publish j l r)) = ag_next_fresh (rm_guard r)"
  "ag_ended (rm_guard (publish j l r)) = ag_ended (rm_guard r)"
  by (simp_all add: publish_def Let_def)

lemma alloc_count:
  assumes "alloc g = (Some i, g')" and "unat (ag_next_fresh g) = n + length (ag_free g)" and "n < MAX_PEERS_PER_ROOM"
    and "unat (ag_next_fresh g) \<le> MAX_PEERS_PER_ROOM"
  shows "unat (ag_next_fresh g') = Suc n + length (ag_free g') \<and> unat (ag_next_fresh g') \<le> MAX_PEERS_PER_ROOM"
proof (cases "ag_free g = []")
  case True
  then have g: "g' = g\<lparr>ag_next_fresh := ag_next_fresh g + 1\<rparr>" using assms(1) by (auto simp: alloc_def split: if_splits)
  have "unat (ag_next_fresh g + 1) = Suc (unat (ag_next_fresh g))"
    using assms(4) by (simp add: MAX_PEERS_PER_ROOM_def unat_word_ariths)
  then show ?thesis using assms g True by simp
next
  case False
  then show ?thesis using assms by (auto simp: alloc_def simp flip: length_greater_0_conv)
qed

lemma exec_owner_ok:
  assumes "room_ok r" and "owner_ok r" and "op_fresh op r" and "room_exec op r = (reply, r')" and "\<not> takes_index op"
  shows "owner_ok r'"
  using assms(4,3,1)
proof (cases rule: exec_cases)
  case (admit k pk i g)
  then obtain v g' where g: "alloc (rm_guard r) = (Some i, g')" "g = pin_version v g'" using assms(5) by blast
  show ?thesis
    using alloc_count [OF g(1), of "length (rm_peers r)"] assms(2) admit g(2)
    by (auto simp: owner_ok_def insert_peer_def update_fresh pin_version_def)
next
  case (leave k p b)
  have "length (AList.delete k (rm_peers r)) = length (rm_peers r) - 1"
  proof -
    have "map fst (AList.delete k (rm_peers r)) = remove1 k (map fst (rm_peers r))"
      using assms(1) by (simp add: delete_keys distinct_remove1_removeAll room_ok_def)
    moreover have "k \<in> set (map fst (rm_peers r))" using leave(1) map_of_SomeD by force
    ultimately show ?thesis by (metis length_map length_remove1)
  qed
  moreover have "rm_peers r \<noteq> []" using leave(1) by auto
  ultimately have "owner_ok (drop_peer k p r)"
    using assms(2) by (auto simp: owner_ok_def drop_peer_def release_index_def Suc_diff_Suc simp flip: length_greater_0_conv)
  then show ?thesis using leave(2) by (auto simp: owner_ok_def)
qed (use assms(2) in \<open>simp_all add: owner_ok_def\<close>)

lemma run_owner_ok:
  "room_run r h \<Longrightarrow> \<forall>(op, _)\<in>set h. \<not> takes_index op \<Longrightarrow> owner_ok r"
proof (induction rule: room_run.induct)
  case (start c ch)
  show ?case by (simp add: owner_ok_def new_room_def new_guard_def)
next
  case (call r h op reply r')
  then show ?case using exec_owner_ok [OF run_ok [OF call(1)]] by auto
qed

text \<open>In a room that allocates its own indexes, admission is refused for the documented reasons only,
  in their order of precedence: the room has ended, 25 peers are in it, or it is pinned to another
  protocol version. Otherwise the peer gets an index below 25 that no one uses.\<close>

theorem owner_admission_exact:
  assumes "room_run r h" and "\<forall>(op, _)\<in>set h. \<not> takes_index op"
  shows "if rm_poisoned r \<or> ag_ended (rm_guard r) then add_peer k pk v r = (Inl Ended, r)
    else if length (rm_peers r) \<ge> 25 then add_peer k pk v r = (Inl Full, r)
    else if \<exists>p. ag_pinned_version (rm_guard r) = Some p \<and> p \<noteq> v
      then add_peer k pk v r = (Inl (VersionMismatch (the (ag_pinned_version (rm_guard r))) v), r)
    else \<exists>i r'. add_peer k pk v r = (Inr i, r') \<and> unat i < 25 \<and> i \<notin> set (indexes r)"
proof -
  have ok: "indexes_ok (indexes r) (rm_guard r)" "owner_ok r"
    using run_ok [OF assms(1)] run_owner_ok [OF assms] by (simp_all add: room_ok_def)
  have "\<exists>i g. alloc (rm_guard r) = (Some i, g) \<and> unat i < 25" if "length (rm_peers r) < 25"
  proof (cases "ag_free (rm_guard r) = []")
    case True
    then have "unat (ag_next_fresh (rm_guard r)) < 25" using ok(2) that by (simp add: owner_ok_def)
    then show ?thesis using True by (auto simp: alloc_def)
  next
    case False
    let ?i = "last (ag_free (rm_guard r))"
    have n: "unat (ag_next_fresh (rm_guard r)) \<le> 25" using ok(2) by (simp add: owner_ok_def MAX_PEERS_PER_ROOM_def)
    have "?i < ag_next_fresh (rm_guard r) \<or> ag_next_fresh (rm_guard r) = 255" using ok(1) last_in_set [OF False] by (auto simp: indexes_ok_def)
    then have "unat ?i < 25" using n by (auto simp: word_less_nat_alt)
    then show ?thesis using False by (auto simp: alloc_def)
  qed
  moreover have "i \<notin> set (indexes r)" if "alloc (rm_guard r) = (Some i, g)" for i g
    using alloc_ok [OF ok(1) that] by (auto simp: indexes_ok_def)
  ultimately show ?thesis
    by (fastforce simp: add_peer_def MAX_PEERS_PER_ROOM_def version_check_def split: option.splits)
qed

subsection \<open>The end of a room\<close>

definition ended_and_empty :: "room \<Rightarrow> bool" where
  "ended_and_empty r \<longleftrightarrow> ag_ended (rm_guard r) \<and> rm_peers r = []"

lemma wins_end:
  assumes "room_exec op r = (Removed i True, r')"
  shows "ended_and_empty r'"
  using assms
  by (cases op) (auto simp: remove_peer_and_check_ended_def Let_def ended_and_empty_def split: prod.splits sum.splits option.splits if_splits)

lemma stays_ended:
  assumes "ended_and_empty r" and "room_exec op r = (reply, r')" and "op \<noteq> ClearEnded"
  shows "ended_and_empty r' \<and> (\<forall>i. reply \<noteq> Admitted i) \<and> (\<forall>i e. reply \<noteq> Removed i e)"
  using assms
  by (cases op)
    (auto simp: ended_and_empty_def add_peer_def add_peer_at_index_def remove_audio_peer_def remove_peer_and_check_ended_def mark_ended_def
      broadcast_frame_def deliver_prefixed_def broadcast_control_def split: if_splits)

lemma end_is_final:
  "room_run r h \<Longrightarrow> h = h1 @ (op, Removed i True) # h2 \<Longrightarrow> ClearEnded \<notin> fst ` set h2
     \<Longrightarrow> ended_and_empty r \<and> (\<forall>(_, reply)\<in>set h2. (\<forall>j. reply \<noteq> Admitted j) \<and> (\<forall>j e. reply \<noteq> Removed j e))"
proof (induction arbitrary: h1 op i h2 rule: room_run.induct)
  case (call r h op' reply r')
  show ?case
  proof (cases h2 rule: rev_cases)
    case Nil
    then show ?thesis using call.prems call.hyps(3) wins_end by auto
  next
    case (snoc h2' y)
    then have "h = h1 @ (op, Removed i True) # h2'" and y: "y = (op', reply)" using call.prems(1) by auto
    then have "ended_and_empty r \<and> (\<forall>(_, reply)\<in>set h2'. (\<forall>j. reply \<noteq> Admitted j) \<and> (\<forall>j e. reply \<noteq> Removed j e))"
      using call.IH call.prems(2) snoc by auto
    then show ?thesis using stays_ended [OF _ call.hyps(3)] call.prems(2) snoc y by auto
  qed
qed simp

text \<open>A room ends once: after the departure that was told to end the room, and as long as nobody clears
  the flag, the room stays empty, admits no one, and no other departure is told to end it.\<close>

theorem room_ends_once:
  assumes "room_run r (h1 @ (RemoveAndCheck k, Removed i True) # h2)" and "ClearEnded \<notin> fst ` set h2"
  shows "rm_peers r = [] \<and> ag_ended (rm_guard r)
    \<and> (\<forall>(_, reply)\<in>set h2. (\<forall>j. reply \<noteq> Admitted j) \<and> (\<forall>j. reply \<noteq> Removed j True))"
  using end_is_final [OF assms(1) refl assms(2)] by (fastforce simp: ended_and_empty_def)

subsection \<open>The roster is the sum of its mutations\<close>

definition apply_delta :: "roster_delta \<Rightarrow> (8 word \<rightharpoonup> string) \<Rightarrow> (8 word \<rightharpoonup> string)" where
  "apply_delta d m =
     (let m = (case rd_left d of None \<Rightarrow> m | Some p \<Rightarrow> m(rp_index p := None))
      in case rd_joined d of None \<Rightarrow> m | Some p \<Rightarrow> m(rp_index p \<mapsto> rp_pubkey p))"

definition roster_at :: "roster_delta list \<Rightarrow> (8 word \<rightharpoonup> string)" where
  "roster_at ds = fold apply_delta ds Map.empty"

definition current_roster :: "room \<Rightarrow> (8 word \<rightharpoonup> string)" where
  "current_roster r = map_of (map (\<lambda>e. (ap_index (snd e), ap_pubkey (snd e))) (rm_peers r))"

definition deltas_ok :: "room \<Rightarrow> bool" where
  "deltas_ok r \<longleftrightarrow> roster_at (rm_deltas r) = current_roster r
     \<and> ag_roster_revision (rm_guard r) = of_nat (length (rm_deltas r))
     \<and> (\<forall>j<length (rm_deltas r). rd_revision (rm_deltas r ! j) = of_nat (Suc j))"

lemma dom_current_roster: "dom (current_roster r) = set (indexes r)"
  by (simp add: current_roster_def dom_map_of_conv_image_fst image_image)

lemma current_roster_iff:
  assumes "distinct (indexes r)"
  shows "current_roster r i = Some pk \<longleftrightarrow> (\<exists>(_, p)\<in>set (rm_peers r). ap_index p = i \<and> ap_pubkey p = pk)"
proof -
  have "distinct (map fst (map (\<lambda>e. (ap_index (snd e), ap_pubkey (snd e))) (rm_peers r)))"
    using assms by (simp add: o_def)
  then show ?thesis unfolding current_roster_def by (subst map_of_eq_Some_iff) force+
qed

lemma publish_deltas:
  assumes "ag_roster_revision (rm_guard r) = of_nat (length (rm_deltas r))"
    and "\<forall>j<length (rm_deltas r). rd_revision (rm_deltas r ! j) = of_nat (Suc j)"
    and "apply_delta \<lparr>rd_revision = v, rd_joined = j, rd_left = l\<rparr> (roster_at (rm_deltas r)) = current_roster r"
  shows "deltas_ok (publish j l r)"
proof -
  have same: "apply_delta \<lparr>rd_revision = w, rd_joined = j, rd_left = l\<rparr> = apply_delta \<lparr>rd_revision = v, rd_joined = j, rd_left = l\<rparr>" for w
    by (simp add: apply_delta_def fun_eq_iff)
  have "roster_at (rm_deltas (publish j l r)) = current_roster (publish j l r)"
    unfolding publish_def Let_def using assms(3) by (simp add: roster_at_def current_roster_def same [of "ag_roster_revision (rm_guard r) + 1"])
  then show ?thesis
    using assms(1,2) by (auto simp: deltas_ok_def publish_def Let_def nth_append less_Suc_eq)
qed

lemma insert_deltas:
  assumes "deltas_ok r" and "i \<notin> set (indexes r)" and "k \<notin> fst ` set (rm_peers r)"
    and "ag_roster_revision g = ag_roster_revision (rm_guard r)"
  shows "deltas_ok (insert_peer k pk i (r\<lparr>rm_guard := g\<rparr>))"
proof -
  have "current_roster r i = None" using assms(2) dom_current_roster [of r] by auto
  then show ?thesis
    unfolding insert_peer_def
    using assms
    by (intro publish_deltas [where v = 0])
      (auto simp: deltas_ok_def apply_delta_def current_roster_def update_fresh fun_eq_iff map_add_def split: option.splits)
qed

lemma drop_deltas:
  assumes "deltas_ok r" and "room_ok r" and "map_of (rm_peers r) k = Some p"
  shows "deltas_ok (drop_peer k p r)"
proof -
  have d: "distinct (map fst (rm_peers r))" "distinct (indexes r)" using assms(2) by (simp_all add: room_ok_def indexes_ok_def)
  let ?r = "r\<lparr>rm_peers := AList.delete k (rm_peers r)\<rparr>"
  have kp: "(k, p) \<in> set (rm_peers r)" using assms(3) by (rule map_of_SomeD)
  have "distinct (indexes ?r)" using remaining_indexes(2) [OF d assms(3)] by simp
  have members: "e \<in> set (AList.delete k (rm_peers r)) \<longleftrightarrow> e \<in> set (rm_peers r) \<and> ap_index (snd e) \<noteq> ap_index p" for e
  proof -
    have "fst e = k \<longleftrightarrow> ap_index (snd e) = ap_index p" if "e \<in> set (rm_peers r)"
      using inj_onD [OF conjunct2 [OF d(2) [unfolded distinct_map]] _ that kp] inj_onD [OF conjunct2 [OF d(1) [unfolded distinct_map]] _ that kp]
      by (cases e) auto
    then show ?thesis by (auto simp: AList.delete_eq)
  qed
  have "current_roster ?r i = (if i = ap_index p then None else current_roster r i)" for i
  proof -
    have "current_roster ?r i = Some pk \<longleftrightarrow> i \<noteq> ap_index p \<and> current_roster r i = Some pk" for pk
      unfolding current_roster_iff [OF \<open>distinct (indexes ?r)\<close>] current_roster_iff [OF d(2)] by (fastforce simp: members case_prod_beta)
    then show ?thesis by (metis not_None_eq)
  qed
  then have "current_roster ?r = (current_roster r)(ap_index p := None)" by auto
  then show ?thesis
    using assms(1) unfolding drop_peer_def
    by (intro publish_deltas [where v = 0]) (auto simp: deltas_ok_def apply_delta_def current_roster_def release_index_def)
qed

lemma exec_deltas:
  assumes "deltas_ok r" and "room_ok r" and "op_fresh op r" and "room_exec op r = (reply, r')"
  shows "deltas_ok r'"
  using assms(4,3,2)
proof (cases rule: exec_cases)
  case (admit k pk i g)
  then show ?thesis using insert_deltas [OF assms(1)] by blast
next
  case (leave k p b)
  then show ?thesis using drop_deltas [OF assms(1,2)] by (auto simp: deltas_ok_def current_roster_def)
next
  case (queues f)
  then show ?thesis using assms(1) by (simp add: deltas_ok_def current_roster_def o_def case_prod_beta)
qed (use assms(1) in \<open>simp_all add: deltas_ok_def current_roster_def\<close>)

lemma run_deltas: "room_run r h \<Longrightarrow> deltas_ok r"
proof (induction rule: room_run.induct)
  case (start c ch)
  show ?case by (simp add: deltas_ok_def new_room_def new_guard_def roster_at_def current_roster_def)
next
  case (call r h op reply r')
  then show ?case using exec_deltas run_ok by blast
qed

lemma map_of_mset:
  assumes "mset xs = mset ys" and "distinct (map fst ys)"
  shows "map_of xs = map_of ys"
proof -
  have "mset (map fst xs) = mset (map fst ys)" using assms(1) by simp
  then have "distinct (map fst xs)" using assms(2) mset_eq_imp_distinct_iff by blast
  then show ?thesis using assms mset_eq_setD map_of_inject_set by blast
qed

lemma snapshot_roster:
  assumes "room_ok r"
  shows "map_of (map (\<lambda>p. (rp_index p, rp_pubkey p)) (rs_peers (roster_snapshot_of r))) = current_roster r"
proof -
  have d: "distinct (indexes r)" using assms by (simp add: room_ok_def indexes_ok_def)
  let ?ys = "map (\<lambda>p. (rp_index p, rp_pubkey p)) (rs_peers (roster_snapshot_of r))"
  let ?zs = "map (\<lambda>e. (ap_index (snd e), ap_pubkey (snd e))) (rm_peers r)"
  have "mset ?ys = mset ?zs"
    by (simp add: roster_snapshot_of_def multiset.map_comp o_def case_prod_beta)
  moreover have "distinct (map fst ?zs)" using d by (simp add: o_def)
  ultimately show ?thesis unfolding current_roster_def by (rule map_of_mset)
qed

lemma map_of_map_key: "map_of (map (\<lambda>(k, v). (k, f k v)) xs) k = map_option (f k) (map_of xs k)"
  by (induction xs) auto

text \<open>A frame reaches everyone else in the room, marked with its sender: broadcasting appends the frame
  behind the sender's index to the queue of each other peer that listens and has room for it, and
  changes nothing else; and the roster names the sender, and only the sender, under that index.\<close>

theorem frame_fanout_exact:
  assumes "room_run r h" and "map_of (rm_peers r) k = Some s" and "map_of (rm_peers r) k' = Some p"
  shows "map_of (rm_peers (broadcast_frame k frame r)) k' =
      Some (if k' = k \<or> \<not> ap_listening p \<or> length (ap_audio p) \<ge> 8 then p
            else p\<lparr>ap_audio := ap_audio p @ [ap_index s # frame]\<rparr>)
    \<and> current_roster r (ap_index s) = Some (ap_pubkey s)
    \<and> (ap_index p = ap_index s \<longleftrightarrow> k' = k)"
proof -
  have d: "distinct (indexes r)" "distinct (map fst (rm_peers r))" using run_ok [OF assms(1)] by (simp_all add: room_ok_def indexes_ok_def)
  note mem = map_of_SomeD [OF assms(2)] map_of_SomeD [OF assms(3)]
  have "map_of (rm_peers (broadcast_frame k frame r)) k' = Some (if k' = k then p else send_audio (ap_index s # frame) p)"
    using assms(2,3) by (simp add: broadcast_frame_def map_of_map_key)
  moreover have "current_roster r (ap_index s) = Some (ap_pubkey s)"
    unfolding current_roster_iff [OF d(1)] using mem(1) by blast
  moreover have "ap_index p = ap_index s \<longleftrightarrow> k' = k"
    using inj_onD [OF conjunct2 [OF d(1) [unfolded distinct_map]] _ mem(2,1)] assms(2,3) by auto
  ultimately show ?thesis by (simp add: send_audio_def try_send_def AUDIO_CHANNEL_CAPACITY_def)
qed

subsection \<open>Witnesses\<close>

lemma run_calls:
  "room_run r h \<Longrightarrow> op_fresh op r \<Longrightarrow> room_run (snd (room_exec op r)) (h @ [(op, fst (room_exec op r))])"
  by (rule room_run.call) (simp_all add: prod_eq_iff)

definition one_peer :: room where
  "one_peer = snd (room_exec (AddPeer 1 ''a'' 2) (new_room 7 9))"

definition two_peers :: room where
  "two_peers = snd (room_exec (AddPeer 2 ''b'' 2) one_peer)"

lemmas room_eval = room_exec.simps add_peer_def alloc_def insert_peer_def publish_def pin_version_def version_check_def new_room_def
  new_guard_def MAX_PEERS_PER_ROOM_def remove_peer_and_check_ended_def drop_peer_def release_index_def

lemma one_peer_eq:
  "one_peer = \<lparr>rm_community_id = 7, rm_channel_id = 9,
     rm_peers = [(1, \<lparr>ap_pubkey = ''a'', ap_audio = [], ap_ctrl = [], ap_listening = True, ap_index = 0\<rparr>)],
     rm_guard = \<lparr>ag_next_fresh = 1, ag_free = [], ag_ended = False, ag_pinned_version = Some 2, ag_roster_revision = 1\<rparr>,
     rm_poisoned = False,
     rm_deltas = [\<lparr>rd_revision = 1, rd_joined = Some \<lparr>rp_pubkey = ''a'', rp_index = 0\<rparr>, rd_left = None\<rparr>]\<rparr>"
  by (simp add: one_peer_def room_eval)

lemma one_peer_run: "room_run one_peer [(AddPeer 1 ''a'' 2, Admitted 0)]"
  using run_calls [OF room_run.start [of 7 9], of "AddPeer 1 ''a'' 2"] by (simp add: one_peer_def room_eval)

lemma two_peers_run: "room_run two_peers [(AddPeer 1 ''a'' 2, Admitted 0), (AddPeer 2 ''b'' 2, Admitted 1)]"
  using run_calls [OF one_peer_run, of "AddPeer 2 ''b'' 2"] by (simp add: two_peers_def one_peer_eq room_eval)

lemma two_peers_peers:
  "rm_peers two_peers = [(1, \<lparr>ap_pubkey = ''a'', ap_audio = [], ap_ctrl = [], ap_listening = True, ap_index = 0\<rparr>),
     (2, \<lparr>ap_pubkey = ''b'', ap_audio = [], ap_ctrl = [], ap_listening = True, ap_index = 1\<rparr>)]"
  by (simp add: two_peers_def one_peer_eq room_eval)

theorem room_indexes_unique_witness: "length (rm_peers two_peers) = 2 \<and> distinct (indexes two_peers)"
  using room_indexes_unique [OF two_peers_run] by (simp add: two_peers_peers)

theorem owner_admission_exact_witness:
  "add_peer 2 ''b'' 1 one_peer = (Inl (VersionMismatch 2 1), one_peer) \<and> (\<exists>i r. add_peer 2 ''b'' 2 one_peer = (Inr i, r))"
proof -
  have "\<forall>(op, _)\<in>set [(AddPeer 1 ''a'' 2, Admitted 0)]. \<not> takes_index op" by simp
  from owner_admission_exact [OF one_peer_run this, of 2 "''b''" 1] owner_admission_exact [OF one_peer_run this, of 2 "''b''" 2]
  show ?thesis by (auto simp: one_peer_eq)
qed

theorem room_ends_once_witness:
  "rm_peers (snd (room_exec (RemoveAndCheck 1) one_peer)) = [] \<and> ag_ended (rm_guard (snd (room_exec (RemoveAndCheck 1) one_peer)))"
proof -
  have "room_run (snd (room_exec (RemoveAndCheck 1) one_peer))
      ([(AddPeer 1 ''a'' 2, Admitted 0)] @ (RemoveAndCheck 1, Removed 0 True) # [])"
    using run_calls [OF one_peer_run, of "RemoveAndCheck 1"] by (simp add: one_peer_eq room_eval)
  then show ?thesis using room_ends_once [of _ "[(AddPeer 1 ''a'' 2, Admitted 0)]" 1 0 "[]"] by simp
qed

theorem frame_fanout_exact_witness:
  "map_option ap_audio (map_of (rm_peers (broadcast_frame 1 [65, 66] two_peers)) 2) = Some [[0, 65, 66]]
   \<and> current_roster two_peers 0 = Some ''a''"
proof -
  have "map_of (rm_peers two_peers) 1 = Some \<lparr>ap_pubkey = ''a'', ap_audio = [], ap_ctrl = [], ap_listening = True, ap_index = 0\<rparr>"
    "map_of (rm_peers two_peers) 2 = Some \<lparr>ap_pubkey = ''b'', ap_audio = [], ap_ctrl = [], ap_listening = True, ap_index = 1\<rparr>"
    by (simp_all add: two_peers_peers)
  from frame_fanout_exact [OF two_peers_run this, of "[65, 66]"] show ?thesis by simp
qed

end
