(* ===== verification/Huddle_Control.thy ===== *)
theory Huddle_Control
  imports Audio_Room Mesh_Wire
begin

section \<open>Huddles across runtimes: registering remote peers and mirroring the roster\<close>

text \<open>
  Models the control stream of \<open>buzz-relay/src/audio/join.rs\<close>: the messages, the owner's side
  (\<open>HuddleControlAcceptor::serve_control_loop\<close> with \<open>register_remote_peer\<close>), and the other side that
  forwards the owner's roster to a client (\<open>read_owner_control\<close>). One call of a definition is one
  turn of a loop; what the fence check answered, the fresh identifier of a peer and the JSON text of
  a note are arguments. The roster channel of a room is its list of published mutations, and a
  receiver is a position in it.
\<close>

subsection \<open>Messages\<close>

datatype fence_rejection = RejStaleGeneration | RejNoActiveLease | RejOwnerMismatch | RejFutureGeneration

datatype register_rejection = RoomFull | RoomEnded | RejVersionMismatch "8 word" "8 word" | Fenced fence_rejection

datatype huddle_control_msg =
    RegisterPeer uuid string "8 word"
  | PeerRegistered string "8 word" roster_snapshot
  | RosterSnapshotMsg "64 word" "roster_peer list"
  | RosterDeltaMsg "64 word" "roster_peer option" "roster_peer option"
  | RosterResync
  | RegisterRejected string register_rejection
  | UnregisterPeer string

fun from_mesh_error :: "mesh_error \<Rightarrow> fence_rejection option" where
  "from_mesh_error (StaleGeneration _ _ _) = Some RejStaleGeneration"
| "from_mesh_error (NoActiveLease _ _ _ _) = Some RejNoActiveLease"
| "from_mesh_error (OwnerMismatch _ _ _ _) = Some RejOwnerMismatch"
| "from_mesh_error (FutureGeneration _ _ _) = Some RejFutureGeneration"
| "from_mesh_error _ = None"

fun rejection_code :: "fence_rejection \<Rightarrow> string" where
  "rejection_code RejStaleGeneration = ''stale_generation''"
| "rejection_code RejNoActiveLease = ''no_active_lease''"
| "rejection_code RejOwnerMismatch = ''owner_mismatch''"
| "rejection_code RejFutureGeneration = ''future_generation''"

fun admission_to_rejection :: "admission_error \<Rightarrow> register_rejection" where
  "admission_to_rejection Full = RoomFull"
| "admission_to_rejection Ended = RoomEnded"
| "admission_to_rejection (VersionMismatch pinned requested) = RejVersionMismatch pinned requested"

definition roster_snapshot_msg :: "room \<Rightarrow> huddle_control_msg" where
  "roster_snapshot_msg r = (let s = roster_snapshot_of r in RosterSnapshotMsg (rs_revision s) (rs_peers s))"

definition roster_delta_msg :: "roster_delta \<Rightarrow> huddle_control_msg" where
  "roster_delta_msg d = RosterDeltaMsg (rd_revision d) (rd_joined d) (rd_left d)"

subsection \<open>The owner's side of a stream\<close>

datatype room_note = JoinedNote string "8 word" | LeftNote string "8 word"

record control_stream =
  cs_registered :: "(string \<times> uuid) list"
  cs_community :: "uuid option"
  cs_roster_rx :: "nat option"

definition new_control_stream :: control_stream where
  "new_control_stream = \<lparr>cs_registered = [], cs_community = None, cs_roster_rx = None\<rparr>"

text \<open>Why the loop ends: quietly, with an error, or with a goodbye of the owner.\<close>

datatype loop_end = StreamDone | StreamFailed mesh_error | TornDown goodbye_reason

definition register_remote_peer ::
    "(room_note \<Rightarrow> string) \<Rightarrow> uuid \<Rightarrow> string \<Rightarrow> 8 word \<Rightarrow> room \<Rightarrow> (string \<times> uuid) list \<Rightarrow> huddle_control_msg \<times> room \<times> (string \<times> uuid) list" where
  "register_remote_peer json peer_id pubkey version r registered = (case add_peer peer_id pubkey version r of
     (Inl e, r') \<Rightarrow> (RegisterRejected pubkey (admission_to_rejection e), r', registered)
   | (Inr i, r') \<Rightarrow>
       (let r'' = broadcast_control (json (JoinedNote pubkey i)) r'
        in (PeerRegistered pubkey i (roster_snapshot_of r''), r'', AList.update pubkey peer_id registered)))"

text \<open>Dropping one remote peer and telling the others, on request and at the end of the stream.\<close>

definition unregister_peer :: "(room_note \<Rightarrow> string) \<Rightarrow> string \<Rightarrow> uuid \<Rightarrow> room \<Rightarrow> room" where
  "unregister_peer json pubkey peer_id r = (case map_of (rm_peers r) peer_id of
     None \<Rightarrow> remove_audio_peer peer_id r
   | Some p \<Rightarrow> broadcast_control (json (LeftNote pubkey (ap_index p))) (remove_audio_peer peer_id r))"

definition with_room :: "uuid option \<Rightarrow> uuid \<Rightarrow> (room \<Rightarrow> room) \<Rightarrow> room_manager \<Rightarrow> room_manager" where
  "with_room community session_id f rooms = (case community of
     None \<Rightarrow> rooms
   | Some c \<Rightarrow> (case get_room c session_id rooms of None \<Rightarrow> rooms | Some r \<Rightarrow> AList.update (c, session_id) (f r) rooms))"

text \<open>One control message: the replies, the rooms and the stream afterwards, and whether the loop ends.\<close>

definition serve_control_msg ::
    "(room_note \<Rightarrow> string) \<Rightarrow> bool \<Rightarrow> (uuid \<Rightarrow> (unit, mesh_error) result) \<Rightarrow> uuid \<Rightarrow> uuid \<Rightarrow> huddle_control_msg \<Rightarrow>
      room_manager \<times> control_stream \<Rightarrow> huddle_control_msg list \<times> (room_manager \<times> control_stream) \<times> loop_end option" where
  "serve_control_msg json draining validate peer_id session_id msg st = (case st of (rooms, cs) \<Rightarrow>
     (case msg of
        RegisterPeer community_id pubkey version \<Rightarrow>
          if \<exists>latched. cs_community cs = Some latched \<and> latched \<noteq> community_id then ([], st, Some (StreamFailed Transport))
          else let cs = cs\<lparr>cs_community := Some community_id\<rparr> in
            if draining then ([], (rooms, cs), Some (TornDown Draining))
            else let (r, rooms) = get_or_create community_id session_id rooms in
              (case validate community_id of
                 Inr _ \<Rightarrow>
                   (let (reply, r', registered) = register_remote_peer json peer_id pubkey version r (cs_registered cs);
                        cs = cs\<lparr>cs_registered := registered\<rparr>;
                        cs = (case reply of PeerRegistered _ _ _ \<Rightarrow> cs\<lparr>cs_roster_rx := Some (length (rm_deltas r))\<rparr> | _ \<Rightarrow> cs)
                    in ([reply], (AList.update (community_id, session_id) r' rooms, cs), None))
               | Inl e \<Rightarrow> (case from_mesh_error e of
                   Some reason \<Rightarrow> ([RegisterRejected pubkey (Fenced reason)], (rooms, cs), None)
                 | None \<Rightarrow> ([], (rooms, cs), Some (StreamFailed e))))
      | UnregisterPeer pubkey \<Rightarrow> (case map_of (cs_registered cs) pubkey of
            None \<Rightarrow> ([], st, None)
          | Some peer_id \<Rightarrow>
              ([], (with_room (cs_community cs) session_id (unregister_peer json pubkey peer_id) rooms,
                    cs\<lparr>cs_registered := AList.delete pubkey (cs_registered cs)\<rparr>), None))
      | RosterResync \<Rightarrow> (case cs_community cs of
            None \<Rightarrow> ([], st, Some StreamDone)
          | Some c \<Rightarrow> (case get_room c session_id rooms of
              None \<Rightarrow> ([], st, Some StreamDone)
            | Some r \<Rightarrow> ([roster_snapshot_msg r], st, None)))
      | _ \<Rightarrow> ([], st, Some (StreamFailed Transport))))"

text \<open>One event of the roster channel: a mutation, a lag, or its end.\<close>

datatype roster_event = RosterRecv | RosterLagged nat | RosterClosed

definition serve_roster_event ::
    "uuid \<Rightarrow> roster_event \<Rightarrow> room_manager \<times> control_stream \<Rightarrow> huddle_control_msg list \<times> (room_manager \<times> control_stream) \<times> loop_end option" where
  "serve_roster_event session_id ev st = (case st of (rooms, cs) \<Rightarrow>
     (case Option.bind (cs_community cs) (\<lambda>c. get_room c session_id rooms) of
        None \<Rightarrow> ([], st, Some StreamDone)
      | Some r \<Rightarrow> (case (cs_roster_rx cs, ev) of
          (Some pos, RosterRecv) \<Rightarrow>
            if pos < length (rm_deltas r)
            then ([roster_delta_msg (rm_deltas r ! pos)], (rooms, cs\<lparr>cs_roster_rx := Some (Suc pos)\<rparr>), None)
            else ([], st, None)
        | (Some pos, RosterLagged pos') \<Rightarrow> ([roster_snapshot_msg r], (rooms, cs\<lparr>cs_roster_rx := Some pos'\<rparr>), None)
        | (Some pos, RosterClosed) \<Rightarrow> ([], st, Some StreamDone)
        | (None, _) \<Rightarrow> ([], st, None))))"

text \<open>After the loop: every peer the stream registered is dropped.\<close>

definition control_teardown :: "(room_note \<Rightarrow> string) \<Rightarrow> uuid \<Rightarrow> control_stream \<Rightarrow> room_manager \<Rightarrow> room_manager" where
  "control_teardown json session_id cs rooms =
     with_room (cs_community cs) session_id
       (\<lambda>r. fold (\<lambda>(pubkey, peer_id). unregister_peer json pubkey peer_id) (cs_registered cs) r) rooms"

subsection \<open>The client's side\<close>

datatype huddle_teardown_cause = OwnerLost | OwnerDraining | HuddleSessionEnded | StreamClosed

fun from_goodbye :: "goodbye_reason \<Rightarrow> huddle_teardown_cause" where
  "from_goodbye StaleGenerationReason = OwnerLost"
| "from_goodbye Draining = OwnerDraining"
| "from_goodbye SessionEnded = HuddleSessionEnded"

text \<open>What the client is told, as JSON.\<close>

datatype client_note =
    RosterNote "64 word" "roster_peer list"
  | ClientJoined "64 word" roster_peer
  | ClientLeft "64 word" roster_peer

text \<open>One frame of the owner: the revision afterwards, notes to the client, and a request to the owner.\<close>

definition read_owner_msg :: "huddle_control_msg \<Rightarrow> 64 word \<Rightarrow> 64 word \<times> client_note list \<times> huddle_control_msg list" where
  "read_owner_msg msg revision = (case msg of
     RosterSnapshotMsg next peers \<Rightarrow> (next, [RosterNote next peers], [])
   | RosterDeltaMsg next joined left \<Rightarrow>
       if next = revision + 1 then
         (next, (case joined of
             Some p \<Rightarrow> [ClientJoined next p]
           | None \<Rightarrow> (case left of Some p \<Rightarrow> [ClientLeft next p] | None \<Rightarrow> [])), [])
       else if next \<le> revision then (revision, [], [])
       else (revision, [], [RosterResync])
   | _ \<Rightarrow> (revision, [], []))"

text \<open>What a client makes of a note: the participants by index.\<close>

fun client_view :: "client_note \<Rightarrow> (8 word \<rightharpoonup> string) \<Rightarrow> (8 word \<rightharpoonup> string)" where
  "client_view (RosterNote _ peers) m = map_of (map (\<lambda>p. (rp_index p, rp_pubkey p)) peers)"
| "client_view (ClientJoined _ p) m = m(rp_index p \<mapsto> rp_pubkey p)"
| "client_view (ClientLeft _ p) m = m(rp_index p := None)"

subsection \<open>The mirror of a roster, abstractly\<close>

text \<open>
  What the protocol promises: an owner's room, the messages under way to one client, the owner's position
  in the roster channel, and what the client holds. The owner may forward the next mutation, pass over some
  of them with the whole roster, tell the whole roster at any other time, or answer something that is
  not about the roster; a receiver that is replaced may pass over mutations (\<open>mi_skipped\<close>).
\<close>

record mirror =
  mi_room :: room
  mi_pos :: nat
  mi_sent :: "huddle_control_msg list"
  mi_skipped :: bool
  mi_revision :: "64 word"
  mi_view :: "8 word \<rightharpoonup> string"

fun about_roster :: "huddle_control_msg \<Rightarrow> bool" where
  "about_roster (RosterSnapshotMsg _ _) = True"
| "about_roster (RosterDeltaMsg _ _ _) = True"
| "about_roster _ = False"

inductive mirror_step :: "mirror \<Rightarrow> mirror \<Rightarrow> bool" where
  room: "op_fresh op (mi_room m) \<Longrightarrow> room_exec op (mi_room m) = (reply, r') \<Longrightarrow> mirror_step m (m\<lparr>mi_room := r'\<rparr>)"
| forward: "mi_pos m < length (rm_deltas (mi_room m)) \<Longrightarrow>
    mirror_step m (m\<lparr>mi_sent := mi_sent m @ [roster_delta_msg (rm_deltas (mi_room m) ! mi_pos m)], mi_pos := Suc (mi_pos m)\<rparr>)"
| lag: "pos \<le> length (rm_deltas (mi_room m)) \<Longrightarrow>
    mirror_step m (m\<lparr>mi_sent := mi_sent m @ [roster_snapshot_msg (mi_room m)], mi_pos := pos\<rparr>)"
| reply: "\<not> about_roster msg \<Longrightarrow> mirror_step m (m\<lparr>mi_sent := mi_sent m @ [msg]\<rparr>)"
| skip: "pos \<le> length (rm_deltas (mi_room m)) \<Longrightarrow> mirror_step m (m\<lparr>mi_pos := pos, mi_skipped := True\<rparr>)"
| read: "mi_sent m = msg # rest \<Longrightarrow> read_owner_msg msg (mi_revision m) = (revision', told, requests) \<Longrightarrow>
    mirror_step m (m\<lparr>mi_sent := rest, mi_revision := revision', mi_view := fold client_view told (mi_view m)\<rparr>)"

text \<open>The start: the reply to the registration carries the roster; the receiver is at most as far.\<close>

definition roster_map :: "roster_peer list \<Rightarrow> (8 word \<rightharpoonup> string)" where
  "roster_map peers = map_of (map (\<lambda>p. (rp_index p, rp_pubkey p)) peers)"

definition mirror_start :: "room \<Rightarrow> nat \<Rightarrow> mirror" where
  "mirror_start r pos = \<lparr>mi_room = r, mi_pos = pos, mi_sent = [], mi_skipped = False,
     mi_revision = rs_revision (roster_snapshot_of r), mi_view = roster_map (rs_peers (roster_snapshot_of r))\<rparr>"

inductive mirror_run :: "mirror \<Rightarrow> bool" where
  start: "room_run r h \<Longrightarrow> pos \<le> length (rm_deltas r) \<Longrightarrow> mirror_run (mirror_start r pos)"
| step: "mirror_run m \<Longrightarrow> mirror_step m m' \<Longrightarrow> mirror_run m'"

text \<open>A message is truthful unless it tells a mutation, or a roster, that is not of the list of mutations.\<close>

fun truthful :: "roster_delta list \<Rightarrow> huddle_control_msg \<Rightarrow> bool" where
  "truthful ds (RosterDeltaMsg v j l) \<longleftrightarrow> (\<exists>n<length ds. v = of_nat (Suc n) \<and> ds ! n = \<lparr>rd_revision = v, rd_joined = j, rd_left = l\<rparr>)"
| "truthful ds (RosterSnapshotMsg v peers) \<longleftrightarrow>
     (\<exists>n\<le>length ds. v = of_nat n \<and> map_of (map (\<lambda>p. (rp_index p, rp_pubkey p)) peers) = roster_at (take n ds))"
| "truthful ds _ \<longleftrightarrow> True"

text \<open>A mutation is a join or a leave, not both.\<close>

definition single_change :: "roster_delta \<Rightarrow> bool" where
  "single_change d \<longleftrightarrow> rd_joined d = None \<or> rd_left d = None"

definition view_exact :: "mirror \<Rightarrow> bool" where
  "view_exact m \<longleftrightarrow> room_ok (mi_room m) \<and> deltas_ok (mi_room m) \<and> list_all single_change (rm_deltas (mi_room m))
     \<and> list_all (truthful (rm_deltas (mi_room m))) (mi_sent m)
     \<and> mi_pos m \<le> length (rm_deltas (mi_room m))
     \<and> (\<exists>n\<le>length (rm_deltas (mi_room m)). mi_revision m = of_nat n \<and> mi_view m = roster_at (take n (rm_deltas (mi_room m))))"

lemma exec_deltas_grow:
  assumes "room_ok r" and "op_fresh op r" and "room_exec op r = (reply, r')"
  shows "\<exists>ds. rm_deltas r' = rm_deltas r @ ds \<and> list_all single_change ds"
  using assms(3,2,1)
  by (cases rule: exec_cases) (auto simp: insert_peer_def drop_peer_def publish_def Let_def single_change_def)

lemma truthful_grow: "truthful ds msg \<Longrightarrow> truthful (ds @ ds') msg"
proof (cases "(ds, msg)" rule: truthful.cases)
  case (2 ds'' v peers)
  assume "truthful ds msg"
  then obtain n where n: "n \<le> length ds" "v = of_nat n" "map_of (map (\<lambda>p. (rp_index p, rp_pubkey p)) peers) = roster_at (take n ds)"
    using 2 by auto
  then have "take n (ds @ ds') = take n ds" by simp
  then show ?thesis using 2 n by (auto intro!: exI [of _ n])
qed (auto simp: nth_append)

lemma truthful_delta:
  assumes "deltas_ok r" and "n < length (rm_deltas r)"
  shows "truthful (rm_deltas r) (roster_delta_msg (rm_deltas r ! n))"
  using assms by (auto simp: deltas_ok_def roster_delta_msg_def intro!: exI [of _ n])

lemma truthful_snapshot:
  assumes "deltas_ok r" and "room_ok r"
  shows "truthful (rm_deltas r) (roster_snapshot_msg r)"
  using assms snapshot_roster [OF assms(2)]
  by (auto simp: deltas_ok_def roster_snapshot_msg_def Let_def roster_snapshot_of_def intro!: exI [of _ "length (rm_deltas r)"])

lemma run_single_changes: "room_run r h \<Longrightarrow> list_all single_change (rm_deltas r)"
proof (induction rule: room_run.induct)
  case (start c ch)
  show ?case by (simp add: new_room_def)
next
  case (call r h op reply r')
  then show ?case using exec_deltas_grow [OF run_ok [OF call(1)] call(2,3)] by auto
qed

lemma of_nat_inject64: "a < 2 ^ 64 \<Longrightarrow> b < 2 ^ 64 \<Longrightarrow> (of_nat a :: 64 word) = of_nat b \<longleftrightarrow> a = b"
  by (simp add: word_of_nat_eq_iff take_bit_nat_eq_self)

lemma of_nat_le64: "a < 2 ^ 64 \<Longrightarrow> b < 2 ^ 64 \<Longrightarrow> (of_nat a :: 64 word) \<le> of_nat b \<longleftrightarrow> a \<le> b"
  by (simp add: word_le_nat_alt unat_of_nat take_bit_nat_eq_self flip: take_bit_eq_mod)

text \<open>Reading a truthful message keeps the view exact, at the same, the next or the told revision.\<close>

lemma read_exact:
  assumes "truthful ds msg" and "n \<le> length ds" and "length ds < 2 ^ 64" and "list_all single_change ds"
    and "read_owner_msg msg (of_nat n) = (v, notes, requests)"
  obtains n' where "n' \<le> length ds" "v = of_nat n'" "fold client_view notes (roster_at (take n ds)) = roster_at (take n' ds)"
    "case msg of RosterDeltaMsg w _ _ \<Rightarrow> (if w = of_nat (Suc n) then n' = Suc n else n' = n) | RosterSnapshotMsg w _ \<Rightarrow> w = of_nat n' | _ \<Rightarrow> n' = n"
proof (cases "(ds, msg)" rule: truthful.cases)
  case (1 ds' w j l)
  then obtain k where k: "k < length ds" "w = of_nat (Suc k)" "ds ! k = \<lparr>rd_revision = w, rd_joined = j, rd_left = l\<rparr>"
    using assms(1) by auto
  show thesis
  proof (cases "k = n")
    case True
    have "single_change (ds ! n)" using assms(4) k(1) True by (simp add: list_all_length)
    then have "fold client_view notes (roster_at (take n ds)) = roster_at (take (Suc n) ds)"
      using assms(5) k True 1
      by (auto simp: read_owner_msg_def take_Suc_conv_app_nth roster_at_def apply_delta_def single_change_def split: option.splits)
    moreover have "v = of_nat (Suc n)" using assms(5) k True 1 by (auto simp: read_owner_msg_def)
    ultimately show thesis using that [of "Suc n"] k True 1 by auto
  next
    case False
    then have "w \<noteq> of_nat (Suc n)"
      using k(1,2) assms(2,3) of_nat_inject64 [of k n] by (auto simp: add_left_cancel)
    then show thesis using that [of n] assms(2,5) 1 by (auto simp: read_owner_msg_def add.commute split: if_splits)
  qed
next
  case (2 ds' w peers)
  then obtain k where "k \<le> length ds" "w = of_nat k" "map_of (map (\<lambda>p. (rp_index p, rp_pubkey p)) peers) = roster_at (take k ds)"
    using assms(1) by auto
  then show thesis using that [of k] assms(5) 2 by (auto simp: read_owner_msg_def)
qed (use that [of n] assms(2,5) in \<open>auto simp: read_owner_msg_def\<close>)

lemma step_grows:
  assumes "mirror_step m m'" and "room_ok (mi_room m)"
  shows "length (rm_deltas (mi_room m)) \<le> length (rm_deltas (mi_room m'))"
  using assms by cases (auto dest: exec_deltas_grow)

lemma step_view_exact:
  assumes "mirror_step m m'" and "view_exact m" and "length (rm_deltas (mi_room m)) < 2 ^ 64"
  shows "view_exact m'"
  using assms(1)
proof cases
  case (room op reply r')
  have ok: "room_ok (mi_room m)" "deltas_ok (mi_room m)" using assms(2) by (simp_all add: view_exact_def)
  then obtain ds where ds: "rm_deltas r' = rm_deltas (mi_room m) @ ds" "list_all single_change ds"
    using exec_deltas_grow room by blast
  obtain n where "n \<le> length (rm_deltas (mi_room m))" "mi_revision m = of_nat n" "mi_view m = roster_at (take n (rm_deltas (mi_room m)))"
    using assms(2) by (auto simp: view_exact_def)
  moreover have "room_ok r'" "deltas_ok r'" using exec_ok exec_deltas ok room by blast+
  ultimately show ?thesis
    using assms(2) ds room by (auto simp: view_exact_def list_all_iff truthful_grow intro!: exI [of _ n])
next
  case (read msg rest v told requests)
  obtain n where n: "n \<le> length (rm_deltas (mi_room m))" "mi_revision m = of_nat n" "mi_view m = roster_at (take n (rm_deltas (mi_room m)))"
    using assms(2) by (auto simp: view_exact_def)
  have "truthful (rm_deltas (mi_room m)) msg" "list_all single_change (rm_deltas (mi_room m))"
    using assms(2) read by (simp_all add: view_exact_def)
  from read_exact [OF this(1) n(1) assms(3) this(2)] read n
  obtain n' where "n' \<le> length (rm_deltas (mi_room m))" "v = of_nat n'"
      "fold client_view told (mi_view m) = roster_at (take n' (rm_deltas (mi_room m)))"
    by metis
  then show ?thesis using assms(2) read by (auto simp: view_exact_def)
next
  case (reply msg)
  then show ?thesis using assms(2) by (cases msg) (simp_all add: view_exact_def)
qed (use assms(2) truthful_delta truthful_snapshot in \<open>auto simp: view_exact_def\<close>)

lemma start_view_exact:
  assumes "room_run r h" and "pos \<le> length (rm_deltas r)"
  shows "view_exact (mirror_start r pos)"
proof -
  note ok = run_ok [OF assms(1)] run_deltas [OF assms(1)]
  show ?thesis
    using assms(2) ok run_single_changes [OF assms(1)] snapshot_roster [OF ok(1)]
    by (auto simp: view_exact_def mirror_start_def deltas_ok_def roster_snapshot_of_def roster_map_def intro!: exI [of _ "length (rm_deltas r)"])
qed

lemma run_room_ok: "mirror_run m \<Longrightarrow> room_ok (mi_room m)"
proof (induction rule: mirror_run.induct)
  case (start r h pos)
  then show ?case using run_ok by (simp add: mirror_start_def)
next
  case (step m m')
  from step.hyps(2) show ?case by cases (use step.IH exec_ok in auto)
qed

lemma mirror_view_exact: "mirror_run m \<Longrightarrow> length (rm_deltas (mi_room m)) < 2 ^ 64 \<Longrightarrow> view_exact m"
proof (induction rule: mirror_run.induct)
  case (start r h pos)
  then show ?case by (intro start_view_exact)
next
  case (step m m')
  then have "length (rm_deltas (mi_room m)) < 2 ^ 64"
    using step_grows [OF step.hyps(2) run_room_ok [OF step.hyps(1)]] by simp
  then show ?case using step step_view_exact by blast
qed

text \<open>The revision the client will hold when it has read what is under way.\<close>

fun settle :: "nat \<Rightarrow> huddle_control_msg list \<Rightarrow> nat" where
  "settle n [] = n"
| "settle n (RosterDeltaMsg w j l # ms) = settle (if w = of_nat (Suc n) then Suc n else n) ms"
| "settle n (RosterSnapshotMsg w peers # ms) = settle (unat w) ms"
| "settle n (_ # ms) = settle n ms"

lemma settle_append: "settle n (ms @ [msg]) = settle (settle n ms) [msg]"
  by (induction n ms rule: settle.induct) simp_all

lemma unat_of_nat64: "n < 2 ^ 64 \<Longrightarrow> unat (of_nat n :: 64 word) = n"
  by (simp add: unat_of_nat)

lemma settle_bound:
  assumes "list_all (truthful ds) ms" and "length ds < 2 ^ 64" and "n \<le> length ds"
  shows "settle n ms \<le> length ds"
  using assms
proof (induction n ms rule: settle.induct)
  case (2 n w j l ms)
  have "Suc n \<le> length ds" if "w = of_nat (Suc n)"
  proof -
    obtain k where "k < length ds" "w = of_nat (Suc k)" using "2.prems"(1) by auto
    then have "k = n" using that of_nat_inject64 [of k n] "2.prems"(2,3) by (auto simp: add_left_cancel)
    then show ?thesis using \<open>k < length ds\<close> by simp
  qed
  then show ?case using 2 by auto
next
  case (3 n w peers ms)
  then show ?case by (auto simp: unat_of_nat64)
qed simp_all

definition catches_up :: "mirror \<Rightarrow> bool" where
  "catches_up m \<longleftrightarrow> mi_skipped m \<or> mi_pos m \<le> settle (unat (mi_revision m)) (mi_sent m)"

lemma settle_snapshot:
  "deltas_ok r \<Longrightarrow> length (rm_deltas r) < 2 ^ 64 \<Longrightarrow> settle n [roster_snapshot_msg r] = length (rm_deltas r)"
  by (simp add: roster_snapshot_msg_def Let_def roster_snapshot_of_def deltas_ok_def unat_of_nat64)

lemma settle_delta:
  assumes "deltas_ok r" and "pos < length (rm_deltas r)" and "length (rm_deltas r) < 2 ^ 64" and "pos \<le> n" and "n \<le> length (rm_deltas r)"
  shows "Suc pos \<le> settle n [roster_delta_msg (rm_deltas r ! pos)]"
proof -
  have "rd_revision (rm_deltas r ! pos) = of_nat (Suc pos)" using assms(1,2) by (simp add: deltas_ok_def)
  then show ?thesis using assms(4) by (cases "pos = n") (auto simp: roster_delta_msg_def)
qed

lemma step_catches_up:
  assumes "mirror_step m m'" and "view_exact m" and "catches_up m" and b: "length (rm_deltas (mi_room m)) < 2 ^ 64"
  shows "catches_up m'"
  using assms(1)
proof cases
  case forward
  let ?n = "settle (unat (mi_revision m)) (mi_sent m)"
  have "?n \<le> length (rm_deltas (mi_room m))"
    using assms(2) b by (intro settle_bound) (auto simp: view_exact_def unat_of_nat64)
  then show ?thesis
    using forward assms(2,3) settle_delta [OF _ _ b, of "mi_pos m" ?n] by (auto simp: catches_up_def view_exact_def settle_append)
next
  case (lag pos)
  then show ?thesis using assms(2) settle_snapshot b by (auto simp: catches_up_def view_exact_def settle_append)
next
  case (reply msg)
  then show ?thesis using assms(3) by (cases msg) (simp_all add: catches_up_def settle_append)
next
  case (read msg rest v told requests)
  obtain n where n: "n \<le> length (rm_deltas (mi_room m))" "mi_revision m = of_nat n" using assms(2) by (auto simp: view_exact_def)
  have t: "truthful (rm_deltas (mi_room m)) msg" "list_all single_change (rm_deltas (mi_room m))"
    using assms(2) read by (simp_all add: view_exact_def)
  obtain n' where n': "n' \<le> length (rm_deltas (mi_room m))" "v = of_nat n'"
      "case msg of RosterDeltaMsg w _ _ \<Rightarrow> (if w = of_nat (Suc n) then n' = Suc n else n' = n) | RosterSnapshotMsg w _ \<Rightarrow> w = of_nat n' | _ \<Rightarrow> n' = n"
    by (rule read_exact [OF t(1) n(1) b t(2) read(3) [unfolded n(2)]])
  have u: "unat (mi_revision m) = n" "unat v = n'" using n n' b by (simp_all add: unat_of_nat64)
  have "settle n (msg # rest) = settle n' rest" using n' u by (cases msg) (auto split: if_splits)
  then show ?thesis using assms(3) read u by (auto simp: catches_up_def)
qed (use assms(3) in \<open>auto simp: catches_up_def\<close>)

lemma run_catches_up: "mirror_run m \<Longrightarrow> length (rm_deltas (mi_room m)) < 2 ^ 64 \<Longrightarrow> catches_up m"
proof (induction rule: mirror_run.induct)
  case (start r h pos)
  then show ?case
    using run_deltas [OF start(1)] by (simp add: catches_up_def mirror_start_def roster_snapshot_of_def deltas_ok_def unat_of_nat64)
next
  case (step m m')
  then have "length (rm_deltas (mi_room m)) < 2 ^ 64"
    using step_grows [OF step.hyps(2) run_room_ok [OF step.hyps(1)]] by simp
  then show ?case using step step_catches_up mirror_view_exact by blast
qed

lemma mirror_exact:
  assumes "mirror_run m" and "length (rm_deltas (mi_room m)) < 2 ^ 64"
  shows "unat (mi_revision m) \<le> length (rm_deltas (mi_room m))"
    and "mi_view m = roster_at (take (unat (mi_revision m)) (rm_deltas (mi_room m)))"
    and "\<not> mi_skipped m \<Longrightarrow> mi_sent m = [] \<Longrightarrow> mi_pos m = length (rm_deltas (mi_room m)) \<Longrightarrow>
      mi_view m = current_roster (mi_room m) \<and> mi_revision m = ag_roster_revision (rm_guard (mi_room m))"
proof -
  obtain n where n: "n \<le> length (rm_deltas (mi_room m))" "mi_revision m = of_nat n" "mi_view m = roster_at (take n (rm_deltas (mi_room m)))"
    using mirror_view_exact [OF assms] by (auto simp: view_exact_def)
  have u: "unat (mi_revision m) = n" using n assms(2) by (simp add: unat_of_nat64)
  then show "unat (mi_revision m) \<le> length (rm_deltas (mi_room m))"
      "mi_view m = roster_at (take (unat (mi_revision m)) (rm_deltas (mi_room m)))"
    using n by simp_all
  assume "\<not> mi_skipped m" "mi_sent m = []" "mi_pos m = length (rm_deltas (mi_room m))"
  then have "n = length (rm_deltas (mi_room m))"
    using run_catches_up [OF assms] n(1) u by (simp add: catches_up_def)
  then show "mi_view m = current_roster (mi_room m) \<and> mi_revision m = ag_roster_revision (rm_guard (mi_room m))"
    using n mirror_view_exact [OF assms] by (auto simp: view_exact_def deltas_ok_def)
qed

subsection \<open>The mirror as the handlers run it\<close>

text \<open>
  One control stream of the session \<open>sid\<close> with both its ends: the owner's rooms and loop state, the messages
  under way in either direction, and what the client holds. The room of the community that the stream speaks
  for changes by any call of its tasks and stays in the manager; the other rooms change in any way. The
  owner's loop takes a roster event or the next request and runs its handler as long as the loop goes on; the
  other runtime may ask for anything at any time and reads what it is sent with \<open>read_owner_msg\<close>.
\<close>

record stream_state =
  ss_rooms :: room_manager
  ss_owner :: control_stream
  ss_sent :: "huddle_control_msg list"
  ss_requests :: "huddle_control_msg list"
  ss_again :: bool
  ss_revision :: "64 word"
  ss_view :: "8 word \<rightharpoonup> string"

text \<open>A receiver that lags is moved forward to a mutation that was published.\<close>

definition lag_possible :: "uuid \<Rightarrow> uuid \<Rightarrow> roster_event \<Rightarrow> stream_state \<Rightarrow> bool" where
  "lag_possible c sid ev s \<longleftrightarrow> (case (ev, cs_roster_rx (ss_owner s), get_room c sid (ss_rooms s)) of
     (RosterLagged pos', Some pos, Some r) \<Rightarrow> pos < pos' \<and> pos' \<le> length (rm_deltas r) | _ \<Rightarrow> True)"

fun is_register :: "huddle_control_msg \<Rightarrow> bool" where
  "is_register (RegisterPeer _ _ _) = True"
| "is_register _ = False"

definition peer_unused :: "uuid \<Rightarrow> uuid \<Rightarrow> uuid \<Rightarrow> room_manager \<Rightarrow> bool" where
  "peer_unused k c sid rooms \<longleftrightarrow> (case get_room c sid rooms of None \<Rightarrow> True | Some r \<Rightarrow> k \<notin> fst ` set (rm_peers r))"

inductive stream_step :: "(room_note \<Rightarrow> string) \<Rightarrow> uuid \<Rightarrow> uuid \<Rightarrow> stream_state \<Rightarrow> stream_state \<Rightarrow> bool" for json c sid where
  room: "get_room c sid (ss_rooms s) = Some r \<Longrightarrow> op_fresh op r \<Longrightarrow> room_exec op r = (reply, r') \<Longrightarrow>
    stream_step json c sid s (s\<lparr>ss_rooms := AList.update (c, sid) r' (ss_rooms s)\<rparr>)"
| others: "get_room c sid rooms' = get_room c sid (ss_rooms s) \<Longrightarrow> stream_step json c sid s (s\<lparr>ss_rooms := rooms'\<rparr>)"
| roster: "serve_roster_event sid ev (ss_rooms s, ss_owner s) = (msgs, (rooms', cs'), None) \<Longrightarrow> lag_possible c sid ev s \<Longrightarrow>
    stream_step json c sid s (s\<lparr>ss_rooms := rooms', ss_owner := cs', ss_sent := ss_sent s @ msgs\<rparr>)"
| control: "ss_requests s = msg # rest \<Longrightarrow> peer_unused k c sid (ss_rooms s) \<Longrightarrow>
    serve_control_msg json draining validate k sid msg (ss_rooms s, ss_owner s) = (replies, (rooms', cs'), None) \<Longrightarrow>
    stream_step json c sid s (s\<lparr>ss_rooms := rooms', ss_owner := cs', ss_sent := ss_sent s @ replies, ss_requests := rest,
      ss_again := ss_again s \<or> is_register msg\<rparr>)"
| request: "stream_step json c sid s (s\<lparr>ss_requests := ss_requests s @ [msg]\<rparr>)"
| read: "ss_sent s = msg # rest \<Longrightarrow> read_owner_msg msg (ss_revision s) = (revision', told, requests) \<Longrightarrow>
    stream_step json c sid s (s\<lparr>ss_sent := rest, ss_revision := revision', ss_view := fold client_view told (ss_view s),
      ss_requests := ss_requests s @ requests\<rparr>)"

text \<open>The start: the first registration, and the client takes the roster of the reply.\<close>

inductive stream_run :: "(room_note \<Rightarrow> string) \<Rightarrow> uuid \<Rightarrow> uuid \<Rightarrow> stream_state \<Rightarrow> bool" for json c sid where
  start: "room_run (fst (get_or_create c sid rooms)) h \<Longrightarrow> peer_unused k c sid rooms \<Longrightarrow>
    serve_control_msg json draining validate k sid (RegisterPeer c pk v) (rooms, new_control_stream) =
      ([PeerRegistered pk i roster], (rooms', cs), None) \<Longrightarrow>
    stream_run json c sid \<lparr>ss_rooms = rooms', ss_owner = cs, ss_sent = [], ss_requests = [], ss_again = False,
      ss_revision = rs_revision roster, ss_view = roster_map (rs_peers roster)\<rparr>"
| step: "stream_run json c sid s \<Longrightarrow> stream_step json c sid s s' \<Longrightarrow> stream_run json c sid s'"

text \<open>The abstract mirror of a stream.\<close>

definition mirror_of :: "uuid \<Rightarrow> uuid \<Rightarrow> stream_state \<Rightarrow> mirror" where
  "mirror_of c sid s = \<lparr>mi_room = the (get_room c sid (ss_rooms s)), mi_pos = the (cs_roster_rx (ss_owner s)), mi_sent = ss_sent s,
     mi_skipped = ss_again s, mi_revision = ss_revision s, mi_view = ss_view s\<rparr>"

definition stream_ok :: "uuid \<Rightarrow> uuid \<Rightarrow> stream_state \<Rightarrow> bool" where
  "stream_ok c sid s \<longleftrightarrow> cs_community (ss_owner s) = Some c \<and> (\<exists>r. get_room c sid (ss_rooms s) = Some r) \<and>
     (\<exists>pos. cs_roster_rx (ss_owner s) = Some pos)"

lemma get_room_update [simp]: "get_room c ch (AList.update (c', ch') r rooms) = (if (c, ch) = (c', ch') then Some r else get_room c ch rooms)"
  by (simp add: get_room_def update_conv')

text \<open>A registration, refused or not, as steps of the mirror.\<close>

lemma register_steps:
  assumes "register_remote_peer json k pk v (mi_room m) reg = (reply, r', reg')" and "k \<notin> fst ` set (rm_peers (mi_room m))"
    and "room_ok (mi_room m)"
  shows "\<not> about_roster reply \<and> length (rm_deltas (mi_room m)) \<le> length (rm_deltas r') \<and> mirror_step\<^sup>*\<^sup>* m (m\<lparr>mi_room := r'\<rparr>)"
proof -
  obtain res r1 where a: "add_peer k pk v (mi_room m) = (res, r1)" by (cases "add_peer k pk v (mi_room m)")
  let ?m1 = "m\<lparr>mi_room := r1\<rparr>"
  obtain rep where exec: "room_exec (AddPeer k pk v) (mi_room m) = (rep, r1)" using a by (cases res) auto
  have one: "mirror_step m ?m1" by (rule mirror_step.room [OF _ exec]) (simp add: assms(2))
  have grow: "length (rm_deltas (mi_room m)) \<le> length (rm_deltas r1)"
    using exec_deltas_grow [OF assms(3) _ exec] assms(2) by auto
  show ?thesis
  proof (cases res)
    case (Inl e)
    then show ?thesis using assms(1) a one grow by (auto simp: register_remote_peer_def)
  next
    case (Inr i)
    have two: "mirror_step ?m1 (?m1\<lparr>mi_room := broadcast_control (json (JoinedNote pk i)) r1\<rparr>)"
      by (rule mirror_step.room [of "BroadcastControl (json (JoinedNote pk i))"]) simp_all
    have "r' = broadcast_control (json (JoinedNote pk i)) r1" "\<not> about_roster reply"
      using assms(1) a Inr by (auto simp: register_remote_peer_def Let_def)
    then show ?thesis using one two grow by (auto simp: broadcast_control_def intro: converse_rtranclp_into_rtranclp)
  qed
qed

lemma unregister_steps: "mirror_step\<^sup>*\<^sup>* m (m\<lparr>mi_room := unregister_peer json pk k (mi_room m)\<rparr>)"
proof -
  let ?m1 = "m\<lparr>mi_room := remove_audio_peer k (mi_room m)\<rparr>"
  have one: "mirror_step m ?m1" by (rule mirror_step.room [of "RemovePeer k"]) simp_all
  have two: "mirror_step ?m1 (?m1\<lparr>mi_room := broadcast_control j (mi_room ?m1)\<rparr>)" for j
    by (rule mirror_step.room [of "BroadcastControl j"]) simp_all
  show ?thesis
    using one two by (auto simp: unregister_peer_def intro: converse_rtranclp_into_rtranclp split: option.split)
qed

text \<open>A message that is not about the roster, and a receiver that is replaced.\<close>

lemma reply_and_skip:
  assumes "\<not> about_roster x" and "n \<le> length (rm_deltas r)"
  shows "mirror_step\<^sup>*\<^sup>* (m\<lparr>mi_room := r\<rparr>) (m\<lparr>mi_room := r, mi_sent := mi_sent m @ [x], mi_pos := n, mi_skipped := True\<rparr>)"
  using mirror_step.reply [OF assms(1), of "m\<lparr>mi_room := r\<rparr>"] mirror_step.skip [of n "m\<lparr>mi_room := r, mi_sent := mi_sent m @ [x]\<rparr>"] assms(2)
  by (auto intro: converse_rtranclp_into_rtranclp)

lemma register_simulated:
  assumes "serve_control_msg json draining validate k sid (RegisterPeer c' pk v) (ss_rooms s, ss_owner s) = (replies, (rooms', cs'), None)"
    and "stream_ok c sid s" and "peer_unused k c sid (ss_rooms s)" and "room_ok (mi_room (mirror_of c sid s))"
    and "s' = s\<lparr>ss_rooms := rooms', ss_owner := cs', ss_sent := ss_sent s @ replies, ss_requests := rest, ss_again := True\<rparr>"
    and "the (cs_roster_rx (ss_owner s)) \<le> length (rm_deltas (mi_room (mirror_of c sid s)))"
  shows "stream_ok c sid s' \<and> mirror_step\<^sup>*\<^sup>* (mirror_of c sid s) (mirror_of c sid s')"
proof -
  let ?m = "mirror_of c sid s"
  obtain r pos where ok: "cs_community (ss_owner s) = Some c" "get_room c sid (ss_rooms s) = Some r" "cs_roster_rx (ss_owner s) = Some pos"
    using assms(2) by (auto simp: stream_ok_def)
  have m: "mi_room ?m = r" "mi_sent ?m = ss_sent s" using ok by (simp_all add: mirror_of_def)
  have pos: "pos \<le> length (rm_deltas r)" using assms(6) ok(3) m(1) by simp
  have c': "c' = c" "\<not> draining" using assms(1) ok(1) by (auto simp: serve_control_msg_def Let_def split: if_splits)
  have g: "get_or_create c sid (ss_rooms s) = (r, ss_rooms s)" using ok(2) by (simp add: get_or_create_def get_room_def)
  show ?thesis
  proof (cases "validate c")
    case (Inl e)
    then obtain reason where e: "s' = s\<lparr>ss_owner := (ss_owner s)\<lparr>cs_community := Some c\<rparr>,
        ss_sent := ss_sent s @ [RegisterRejected pk (Fenced reason)], ss_requests := rest, ss_again := True\<rparr>"
      using assms(1,5) c' g ok(1) by (auto simp: serve_control_msg_def Let_def split: if_splits option.splits)
    have "mirror_of c sid s' = ?m\<lparr>mi_room := r, mi_sent := mi_sent ?m @ [RegisterRejected pk (Fenced reason)], mi_pos := pos, mi_skipped := True\<rparr>"
      using e ok by (simp add: mirror_of_def)
    moreover have "?m = ?m\<lparr>mi_room := r\<rparr>" by (simp add: m(1) [symmetric])
    ultimately have "mirror_step\<^sup>*\<^sup>* ?m (mirror_of c sid s')"
      using reply_and_skip [OF _ pos, of "RegisterRejected pk (Fenced reason)" ?m] by simp
    then show ?thesis using e ok by (simp add: stream_ok_def)
  next
    case (Inr u)
    obtain reply r1 reg where reg: "register_remote_peer json k pk v r (cs_registered (ss_owner s)) = (reply, r1, reg)" by (metis prod_cases3)
    have steps: "\<not> about_roster reply" "length (rm_deltas r) \<le> length (rm_deltas r1)" "mirror_step\<^sup>*\<^sup>* ?m (?m\<lparr>mi_room := r1\<rparr>)"
      using register_steps [of json k pk v ?m] reg assms(3,4) ok(2) by (simp_all add: m peer_unused_def)
    define pos' where "pos' = (case reply of PeerRegistered _ _ _ \<Rightarrow> length (rm_deltas r) | _ \<Rightarrow> pos)"
    have s': "stream_ok c sid s'" "mirror_of c sid s' = ?m\<lparr>mi_room := r1, mi_sent := mi_sent ?m @ [reply], mi_pos := pos', mi_skipped := True\<rparr>"
      using assms(1,5) c' g ok Inr reg
      by (cases reply; auto simp: serve_control_msg_def Let_def mirror_of_def stream_ok_def pos'_def)+
    have "pos' \<le> length (rm_deltas r1)" using steps(2) pos by (cases reply) (simp_all add: pos'_def)
    then have "mirror_step\<^sup>*\<^sup>* (?m\<lparr>mi_room := r1\<rparr>) (mirror_of c sid s')"
      unfolding s'(2) by (rule reply_and_skip [OF steps(1)])
    then show ?thesis using s'(1) steps(3) by (meson rtranclp_trans)
  qed
qed

lemma control_simulated:
  assumes "serve_control_msg json draining validate k sid msg (ss_rooms s, ss_owner s) = (replies, (rooms', cs'), None)"
    and "stream_ok c sid s" and "peer_unused k c sid (ss_rooms s)" and "room_ok (mi_room (mirror_of c sid s))"
    and "s' = s\<lparr>ss_rooms := rooms', ss_owner := cs', ss_sent := ss_sent s @ replies, ss_requests := rest,
      ss_again := ss_again s \<or> is_register msg\<rparr>"
    and "the (cs_roster_rx (ss_owner s)) \<le> length (rm_deltas (mi_room (mirror_of c sid s)))"
  shows "stream_ok c sid s' \<and> mirror_step\<^sup>*\<^sup>* (mirror_of c sid s) (mirror_of c sid s')"
proof -
  let ?m = "mirror_of c sid s"
  obtain r pos where ok: "cs_community (ss_owner s) = Some c" "get_room c sid (ss_rooms s) = Some r" "cs_roster_rx (ss_owner s) = Some pos"
    using assms(2) by (auto simp: stream_ok_def)
  show ?thesis
  proof (cases msg)
    case (RegisterPeer c' pk v)
    then show ?thesis using register_simulated [OF assms(1) [unfolded RegisterPeer] assms(2-4) _ assms(6), of s' rest] assms(5) by simp
  next
    case (UnregisterPeer pk)
    show ?thesis
    proof (cases "map_of (cs_registered (ss_owner s)) pk")
      case None
      then show ?thesis using assms(1,5) UnregisterPeer ok by (auto simp: serve_control_msg_def mirror_of_def stream_ok_def)
    next
      case (Some k')
      then have "s' = s\<lparr>ss_rooms := AList.update (c, sid) (unregister_peer json pk k' r) (ss_rooms s),
          ss_owner := (ss_owner s)\<lparr>cs_registered := AList.delete pk (cs_registered (ss_owner s))\<rparr>, ss_requests := rest\<rparr>"
        using assms(1,5) UnregisterPeer ok by (auto simp: serve_control_msg_def with_room_def)
      then have "stream_ok c sid s'" "mirror_of c sid s' = ?m\<lparr>mi_room := unregister_peer json pk k' (mi_room ?m)\<rparr>"
        using ok by (simp_all add: stream_ok_def mirror_of_def)
      then show ?thesis using unregister_steps [of ?m] by simp
    qed
  next
    case RosterResync
    then have "s' = s\<lparr>ss_sent := ss_sent s @ [roster_snapshot_msg r], ss_requests := rest\<rparr>"
      using assms(1,5) ok by (auto simp: serve_control_msg_def)
    then have "stream_ok c sid s'" "mirror_of c sid s' = ?m\<lparr>mi_sent := mi_sent ?m @ [roster_snapshot_msg (mi_room ?m)], mi_pos := pos\<rparr>"
      using ok by (simp_all add: stream_ok_def mirror_of_def)
    moreover have "pos \<le> length (rm_deltas (mi_room ?m))" using assms(6) ok(3) by simp
    ultimately show ?thesis using mirror_step.lag by (metis r_into_rtranclp)
  qed (use assms(1) in \<open>simp_all add: serve_control_msg_def\<close>)
qed

lemma step_simulated:
  assumes "stream_step json c sid s s'" and "stream_ok c sid s" and "room_ok (mi_room (mirror_of c sid s))"
    and pos: "mi_pos (mirror_of c sid s) \<le> length (rm_deltas (mi_room (mirror_of c sid s)))"
  shows "stream_ok c sid s' \<and> mirror_step\<^sup>*\<^sup>* (mirror_of c sid s) (mirror_of c sid s')"
proof -
  obtain r0 n where ok: "cs_community (ss_owner s) = Some c" "get_room c sid (ss_rooms s) = Some r0" "cs_roster_rx (ss_owner s) = Some n"
    using assms(2) by (auto simp: stream_ok_def)
  let ?m = "mirror_of c sid s"
  have m: "mi_room ?m = r0" "mi_pos ?m = n" "mi_sent ?m = ss_sent s" using ok by (simp_all add: mirror_of_def)
  from assms(1) show ?thesis
  proof cases
    case (room r op reply r')
    have "mirror_of c sid s' = ?m\<lparr>mi_room := r'\<rparr>" using room(1) by (simp add: mirror_of_def)
    moreover have "mirror_step ?m (?m\<lparr>mi_room := r'\<rparr>)" using mirror_step.room [of op ?m reply r'] room ok(2) by (simp add: m)
    ultimately show ?thesis using room(1) ok by (simp add: stream_ok_def r_into_rtranclp)
  next
    case (others rooms')
    then show ?thesis using assms(2) by (simp add: mirror_of_def stream_ok_def)
  next
    case (roster ev msgs rooms' cs')
    show ?thesis
    proof (cases ev)
      case RosterRecv
      then have "s' = s \<or> n < length (rm_deltas r0) \<and>
          s' = s\<lparr>ss_owner := (ss_owner s)\<lparr>cs_roster_rx := Some (Suc n)\<rparr>, ss_sent := ss_sent s @ [roster_delta_msg (rm_deltas r0 ! n)]\<rparr>"
        using roster(1,2) ok by (auto simp: serve_roster_event_def split: if_splits)
      then show ?thesis
      proof
        assume a: "n < length (rm_deltas r0) \<and>
          s' = s\<lparr>ss_owner := (ss_owner s)\<lparr>cs_roster_rx := Some (Suc n)\<rparr>, ss_sent := ss_sent s @ [roster_delta_msg (rm_deltas r0 ! n)]\<rparr>"
        then have "mirror_step ?m (mirror_of c sid s')" using mirror_step.forward [of ?m] ok by (simp add: mirror_of_def)
        then show ?thesis using a ok by (simp add: stream_ok_def r_into_rtranclp)
      qed (use assms(2) in simp)
    next
      case (RosterLagged pos')
      then have "pos' \<le> length (rm_deltas r0)"
          "s' = s\<lparr>ss_owner := (ss_owner s)\<lparr>cs_roster_rx := Some pos'\<rparr>, ss_sent := ss_sent s @ [roster_snapshot_msg r0]\<rparr>"
        using roster ok by (auto simp: serve_roster_event_def lag_possible_def)
      then show ?thesis using mirror_step.lag [of pos' ?m] ok by (auto simp: stream_ok_def mirror_of_def)
    next
      case RosterClosed
      then show ?thesis using roster(2) ok by (simp add: serve_roster_event_def)
    qed
  next
    case (control msg rest k draining validate replies rooms' cs')
    then show ?thesis using control_simulated [OF control(4) assms(2) control(3) assms(3) control(1)] pos by (simp add: m ok(3))
  next
    case (request msg)
    then show ?thesis using assms(2) by (simp add: stream_ok_def mirror_of_def)
  next
    case (read msg rest v told requests)
    then show ?thesis using mirror_step.read [of ?m msg rest v told requests] assms(2) by (auto simp: stream_ok_def mirror_of_def)
  qed
qed

lemma mirror_pos: "mirror_run m \<Longrightarrow> mi_pos m \<le> length (rm_deltas (mi_room m))"
proof (induction rule: mirror_run.induct)
  case (step m m')
  have grow: "length (rm_deltas (mi_room m)) \<le> length (rm_deltas (mi_room m'))"
    by (rule step_grows [OF step.hyps(2) run_room_ok [OF step.hyps(1)]])
  from step.hyps(2) show ?case by cases (use step.IH grow in auto)
qed (simp add: mirror_start_def)

lemma mirror_run_steps: "mirror_step\<^sup>*\<^sup>* m m' \<Longrightarrow> mirror_run m \<Longrightarrow> mirror_run m'"
  by (induction rule: rtranclp_induct) (auto intro: mirror_run.step)

lemma start_simulated:
  assumes "room_run (fst (get_or_create c sid rooms)) h" and "peer_unused k c sid rooms"
    and "serve_control_msg json draining validate k sid (RegisterPeer c pk v) (rooms, new_control_stream) =
      ([PeerRegistered pk i roster], (rooms', cs), None)"
    and s: "s = \<lparr>ss_rooms = rooms', ss_owner = cs, ss_sent = [], ss_requests = [], ss_again = False,
      ss_revision = rs_revision roster, ss_view = roster_map (rs_peers roster)\<rparr>"
  shows "stream_ok c sid s \<and> mirror_run (mirror_of c sid s)"
proof -
  obtain r rooms0 where g: "get_or_create c sid rooms = (r, rooms0)" by (cases "get_or_create c sid rooms")
  obtain res r1 where a: "add_peer k pk v r = (res, r1)" by (cases "add_peer k pk v r")
  have fresh: "op_fresh (AddPeer k pk v) r"
    using assms(2) g by (auto simp: peer_unused_def get_or_create_def get_room_def new_room_def split: option.splits)
  have run: "room_run r h" using assms(1) g by simp
  have "\<not> draining" "validate c = Inr ()"
    using assms(3) g by (cases "validate c"; auto simp: serve_control_msg_def new_control_stream_def Let_def split: if_splits option.splits)+
  then have res: "res = Inr i" "roster = roster_snapshot_of (broadcast_control (json (JoinedNote pk i)) r1)"
      "rooms' = AList.update (c, sid) (broadcast_control (json (JoinedNote pk i)) r1) rooms0"
      "cs_community cs = Some c" "cs_roster_rx cs = Some (length (rm_deltas r))"
    using assms(3) g a
    by (cases res; auto simp: serve_control_msg_def new_control_stream_def register_remote_peer_def Let_def)+
  let ?r = "broadcast_control (json (JoinedNote pk i)) r1"
  have exec: "room_exec (AddPeer k pk v) r = (Admitted i, r1)" using a res(1) by simp
  have run': "\<exists>h. room_run ?r h"
    using room_run.call [OF room_run.call [OF run fresh exec], of "BroadcastControl (json (JoinedNote pk i))"] by auto
  have "length (rm_deltas r) \<le> length (rm_deltas ?r)"
    using exec_deltas_grow [OF run_ok [OF run] fresh exec] by (auto simp: broadcast_control_def)
  moreover have "mirror_of c sid s = mirror_start ?r (length (rm_deltas r))"
    using res s by (simp add: mirror_of_def mirror_start_def)
  ultimately show ?thesis using run' mirror_run.start res s by (auto simp: stream_ok_def)
qed

lemma stream_simulated: "stream_run json c sid s \<Longrightarrow> stream_ok c sid s \<and> mirror_run (mirror_of c sid s)"
proof (induction rule: stream_run.induct)
  case (start rooms h k draining validate pk v i roster rooms' cs)
  then show ?case by (intro start_simulated [OF start]) simp
next
  case (step s s')
  then show ?case using step_simulated mirror_run_steps run_room_ok mirror_pos by blast
qed

text \<open>C12. A client on another runtime always sees a roster the owner really had. Run the owner's handlers and the
  client's reader on one control stream of a session, from the registration that opened it, with any
  interleaving of calls of the room's tasks, roster events (mutations, and lags of any length), requests of the
  other runtime and reads: the client's view is exactly the roster after as many mutations as the revision it
  holds. Once it has read everything under way and the owner's receiver has taken every mutation, it sees
  the current roster, without ever having to ask for it, unless it registered again on the stream, which
  replaces the receiver.\<close>

theorem roster_mirror_exact:
  assumes "stream_run json c sid s" and "get_room c sid (ss_rooms s) = Some r" and "length (rm_deltas r) < 2 ^ 64"
  shows "unat (ss_revision s) \<le> length (rm_deltas r)
    \<and> ss_view s = roster_at (take (unat (ss_revision s)) (rm_deltas r))
    \<and> (\<not> ss_again s \<and> ss_sent s = [] \<and> cs_roster_rx (ss_owner s) = Some (length (rm_deltas r))
        \<longrightarrow> ss_view s = current_roster r \<and> ss_revision s = ag_roster_revision (rm_guard r))"
proof -
  have m: "mi_room (mirror_of c sid s) = r" using assms(2) by (simp add: mirror_of_def)
  have run: "mirror_run (mirror_of c sid s)" using stream_simulated [OF assms(1)] by blast
  show ?thesis using mirror_exact [OF run] assms(3) unfolding m by (auto simp: mirror_of_def)
qed

definition demo_room :: room where
  "demo_room = broadcast_control [] one_peer"

definition demo_state :: "room \<Rightarrow> nat \<Rightarrow> huddle_control_msg list \<Rightarrow> 64 word \<Rightarrow> (8 word \<rightharpoonup> string) \<Rightarrow> stream_state" where
  "demo_state r pos sent revision view = \<lparr>ss_rooms = [((7, 9), r)],
     ss_owner = \<lparr>cs_registered = [(''a'', 1)], cs_community = Some 7, cs_roster_rx = Some pos\<rparr>, ss_sent = sent, ss_requests = [],
     ss_again = False, ss_revision = revision, ss_view = view\<rparr>"

definition demo_joined :: room where
  "demo_joined = snd (room_exec (AddPeer 2 ''b'' 2) demo_room)"

lemma demo_joined_eq:
  "rm_deltas demo_joined = [\<lparr>rd_revision = 1, rd_joined = Some \<lparr>rp_pubkey = ''a'', rp_index = 0\<rparr>, rd_left = None\<rparr>,
     \<lparr>rd_revision = 2, rd_joined = Some \<lparr>rp_pubkey = ''b'', rp_index = 1\<rparr>, rd_left = None\<rparr>]"
  "roster_snapshot_of demo_joined = \<lparr>rs_revision = 2, rs_peers = [\<lparr>rp_pubkey = ''a'', rp_index = 0\<rparr>, \<lparr>rp_pubkey = ''b'', rp_index = 1\<rparr>]\<rparr>"
  by (simp_all add: demo_joined_def demo_room_def one_peer_eq broadcast_control_def room_eval roster_snapshot_of_def send_ctrl_def)

text \<open>The stream of ''a'' while ''b'' joins: one mutation is forwarded, then the receiver lags past the second.\<close>

lemma demo_stream_run: "stream_run (\<lambda>_. []) 7 9 (demo_state demo_joined 2 [] 2 [0 \<mapsto> ''a'', 1 \<mapsto> ''b''])"
proof -
  let ?a = "RosterDeltaMsg 1 (Some \<lparr>rp_pubkey = ''a'', rp_index = 0\<rparr>) None"
  let ?all = "RosterSnapshotMsg 2 [\<lparr>rp_pubkey = ''a'', rp_index = 0\<rparr>, \<lparr>rp_pubkey = ''b'', rp_index = 1\<rparr>]"
  let ?run = "stream_run (\<lambda>_. []) 7 9"
  have snap: "roster_snapshot_of demo_room = \<lparr>rs_revision = 1, rs_peers = [\<lparr>rp_pubkey = ''a'', rp_index = 0\<rparr>]\<rparr>"
    by (simp add: roster_snapshot_of_def demo_room_def broadcast_control_def one_peer_eq send_ctrl_def)
  have reg: "serve_control_msg (\<lambda>_. []) False (\<lambda>_. Inr ()) 1 9 (RegisterPeer 7 ''a'' 2) ([], new_control_stream) =
      ([PeerRegistered ''a'' 0 (roster_snapshot_of demo_room)],
       ([((7, 9), demo_room)], \<lparr>cs_registered = [(''a'', 1)], cs_community = Some 7, cs_roster_rx = Some 0\<rparr>), None)"
    by (simp add: serve_control_msg_def new_control_stream_def get_or_create_def register_remote_peer_def room_eval demo_room_def one_peer_def Let_def)
  have "room_run (fst (get_or_create 7 9 [])) []" using room_run.start [of 7 9] by (simp add: get_or_create_def)
  from stream_run.start [OF this _ reg] have "?run (demo_state demo_room 0 [] 1 [0 \<mapsto> ''a''])"
    by (simp add: peer_unused_def get_room_def demo_state_def snap roster_map_def)
  then have "?run (demo_state demo_joined 0 [] 1 [0 \<mapsto> ''a''])"
    by (rule stream_run.step)
      (use stream_step.room [of 7 9 "demo_state demo_room 0 [] 1 [0 \<mapsto> ''a'']" demo_room "AddPeer 2 ''b'' 2" "Admitted 1" demo_joined] in
        \<open>simp add: demo_state_def get_room_def demo_joined_def demo_room_def one_peer_eq broadcast_control_def room_eval\<close>)
  then have "?run (demo_state demo_joined 1 [?a] 1 [0 \<mapsto> ''a''])"
    by (rule stream_run.step)
      (use stream_step.roster [of 9 RosterRecv "demo_state demo_joined 0 [] 1 [0 \<mapsto> ''a'']" "[?a]"] in
        \<open>simp add: demo_state_def get_room_def serve_roster_event_def demo_joined_eq roster_delta_msg_def lag_possible_def\<close>)
  then have "?run (demo_state demo_joined 2 [?a, ?all] 1 [0 \<mapsto> ''a''])"
    by (rule stream_run.step)
      (use stream_step.roster [of 9 "RosterLagged 2" "demo_state demo_joined 1 [?a] 1 [0 \<mapsto> ''a'']" "[?all]"] in
        \<open>simp add: demo_state_def get_room_def serve_roster_event_def demo_joined_eq roster_snapshot_msg_def lag_possible_def\<close>)
  then have "?run (demo_state demo_joined 2 [?all] 1 [0 \<mapsto> ''a''])"
    by (rule stream_run.step)
      (use stream_step.read [of "demo_state demo_joined 2 [?a, ?all] 1 [0 \<mapsto> ''a'']" ?a "[?all]" 1 "[]" "[]"] in
        \<open>simp add: demo_state_def read_owner_msg_def\<close>)
  then show ?thesis
    by (rule stream_run.step)
      (use stream_step.read [of "demo_state demo_joined 2 [?all] 1 [0 \<mapsto> ''a'']" ?all "[]" 2
          "[RosterNote 2 [\<lparr>rp_pubkey = ''a'', rp_index = 0\<rparr>, \<lparr>rp_pubkey = ''b'', rp_index = 1\<rparr>]]" "[]"] in
        \<open>simp add: demo_state_def read_owner_msg_def fun_upd_twist\<close>)
qed

theorem roster_mirror_exact_witness:
  "stream_run (\<lambda>_. []) 7 9 (demo_state demo_joined 2 [] 2 [0 \<mapsto> ''a'', 1 \<mapsto> ''b'']) \<and>
   current_roster demo_joined = [0 \<mapsto> ''a'', 1 \<mapsto> ''b'']"
proof -
  have r: "get_room 7 9 (ss_rooms (demo_state demo_joined 2 [] 2 [0 \<mapsto> ''a'', 1 \<mapsto> ''b''])) = Some demo_joined"
    by (simp add: demo_state_def get_room_def)
  have "length (rm_deltas demo_joined) < 2 ^ 64" by (simp add: demo_joined_eq)
  from conjunct2 [OF conjunct2 [OF roster_mirror_exact [OF demo_stream_run r this]]]
  have "current_roster demo_joined = [0 \<mapsto> ''a'', 1 \<mapsto> ''b'']" by (simp add: demo_state_def demo_joined_eq)
  then show ?thesis using demo_stream_run by blast
qed

subsection \<open>A stream and the peers it brings\<close>

definition peer_ids :: "room \<Rightarrow> uuid set" where
  "peer_ids r = fst ` set (rm_peers r)"

lemma peer_ids_new [simp]: "peer_ids (new_room c ch) = {}"
  by (simp add: peer_ids_def new_room_def)

lemma keys_broadcast_control [simp]: "peer_ids (broadcast_control j r) = peer_ids r"
  by (force simp: peer_ids_def broadcast_control_def image_iff)

lemma poisoned_broadcast_control [simp]: "rm_poisoned (broadcast_control j r) = rm_poisoned r"
  by (simp add: broadcast_control_def)

lemma keys_add_peer: "add_peer k pk v r = (res, r') \<Longrightarrow> peer_ids r' = (case res of Inl _ \<Rightarrow> peer_ids r | Inr _ \<Rightarrow> insert k (peer_ids r))"
  by (cases k pk v r rule: add_peer_cases) (clarsimp simp: peer_ids_def insert_peer_def publish_def Let_def dom_update)+

lemma keys_remove: "peer_ids (remove_audio_peer k r) = (if rm_poisoned r then peer_ids r else peer_ids r - {k})"
proof (cases "map_of (rm_peers r) k")
  case None
  then have "k \<notin> peer_ids r" by (simp add: peer_ids_def map_of_eq_None_iff)
  then show ?thesis using None by (simp add: remove_audio_peer_def)
next
  case (Some p)
  then show ?thesis by (auto simp: peer_ids_def remove_audio_peer_def drop_peer_def publish_def Let_def AList.delete_eq)
qed

lemma poisoned_remove [simp]: "rm_poisoned (remove_audio_peer k r) = rm_poisoned r"
  by (simp add: remove_audio_peer_def drop_peer_def publish_def Let_def split: option.split)

lemma keys_unregister:
  "peer_ids (unregister_peer json pk k r) = (if rm_poisoned r then peer_ids r else peer_ids r - {k})"
  "rm_poisoned (unregister_peer json pk k r) = rm_poisoned r"
  unfolding unregister_peer_def by (simp_all add: keys_remove split: option.split)

lemma keys_unregister_all:
  "peer_ids (fold (\<lambda>(pk, k). unregister_peer json pk k) reg r) = (if rm_poisoned r then peer_ids r else peer_ids r - snd ` set reg)"
  by (induction reg arbitrary: r) (auto simp: keys_unregister split_beta)

lemma keys_register:
  assumes "register_remote_peer json k pk v r reg = (reply, r', reg')"
  shows "(\<exists>i roster. reply = PeerRegistered pk i roster) \<and> peer_ids r' = insert k (peer_ids r) \<and> reg' = AList.update pk k reg \<or>
    (\<exists>why. reply = RegisterRejected pk why) \<and> peer_ids r' = peer_ids r \<and> reg' = reg"
proof -
  obtain a r1 where a: "add_peer k pk v r = (a, r1)" by (cases "add_peer k pk v r")
  then show ?thesis
  proof (cases a)
    case (Inl e)
    then have "r' = r1" "reply = RegisterRejected pk (admission_to_rejection e)" "reg' = reg"
      using assms a by (simp_all add: register_remote_peer_def)
    then show ?thesis using keys_add_peer [OF a] Inl by simp
  next
    case (Inr i)
    then have r': "r' = broadcast_control (json (JoinedNote pk i)) r1" "\<exists>roster. reply = PeerRegistered pk i roster" "reg' = AList.update pk k reg"
      using assms a by (auto simp: register_remote_peer_def Let_def)
    then show ?thesis using keys_add_peer [OF a] Inr by auto
  qed
qed

text \<open>What a registration does, in all its outcomes.\<close>

lemma register_cases:
  assumes "serve_control_msg json draining validate k sid (RegisterPeer c pk v) (rooms, cs) = (replies, (rooms', cs'), e)"
  obtains (refused) "rooms' = rooms \<or> rooms' = AList.update (c, sid) (new_room c sid) rooms \<and> get_room c sid rooms = None"
      "cs_registered cs' = cs_registered cs" "\<forall>pk i roster. replies \<noteq> [PeerRegistered pk i roster]"
  | (handled) r r' where "get_room c sid rooms = Some r \<or> get_room c sid rooms = None \<and> r = new_room c sid"
      "get_room c sid rooms' = Some r'" "\<And>c' ch'. (c', ch') \<noteq> (c, sid) \<Longrightarrow> get_room c' ch' rooms' = get_room c' ch' rooms"
      "cs_community cs \<in> {None, Some c}" "cs_community cs' = Some c" "\<not> draining" "validate c = Inr ()"
      "(\<exists>i roster. replies = [PeerRegistered pk i roster]) \<and> peer_ids r' = insert k (peer_ids r) \<and>
         cs_registered cs' = AList.update pk k (cs_registered cs) \<or>
       (\<forall>pk i roster. replies \<noteq> [PeerRegistered pk i roster]) \<and> peer_ids r' = peer_ids r \<and> cs_registered cs' = cs_registered cs"
proof -
  obtain r rooms0 where g: "get_or_create c sid rooms = (r, rooms0)" by (cases "get_or_create c sid rooms")
  then have g': "get_room c sid rooms = Some r \<and> rooms0 = rooms \<or>
      get_room c sid rooms = None \<and> r = new_room c sid \<and> rooms0 = AList.update (c, sid) (new_room c sid) rooms"
    by (auto simp: get_or_create_def get_room_def split: option.splits)
  show thesis
  proof (cases "(\<exists>latched. cs_community cs = Some latched \<and> latched \<noteq> c) \<or> draining \<or> (\<exists>e. validate c = Inl e)")
    case True
    then have "(rooms' = rooms \<or> rooms' = rooms0) \<and> cs_registered cs' = cs_registered cs \<and> (\<forall>pk i roster. replies \<noteq> [PeerRegistered pk i roster])"
      using assms g by (auto simp: serve_control_msg_def Let_def split: if_splits option.splits)
    then show thesis using refused g' by metis
  next
    case False
    then have ok: "cs_community cs \<in> {None, Some c}" "\<not> draining" "validate c = Inr ()" by (cases "cs_community cs"; cases "validate c"; auto)+
    obtain reply r' reg where reg: "register_remote_peer json k pk v r (cs_registered cs) = (reply, r', reg)" by (metis prod_cases3)
    have "\<not> (\<exists>latched. cs_community cs = Some latched \<and> latched \<noteq> c)" using False by blast
    then have eq: "serve_control_msg json draining validate k sid (RegisterPeer c pk v) (rooms, cs) =
        ([reply], (AList.update (c, sid) r' rooms0,
          (case reply of PeerRegistered _ _ _ \<Rightarrow> cs\<lparr>cs_community := Some c, cs_registered := reg, cs_roster_rx := Some (length (rm_deltas r))\<rparr>
           | _ \<Rightarrow> cs\<lparr>cs_community := Some c, cs_registered := reg\<rparr>)), None)"
      using ok(2,3) g reg by (simp add: serve_control_msg_def Let_def)
    have out: "replies = [reply]" "rooms' = AList.update (c, sid) r' rooms0"
      and cs': "cs' = (case reply of PeerRegistered _ _ _ \<Rightarrow> cs\<lparr>cs_community := Some c, cs_registered := reg, cs_roster_rx := Some (length (rm_deltas r))\<rparr>
           | _ \<Rightarrow> cs\<lparr>cs_community := Some c, cs_registered := reg\<rparr>)"
      using trans [OF assms [symmetric] eq] by (simp_all only: prod.inject)
    have out': "cs_registered cs' = reg" "cs_community cs' = Some c"
      unfolding cs' by (simp_all split: huddle_control_msg.split)
    show thesis
    proof (rule handled [of r r'])
      show "get_room c' ch' rooms' = get_room c' ch' rooms" if "(c', ch') \<noteq> (c, sid)" for c' ch' using that out(2) g' by auto
    qed (use ok out out' g' keys_register [OF reg] in auto)
  qed
qed

text \<open>
  A stream over time: the peers it admitted and has not unregistered since, and whether it registered a
  public key of which it still had a peer. Everybody else does anything to the rooms in between.
\<close>

definition held_after :: "uuid \<Rightarrow> huddle_control_msg \<Rightarrow> huddle_control_msg list \<Rightarrow> control_stream \<Rightarrow> (string \<times> uuid) list \<Rightarrow> (string \<times> uuid) list" where
  "held_after k msg replies cs held = (case msg of
     RegisterPeer _ pk _ \<Rightarrow> (case replies of [PeerRegistered _ _ _] \<Rightarrow> held @ [(pk, k)] | _ \<Rightarrow> held)
   | UnregisterPeer pk \<Rightarrow> filter (\<lambda>e. fst e \<noteq> pk \<or> map_of (cs_registered cs) pk \<noteq> Some (snd e)) held
   | _ \<Rightarrow> held)"

fun registers_held :: "huddle_control_msg \<Rightarrow> (string \<times> uuid) list \<Rightarrow> bool" where
  "registers_held (RegisterPeer _ pk _) held \<longleftrightarrow> pk \<in> fst ` set held"
| "registers_held _ held \<longleftrightarrow> False"

inductive control_run :: "(room_note \<Rightarrow> string) \<Rightarrow> uuid \<Rightarrow> room_manager \<Rightarrow> control_stream \<Rightarrow> (string \<times> uuid) list \<Rightarrow> bool \<Rightarrow> bool"
  for json sid where
  start: "control_run json sid rooms new_control_stream [] False"
| others: "control_run json sid rooms cs held again \<Longrightarrow> control_run json sid rooms' cs held again"
| roster: "control_run json sid rooms cs held again \<Longrightarrow> serve_roster_event sid ev (rooms, cs) = (msgs, (rooms', cs'), e) \<Longrightarrow>
    control_run json sid rooms' cs' held again"
| serve: "control_run json sid rooms cs held again \<Longrightarrow>
    serve_control_msg json draining validate k sid msg (rooms, cs) = (replies, (rooms', cs'), e) \<Longrightarrow>
    control_run json sid rooms' cs' (held_after k msg replies cs held) (again \<or> registers_held msg held)"

definition table_ok :: "(string \<times> uuid) list \<Rightarrow> (string \<times> uuid) list \<Rightarrow> bool \<Rightarrow> bool" where
  "table_ok reg held again \<longleftrightarrow> distinct (map fst reg) \<and> set reg \<subseteq> set held \<and> (\<not> again \<longrightarrow> set reg = set held)"

lemma set_update_new: "pk \<notin> fst ` set reg \<Longrightarrow> set (AList.update pk k reg) = insert (pk, k) (set reg)"
  by (induction reg) auto

lemma set_update_subset: "set (AList.update pk k reg) \<subseteq> insert (pk, k) (set reg)"
  by (induction reg) auto

lemma table_ok_register:
  assumes "table_ok reg held again"
  shows "table_ok (AList.update pk k reg) (held @ [(pk, k)]) (again \<or> pk \<in> fst ` set held)"
  using assms set_update_subset [of pk k reg] set_update_new [of pk reg k]
  by (auto simp: table_ok_def distinct_update)

lemma table_ok_unregister:
  assumes "table_ok reg held again"
  shows "table_ok (AList.delete pk reg) (filter (\<lambda>e. fst e \<noteq> pk \<or> map_of reg pk \<noteq> Some (snd e)) held) again"
proof -
  have "set (AList.delete pk reg) = {e\<in>set reg. fst e \<noteq> pk}" by (auto simp: AList.delete_eq)
  moreover have "map_of reg (fst e) = Some (snd e)" if "e \<in> set reg" for e
    using assms that by (auto simp: table_ok_def)
  moreover have "distinct (map fst (AList.delete pk reg))" using assms by (simp add: table_ok_def distinct_delete)
  ultimately show ?thesis using assms by (auto simp: table_ok_def)
qed

lemma serve_table:
  assumes "serve_control_msg json draining validate k sid msg (rooms, cs) = (replies, (rooms', cs'), e)"
    and "table_ok (cs_registered cs) held again"
  shows "table_ok (cs_registered cs') (held_after k msg replies cs held) (again \<or> registers_held msg held)"
proof (cases msg)
  case (RegisterPeer c pk v)
  from assms(1) [unfolded RegisterPeer] show ?thesis
  proof (cases rule: register_cases)
    case refused
    then have "held_after k msg replies cs held = held" by (auto simp: held_after_def RegisterPeer split: list.splits huddle_control_msg.splits)
    then show ?thesis using assms(2) refused by (auto simp: table_ok_def)
  next
    case (handled r r')
    from handled(8) show ?thesis
    proof
      assume "(\<exists>i roster. replies = [PeerRegistered pk i roster]) \<and> peer_ids r' = insert k (peer_ids r) \<and>
         cs_registered cs' = AList.update pk k (cs_registered cs)"
      then show ?thesis using table_ok_register [OF assms(2), of pk k] by (auto simp: held_after_def RegisterPeer)
    next
      assume a: "(\<forall>pk i roster. replies \<noteq> [PeerRegistered pk i roster]) \<and> peer_ids r' = peer_ids r \<and> cs_registered cs' = cs_registered cs"
      then have "held_after k msg replies cs held = held" by (auto simp: held_after_def RegisterPeer split: list.splits huddle_control_msg.splits)
      then show ?thesis using assms(2) a by (auto simp: table_ok_def)
    qed
  qed
next
  case (UnregisterPeer pk)
  then show ?thesis
    using assms(1) table_ok_unregister [OF assms(2), of pk] assms(2)
    by (auto simp: serve_control_msg_def held_after_def split: option.splits)
qed (use assms in \<open>auto simp: serve_control_msg_def held_after_def split: option.splits\<close>)

lemma run_table: "control_run json sid rooms cs held again \<Longrightarrow> table_ok (cs_registered cs) held again"
proof (induction rule: control_run.induct)
  case (start rooms)
  show ?case by (simp add: table_ok_def new_control_stream_def)
next
  case (roster rooms cs held again ev msgs rooms' cs' e)
  then have "cs_registered cs' = cs_registered cs"
    by (auto simp: serve_roster_event_def split: option.splits roster_event.splits if_splits)
  then show ?case using roster.IH by simp
next
  case (serve rooms cs held again draining validate k msg replies rooms' cs' e)
  then show ?case by (intro serve_table)
qed

lemma with_room_other: "community \<noteq> Some c \<or> ch \<noteq> sid \<Longrightarrow> get_room c ch (with_room community sid f rooms) = get_room c ch rooms"
  by (auto simp: with_room_def split: option.splits)

lemma with_room_own: "get_room c sid rooms = Some r \<Longrightarrow> get_room c sid (with_room (Some c) sid f rooms) = Some (f r)"
  by (simp add: with_room_def)



lemma teardown_peers:
  assumes "get_room c ch rooms = Some r"
  shows "\<exists>r'. get_room c ch (control_teardown json sid cs rooms) = Some r' \<and>
    peer_ids r' = (if cs_community cs = Some c \<and> ch = sid \<and> \<not> rm_poisoned r then peer_ids r - snd ` set (cs_registered cs) else peer_ids r)"
proof (cases "cs_community cs = Some c \<and> ch = sid")
  case True
  then show ?thesis using assms by (auto simp: control_teardown_def with_room_own keys_unregister_all)
next
  case False
  then show ?thesis using assms with_room_other [of "cs_community cs" c ch sid] by (auto simp: control_teardown_def)
qed


text \<open>
  The exception is real: a public key that is registered again while the stream still has a peer of it loses
  that peer from the stream's table, and the end of the stream leaves the peer in the room.
\<close>

theorem reregistered_peer_leaks:
  assumes "control_run json sid rooms cs held again"
    and "serve_control_msg json draining validate k2 sid (RegisterPeer c pk v) (rooms, cs) = ([PeerRegistered pk i roster], (rooms', cs'), e)"
    and "map_of (cs_registered cs) pk = Some k1" and "k1 \<noteq> k2" and "\<forall>pk'. map_of (cs_registered cs) pk' = Some k1 \<longrightarrow> pk' = pk"
    and "get_room c sid rooms = Some r" and "k1 \<in> peer_ids r"
  shows "\<exists>r'. get_room c sid (control_teardown json sid cs' rooms') = Some r' \<and> k1 \<in> peer_ids r'"
  using assms(2)
proof (cases rule: register_cases)
  case (handled r0 r1)
  have reg: "cs_registered cs' = AList.update pk k2 (cs_registered cs)" "peer_ids r1 = insert k2 (peer_ids r0)"
    using handled(8) by auto
  have "r0 = r" using handled(1) assms(6) by auto
  then have in1: "k1 \<in> peer_ids r1" using reg(2) assms(7) by simp
  have "distinct (map fst (cs_registered cs'))"
    using reg(1) run_table [OF assms(1)] by (simp add: table_ok_def distinct_update)
  then have "k1 \<notin> snd ` set (cs_registered cs')"
    using reg(1) assms(4,5) by (auto simp: update_conv' dest!: map_of_is_SomeI split: if_splits)
  then show ?thesis using teardown_peers [OF handled(2), of json sid cs'] in1 by auto
qed (use assms(2) in auto)


end
