(* ===== verification/Huddle_Owner.thy ===== *)
theory Huddle_Owner
  imports Huddle_Control Session_Runs
begin

section \<open>Huddles across runtimes: finding the owner and fencing media\<close>

text \<open>
  Models the ownership half of \<open>buzz-relay/src/audio/join.rs\<close> (\<open>resolve_join\<close> and
  \<open>resolve_join_owner_ready\<close> over the trait \<open>HuddleDirectory\<close>, with its implementation by the session
  directory) and \<open>audio/mesh.rs\<close> (the generation floor and the delivery of media datagrams). The
  trait is a record of functions; a call happens at a moment, which for the session directory is the
  store it meets and what becomes of the call.
\<close>

subsection \<open>The directory of huddles\<close>

record ownership =
  ow_owner_runtime_id :: runtime_id
  ow_generation :: nat

datatype acquire_outcome = HuddleAcquired session_lease | Held ownership

datatype huddle_renew_outcome = HuddleRenewed session_lease | HuddleLost

datatype huddle_release_outcome = HuddleReleased | HuddleNotOwner

record 's huddle_directory =
  hd_owner_of :: "uuid \<Rightarrow> uuid \<Rightarrow> 's \<Rightarrow> (ownership option, mesh_error) result"
  hd_acquire :: "uuid \<Rightarrow> uuid \<Rightarrow> runtime_id \<Rightarrow> 's \<Rightarrow> 's \<times> (acquire_outcome, mesh_error) result"
  hd_renew :: "session_lease \<Rightarrow> 's \<Rightarrow> 's \<times> (huddle_renew_outcome, mesh_error) result"
  hd_release :: "session_lease \<Rightarrow> 's \<Rightarrow> 's \<times> (huddle_release_outcome, mesh_error) result"
  hd_validate :: "uuid \<Rightarrow> fenced_header \<Rightarrow> 's \<Rightarrow> (unit, mesh_error) result"

definition ownership_of :: "session_lease \<Rightarrow> ownership" where
  "ownership_of l = \<lparr>ow_owner_runtime_id = sl_owner_runtime_id l, ow_generation = sl_generation l\<rparr>"

definition HUDDLE_CONTROL_PROFILE :: profile where "HUDDLE_CONTROL_PROFILE = HuddleControl"

definition session_huddle_directory :: "'r dir_env \<Rightarrow> nat \<Rightarrow> ('r \<times> net) huddle_directory" where
  "session_huddle_directory E ttl = \<lparr>
     hd_owner_of = (\<lambda>c sid (r, net). and_then (transport_err (lookup E net c sid r)) (\<lambda>l. Inr (map_option ownership_of l))),
     hd_acquire = (\<lambda>c sid owner (r, net).
       (let (r', result) = acquire E net ttl c sid owner HUDDLE_CONTROL_PROFILE r
        in ((r', net), and_then (transport_err result) (\<lambda>a. Inr (case a of
             Acquired l \<Rightarrow> HuddleAcquired l | Exists l \<Rightarrow> Held (ownership_of l)))))),
     hd_renew = (\<lambda>lease (r, net).
       (let (r', result) = renew E net ttl lease r
        in ((r', net), and_then (transport_err result) (\<lambda>a. Inr (case a of
             Renewed l \<Rightarrow> HuddleRenewed l | Lost _ _ \<Rightarrow> HuddleLost))))),
     hd_release = (\<lambda>lease (r, net).
       (let (r', result) = release E net lease r
        in ((r', net), and_then (transport_err result) (\<lambda>a. Inr (case a of
             Released _ \<Rightarrow> HuddleReleased | NotOwner _ _ \<Rightarrow> HuddleNotOwner))))),
     hd_validate = (\<lambda>c fenced (r, net). validate_fenced_header E net c fenced r)\<rparr>"

subsection \<open>Resolving a join\<close>

datatype join_outcome = LocalOwner nat | RemoteOwner runtime_id nat

definition fenced_header_for :: "join_outcome \<Rightarrow> uuid \<Rightarrow> runtime_id \<Rightarrow> fenced_header" where
  "fenced_header_for out session_id local_runtime_id = (case out of
     LocalOwner g \<Rightarrow> \<lparr>fh_session_id = session_id, fh_generation = g, fh_owner_runtime_id = local_runtime_id\<rparr>
   | RemoteOwner owner g \<Rightarrow> \<lparr>fh_session_id = session_id, fh_generation = g, fh_owner_runtime_id = owner\<rparr>)"

record resolved_join =
  rj_outcome :: join_outcome
  rj_acquired :: "session_lease option"

text \<open>The moments of the lookup, the acquisition and the validation; the result has the moment the acquisition left.\<close>

definition resolve_join ::
    "'s huddle_directory \<Rightarrow> uuid \<Rightarrow> uuid \<Rightarrow> runtime_id \<Rightarrow> 's \<times> 's \<times> 's \<Rightarrow> 's \<times> (resolved_join, mesh_error) result" where
  "resolve_join D community_id session_id local_runtime_id moments = (case moments of (s1, s2, s3) \<Rightarrow>
     let route = (\<lambda>ownership.
           if ow_owner_runtime_id ownership = local_runtime_id
           then Inr \<lparr>rj_outcome = LocalOwner (ow_generation ownership), rj_acquired = None\<rparr>
           else let fenced = \<lparr>fh_session_id = session_id, fh_generation = ow_generation ownership,
                              fh_owner_runtime_id = ow_owner_runtime_id ownership\<rparr>
             in and_then (hd_validate D community_id fenced s3) (\<lambda>_.
                  Inr \<lparr>rj_outcome = RemoteOwner (ow_owner_runtime_id ownership) (ow_generation ownership), rj_acquired = None\<rparr>))
     in case hd_owner_of D community_id session_id s1 of
       Inl e \<Rightarrow> (s2, Inl e)
     | Inr (Some ownership) \<Rightarrow> (s2, route ownership)
     | Inr None \<Rightarrow> (case hd_acquire D community_id session_id local_runtime_id s2 of
         (s2', Inl e) \<Rightarrow> (s2', Inl e)
       | (s2', Inr (HuddleAcquired l)) \<Rightarrow> (s2', Inr \<lparr>rj_outcome = LocalOwner (sl_generation l), rj_acquired = Some l\<rparr>)
       | (s2', Inr (Held ownership)) \<Rightarrow> (s2', route ownership)))"

definition OWNER_READY_MAX_ATTEMPTS :: nat where "OWNER_READY_MAX_ATTEMPTS = 25"

text \<open>Each attempt meets its moments, and finds a live entry of the owner registry or none.\<close>

fun owner_ready_loop ::
    "'s huddle_directory \<Rightarrow> uuid \<Rightarrow> uuid \<Rightarrow> runtime_id \<Rightarrow> (('s \<times> 's \<times> 's) \<times> bool) list \<Rightarrow> (resolved_join, mesh_error) result" where
  "owner_ready_loop D c sid local [] = Inl Transport"
| "owner_ready_loop D c sid local ((moments, entry) # rest) =
     and_then (snd (resolve_join D c sid local moments)) (\<lambda>resolved.
       (case (rj_outcome resolved, rj_acquired resolved) of
          (LocalOwner _, None) \<Rightarrow> if entry then Inr resolved else owner_ready_loop D c sid local rest
        | _ \<Rightarrow> Inr resolved))"

definition resolve_join_owner_ready ::
    "'s huddle_directory \<Rightarrow> uuid \<Rightarrow> uuid \<Rightarrow> runtime_id \<Rightarrow> (nat \<Rightarrow> ('s \<times> 's \<times> 's) \<times> bool) \<Rightarrow> (resolved_join, mesh_error) result" where
  "resolve_join_owner_ready D c sid local attempts = owner_ready_loop D c sid local (map attempts [0..<OWNER_READY_MAX_ATTEMPTS])"

subsection \<open>Media datagrams\<close>

datatype fence_verdict = Accept bool | RejectStale nat

type_synonym generation_floor = "(uuid \<times> nat) list"

definition check_generation :: "uuid \<Rightarrow> nat \<Rightarrow> generation_floor \<Rightarrow> fence_verdict \<times> generation_floor" where
  "check_generation session_id generation seen = (case map_of seen session_id of
     Some known \<Rightarrow>
       if generation < known then (RejectStale known, seen)
       else (Accept (generation > known), if generation > known then AList.update session_id generation seen else seen)
   | None \<Rightarrow> (Accept False, AList.update session_id generation seen))"

definition forget_session :: "uuid \<Rightarrow> generation_floor \<Rightarrow> generation_floor" where
  "forget_session session_id seen = AList.delete session_id seen"

definition on_media_datagram :: "mesh_datagram \<Rightarrow> room_manager \<times> generation_floor \<Rightarrow> fence_verdict \<times> room_manager \<times> generation_floor" where
  "on_media_datagram dgram st = (case st of (rooms, seen) \<Rightarrow>
     let sid = fh_session_id (md_fenced dgram) in
     (case check_generation sid (fh_generation (md_fenced dgram)) seen of
        (RejectStale known, seen') \<Rightarrow> (RejectStale known, rooms, seen')
      | (Accept advanced, seen') \<Rightarrow> (Accept advanced,
          (case get_unambiguous_by_channel sid rooms of
             None \<Rightarrow> rooms
           | Some (key, r) \<Rightarrow> (case md_payload dgram of
               [] \<Rightarrow> rooms
             | author_index # rest \<Rightarrow> AList.update key (deliver_prefixed author_index (author_index # rest) r) rooms)), seen')))"

definition media_datagram :: "8 word \<Rightarrow> fenced_header \<Rightarrow> nat \<Rightarrow> bytes \<Rightarrow> mesh_datagram" where
  "media_datagram peer_index fenced seq client_frame =
     \<lparr>md_fenced = fenced, md_seq = seq, md_payload = peer_index # client_frame\<rparr>"

subsection \<open>What joining relies on of a directory\<close>

text \<open>
  The contract of \<open>HuddleDirectory\<close>, at a moment at which the store is in order: a lookup tells the
  live owner, an acquisition leaves the lease it returns or tells the one that was in the way, and
  only the header of the live lease validates.
\<close>

locale leased_directory =
  fixes D :: "'s huddle_directory"
    and ok :: "'s \<Rightarrow> bool"
    and live :: "'s \<Rightarrow> uuid \<Rightarrow> uuid \<Rightarrow> ownership \<Rightarrow> bool"
  assumes owner_live: "ok s \<Longrightarrow> hd_owner_of D c sid s = Inr (Some w) \<Longrightarrow> live s c sid w"
    and acquired_live: "ok s \<Longrightarrow> length me = 32 \<Longrightarrow> hd_acquire D c sid me s = (s', Inr (HuddleAcquired l)) \<Longrightarrow>
      live s' c sid (ownership_of l) \<and> sl_owner_runtime_id l = me"
    and held_live: "ok s \<Longrightarrow> length me = 32 \<Longrightarrow> hd_acquire D c sid me s = (s', Inr (Held w)) \<Longrightarrow> live s c sid w"
    and valid_live: "ok s \<Longrightarrow> hd_validate D c f s = Inr () \<Longrightarrow>
      live s c (fh_session_id f) \<lparr>ow_owner_runtime_id = fh_owner_runtime_id f, ow_generation = fh_generation f\<rparr>"
begin

definition routed :: "'s \<times> 's \<times> 's \<Rightarrow> uuid \<Rightarrow> uuid \<Rightarrow> runtime_id \<Rightarrow> 's \<Rightarrow> resolved_join \<Rightarrow> bool" where
  "routed moments c sid me s' j \<longleftrightarrow> (case moments of (s1, s2, s3) \<Rightarrow>
     (case rj_acquired j of
        Some l \<Rightarrow> rj_outcome j = LocalOwner (sl_generation l) \<and> sl_owner_runtime_id l = me \<and> live s' c sid (ownership_of l)
      | None \<Rightarrow> (case rj_outcome j of
          LocalOwner g \<Rightarrow> live s1 c sid \<lparr>ow_owner_runtime_id = me, ow_generation = g\<rparr> \<or> live s2 c sid \<lparr>ow_owner_runtime_id = me, ow_generation = g\<rparr>
        | RemoteOwner owner g \<Rightarrow> owner \<noteq> me \<and> live s3 c sid \<lparr>ow_owner_runtime_id = owner, ow_generation = g\<rparr>)))"

lemma resolve_routed:
  assumes "ok s1" "ok s2" "ok s3" and "length me = 32" and "resolve_join D c sid me (s1, s2, s3) = (s', Inr j)"
  shows "routed (s1, s2, s3) c sid me s' j"
proof (cases "hd_owner_of D c sid s1")
  case (Inl e)
  then show ?thesis using assms(5) by (simp add: resolve_join_def)
next
  case (Inr w)
  have route: "routed (s1, s2, s3) c sid me s' j"
    if "live s1 c sid w \<or> live s2 c sid w"
      and "(if ow_owner_runtime_id w = me then Inr \<lparr>rj_outcome = LocalOwner (ow_generation w), rj_acquired = None\<rparr>
        else and_then (hd_validate D c \<lparr>fh_session_id = sid, fh_generation = ow_generation w, fh_owner_runtime_id = ow_owner_runtime_id w\<rparr> s3)
          (\<lambda>_. Inr \<lparr>rj_outcome = RemoteOwner (ow_owner_runtime_id w) (ow_generation w), rj_acquired = None\<rparr>)) = Inr j" for w
  proof (cases "ow_owner_runtime_id w = me")
    case True
    then show ?thesis using that by (cases w) (auto simp: routed_def)
  next
    case False
    then show ?thesis
      using that valid_live [OF assms(3), of c "\<lparr>fh_session_id = sid, fh_generation = ow_generation w, fh_owner_runtime_id = ow_owner_runtime_id w\<rparr>"]
      by (auto simp: routed_def and_then_eq_Inr)
  qed
  show ?thesis
  proof (cases w)
    case (Some w')
    then show ?thesis using route [of w'] assms(5) [unfolded resolve_join_def Let_def] Inr owner_live [OF assms(1)] by simp
  next
    case None
    obtain s2' a where a: "hd_acquire D c sid me s2 = (s2', a)" by (cases "hd_acquire D c sid me s2")
    show ?thesis
    proof (cases a)
      case (Inl e)
      then show ?thesis using assms(5) Inr None a by (simp add: resolve_join_def)
    next
      case ok: (Inr outcome)
      show ?thesis
      proof (cases outcome)
        case (HuddleAcquired l)
        then show ?thesis
          using assms(5) Inr None a ok acquired_live [OF assms(2,4)] by (auto simp: resolve_join_def routed_def)
      next
        case (Held w')
        then show ?thesis
          using route [of w'] assms(5) [unfolded resolve_join_def Let_def] Inr None a ok held_live [OF assms(2,4)] by simp
      qed
    qed
  qed
qed

text \<open>The loop returns what one of its attempts resolved; as a reused owner only with a live entry.\<close>

lemma loop_attempt:
  assumes "owner_ready_loop D c sid me attempts = Inr j"
  shows "\<exists>(moments, entry)\<in>set attempts. snd (resolve_join D c sid me moments) = Inr j
    \<and> (entry \<or> rj_acquired j \<noteq> None \<or> (\<exists>owner g. rj_outcome j = RemoteOwner owner g))"
  using assms
proof (induction attempts)
  case (Cons a rest)
  obtain moments entry where a: "a = (moments, entry)" by (cases a)
  then show ?case
    using Cons
    by (cases "snd (resolve_join D c sid me moments)")
      (auto split: join_outcome.splits option.splits if_splits)
qed simp

end

definition store_ok :: "'r dir_env \<Rightarrow> 'r \<Rightarrow> bool" where
  "store_ok E r \<longleftrightarrow> env_laws E \<and> (\<exists>S. stores E r S \<and> (\<forall>k. st_generation (S k) + 1 < 10 ^ 14))"

definition owned_by :: "'r dir_env \<Rightarrow> 'r \<Rightarrow> uuid \<Rightarrow> uuid \<Rightarrow> ownership \<Rightarrow> bool" where
  "owned_by E r c sid w \<longleftrightarrow> (\<exists>l. lookup E Delivered c sid r = Inr (Some l) \<and> ownership_of l = w)"

lemma transport_err_Inr [simp]: "transport_err res = Inr x \<longleftrightarrow> res = Inr x"
  by (cases res) simp_all

lemma delivered_calls:
  "lookup E net c sid r = Inr x \<Longrightarrow> net = Delivered"
  "acquire E net ttl c sid owner p r = (r', Inr a) \<Longrightarrow> net = Delivered \<and> 0 < ttl \<and> ttl < 2 ^ 63"
  "validate_fenced_header E net c f r = Inr () \<Longrightarrow> net = Delivered"
  by (cases net; auto simp: lookup_def acquire_def ttl_ms_def validate_fenced_header_def invoke_def Let_def
      split: option.splits if_splits prod.splits)+

lemma directory_acquired:
  assumes "store_ok E r" and "length owner = 32" and "acquire E net ttl c sid owner p r = (r', Inr a)"
  shows "case a of Acquired l \<Rightarrow> lookup E Delivered c sid r' = Inr (Some l) \<and> sl_owner_runtime_id l = owner
    | Exists l \<Rightarrow> lookup E Delivered c sid r = Inr (Some l)"
proof -
  obtain S where S: "env_laws E" "stores E r S" "st_generation (S (c, sid)) + 1 < 10 ^ 14" using assms(1) by (auto simp: store_ok_def)
  have n: "net = Delivered" "0 < ttl" "ttl < 2 ^ 63" using delivered_calls(2) [OF assms(3)] by auto
  have "case lease_of S (c, sid) of
      Some cur \<Rightarrow> Inr a = (Inr (Exists cur) :: (acquire_result, directory_error) result) \<and> r' = r
    | None \<Rightarrow> Inr a = (Inr (Acquired \<lparr>sl_community_id = c, sl_session_id = sid, sl_owner_runtime_id = owner,
          sl_generation = st_generation (S (c, sid)) + 1, sl_profile = p\<rparr>) :: (acquire_result, directory_error) result) \<and>
        stores E r' (S((c, sid) := granted_state (S (c, sid)) owner p))"
    using acquire_exact [OF S(1,2) assms(2) S(3) n(2,3)] assms(3) n(1) by blast
  then show ?thesis
    using lookup_exact(1) [OF S(1,2), of c sid] lookup_exact(1) [OF S(1), of r' "S((c, sid) := granted_state (S (c, sid)) owner p)" c sid]
    by (cases "lease_of S (c, sid)") (auto simp: lease_of_def granted_state_def)
qed

lemma directory_validated:
  assumes "store_ok E r" and "validate_fenced_header E net c f r = Inr ()"
  shows "\<exists>l. lookup E Delivered c (fh_session_id f) r = Inr (Some l) \<and> fenced_header_of l = f"
proof -
  obtain S where S: "env_laws E" "stores E r S" using assms(1) by (auto simp: store_ok_def)
  show ?thesis
    using assms(2) delivered_calls(3) [OF assms(2)] validate_exact [OF S, of c f] lookup_exact(1) [OF S, of c "fh_session_id f"]
      accepted_fence_live [of S c f] by auto
qed

interpretation redis_huddles: leased_directory "session_huddle_directory E ttl" "\<lambda>(r, _). store_ok E r" "\<lambda>(r, _). owned_by E r"
proof
  fix s c sid w
  assume "(\<lambda>(r, _). store_ok E r) s" "hd_owner_of (session_huddle_directory E ttl) c sid s = Inr (Some w)"
  then show "(\<lambda>(r, _). owned_by E r) s c sid w"
    using delivered_calls(1) by (cases s) (fastforce simp: session_huddle_directory_def and_then_eq_Inr owned_by_def)
next
  fix s s' :: "'a \<times> net" and me c sid l
  assume "(\<lambda>(r, _). store_ok E r) s" "length me = 32" "hd_acquire (session_huddle_directory E ttl) c sid me s = (s', Inr (HuddleAcquired l))"
  then show "(\<lambda>(r, _). owned_by E r) s' c sid (ownership_of l) \<and> sl_owner_runtime_id l = me"
    using directory_acquired
    by (cases s) (fastforce simp: session_huddle_directory_def and_then_eq_Inr owned_by_def split: prod.splits acquire_result.splits)
next
  fix s s' :: "'a \<times> net" and me c sid w
  assume "(\<lambda>(r, _). store_ok E r) s" "length me = 32" "hd_acquire (session_huddle_directory E ttl) c sid me s = (s', Inr (Held w))"
  then show "(\<lambda>(r, _). owned_by E r) s c sid w"
    using directory_acquired
    by (cases s) (fastforce simp: session_huddle_directory_def and_then_eq_Inr owned_by_def split: prod.splits acquire_result.splits)
next
  fix s c f
  assume "(\<lambda>(r, _). store_ok E r) s" "hd_validate (session_huddle_directory E ttl) c f s = Inr ()"
  then show "(\<lambda>(r, _). owned_by E r) s c (fh_session_id f) \<lparr>ow_owner_runtime_id = fh_owner_runtime_id f, ow_generation = fh_generation f\<rparr>"
    using directory_validated by (cases s) (fastforce simp: session_huddle_directory_def owned_by_def ownership_of_def fenced_header_of_def)
qed

text \<open>C14. A join is routed to the owner the directory arbitrates, and never to an owner without a renewer:
  whatever happens to the lease between the calls, a join that is resolved found, at one of at most
  25 attempts, either a lease it just took itself, or a live lease of another runtime that the
  directory had just validated, or a live lease of this runtime for which the registry holds an
  entry.\<close>

theorem join_routed_to_owner:
  assumes "resolve_join_owner_ready (session_huddle_directory E ttl) c sid me attempts = Inr j" and "length me = 32"
    and "\<forall>i. \<forall>s\<in>{fst (fst (attempts i)), fst (snd (fst (attempts i))), snd (snd (fst (attempts i)))}. store_ok E (fst s)"
  shows "\<exists>i<25. case fst (attempts i) of ((r1, _), (r2, _), (r3, _)) \<Rightarrow>
    (case rj_acquired j of
       Some l \<Rightarrow> rj_outcome j = LocalOwner (sl_generation l) \<and> sl_owner_runtime_id l = me
         \<and> owned_by E (fst (fst (resolve_join (session_huddle_directory E ttl) c sid me (fst (attempts i))))) c sid (ownership_of l)
     | None \<Rightarrow> (case rj_outcome j of
         LocalOwner g \<Rightarrow> snd (attempts i) \<and> (\<exists>r\<in>{r1, r2}. owned_by E r c sid \<lparr>ow_owner_runtime_id = me, ow_generation = g\<rparr>)
       | RemoteOwner owner g \<Rightarrow> owner \<noteq> me \<and> owned_by E r3 c sid \<lparr>ow_owner_runtime_id = owner, ow_generation = g\<rparr>))"
proof -
  obtain i where i: "i < 25" "snd (resolve_join (session_huddle_directory E ttl) c sid me (fst (attempts i))) = Inr j"
      "snd (attempts i) \<or> rj_acquired j \<noteq> None \<or> (\<exists>owner g. rj_outcome j = RemoteOwner owner g)"
    using redis_huddles.loop_attempt [OF assms(1) [unfolded resolve_join_owner_ready_def]]
    by (auto simp: OWNER_READY_MAX_ATTEMPTS_def)
  obtain r1 n1 r2 n2 r3 n3 where m: "fst (attempts i) = ((r1, n1), (r2, n2), (r3, n3))" by (metis prod.collapse)
  obtain r' n' where r': "resolve_join (session_huddle_directory E ttl) c sid me ((r1, n1), (r2, n2), (r3, n3)) = ((r', n'), Inr j)"
    using i(2) m by (metis prod.collapse snd_conv)
  have "store_ok E r1" "store_ok E r2" "store_ok E r3" using assms(3) m by (metis fst_conv insertCI snd_conv)+
  then have "redis_huddles.routed E ((r1, n1), (r2, n2), (r3, n3)) c sid me (r', n') j"
    using redis_huddles.resolve_routed [OF _ _ _ assms(2) r'] by simp
  then show ?thesis
    using i(1,3) m r' by (intro exI [of _ i]) (auto simp: redis_huddles.routed_def split: option.splits join_outcome.splits)
qed

subsection \<open>Media under the fence\<close>

text \<open>
  What happens to the fence of a runtime: a datagram arrives, or a session is forgotten, which the socket
  handler does when the owner drains or loses its lease, and when it tears down a huddle of another runtime.
\<close>

datatype media_event = Arrives mesh_datagram | Forgets uuid

fun media_event_step :: "media_event \<Rightarrow> room_manager \<times> generation_floor \<Rightarrow> fence_verdict option \<times> room_manager \<times> generation_floor" where
  "media_event_step (Arrives d) st = (let (v, st') = on_media_datagram d st in (Some v, st'))"
| "media_event_step (Forgets sid) (rooms, seen) = (None, rooms, forget_session sid seen)"

fun media_all :: "media_event list \<Rightarrow> room_manager \<times> generation_floor \<Rightarrow> fence_verdict option list \<times> room_manager \<times> generation_floor" where
  "media_all [] st = ([], st)"
| "media_all (ev # evs) st = (let (v, st') = media_event_step ev st; (vs, st'') = media_all evs st' in (v # vs, st''))"

definition accepted_at :: "media_event list \<Rightarrow> fence_verdict option list \<Rightarrow> nat \<Rightarrow> mesh_datagram \<Rightarrow> bool" where
  "accepted_at evs vs i d \<longleftrightarrow> i < length evs \<and> i < length vs \<and> evs ! i = Arrives d \<and> (\<exists>b. vs ! i = Some (Accept b))"

abbreviation datagram_session :: "mesh_datagram \<Rightarrow> uuid" where "datagram_session d \<equiv> fh_session_id (md_fenced d)"
abbreviation datagram_generation :: "mesh_datagram \<Rightarrow> nat" where "datagram_generation d \<equiv> fh_generation (md_fenced d)"

definition floor_of :: "generation_floor \<Rightarrow> uuid \<Rightarrow> nat" where
  "floor_of seen sid = (case map_of seen sid of None \<Rightarrow> 0 | Some g \<Rightarrow> g)"

lemma check_generation_floor:
  assumes "check_generation sid g seen = (v, seen')"
  shows "case v of Accept _ \<Rightarrow> floor_of seen sid \<le> g \<and> floor_of seen' = (floor_of seen)(sid := g)
    | RejectStale known \<Rightarrow> g < known \<and> known = floor_of seen sid \<and> seen' = seen"
  using assms by (auto simp: check_generation_def floor_of_def fun_eq_iff split: option.splits if_splits)

lemma media_floor:
  assumes "on_media_datagram d (rooms, seen) = (v, rooms', seen')"
  shows "case v of Accept _ \<Rightarrow> floor_of seen (datagram_session d) \<le> datagram_generation d
      \<and> floor_of seen' = (floor_of seen)(datagram_session d := datagram_generation d)
    | RejectStale known \<Rightarrow> datagram_generation d < known \<and> known = floor_of seen (datagram_session d) \<and> seen' = seen \<and> rooms' = rooms"
proof -
  obtain w seen1 where w: "check_generation (datagram_session d) (datagram_generation d) seen = (w, seen1)"
    by (cases "check_generation (datagram_session d) (datagram_generation d) seen")
  then show ?thesis
    using check_generation_floor [OF w] assms by (cases w) (auto simp: on_media_datagram_def Let_def)
qed

lemma accepted_at_Cons:
  "accepted_at (ev # evs) (v # vs) i d \<longleftrightarrow>
     (case i of 0 \<Rightarrow> ev = Arrives d \<and> (\<exists>b. v = Some (Accept b)) | Suc j \<Rightarrow> accepted_at evs vs j d)"
  by (auto simp: accepted_at_def split: nat.split)

text \<open>As long as a session is not forgotten, what is accepted for it is at or above the floor.\<close>

lemma accepted_above_floor:
  "media_all evs (rooms, seen) = (vs, st') \<Longrightarrow> accepted_at evs vs j d \<Longrightarrow> \<forall>k<j. evs ! k \<noteq> Forgets (datagram_session d) \<Longrightarrow>
     floor_of seen (datagram_session d) \<le> datagram_generation d"
proof (induction evs arbitrary: rooms seen vs j)
  case (Cons ev evs)
  obtain v rooms' seen' where v: "media_event_step ev (rooms, seen) = (v, rooms', seen')" by (metis prod_cases3)
  obtain ws where ws: "media_all evs (rooms', seen') = (ws, st')" "vs = v # ws"
    using Cons.prems(1) v by (auto simp: Let_def split: prod.splits)
  show ?case
  proof (cases j)
    case 0
    then show ?thesis
      using Cons.prems(2) ws(2) v media_floor by (fastforce simp: accepted_at_Cons split: prod.splits)
  next
    case (Suc j')
    then have "accepted_at evs ws j' d" "\<forall>k<j'. evs ! k \<noteq> Forgets (datagram_session d)" "ev \<noteq> Forgets (datagram_session d)"
      using Cons.prems(2,3) ws(2) by (auto simp: accepted_at_Cons)
    then have IH: "floor_of seen' (datagram_session d) \<le> datagram_generation d" "ev \<noteq> Forgets (datagram_session d)"
      using Cons.IH [OF ws(1)] by blast+
    have "floor_of seen (datagram_session d) \<le> floor_of seen' (datagram_session d)"
    proof (cases ev)
      case (Arrives a)
      then obtain w where "on_media_datagram a (rooms, seen) = (w, rooms', seen')" using v by (auto split: prod.splits)
      then show ?thesis using media_floor by (fastforce split: fence_verdict.splits)
    next
      case (Forgets sid)
      then show ?thesis using v IH(2) by (auto simp: forget_session_def floor_of_def delete_conv')
    qed
    then show ?thesis using IH(1) by simp
  qed
qed (simp add: accepted_at_def)

lemma accepted_in_order:
  "media_all evs (rooms, seen) = (vs, st') \<Longrightarrow> accepted_at evs vs i a \<Longrightarrow> accepted_at evs vs j b \<Longrightarrow> i < j \<Longrightarrow>
     datagram_session a = datagram_session b \<Longrightarrow> \<forall>k. i < k \<and> k < j \<longrightarrow> evs ! k \<noteq> Forgets (datagram_session b) \<Longrightarrow>
     datagram_generation a \<le> datagram_generation b"
proof (induction evs arbitrary: rooms seen vs i j)
  case (Cons ev evs)
  obtain v rooms' seen' where v: "media_event_step ev (rooms, seen) = (v, rooms', seen')" by (metis prod_cases3)
  obtain ws where ws: "media_all evs (rooms', seen') = (ws, st')" "vs = v # ws"
    using Cons.prems(1) v by (auto simp: Let_def split: prod.splits)
  obtain j' where j: "j = Suc j'" using Cons.prems(4) by (cases j) auto
  have later: "accepted_at evs ws j' b" using Cons.prems(3) ws(2) j by (simp add: accepted_at_Cons)
  show ?case
  proof (cases i)
    case 0
    then obtain w where w: "on_media_datagram a (rooms, seen) = (Accept w, rooms', seen')"
      using Cons.prems(2) ws(2) v by (auto simp: accepted_at_Cons split: prod.splits)
    have "\<forall>k<j'. evs ! k \<noteq> Forgets (datagram_session b)" using Cons.prems(6) 0 j by force
    then have "floor_of seen' (datagram_session b) \<le> datagram_generation b" by (rule accepted_above_floor [OF ws(1) later])
    then show ?thesis using media_floor [OF w] Cons.prems(5) by simp
  next
    case (Suc i')
    have "\<forall>k. i' < k \<and> k < j' \<longrightarrow> evs ! k \<noteq> Forgets (datagram_session b)"
      using Cons.prems(6) Suc j by (metis Suc_mono nth_Cons_Suc)
    then show ?thesis using Cons.IH [OF ws(1) _ later] Cons.prems(2,4,5) ws(2) Suc j by (simp add: accepted_at_Cons)
  qed
qed (simp add: accepted_at_def)

lemma forgotten_accepts:
  "media_all evs (rooms, seen) = (vs, rooms', seen') \<Longrightarrow> evs \<noteq> [] \<Longrightarrow> last evs = Forgets sid \<Longrightarrow> map_of seen' sid = None"
proof (induction evs arbitrary: rooms seen vs)
  case (Cons ev evs)
  then show ?case
    by (cases "evs = []") (auto simp: Let_def forget_session_def delete_conv' split: prod.splits)
qed simp

lemma unambiguous_iff:
  assumes "distinct (map fst rooms)"
  shows "get_unambiguous_by_channel ch rooms = Some (key, r) \<longleftrightarrow>
    snd key = ch \<and> map_of rooms key = Some r \<and> (\<forall>key' r'. map_of rooms key' = Some r' \<longrightarrow> snd key' = ch \<longrightarrow> key' = key)"
proof -
  let ?f = "filter (\<lambda>((c, ch'), r). ch' = ch) rooms"
  have mem: "(k, r') \<in> set ?f \<longleftrightarrow> map_of rooms k = Some r' \<and> snd k = ch" for k r'
    using assms by (cases k) auto
  have d: "distinct (map fst ?f)" using assms by (rule distinct_map_filter)
  show ?thesis
  proof
    assume "get_unambiguous_by_channel ch rooms = Some (key, r)"
    then have "?f = [(key, r)]" by (auto simp: get_unambiguous_by_channel_def split: list.splits)
    then show "snd key = ch \<and> map_of rooms key = Some r \<and> (\<forall>key' r'. map_of rooms key' = Some r' \<longrightarrow> snd key' = ch \<longrightarrow> key' = key)"
      using mem by (metis (no_types, lifting) empty_iff empty_set fst_conv list.set_intros(1) set_ConsD)
  next
    assume a: "snd key = ch \<and> map_of rooms key = Some r \<and> (\<forall>key' r'. map_of rooms key' = Some r' \<longrightarrow> snd key' = ch \<longrightarrow> key' = key)"
    then have "set ?f = {(key, r)}" using mem by fastforce
    then have "length ?f = 1" using d distinct_card [of ?f] by (simp add: distinct_map)
    then have "?f = [(key, r)]" using \<open>set ?f = {(key, r)}\<close> by (cases ?f) auto
    then show "get_unambiguous_by_channel ch rooms = Some (key, r)" by (simp add: get_unambiguous_by_channel_def)
  qed
qed

text \<open>C28. Media is fenced and stays in its huddle. Let datagrams arrive, in any order, and sessions be forgotten
  in between: of two datagrams accepted for a session the later one has no smaller generation, unless the
  session was forgotten between them, after which any generation is accepted again; a rejected datagram changes
  nothing; and an accepted one is delivered to the peers of the one room with this channel, its author
  excepted, and to no other room, and to nobody when two communities have a room of that channel.\<close>

theorem media_fenced:
  assumes "media_all evs (rooms, seen) = (vs, rooms', seen')" and "on_media_datagram d (rooms', seen') = (v, rooms'', seen'')"
    and "distinct (map fst rooms')"
  shows "(\<forall>i j a b. accepted_at evs vs i a \<and> accepted_at evs vs j b \<and> i < j \<and> datagram_session a = datagram_session b \<and>
        (\<forall>k. i < k \<and> k < j \<longrightarrow> evs ! k \<noteq> Forgets (datagram_session b)) \<longrightarrow> datagram_generation a \<le> datagram_generation b)
    \<and> (\<forall>known. v = RejectStale known \<longrightarrow> seen'' = seen' \<and> datagram_generation d < known)
    \<and> (evs \<noteq> [] \<and> last evs = Forgets (datagram_session d) \<longrightarrow> v = Accept False)
    \<and> (\<forall>key. map_of rooms'' key =
        (case (v, map_of rooms' key, md_payload d) of
           (Accept _, Some r, i # frame) \<Rightarrow>
             if snd key = datagram_session d \<and> (\<forall>key'\<in>fst ` set rooms'. snd key' = datagram_session d \<longrightarrow> key' = key)
             then Some (deliver_prefixed i (i # frame) r) else Some r
         | (_, r, _) \<Rightarrow> r))"
proof -
  have one: "map_of rooms'' key =
        (case (v, map_of rooms' key, md_payload d) of
           (Accept _, Some r, i # frame) \<Rightarrow>
             if snd key = datagram_session d \<and> (\<forall>key'\<in>fst ` set rooms'. snd key' = datagram_session d \<longrightarrow> key' = key)
             then Some (deliver_prefixed i (i # frame) r) else Some r
         | (_, r, _) \<Rightarrow> r)" for key
  proof (cases v)
    case (RejectStale known)
    then show ?thesis using media_floor [OF assms(2)] by simp
  next
    case (Accept b)
    have keys: "key' \<in> fst ` set rooms' \<longleftrightarrow> (\<exists>r. map_of rooms' key' = Some r)" for key'
      using map_of_eq_None_iff [of rooms' key'] by auto
    have rooms: "rooms'' = (case get_unambiguous_by_channel (datagram_session d) rooms' of None \<Rightarrow> rooms' | Some (key, r) \<Rightarrow>
        (case md_payload d of [] \<Rightarrow> rooms' | i # frame \<Rightarrow> AList.update key (deliver_prefixed i (i # frame) r) rooms'))"
      using assms(2) Accept by (auto simp: on_media_datagram_def Let_def split: prod.splits fence_verdict.splits)
    show ?thesis
    proof (cases "get_unambiguous_by_channel (datagram_session d) rooms'")
      case None
      have "\<not> (snd key = datagram_session d \<and> (\<forall>key'\<in>fst ` set rooms'. snd key' = datagram_session d \<longrightarrow> key' = key))"
        if "map_of rooms' key = Some r" for r
        using None unambiguous_iff [OF assms(3), of "datagram_session d" key r] that keys by (metis option.distinct(1))
      then show ?thesis using rooms None Accept by (cases "map_of rooms' key") (auto split: list.splits)
    next
      case (Some e)
      obtain key0 r0 where e: "e = (key0, r0)" by (cases e)
      then have u: "snd key0 = datagram_session d" "map_of rooms' key0 = Some r0"
          "\<And>key' r'. map_of rooms' key' = Some r' \<Longrightarrow> snd key' = datagram_session d \<Longrightarrow> key' = key0"
        using Some unambiguous_iff [OF assms(3)] by auto
      have only: "snd key = datagram_session d \<and> (\<forall>key'\<in>fst ` set rooms'. snd key' = datagram_session d \<longrightarrow> key' = key) \<longleftrightarrow> key = key0"
        if "map_of rooms' key = Some r" for r
        using u keys that by metis
      have upd: "map_of rooms'' key = (case md_payload d of [] \<Rightarrow> map_of rooms' key
          | i # frame \<Rightarrow> if key = key0 then Some (deliver_prefixed i (i # frame) r0) else map_of rooms' key)"
        using rooms Some e by (simp add: update_conv' split: list.splits)
      show ?thesis
      proof (cases "map_of rooms' key")
        case None
        then show ?thesis using upd u(2) by (auto split: fence_verdict.splits list.splits)
      next
        case mine: (Some r)
        then show ?thesis unfolding upd mine Accept using only [OF mine] u(2) mine by (auto split: list.splits)
      qed
    qed
  qed
  have "v = Accept False" if "evs \<noteq> []" "last evs = Forgets (datagram_session d)"
    using forgotten_accepts [OF assms(1) that] assms(2)
    by (auto simp: on_media_datagram_def check_generation_def Let_def split: option.splits)
  moreover have "seen'' = seen' \<and> datagram_generation d < known" if "v = RejectStale known" for known
    using media_floor [OF assms(2)] that by simp
  ultimately show ?thesis using accepted_in_order [OF assms(1)] one by blast
qed

subsection \<open>An empty room left behind\<close>

text \<open>
  Everything that happens to the rooms and the fence of a runtime later on, except that nobody cleans up the
  room \<open>key\<close>: media events, the handlers and the end of any control stream, calls of the tasks of any room, and
  sockets that open a room or clean one up.
\<close>

inductive huddle_step :: "uuid \<times> uuid \<Rightarrow> room_manager \<times> generation_floor \<Rightarrow> room_manager \<times> generation_floor \<Rightarrow> bool" for key where
  media: "media_event_step ev st = (v, st') \<Longrightarrow> huddle_step key st st'"
| control: "serve_control_msg json draining validate k sid msg (rooms, cs) = (replies, (rooms', cs'), e) \<Longrightarrow>
    huddle_step key (rooms, seen) (rooms', seen)"
| roster: "serve_roster_event sid ev (rooms, cs) = (msgs, (rooms', cs'), e) \<Longrightarrow> huddle_step key (rooms, seen) (rooms', seen)"
| teardown: "huddle_step key (rooms, seen) (control_teardown json sid cs rooms, seen)"
| call: "get_room c ch rooms = Some r \<Longrightarrow> room_exec op r = (reply, r') \<Longrightarrow>
    huddle_step key (rooms, seen) (AList.update (c, ch) r' rooms, seen)"
| opens: "get_or_create c ch rooms = (r, rooms') \<Longrightarrow> huddle_step key (rooms, seen) (rooms', seen)"
| cleanup: "cleanup_if_empty c ch rooms = (b, rooms') \<Longrightarrow> (c, ch) \<noteq> key \<Longrightarrow> huddle_step key (rooms, seen) (rooms', seen)"

lemma update_keeps: "key \<in> fst ` set rooms \<Longrightarrow> key \<in> fst ` set (AList.update key' r rooms)"
  by (simp add: dom_update)

lemma with_room_keeps: "key \<in> fst ` set rooms \<Longrightarrow> key \<in> fst ` set (with_room community sid f rooms)"
  by (simp add: with_room_def dom_update split: option.split)

lemma opened_keeps: "get_or_create c ch rooms = (r, rooms') \<Longrightarrow> key \<in> fst ` set rooms \<Longrightarrow> key \<in> fst ` set rooms'"
  by (cases "map_of rooms (c, ch)") (simp_all add: get_or_create_def, metis update_keeps)

lemma control_keeps:
  assumes "serve_control_msg json draining validate k sid msg (rooms, cs) = (replies, (rooms', cs'), e)" and "key \<in> fst ` set rooms"
  shows "key \<in> fst ` set rooms'"
proof (cases msg)
  case (RegisterPeer c pk v)
  have room: "get_room c ch rooms \<noteq> None \<longleftrightarrow> (c, ch) \<in> fst ` set rooms" for c ch rooms
    by (simp add: get_room_def map_of_eq_None_iff)
  from assms(1) [unfolded RegisterPeer] show ?thesis
  proof (cases rule: register_cases)
    case refused
    then show ?thesis using assms(2) update_keeps by metis
  next
    case (handled r r')
    then have "get_room (fst key) (snd key) rooms' \<noteq> None"
      using assms(2) room [of "fst key" "snd key" rooms] by (cases "key = (c, sid)") auto
    then show ?thesis using room [of "fst key" "snd key" rooms'] by simp
  qed
next
  case (UnregisterPeer pk)
  then have "rooms' = rooms \<or> (\<exists>f. rooms' = with_room (cs_community cs) sid f rooms)"
    using assms(1) by (auto simp: serve_control_msg_def split: option.splits)
  then show ?thesis using assms(2) with_room_keeps by metis
qed (use assms in \<open>auto simp: serve_control_msg_def split: option.splits\<close>)

lemma media_keeps:
  assumes "on_media_datagram d (rooms, seen) = (v, rooms', seen')" and "key \<in> fst ` set rooms"
  shows "key \<in> fst ` set rooms'"
proof -
  have "rooms' = rooms \<or> (\<exists>key r. rooms' = AList.update key r rooms)"
    using assms(1) by (auto simp: on_media_datagram_def Let_def split: prod.splits fence_verdict.splits option.splits list.splits)
  then show ?thesis using assms(2) by (elim disjE exE) (simp_all add: dom_update)
qed

lemma step_keeps: "huddle_step key (rooms, seen) (rooms', seen') \<Longrightarrow> key \<in> fst ` set rooms \<Longrightarrow> key \<in> fst ` set rooms'"
proof (induction "(rooms, seen)" "(rooms', seen')" rule: huddle_step.induct)
  case (media ev v)
  then show ?case by (cases ev) (auto intro: media_keeps split: prod.splits)
next
  case (control json draining validate k sid msg cs replies cs' e)
  then show ?case using control_keeps by blast
next
  case (roster sid ev cs msgs cs' e)
  then show ?case by (auto simp: serve_roster_event_def split: option.splits roster_event.splits if_splits)
next
  case (cleanup c ch b)
  then show ?case by (auto simp: cleanup_if_empty_def AList.delete_eq split: option.splits if_splits)
next
  case (teardown json sid cs)
  then show ?case unfolding control_teardown_def by (metis with_room_keeps)
next
  case (call c ch r op reply r')
  then show ?case by (metis update_keeps)
next
  case (opens c ch r)
  then show ?case using opened_keeps by blast
qed

lemma steps_keep: "(huddle_step key)\<^sup>*\<^sup>* st st' \<Longrightarrow> key \<in> fst ` set (fst st) \<Longrightarrow> key \<in> fst ` set (fst st')"
  by (induction rule: rtranclp_induct) (metis prod.collapse step_keeps)+

text \<open>A datagram reaches at most the room that is there already.\<close>

lemma blocked_media:
  assumes "(c', sid) \<in> fst ` set rooms" and "datagram_session d = sid" and "c \<noteq> c'"
  shows "get_room c sid (fst (snd (on_media_datagram d (rooms, seen)))) = get_room c sid rooms"
proof (cases "get_unambiguous_by_channel sid rooms")
  case None
  then show ?thesis using assms(2) by (auto simp: on_media_datagram_def Let_def split: prod.splits fence_verdict.splits)
next
  case (Some e)
  then have "filter (\<lambda>((c, ch'), r). ch' = sid) rooms = [e]" by (auto simp: get_unambiguous_by_channel_def split: list.splits)
  moreover obtain r where "((c', sid), r) \<in> set (filter (\<lambda>((c, ch'), r). ch' = sid) rooms)" using assms(1) by auto
  ultimately have "fst e = (c', sid)" by auto
  then show ?thesis
    using assms(2,3) Some by (cases e) (auto simp: on_media_datagram_def Let_def split: prod.splits fence_verdict.splits list.splits)
qed

text \<open>C39. A registration that the fence refuses is not without effect. When it names a community that has no
  room of this channel, a new, empty room of that community stays behind; and at any later moment, whatever
  happens to the rooms and the fence, a media datagram of the channel reaches no peer of any other community's room
  of the channel, although that room has its peers. Only cleaning up the room left behind, which a
  socket of a client of the named community does when it leaves or fails to join this channel, ends that.\<close>

theorem refused_registration_blocks_media:
  assumes "get_room c sid rooms = Some r" and "get_room c' sid rooms = None"
    and "validate c' = Inl e" and "from_mesh_error e = Some reason" and "cs_community cs = None"
  shows "\<exists>rooms' cs'. serve_control_msg json False validate k sid (RegisterPeer c' pk v) (rooms, cs) =
      ([RegisterRejected pk (Fenced reason)], (rooms', cs'), None)
    \<and> get_room c sid rooms' = Some r \<and> get_room c' sid rooms' = Some (new_room c' sid) \<and> rm_peers (new_room c' sid) = []
    \<and> (\<forall>seen rooms'' seen''. (huddle_step (c', sid))\<^sup>*\<^sup>* (rooms', seen) (rooms'', seen'') \<longrightarrow>
        get_room c' sid rooms'' \<noteq> None \<and>
        (\<forall>d c2. datagram_session d = sid \<and> c2 \<noteq> c' \<longrightarrow>
          get_room c2 sid (fst (snd (on_media_datagram d (rooms'', seen'')))) = get_room c2 sid rooms''))"
proof -
  let ?rooms = "AList.update (c', sid) (new_room c' sid) rooms"
  have c: "c \<noteq> c'" using assms(1,2) by auto
  have served: "serve_control_msg json False validate k sid (RegisterPeer c' pk v) (rooms, cs) =
      ([RegisterRejected pk (Fenced reason)], (?rooms, cs\<lparr>cs_community := Some c'\<rparr>), None)"
    using assms(2-5) by (simp add: serve_control_msg_def get_or_create_def get_room_def Let_def)
  have kept: "(c', sid) \<in> fst ` set rooms''" if "(huddle_step (c', sid))\<^sup>*\<^sup>* (?rooms, seen) (rooms'', seen'')" for seen rooms'' seen''
    using steps_keep [OF that] by (simp add: dom_update)
  have "get_room c' sid rooms'' \<noteq> None \<and> (\<forall>d c2. datagram_session d = sid \<and> c2 \<noteq> c' \<longrightarrow>
      get_room c2 sid (fst (snd (on_media_datagram d (rooms'', seen'')))) = get_room c2 sid rooms'')"
    if "(huddle_step (c', sid))\<^sup>*\<^sup>* (?rooms, seen) (rooms'', seen'')" for seen rooms'' seen''
    using kept [OF that] blocked_media [OF kept [OF that]] by (auto simp: get_room_def map_of_eq_None_iff)
  moreover have "get_room c sid ?rooms = Some r" "get_room c' sid ?rooms = Some (new_room c' sid)" "rm_peers (new_room c' sid) = []"
    using assms(1) c by (simp_all add: new_room_def)
  ultimately show ?thesis using served by blast
qed

subsection \<open>Witnesses\<close>

definition demo_fence :: "nat \<Rightarrow> fenced_header" where
  "demo_fence g = \<lparr>fh_session_id = 9, fh_generation = g, fh_owner_runtime_id = []\<rparr>"

theorem media_fenced_witness:
  "map_option (\<lambda>r. map (\<lambda>(_, p). ap_audio p) (rm_peers r)) (map_of (fst (snd (on_media_datagram (media_datagram 0 (demo_fence 3) 1 [65])
       ([((7, 9), two_peers)], [(9, 3)])))) (7, 9)) = Some [[], [[0, 65]]] \<and>
   (\<exists>st. media_all [Forgets 9] ([((7, 9), two_peers)], [(9, 3)]) = ([None], st) \<and>
     fst (on_media_datagram (media_datagram 0 (demo_fence 1) 1 [65]) st) = Accept False)"
proof -
  let ?st = "([((7, 9), two_peers)], [(9, 3)]) :: room_manager \<times> generation_floor"
  obtain v rooms seen where d: "on_media_datagram (media_datagram 0 (demo_fence 3) 1 [65]) ?st = (v, rooms, seen)" by (metis prod_cases3)
  have v: "v = Accept False" using d by (auto simp: on_media_datagram_def check_generation_def demo_fence_def media_datagram_def)
  have "map_of rooms (7, 9) = Some (deliver_prefixed 0 [0, 65] two_peers)"
    using conjunct2 [OF conjunct2 [OF conjunct2 [OF media_fenced [OF media_all.simps(1) d]]], rule_format, of "(7, 9)"]
    by (simp add: v media_datagram_def demo_fence_def)
  then have delivered: "map_option (\<lambda>r. map (\<lambda>(_, p). ap_audio p) (rm_peers r)) (map_of rooms (7, 9)) = Some [[], [[0, 65]]]"
    by (simp add: deliver_prefixed_def two_peers_peers send_audio_def try_send_def AUDIO_CHANNEL_CAPACITY_def)
  have forgot: "media_all [Forgets 9] ?st = ([None], [((7, 9), two_peers)], [])" by (simp add: forget_session_def)
  obtain w rooms2 seen2 where w: "on_media_datagram (media_datagram 0 (demo_fence 1) 1 [65]) ([((7, 9), two_peers)], []) = (w, rooms2, seen2)"
    by (metis prod_cases3)
  have "w = Accept False" using media_fenced [OF forgot w] by (simp add: media_datagram_def demo_fence_def)
  then show ?thesis using delivered d forgot w by simp
qed

text \<open>After the refusal a third peer joins the huddle, and a datagram then reaches nobody.\<close>

theorem refused_registration_blocks_media_witness:
  "\<exists>rooms cs three. serve_control_msg (\<lambda>_. []) False (\<lambda>_. Inl (NoActiveLease 9 1 0 [])) 3 9 (RegisterPeer 8 ''c'' 2) ([((7, 9), two_peers)], new_control_stream)
      = ([RegisterRejected ''c'' (Fenced RejNoActiveLease)], (rooms, cs), None)
    \<and> get_room 8 9 rooms = Some (new_room 8 9)
    \<and> room_exec (AddPeer 3 ''c'' 2) two_peers = (Admitted 2, three) \<and> length (rm_peers three) = 3
    \<and> get_room 7 9 (fst (snd (on_media_datagram (media_datagram 0 (demo_fence 3) 1 [65]) (AList.update (7, 9) three rooms, [])))) = Some three"
proof -
  have h: "get_room 7 9 [((7, 9), two_peers)] = Some two_peers" "get_room 8 9 [((7, 9), two_peers)] = None"
      "cs_community new_control_stream = None"
    by (simp_all add: get_room_def new_control_stream_def)
  obtain rooms cs where r: "serve_control_msg (\<lambda>_. []) False (\<lambda>_. Inl (NoActiveLease 9 1 0 [])) 3 9 (RegisterPeer 8 ''c'' 2) ([((7, 9), two_peers)], new_control_stream)
      = ([RegisterRejected ''c'' (Fenced RejNoActiveLease)], (rooms, cs), None)"
      "get_room 7 9 rooms = Some two_peers" "get_room 8 9 rooms = Some (new_room 8 9)"
    and later: "\<forall>seen rooms'' seen''. (huddle_step (8, 9))\<^sup>*\<^sup>* (rooms, seen) (rooms'', seen'') \<longrightarrow>
        get_room 8 9 rooms'' \<noteq> None \<and>
        (\<forall>d c2. datagram_session d = 9 \<and> c2 \<noteq> 8 \<longrightarrow>
          get_room c2 9 (fst (snd (on_media_datagram d (rooms'', seen'')))) = get_room c2 9 rooms'')"
    using refused_registration_blocks_media [of 7 9 "[((7, 9), two_peers)]" two_peers 8 "\<lambda>_. Inl (NoActiveLease 9 1 0 [])"
        "NoActiveLease 9 1 0 []" RejNoActiveLease new_control_stream "\<lambda>_. []" 3 "''c''" 2] h by auto
  obtain three where three: "room_exec (AddPeer 3 ''c'' 2) two_peers = (Admitted 2, three)" "length (rm_peers three) = 3"
    by (simp add: two_peers_def one_peer_eq room_eval)
  have "(huddle_step (8, 9))\<^sup>*\<^sup>* (rooms, []) (AList.update (7, 9) three rooms, [])"
    using huddle_step.call [OF r(2) three(1)] by (rule r_into_rtranclp)
  moreover have "datagram_session (media_datagram 0 (demo_fence 3) 1 [65]) = 9" by (simp add: media_datagram_def demo_fence_def)
  ultimately have "get_room 7 9 (fst (snd (on_media_datagram (media_datagram 0 (demo_fence 3) 1 [65]) (AList.update (7, 9) three rooms, [])))) = Some three"
    using later by auto
  then show ?thesis using r three by blast
qed

theorem join_routed_to_owner_witness:
  "\<exists>l. resolve_join_owner_ready (session_huddle_directory demo_env 30000) 1 2 (demo_owner 7)
       (\<lambda>_. (((demo_empty, Delivered), (demo_empty, Delivered), (demo_empty, Delivered)), False)) =
       Inr \<lparr>rj_outcome = LocalOwner 1, rj_acquired = Some l\<rparr> \<and> sl_owner_runtime_id l = demo_owner 7"
proof -
  let ?D = "session_huddle_directory demo_env 30000"
  let ?l = "\<lparr>sl_community_id = 1, sl_session_id = 2, sl_owner_runtime_id = demo_owner 7, sl_generation = 1, sl_profile = HuddleControl\<rparr>"
  let ?a = "\<lambda>_::nat. (((demo_empty, Delivered), (demo_empty, Delivered), (demo_empty, Delivered)), False)"
  have ok: "store_ok demo_env demo_empty"
    using demo_laws demo_empty_stores(2) by (auto simp: store_ok_def demo_free_def intro!: exI [of _ "demo_free 0"])
  have len: "length (demo_owner 7) = 32" by (simp add: demo_owner_def)
  obtain r' res where a: "acquire demo_env Delivered 30000 1 2 (demo_owner 7) HuddleControl demo_empty = (r', res)"
    by (cases "acquire demo_env Delivered 30000 1 2 (demo_owner 7) HuddleControl demo_empty")
  have "st_generation (demo_free 0 (1, 2)) + 1 < 10 ^ 14" by (simp add: demo_free_def)
  from acquire_exact [OF demo_laws demo_empty_stores(2) len this _ _ a]
  have "res = Inr (Acquired ?l)" unfolding demo_lease_of(1) by (simp add: demo_free_def)
  moreover have "lookup demo_env Delivered 1 2 demo_empty = Inr None"
    using lookup_exact(1) [OF demo_laws demo_empty_stores(2), of 1 2] by (simp add: demo_lease_of)
  ultimately have "snd (resolve_join ?D 1 2 (demo_owner 7) (fst (?a 0))) = Inr \<lparr>rj_outcome = LocalOwner 1, rj_acquired = Some ?l\<rparr>"
    using a by (simp add: resolve_join_def session_huddle_directory_def HUDDLE_CONTROL_PROFILE_def)
  then have r: "resolve_join_owner_ready ?D 1 2 (demo_owner 7) ?a = Inr \<lparr>rj_outcome = LocalOwner 1, rj_acquired = Some ?l\<rparr>"
    by (simp add: resolve_join_owner_ready_def OWNER_READY_MAX_ATTEMPTS_def upt_conv_Cons)
  then have "sl_owner_runtime_id ?l = demo_owner 7"
    using join_routed_to_owner [OF r len] ok by auto
  then show ?thesis using r by blast
qed

end
