(* ===== verification/Huddle_Registry.thy ===== *)
theory Huddle_Registry
  imports Huddle_Owner Tunnel
begin

section \<open>The registry of owned huddles\<close>

text \<open>
  Models \<open>HuddleOwnerRegistry\<close>, the huddle lease renewer and \<open>HuddleControlAcceptor::accept_inbound\<close> of
  \<open>buzz-relay/src/audio/join.rs\<close>. A cancellation token is a number, shared by whoever holds it; the
  registry knows which tokens are cancelled and which renewers were spawned. The operations other
  tasks can interrupt are split where they can: \<open>attach_signals\<close> into its check, its publication and
  its second look at the drain flag, \<open>drain_all\<close> into the flag, the collection and one drain per room.
\<close>

subsection \<open>The renewer\<close>

text \<open>What the renewer's select finds: the caller's cancellation (\<open>None\<close>), or a tick at some moment.\<close>

fun huddle_renewer_loop :: "'s huddle_directory \<Rightarrow> session_lease \<Rightarrow> 's option list \<Rightarrow> bool option" where
  "huddle_renewer_loop D lease [] = None"
| "huddle_renewer_loop D lease (None # rest) = Some True"
| "huddle_renewer_loop D lease (Some s # rest) =
     (case snd (hd_renew D lease s) of
        Inr (HuddleRenewed _) \<Rightarrow> huddle_renewer_loop D lease rest
      | Inr HuddleLost \<Rightarrow> Some False
      | Inl _ \<Rightarrow> Some False)"

text \<open>The whole task: the moment after its release, and whether the loss signal is cancelled; \<open>None\<close> while it runs.\<close>

definition huddle_renewer :: "'s huddle_directory \<Rightarrow> session_lease \<Rightarrow> 's option list \<Rightarrow> 's \<Rightarrow> ('s \<times> bool) option" where
  "huddle_renewer D lease events s =
     (case huddle_renewer_loop D lease events of
        None \<Rightarrow> None
      | Some caller_cancelled \<Rightarrow>
         (let lost = \<not> caller_cancelled; (s', released) = hd_release D lease s in
          Some (s', case released of
              Inr HuddleReleased \<Rightarrow> lost
            | Inr HuddleNotOwner \<Rightarrow> True
            | Inl _ \<Rightarrow> if \<not> caller_cancelled then True else lost)))"

subsection \<open>The registry\<close>

type_synonym cancellation_token = nat

record owner_entry =
  oe_lost :: cancellation_token
  oe_draining :: cancellation_token
  oe_cancel :: cancellation_token
  oe_generation :: nat

record owner_signals =
  os_lost :: cancellation_token
  os_draining :: cancellation_token

record renewer_task =
  rn_lease :: session_lease
  rn_cancel :: cancellation_token
  rn_lost :: cancellation_token

record owner_registry =
  or_entries :: "(uuid \<times> owner_entry) list"
  or_draining :: bool
  or_cancelled :: "cancellation_token list"
  or_next :: cancellation_token
  or_renewers :: "renewer_task list"

definition new_registry :: owner_registry where
  "new_registry = \<lparr>or_entries = [], or_draining = False, or_cancelled = [], or_next = 0, or_renewers = []\<rparr>"

definition new_token :: "owner_registry \<Rightarrow> cancellation_token \<times> owner_registry" where
  "new_token g = (or_next g, g\<lparr>or_next := Suc (or_next g)\<rparr>)"

definition cancel_token :: "cancellation_token \<Rightarrow> owner_registry \<Rightarrow> owner_registry" where
  "cancel_token t g = g\<lparr>or_cancelled := List.insert t (or_cancelled g)\<rparr>"

definition spawn_renewer :: "session_lease \<Rightarrow> cancellation_token \<Rightarrow> owner_registry \<Rightarrow> cancellation_token \<times> owner_registry" where
  "spawn_renewer lease cancel g = (let (lost, g) = new_token g in
     (lost, g\<lparr>or_renewers := \<lparr>rn_lease = lease, rn_cancel = cancel, rn_lost = lost\<rparr> # or_renewers g\<rparr>))"

text \<open>A renewer whose token is cancelled before it starts: all it does is release the lease.\<close>

definition release_extra :: "session_lease \<Rightarrow> owner_registry \<Rightarrow> owner_registry" where
  "release_extra lease g = (let (cancel, g) = new_token g in snd (spawn_renewer lease cancel (cancel_token cancel g)))"

definition lost_for :: "uuid \<Rightarrow> owner_registry \<Rightarrow> cancellation_token option" where
  "lost_for session_id g = map_option oe_lost (map_of (or_entries g) session_id)"

definition drain_for :: "uuid \<Rightarrow> owner_registry \<Rightarrow> cancellation_token option" where
  "drain_for session_id g = map_option oe_draining (map_of (or_entries g) session_id)"

definition owner_release :: "uuid \<Rightarrow> nat \<Rightarrow> owner_registry \<Rightarrow> owner_registry" where
  "owner_release session_id generation g = (case map_of (or_entries g) session_id of
     Some entry \<Rightarrow>
       if oe_generation entry = generation
       then cancel_token (oe_cancel entry) (g\<lparr>or_entries := AList.delete session_id (or_entries g)\<rparr>) else g
   | None \<Rightarrow> g)"

definition owner_drain :: "uuid \<Rightarrow> nat \<Rightarrow> owner_registry \<Rightarrow> bool \<times> owner_registry" where
  "owner_drain session_id generation g = (case map_of (or_entries g) session_id of
     Some entry \<Rightarrow>
       if oe_generation entry = generation
       then (True, cancel_token (oe_cancel entry) (cancel_token (oe_draining entry)
               (g\<lparr>or_entries := AList.delete session_id (or_entries g)\<rparr>)))
       else (False, g)
   | None \<Rightarrow> (False, g))"

text \<open>Up to the publication of the entry: the call is over, or the entry it is about to publish.\<close>

definition attach_begin :: "uuid \<Rightarrow> session_lease \<Rightarrow> owner_registry \<Rightarrow> (owner_signals + owner_entry) \<times> owner_registry" where
  "attach_begin session_id lease g =
     (if or_draining g
      then let g = release_extra lease g; (draining, g) = new_token g; g = cancel_token draining g; (lost, g) = new_token g
        in (Inl \<lparr>os_lost = lost, os_draining = draining\<rparr>, g)
      else case map_of (or_entries g) session_id of
        Some existing \<Rightarrow> (Inl \<lparr>os_lost = oe_lost existing, os_draining = oe_draining existing\<rparr>, release_extra lease g)
      | None \<Rightarrow>
         (let (cancel, g) = new_token g; (lost, g) = spawn_renewer lease cancel g; (draining, g) = new_token g
          in (Inr \<lparr>oe_lost = lost, oe_draining = draining, oe_cancel = cancel, oe_generation = sl_generation lease\<rparr>, g)))"

definition attach_publish :: "uuid \<Rightarrow> owner_entry \<Rightarrow> owner_registry \<Rightarrow> owner_registry" where
  "attach_publish session_id entry g = g\<lparr>or_entries := AList.update session_id entry (or_entries g)\<rparr>"

definition attach_finish :: "uuid \<Rightarrow> owner_entry \<Rightarrow> owner_registry \<Rightarrow> owner_registry" where
  "attach_finish session_id entry g =
     (if or_draining g
      then cancel_token (oe_cancel entry) (cancel_token (oe_draining entry) (snd (owner_drain session_id (oe_generation entry) g)))
      else g)"

definition attach_signals :: "uuid \<Rightarrow> session_lease \<Rightarrow> owner_registry \<Rightarrow> owner_signals \<times> owner_registry" where
  "attach_signals session_id lease g = (case attach_begin session_id lease g of
     (Inl signals, g) \<Rightarrow> (signals, g)
   | (Inr entry, g) \<Rightarrow> (\<lparr>os_lost = oe_lost entry, os_draining = oe_draining entry\<rparr>,
       attach_finish session_id entry (attach_publish session_id entry g)))"

definition drain_flag :: "owner_registry \<Rightarrow> owner_registry" where
  "drain_flag g = g\<lparr>or_draining := True\<rparr>"

definition drain_rooms :: "owner_registry \<Rightarrow> (uuid \<times> nat) list" where
  "drain_rooms g = map (\<lambda>(session_id, entry). (session_id, oe_generation entry)) (or_entries g)"

fun drain_each :: "(uuid \<times> nat) list \<Rightarrow> owner_registry \<Rightarrow> nat \<times> owner_registry" where
  "drain_each [] g = (0, g)"
| "drain_each ((session_id, generation) # rest) g =
     (let (drained, g) = owner_drain session_id generation g; (n, g) = drain_each rest g in ((if drained then Suc n else n), g))"

definition drain_all :: "owner_registry \<Rightarrow> nat \<times> owner_registry" where
  "drain_all g = (let g = drain_flag g in drain_each (drain_rooms g) g)"

subsection \<open>Accepting a control stream\<close>

definition accept_control_stream ::
    "runtime_id \<Rightarrow> runtime_id \<Rightarrow> stream_hello \<Rightarrow> owner_registry \<Rightarrow>
      (fenced_header \<times> cancellation_token option \<times> cancellation_token option, mesh_error) result" where
  "accept_control_stream local_runtime_id from_id hello g =
     (if sh_sender hello \<noteq> from_id then Inl Transport
      else case sh_role hello of
        SessionRole fenced profile \<Rightarrow>
          if profile \<noteq> HuddleControl then Inl Transport
          else if fh_owner_runtime_id fenced \<noteq> local_runtime_id
          then Inl (OwnerMismatch (fh_session_id fenced) (fh_generation fenced) (fh_owner_runtime_id fenced) local_runtime_id)
          else Inr (fenced, lost_for (fh_session_id fenced) g, drain_for (fh_session_id fenced) g)
      | _ \<Rightarrow> Inl Transport)"

subsection \<open>The two renewers\<close>

fun moment_of :: "renewer_event \<times> 'r \<Rightarrow> ('r \<times> net) option" where
  "moment_of (Cancelled, r) = None"
| "moment_of (Tick net, r) = Some (r, net)"

text \<open>The huddle renewer over the session directory is the renewer of the reliable lane: on the same
  ticks and the same store it ends at the same point, leaves the same store and signals the loss in
  exactly the same cases.\<close>

theorem huddle_renewer_mirrors_tunnel:
  "huddle_renewer (session_huddle_directory E ttl) lease (map moment_of events) (r, net) =
     map_option (\<lambda>(r', lost). ((r', net), lost)) (lease_renewer E ttl lease events net r)"
proof -
  have "huddle_renewer_loop (session_huddle_directory E ttl) lease (map moment_of events) = renewer_loop E ttl lease events"
  proof (induction events rule: renewer_loop.induct)
    case (3 E ttl lease net r rest)
    obtain r' res where n: "renew E net ttl lease r = (r', res)" by (cases "renew E net ttl lease r")
    then have "snd (hd_renew (session_huddle_directory E ttl) lease (r, net)) =
        (case res of Inl _ \<Rightarrow> Inl Transport | Inr (Renewed l) \<Rightarrow> Inr (HuddleRenewed l) | Inr (Lost _ _) \<Rightarrow> Inr HuddleLost)"
      by (simp add: session_huddle_directory_def split: sum.split renew_result.split)
    then show ?case using 3 n by (auto split: sum.splits renew_result.splits)
  qed simp_all
  then show ?thesis
    by (auto simp: huddle_renewer_def lease_renewer_def session_huddle_directory_def Let_def
        split: option.split prod.split sum.split release_result.split)
qed

subsection \<open>Attaching and draining at the same time\<close>

text \<open>
  The registry with the attaches under way (published or not yet) and the progress of \<open>drain_all\<close>. The
  last component lists the cancellation tokens of entries that a publication overwrote: two attaches
  of one session can pass the check before either publishes.
\<close>

datatype drain_phase = NotDraining | Collecting | DrainingRooms "(uuid \<times> nat) list" | Drained

type_synonym registry_run = "owner_registry \<times> (uuid \<times> owner_entry \<times> bool) list \<times> drain_phase \<times> cancellation_token list"

definition displaced_by :: "uuid \<Rightarrow> owner_registry \<Rightarrow> cancellation_token list" where
  "displaced_by session_id g = (case map_of (or_entries g) session_id of None \<Rightarrow> [] | Some e \<Rightarrow> [oe_cancel e])"

inductive registry_step :: "registry_run \<Rightarrow> registry_run \<Rightarrow> bool" where
  step_attach: "attach_begin sid lease g = (Inr e, g') \<Longrightarrow> registry_step (g, as, d, x) (g', (sid, e, False) # as, d, x)"
| step_attached: "attach_begin sid lease g = (Inl s, g') \<Longrightarrow> registry_step (g, as, d, x) (g', as, d, x)"
| step_publish: "registry_step (g, as @ (sid, e, False) # bs, d, x)
    (attach_publish sid e g, as @ (sid, e, True) # bs, d, displaced_by sid g @ x)"
| step_finish: "registry_step (g, as @ (sid, e, True) # bs, d, x) (attach_finish sid e g, as @ bs, d, x)"
| step_release: "registry_step (g, as, d, x) (owner_release sid n g, as, d, x)"
| step_drain: "registry_step (g, as, d, x) (snd (owner_drain sid n g), as, d, x)"
| step_flag: "registry_step (g, as, NotDraining, x) (drain_flag g, as, Collecting, x)"
| step_collect: "registry_step (g, as, Collecting, x) (g, as, DrainingRooms (drain_rooms g), x)"
| step_drain_room: "registry_step (g, as, DrainingRooms ((sid, n) # todo), x) (snd (owner_drain sid n g), as, DrainingRooms todo, x)"
| step_drained: "registry_step (g, as, DrainingRooms [], x) (g, as, Drained, x)"

inductive registry_reachable :: "registry_run \<Rightarrow> bool" where
  reachable_new: "registry_reachable (new_registry, [], NotDraining, [])"
| reachable_step: "registry_reachable s \<Longrightarrow> registry_step s s' \<Longrightarrow> registry_reachable s'"

text \<open>Who still answers for a renewer that nobody cancelled, and for an entry during a drain.\<close>

definition renewer_accounted :: "registry_run \<Rightarrow> renewer_task \<Rightarrow> bool" where
  "renewer_accounted s n = (case s of (g, as, d, x) \<Rightarrow>
     rn_cancel n \<in> set (or_cancelled g) \<or> rn_cancel n \<in> set x
     \<or> (\<exists>sid e. (sid, e) \<in> set (or_entries g) \<and> oe_cancel e = rn_cancel n)
     \<or> (\<exists>sid e. (sid, e, False) \<in> set as \<and> oe_cancel e = rn_cancel n))"

fun todo_of :: "drain_phase \<Rightarrow> (uuid \<times> nat) list" where
  "todo_of (DrainingRooms todo) = todo"
| "todo_of _ = []"

definition entry_accounted :: "registry_run \<Rightarrow> uuid \<Rightarrow> owner_entry \<Rightarrow> bool" where
  "entry_accounted s sid e = (case s of (g, as, d, x) \<Rightarrow>
     d \<in> {NotDraining, Collecting} \<or> (sid, oe_generation e) \<in> set (todo_of d)
     \<or> (\<exists>e'. (sid, e', True) \<in> set as \<and> oe_generation e' = oe_generation e))"

definition registry_inv :: "registry_run \<Rightarrow> bool" where
  "registry_inv s \<longleftrightarrow> (case s of (g, as, d, x) \<Rightarrow>
     distinct (map fst (or_entries g)) \<and> (or_draining g \<longleftrightarrow> d \<noteq> NotDraining)
     \<and> (\<forall>n\<in>set (or_renewers g). renewer_accounted s n)
     \<and> (\<forall>(sid, e)\<in>set (or_entries g). entry_accounted s sid e))"

text \<open>What the operations change.\<close>

lemmas token_defs = new_token_def cancel_token_def spawn_renewer_def release_extra_def

lemma attach_begin_effect:
  assumes "attach_begin sid lease g = (res, g')"
  shows "or_entries g' = or_entries g" "or_draining g' = or_draining g" "set (or_cancelled g) \<subseteq> set (or_cancelled g')"
    "\<forall>n\<in>set (or_renewers g'). n \<in> set (or_renewers g) \<or> rn_cancel n \<in> set (or_cancelled g') \<or> (\<exists>e. res = Inr e \<and> oe_cancel e = rn_cancel n)"
    "res = Inr e \<Longrightarrow> \<not> or_draining g"
  using assms by (auto simp: attach_begin_def token_defs Let_def split: if_splits option.splits)

text \<open>Both ways to take an entry out: only an entry of that generation, and its renewer is cancelled.\<close>

lemma retract_effect:
  assumes "g' = owner_release sid n g \<or> g' = snd (owner_drain sid n g)"
  shows "or_draining g' = or_draining g" "or_renewers g' = or_renewers g" "set (or_cancelled g) \<subseteq> set (or_cancelled g')"
    and "distinct (map fst (or_entries g)) \<Longrightarrow> set (or_entries g') = {(s, e) \<in> set (or_entries g). s \<noteq> sid \<or> oe_generation e \<noteq> n}"
    and "distinct (map fst (or_entries g)) \<Longrightarrow> distinct (map fst (or_entries g'))"
    and "(s, e) \<in> set (or_entries g) \<Longrightarrow> distinct (map fst (or_entries g)) \<Longrightarrow> (s, e) \<in> set (or_entries g') \<or> oe_cancel e \<in> set (or_cancelled g')"
proof -
  show "or_draining g' = or_draining g" "or_renewers g' = or_renewers g" "set (or_cancelled g) \<subseteq> set (or_cancelled g')"
    using assms by (auto simp: owner_release_def owner_drain_def cancel_token_def split: option.splits if_splits)
  have entries: "or_entries g' = (case map_of (or_entries g) sid of
      Some e \<Rightarrow> if oe_generation e = n then AList.delete sid (or_entries g) else or_entries g | None \<Rightarrow> or_entries g)"
    using assms by (auto simp: owner_release_def owner_drain_def cancel_token_def split: option.splits if_splits)
  assume d: "distinct (map fst (or_entries g))"
  then show "distinct (map fst (or_entries g'))" unfolding entries by (auto simp: distinct_delete split: option.splits)
  show set: "set (or_entries g') = {(s, e) \<in> set (or_entries g). s \<noteq> sid \<or> oe_generation e \<noteq> n}"
  proof (cases "map_of (or_entries g) sid")
    case None
    then have "(sid, e) \<notin> set (or_entries g)" for e using d by auto
    then show ?thesis using None entries by auto
  next
    case (Some e0)
    then have "(sid, e) \<in> set (or_entries g) \<longleftrightarrow> e = e0" for e
      using d by (metis map_of_SomeD map_of_is_SomeI option.inject)
    then show ?thesis using Some entries by (auto simp: AList.delete_eq)
  qed
  assume "(s, e) \<in> set (or_entries g)"
  moreover have "oe_cancel e \<in> set (or_cancelled g')" if "s = sid" "oe_generation e = n" "(s, e) \<in> set (or_entries g)"
    using that assms d by (auto simp: owner_release_def owner_drain_def cancel_token_def)
  ultimately show "(s, e) \<in> set (or_entries g') \<or> oe_cancel e \<in> set (or_cancelled g')" using set by blast
qed

lemma retract_accounted:
  assumes "registry_inv (g, as, d, x)" and "g' = owner_release sid n g \<or> g' = snd (owner_drain sid n g)"
    and "d' = d \<or> (\<exists>todo. d = DrainingRooms ((sid, n) # todo) \<and> d' = DrainingRooms todo)"
  shows "registry_inv (g', as, d', x)"
proof -
  have d: "distinct (map fst (or_entries g))" "or_draining g \<longleftrightarrow> d \<noteq> NotDraining" using assms(1) by (auto simp: registry_inv_def)
  note eff = retract_effect [OF assms(2)]
  have "renewer_accounted (g', as, d', x) m" if "m \<in> set (or_renewers g')" for m
  proof -
    have "renewer_accounted (g, as, d, x) m" using that eff(2) assms(1) by (auto simp: registry_inv_def)
    then show ?thesis using eff(3,6) d(1) unfolding renewer_accounted_def by fastforce
  qed
  moreover have "entry_accounted (g', as, d', x) s e" if "(s, e) \<in> set (or_entries g')" for s e
  proof -
    have old: "(s, e) \<in> set (or_entries g)" "s \<noteq> sid \<or> oe_generation e \<noteq> n" using that eff(4) [OF d(1)] by auto
    then have "entry_accounted (g, as, d, x) s e" using assms(1) by (auto simp: registry_inv_def)
    then show ?thesis using assms(3) old(2) by (auto simp: entry_accounted_def)
  qed
  moreover have "or_draining g' \<longleftrightarrow> d' \<noteq> NotDraining" using eff(1) d(2) assms(3) by auto
  ultimately show ?thesis using eff(5) d(1) by (auto simp: registry_inv_def)
qed

lemma publish_accounted:
  assumes "registry_inv (g, as @ (sid, e, False) # bs, d, x)"
  shows "registry_inv (attach_publish sid e g, as @ (sid, e, True) # bs, d, displaced_by sid g @ x)"
proof -
  let ?g = "attach_publish sid e g"
  have d: "distinct (map fst (or_entries g))" using assms by (simp add: registry_inv_def)
  have same: "or_draining ?g = or_draining g" "or_renewers ?g = or_renewers g" "or_cancelled ?g = or_cancelled g"
    by (simp_all add: attach_publish_def)
  have d': "distinct (map fst (or_entries ?g))" using d by (simp add: attach_publish_def distinct_update)
  have entries: "(s, f) \<in> set (or_entries ?g) \<longleftrightarrow> (if s = sid then f = e else (s, f) \<in> set (or_entries g))" for s f
  proof -
    have "(s, f) \<in> set (or_entries ?g) \<longleftrightarrow> map_of (or_entries ?g) s = Some f" using d' by simp
    also have "\<dots> \<longleftrightarrow> (if s = sid then f = e else map_of (or_entries g) s = Some f)"
      by (auto simp: attach_publish_def update_conv')
    also have "\<dots> \<longleftrightarrow> (if s = sid then f = e else (s, f) \<in> set (or_entries g))" using d by simp
    finally show ?thesis .
  qed
  have "renewer_accounted (?g, as @ (sid, e, True) # bs, d, displaced_by sid g @ x) m" if "m \<in> set (or_renewers g)" for m
  proof -
    have "renewer_accounted (g, as @ (sid, e, False) # bs, d, x) m" using that assms by (auto simp: registry_inv_def)
    moreover have "oe_cancel f \<in> set (displaced_by sid g)" if "(sid, f) \<in> set (or_entries g)" for f
      using that d by (simp add: displaced_by_def)
    moreover have "(s, f) \<in> set (or_entries ?g)" if "(s, f) \<in> set (or_entries g)" "s \<noteq> sid" for s f using that entries by simp
    moreover have "(sid, e) \<in> set (or_entries ?g)" using entries by simp
    ultimately show ?thesis using same(3) unfolding renewer_accounted_def by simp (metis Pair_inject Un_iff)
  qed
  moreover have "entry_accounted (?g, as @ (sid, e, True) # bs, d, displaced_by sid g @ x) s f" if "(s, f) \<in> set (or_entries ?g)" for s f
  proof (cases "s = sid")
    case True
    then show ?thesis using that entries by (auto simp: entry_accounted_def)
  next
    case False
    then have "entry_accounted (g, as @ (sid, e, False) # bs, d, x) s f" using that entries assms by (auto simp: registry_inv_def)
    then show ?thesis by (auto simp: entry_accounted_def)
  qed
  ultimately show ?thesis using assms same d' by (auto simp: registry_inv_def)
qed

lemma finish_accounted:
  assumes "registry_inv (g, as @ (sid, e, True) # bs, d, x)"
  shows "registry_inv (attach_finish sid e g, as @ bs, d, x)"
proof (cases "or_draining g")
  case False
  then have "d = NotDraining" using assms by (simp add: registry_inv_def)
  then show ?thesis using assms False
    by (auto simp: registry_inv_def attach_finish_def renewer_accounted_def entry_accounted_def)
next
  case True
  let ?h = "snd (owner_drain sid (oe_generation e) g)"
  have inv: "registry_inv (?h, as @ (sid, e, True) # bs, d, x)" using retract_accounted [OF assms] by blast
  have d: "distinct (map fst (or_entries g))" using assms by (simp add: registry_inv_def)
  have gone: "s \<noteq> sid \<or> oe_generation f \<noteq> oe_generation e" if "(s, f) \<in> set (or_entries ?h)" for s f
    using retract_effect(4) [OF disjI2, OF refl d, of sid "oe_generation e"] that by auto
  have "entry_accounted (?h, as @ bs, d, x) s f" if "(s, f) \<in> set (or_entries ?h)" for s f
  proof -
    have "entry_accounted (?h, as @ (sid, e, True) # bs, d, x) s f" using inv that by (auto simp: registry_inv_def)
    then show ?thesis using gone [OF that] by (auto simp: entry_accounted_def)
  qed
  then show ?thesis using inv True
    by (auto simp: registry_inv_def attach_finish_def cancel_token_def renewer_accounted_def entry_accounted_def)
qed

lemma accounted_more:
  assumes "registry_inv (g, as, d, x)" and "or_entries g' = or_entries g" and "set (or_cancelled g) \<subseteq> set (or_cancelled g')"
    and "m \<in> set (or_renewers g)" and "set as \<subseteq> set as'"
  shows "renewer_accounted (g', as', d, x) m"
proof -
  have "renewer_accounted (g, as, d, x) m" using assms(1,4) by (simp add: registry_inv_def)
  then show ?thesis using assms(2,3,5) unfolding renewer_accounted_def by fastforce
qed

lemma registry_inv_step:
  assumes "registry_step s s'" and "registry_inv s"
  shows "registry_inv s'"
  using assms
proof (induction rule: registry_step.induct)
  case (step_attach sid lease g e g' as d x)
  note eff = attach_begin_effect [OF step_attach(1)]
  have "renewer_accounted (g', (sid, e, False) # as, d, x) m" if "m \<in> set (or_renewers g')" for m
  proof (cases "m \<in> set (or_renewers g)")
    case True
    then show ?thesis by (rule accounted_more [OF step_attach(2) eff(1,3)]) auto
  next
    case False
    then have "rn_cancel m \<in> set (or_cancelled g') \<or> oe_cancel e = rn_cancel m" using eff(4) that by auto
    then show ?thesis unfolding renewer_accounted_def by auto
  qed
  then show ?case using eff(1,2) step_attach(2) by (auto simp: registry_inv_def entry_accounted_def)
next
  case (step_attached sid lease g s g' as d x)
  note eff = attach_begin_effect [OF step_attached(1)]
  have "renewer_accounted (g', as, d, x) m" if "m \<in> set (or_renewers g')" for m
  proof (cases "m \<in> set (or_renewers g)")
    case True
    then show ?thesis by (rule accounted_more [OF step_attached(2) eff(1,3)]) auto
  next
    case False
    then show ?thesis using eff(4) that by (auto simp: renewer_accounted_def)
  qed
  then show ?case using eff(1,2) step_attached(2) by (auto simp: registry_inv_def entry_accounted_def)
next
  case (step_collect g as x)
  then show ?case by (fastforce simp: registry_inv_def renewer_accounted_def entry_accounted_def drain_rooms_def)
next
  case (step_drain_room g as sid n todo x)
  then show ?case using retract_accounted by blast
next
  case (step_release g as d x sid n)
  then show ?case using retract_accounted by blast
next
  case (step_drain g as d x sid n)
  then show ?case using retract_accounted by blast
next
  case (step_publish g as sid e bs d x)
  then show ?case by (rule publish_accounted)
next
  case (step_finish g as sid e bs d x)
  then show ?case by (rule finish_accounted)
qed (simp_all add: registry_inv_def renewer_accounted_def entry_accounted_def drain_flag_def)

lemma registry_reachable_inv: "registry_reachable s \<Longrightarrow> registry_inv s"
proof (induction rule: registry_reachable.induct)
  case reachable_new
  show ?case by (simp add: registry_inv_def new_registry_def)
next
  case (reachable_step s s')
  then show ?case using registry_inv_step by blast
qed

text \<open>C13. A shutdown leaves no owner behind, however it races with joins: when every room was drained and
  no attach is under way, the registry holds no entry, and every renewer ever spawned has been told
  to release its lease, except one whose entry a second attach of the same session overwrote. An
  attach that comes later is turned away with its drain signal set, and its lease is released.\<close>

theorem drain_leaves_no_owner:
  assumes "registry_reachable (g, [], Drained, displaced)"
  shows "or_entries g = []
    \<and> (\<forall>n\<in>set (or_renewers g). rn_cancel n \<in> set (or_cancelled g) \<or> rn_cancel n \<in> set displaced)
    \<and> (case attach_signals sid lease g of (signals, g') \<Rightarrow>
        os_draining signals \<in> set (or_cancelled g') \<and> or_entries g' = []
        \<and> (\<exists>n. or_renewers g' = n # or_renewers g \<and> rn_lease n = lease \<and> rn_cancel n \<in> set (or_cancelled g')))"
proof -
  have inv: "registry_inv (g, [], Drained, displaced)" using assms by (rule registry_reachable_inv)
  then have e: "or_entries g = []"
    by (cases "or_entries g") (auto simp: registry_inv_def entry_accounted_def)
  have "or_draining g" using inv by (simp add: registry_inv_def)
  then have "case attach_signals sid lease g of (signals, g') \<Rightarrow>
        os_draining signals \<in> set (or_cancelled g') \<and> or_entries g' = []
        \<and> (\<exists>n. or_renewers g' = n # or_renewers g \<and> rn_lease n = lease \<and> rn_cancel n \<in> set (or_cancelled g'))"
    using e by (simp add: attach_signals_def attach_begin_def token_defs Let_def)
  then show ?thesis using inv e by (auto simp: registry_inv_def renewer_accounted_def)
qed

definition demo_huddle_lease :: session_lease where
  "demo_huddle_lease = \<lparr>sl_community_id = 1, sl_session_id = 2, sl_owner_runtime_id = [], sl_generation = 4, sl_profile = HuddleControl\<rparr>"

text \<open>An attach that passed its check before the flag and publishes after the rooms were collected.\<close>

theorem drain_leaves_no_owner_witness:
  "\<exists>g n. registry_reachable (g, [], Drained, []) \<and> or_renewers g = [n] \<and> rn_lease n = demo_huddle_lease
     \<and> or_entries g = [] \<and> rn_cancel n \<in> set (or_cancelled g)"
proof -
  obtain e g1 where a: "attach_begin 2 demo_huddle_lease new_registry = (Inr e, g1)"
    by (simp add: attach_begin_def new_registry_def token_defs Let_def)
  let ?g2 = "drain_flag g1" and ?g3 = "attach_publish 2 e (drain_flag g1)"
  let ?g4 = "attach_finish 2 e ?g3"
  note step = reachable_step
  have g1: "or_entries g1 = []" "\<exists>n. or_renewers g1 = [n] \<and> rn_lease n = demo_huddle_lease"
    using a by (auto simp: attach_begin_def new_registry_def token_defs Let_def)
  have "registry_reachable (g1, [(2, e, False)], NotDraining, [])" using step [OF reachable_new step_attach [OF a]] .
  then have "registry_reachable (?g2, [(2, e, False)], Collecting, [])" by (rule step [OF _ step_flag])
  then have "registry_reachable (?g2, [(2, e, False)], DrainingRooms (drain_rooms ?g2), [])" by (rule step [OF _ step_collect])
  moreover have "drain_rooms ?g2 = []" using g1(1) by (simp add: drain_rooms_def drain_flag_def)
  ultimately have "registry_reachable (?g2, [] @ (2, e, False) # [], DrainingRooms [], [])" by simp
  from step [OF this step_publish] have "registry_reachable (?g3, [(2, e, True)], DrainingRooms [], [])"
    using g1(1) by (simp add: displaced_by_def drain_flag_def)
  then have "registry_reachable (?g3, [] @ (2, e, True) # [], Drained, [])" using step [OF _ step_drained] by simp
  from step [OF this step_finish] have r: "registry_reachable (?g4, [], Drained, [])" by simp
  have "or_renewers ?g4 = or_renewers g1"
    by (simp add: attach_finish_def owner_drain_def attach_publish_def cancel_token_def drain_flag_def split: option.split)
  then show ?thesis using drain_leaves_no_owner [OF r] r g1(2) by auto
qed

end
