(* ===== verification/Pair_Validation.thy ===== *)
theory Pair_Validation
  imports Prelude
begin

unbundle bit_operations_syntax

section \<open>The pairing relay: what it accepts\<close>

text \<open>
  Models the validation half of \<open>buzz-pair-relay/src/lib.rs\<close>: filters, events, the structure of an
  encrypted payload and the signature. Text is its UTF-8 bytes. The parser and printer of JSON, the
  hash and the signature scheme are the record \<open>pair_lib\<close>.
\<close>

datatype pair_json =
    PNull
  | PBool bool
  | PInt int
  | PFloat string
  | PString string
  | PArray "pair_json list"
  | PObject "(string \<times> pair_json) list"

record pair_lib =
  pl_parse :: "string \<Rightarrow> pair_json option"
  pl_print :: "pair_json \<Rightarrow> string option"
  pl_sha256 :: "string \<Rightarrow> bytes"
  pl_xonly :: "bytes \<Rightarrow> bool"
  pl_schnorr :: "bytes \<Rightarrow> bytes \<Rightarrow> bytes \<Rightarrow> bool"

fun json_str :: "pair_json \<Rightarrow> string option" where
  "json_str (PString s) = Some s" | "json_str _ = None"

fun json_array :: "pair_json \<Rightarrow> pair_json list option" where
  "json_array (PArray a) = Some a" | "json_array _ = None"

fun json_object :: "pair_json \<Rightarrow> (string \<times> pair_json) list option" where
  "json_object (PObject m) = Some m" | "json_object _ = None"

fun json_u64 :: "pair_json \<Rightarrow> int option" where
  "json_u64 (PInt i) = (if 0 \<le> i \<and> i < 2 ^ 64 then Some i else None)" | "json_u64 _ = None"

fun json_i64 :: "pair_json \<Rightarrow> int option" where
  "json_i64 (PInt i) = (if - (2 ^ 63) \<le> i \<and> i < 2 ^ 63 then Some i else None)" | "json_i64 _ = None"

fun ok_or :: "'e \<Rightarrow> 'a option \<Rightarrow> 'e + 'a" where
  "ok_or e None = Inl e" | "ok_or e (Some x) = Inr x"

subsection \<open>Hexadecimal\<close>

definition KIND_PAIR :: int where "KIND_PAIR = 24134"
definition FRESHNESS_SECS :: int where "FRESHNESS_SECS = 120"

definition is_lower_hex :: "string \<Rightarrow> nat \<Rightarrow> bool" where
  "is_lower_hex s len \<longleftrightarrow> length s = len \<and> list_all is_lowercase_hexdigit s"

definition to_digit :: "char \<Rightarrow> nat" where
  "to_digit c = (if is_ascii_digit c then byte c - 48 else byte c - 87)"

fun hex_bytes :: "string \<Rightarrow> bytes" where
  "hex_bytes (hi # lo # rest) = word_of_nat (to_digit hi * 16 + to_digit lo) # hex_bytes rest"
| "hex_bytes _ = []"

definition decode_hex32 :: "string \<Rightarrow> bytes option" where
  "decode_hex32 s = (if \<not> is_lower_hex s 64 then None else Some (hex_bytes s))"

definition decode_hex64 :: "string \<Rightarrow> bytes option" where
  "decode_hex64 s = (if \<not> is_lower_hex s 128 then None else Some (hex_bytes s))"

subsection \<open>Filters\<close>

definition validate_filter :: "pair_json \<Rightarrow> string + bytes" where
  "validate_filter filt =
     and_then (ok_or ''filter must be an object'' (json_object filt)) (\<lambda>obj.
       if \<not> list_all (\<lambda>(key, _). key = ''kinds'' \<or> key = ''#p'') obj then Inl ''unsupported filter field''
       else and_then (case map_of obj ''kinds'' of
              None \<Rightarrow> Inr ()
            | Some kinds \<Rightarrow> and_then (ok_or ''kinds must be an array'' (json_array kinds)) (\<lambda>arr.
                if length arr \<noteq> 1 \<or> json_u64 (hd arr) \<noteq> Some KIND_PAIR then Inl ''kinds must be [24134]'' else Inr ())) (\<lambda>_.
         and_then (ok_or ''#p filter required'' (Option.bind (map_of obj ''#p'') json_array)) (\<lambda>p_arr.
           if length p_arr \<noteq> 1 then Inl ''#p must have exactly one value''
           else and_then (ok_or ''#p value must be a string'' (json_str (hd p_arr))) (\<lambda>p_str.
             ok_or ''#p value must be 64 lowercase hex chars'' (decode_hex32 p_str)))))"

subsection \<open>Encrypted payloads\<close>

definition is_b64_char :: "char \<Rightarrow> bool" where
  "is_b64_char c \<longleftrightarrow> is_ascii_alphanumeric c \<or> c = CHR ''+'' \<or> c = CHR ''/''"

text \<open>The loop over the bytes: position, padding seen so far.\<close>

fun b64_scan :: "nat \<Rightarrow> nat \<Rightarrow> nat \<Rightarrow> string \<Rightarrow> string + nat" where
  "b64_scan len i pad_count [] = Inr pad_count"
| "b64_scan len i pad_count (b # rest) =
     (if is_b64_char b then
        (if pad_count > 0 then Inl ''content is not valid base64'' else b64_scan len (Suc i) pad_count rest)
      else if b = CHR ''='' then
        (if i < len - 2 then Inl ''content is not valid base64''
         else if pad_count + 1 > 2 then Inl ''content is not valid base64''
         else b64_scan len (Suc i) (pad_count + 1) rest)
      else Inl ''content is not valid base64'')"

definition b64_val :: "char \<Rightarrow> 8 word option" where
  "b64_val c =
     (if is_ascii_uppercase c then Some (word_of_nat (byte c) - 65)
      else if is_ascii_lowercase c then Some (word_of_nat (byte c) - 97 + 26)
      else if is_ascii_digit c then Some (word_of_nat (byte c) - 48 + 52)
      else if c = CHR ''+'' then Some 62
      else if c = CHR ''/'' then Some 63
      else None)"

definition validate_nip44_content :: "string \<Rightarrow> string + unit" where
  "validate_nip44_content content =
     (if content = '''' then Inl ''content must not be empty''
      else if length content mod 4 \<noteq> 0 then Inl ''content is not valid base64''
      else and_then (b64_scan (length content) 0 0 content) (\<lambda>pad_count.
        if length content div 4 * 3 - pad_count < 99 then Inl ''content too short for NIP-44 v2''
        else and_then (ok_or ''content is not valid base64'' (b64_val (content ! 0))) (\<lambda>v0.
          and_then (ok_or ''content is not valid base64'' (b64_val (content ! 1))) (\<lambda>v1.
            if push_bit 2 v0 OR drop_bit 4 v1 \<noteq> 2 then Inl ''content is not NIP-44 v2 (expected 0x02 prefix)''
            else Inr ()))))"

subsection \<open>Events\<close>

definition ALLOWED_KEYS :: "string list" where
  "ALLOWED_KEYS = [''id'', ''pubkey'', ''created_at'', ''kind'', ''tags'', ''content'', ''sig'']"

definition str_field :: "string \<Rightarrow> (string \<times> pair_json) list \<Rightarrow> string option" where
  "str_field key obj = Option.bind (map_of obj key) json_str"

text \<open>The tag check: exactly one tag, of exactly two elements, the first one \<open>p\<close>.\<close>

definition validate_p_tag :: "pair_json list \<Rightarrow> string + bytes" where
  "validate_p_tag tags =
     (if length tags \<noteq> 1 then Inl ''event must have exactly one p tag''
      else and_then (ok_or ''tag must be an array'' (json_array (hd tags))) (\<lambda>tag.
        if length tag \<noteq> 2 then Inl ''p tag must have exactly 2 elements''
        else if json_str (tag ! 0) \<noteq> Some ''p'' then Inl ''event must have exactly one p tag''
        else and_then (ok_or ''p tag value must be a string'' (json_str (tag ! 1))) (\<lambda>p_str.
          ok_or ''p tag value must be 64 lowercase hex chars'' (decode_hex32 p_str))))"

text \<open>\<open>now\<close> is the relay's wall clock in whole seconds.\<close>

definition validate_event :: "int \<Rightarrow> pair_json \<Rightarrow> string + (string \<times> bytes \<times> bytes)" where
  "validate_event now ev =
     and_then (ok_or ''event must be an object'' (json_object ev)) (\<lambda>obj.
       if \<not> list_all (\<lambda>(key, _). key \<in> set ALLOWED_KEYS) obj then Inl ''unknown top-level field''
       else and_then (ok_or ''missing id'' (str_field ''id'' obj)) (\<lambda>eid.
         if \<not> is_lower_hex eid 64 then Inl ''id must be 64 lowercase hex chars''
         else and_then (ok_or ''id must be 64 lowercase hex chars'' (decode_hex32 eid)) (\<lambda>id_bytes.
         and_then (ok_or ''missing pubkey'' (str_field ''pubkey'' obj)) (\<lambda>pubkey.
         if \<not> is_lower_hex pubkey 64 then Inl ''pubkey must be 64 lowercase hex chars''
         else if Option.bind (map_of obj ''kind'') json_u64 \<noteq> Some KIND_PAIR then Inl ''kind must be 24134''
         else and_then (ok_or ''missing created_at'' (Option.bind (map_of obj ''created_at'') json_i64)) (\<lambda>created_at.
         if \<bar>created_at - now\<bar> > FRESHNESS_SECS then Inl ''created_at outside freshness window''
         else and_then (ok_or ''missing content'' (str_field ''content'' obj)) (\<lambda>content.
         and_then (validate_nip44_content content) (\<lambda>_.
         and_then (ok_or ''missing sig'' (str_field ''sig'' obj)) (\<lambda>sig.
         if \<not> is_lower_hex sig 128 then Inl ''sig must be 128 lowercase hex chars''
         else and_then (ok_or ''missing tags'' (Option.bind (map_of obj ''tags'') json_array)) (\<lambda>tags.
         and_then (validate_p_tag tags) (\<lambda>p_bytes.
           Inr (eid, id_bytes, p_bytes)))))))))))"

definition safe_event_id :: "pair_json \<Rightarrow> string" where
  "safe_event_id ev = (case Option.bind (json_object ev) (str_field ''id'') of
     Some s \<Rightarrow> if is_lower_hex s 64 then s else ''''
   | None \<Rightarrow> '''')"

text \<open>The commitment of NIP-01, whose hash is the event id.\<close>

definition commitment :: "string \<Rightarrow> int \<Rightarrow> int \<Rightarrow> pair_json \<Rightarrow> string \<Rightarrow> pair_json" where
  "commitment pubkey created_at kind tags content =
     PArray [PInt 0, PString pubkey, PInt created_at, PInt kind, tags, PString content]"

definition verify_event_sig :: "pair_lib \<Rightarrow> pair_json \<Rightarrow> string + unit" where
  "verify_event_sig L ev =
     and_then (ok_or ''event must be an object'' (json_object ev)) (\<lambda>obj.
     and_then (ok_or ''missing pubkey'' (str_field ''pubkey'' obj)) (\<lambda>pubkey_str.
     and_then (ok_or ''missing created_at'' (Option.bind (map_of obj ''created_at'') json_i64)) (\<lambda>created_at.
     and_then (ok_or ''missing kind'' (Option.bind (map_of obj ''kind'') json_u64)) (\<lambda>kind.
     and_then (ok_or ''missing tags'' (map_of obj ''tags'')) (\<lambda>tags.
     and_then (ok_or ''missing content'' (str_field ''content'' obj)) (\<lambda>content.
     and_then (ok_or ''missing id'' (str_field ''id'' obj)) (\<lambda>id_str.
     and_then (ok_or ''missing sig'' (str_field ''sig'' obj)) (\<lambda>sig_str.
     and_then (ok_or ''failed to serialize commitment'' (pl_print L (commitment pubkey_str created_at kind tags content))) (\<lambda>commitment_json.
     let hash = pl_sha256 L commitment_json in
     and_then (ok_or ''id must be 64 lowercase hex chars'' (decode_hex32 id_str)) (\<lambda>id_bytes.
     if hash \<noteq> id_bytes then Inl ''invalid: event id mismatch''
     else and_then (ok_or ''pubkey must be 64 lowercase hex chars'' (decode_hex32 pubkey_str)) (\<lambda>pubkey_bytes.
     if \<not> pl_xonly L pubkey_bytes then Inl ''invalid: bad pubkey''
     else and_then (ok_or ''sig must be 128 lowercase hex chars'' (decode_hex64 sig_str)) (\<lambda>sig_bytes.
     if \<not> pl_schnorr L sig_bytes hash pubkey_bytes then Inl ''invalid: signature verification failed''
     else Inr ()))))))))))))"

subsection \<open>The payload check against decoding\<close>

text \<open>Base64 with padding, decoded as RFC 4648 describes it, without a demand on the unused bits.\<close>

fun b64_decode :: "string \<Rightarrow> bytes option" where
  "b64_decode [] = Some []"
| "b64_decode (a # b # c # d # rest) =
     (case (b64_val a, b64_val b) of
        (Some x, Some y) \<Rightarrow>
          if c = CHR ''='' then (if d = CHR ''='' \<and> rest = [] then Some [push_bit 2 x OR drop_bit 4 y] else None)
          else (case b64_val c of
            None \<Rightarrow> None
          | Some z \<Rightarrow>
              if d = CHR ''='' then (if rest = [] then Some [push_bit 2 x OR drop_bit 4 y, push_bit 4 y OR drop_bit 2 z] else None)
              else (case (b64_val d, b64_decode rest) of
                 (Some w, Some bs) \<Rightarrow> Some ((push_bit 2 x OR drop_bit 4 y) # (push_bit 4 y OR drop_bit 2 z) # (push_bit 6 z OR w) # bs)
               | _ \<Rightarrow> None))
      | _ \<Rightarrow> None)"
| "b64_decode _ = None"

lemma b64_val_char: "(\<exists>v. b64_val c = Some v) \<longleftrightarrow> is_b64_char c"
  by (auto simp: b64_val_def is_b64_char_def is_ascii_alphanumeric_def)

lemma pad_not_b64: "\<not> is_b64_char (CHR ''='')"
  by (simp add: is_b64_char_def ascii_defs)

definition padded :: "nat \<Rightarrow> string \<Rightarrow> bool" where
  "padded n s \<longleftrightarrow> n \<le> 2 \<and> (\<exists>body. s = body @ replicate n (CHR ''='') \<and> list_all is_b64_char body)"

lemma padded_Nil: "padded n [] \<longleftrightarrow> n = 0"
  by (auto simp: padded_def)

lemma padded_Cons:
  "padded n (c # s) \<longleftrightarrow> (is_b64_char c \<and> padded n s) \<or> (c = CHR ''='' \<and> n \<le> 2 \<and> n = Suc (length s) \<and> s = replicate (length s) (CHR ''=''))"
proof
  assume "padded n (c # s)"
  then obtain body where b: "n \<le> 2" "c # s = body @ replicate n (CHR ''='')" "list_all is_b64_char body" by (auto simp: padded_def)
  show "(is_b64_char c \<and> padded n s) \<or> (c = CHR ''='' \<and> n \<le> 2 \<and> n = Suc (length s) \<and> s = replicate (length s) (CHR ''=''))"
  proof (cases body)
    case Nil
    then have "replicate n (CHR ''='') = c # s" using b(2) by simp
    then show ?thesis using b(1) by (cases n) auto
  next
    case (Cons c' body')
    then show ?thesis using b by (auto simp: padded_def)
  qed
next
  assume a: "(is_b64_char c \<and> padded n s) \<or> (c = CHR ''='' \<and> n \<le> 2 \<and> n = Suc (length s) \<and> s = replicate (length s) (CHR ''=''))"
  show "padded n (c # s)"
  proof (cases "is_b64_char c \<and> padded n s")
    case True
    then obtain body where "n \<le> 2" "s = body @ replicate n (CHR ''='')" "list_all is_b64_char (c # body)" by (auto simp: padded_def)
    then show ?thesis unfolding padded_def by (metis append_Cons)
  next
    case False
    then have n: "c = CHR ''=''" "n \<le> 2" "n = Suc (length s)" "s = replicate (length s) (CHR ''='')" using a by auto
    then have "c # s = [] @ replicate n (CHR ''='')" by (metis append_Nil replicate_Suc)
    then show ?thesis using n(2) unfolding padded_def by (intro conjI exI [of _ "[]"]) simp_all
  qed
qed

lemma b64_scan_pads:
  "0 < pad \<Longrightarrow> pad \<le> 2 \<Longrightarrow> i + length s = len \<Longrightarrow>
   b64_scan len i pad s = Inr n \<Longrightarrow> n = pad + length s \<and> n \<le> 2 \<and> s = replicate (length s) (CHR ''='')"
  by (induction len i pad s rule: b64_scan.induct) (auto split: if_splits)

lemma b64_scan_pads_ok:
  "0 < pad \<Longrightarrow> pad + m \<le> 2 \<Longrightarrow> i + m = len \<Longrightarrow> b64_scan len i pad (replicate m (CHR ''='')) = Inr (pad + m)"
  by (induction m arbitrary: i pad) (auto simp: pad_not_b64)

lemma b64_scan_padded: "i + length s = len \<Longrightarrow> 2 \<le> len \<Longrightarrow> b64_scan len i 0 s = Inr n \<longleftrightarrow> padded n s"
proof (induction s arbitrary: i)
  case Nil
  then show ?case by (auto simp: padded_Nil)
next
  case (Cons c s)
  show ?case
  proof (cases "is_b64_char c")
    case True
    then show ?thesis using Cons pad_not_b64 by (auto simp: padded_Cons)
  next
    case False
    show ?thesis
    proof (cases "c = CHR ''=''")
      case eq: True
      have "b64_scan len i 0 (c # s) = Inr n \<longleftrightarrow> \<not> i < len - 2 \<and> b64_scan len (Suc i) 1 s = Inr n"
        using eq pad_not_b64 by simp
      also have "\<dots> \<longleftrightarrow> n = Suc (length s) \<and> n \<le> 2 \<and> s = replicate (length s) (CHR ''='')"
      proof
        assume "\<not> i < len - 2 \<and> b64_scan len (Suc i) 1 s = Inr n"
        then show "n = Suc (length s) \<and> n \<le> 2 \<and> s = replicate (length s) (CHR ''='')"
          using b64_scan_pads [of 1 "Suc i" s len n] Cons.prems by auto
      next
        assume a: "n = Suc (length s) \<and> n \<le> 2 \<and> s = replicate (length s) (CHR ''='')"
        then have "b64_scan len (Suc i) 1 (replicate (length s) (CHR ''='')) = Inr (1 + length s)"
          using b64_scan_pads_ok [of 1 "length s" "Suc i" len] Cons.prems(1) by auto
        then show "\<not> i < len - 2 \<and> b64_scan len (Suc i) 1 s = Inr n" using a Cons.prems by auto
      qed
      finally show ?thesis using False eq by (auto simp: padded_Cons)
    qed (use False in \<open>auto simp: padded_Cons\<close>)
  qed
qed

lemma b64_decode_padded:
  "length s mod 4 = 0 \<Longrightarrow> padded n s \<longleftrightarrow> (\<exists>bs. b64_decode s = Some bs \<and> n \<le> 2 \<and> length bs + n = length s div 4 * 3)"
proof (induction s arbitrary: n rule: b64_decode.induct)
  case (2 a b c d rest)
  have m: "length rest mod 4 = 0" using 2(2) by simp
  have v: "is_b64_char ch \<Longrightarrow> \<exists>v. b64_val ch = Some v" "\<not> is_b64_char ch \<Longrightarrow> b64_val ch = None" for ch
    using b64_val_char [of ch] by auto
  show ?case
  proof (cases "is_b64_char a \<and> is_b64_char b")
    case False
    then show ?thesis using v(2) by (auto simp: padded_Cons split: option.splits)
  next
    case ab: True
    then obtain x y where xy: "b64_val a = Some x" "b64_val b = Some y" using v(1) by blast
    consider (c1) "c = CHR ''=''" | (c2) "c \<noteq> CHR ''=''" "\<not> is_b64_char c" | (c3) "is_b64_char c" "d = CHR ''=''"
      | (c4) "is_b64_char c" "d \<noteq> CHR ''=''" "\<not> is_b64_char d" | (c5) "is_b64_char c" "is_b64_char d"
      by blast
    then show ?thesis
    proof cases
      case c1
      then show ?thesis using xy ab pad_not_b64 m by (auto simp: padded_Cons length_Suc_conv)
    next
      case c2
      then show ?thesis using xy ab v(2) [of c] by (auto simp: padded_Cons)
    next
      case c3
      then obtain z where "b64_val c = Some z" "c \<noteq> CHR ''=''" using v(1) pad_not_b64 by blast
      then show ?thesis using c3 xy ab pad_not_b64 m by (auto simp: padded_Cons length_Suc_conv)
    next
      case c4
      then obtain z where "b64_val c = Some z" "c \<noteq> CHR ''=''" using v(1) pad_not_b64 by blast
      then show ?thesis using c4 xy ab v(2) [of d] by (auto simp: padded_Cons)
    next
      case c5
      then obtain z w where zw: "b64_val c = Some z" "c \<noteq> CHR ''=''" "b64_val d = Some w" "d \<noteq> CHR ''=''"
        using v(1) pad_not_b64 by metis
      have "padded n rest \<longleftrightarrow> (\<exists>bs. b64_decode rest = Some bs \<and> n \<le> 2 \<and> length bs + n = length rest div 4 * 3)"
        using "2.IH" [OF _ xy] xy zw m by auto
      moreover have "(4 + length rest) div 4 * 3 = 3 + length rest div 4 * 3" using div_add_self1 [of 4 "length rest"] by simp
      ultimately show ?thesis using c5 xy zw ab pad_not_b64 by (auto simp: padded_Cons split: option.splits)
    qed
  qed
qed (auto simp: padded_Nil)

lemma b64_decode_length:
  assumes "b64_decode s = Some bs"
  shows "length s mod 4 = 0" and "\<exists>n\<le>2. length bs + n = length s div 4 * 3"
proof -
  have "length s mod 4 = 0 \<and> (\<exists>n\<le>2. length bs + n = length s div 4 * 3)"
    using assms
  proof (induction s arbitrary: bs rule: b64_decode.induct)
    case (2 a b c d rest)
    have div: "(4 + length rest) div 4 * 3 = 3 + length rest div 4 * 3" using div_add_self1 [of 4 "length rest"] by simp
    obtain x y where xy: "b64_val a = Some x" "b64_val b = Some y" using 2(2) by (auto split: option.splits)
    consider (short) "length bs \<in> {1, 2}" "rest = []"
      | (long) bs' z w where "c \<noteq> CHR ''=''" "b64_val c = Some z" "d \<noteq> CHR ''=''" "b64_val d = Some w" "b64_decode rest = Some bs'" "length bs = 3 + length bs'"
      using 2(2) xy by (auto split: option.splits if_splits)
    then show ?case
    proof cases
      case short
      then show ?thesis by (auto intro: exI [of _ 1] exI [of _ 2])
    next
      case long
      have "length rest mod 4 = 0 \<and> (\<exists>n\<le>2. length bs' + n = length rest div 4 * 3)"
        by (rule "2.IH" [OF refl xy long(1,2,3,5)])
      then show ?thesis using long(6) div by auto
    qed
  qed auto
  then show "length s mod 4 = 0" "\<exists>n\<le>2. length bs + n = length s div 4 * 3" by auto
qed

text \<open>C30. The check of an encrypted payload is the right one: it accepts a text exactly when this is padded
  base64 that decodes to at least 99 bytes of which the first is the version 2, although it never
  decodes more than one byte.\<close>

theorem nip44_content_exact:
  "validate_nip44_content s = Inr () \<longleftrightarrow> (\<exists>bs. b64_decode s = Some bs \<and> 99 \<le> length bs \<and> hd bs = 2)"
proof (cases "s = [] \<or> length s mod 4 \<noteq> 0")
  case True
  then show ?thesis using b64_decode_length(1) by (auto simp: validate_nip44_content_def)
next
  case False
  then obtain a b c d rest where s: "s = a # b # c # d # rest"
    by (cases s rule: b64_decode.cases) auto
  have len: "length s mod 4 = 0" using False by simp
  have dec: "padded n s \<longleftrightarrow> (\<exists>bs. b64_decode s = Some bs \<and> n \<le> 2 \<and> length bs + n = length s div 4 * 3)" for n
    using len by (rule b64_decode_padded)
  have scan: "b64_scan (length s) 0 0 s = Inr n \<longleftrightarrow> padded n s" for n
    by (rule b64_scan_padded) (use s in auto)
  show ?thesis
  proof (cases "b64_decode s")
    case None
    then have "\<exists>e. b64_scan (length s) 0 0 s = Inl e" using dec scan by (cases "b64_scan (length s) 0 0 s") auto
    then show ?thesis using False None by (auto simp: validate_nip44_content_def)
  next
    case (Some bs)
    obtain x y where xy: "b64_val a = Some x" "b64_val b = Some y" "hd bs = push_bit 2 x OR drop_bit 4 y"
      using Some s by (auto split: option.splits if_splits)
    obtain n where n: "n \<le> 2" "length bs + n = length s div 4 * 3" using b64_decode_length(2) [OF Some] by blast
    then have "b64_scan (length s) 0 0 s = Inr n" using dec scan Some by auto
    moreover have "length s div 4 * 3 - n = length bs" using n by simp
    ultimately show ?thesis using False Some xy s by (auto simp: validate_nip44_content_def and_then_eq_Inr)
  qed
qed

end
