(* ===== verification/Pair_Relay.thy ===== *)
theory Pair_Relay
  imports Pair_Validation
begin

section \<open>The pairing relay: connections and delivery\<close>

text \<open>
  Models the stateful half of \<open>buzz-pair-relay/src/lib.rs\<close>: the shared \<open>Relay\<close> with its three locked
  tables, the frames of a connection and the admission of connections. Instants are milliseconds. The
  sending half of a connection's channel is the connection's number; its queue and whether the writer
  still reads are part of the connection. A frame is handled between two waits; an event is handled in
  two pieces, since other connections run between the reservation of its id and its delivery.
\<close>

definition MAX_CONNS :: nat where "MAX_CONNS = 128"
definition CHANNEL_CAP :: nat where "CHANNEL_CAP = 4"
definition RATE_WINDOW :: nat where "RATE_WINDOW = 10000"
definition RATE_MSG_MAX :: nat where "RATE_MSG_MAX = 20"
definition RATE_EVENT_MAX :: nat where "RATE_EVENT_MAX = 10"
definition SUB_ID_MAX :: nat where "SUB_ID_MAX = 64"
definition MAX_EVENTS_PER_CONN :: nat where "MAX_EVENTS_PER_CONN = 6"
definition MAX_DELIVERED_PER_P :: nat where "MAX_DELIVERED_PER_P = 12"
definition DEDUP_CAP :: nat where "DEDUP_CAP = 1024"
definition DELIVERED_MAP_CAP :: nat where "DELIVERED_MAP_CAP = 4096"
definition ENTRY_TTL :: nat where "ENTRY_TTL = 300000"

lemmas pair_limits = MAX_CONNS_def CHANNEL_CAP_def MAX_EVENTS_PER_CONN_def MAX_DELIVERED_PER_P_def DEDUP_CAP_def DELIVERED_MAP_CAP_def

datatype out_msg = OutText pair_json | OutPong bytes | OutClose

record pair_sub =
  ps_conn_id :: nat
  ps_sub_id :: string
  ps_p_value :: bytes

record pair_relay =
  pr_subs :: "pair_sub list"
  pr_conn_count :: nat
  pr_next_conn_id :: nat
  pr_seen_ids :: "(bytes \<times> nat) list"
  pr_delivered :: "(bytes \<times> nat \<times> nat) list"

definition new_relay :: pair_relay where
  "new_relay = \<lparr>pr_subs = [], pr_conn_count = 0, pr_next_conn_id = 0, pr_seen_ids = [], pr_delivered = []\<rparr>"

record rate_window =
  rw_count :: nat
  rw_start :: nat

definition new_rate_window :: "nat \<Rightarrow> rate_window" where
  "new_rate_window now = \<lparr>rw_count = 0, rw_start = now\<rparr>"

definition rate_tick :: "nat \<Rightarrow> rate_window \<Rightarrow> nat \<times> rate_window" where
  "rate_tick now w =
     (let w = (if now - rw_start w \<ge> RATE_WINDOW then \<lparr>rw_count = 0, rw_start = now\<rparr> else w);
          w = w\<lparr>rw_count := rw_count w + 1\<rparr>
      in (rw_count w, w))"

record pair_conn =
  pc_out :: "out_msg list"
  pc_writing :: bool
  pc_msg_rate :: rate_window
  pc_event_rate :: rate_window
  pc_sub_id :: "string option"
  pc_events_attempted :: nat

definition new_conn :: "nat \<Rightarrow> pair_conn" where
  "new_conn now = \<lparr>pc_out = [], pc_writing = True, pc_msg_rate = new_rate_window now, pc_event_rate = new_rate_window now,
     pc_sub_id = None, pc_events_attempted = 0\<rparr>"

definition pair_send :: "out_msg \<Rightarrow> pair_conn \<Rightarrow> bool \<times> pair_conn" where
  "pair_send msg k = (if pc_writing k \<and> length (pc_out k) < CHANNEL_CAP then (True, k\<lparr>pc_out := pc_out k @ [msg]\<rparr>) else (False, k))"

subsection \<open>The shared tables\<close>

definition reserve_id :: "nat \<Rightarrow> bytes \<Rightarrow> pair_relay \<Rightarrow> (unit + bool) \<times> pair_relay" where
  "reserve_id now eid r =
     (let vec = filter (\<lambda>(_, ts). now - ts < ENTRY_TTL) (pr_seen_ids r) in
      if list_ex (\<lambda>(e, _). e = eid) vec then (Inr True, r\<lparr>pr_seen_ids := vec\<rparr>)
      else if length vec \<ge> DEDUP_CAP then (Inl (), r\<lparr>pr_seen_ids := vec\<rparr>)
      else (Inr False, r\<lparr>pr_seen_ids := vec @ [(eid, now)]\<rparr>))"

definition swap_remove :: "nat \<Rightarrow> 'a list \<Rightarrow> 'a list" where
  "swap_remove i xs = butlast (xs[i := last xs])"

definition unreserve_id :: "bytes \<Rightarrow> pair_relay \<Rightarrow> pair_relay" where
  "unreserve_id eid r =
     (let vec = pr_seen_ids r; pos = length (takeWhile (\<lambda>(e, _). e \<noteq> eid) vec) in
      if pos < length vec then r\<lparr>pr_seen_ids := swap_remove pos vec\<rparr> else r)"

definition remove_sub :: "nat \<Rightarrow> pair_relay \<Rightarrow> pair_relay" where
  "remove_sub conn_id r = r\<lparr>pr_subs := filter (\<lambda>s. ps_conn_id s \<noteq> conn_id) (pr_subs r)\<rparr>"

type_synonym pair_conns = "(nat \<times> pair_conn) list"

text \<open>\<open>writer_tx.try_send\<close> of a subscription.\<close>

definition send_to :: "nat \<Rightarrow> out_msg \<Rightarrow> pair_conns \<Rightarrow> bool \<times> pair_conns" where
  "send_to conn_id msg conns = (case map_of conns conn_id of
     None \<Rightarrow> (False, conns)
   | Some k \<Rightarrow> (let (sent, k') = pair_send msg k in (sent, AList.update conn_id k' conns)))"

definition deliver_single ::
    "pair_lib \<Rightarrow> nat \<Rightarrow> bytes \<Rightarrow> pair_json \<Rightarrow> pair_relay \<times> pair_conns \<Rightarrow> (string + bool) \<times> pair_relay \<times> pair_conns" where
  "deliver_single L now p_value event st = (case st of (r, conns) \<Rightarrow>
     (case filter (\<lambda>s. ps_p_value s = p_value) (pr_subs r) of
        [] \<Rightarrow> (Inl ''no live subscriber'', st)
      | [sub] \<Rightarrow>
         (let delivered = filter (\<lambda>(_, _, ts). now - ts < ENTRY_TTL) (pr_delivered r);
              r = r\<lparr>pr_delivered := delivered\<rparr>;
              count = (case map_of delivered p_value of None \<Rightarrow> 0 | Some (c, _) \<Rightarrow> c)
          in if count \<ge> MAX_DELIVERED_PER_P then (Inl ''recipient session budget exhausted'', r, conns)
             else if length delivered \<ge> DELIVERED_MAP_CAP \<and> map_of delivered p_value = None then (Inl ''relay at capacity'', r, conns)
             else let msg = PArray [PString ''EVENT'', PString (ps_sub_id sub), event] in
               (case pl_print L msg of
                  None \<Rightarrow> (Inr False, r, conns)
                | Some _ \<Rightarrow>
                   (let (sent, conns) = send_to (ps_conn_id sub) (OutText msg) conns in
                    if sent then (Inr True, r\<lparr>pr_delivered := AList.update p_value (count + 1, now) delivered\<rparr>, conns)
                    else (Inr False, r, conns))))
      | _ \<Rightarrow> (Inl ''ambiguous recipient'', st)))"

subsection \<open>Frames of a connection\<close>

definition make_ok :: "string \<Rightarrow> bool \<Rightarrow> string \<Rightarrow> out_msg" where
  "make_ok eid ok msg = OutText (PArray [PString ''OK'', PString eid, PBool ok, PString msg])"

definition make_closed :: "string \<Rightarrow> string \<Rightarrow> out_msg" where
  "make_closed sub_id msg = OutText (PArray [PString ''CLOSED'', PString sub_id, PString msg])"

definition make_eose :: "string \<Rightarrow> out_msg" where
  "make_eose sub_id = OutText (PArray [PString ''EOSE'', PString sub_id])"

definition make_notice :: "string \<Rightarrow> out_msg" where
  "make_notice msg = OutText (PArray [PString ''NOTICE'', PString msg])"

datatype conn_action = NextFrame | BreakConn | DeliverEvent string bytes bytes pair_json

definition answer :: "out_msg \<Rightarrow> pair_relay \<times> pair_conn \<Rightarrow> conn_action \<times> pair_relay \<times> pair_conn" where
  "answer msg st = (NextFrame, fst st, snd (pair_send msg (snd st)))"

definition handle_req :: "nat \<Rightarrow> pair_json list \<Rightarrow> pair_relay \<times> pair_conn \<Rightarrow> conn_action \<times> pair_relay \<times> pair_conn" where
  "handle_req conn_id arr st =
     (if length arr < 3 \<or> json_str (arr ! 1) = None then answer (make_notice ''error: invalid REQ'') st
      else case json_str (arr ! 1) of
        None \<Rightarrow> (NextFrame, st)
      | Some client_sub_id \<Rightarrow>
          if length client_sub_id > SUB_ID_MAX then answer (make_closed '''' ''error: sub_id too long'') st
          else if length arr > 3 then answer (make_closed client_sub_id ''error: multiple filters not supported'') st
          else if json_object (arr ! 2) = None then answer (make_closed client_sub_id ''error: invalid filter'') st
          else if pc_sub_id (snd st) \<noteq> None then answer (make_closed client_sub_id ''error: already subscribed, send CLOSE first'') st
          else (case validate_filter (arr ! 2) of
             Inl reason \<Rightarrow> answer (make_closed client_sub_id (''error: '' @ reason)) st
           | Inr p_value \<Rightarrow>
              (case st of (r, k) \<Rightarrow>
                 if list_ex (\<lambda>s. ps_p_value s = p_value) (pr_subs r)
                 then answer (make_closed client_sub_id ''error: #p already has a live subscriber'') st
                 else (case pair_send (make_eose client_sub_id) k of
                    (False, k) \<Rightarrow> (BreakConn, r, k)
                  | (True, k) \<Rightarrow> (NextFrame,
                      r\<lparr>pr_subs := pr_subs r @ [\<lparr>ps_conn_id = conn_id, ps_sub_id = client_sub_id, ps_p_value = p_value\<rparr>]\<rparr>,
                      k\<lparr>pc_sub_id := Some client_sub_id\<rparr>)))))"

text \<open>An event up to its reservation; \<open>wall\<close> is the clock of \<open>SystemTime\<close> in seconds.\<close>

definition handle_event ::
    "pair_lib \<Rightarrow> nat \<Rightarrow> int \<Rightarrow> pair_json list \<Rightarrow> pair_relay \<times> pair_conn \<Rightarrow> conn_action \<times> pair_relay \<times> pair_conn" where
  "handle_event L now wall arr st =
     (if length arr \<noteq> 2 then answer (make_notice ''error: invalid EVENT'') st
      else case st of (r, k) \<Rightarrow>
        let (n, w) = rate_tick now (pc_event_rate k); k = k\<lparr>pc_event_rate := w\<rparr>; ev = arr ! 1 in
        if n > RATE_EVENT_MAX then answer (make_ok (safe_event_id ev) False ''rate-limited'') (r, k)
        else if pc_events_attempted k \<ge> MAX_EVENTS_PER_CONN
        then answer (make_ok (safe_event_id ev) False ''error: session event limit reached'') (r, k)
        else if json_object ev = None then answer (make_ok '''' False ''invalid: malformed event'') (r, k)
        else (case validate_event wall ev of
           Inl reason \<Rightarrow> answer (make_ok (safe_event_id ev) False (''invalid: '' @ reason)) (r, k)
         | Inr (event_id, id_bytes, p_value) \<Rightarrow>
            (case verify_event_sig L ev of
               Inl reason \<Rightarrow> answer (make_ok event_id False reason) (r, k)
             | Inr _ \<Rightarrow>
                (let k = k\<lparr>pc_events_attempted := pc_events_attempted k + 1\<rparr> in
                 case reserve_id now id_bytes r of
                   (Inr True, r) \<Rightarrow> answer (make_ok event_id False ''duplicate: already seen'') (r, k)
                 | (Inl _, r) \<Rightarrow> answer (make_ok event_id False ''relay at capacity'') (r, k)
                 | (Inr False, r) \<Rightarrow> (DeliverEvent event_id id_bytes p_value ev, r, k)))))"

definition handle_close :: "nat \<Rightarrow> pair_json list \<Rightarrow> pair_relay \<times> pair_conn \<Rightarrow> conn_action \<times> pair_relay \<times> pair_conn" where
  "handle_close conn_id arr st =
     (if length arr \<noteq> 2 then answer (make_notice ''error: invalid CLOSE'') st
      else case json_str (arr ! 1) of
        Some sid \<Rightarrow>
          (case st of (r, k) \<Rightarrow>
             if pc_sub_id k = Some sid then (NextFrame, remove_sub conn_id r, k\<lparr>pc_sub_id := None\<rparr>) else (NextFrame, st))
      | None \<Rightarrow> answer (make_notice ''error: invalid CLOSE'') st)"

definition handle_text ::
    "pair_lib \<Rightarrow> nat \<Rightarrow> int \<Rightarrow> nat \<Rightarrow> string \<Rightarrow> pair_relay \<times> pair_conn \<Rightarrow> conn_action \<times> pair_relay \<times> pair_conn" where
  "handle_text L now wall conn_id txt st =
     (case Option.bind (pl_parse L txt) json_array of
        Some (v # rest) \<Rightarrow>
          (case json_str v of
             None \<Rightarrow> answer (make_notice ''error: invalid message'') st
           | Some verb \<Rightarrow>
              if verb = ''REQ'' then handle_req conn_id (v # rest) st
              else if verb = ''EVENT'' then handle_event L now wall (v # rest) st
              else if verb = ''CLOSE'' then handle_close conn_id (v # rest) st
              else answer (make_notice ''error: unsupported message'') st)
      | _ \<Rightarrow> answer (make_notice ''error: invalid message'') st)"

datatype pair_frame = FText string | FBinary | FPing bytes | FPong | FClose | FError

definition handle_frame ::
    "pair_lib \<Rightarrow> nat \<Rightarrow> int \<Rightarrow> nat \<Rightarrow> pair_frame \<Rightarrow> pair_relay \<times> pair_conn \<Rightarrow> conn_action \<times> pair_relay \<times> pair_conn" where
  "handle_frame L now wall conn_id frame st = (case st of (r, k) \<Rightarrow>
     let (n, w) = rate_tick now (pc_msg_rate k); k = k\<lparr>pc_msg_rate := w\<rparr> in
     if n > RATE_MSG_MAX then (BreakConn, r, k)
     else (case frame of
        FError \<Rightarrow> (BreakConn, r, k)
      | FBinary \<Rightarrow> (BreakConn, r, k)
      | FPing payload \<Rightarrow>
          (case pair_send (OutPong payload) k of (True, k) \<Rightarrow> (NextFrame, r, k) | (False, k) \<Rightarrow> (BreakConn, r, k))
      | FPong \<Rightarrow> (NextFrame, r, k)
      | FClose \<Rightarrow> (BreakConn, r, snd (pair_send OutClose k))
      | FText txt \<Rightarrow> handle_text L now wall conn_id txt (r, k)))"

text \<open>The rest of an event: the delivery, the reservation given back when it fails, and the answer.\<close>

definition finish_event ::
    "pair_lib \<Rightarrow> nat \<Rightarrow> nat \<Rightarrow> string \<Rightarrow> bytes \<Rightarrow> bytes \<Rightarrow> pair_json \<Rightarrow> pair_relay \<times> pair_conns \<Rightarrow> bool \<times> pair_relay \<times> pair_conns" where
  "finish_event L now conn_id event_id id_bytes p_value ev st =
     (case deliver_single L now p_value ev st of
        (Inr True, r, conns) \<Rightarrow> (True, r, snd (send_to conn_id (make_ok event_id True '''') conns))
      | (Inr False, r, conns) \<Rightarrow> (False, unreserve_id id_bytes r, snd (send_to conn_id (make_ok event_id False ''delivery failed'') conns))
      | (Inl reason, r, conns) \<Rightarrow> (False, unreserve_id id_bytes r, snd (send_to conn_id (make_ok event_id False reason) conns)))"

subsection \<open>Admission of connections\<close>

text \<open>The number of the connection, or none when the relay is full; then the slot is still to be given back.\<close>

definition connect :: "pair_relay \<Rightarrow> nat option \<times> pair_relay" where
  "connect r =
     (let count = pr_conn_count r; r = r\<lparr>pr_conn_count := count + 1\<rparr> in
      if count \<ge> MAX_CONNS then (None, r)
      else (Some (pr_next_conn_id r), r\<lparr>pr_next_conn_id := pr_next_conn_id r + 1\<rparr>))"

definition release_slot :: "pair_relay \<Rightarrow> pair_relay" where
  "release_slot r = r\<lparr>pr_conn_count := pr_conn_count r - 1\<rparr>"

subsection \<open>Runs of the relay\<close>

text \<open>
  The tasks of the relay in any order. An event between its reservation and its delivery is in flight,
  and its connection reads no other frame. Clocks move forward together: the wall clock is a fixed
  offset ahead of the instants, and no event stays in flight for more than \<open>HANDLING_MAX\<close> (the code
  between has no wait). Requests turned away and connections that ended give their slot back later.
  The history holds the deliveries, newest first, with the instants of reservation and delivery.
\<close>

definition HANDLING_MAX :: nat where "HANDLING_MAX = 50000"

record in_flight =
  if_conn :: nat
  if_event_id :: string
  if_id :: bytes
  if_p :: bytes
  if_event :: pair_json
  if_reserved :: nat

record pair_delivery =
  dl_id :: bytes
  dl_p :: bytes
  dl_event :: pair_json
  dl_reserved :: nat
  dl_time :: nat

record pair_world =
  w_now :: nat
  w_relay :: pair_relay
  w_conns :: pair_conns
  w_inflight :: "in_flight list"
  w_refused :: nat
  w_ending :: nat
  w_history :: "pair_delivery list"

definition wall_secs :: "nat \<Rightarrow> nat \<Rightarrow> int" where
  "wall_secs offset now = int ((offset + now) div 1000)"

definition new_world :: pair_world where
  "new_world = \<lparr>w_now = 0, w_relay = new_relay, w_conns = [], w_inflight = [], w_refused = 0, w_ending = 0, w_history = []\<rparr>"

definition reading :: "nat \<Rightarrow> pair_conn \<Rightarrow> pair_world \<Rightarrow> bool" where
  "reading c k w \<longleftrightarrow> map_of (w_conns w) c = Some k \<and> c \<notin> if_conn ` set (w_inflight w)"

text \<open>The end of a connection: its subscription goes, its slot is given back when the task returns.\<close>

definition end_conn :: "nat \<Rightarrow> pair_relay \<Rightarrow> pair_world \<Rightarrow> pair_world" where
  "end_conn c r w = w\<lparr>w_relay := remove_sub c r, w_conns := AList.delete c (w_conns w), w_ending := w_ending w + 1\<rparr>"

inductive pair_step :: "pair_lib \<Rightarrow> nat \<Rightarrow> pair_world \<Rightarrow> pair_world \<Rightarrow> bool" for L offset where
  pair_time: "\<forall>e\<in>set (w_inflight w). w_now w + d \<le> if_reserved e + HANDLING_MAX \<Longrightarrow>
    pair_step L offset w (w\<lparr>w_now := w_now w + d\<rparr>)"
| pair_open: "connect (w_relay w) = (Some c, r) \<Longrightarrow>
    pair_step L offset w (w\<lparr>w_relay := r, w_conns := (c, new_conn (w_now w)) # w_conns w\<rparr>)"
| pair_refuse: "connect (w_relay w) = (None, r) \<Longrightarrow> pair_step L offset w (w\<lparr>w_relay := r, w_refused := w_refused w + 1\<rparr>)"
| pair_refused: "w_refused w = Suc n \<Longrightarrow> pair_step L offset w (w\<lparr>w_relay := release_slot (w_relay w), w_refused := n\<rparr>)"
| pair_closed: "w_ending w = Suc n \<Longrightarrow> pair_step L offset w (w\<lparr>w_relay := release_slot (w_relay w), w_ending := n\<rparr>)"
| pair_frame: "reading c k w \<Longrightarrow> handle_frame L (w_now w) (wall_secs offset (w_now w)) c f (w_relay w, k) = (NextFrame, r, k') \<Longrightarrow>
    pair_step L offset w (w\<lparr>w_relay := r, w_conns := AList.update c k' (w_conns w)\<rparr>)"
| pair_event: "reading c k w \<Longrightarrow>
    handle_frame L (w_now w) (wall_secs offset (w_now w)) c f (w_relay w, k) = (DeliverEvent eid i p ev, r, k') \<Longrightarrow>
    pair_step L offset w (w\<lparr>w_relay := r, w_conns := AList.update c k' (w_conns w),
      w_inflight := \<lparr>if_conn = c, if_event_id = eid, if_id = i, if_p = p, if_event = ev, if_reserved = w_now w\<rparr> # w_inflight w\<rparr>)"
| pair_break: "reading c k w \<Longrightarrow> handle_frame L (w_now w) (wall_secs offset (w_now w)) c f (w_relay w, k) = (BreakConn, r, k') \<Longrightarrow>
    pair_step L offset w (end_conn c r w)"
| pair_end: "reading c k w \<Longrightarrow> pair_step L offset w (end_conn c (w_relay w) w)"
| pair_finish: "w_inflight w = as @ e # bs \<Longrightarrow>
    finish_event L (w_now w) (if_conn e) (if_event_id e) (if_id e) (if_p e) (if_event e) (w_relay w, w_conns w) = (fin, r, conns) \<Longrightarrow>
    pair_step L offset w (w\<lparr>w_relay := r, w_conns := conns, w_inflight := as @ bs,
      w_history := (if fin then [\<lparr>dl_id = if_id e, dl_p = if_p e, dl_event = if_event e, dl_reserved = if_reserved e, dl_time = w_now w\<rparr>] else [])
        @ w_history w\<rparr>)"
| pair_written: "map_of (w_conns w) c = Some k \<Longrightarrow> pc_out k = msg # msgs \<Longrightarrow>
    pair_step L offset w (w\<lparr>w_conns := AList.update c (k\<lparr>pc_out := msgs\<rparr>) (w_conns w)\<rparr>)"
| pair_writer_gone: "map_of (w_conns w) c = Some k \<Longrightarrow>
    pair_step L offset w (w\<lparr>w_conns := AList.update c (k\<lparr>pc_writing := False\<rparr>) (w_conns w)\<rparr>)"

inductive pair_run :: "pair_lib \<Rightarrow> nat \<Rightarrow> pair_world \<Rightarrow> bool" for L offset where
  pair_start: "pair_run L offset new_world"
| pair_next: "pair_run L offset w \<Longrightarrow> pair_step L offset w w' \<Longrightarrow> pair_run L offset w'"

subsection \<open>Deduplication\<close>

definition valid_at :: "pair_lib \<Rightarrow> nat \<Rightarrow> nat \<Rightarrow> bytes \<Rightarrow> bytes \<Rightarrow> pair_json \<Rightarrow> bool" where
  "valid_at L offset t i p ev \<longleftrightarrow> (\<exists>eid. validate_event (wall_secs offset t) ev = Inr (eid, i, p)) \<and> verify_event_sig L ev = Inr ()"

text \<open>Both the events in flight and the unexpired deliveries hold their id.\<close>

definition seen_ok :: "pair_lib \<Rightarrow> nat \<Rightarrow> nat \<Rightarrow> (bytes \<times> nat) list \<Rightarrow> in_flight list \<Rightarrow> pair_delivery list \<Rightarrow> bool" where
  "seen_ok L offset now seen inflight history \<longleftrightarrow>
     distinct (map fst seen)
     \<and> (\<forall>e\<in>set inflight. (if_id e, if_reserved e) \<in> set seen \<and> if_reserved e \<le> now
         \<and> now \<le> if_reserved e + HANDLING_MAX \<and> valid_at L offset (if_reserved e) (if_id e) (if_p e) (if_event e)
         \<and> (\<forall>d\<in>set history. dl_id d = if_id e \<longrightarrow> dl_reserved d + ENTRY_TTL \<le> if_reserved e))
     \<and> distinct (map if_id inflight)
     \<and> (\<forall>d\<in>set history. dl_reserved d \<le> now \<and> valid_at L offset (dl_reserved d) (dl_id d) (dl_p d) (dl_event d)
         \<and> (now < dl_reserved d + ENTRY_TTL \<longrightarrow> (dl_id d, dl_reserved d) \<in> set seen))
     \<and> sorted_wrt (\<lambda>d d'. dl_id d = dl_id d' \<longrightarrow> dl_reserved d' + ENTRY_TTL \<le> dl_reserved d) history"

text \<open>What the operations do to the reserved ids.\<close>

lemma pair_send_fields:
  assumes "pair_send msg k = (b, k')"
  shows "pc_events_attempted k' = pc_events_attempted k" "pc_sub_id k' = pc_sub_id k"
    "length (pc_out k) \<le> CHANNEL_CAP \<Longrightarrow> length (pc_out k') \<le> CHANNEL_CAP"
  using assms by (auto simp: pair_send_def split: if_splits)

lemma deliver_single_seen:
  assumes "deliver_single L now p ev (r, conns) = (res, r', conns')"
  shows "pr_seen_ids r' = pr_seen_ids r" "pr_subs r' = pr_subs r" "pr_conn_count r' = pr_conn_count r" "pr_next_conn_id r' = pr_next_conn_id r"
  using assms by (auto simp: deliver_single_def Let_def split: list.splits if_splits option.splits prod.splits)

lemma set_swap_remove:
  assumes "distinct xs" and "i < length xs"
  shows "set (swap_remove i xs) = set xs - {xs ! i}" and "distinct (swap_remove i xs)"
proof -
  obtain ys y where xs: "xs = ys @ [y]" using assms(2) by (metis append_butlast_last_id length_greater_0_conv less_nat_zero_code list.size(3))
  show "set (swap_remove i xs) = set xs - {xs ! i}"
  proof (cases "i = length ys")
    case True
    then show ?thesis using assms xs by (auto simp: swap_remove_def list_update_append)
  next
    case False
    then have i: "i < length ys" using assms(2) xs by simp
    then have "swap_remove i xs = ys[i := y]" using xs by (simp add: swap_remove_def list_update_append)
    moreover have "set (ys[i := y]) = insert y (set ys - {ys ! i})" using i assms(1) xs by (simp add: set_update_distinct)
    ultimately show ?thesis using i assms(1) xs by (auto simp: nth_append)
  qed
  show "distinct (swap_remove i xs)"
  proof (cases "i = length ys")
    case True
    then show ?thesis using assms xs by (auto simp: swap_remove_def list_update_append)
  next
    case False
    then have "swap_remove i xs = ys[i := y]" using assms(2) xs by (simp add: swap_remove_def list_update_append)
    then show ?thesis using assms(1) xs by (auto intro: distinct_list_update)
  qed
qed

lemma unreserve_seen:
  assumes "distinct (map fst (pr_seen_ids r))"
  shows "set (pr_seen_ids (unreserve_id i r)) = {x \<in> set (pr_seen_ids r). fst x \<noteq> i}" "distinct (map fst (pr_seen_ids (unreserve_id i r)))"
    "length (pr_seen_ids (unreserve_id i r)) \<le> length (pr_seen_ids r)"
    "pr_subs (unreserve_id i r) = pr_subs r" "pr_delivered (unreserve_id i r) = pr_delivered r"
    "pr_conn_count (unreserve_id i r) = pr_conn_count r" "pr_next_conn_id (unreserve_id i r) = pr_next_conn_id r"
proof -
  let ?v = "pr_seen_ids r" and ?pos = "length (takeWhile (\<lambda>(e, _). e \<noteq> i) (pr_seen_ids r))"
  have d: "distinct ?v" using assms by (simp add: distinct_map)
  have "set (pr_seen_ids (unreserve_id i r)) = {x \<in> set ?v. fst x \<noteq> i} \<and> distinct (map fst (pr_seen_ids (unreserve_id i r)))
    \<and> length (pr_seen_ids (unreserve_id i r)) \<le> length ?v"
  proof (cases "?pos < length ?v")
    case True
    then have e: "fst (?v ! ?pos) = i" using nth_length_takeWhile [OF True] by (auto split: prod.splits)
    have u: "pr_seen_ids (unreserve_id i r) = swap_remove ?pos ?v" using True by (simp add: unreserve_id_def Let_def)
    have "map fst (swap_remove ?pos ?v) = swap_remove ?pos (map fst ?v)"
      using True by (cases "?v = []") (auto simp: swap_remove_def map_butlast map_update last_map)
    then have "distinct (map fst (swap_remove ?pos ?v))" using set_swap_remove(2) [of "map fst ?v" ?pos] assms True by simp
    moreover have "set (swap_remove ?pos ?v) = {x \<in> set ?v. fst x \<noteq> i}"
    proof -
      have "x = ?v ! ?pos" if "x \<in> set ?v" "fst x = i" for x
        using that e True assms by (metis eq_key_imp_eq_value nth_mem prod.collapse)
      then show ?thesis using set_swap_remove(1) [OF d True] e by auto
    qed
    ultimately show ?thesis using u by (simp add: swap_remove_def)
  next
    case False
    then have "takeWhile (\<lambda>(e, _). e \<noteq> i) ?v = ?v" by (metis length_takeWhile_le nat_less_le takeWhile_eq_take take_all_iff)
    then have "\<forall>x\<in>set ?v. fst x \<noteq> i" by (auto simp: takeWhile_eq_all_conv)
    moreover have "unreserve_id i r = r" using False by (simp add: unreserve_id_def)
    ultimately show ?thesis using assms by auto
  qed
  then show "set (pr_seen_ids (unreserve_id i r)) = {x \<in> set ?v. fst x \<noteq> i}" "distinct (map fst (pr_seen_ids (unreserve_id i r)))"
    "length (pr_seen_ids (unreserve_id i r)) \<le> length ?v" by auto
qed (simp_all add: unreserve_id_def Let_def)

abbreviation unexpired :: "nat \<Rightarrow> (bytes \<times> nat) list \<Rightarrow> (bytes \<times> nat) list" where
  "unexpired now \<equiv> filter (\<lambda>(_, ts). now - ts < ENTRY_TTL)"

lemma reserve_seen:
  assumes "reserve_id now i r = (res, r')"
  shows "pr_seen_ids r' = unexpired now (pr_seen_ids r) @ (if res = Inr False then [(i, now)] else [])"
    "res = Inr False \<Longrightarrow> i \<notin> fst ` set (unexpired now (pr_seen_ids r)) \<and> length (unexpired now (pr_seen_ids r)) < DEDUP_CAP"
    "pr_subs r' = pr_subs r" "pr_delivered r' = pr_delivered r" "pr_conn_count r' = pr_conn_count r" "pr_next_conn_id r' = pr_next_conn_id r"
  using assms by (auto simp: reserve_id_def Let_def list_ex_iff split: if_splits)

text \<open>What handling a frame does: to the tables, and to the connection.\<close>

definition frame_effect :: "pair_lib \<Rightarrow> nat \<Rightarrow> int \<Rightarrow> nat \<Rightarrow> pair_relay \<times> pair_conn \<Rightarrow> conn_action \<times> pair_relay \<times> pair_conn \<Rightarrow> bool" where
  "frame_effect L now wall c st out \<longleftrightarrow> (case st of (r, k) \<Rightarrow> (case out of (act, r', k') \<Rightarrow>
     (case act of
        DeliverEvent eid i p ev \<Rightarrow> reserve_id now i r = (Inr False, r') \<and> validate_event wall ev = Inr (eid, i, p) \<and> verify_event_sig L ev = Inr ()
      | _ \<Rightarrow> pr_seen_ids r' = pr_seen_ids r \<or> pr_seen_ids r' = unexpired now (pr_seen_ids r))
     \<and> pr_delivered r' = pr_delivered r \<and> pr_conn_count r' = pr_conn_count r \<and> pr_next_conn_id r' = pr_next_conn_id r
     \<and> (pc_events_attempted k \<le> MAX_EVENTS_PER_CONN \<longrightarrow> pc_events_attempted k' \<le> MAX_EVENTS_PER_CONN)
     \<and> (length (pc_out k) \<le> CHANNEL_CAP \<longrightarrow> length (pc_out k') \<le> CHANNEL_CAP)
     \<and> (pr_subs r' = pr_subs r \<and> pc_sub_id k' = pc_sub_id k
        \<or> pr_subs r' = filter (\<lambda>s. ps_conn_id s \<noteq> c) (pr_subs r)
        \<or> (\<exists>sid p. pc_sub_id k = None \<and> pc_sub_id k' = Some sid \<and> p \<notin> ps_p_value ` set (pr_subs r)
             \<and> pr_subs r' = pr_subs r @ [\<lparr>ps_conn_id = c, ps_sub_id = sid, ps_p_value = p\<rparr>]))))"

lemma answer_effect: "frame_effect L now wall c (r, k) (answer msg (r, k))"
  by (auto simp: frame_effect_def answer_def pair_send_def)

lemma req_effect: "frame_effect L now wall c (r, k) (handle_req c arr (r, k))"
  unfolding handle_req_def
  by (auto simp: answer_effect split: option.split sum.split) (auto simp: frame_effect_def pair_send_def list_ex_iff)

lemma close_effect: "frame_effect L now wall c (r, k) (handle_close c arr (r, k))"
  unfolding handle_close_def
  by (auto simp: answer_effect split: option.split) (auto simp: frame_effect_def remove_sub_def)

text \<open>An answer after the rate windows and the attempts of the connection changed, and after an eviction.\<close>

lemma answer_effect':
  assumes "pr_seen_ids r' = pr_seen_ids r \<or> pr_seen_ids r' = unexpired now (pr_seen_ids r)"
    and "pr_delivered r' = pr_delivered r" "pr_conn_count r' = pr_conn_count r" "pr_next_conn_id r' = pr_next_conn_id r" "pr_subs r' = pr_subs r"
    and "pc_events_attempted k \<le> MAX_EVENTS_PER_CONN \<Longrightarrow> pc_events_attempted k' \<le> MAX_EVENTS_PER_CONN" and "pc_out k' = pc_out k" and "pc_sub_id k' = pc_sub_id k"
  shows "frame_effect L now wall c (r, k) (answer msg (r', k'))"
  using assms by (auto simp: frame_effect_def answer_def pair_send_def)

lemma event_effect: "frame_effect L now wall c (r, k) (handle_event L now wall arr (r, k))"
proof -
  obtain n w where w: "rate_tick now (pc_event_rate k) = (n, w)" by (cases "rate_tick now (pc_event_rate k)")
  show ?thesis
  proof (cases "length arr = 2 \<and> n \<le> RATE_EVENT_MAX \<and> pc_events_attempted k < MAX_EVENTS_PER_CONN \<and> json_object (arr ! 1) \<noteq> None")
    case False
    then show ?thesis using w by (auto simp: handle_event_def Let_def answer_effect intro!: answer_effect')
  next
    case ok: True
    show ?thesis
    proof (cases "\<exists>v. validate_event wall (arr ! 1) = Inr v \<and> verify_event_sig L (arr ! 1) = Inr ()")
      case False
      then show ?thesis using ok w
        by (auto simp: handle_event_def Let_def answer_effect intro!: answer_effect' split: sum.splits)
    next
      case True
      then obtain eid i p where v: "validate_event wall (arr ! 1) = Inr (eid, i, p)" "verify_event_sig L (arr ! 1) = Inr ()" by auto
      obtain res r' where res: "reserve_id now i r = (res, r')" by (cases "reserve_id now i r")
      note eff = reserve_seen [OF res]
      show ?thesis
      proof (cases "res = Inr False")
        case True
        then show ?thesis using ok w v res eff by (auto simp: handle_event_def Let_def frame_effect_def MAX_EVENTS_PER_CONN_def)
      next
        case False
        then show ?thesis using ok w v res eff
          by (cases res) (auto simp: handle_event_def Let_def MAX_EVENTS_PER_CONN_def intro!: answer_effect' split: bool.splits)
      qed
    qed
  qed
qed

lemma text_effect: "frame_effect L now wall c (r, k) (handle_text L now wall c txt (r, k))"
  unfolding handle_text_def
  by (auto simp: answer_effect req_effect event_effect close_effect split: option.split list.split)

lemma handle_frame_effect: "frame_effect L now wall c (r, k) (handle_frame L now wall c f (r, k))"
proof -
  obtain n w where w: "rate_tick now (pc_msg_rate k) = (n, w)" by (cases "rate_tick now (pc_msg_rate k)")
  have "frame_effect L now wall c (r, k) (handle_text L now wall c t (r, k\<lparr>pc_msg_rate := w\<rparr>))" for t
    using text_effect [of L now wall c r "k\<lparr>pc_msg_rate := w\<rparr>" t] by (auto simp: frame_effect_def)
  then show ?thesis using w
    by (auto simp: handle_frame_def Let_def split: pair_frame.split) (auto simp: frame_effect_def pair_send_def)
qed

lemma distinct_other: "distinct (map f (as @ e # bs)) \<Longrightarrow> e' \<in> set (as @ bs) \<Longrightarrow> f e' \<noteq> f e"
  by (auto simp: image_iff)

lemma seen_evict:
  assumes "seen_ok L offset now seen inflight history" and "seen' = seen \<or> seen' = unexpired now seen"
  shows "seen_ok L offset now seen' inflight history"
proof -
  have "distinct (map fst (unexpired now seen))" using assms(1) by (simp add: seen_ok_def distinct_map_filter)
  then show ?thesis using assms unfolding seen_ok_def by (auto simp: HANDLING_MAX_def ENTRY_TTL_def)
qed

lemma seen_time:
  assumes "seen_ok L offset now seen inflight history" and "\<forall>e\<in>set inflight. now + d \<le> if_reserved e + HANDLING_MAX"
  shows "seen_ok L offset (now + d) seen inflight history"
  using assms by (auto simp: seen_ok_def)

lemma seen_reserve:
  assumes "seen_ok L offset now seen inflight history" and "i \<notin> fst ` set (unexpired now seen)" and "valid_at L offset now i p ev"
  shows "seen_ok L offset now (unexpired now seen @ [(i, now)])
    (\<lparr>if_conn = c, if_event_id = eid, if_id = i, if_p = p, if_event = ev, if_reserved = now\<rparr> # inflight) history"
proof -
  let ?u = "unexpired now seen"
  have ok: "seen_ok L offset now ?u inflight history" using seen_evict [OF assms(1)] by blast
  have "if_id e \<noteq> i" if "e \<in> set inflight" for e
  proof -
    have "(if_id e, if_reserved e) \<in> set ?u" using ok that by (simp add: seen_ok_def)
    then show ?thesis using assms(2) by (metis fst_conv imageI)
  qed
  moreover have "dl_reserved d + ENTRY_TTL \<le> now" if "d \<in> set history" "dl_id d = i" for d
  proof (rule ccontr)
    assume "\<not> dl_reserved d + ENTRY_TTL \<le> now"
    then have "(dl_id d, dl_reserved d) \<in> set ?u" using ok that(1) by (simp add: seen_ok_def)
    then show False using assms(2) that(2) by (metis fst_conv imageI)
  qed
  moreover have "distinct (map fst (?u @ [(i, now)]))" using ok assms(2) by (simp add: seen_ok_def)
  ultimately show ?thesis using ok assms(3) unfolding seen_ok_def by auto
qed

lemma seen_delivered:
  assumes "seen_ok L offset now seen (as @ e # bs) history"
  shows "seen_ok L offset now seen (as @ bs)
    (\<lparr>dl_id = if_id e, dl_p = if_p e, dl_event = if_event e, dl_reserved = if_reserved e, dl_time = now\<rparr> # history)"
proof -
  have "if_id e' \<noteq> if_id e" if "e' \<in> set (as @ bs)" for e'
    using assms that distinct_other [of if_id as e bs e'] unfolding seen_ok_def by blast
  then show ?thesis using assms unfolding seen_ok_def by auto
qed

lemma seen_given_back:
  assumes "seen_ok L offset now seen (as @ e # bs) history" and "set seen' = {x \<in> set seen. fst x \<noteq> if_id e}" and "distinct (map fst seen')"
  shows "seen_ok L offset now seen' (as @ bs) history"
proof -
  have other: "if_id e' \<noteq> if_id e" if "e' \<in> set (as @ bs)" for e'
    using assms(1) that distinct_other [of if_id as e bs e'] unfolding seen_ok_def by blast
  have "dl_id d \<noteq> if_id e" if "d \<in> set history" "now < dl_reserved d + ENTRY_TTL" for d
  proof
    assume eq: "dl_id d = if_id e"
    then have "(if_id e, dl_reserved d) \<in> set seen" "(if_id e, if_reserved e) \<in> set seen" "dl_reserved d + ENTRY_TTL \<le> if_reserved e"
      using assms(1) that by (auto simp: seen_ok_def)
    then show False using assms(1) by (auto simp: seen_ok_def ENTRY_TTL_def dest: eq_key_imp_eq_value)
  qed
  then show ?thesis using assms other unfolding seen_ok_def by auto
qed

lemma finish_effect:
  assumes "finish_event L now c eid i p ev (r, conns) = (fin, r', conns')" and "distinct (map fst (pr_seen_ids r))"
  shows "if fin then pr_seen_ids r' = pr_seen_ids r
    else set (pr_seen_ids r') = {x \<in> set (pr_seen_ids r). fst x \<noteq> i} \<and> distinct (map fst (pr_seen_ids r'))"
proof -
  obtain res r1 conns1 where d: "deliver_single L now p ev (r, conns) = (res, r1, conns1)" by (metis prod_cases3)
  note e = deliver_single_seen [OF d]
  have u: "set (pr_seen_ids (unreserve_id i r1)) = {x \<in> set (pr_seen_ids r). fst x \<noteq> i}" "distinct (map fst (pr_seen_ids (unreserve_id i r1)))"
    using unreserve_seen(1,2) [of r1 i] e(1) assms(2) by simp_all
  show ?thesis
  proof (cases "res = Inr True")
    case True
    then show ?thesis using assms(1) d e(1) by (simp add: finish_event_def)
  next
    case False
    then have "\<not> fin \<and> r' = unreserve_id i r1" using assms(1) d by (auto simp: finish_event_def split: sum.splits bool.splits)
    then show ?thesis using u by simp
  qed
qed

abbreviation seen_inv :: "pair_lib \<Rightarrow> nat \<Rightarrow> pair_world \<Rightarrow> bool" where
  "seen_inv L offset w \<equiv> seen_ok L offset (w_now w) (pr_seen_ids (w_relay w)) (w_inflight w) (w_history w)"

lemma connect_effect:
  assumes "connect r = (res, r')"
  shows "pr_seen_ids r' = pr_seen_ids r" "pr_subs r' = pr_subs r" "pr_delivered r' = pr_delivered r" "pr_conn_count r' = pr_conn_count r + 1"
    "res = Some c \<Longrightarrow> c = pr_next_conn_id r \<and> pr_next_conn_id r' = Suc c \<and> pr_conn_count r < MAX_CONNS" "res = None \<Longrightarrow> pr_next_conn_id r' = pr_next_conn_id r"
  using assms by (auto simp: connect_def Let_def split: if_splits)

lemma seen_inv_step: "pair_step L offset w w' \<Longrightarrow> seen_inv L offset w \<Longrightarrow> seen_inv L offset w'"
proof (induction rule: pair_step.induct)
  case (pair_time w d)
  then show ?case using seen_time by simp
next
  case (pair_frame c k w f r k')
  have "pr_seen_ids r = pr_seen_ids (w_relay w) \<or> pr_seen_ids r = unexpired (w_now w) (pr_seen_ids (w_relay w))"
    using handle_frame_effect [of L "w_now w" "wall_secs offset (w_now w)" c "w_relay w" k f] pair_frame(2) by (simp add: frame_effect_def)
  then show ?case using seen_evict [OF pair_frame(3)] by simp
next
  case (pair_event c k w f eid i p ev r k')
  have e: "reserve_id (w_now w) i (w_relay w) = (Inr False, r)" "valid_at L offset (w_now w) i p ev"
    using handle_frame_effect [of L "w_now w" "wall_secs offset (w_now w)" c "w_relay w" k f] pair_event(2)
    by (simp_all add: frame_effect_def valid_at_def)
  show ?case using seen_reserve [OF pair_event(3) _ e(2)] reserve_seen(1,2) [OF e(1)] by simp
next
  case (pair_break c k w f r k')
  have "pr_seen_ids r = pr_seen_ids (w_relay w) \<or> pr_seen_ids r = unexpired (w_now w) (pr_seen_ids (w_relay w))"
    using handle_frame_effect [of L "w_now w" "wall_secs offset (w_now w)" c "w_relay w" k f] pair_break(2) by (simp add: frame_effect_def)
  then show ?case using seen_evict [OF pair_break(3)] by (simp add: end_conn_def remove_sub_def)
next
  case (pair_finish w as e bs fin r conns)
  note inv = pair_finish(3) [unfolded pair_finish(1)]
  have d: "distinct (map fst (pr_seen_ids (w_relay w)))" using inv by (simp add: seen_ok_def)
  show ?case
  proof (cases fin)
    case True
    then show ?thesis using seen_delivered [OF inv] finish_effect [OF pair_finish(2) d] by simp
  next
    case False
    then show ?thesis using seen_given_back [OF inv] finish_effect [OF pair_finish(2) d] by simp
  qed
qed (auto simp: connect_effect release_slot_def end_conn_def remove_sub_def)

lemma pair_run_seen: "pair_run L offset w \<Longrightarrow> seen_inv L offset w"
proof (induction rule: pair_run.induct)
  case pair_start
  show ?case by (simp add: seen_ok_def new_world_def new_relay_def)
next
  case (pair_next w w')
  then show ?case using seen_inv_step by blast
qed

text \<open>The text an event commits to, whose hash is its id.\<close>

definition committed :: "pair_lib \<Rightarrow> pair_json \<Rightarrow> int \<Rightarrow> string \<Rightarrow> bool" where
  "committed L ev created_at x \<longleftrightarrow> (\<exists>obj pubkey kind tags content.
     json_object ev = Some obj \<and> str_field ''pubkey'' obj = Some pubkey \<and> Option.bind (map_of obj ''created_at'') json_i64 = Some created_at
     \<and> Option.bind (map_of obj ''kind'') json_u64 = Some kind \<and> map_of obj ''tags'' = Some tags \<and> str_field ''content'' obj = Some content
     \<and> pl_print L (commitment pubkey created_at kind tags content) = Some x)"

lemma ok_or_Inr [simp]: "ok_or e x = Inr y \<longleftrightarrow> x = Some y"
  by (cases x) auto

lemma verified_committed:
  assumes "valid_at L offset t i p ev"
  shows "\<exists>created_at x. committed L ev created_at x \<and> pl_sha256 L x = i \<and> \<bar>created_at - wall_secs offset t\<bar> \<le> 120"
proof -
  obtain eid where v: "validate_event (wall_secs offset t) ev = Inr (eid, i, p)" and s: "verify_event_sig L ev = Inr ()"
    using assms by (auto simp: valid_at_def)
  obtain obj created_at where v': "json_object ev = Some obj" "Option.bind (map_of obj ''created_at'') json_i64 = Some created_at"
      "\<bar>created_at - wall_secs offset t\<bar> \<le> 120" "str_field ''id'' obj = Some eid" "decode_hex32 eid = Some i"
    using v unfolding validate_event_def by (auto simp: and_then_eq_Inr FRESHNESS_SECS_def split: if_splits)
  have "\<exists>x. committed L ev created_at x \<and> pl_sha256 L x = i"
    using s v' unfolding verify_event_sig_def by (fastforce simp: and_then_eq_Inr Let_def committed_def split: if_splits)
  then show ?thesis using v'(3) by blast
qed

text \<open>C11. The relay delivers an event at most once, ever: although the ids it remembers expire after five
  minutes, an event is only fresh for four, so in every run every delivered event had passed the
  checks and its signature when its id was reserved, and two deliveries with the same id exhibit
  two different texts with the same hash. The printer of JSON is taken to be injective.\<close>

theorem pair_events_delivered_once:
  assumes "pair_run L offset w" and "\<forall>v v' s. pl_print L v = Some s \<and> pl_print L v' = Some s \<longrightarrow> v = v'"
  shows "(\<forall>d\<in>set (w_history w). valid_at L offset (dl_reserved d) (dl_id d) (dl_p d) (dl_event d))
    \<and> (\<forall>i j. i < j \<and> j < length (w_history w) \<and> dl_id (w_history w ! i) = dl_id (w_history w ! j) \<longrightarrow>
         (\<exists>c c' x y. committed L (dl_event (w_history w ! i)) c x \<and> committed L (dl_event (w_history w ! j)) c' y
            \<and> x \<noteq> y \<and> pl_sha256 L x = pl_sha256 L y))"
proof -
  let ?H = "w_history w"
  have ok: "seen_inv L offset w" using assms(1) by (rule pair_run_seen)
  have valid: "valid_at L offset (dl_reserved d) (dl_id d) (dl_p d) (dl_event d)" if "d \<in> set ?H" for d
    using ok that by (simp add: seen_ok_def)
  have "\<exists>c c' x y. committed L (dl_event (?H ! i)) c x \<and> committed L (dl_event (?H ! j)) c' y \<and> x \<noteq> y \<and> pl_sha256 L x = pl_sha256 L y"
    if ij: "i < j" "j < length ?H" "dl_id (?H ! i) = dl_id (?H ! j)" for i j
  proof -
    have apart: "dl_reserved (?H ! j) + 300000 \<le> dl_reserved (?H ! i)"
      using ok ij sorted_wrt_nth_less [of _ ?H i j] by (auto simp: seen_ok_def ENTRY_TTL_def)
    have mem: "?H ! i \<in> set ?H" "?H ! j \<in> set ?H" using ij by simp_all
    obtain c x where x: "committed L (dl_event (?H ! i)) c x" "pl_sha256 L x = dl_id (?H ! i)" "\<bar>c - wall_secs offset (dl_reserved (?H ! i))\<bar> \<le> 120"
      using verified_committed [OF valid [OF mem(1)]] by blast
    obtain c' y where y: "committed L (dl_event (?H ! j)) c' y" "pl_sha256 L y = dl_id (?H ! j)" "\<bar>c' - wall_secs offset (dl_reserved (?H ! j))\<bar> \<le> 120"
      using verified_committed [OF valid [OF mem(2)]] by blast
    have "wall_secs offset (dl_reserved (?H ! j)) + 300 \<le> wall_secs offset (dl_reserved (?H ! i))"
      using div_le_mono [OF apart, of 1000] div_le_mono [of "offset + dl_reserved (?H ! j) + 300 * 1000" "offset + dl_reserved (?H ! i)" 1000] apart
      by (simp add: wall_secs_def)
    then have "c \<noteq> c'" using x(3) y(3) by linarith
    then have "x \<noteq> y" using x(1) y(1) assms(2) by (auto simp: committed_def commitment_def)
    then show ?thesis using x y ij(3) by metis
  qed
  then show ?thesis using valid by blast
qed

subsection \<open>Bounded resources\<close>

text \<open>A change of the connections that keeps who they are, what they subscribed to and what they tried.\<close>

definition conns_kept :: "pair_conns \<Rightarrow> pair_conns \<Rightarrow> bool" where
  "conns_kept conns conns' \<longleftrightarrow> map fst conns' = map fst conns \<and> (\<forall>c k'. map_of conns' c = Some k' \<longrightarrow>
     (\<exists>k. map_of conns c = Some k \<and> pc_sub_id k' = pc_sub_id k \<and> pc_events_attempted k' = pc_events_attempted k
        \<and> (length (pc_out k) \<le> CHANNEL_CAP \<longrightarrow> length (pc_out k') \<le> CHANNEL_CAP)))"

lemma conns_kept_refl [simp]: "conns_kept conns conns"
  by (simp add: conns_kept_def)

lemma conns_kept_trans: "conns_kept a b \<Longrightarrow> conns_kept b c \<Longrightarrow> conns_kept a c"
  unfolding conns_kept_def by (metis (full_types))

lemma map_of_update_keys: "map_of al k = Some v \<Longrightarrow> map fst (AList.update k v' al) = map fst al"
  by (simp add: update_keys) (metis map_of_eq_None_iff option.distinct(1))

lemma conns_kept_update:
  assumes "map_of conns c = Some k" and "pc_sub_id k' = pc_sub_id k" "pc_events_attempted k' = pc_events_attempted k"
    and "length (pc_out k) \<le> CHANNEL_CAP \<Longrightarrow> length (pc_out k') \<le> CHANNEL_CAP"
  shows "conns_kept conns (AList.update c k' conns)"
  using assms map_of_update_keys [OF assms(1), of k'] by (auto simp: conns_kept_def update_conv')

lemma send_to_kept: "conns_kept conns (snd (send_to c msg conns))"
proof (cases "map_of conns c")
  case None
  then show ?thesis by (simp add: send_to_def)
next
  case (Some k)
  obtain b k' where s: "pair_send msg k = (b, k')" by (cases "pair_send msg k")
  then show ?thesis using Some pair_send_fields [OF s] by (auto simp: send_to_def intro: conns_kept_update)
qed

text \<open>The deliveries to a recipient within one budget: the newest ones with less than five minutes between.\<close>

fun streak :: "nat list \<Rightarrow> nat" where
  "streak [] = 0"
| "streak [t] = 1"
| "streak (t # t' # ts) = (if t - t' < ENTRY_TTL then Suc (streak (t' # ts)) else 1)"

definition times_of :: "bytes \<Rightarrow> pair_delivery list \<Rightarrow> nat list" where
  "times_of p history = map dl_time (filter (\<lambda>d. dl_p d = p) history)"

text \<open>The table of a recipient's deliveries: its counter is the length of the running streak.\<close>

definition count_ok :: "nat \<Rightarrow> (nat \<times> nat) option \<Rightarrow> nat list \<Rightarrow> bool" where
  "count_ok now entry ts \<longleftrightarrow> (case entry of
     Some (c, t) \<Rightarrow> ts \<noteq> [] \<and> hd ts = t \<and> c = streak ts
   | None \<Rightarrow> ts = [] \<or> hd ts + ENTRY_TTL \<le> now)"

definition budget_ok :: "nat \<Rightarrow> (bytes \<times> nat \<times> nat) list \<Rightarrow> pair_delivery list \<Rightarrow> bool" where
  "budget_ok now delivered history \<longleftrightarrow> distinct (map fst delivered) \<and> length delivered \<le> DELIVERED_MAP_CAP
     \<and> (\<forall>p. (\<forall>n. streak (drop n (times_of p history)) \<le> MAX_DELIVERED_PER_P) \<and> count_ok now (map_of delivered p) (times_of p history))"

abbreviation kept_counts :: "nat \<Rightarrow> (bytes \<times> nat \<times> nat) list \<Rightarrow> (bytes \<times> nat \<times> nat) list" where
  "kept_counts now \<equiv> filter (\<lambda>(_, _, ts). now - ts < ENTRY_TTL)"

lemma map_of_filtered:
  assumes "distinct (map fst al)"
  shows "map_of (filter P al) k = (case map_of al k of Some v \<Rightarrow> if P (k, v) then Some v else None | None \<Rightarrow> None)"
  using assms
proof (induction al)
  case (Cons a al)
  obtain k0 v0 where a: "a = (k0, v0)" by (cases a)
  have "map_of al k = None" if "k = k0" using Cons.prems a that by (simp add: map_of_eq_None_iff)
  then show ?case using Cons a by (auto split: option.split)
qed simp

lemma budget_evict:
  assumes "budget_ok now delivered history"
  shows "budget_ok now (kept_counts now delivered) history"
proof -
  have d: "distinct (map fst delivered)" "length delivered \<le> DELIVERED_MAP_CAP" using assms by (simp_all add: budget_ok_def)
  have "length (kept_counts now delivered) \<le> DELIVERED_MAP_CAP" using order_trans [OF length_filter_le d(2)] .
  moreover have "count_ok now (map_of (kept_counts now delivered) p) (times_of p history)" for p
  proof -
    have "count_ok now (map_of delivered p) (times_of p history)" using assms by (simp add: budget_ok_def)
    then show ?thesis unfolding map_of_filtered [OF d(1)] count_ok_def by (auto simp: ENTRY_TTL_def split: option.splits prod.splits)
  qed
  ultimately show ?thesis using assms by (simp add: budget_ok_def distinct_map_filter)
qed

lemma length_update: "length (AList.update k v al) = (if map_of al k = None then Suc (length al) else length al)"
  by (induction al) auto

lemma budget_deliver:
  assumes "budget_ok now delivered history" and "delivered = kept_counts now delivered"
    and "count = (case map_of delivered p of None \<Rightarrow> 0 | Some (c, _) \<Rightarrow> c)" and "count < MAX_DELIVERED_PER_P"
    and "length delivered < DELIVERED_MAP_CAP \<or> map_of delivered p \<noteq> None" and "dl_p d = p" and "dl_time d = now"
  shows "budget_ok now (AList.update p (count + 1, now) delivered) (d # history)"
proof -
  let ?del = "AList.update p (count + 1, now) delivered"
  have dist: "distinct (map fst delivered)" "length delivered \<le> DELIVERED_MAP_CAP" using assms(1) by (simp_all add: budget_ok_def)
  have len: "length ?del \<le> DELIVERED_MAP_CAP" using dist(2) assms(5) unfolding length_update by auto
  have times: "times_of q (d # history) = (if q = p then now # times_of p history else times_of q history)" for q
    using assms(6,7) by (simp add: times_of_def)
  have count: "count_ok now (map_of delivered q) (times_of q history)" for q using assms(1) by (simp add: budget_ok_def)
  have new: "streak (now # times_of p history) = count + 1"
  proof (cases "map_of delivered p")
    case None
    then show ?thesis using count [of p] assms(3) by (cases "times_of p history") (auto simp: ENTRY_TTL_def count_ok_def)
  next
    case (Some v)
    obtain c ts where v: "v = (c, ts)" by (cases v)
    have "(p, c, ts) \<in> set (kept_counts now delivered)" using Some v assms(2) by (metis map_of_SomeD)
    then have "now - ts < ENTRY_TTL" by simp
    then show ?thesis using count [of p] assms(3) Some v by (cases "times_of p history") (auto simp: count_ok_def)
  qed
  have old: "streak (drop n (times_of q history)) \<le> MAX_DELIVERED_PER_P" for n q using assms(1) by (simp add: budget_ok_def)
  have "streak (drop n (times_of q (d # history))) \<le> MAX_DELIVERED_PER_P" for n q
  proof (cases n)
    case 0
    then show ?thesis using old [of 0 q] new assms(4) by (simp add: times)
  next
    case (Suc m)
    then show ?thesis using old [of m q] old [of n q] by (auto simp: times)
  qed
  moreover have "count_ok now (map_of ?del q) (times_of q (d # history))" for q
    using count [of q] new by (simp add: times update_conv' count_ok_def)
  ultimately show ?thesis using len dist(1) by (simp add: budget_ok_def distinct_update)
qed

lemma budget_time: "budget_ok now delivered history \<Longrightarrow> budget_ok (now + d) delivered history"
  unfolding budget_ok_def count_ok_def by (force split: option.splits)

text \<open>What a delivery does to the table of counts.\<close>

lemma deliver_single_counts:
  assumes "deliver_single L now p ev (r, conns) = (res, r', conns')"
  shows "conns_kept conns conns'"
    and "res \<noteq> Inr True \<Longrightarrow> pr_delivered r' = pr_delivered r \<or> pr_delivered r' = kept_counts now (pr_delivered r)"
    and "res = Inr True \<Longrightarrow> \<exists>count. count = (case map_of (kept_counts now (pr_delivered r)) p of None \<Rightarrow> 0 | Some (c, _) \<Rightarrow> c)
      \<and> count < MAX_DELIVERED_PER_P \<and> (length (kept_counts now (pr_delivered r)) < DELIVERED_MAP_CAP \<or> map_of (kept_counts now (pr_delivered r)) p \<noteq> None)
      \<and> pr_delivered r' = AList.update p (count + 1, now) (kept_counts now (pr_delivered r))"
proof -
  have sent: "conns_kept conns c" if "send_to i msg conns = (b, c)" for i msg b c using send_to_kept [of conns i msg] that by simp
  show "conns_kept conns conns'"
    using assms by (auto simp: deliver_single_def Let_def sent split: list.splits if_splits option.splits prod.splits)
  show "res \<noteq> Inr True \<Longrightarrow> pr_delivered r' = pr_delivered r \<or> pr_delivered r' = kept_counts now (pr_delivered r)"
    using assms by (auto simp: deliver_single_def Let_def split: list.splits if_splits option.splits prod.splits)
  assume "res = Inr True"
  then show "\<exists>count. count = (case map_of (kept_counts now (pr_delivered r)) p of None \<Rightarrow> 0 | Some (c, _) \<Rightarrow> c)
      \<and> count < MAX_DELIVERED_PER_P \<and> (length (kept_counts now (pr_delivered r)) < DELIVERED_MAP_CAP \<or> map_of (kept_counts now (pr_delivered r)) p \<noteq> None)
      \<and> pr_delivered r' = AList.update p (count + 1, now) (kept_counts now (pr_delivered r))"
    using assms unfolding deliver_single_def Let_def
    by (cases "filter (\<lambda>s. ps_p_value s = p) (pr_subs r)" rule: remdups_adj.cases)
      (auto split: list.splits if_splits option.splits prod.splits)
qed

definition subs_ok :: "pair_sub list \<Rightarrow> pair_conns \<Rightarrow> bool" where
  "subs_ok subs conns \<longleftrightarrow> distinct (map ps_p_value subs) \<and> distinct (map ps_conn_id subs)
     \<and> (\<forall>s\<in>set subs. \<exists>k. map_of conns (ps_conn_id s) = Some k \<and> pc_sub_id k \<noteq> None)"

definition conns_ok :: "nat \<Rightarrow> pair_conns \<Rightarrow> bool" where
  "conns_ok next_id conns \<longleftrightarrow> distinct (map fst conns) \<and> length conns \<le> MAX_CONNS
     \<and> (\<forall>c k. map_of conns c = Some k \<longrightarrow> c < next_id \<and> pc_events_attempted k \<le> MAX_EVENTS_PER_CONN \<and> length (pc_out k) \<le> CHANNEL_CAP)"

definition bounds_inv :: "pair_world \<Rightarrow> bool" where
  "bounds_inv w \<longleftrightarrow> subs_ok (pr_subs (w_relay w)) (w_conns w) \<and> conns_ok (pr_next_conn_id (w_relay w)) (w_conns w)
     \<and> pr_conn_count (w_relay w) = length (w_conns w) + w_refused w + w_ending w
     \<and> length (pr_seen_ids (w_relay w)) \<le> DEDUP_CAP
     \<and> budget_ok (w_now w) (pr_delivered (w_relay w)) (w_history w)"

lemma kept_ok:
  assumes "conns_kept conns conns'"
  shows "subs_ok subs conns \<Longrightarrow> subs_ok subs conns'" and "conns_ok n conns \<Longrightarrow> conns_ok n conns'" and "length conns' = length conns"
proof -
  have keys: "map fst conns' = map fst conns" using assms by (simp add: conns_kept_def)
  then show len: "length conns' = length conns" by (metis length_map)
  have "\<exists>k'. map_of conns' c = Some k'" if "map_of conns c = Some k" for c k
    using that keys by (metis list.set_map map_of_eq_None_iff not_None_eq)
  then have "\<exists>k'. map_of conns' c = Some k' \<and> pc_sub_id k' = pc_sub_id k" if "map_of conns c = Some k" for c k
    using assms that unfolding conns_kept_def by (metis option.inject)
  then show "subs_ok subs conns \<Longrightarrow> subs_ok subs conns'" unfolding subs_ok_def by metis
  show "conns_ok n conns \<Longrightarrow> conns_ok n conns'" using assms len keys unfolding conns_ok_def conns_kept_def by metis
qed

text \<open>A frame of a connection keeps the bounds of connections and subscriptions.\<close>

lemma frame_ok:
  assumes "frame_effect L now wall c (r, k) (act, r', k')" and "map_of conns c = Some k"
    and "subs_ok (pr_subs r) conns" and "conns_ok n conns"
  shows "subs_ok (pr_subs r') (AList.update c k' conns)" and "conns_ok n (AList.update c k' conns)" and "length (AList.update c k' conns) = length conns"
proof -
  let ?conns = "AList.update c k' conns"
  have keys: "map fst ?conns = map fst conns" using map_of_update_keys [OF assms(2)] .
  then show len: "length ?conns = length conns" by (metis length_map)
  have k: "pc_events_attempted k \<le> MAX_EVENTS_PER_CONN" "length (pc_out k) \<le> CHANNEL_CAP" using assms(2,4) by (auto simp: conns_ok_def)
  then have "pc_events_attempted k' \<le> MAX_EVENTS_PER_CONN" "length (pc_out k') \<le> CHANNEL_CAP" using assms(1) by (auto simp: frame_effect_def)
  then show "conns_ok n ?conns" using assms(2,4) keys len by (auto simp: conns_ok_def update_conv' split: if_splits)
  have mine: "ps_conn_id s \<noteq> c" if "s \<in> set (pr_subs r)" "pc_sub_id k = None" for s
    using assms(2,3) that by (auto simp: subs_ok_def)
  consider (same) "pr_subs r' = pr_subs r" "pc_sub_id k' = pc_sub_id k"
    | (gone) "pr_subs r' = filter (\<lambda>s. ps_conn_id s \<noteq> c) (pr_subs r)"
    | (fresh) sid p where "pc_sub_id k = None" "pc_sub_id k' = Some sid" "p \<notin> ps_p_value ` set (pr_subs r)"
        "pr_subs r' = pr_subs r @ [\<lparr>ps_conn_id = c, ps_sub_id = sid, ps_p_value = p\<rparr>]"
    using assms(1) unfolding frame_effect_def by auto
  then show "subs_ok (pr_subs r') ?conns"
  proof cases
    case same
    then show ?thesis using assms(2,3) by (fastforce simp: subs_ok_def update_conv')
  next
    case gone
    then show ?thesis using assms(3) by (auto simp: subs_ok_def update_conv' distinct_map_filter)
  next
    case fresh
    then show ?thesis using assms(2,3) mine by (auto simp: subs_ok_def update_conv')
  qed
qed

lemma frame_length_seen:
  assumes "frame_effect L now wall c (r, k) (act, r', k')" and "length (pr_seen_ids r) \<le> DEDUP_CAP"
  shows "length (pr_seen_ids r') \<le> DEDUP_CAP"
proof -
  have u: "length (unexpired now (pr_seen_ids r)) \<le> DEDUP_CAP" using order_trans [OF length_filter_le assms(2)] .
  show ?thesis
  proof (cases "\<exists>eid i p ev. act = DeliverEvent eid i p ev")
    case True
    then obtain i where r: "reserve_id now i r = (Inr False, r')" using assms(1) by (auto simp: frame_effect_def)
    show ?thesis using reserve_seen(1,2) [OF r] by simp
  next
    case False
    then have "pr_seen_ids r' = pr_seen_ids r \<or> pr_seen_ids r' = unexpired now (pr_seen_ids r)"
      using assms(1) by (cases act) (auto simp: frame_effect_def)
    then show ?thesis using u assms(2) by auto
  qed
qed

lemma end_ok:
  assumes "subs_ok subs conns" and "conns_ok n conns" and "map_of conns c = Some k"
  shows "subs_ok (filter (\<lambda>s. ps_conn_id s \<noteq> c) subs) (AList.delete c conns)" "conns_ok n (AList.delete c conns)"
    "Suc (length (AList.delete c conns)) = length conns"
proof -
  have d: "distinct (map fst conns)" using assms(2) by (simp add: conns_ok_def)
  show len: "Suc (length (AList.delete c conns)) = length conns"
    using d assms(3)
  proof (induction conns)
    case (Cons a conns)
    obtain c0 k0 where a: "a = (c0, k0)" by (cases a)
    show ?case
    proof (cases "c0 = c")
      case True
      then have "c \<notin> fst ` set conns" using Cons.prems(1) a by simp
      then show ?thesis using a True by (simp add: delete_idem)
    next
      case False
      then show ?thesis using Cons a by simp
    qed
  qed simp
  show "subs_ok (filter (\<lambda>s. ps_conn_id s \<noteq> c) subs) (AList.delete c conns)"
    using assms(1) by (auto simp: subs_ok_def delete_conv' distinct_map_filter)
  show "conns_ok n (AList.delete c conns)"
    using assms(2) len by (auto simp: conns_ok_def delete_conv' distinct_delete)
qed

lemma finish_bounds:
  assumes "finish_event L now c eid i p ev (r, conns) = (fin, r', conns')" and "distinct (map fst (pr_seen_ids r))"
    and "length (pr_seen_ids r) \<le> DEDUP_CAP" and "budget_ok now (pr_delivered r) history"
  shows "conns_kept conns conns'" "pr_subs r' = pr_subs r" "pr_conn_count r' = pr_conn_count r" "pr_next_conn_id r' = pr_next_conn_id r"
    "length (pr_seen_ids r') \<le> DEDUP_CAP"
    "budget_ok now (pr_delivered r') ((if fin then [\<lparr>dl_id = i, dl_p = p, dl_event = ev, dl_reserved = t, dl_time = now\<rparr>] else []) @ history)"
proof -
  obtain res r1 conns1 where d: "deliver_single L now p ev (r, conns) = (res, r1, conns1)" by (metis prod_cases3)
  note seen = deliver_single_seen [OF d] and counts = deliver_single_counts [OF d]
  have f: "fin \<longleftrightarrow> res = Inr True" "r' = (if res = Inr True then r1 else unreserve_id i r1)" "\<exists>msg. conns' = snd (send_to c msg conns1)"
    using assms(1) d by (auto simp: finish_event_def split: sum.splits bool.splits)
  have u: "distinct (map fst (pr_seen_ids r1))" using assms(2) seen(1) by simp
  note given_back = unreserve_seen(3-7) [OF u, of i]
  show "conns_kept conns conns'" using f(3) counts(1) send_to_kept conns_kept_trans by blast
  show "pr_subs r' = pr_subs r" "pr_conn_count r' = pr_conn_count r" "pr_next_conn_id r' = pr_next_conn_id r"
      "length (pr_seen_ids r') \<le> DEDUP_CAP"
    using f(2) given_back seen assms(3) by (auto intro: order_trans)
  have evicted: "budget_ok now (kept_counts now (pr_delivered r)) history" using budget_evict [OF assms(4)] .
  show "budget_ok now (pr_delivered r') ((if fin then [\<lparr>dl_id = i, dl_p = p, dl_event = ev, dl_reserved = t, dl_time = now\<rparr>] else []) @ history)"
  proof (cases "res = Inr True")
    case True
    then obtain count where "count = (case map_of (kept_counts now (pr_delivered r)) p of None \<Rightarrow> 0 | Some (c, _) \<Rightarrow> c)" "count < MAX_DELIVERED_PER_P"
        "length (kept_counts now (pr_delivered r)) < DELIVERED_MAP_CAP \<or> map_of (kept_counts now (pr_delivered r)) p \<noteq> None"
        "pr_delivered r1 = AList.update p (count + 1, now) (kept_counts now (pr_delivered r))"
      using counts(3) by blast
    then show ?thesis using budget_deliver [OF evicted, of count p] f(1,2) True by simp
  next
    case False
    then have "pr_delivered r' = pr_delivered r \<or> pr_delivered r' = kept_counts now (pr_delivered r)" using counts(2) f(2) given_back by auto
    then show ?thesis using False f(1) evicted assms(4) by auto
  qed
qed

lemma frame_bounds:
  assumes "bounds_inv w" and "frame_effect L (w_now w) wall c (w_relay w, k) (act, r, k')" and "map_of (w_conns w) c = Some k"
  shows "bounds_inv (w\<lparr>w_relay := r, w_conns := AList.update c k' (w_conns w)\<rparr>)"
proof -
  have b: "subs_ok (pr_subs (w_relay w)) (w_conns w)" "conns_ok (pr_next_conn_id (w_relay w)) (w_conns w)"
      "length (pr_seen_ids (w_relay w)) \<le> DEDUP_CAP" using assms(1) by (simp_all add: bounds_inv_def)
  have "pr_delivered r = pr_delivered (w_relay w)" "pr_conn_count r = pr_conn_count (w_relay w)" "pr_next_conn_id r = pr_next_conn_id (w_relay w)"
    using assms(2) by (auto simp: frame_effect_def)
  then show ?thesis
    using assms(1) frame_ok [OF assms(2,3) b(1,2)] frame_length_seen [OF assms(2) b(3)] by (simp add: bounds_inv_def)
qed

lemma end_bounds:
  assumes "bounds_inv w" and "map_of (w_conns w) c = Some k"
  shows "bounds_inv (end_conn c (w_relay w) w)"
proof -
  have b: "subs_ok (pr_subs (w_relay w)) (w_conns w)" "conns_ok (pr_next_conn_id (w_relay w)) (w_conns w)"
    using assms(1) by (simp_all add: bounds_inv_def)
  show ?thesis using assms(1) end_ok [OF b assms(2)] by (simp add: bounds_inv_def end_conn_def remove_sub_def)
qed

lemma bounds_inv_step: "pair_step L offset w w' \<Longrightarrow> bounds_inv w \<Longrightarrow> seen_inv L offset w \<Longrightarrow> bounds_inv w'"
proof (induction rule: pair_step.induct)
  case (pair_time w d)
  then show ?case by (simp add: bounds_inv_def budget_time)
next
  case (pair_open w c r)
  note e = connect_effect [OF pair_open(1)]
  have c: "c = pr_next_conn_id (w_relay w)" "pr_next_conn_id r = Suc c" "pr_conn_count (w_relay w) < MAX_CONNS" using e(5) by auto
  have new: "map_of (w_conns w) c = None"
    using pair_open(2) c(1) unfolding bounds_inv_def conns_ok_def by (metis less_irrefl not_None_eq)
  have "subs_ok (pr_subs r) ((c, new_conn (w_now w)) # w_conns w)"
    using pair_open(2) new e(2) by (fastforce simp: bounds_inv_def subs_ok_def)
  moreover have "conns_ok (pr_next_conn_id r) ((c, new_conn (w_now w)) # w_conns w)"
    using pair_open(2) new c by (auto simp: bounds_inv_def conns_ok_def new_conn_def map_of_eq_None_iff intro: less_SucI)
  ultimately show ?case using pair_open(2) e(1,3,4) by (simp add: bounds_inv_def)
next
  case (pair_refuse w r)
  then show ?case using connect_effect [OF pair_refuse(1)] by (simp add: bounds_inv_def)
next
  case (pair_frame c k w f r k')
  have e: "frame_effect L (w_now w) (wall_secs offset (w_now w)) c (w_relay w, k) (NextFrame, r, k')" using handle_frame_effect pair_frame(2) by metis
  have k: "map_of (w_conns w) c = Some k" using pair_frame(1) by (simp add: reading_def)
  show ?case using frame_bounds [OF pair_frame(3) e k] .
next
  case (pair_event c k w f eid i p ev r k')
  have e: "frame_effect L (w_now w) (wall_secs offset (w_now w)) c (w_relay w, k) (DeliverEvent eid i p ev, r, k')" using handle_frame_effect pair_event(2) by metis
  have k: "map_of (w_conns w) c = Some k" using pair_event(1) by (simp add: reading_def)
  show ?case using frame_bounds [OF pair_event(3) e k] by (simp add: bounds_inv_def)
next
  case (pair_break c k w f r k')
  have e: "frame_effect L (w_now w) (wall_secs offset (w_now w)) c (w_relay w, k) (BreakConn, r, k')" using handle_frame_effect pair_break(2) by metis
  have k: "map_of (w_conns w) c = Some k" using pair_break(1) by (simp add: reading_def)
  have "bounds_inv (end_conn c r (w\<lparr>w_relay := r, w_conns := AList.update c k' (w_conns w)\<rparr>))"
    using end_bounds [OF frame_bounds [OF pair_break(3) e k], of c k'] by simp
  then show ?case by (simp add: bounds_inv_def end_conn_def delete_update_same)
next
  case (pair_end c k w)
  have k: "map_of (w_conns w) c = Some k" using pair_end(1) by (simp add: reading_def)
  show ?case using end_bounds [OF pair_end(2) k] .
next
  case (pair_finish w as e bs fin r conns)
  have d: "distinct (map fst (pr_seen_ids (w_relay w)))" using pair_finish(4) by (simp add: seen_ok_def)
  have b: "length (pr_seen_ids (w_relay w)) \<le> DEDUP_CAP" "budget_ok (w_now w) (pr_delivered (w_relay w)) (w_history w)"
    using pair_finish(3) by (simp_all add: bounds_inv_def)
  note fin = finish_bounds [OF pair_finish(2) d b]
  show ?case using pair_finish(3) fin kept_ok [OF fin(1)] by (simp add: bounds_inv_def)
next
  case (pair_written w c k msg msgs)
  then show ?case using kept_ok [OF conns_kept_update [OF pair_written(1), of "k\<lparr>pc_out := msgs\<rparr>"]] by (simp add: bounds_inv_def)
next
  case (pair_writer_gone w c k)
  then show ?case using kept_ok [OF conns_kept_update [OF pair_writer_gone(1), of "k\<lparr>pc_writing := False\<rparr>"]] by (simp add: bounds_inv_def)
qed (simp_all add: bounds_inv_def release_slot_def)

lemma pair_run_bounds: "pair_run L offset w \<Longrightarrow> bounds_inv w"
proof (induction rule: pair_run.induct)
  case pair_start
  show ?case
    by (simp add: bounds_inv_def new_world_def new_relay_def subs_ok_def conns_ok_def budget_ok_def count_ok_def times_of_def)
next
  case (pair_next w w')
  then show ?case using bounds_inv_step pair_run_seen by blast
qed

text \<open>C29. The relay's resources stay bounded under any load: at most 128 connections, each with at most
  six events tried and four messages queued, at most one subscription per connection and per
  recipient (so no recipient is ever ambiguous), at most 1024 remembered ids and 4096 counters; and
  no recipient gets more than twelve events without a pause of five minutes.\<close>

theorem pair_relay_bounded:
  assumes "pair_run L offset w"
  shows "length (w_conns w) \<le> 128 \<and> length (w_conns w) \<le> pr_conn_count (w_relay w)
    \<and> (\<forall>(c, k)\<in>set (w_conns w). pc_events_attempted k \<le> 6 \<and> length (pc_out k) \<le> 4)
    \<and> distinct (map ps_p_value (pr_subs (w_relay w))) \<and> distinct (map ps_conn_id (pr_subs (w_relay w)))
    \<and> fst (deliver_single L now p ev (w_relay w, w_conns w)) \<noteq> Inl ''ambiguous recipient''
    \<and> length (pr_seen_ids (w_relay w)) \<le> 1024 \<and> length (pr_delivered (w_relay w)) \<le> 4096
    \<and> (\<forall>n. streak (drop n (times_of p (w_history w))) \<le> 12)"
proof -
  have inv: "bounds_inv w" using assms by (rule pair_run_bounds)
  then have subs: "distinct (map ps_p_value (pr_subs (w_relay w)))" by (simp add: bounds_inv_def subs_ok_def)
  have "length (filter (\<lambda>s. ps_p_value s = p) (pr_subs (w_relay w))) \<le> 1"
  proof -
    have "distinct (map ps_p_value (filter (\<lambda>s. ps_p_value s = p) (pr_subs (w_relay w))))" using subs by (rule distinct_map_filter)
    moreover have "set (map ps_p_value (filter (\<lambda>s. ps_p_value s = p) (pr_subs (w_relay w)))) \<subseteq> {p}" by auto
    ultimately show ?thesis using card_mono [of "{p}" "set (map ps_p_value (filter (\<lambda>s. ps_p_value s = p) (pr_subs (w_relay w))))"] distinct_card by fastforce
  qed
  then have "fst (deliver_single L now p ev (w_relay w, w_conns w)) \<noteq> Inl ''ambiguous recipient''"
    by (auto simp: deliver_single_def Let_def split: list.splits option.splits prod.splits if_splits)
  moreover have "pc_events_attempted k \<le> 6 \<and> length (pc_out k) \<le> 4" if "(c, k) \<in> set (w_conns w)" for c k
    using inv that by (auto simp: bounds_inv_def conns_ok_def pair_limits)
  ultimately show ?thesis using inv by (auto simp: bounds_inv_def conns_ok_def subs_ok_def budget_ok_def pair_limits)
qed

subsection \<open>A pairing with oneself\<close>

definition demo_zeros :: string where "demo_zeros = replicate 64 (CHR ''0'')"

definition demo_content :: string where "demo_content = ''Ag'' @ replicate 130 (CHR ''A'')"

definition demo_pair_event :: pair_json where
  "demo_pair_event = PObject [(''id'', PString demo_zeros), (''pubkey'', PString demo_zeros), (''created_at'', PInt 0), (''kind'', PInt 24134),
     (''tags'', PArray [PArray [PString ''p'', PString demo_zeros]]), (''content'', PString demo_content), (''sig'', PString (demo_zeros @ demo_zeros))]"

definition demo_commitment :: pair_json where
  "demo_commitment = commitment demo_zeros 0 24134 (PArray [PArray [PString ''p'', PString demo_zeros]]) demo_content"

definition demo_message :: pair_json where "demo_message = PArray [PString ''EVENT'', PString ''s'', demo_pair_event]"

definition demo_pair_lib :: pair_lib where
  "demo_pair_lib = \<lparr>
     pl_parse = (\<lambda>s. if s = ''R'' then Some (PArray [PString ''REQ'', PString ''s'', PObject [(''#p'', PArray [PString demo_zeros])]])
       else if s = ''E'' then Some (PArray [PString ''EVENT'', demo_pair_event]) else None),
     pl_print = (\<lambda>v. if v = demo_commitment then Some ''c'' else if v = demo_message then Some ''m'' else None),
     pl_sha256 = (\<lambda>_. replicate 32 0), pl_xonly = (\<lambda>_. True), pl_schnorr = (\<lambda>_ _ _. True)\<rparr>"

lemma demo_print: "pl_print demo_pair_lib v = Some s \<Longrightarrow> pl_print demo_pair_lib v' = Some s \<Longrightarrow> v = v'"
  by (auto simp: demo_pair_lib_def split: if_splits)

lemma demo_valid: "validate_event 0 demo_pair_event = Inr (demo_zeros, replicate 32 0, replicate 32 0)"
  by code_simp

lemma demo_verified: "verify_event_sig demo_pair_lib demo_pair_event = Inr ()"
  by code_simp

definition demo_step1 :: "conn_action \<times> pair_relay \<times> pair_conn" where
  "demo_step1 = handle_frame demo_pair_lib 0 0 0 (FText ''R'') (snd (connect new_relay), new_conn 0)"

definition demo_step2 :: "conn_action \<times> pair_relay \<times> pair_conn" where
  "demo_step2 = (case demo_step1 of (_, st) \<Rightarrow> handle_frame demo_pair_lib 0 0 0 (FText ''E'') st)"

definition demo_step3 :: "bool \<times> pair_relay \<times> pair_conns" where
  "demo_step3 = (case demo_step2 of (_, r, k) \<Rightarrow>
     finish_event demo_pair_lib 0 0 demo_zeros (replicate 32 0) (replicate 32 0) demo_pair_event (r, [(0, k)]))"

lemma demo_filter: "validate_filter (PObject [(''#p'', PArray [PString demo_zeros])]) = Inr (replicate 32 0)"
  by code_simp

definition demo_subscribed :: "pair_relay \<times> pair_conn" where
  "demo_subscribed = (new_relay\<lparr>pr_conn_count := 1, pr_next_conn_id := 1, pr_subs := [\<lparr>ps_conn_id = 0, ps_sub_id = ''s'', ps_p_value = replicate 32 0\<rparr>]\<rparr>,
     (new_conn 0)\<lparr>pc_msg_rate := \<lparr>rw_count = 1, rw_start = 0\<rparr>, pc_out := [make_eose ''s''], pc_sub_id := Some ''s''\<rparr>)"

lemmas demo_unfold = handle_frame_def handle_text_def rate_tick_def new_rate_window_def RATE_WINDOW_def RATE_MSG_MAX_def RATE_EVENT_MAX_def
  SUB_ID_MAX_def MAX_EVENTS_PER_CONN_def CHANNEL_CAP_def new_conn_def new_relay_def connect_def MAX_CONNS_def pair_send_def Let_def

lemma demo_event_object: "json_object demo_pair_event \<noteq> None"
  by (simp add: demo_pair_event_def)

lemma demo_step1_eq: "demo_step1 = (NextFrame, demo_subscribed)"
  by (simp add: demo_step1_def demo_unfold demo_pair_lib_def handle_req_def demo_filter demo_subscribed_def)

lemma demo_print_message: "pl_print demo_pair_lib (PArray [PString ''EVENT'', PString ''s'', demo_pair_event]) = Some ''m''"
  by (simp add: demo_pair_lib_def demo_message_def demo_commitment_def commitment_def)

lemma demo_step2_eq:
  "\<exists>r k. demo_step2 = (DeliverEvent demo_zeros (replicate 32 0) (replicate 32 0) demo_pair_event, r, k)
     \<and> pr_subs r = pr_subs (fst demo_subscribed) \<and> pr_delivered r = [] \<and> pc_out k = [make_eose ''s''] \<and> pc_writing k"
proof -
  have parse: "pl_parse demo_pair_lib ''E'' = Some (PArray [PString ''EVENT'', demo_pair_event])" by (simp add: demo_pair_lib_def)
  show ?thesis unfolding demo_step2_def demo_step1_eq demo_subscribed_def
    by (simp add: demo_unfold parse handle_event_def demo_event_object demo_valid demo_verified reserve_id_def DEDUP_CAP_def)
qed

lemma demo_step3_fst: "fst demo_step3"
proof -
  obtain r k where s: "demo_step2 = (DeliverEvent demo_zeros (replicate 32 0) (replicate 32 0) demo_pair_event, r, k)"
      "pr_subs r = [\<lparr>ps_conn_id = 0, ps_sub_id = ''s'', ps_p_value = replicate 32 0\<rparr>]" "pr_delivered r = []"
      "pc_out k = [make_eose ''s'']" "pc_writing k"
    using demo_step2_eq by (auto simp: demo_subscribed_def)
  have f: "filter (\<lambda>s. ps_p_value s = replicate 32 0) (pr_subs r) = [\<lparr>ps_conn_id = 0, ps_sub_id = ''s'', ps_p_value = replicate 32 0\<rparr>]"
    unfolding s(2) by simp
  have "fst (deliver_single demo_pair_lib 0 (replicate 32 0) demo_pair_event (r, [(0, k)])) = Inr True"
    unfolding deliver_single_def prod.case f list.case Let_def
    by (simp add: s(3-5) send_to_def pair_send_def demo_print_message MAX_DELIVERED_PER_P_def DELIVERED_MAP_CAP_def CHANNEL_CAP_def)
  then show ?thesis
    by (cases "deliver_single demo_pair_lib 0 (replicate 32 0) demo_pair_event (r, [(0, k)])") (simp add: demo_step3_def s(1) finish_event_def)
qed

lemma demo_steps:
  "connect new_relay = (Some 0, snd (connect new_relay))" "fst demo_step1 = NextFrame"
  "fst demo_step2 = DeliverEvent demo_zeros (replicate 32 0) (replicate 32 0) demo_pair_event" "fst demo_step3"
proof -
  show "connect new_relay = (Some 0, snd (connect new_relay))" by (simp add: connect_def new_relay_def MAX_CONNS_def)
  show "fst demo_step1 = NextFrame" unfolding demo_step1_eq by simp
  show "fst demo_step2 = DeliverEvent demo_zeros (replicate 32 0) (replicate 32 0) demo_pair_event" using demo_step2_eq by (metis fst_conv)
  show "fst demo_step3" by (rule demo_step3_fst)
qed

definition demo_delivery :: pair_delivery where
  "demo_delivery = \<lparr>dl_id = replicate 32 0, dl_p = replicate 32 0, dl_event = demo_pair_event, dl_reserved = 0, dl_time = 0\<rparr>"

lemma demo_pair_run: "\<exists>w. pair_run demo_pair_lib 0 w \<and> w_history w = [demo_delivery]"
proof -
  let ?w1 = "new_world\<lparr>w_relay := snd (connect new_relay), w_conns := [(0, new_conn 0)]\<rparr>"
  obtain r1 k1 where s1: "demo_step1 = (NextFrame, r1, k1)" using demo_steps(2) by (metis prod.collapse)
  obtain r2 k2 where s2: "demo_step2 = (DeliverEvent demo_zeros (replicate 32 0) (replicate 32 0) demo_pair_event, r2, k2)"
    using demo_steps(3) by (metis prod.collapse)
  obtain r3 conns where s3: "demo_step3 = (True, r3, conns)" using demo_steps(4) by (metis (full_types) prod.collapse)
  let ?w2 = "?w1\<lparr>w_relay := r1, w_conns := [(0, k1)]\<rparr>"
  let ?e = "\<lparr>if_conn = 0, if_event_id = demo_zeros, if_id = replicate 32 0, if_p = replicate 32 0, if_event = demo_pair_event, if_reserved = 0\<rparr>"
  let ?w3 = "?w2\<lparr>w_relay := r2, w_conns := [(0, k2)], w_inflight := [?e]\<rparr>"
  have e2: "handle_frame demo_pair_lib 0 0 0 (FText ''E'') (r1, k1) =
      (DeliverEvent demo_zeros (replicate 32 0) (replicate 32 0) demo_pair_event, r2, k2)" using s2 unfolding demo_step2_def s1 by simp
  have e3: "finish_event demo_pair_lib 0 0 demo_zeros (replicate 32 0) (replicate 32 0) demo_pair_event (r2, [(0, k2)]) = (True, r3, conns)"
    using s3 unfolding demo_step3_def s2 by simp
  have wall: "wall_secs 0 0 = 0" by (simp add: wall_secs_def)
  have "pair_step demo_pair_lib 0 new_world ?w1"
    using pair_open [of new_world 0 "snd (connect new_relay)"] demo_steps(1) by (simp add: new_world_def)
  then have run1: "pair_run demo_pair_lib 0 ?w1" by (rule pair_next [OF pair_start])
  have "pair_step demo_pair_lib 0 ?w1 ?w2"
    using pair_frame [of 0 "new_conn 0" ?w1 demo_pair_lib 0 "FText ''R''" r1 k1] s1 wall
    by (simp add: reading_def demo_step1_def new_world_def)
  then have run2: "pair_run demo_pair_lib 0 ?w2" by (rule pair_next [OF run1])
  have "pair_step demo_pair_lib 0 ?w2 ?w3"
    using pair_event [of 0 k1 ?w2 demo_pair_lib 0 "FText ''E''" demo_zeros "replicate 32 0" "replicate 32 0" demo_pair_event r2 k2] e2 wall
    by (simp add: reading_def new_world_def)
  then have run3: "pair_run demo_pair_lib 0 ?w3" by (rule pair_next [OF run2])
  have "pair_step demo_pair_lib 0 ?w3 (?w3\<lparr>w_relay := r3, w_conns := conns, w_inflight := [], w_history := [demo_delivery]\<rparr>)"
    using pair_finish [of ?w3 "[]" ?e "[]" demo_pair_lib True r3 conns 0] e3
    by (simp add: new_world_def demo_delivery_def)
  from pair_next [OF run3 this] show ?thesis by fastforce
qed

theorem pair_events_delivered_once_witness:
  "\<exists>w. pair_run demo_pair_lib 0 w \<and> length (w_history w) = 1
     \<and> (\<forall>d\<in>set (w_history w). valid_at demo_pair_lib 0 (dl_reserved d) (dl_id d) (dl_p d) (dl_event d))"
proof -
  obtain w where w: "pair_run demo_pair_lib 0 w" "w_history w = [demo_delivery]" using demo_pair_run by blast
  have "\<forall>v v' s. pl_print demo_pair_lib v = Some s \<and> pl_print demo_pair_lib v' = Some s \<longrightarrow> v = v'" using demo_print by blast
  from pair_events_delivered_once [OF w(1) this]
  have "\<forall>d\<in>set (w_history w). valid_at demo_pair_lib 0 (dl_reserved d) (dl_id d) (dl_p d) (dl_event d)" by blast
  then show ?thesis using w by auto
qed

theorem pair_relay_bounded_witness:
  "\<exists>w. pair_run demo_pair_lib 0 w \<and> times_of (replicate 32 0) (w_history w) = [0] \<and> length (w_conns w) \<le> 128
     \<and> streak (times_of (replicate 32 0) (w_history w)) \<le> 12"
proof -
  obtain w where w: "pair_run demo_pair_lib 0 w" "w_history w = [demo_delivery]" using demo_pair_run by blast
  have "length (w_conns w) \<le> 128" "\<forall>n. streak (drop n (times_of (replicate 32 0) (w_history w))) \<le> 12"
    using pair_relay_bounded [OF w(1), of 0 "replicate 32 0" PNull] by blast+
  then have "length (w_conns w) \<le> 128" "streak (times_of (replicate 32 0) (w_history w)) \<le> 12" by (auto dest: spec [of _ 0])
  then show ?thesis using w by (auto simp: times_of_def demo_delivery_def)
qed

end
