(* ===== verification/Spec2Isabelle.thy ===== *)
theory Spec2Isabelle
  imports Age Booking Schedule Capacity Agent_Access Agent_Policy Agent_Graph Agent_Learning
    Organization Conversations Knowledge Roles Git_Perms Nostr_Filter Subscription
    Pairing_Exchange Pairing_Qr Audit_Log Acp_Queue_Safety Tunnel Mesh_Runtime
    Workflow_Schedule Workflow_Sink Workflow_Approval Huddle_Registry Pair_Relay
begin

text \<open>
  \<^bold>\<open>AirHop Center: a verification of its core.\<close>

  AirHop Center is a fork of the Buzz workspace: a relay for signed events with channels,
  communities, git hosting, agents and audio, extended by a product layer for children's classes.
  The Rust code is a workspace of crates under \<open>src/crates\<close>; this library models the parts that
  carry decisions and state, and proves what makes them correct.

  \<^bold>\<open>The parts and how they interact.\<close>

  \<^item> \<open>airhop-core\<close> holds the product rules, called by the relay's API and by the agents: ages and
    calendars (\<open>Calendar\<close>, \<open>Age\<close>), the booking lifecycle (\<open>Booking\<close>), the materialization of
    recurring lessons with exceptions (\<open>Schedule\<close>), capacity of lessons (\<open>Capacity\<close>, on top of
    bookings and lessons), the duties and the execution graph of agents (\<open>Agent_Policy\<close>,
    \<open>Agent_Graph\<close>, \<open>Agent_Access\<close>, \<open>Agent_Learning\<close>), organization settings, client
    conversations and knowledge drafts (\<open>Organization\<close>, \<open>Conversations\<close>, \<open>Knowledge\<close>, over the
    text operations of \<open>Text\<close>).
  \<^item> \<open>buzz-core\<close> holds what the relay, its clients and the agents share: channel and member
    enumerations (\<open>Roles\<close>), network addresses (\<open>Network\<close>), git reference permissions (\<open>Git_Perms\<close>), stored events and filters
    (\<open>Nostr_Filter\<close>) and the device pairing protocol (\<open>Pairing_Types\<close>, \<open>Pairing_Session\<close>,
    \<open>Pairing_Exchange\<close>, \<open>Pairing_Qr\<close>).
  \<^item> \<open>buzz-relay\<close> delivers events: \<open>Subscription\<close> models \<open>subscription.rs\<close>, the registry with its
    four indexes and the fan-out that reads them with the filters of \<open>Nostr_Filter\<close>. Tunnel
    sessions between relay runtimes are owned through leases in Redis: \<open>Session_Directory\<close> models
    \<open>tunnel/directory.rs\<close> with its Lua scripts, \<open>Tunnel\<close> models \<open>tunnel/reliable.rs\<close> on top of it.
    Huddles are audio rooms that may span runtimes: \<open>Audio_Room\<close> models \<open>audio/room.rs\<close> and
    \<open>audio/wire.rs\<close>, \<open>Huddle_Control\<close> the control stream between the owner of a room and a remote
    client (\<open>audio/join.rs\<close>), \<open>Huddle_Owner\<close> how a join finds the owner through the session directory
    and how media datagrams are fenced (\<open>audio/mesh.rs\<close>), \<open>Huddle_Registry\<close> the renewer of a lease and
    the registry of owned huddles with its drain.
  \<^item> \<open>buzz-relay-mesh\<close> connects the relay runtimes: \<open>Mesh_Wire\<close> models the frames, \<open>Mesh_Gossip\<close>
    the records, digests, deltas and the membership table, \<open>Mesh_Runtime\<close> admission and
    connections.
  \<^item> \<open>buzz-audit\<close> keeps the hash-chained log: \<open>Audit_Log\<close>.
  \<^item> \<open>buzz-workflow\<close> runs automations in channels: \<open>Workflow_Schema\<close> models \<open>schema.rs\<close> (definitions
    and validation), \<open>Workflow_Template\<close>, \<open>Workflow_Condition\<close> and \<open>Workflow_Executor\<close> model
    \<open>executor.rs\<close> (templates, conditions, actions with the address check of \<open>Network\<close>, the step
    loop), \<open>Workflow_Engine\<close>, \<open>Workflow_Schedule\<close> and \<open>Workflow_Runs\<close> model \<open>lib.rs\<close> with the rows of
    \<open>buzz-db/src/workflow.rs\<close> (event triggers, the scheduler of several pods, permits and the record
    of a run). The relay posts the messages (\<open>Workflow_Sink\<close>, \<open>workflow_sink.rs\<close>) and decides
    approvals (\<open>Workflow_Approval\<close>, \<open>handlers/command_executor.rs\<close>).
  \<^item> \<open>buzz-pair-relay\<close> is the small public relay over which the pairing protocol of \<open>buzz-core\<close> runs:
    \<open>Pair_Validation\<close> models what it accepts, \<open>Pair_Relay\<close> its shared tables, the frames of a
    connection and the admission of connections.
  \<^item> \<open>buzz-acp\<close> feeds events to agents: \<open>Acp_Queue\<close> models the queue of \<open>queue.rs\<close>.

  \<^bold>\<open>How code becomes definitions.\<close> A struct is a \<open>record\<close> (field names carry a short prefix), an
  enum a \<open>datatype\<close>, \<open>Result<T, E>\<close> the sum \<open>'e + 'a\<close> with \<open>Inl\<close> for the error, the question mark
  \<open>and_then\<close>, a fallible loop \<open>try_fold\<close> (\<open>Prelude\<close>). \<open>BTreeMap\<close> and \<open>HashMap\<close> are association
  lists behind the locale \<open>key_map\<close>, interpreted for both. Methods that take \<open>&mut self\<close> return
  the new state beside their result. Times, fresh values and everything read from the outside are
  arguments. Counters keep their width: \<open>u8\<close> budgets are \<open>8 word\<close>, saturating and wrapping
  additions are written out. Rust panics are values of the error type.

  \<^bold>\<open>Parameters.\<close> Code of other packages and services is never defined: the calendar arithmetic of
  \<open>chrono\<close> (locale \<open>chrono_calendar\<close>, interpreted by a Gregorian calendar), Unicode lower-casing,
  cryptography and encodings (\<open>nostr_lib\<close>, \<open>qr_lib\<close>, \<open>audit_lib\<close>), what Postgres keeps of a value
  (\<open>pg_laws\<close>), the commands of Redis and Lua's number formatting (\<open>env_laws\<close>), the serializer
  \<open>postcard\<close> (\<open>postcard_laws\<close>), the expression evaluator and its variable store (\<open>store_laws\<close>), cron
  schedules (\<open>schedule_of\<close>), name resolution, HTTP answers and signature verification. Each such hypothesis is discharged for a
  concrete instance in the witnesses.

  \<^bold>\<open>What the theorems show.\<close>

  \<^item> \<open>Schedule\<close>: a materialized range is exactly the lessons the rules and exceptions denote, in
    order; it fails exactly on malformed input and always returns; looking up one lesson agrees with
    it. \<open>Capacity\<close>: the limit holds along every history. \<open>Booking\<close>: a released seat is final.
  \<^item> \<open>Agent_Graph\<close>: budgets of a turn, and that accepted attempts stay within the role's authority.
  \<^item> \<open>Git_Perms\<close>: a reference update is allowed exactly when every matching rule permits it, and
    matching agrees with the meaning of patterns. \<open>Subscription\<close>: indexed fan-out delivers to
    exactly the matching subscriptions, the registry refines a map, stale snapshots and revoked
    channels are safe.
  \<^item> \<open>Pairing_Session\<close> and \<open>Pairing_Exchange\<close>: successful calls follow the protocol, and an
    undisturbed pairing completes. \<open>Pairing_Qr\<close>: the QR code round trip.
  \<^item> \<open>Audit_Log\<close>: written chains verify under any interleaving, and changing them unnoticed needs a
    hash collision, up to one boundary that is not hashed and to rows removed at the start of a range.
  \<^item> \<open>Acp_Queue_Safety\<close>: no event is processed twice, flushes are fair and bounded and lose nothing.
  \<^item> \<open>Session_Fencing\<close>, \<open>Session_Runs\<close>: the directory refines an abstract machine of leases, and
    over any run of calls, lost replies and expiries callers are fenced. \<open>Tunnel\<close>: bytes are
    delivered only under a live lease, and those of a forwarded client do arrive at the lease's owner
    while it lives.
  \<^item> \<open>Mesh_Convergence\<close>: one gossip round makes two runtimes agree, and every copy of a record is
    one its owner published. \<open>Mesh_Runtime\<close>: who is admitted, and that simultaneous dials agree.
  \<^item> \<open>Audio_Room\<close>: the indexes of a room stay unique and bounded, admission is exact, a huddle ends
    once. \<open>Huddle_Control\<close>: the handlers of a control stream and its reader refine an abstract
    mirror in which a client that has caught up holds exactly the owner's roster, and a
    control stream acts only under a validated fence and only on its own peers, all of which it drops at
    its end unless it registered one of them again. \<open>Huddle_Owner\<close>: a
    join goes to the owner the directory names, media goes neither back in generation, until the
    session is forgotten, nor to another room, and what a refused registration leaves behind blocks it. \<open>Huddle_Registry\<close>: the renewer is that of the reliable lane, and a drain leaves no owner
    behind under any interleaving with joins.
  \<^item> \<open>Pair_Validation\<close>: the payload check agrees with decoding. \<open>Pair_Relay\<close>: over all interleavings
    of connections an event is delivered at most once, and every resource stays within its limit.
  \<^item> \<open>Workflow_Executor\<close>: steps run in order and leave an exact trace, resuming continues the run,
    webhooks reach only addresses outside the documented blocks and only from definitions that need
    elevated authority, while reactions go to the relay's own address, messages stay in the channel of the workflow. \<open>Workflow_Template\<close>,
    \<open>Workflow_Condition\<close>: templates mean what they spell, trigger fields cannot be forged.
    \<open>Workflow_Schema\<close>, \<open>Network\<close>: validation and address classification are exactly the documented
    tables.
  \<^item> \<open>Workflow_Engine\<close>, \<open>Workflow_Schedule\<close>, \<open>Workflow_Runs\<close>: which events and ticks create runs, at
    most once per scheduled instant across pods while the workflow is not deleted nor its claim pruned,
    at least once after an interval; the permits bound
    what executes and the row of a run tells what happened. \<open>Workflow_Sink\<close>, \<open>Workflow_Approval\<close>:
    whom a message mentions, that it triggers nothing, and that an approval is acted on once.

  \<^bold>\<open>Bounds.\<close> No definition needs fuel: loops over dates end at the calendar's last day
  (\<open>partial_function (option)\<close> with a theorem that it returns), the others recurse on their data.
  The fencing theorems hold for fewer than \<open>10 ^ 14\<close> calls, up to which Lua prints a generation
  exactly; in the pairing relay an event stays between its
  reservation and its delivery for less than 50 seconds; gossip versions saturate after \<open>2 ^ 64 - 1\<close> updates; audit sequence numbers stay below
  \<open>2 ^ 63 - 1\<close>.

  \<^bold>\<open>Not modelled.\<close> Sockets, spawned tasks, SQL, HTTP handlers, model providers, media processing,
  user interfaces and command-line front ends: they compose calls of other packages, and what they
  decide locally is left for later. Floating-point suspicion levels and metrics are left out. Log
  lines and the texts of error messages are not kept.
\<close>

end
